(* ===== verification/Prelude.thy ===== *)
theory Prelude
  imports Main "HOL-Library.Word" "HOL-Library.Monad_Syntax"
begin

text \<open>
  Shared vocabulary of the development.

  \<^item> Error codes of \<^verbatim>\<open>lib/ext2fs/ext2_err.et.in\<close> and of \<^verbatim>\<open>errno.h\<close> as
    integers: the table's base is the number \<^verbatim>\<open>compile_et\<close> derives from the table name
    ``ext2'', an offset is the position of the code in the table.
  \<^item> C memory: an array is a list, and a read or write outside it is the value \<open>None\<close>
    (undefined behaviour in C). A function of type \<open>'a option\<close> therefore returns
    \<open>None\<close> exactly when the C code would touch memory it does not own.
  \<^item> 64- and 32-bit unsigned arithmetic on \<open>nat\<close> with the wrap-around written out.
\<close>

section \<open>Collections\<close>

named_theorems mem_simps \<open>reads and writes of C arrays inside their bounds\<close>
named_theorems u64_simps \<open>unsigned arithmetic that does not wrap\<close>

section \<open>Error codes\<close>

type_synonym errcode = int

abbreviation EXT2_ET_BASE :: errcode where "EXT2_ET_BASE \<equiv> 2133571328"
abbreviation EXT2_ET_MAGIC_BADBLOCKS_LIST :: errcode
  where "EXT2_ET_MAGIC_BADBLOCKS_LIST \<equiv> 2133571330"
abbreviation EXT2_ET_MAGIC_BADBLOCKS_ITERATE :: errcode
  where "EXT2_ET_MAGIC_BADBLOCKS_ITERATE \<equiv> 2133571331"
abbreviation EXT2_ET_MAGIC_BLOCK_BITMAP :: errcode where "EXT2_ET_MAGIC_BLOCK_BITMAP \<equiv> 2133571336"
abbreviation EXT2_ET_MAGIC_INODE_BITMAP :: errcode where "EXT2_ET_MAGIC_INODE_BITMAP \<equiv> 2133571337"
abbreviation EXT2_ET_MAGIC_GENERIC_BITMAP :: errcode where "EXT2_ET_MAGIC_GENERIC_BITMAP \<equiv> 2133571338"
abbreviation EXT2_ET_BAD_BLOCK_MARK :: errcode where "EXT2_ET_BAD_BLOCK_MARK \<equiv> 2133571373"
abbreviation EXT2_ET_BAD_INODE_MARK :: errcode where "EXT2_ET_BAD_INODE_MARK \<equiv> 2133571376"
abbreviation EXT2_ET_BAD_GENERIC_MARK :: errcode where "EXT2_ET_BAD_GENERIC_MARK \<equiv> 2133571389"
abbreviation EXT2_ET_NO_MEMORY :: errcode where "EXT2_ET_NO_MEMORY \<equiv> 2133571398"
abbreviation EXT2_ET_INVALID_ARGUMENT :: errcode where "EXT2_ET_INVALID_ARGUMENT \<equiv> 2133571399"
abbreviation EXT2_ET_MAGIC_GENERIC_BITMAP64 :: errcode
  where "EXT2_ET_MAGIC_GENERIC_BITMAP64 \<equiv> 2133571437"
abbreviation EXT2_ET_MAGIC_BLOCK_BITMAP64 :: errcode
  where "EXT2_ET_MAGIC_BLOCK_BITMAP64 \<equiv> 2133571438"
abbreviation EXT2_ET_MAGIC_INODE_BITMAP64 :: errcode
  where "EXT2_ET_MAGIC_INODE_BITMAP64 \<equiv> 2133571439"
abbreviation ENOENT :: errcode where "ENOENT \<equiv> 2"
abbreviation EINVAL :: errcode where "EINVAL \<equiv> 22"

section \<open>Arrays in memory\<close>

type_synonym u8 = "8 word"
type_synonym u32 = "32 word"

definition rd :: "'a list \<Rightarrow> nat \<Rightarrow> 'a option" where
  "rd xs i = (if i < length xs then Some (xs ! i) else None)"

definition wr :: "'a list \<Rightarrow> nat \<Rightarrow> 'a \<Rightarrow> 'a list option" where
  "wr xs i v = (if i < length xs then Some (xs[i := v]) else None)"

lemma rd_Some [mem_simps]: "i < length xs \<Longrightarrow> rd xs i = Some (xs ! i)"
  by (simp add: rd_def)

lemma wr_Some [mem_simps]: "i < length xs \<Longrightarrow> wr xs i v = Some (xs[i := v])"
  by (simp add: wr_def)

lemma rd_eq_Some_iff: "rd xs i = Some v \<longleftrightarrow> i < length xs \<and> v = xs ! i"
  by (auto simp: rd_def)

lemma wr_eq_Some_iff: "wr xs i v = Some ys \<longleftrightarrow> i < length xs \<and> ys = xs[i := v]"
  by (auto simp: wr_def)

lemma rd_append [simp]: "rd (xs @ ys) i = (if i < length xs then Some (xs ! i) else rd ys (i - length xs))"
  by (auto simp: rd_def nth_append)

text \<open>
  An allocator answers, for a size in bytes, whether the allocation succeeds; the contents of
  fresh memory are a parameter, since \<^verbatim>\<open>malloc\<close> and \<^verbatim>\<open>realloc\<close> do not
  initialise it.
\<close>

type_synonym allocator = "nat \<Rightarrow> bool"

definition resize_array :: "(nat \<Rightarrow> 'a) \<Rightarrow> nat \<Rightarrow> 'a list \<Rightarrow> 'a list" where
  "resize_array fresh n xs = take n xs @ map fresh [length xs..<n]"

lemma length_resize_array [simp]: "length (resize_array fresh n xs) = n"
  by (simp add: resize_array_def)

lemma take_resize_array [simp]:
  "m \<le> length xs \<Longrightarrow> m \<le> n \<Longrightarrow> take m (resize_array fresh n xs) = take m xs"
  by (simp add: resize_array_def)

lemma nth_resize_array [simp]:
  "i < length xs \<Longrightarrow> i < n \<Longrightarrow> resize_array fresh n xs ! i = xs ! i"
  by (simp add: resize_array_def nth_append)

section \<open>Unsigned 64-bit and 32-bit arithmetic\<close>

type_synonym u64 = nat

abbreviation W64 :: nat where "W64 \<equiv> 18446744073709551616"
abbreviation W32 :: nat where "W32 \<equiv> 4294967296"

definition add64 :: "u64 \<Rightarrow> u64 \<Rightarrow> u64" where
  "add64 a b = (a + b) mod W64"

definition sub64 :: "u64 \<Rightarrow> u64 \<Rightarrow> u64" where
  "sub64 a b = nat ((int a - int b) mod int W64)"

lemma add64_nowrap [u64_simps]: "a + b < W64 \<Longrightarrow> add64 a b = a + b"
  by (simp add: add64_def)

lemma sub64_nowrap [u64_simps]: "b \<le> a \<Longrightarrow> a < W64 \<Longrightarrow> sub64 a b = a - b"
  by (simp add: sub64_def)

lemma add64_lt [simp]: "add64 a b < W64"
  by (simp add: add64_def)

lemma sub64_lt [simp]: "sub64 a b < W64"
  by (simp add: sub64_def nat_less_iff)

definition add32 :: "nat \<Rightarrow> nat \<Rightarrow> nat" where
  "add32 a b = (a + b) mod W32"

definition sub32 :: "nat \<Rightarrow> nat \<Rightarrow> nat" where
  "sub32 a b = nat ((int a - int b) mod int W32)"

lemma add32_nowrap [u64_simps]: "a + b < W32 \<Longrightarrow> add32 a b = a + b"
  by (simp add: add32_def)

lemma sub32_nowrap [u64_simps]: "b \<le> a \<Longrightarrow> a < W32 \<Longrightarrow> sub32 a b = a - b"
  by (simp add: sub32_def)

lemma add32_lt [simp]: "add32 a b < W32"
  by (simp add: add32_def)

lemma sub32_lt [simp]: "sub32 a b < W32"
  by (simp add: sub32_def nat_less_iff)

section \<open>Strictly increasing lists\<close>

lemma sorted_wrt_less_nth_mono:
  fixes xs :: "'a::linorder list"
  assumes "sorted_wrt (<) xs" "i < length xs" "j < length xs"
  shows "xs ! i < xs ! j \<longleftrightarrow> i < j"
  using assms by (metis linorder_neqE_nat order_less_asym sorted_wrt_nth_less)

lemma sorted_wrt_less_nth_inj:
  fixes xs :: "'a::linorder list"
  assumes "sorted_wrt (<) xs" "i < length xs" "j < length xs"
  shows "xs ! i = xs ! j \<longleftrightarrow> i = j"
  using assms by (metis linorder_neqE_nat order_less_irrefl sorted_wrt_nth_less)

lemma sorted_wrt_less_unique:
  fixes xs ys :: "'a::linorder list"
  assumes "sorted_wrt (<) xs" "sorted_wrt (<) ys" "set xs = set ys"
  shows "xs = ys"
  using assms strict_sorted_equal by blast

end
