(* ===== verification/Badblocks.thy ===== *)
theory Badblocks
  imports Prelude
begin

text \<open>
  The u32 list of \<^verbatim>\<open>lib/ext2fs/badblocks.c\<close>: a growing array of 32-bit block numbers kept
  in strictly increasing order. The record is \<^verbatim>\<open>struct ext2_struct_u32_list\<close>; its array
  is a list of exactly \<open>bb_size\<close> words of which the first \<open>bb_num\<close> are in use. The lemmas
  show that the operations keep the order and implement a finite set, that the binary search is
  exact, and that no operation leaves the array.
\<close>

section \<open>Data\<close>

record u32_list =
  bb_magic :: errcode
  bb_num :: nat
  bb_size :: nat
  bb_list :: "u32 list"
  bb_flags :: int

text \<open>The iterator points to its list; the list it points to is passed beside it.\<close>

record u32_iterate =
  it_magic :: errcode
  it_ptr :: nat

section \<open>Operations\<close>

text \<open>
  The result of an operation that allocates is an error code and, when that is 0, the object.
  A negative size is converted to a huge unsigned count that \<^verbatim>\<open>ext2fs_get_array\<close> refuses.
\<close>

definition ext2fs_get_array :: "allocator \<Rightarrow> int \<Rightarrow> nat \<Rightarrow> bool" where
  "ext2fs_get_array mem count sz =
     (let c = nat (count mod int W64)
      in if c \<noteq> 0 \<and> (W64 - 1) div c < sz then False else mem (c * sz))"

definition make_u32_list ::
  "allocator \<Rightarrow> int \<Rightarrow> nat \<Rightarrow> u32 list option \<Rightarrow> (errcode + u32_list) option" where
  "make_u32_list mem sz num src =
     (if \<not> mem 32 then Some (Inl EXT2_ET_NO_MEMORY)
      else let n = (if sz \<noteq> 0 then sz else 10) in
        if \<not> ext2fs_get_array mem n 4 then Some (Inl EXT2_ET_NO_MEMORY)
        else let bb = \<lparr>bb_magic = EXT2_ET_MAGIC_BADBLOCKS_LIST, bb_num = num, bb_size = nat n,
                       bb_list = replicate (nat n) 0, bb_flags = 0\<rparr> in
          (case src of
             None \<Rightarrow> Some (Inr bb)
           | Some l \<Rightarrow> if length l < nat n then None
                       else Some (Inr (bb\<lparr>bb_list := take (nat n) l\<rparr>))))"

definition ext2fs_u32_list_create :: "allocator \<Rightarrow> int \<Rightarrow> (errcode + u32_list) option" where
  "ext2fs_u32_list_create mem sz = make_u32_list mem sz 0 None"

definition ext2fs_u32_copy :: "allocator \<Rightarrow> u32_list \<Rightarrow> (errcode + u32_list) option" where
  "ext2fs_u32_copy mem src =
     do { r \<leftarrow> make_u32_list mem (int (bb_size src)) (bb_num src) (Some (bb_list src));
          Some (case r of Inl e \<Rightarrow> Inl e | Inr dest \<Rightarrow> Inr (dest\<lparr>bb_flags := bb_flags src\<rparr>)) }"

text \<open>The two loops of \<^verbatim>\<open>ext2fs_u32_list_add\<close>: the search for the insertion point and
  the shift of the tail by one.\<close>

datatype place = Present | At nat

function u32_place :: "u32 list \<Rightarrow> nat \<Rightarrow> u32 \<Rightarrow> nat \<Rightarrow> place option" where
  "u32_place l num blk i =
     (if i < num then
        do { v \<leftarrow> rd l i;
             if v = blk then Some Present
             else if v > blk then Some (At i)
             else u32_place l num blk (Suc i) }
      else Some (At num))"
  by pat_completeness auto
termination by (relation "measure (\<lambda>(l, num, blk, i). num - i)") auto

fun shift_up :: "'a list \<Rightarrow> nat \<Rightarrow> nat \<Rightarrow> 'a list option" where
  "shift_up l i j =
     (if j < i then do { v \<leftarrow> rd l (i - 1); l' \<leftarrow> wr l i v; shift_up l' (i - 1) j } else Some l)"

text \<open>The size is an \<^verbatim>\<open>int\<close>, and its growth beyond \<open>2\<^sup>3\<^sup>1 - 1\<close> is undefined. The number of entries stays below the size.\<close>

definition ext2fs_u32_list_add ::
  "allocator \<Rightarrow> (nat \<Rightarrow> u32) \<Rightarrow> u32_list \<Rightarrow> u32 \<Rightarrow> (errcode \<times> u32_list) option" where
  "ext2fs_u32_list_add mem fresh bb blk =
     (if bb_magic bb \<noteq> EXT2_ET_MAGIC_BADBLOCKS_LIST then Some (EXT2_ET_MAGIC_BADBLOCKS_LIST, bb)
      else if bb_num bb \<ge> bb_size bb \<and> bb_size bb + 100 \<ge> 2 ^ 31 then None
      else if bb_num bb \<ge> bb_size bb \<and> \<not> mem ((bb_size bb + 100) * 4) then Some (EXT2_ET_NO_MEMORY, bb)
      else
        let bb = (if bb_num bb \<ge> bb_size bb
                  then bb\<lparr>bb_size := bb_size bb + 100,
                          bb_list := resize_array fresh (bb_size bb + 100) (bb_list bb)\<rparr>
                  else bb);
            num = bb_num bb
        in if num = 0 then
             do { l \<leftarrow> wr (bb_list bb) num blk; Some (0, bb\<lparr>bb_list := l, bb_num := Suc num\<rparr>) }
           else do {
             v \<leftarrow> rd (bb_list bb) (num - 1);
             if v = blk then Some (0, bb)
             else if v < blk then
               do { l \<leftarrow> wr (bb_list bb) num blk; Some (0, bb\<lparr>bb_list := l, bb_num := Suc num\<rparr>) }
             else do {
               p \<leftarrow> u32_place (bb_list bb) num blk 0;
               (case p of
                  Present \<Rightarrow> Some (0, bb)
                | At j \<Rightarrow> do {
                    l \<leftarrow> shift_up (bb_list bb) num j;
                    l' \<leftarrow> wr l j blk;
                    Some (0, bb\<lparr>bb_list := l', bb_num := Suc num\<rparr>) }) } })"

text \<open>\<^verbatim>\<open>ext2fs_u32_list_find\<close>: the bisection, then the function around it.\<close>

function u32_bisect :: "u32 list \<Rightarrow> u32 \<Rightarrow> nat \<Rightarrow> nat \<Rightarrow> int option" where
  "u32_bisect l blk low high =
     (if low < high then
        let mid = (low + high) div 2 in
        if mid = low \<or> mid = high then Some (-1)
        else do {
          v \<leftarrow> rd l mid;
          if blk = v then Some (int mid)
          else if blk < v then u32_bisect l blk low mid
          else u32_bisect l blk mid high }
      else Some (-1))"
  by pat_completeness auto
termination by (relation "measure (\<lambda>(l, blk, low, high). high - low)") auto

definition ext2fs_u32_list_find :: "u32_list \<Rightarrow> u32 \<Rightarrow> int option" where
  "ext2fs_u32_list_find bb blk =
     (if bb_magic bb \<noteq> EXT2_ET_MAGIC_BADBLOCKS_LIST then Some (-1)
      else if bb_num bb = 0 then Some (-1)
      else do {
        lo \<leftarrow> rd (bb_list bb) 0;
        if blk = lo then Some 0
        else do {
          hi \<leftarrow> rd (bb_list bb) (bb_num bb - 1);
          if blk = hi then Some (int (bb_num bb - 1))
          else u32_bisect (bb_list bb) blk 0 (bb_num bb - 1) } })"

definition ext2fs_u32_list_test :: "u32_list \<Rightarrow> u32 \<Rightarrow> bool option" where
  "ext2fs_u32_list_test bb blk = do { r \<leftarrow> ext2fs_u32_list_find bb blk; Some (\<not> r < 0) }"

function shift_down :: "'a list \<Rightarrow> nat \<Rightarrow> nat \<Rightarrow> 'a list option" where
  "shift_down l i n =
     (if i < n then do { v \<leftarrow> rd l (Suc i); l' \<leftarrow> wr l i v; shift_down l' (Suc i) n } else Some l)"
  by pat_completeness auto
termination by (relation "measure (\<lambda>(l, i, n). n - i)") auto

definition ext2fs_u32_list_del :: "u32_list \<Rightarrow> u32 \<Rightarrow> (int \<times> u32_list) option" where
  "ext2fs_u32_list_del bb blk =
     (if bb_num bb = 0 then Some (-1, bb)
      else do {
        remloc \<leftarrow> ext2fs_u32_list_find bb blk;
        if remloc < 0 then Some (-1, bb)
        else do {
          l \<leftarrow> shift_down (bb_list bb) (nat remloc) (bb_num bb - 1);
          Some (0, bb\<lparr>bb_list := l, bb_num := bb_num bb - 1\<rparr>) } })"

definition ext2fs_u32_list_iterate_begin :: "allocator \<Rightarrow> u32_list \<Rightarrow> errcode + u32_iterate" where
  "ext2fs_u32_list_iterate_begin mem bb =
     (if bb_magic bb \<noteq> EXT2_ET_MAGIC_BADBLOCKS_LIST then Inl EXT2_ET_MAGIC_BADBLOCKS_LIST
      else if \<not> mem 24 then Inl EXT2_ET_NO_MEMORY
      else Inr \<lparr>it_magic = EXT2_ET_MAGIC_BADBLOCKS_ITERATE, it_ptr = 0\<rparr>)"

text \<open>An iteration step returns the C result, the block it stored (if it stored one) and the
  iterator.\<close>

definition ext2fs_u32_list_iterate ::
  "u32_list \<Rightarrow> u32_iterate \<Rightarrow> (int \<times> u32 option \<times> u32_iterate) option" where
  "ext2fs_u32_list_iterate bb it =
     (if it_magic it \<noteq> EXT2_ET_MAGIC_BADBLOCKS_ITERATE then Some (0, None, it)
      else if bb_magic bb \<noteq> EXT2_ET_MAGIC_BADBLOCKS_LIST then Some (0, None, it)
      else if it_ptr it < bb_num bb then
        do { v \<leftarrow> rd (bb_list bb) (it_ptr it);
             Some (1, Some v, it\<lparr>it_ptr := Suc (it_ptr it)\<rparr>) }
      else Some (0, Some 0, it))"

text \<open>The loop a client runs: iterate until the result is 0, collecting the blocks.\<close>

fun u32_list_collect :: "nat \<Rightarrow> u32_list \<Rightarrow> u32_iterate \<Rightarrow> u32 list option" where
  "u32_list_collect 0 bb it = None"
| "u32_list_collect (Suc fuel) bb it =
     do { (r, blk, it') \<leftarrow> ext2fs_u32_list_iterate bb it;
          if r = 0 then Some []
          else do { rest \<leftarrow> u32_list_collect fuel bb it'; Some (the blk # rest) } }"

text \<open>\<^verbatim>\<open>memcmp\<close> on the two arrays compares the used prefixes; a magic mismatch returns
  the (non-zero) magic code.\<close>

definition ext2fs_u32_list_equal :: "u32_list \<Rightarrow> u32_list \<Rightarrow> int option" where
  "ext2fs_u32_list_equal bb1 bb2 =
     (if bb_magic bb1 \<noteq> EXT2_ET_MAGIC_BADBLOCKS_LIST then Some EXT2_ET_MAGIC_BADBLOCKS_LIST
      else if bb_magic bb2 \<noteq> EXT2_ET_MAGIC_BADBLOCKS_LIST then Some EXT2_ET_MAGIC_BADBLOCKS_LIST
      else if bb_num bb1 \<noteq> bb_num bb2 then Some 0
      else if length (bb_list bb1) < bb_num bb1 \<or> length (bb_list bb2) < bb_num bb1 then None
      else if take (bb_num bb1) (bb_list bb1) \<noteq> take (bb_num bb1) (bb_list bb2) then Some 0
      else Some 1)"

definition ext2fs_u32_list_count :: "u32_list \<Rightarrow> nat" where
  "ext2fs_u32_list_count bb = bb_num bb"

declare u32_place.simps [simp del] shift_up.simps [simp del] u32_bisect.simps [simp del]
  shift_down.simps [simp del]


section \<open>Abstraction and invariant\<close>

definition u32_elems :: "u32_list \<Rightarrow> u32 list" where
  "u32_elems bb = take (bb_num bb) (bb_list bb)"

definition u32_ok :: "u32_list \<Rightarrow> bool" where
  "u32_ok bb \<longleftrightarrow> bb_magic bb = EXT2_ET_MAGIC_BADBLOCKS_LIST \<and> bb_num bb \<le> bb_size bb \<and>
     length (bb_list bb) = bb_size bb \<and> sorted_wrt (<) (u32_elems bb)"

lemma length_u32_elems [simp]: "u32_ok bb \<Longrightarrow> length (u32_elems bb) = bb_num bb"
  by (simp add: u32_ok_def u32_elems_def)

section \<open>The loops\<close>

lemma shift_up_nth:
  assumes "j \<le> i" "i < length l"
  shows "\<exists>l'. shift_up l i j = Some l' \<and> length l' = length l \<and>
    (\<forall>k < length l. l' ! k = (if j < k \<and> k \<le> i then l ! (k - 1) else l ! k))"
  using assms
proof (induction l i j rule: shift_up.induct)
  case (1 l i j)
  show ?case
  proof (cases "j < i")
    case False
    then have "shift_up l i j = Some l" by (simp add: shift_up.simps [of l i j])
    with False "1.prems" show ?thesis by auto
  next
    case True
    let ?l = "l[i := l ! (i - 1)]"
    have v: "rd l (i - 1) = Some (l ! (i - 1))" "wr l i (l ! (i - 1)) = Some ?l"
      using True "1.prems" by (simp_all add: mem_simps)
    have "j \<le> i - 1" "i - 1 < length ?l" using True "1.prems" by auto
    from "1.IH" [OF True v this] obtain l' where l': "shift_up ?l (i - 1) j = Some l'"
      "length l' = length l"
      and n: "\<And>k. k < length l \<Longrightarrow> l' ! k = (if j < k \<and> k \<le> i - 1 then ?l ! (k - 1) else ?l ! k)"
      by auto
    have "l' ! k = (if j < k \<and> k \<le> i then l ! (k - 1) else l ! k)" if "k < length l" for k
      using n [OF that] that True "1.prems" by (auto simp: nth_list_update)
    with l' v True show ?thesis by (auto simp: shift_up.simps [of l i j])
  qed
qed

lemma shift_up_insert:
  assumes "j \<le> n" "n < length l"
  shows "\<exists>l'. shift_up l n j = Some l' \<and> length l' = length l \<and>
    take (Suc n) (l'[j := x]) = take j l @ x # drop j (take n l)"
proof -
  from shift_up_nth [OF assms] obtain l' where l': "shift_up l n j = Some l'" "length l' = length l"
    and n: "\<And>k. k < length l \<Longrightarrow> l' ! k = (if j < k \<and> k \<le> n then l ! (k - 1) else l ! k)" by blast
  have "take (Suc n) (l'[j := x]) = take j l @ x # drop j (take n l)"
    using assms l'(2) n
    by (intro nth_equalityI) (auto simp: nth_append nth_Cons' nth_list_update)
  with l' show ?thesis by blast
qed

lemma shift_down_nth:
  assumes "i \<le> n" "n < length l"
  shows "\<exists>l'. shift_down l i n = Some l' \<and> length l' = length l \<and>
    (\<forall>k < length l. l' ! k = (if i \<le> k \<and> k < n then l ! Suc k else l ! k))"
  using assms
proof (induction l i n rule: shift_down.induct)
  case (1 l i n)
  show ?case
  proof (cases "i < n")
    case False
    then have "shift_down l i n = Some l" by (simp add: shift_down.simps [of l i n])
    with False "1.prems" show ?thesis by auto
  next
    case True
    let ?l = "l[i := l ! Suc i]"
    have v: "rd l (Suc i) = Some (l ! Suc i)" "wr l i (l ! Suc i) = Some ?l"
      using True "1.prems" by (simp_all add: mem_simps)
    have "Suc i \<le> n" "n < length ?l" using True "1.prems" by auto
    from "1.IH" [OF True v this] obtain l' where l': "shift_down ?l (Suc i) n = Some l'"
      "length l' = length l"
      and n: "\<And>k. k < length l \<Longrightarrow> l' ! k = (if Suc i \<le> k \<and> k < n then ?l ! Suc k else ?l ! k)"
      by auto
    have "l' ! k = (if i \<le> k \<and> k < n then l ! Suc k else l ! k)" if "k < length l" for k
      using n [OF that] that True "1.prems" by (auto simp: nth_list_update)
    with l' v True show ?thesis by (auto simp: shift_down.simps [of l i n])
  qed
qed

lemma shift_down_delete:
  assumes "i \<le> n" "n < length l"
  shows "\<exists>l'. shift_down l i n = Some l' \<and> length l' = length l \<and>
    take n l' = take i l @ drop (Suc i) (take (Suc n) l)"
proof -
  from shift_down_nth [OF assms] obtain l' where l': "shift_down l i n = Some l'"
    "length l' = length l"
    and n: "\<And>k. k < length l \<Longrightarrow> l' ! k = (if i \<le> k \<and> k < n then l ! Suc k else l ! k)" by blast
  have "take n l' = take i l @ drop (Suc i) (take (Suc n) l)"
    using assms l'(2) n by (intro nth_equalityI) (auto simp: nth_append)
  with l' show ?thesis by blast
qed

lemma u32_place_spec:
  assumes "sorted_wrt (<) (take num l)" "num \<le> length l" "i \<le> num" "\<forall>k < i. l ! k < blk"
  shows "(blk \<in> set (take num l) \<and> u32_place l num blk i = Some Present) \<or>
    (\<exists>j. u32_place l num blk i = Some (At j) \<and> j \<le> num \<and> (\<forall>k < j. l ! k < blk) \<and>
      (\<forall>k. j \<le> k \<and> k < num \<longrightarrow> blk < l ! k))"
  using assms
proof (induction l num blk i rule: u32_place.induct)
  case (1 l num blk i)
  show ?case
  proof (cases "i < num")
    case False
    then have "u32_place l num blk i = Some (At num)" by (simp add: u32_place.simps [of l num blk i])
    with False "1.prems" show ?thesis by auto
  next
    case True
    have rdi: "rd l i = Some (l ! i)" using True "1.prems" by (simp add: mem_simps)
    consider (eq) "l ! i = blk" | (gt) "blk < l ! i" | (lt) "l ! i < blk" by fastforce
    then show ?thesis
    proof cases
      case eq
      then have "blk \<in> set (take num l)" using True "1.prems" by (auto simp: in_set_conv_nth)
      with eq True rdi show ?thesis by (simp add: u32_place.simps [of l num blk i])
    next
      case gt
      have "blk < l ! k" if "i \<le> k" "k < num" for k
        using sorted_wrt_nth_less [OF "1.prems"(1), of i k] that gt "1.prems"(2)
        by (cases "i = k") auto
      with gt True rdi "1.prems" show ?thesis by (auto simp: u32_place.simps [of l num blk i])
    next
      case lt
      have "\<forall>k < Suc i. l ! k < blk" using lt "1.prems" by (auto simp: less_Suc_eq)
      with "1.IH" [OF True rdi] lt "1.prems" True rdi show ?thesis
        by (auto simp: u32_place.simps [of l num blk i])
    qed
  qed
qed

lemma u32_bisect_spec:
  assumes "sorted_wrt (<) (take num l)" "num \<le> length l" "high < num"
    and "\<forall>k < num. l ! k = blk \<longrightarrow> low < k \<and> k < high"
  shows "(\<exists>k < num. l ! k = blk \<and> u32_bisect l blk low high = Some (int k)) \<or>
    ((\<forall>k < num. l ! k \<noteq> blk) \<and> u32_bisect l blk low high = Some (-1))"
  using assms
proof (induction l blk low high rule: u32_bisect.induct)
  case (1 l blk low high)
  let ?mid = "(low + high) div 2"
  show ?case
  proof (cases "low < high \<and> ?mid \<noteq> low \<and> ?mid \<noteq> high")
    case False
    then have "u32_bisect l blk low high = Some (-1)" by (auto simp: u32_bisect.simps [of l blk low high])
    moreover have "l ! k \<noteq> blk" if "k < num" for k
      using "1.prems"(4) that False by (cases "low < high") auto
    ultimately show ?thesis by blast
  next
    case True
    then have mid: "low < ?mid" "?mid < high" "?mid < num" using "1.prems"(3) by auto
    have rdm: "rd l ?mid = Some (l ! ?mid)" using mid "1.prems"(2) by (simp add: mem_simps)
    have unf: "u32_bisect l blk low high = (if blk = l ! ?mid then Some (int ?mid)
      else if blk < l ! ?mid then u32_bisect l blk low ?mid else u32_bisect l blk ?mid high)"
      using True rdm by (simp add: u32_bisect.simps [of l blk low high] Let_def)
    have mono: "l ! a < l ! b \<longleftrightarrow> a < b" if "a < num" "b < num" for a b
      using sorted_wrt_less_nth_mono [OF "1.prems"(1), of a b] that "1.prems"(2) by simp
    consider (eq) "blk = l ! ?mid" | (lt) "blk < l ! ?mid" | (gt) "l ! ?mid < blk" by fastforce
    then show ?thesis
    proof cases
      case eq
      with mid unf show ?thesis by auto
    next
      case lt
      have "\<forall>k < num. l ! k = blk \<longrightarrow> low < k \<and> k < ?mid"
        using "1.prems"(4) lt mono mid(3) by blast
      with "1.IH"(1) [OF _ refl _ rdm] lt True mid "1.prems" show ?thesis
        by (simp add: unf)
    next
      case gt
      have "\<forall>k < num. l ! k = blk \<longrightarrow> ?mid < k \<and> k < high"
        using "1.prems"(4) gt mono mid(3) by blast
      moreover have "\<not> blk < l ! ?mid" "blk \<noteq> l ! ?mid" using gt by auto
      ultimately show ?thesis
        using "1.IH"(2) [OF _ refl _ rdm] True mid "1.prems" by (simp add: unf)
    qed
  qed
qed

lemma u32_find_cases:
  assumes ok: "u32_ok bb"
  shows "(\<exists>k < bb_num bb. u32_elems bb ! k = blk \<and> ext2fs_u32_list_find bb blk = Some (int k)) \<or>
    (blk \<notin> set (u32_elems bb) \<and> ext2fs_u32_list_find bb blk = Some (-1))"
proof -
  note d = u32_ok_def u32_elems_def ext2fs_u32_list_find_def
  have len: "bb_num bb \<le> length (bb_list bb)" "sorted_wrt (<) (take (bb_num bb) (bb_list bb))"
    using ok by (simp_all add: d)
  show ?thesis
  proof (cases "bb_num bb = 0")
    case True
    with ok show ?thesis by (simp add: d)
  next
    case False
    let ?l = "bb_list bb" and ?h = "bb_num bb - 1"
    have r: "rd ?l 0 = Some (?l ! 0)" "rd ?l ?h = Some (?l ! ?h)"
      using False len by (auto intro!: rd_Some)
    show ?thesis
    proof (cases "blk = ?l ! 0 \<or> blk = ?l ! ?h")
      case True
      define k where "k = (if blk = ?l ! 0 then 0 else ?h)"
      have "ext2fs_u32_list_find bb blk = Some (int k)"
        using True False ok r by (auto simp: d k_def)
      moreover have "k < bb_num bb" "u32_elems bb ! k = blk"
        using True False by (auto simp: d k_def)
      ultimately show ?thesis by blast
    next
      case ne: False
      have "0 < k \<and> k < ?h" if "k < bb_num bb" "?l ! k = blk" for k
        using ne that by (cases "k = 0"; cases "k = ?h") auto
      with u32_bisect_spec [OF len(2,1), of ?h blk 0] False have
        "(\<exists>k < bb_num bb. ?l ! k = blk \<and> u32_bisect ?l blk 0 ?h = Some (int k)) \<or>
         ((\<forall>k < bb_num bb. ?l ! k \<noteq> blk) \<and> u32_bisect ?l blk 0 ?h = Some (-1))" by auto
      with False ne ok r show ?thesis by (auto simp: d in_set_conv_nth)
    qed
  qed
qed

section \<open>Properties of the list\<close>

lemma sorted_insert_at:
  fixes xs :: "'a::linorder list"
  assumes "sorted_wrt (<) xs" "j \<le> length xs" "\<forall>k < j. xs ! k < x"
    "\<forall>k. j \<le> k \<and> k < length xs \<longrightarrow> x < xs ! k"
  shows "sorted_wrt (<) (take j xs @ x # drop j xs)"
proof -
  have "\<forall>y \<in> set (take j xs). y < x" using assms(2,3) by (auto simp: in_set_conv_nth)
  moreover have "\<forall>y \<in> set (drop j xs). x < y" using assms(4) by (auto simp: in_set_conv_nth)
  moreover have "sorted_wrt (<) (take j xs @ drop j xs)" using assms(1) by simp
  ultimately show ?thesis by (auto simp del: append_take_drop_id simp: sorted_wrt_append)
qed

lemma u32_add_core:
  assumes ok: "u32_ok bb" and room: "bb_num bb < bb_size bb"
  shows "\<exists>bb'. ext2fs_u32_list_add mem fresh bb blk = Some (0, bb') \<and> u32_ok bb' \<and>
    set (u32_elems bb') = insert blk (set (u32_elems bb)) \<and> bb_size bb' = bb_size bb"
proof -
  let ?l = "bb_list bb" and ?n = "bb_num bb"
  have magic: "bb_magic bb = EXT2_ET_MAGIC_BADBLOCKS_LIST" and n: "?n < length ?l"
    and srt: "sorted_wrt (<) (take ?n ?l)" and len: "length ?l = bb_size bb"
    using ok room by (auto simp: u32_ok_def u32_elems_def)
  note add = ext2fs_u32_list_add_def Let_def magic
  have append: ?thesis if "\<forall>x \<in> set (take ?n ?l). x < blk"
    "ext2fs_u32_list_add mem fresh bb blk = Some (0, bb\<lparr>bb_list := ?l[?n := blk], bb_num := Suc ?n\<rparr>)"
    using that n len srt magic room
    by (auto simp: u32_ok_def u32_elems_def take_Suc_conv_app_nth sorted_wrt_append)
  have same: ?thesis if "blk \<in> set (take ?n ?l)" "ext2fs_u32_list_add mem fresh bb blk = Some (0, bb)"
    using that ok by (auto simp: u32_elems_def)
  show ?thesis
  proof (cases "?n = 0")
    case True
    with room n show ?thesis by (intro append) (auto simp: add mem_simps)
  next
    case False
    have last: "rd ?l (?n - 1) = Some (?l ! (?n - 1))" and wrn: "wr ?l ?n blk = Some (?l[?n := blk])"
      using n by (auto intro!: rd_Some wr_Some)
    have nth: "take ?n ?l ! k = ?l ! k" if "k < ?n" for k using that by simp
    consider (eq) "?l ! (?n - 1) = blk" | (lt) "?l ! (?n - 1) < blk" | (gt) "blk < ?l ! (?n - 1)" by fastforce
    then show ?thesis
    proof cases
      case eq
      have "take ?n ?l ! (?n - 1) \<in> set (take ?n ?l)" using False n by (intro nth_mem) auto
      with eq False have "blk \<in> set (take ?n ?l)" by simp
      with eq False room last show ?thesis by (intro same) (auto simp: add)
    next
      case lt
      have "x < blk" if "x \<in> set (take ?n ?l)" for x
      proof -
        from that obtain k where "k < ?n" "x = ?l ! k" using n by (auto simp: in_set_conv_nth)
        then consider "x = ?l ! (?n - 1)" | "x = ?l ! k" "k < ?n - 1" by (cases "k = ?n - 1") auto
        then show ?thesis
          using sorted_wrt_nth_less [OF srt, of k "?n - 1"] lt n by cases (auto intro: less_trans)
      qed
      with lt False room last wrn show ?thesis by (intro append) (auto simp: add)
    next
      case gt
      from u32_place_spec [OF srt less_imp_le [OF n], of 0 blk] consider
        (p) "blk \<in> set (take ?n ?l)" "u32_place ?l ?n blk 0 = Some Present"
        | (a) j where "u32_place ?l ?n blk 0 = Some (At j)" "j \<le> ?n" "\<forall>k < j. ?l ! k < blk"
            "\<forall>k. j \<le> k \<and> k < ?n \<longrightarrow> blk < ?l ! k" by auto
      then show ?thesis
      proof cases
        case p
        with gt False room last show ?thesis by (intro same) (auto simp: add)
      next
        case a
        from shift_up_insert [OF a(2) n, of blk] obtain l' where l': "shift_up ?l ?n j = Some l'"
          "length l' = length ?l" "take (Suc ?n) (l'[j := blk]) = take j (take ?n ?l) @ blk # drop j (take ?n ?l)"
          using a(2) by auto
        have "sorted_wrt (<) (take j (take ?n ?l) @ blk # drop j (take ?n ?l))"
          using srt a n by (intro sorted_insert_at) auto
        moreover have "set (take j (take ?n ?l) @ blk # drop j (take ?n ?l)) = insert blk (set (take ?n ?l))"
          using set_append [of "take j (take ?n ?l)" "drop j (take ?n ?l)"] by (auto simp del: take_take)
        moreover have "ext2fs_u32_list_add mem fresh bb blk =
          Some (0, bb\<lparr>bb_list := l'[j := blk], bb_num := Suc ?n\<rparr>)"
          using gt False room last l' a n by (auto simp: add mem_simps)
        ultimately show ?thesis using l' magic len n room by (simp add: u32_ok_def u32_elems_def)
      qed
    qed
  qed
qed

lemma u32_ok_grow:
  assumes "u32_ok bb"
  shows "u32_ok (bb\<lparr>bb_size := bb_size bb + 100,
      bb_list := resize_array fresh (bb_size bb + 100) (bb_list bb)\<rparr>)"
    and "u32_elems (bb\<lparr>bb_size := bb_size bb + 100,
      bb_list := resize_array fresh (bb_size bb + 100) (bb_list bb)\<rparr>) = u32_elems bb"
  using assms by (auto simp: u32_ok_def u32_elems_def)

lemma u32_add_grow:
  assumes "u32_ok bb" "bb_num bb \<ge> bb_size bb" "mem ((bb_size bb + 100) * 4)" "bb_size bb + 100 < 2 ^ 31"
  shows "ext2fs_u32_list_add mem fresh bb blk =
    ext2fs_u32_list_add mem fresh (bb\<lparr>bb_size := bb_size bb + 100,
      bb_list := resize_array fresh (bb_size bb + 100) (bb_list bb)\<rparr>) blk"
  using assms by (simp add: ext2fs_u32_list_add_def Let_def u32_ok_def)

text \<open>C8. Adding a block to a well-formed u32 list, whose \<^verbatim>\<open>int\<close> size does not overflow if it has to grow, never leaves the array; it either reports that
  memory is exhausted and changes nothing (only possible when the array is full), or returns 0, keeps
  the list strictly increasing and within its array, and adds exactly that block to the set of listed
  blocks, whatever the reallocated memory contained.\<close>

theorem u32_list_add_correct:
  assumes "u32_ok bb" "bb_size bb < 2 ^ 31" "bb_num bb = bb_size bb \<longrightarrow> bb_size bb + 100 < 2 ^ 31"
  shows "\<exists>r bb'. ext2fs_u32_list_add mem fresh bb blk = Some (r, bb') \<and> u32_ok bb' \<and>
    (r = 0 \<and> set (u32_elems bb') = insert blk (set (u32_elems bb)) \<or>
     r = EXT2_ET_NO_MEMORY \<and> bb' = bb \<and> bb_num bb = bb_size bb \<and> \<not> mem ((bb_size bb + 100) * 4))"
proof (cases "bb_num bb < bb_size bb")
  case True
  from u32_add_core [OF assms(1) this] show ?thesis by blast
next
  case full: False
  with assms(1) have eq: "bb_num bb = bb_size bb" by (simp add: u32_ok_def)
  show ?thesis
  proof (cases "mem ((bb_size bb + 100) * 4)")
    case False
    with full eq assms show ?thesis by (simp add: ext2fs_u32_list_add_def u32_ok_def)
  next
    case True
    let ?g = "bb\<lparr>bb_size := bb_size bb + 100,
      bb_list := resize_array fresh (bb_size bb + 100) (bb_list bb)\<rparr>"
    have "bb_num ?g < bb_size ?g" using eq by simp
    from u32_add_core [OF u32_ok_grow(1) [OF assms(1)] this, of mem fresh blk] show ?thesis
      using u32_add_grow [of bb mem fresh blk] True eq assms u32_ok_grow(2) [OF assms(1), of fresh]
      by auto
  qed
qed

definition u32_demo :: u32_list where
  "u32_demo = \<lparr>bb_magic = EXT2_ET_MAGIC_BADBLOCKS_LIST, bb_num = 2, bb_size = 2,
     bb_list = [5, 9], bb_flags = 0\<rparr>"

lemma u32_demo_ok: "u32_ok u32_demo"
  by (simp add: u32_demo_def u32_ok_def u32_elems_def)

theorem u32_list_add_correct_witness:
  "u32_ok u32_demo \<and> (\<exists>r bb'. ext2fs_u32_list_add (\<lambda>_. True) (\<lambda>_. 77) u32_demo 7 = Some (r, bb') \<and>
    u32_ok bb' \<and> r = 0 \<and> set (u32_elems bb') = {5, 7, 9})"
  using u32_list_add_correct [OF u32_demo_ok, where mem = "\<lambda>_. True" and fresh = "\<lambda>_. 77" and blk = 7] u32_demo_ok
  by (auto simp: u32_demo_def u32_elems_def)

text \<open>C9. The bisection of a well-formed list always answers, with the position of the block when it
  is listed and with -1 exactly when it is not.\<close>

theorem u32_list_find_correct:
  assumes "u32_ok bb"
  shows "\<exists>r. ext2fs_u32_list_find bb blk = Some r \<and> (r < 0 \<longleftrightarrow> blk \<notin> set (u32_elems bb)) \<and>
    (0 \<le> r \<longrightarrow> nat r < bb_num bb \<and> u32_elems bb ! nat r = blk)"
proof -
  have "u32_elems bb ! k \<in> set (u32_elems bb)" if "k < bb_num bb" for k
    using that assms by (auto intro!: nth_mem)
  with u32_find_cases [OF assms, of blk] show ?thesis by fastforce
qed

theorem u32_list_find_correct_witness:
  "u32_ok u32_demo \<and> (\<exists>r. ext2fs_u32_list_find u32_demo 9 = Some r \<and> 0 \<le> r \<and> u32_elems u32_demo ! nat r = 9)"
  using u32_list_find_correct [OF u32_demo_ok, of 9] u32_demo_ok
  by (auto simp: u32_demo_def u32_elems_def not_less)

lemma sorted_remove_at:
  fixes xs :: "'a::linorder list"
  assumes "sorted_wrt (<) xs" "i < length xs"
  shows "sorted_wrt (<) (take i xs @ drop (Suc i) xs)"
    and "set (take i xs @ drop (Suc i) xs) = set xs - {xs ! i}"
proof -
  have s: "sorted_wrt (<) (take i xs @ xs ! i # drop (Suc i) xs)"
    using assms by (simp add: id_take_nth_drop [symmetric])
  then show "sorted_wrt (<) (take i xs @ drop (Suc i) xs)" by (simp add: sorted_wrt_append)
  have "set xs = set (take i xs @ xs ! i # drop (Suc i) xs)"
    using assms by (simp add: id_take_nth_drop [symmetric])
  also have "\<dots> - {xs ! i} = set (take i xs @ drop (Suc i) xs)"
    using s by (auto simp: sorted_wrt_append)
  finally show "set (take i xs @ drop (Suc i) xs) = set xs - {xs ! i}" by simp
qed

text \<open>Deleting a block from a well-formed list never leaves the array: it returns 0 and removes
  exactly that block when it is listed, returns -1 and changes nothing otherwise, and keeps the list
  well-formed.\<close>

theorem u32_list_del_correct:
  assumes "u32_ok bb"
  shows "\<exists>r bb'. ext2fs_u32_list_del bb blk = Some (r, bb') \<and> u32_ok bb' \<and>
    set (u32_elems bb') = set (u32_elems bb) - {blk} \<and>
    (r = 0 \<longleftrightarrow> blk \<in> set (u32_elems bb)) \<and> (r \<noteq> 0 \<longrightarrow> r = -1 \<and> bb' = bb)"
proof (cases "blk \<in> set (u32_elems bb)")
  case False
  with u32_find_cases [OF assms, of blk] have "ext2fs_u32_list_find bb blk = Some (-1)"
    by (metis assms length_u32_elems nth_mem)
  with False assms show ?thesis by (auto simp: ext2fs_u32_list_del_def)
next
  case True
  with u32_find_cases [OF assms, of blk] obtain k where
    k: "k < bb_num bb" "u32_elems bb ! k = blk" "ext2fs_u32_list_find bb blk = Some (int k)" by blast
  let ?l = "bb_list bb" and ?n = "bb_num bb - 1"
  have n: "k \<le> ?n" "?n < length ?l" using k assms by (auto simp: u32_ok_def)
  from shift_down_delete [OF n] obtain l' where l': "shift_down ?l k ?n = Some l'" "length l' = length ?l"
    "take ?n l' = take k ?l @ drop (Suc k) (take (Suc ?n) ?l)" by blast
  let ?bb = "bb\<lparr>bb_list := l', bb_num := ?n\<rparr>"
  have e: "u32_elems ?bb = take k (u32_elems bb) @ drop (Suc k) (u32_elems bb)"
    using l'(3) k(1) by (simp add: u32_elems_def min_def)
  have d: "ext2fs_u32_list_del bb blk = Some (0, ?bb)"
    using k l' by (simp add: ext2fs_u32_list_del_def)
  have "sorted_wrt (<) (u32_elems bb)" "k < length (u32_elems bb)" using assms k by (auto simp: u32_ok_def)
  note rem = sorted_remove_at [OF this]
  have "u32_ok ?bb" using rem(1) e l'(2) assms by (auto simp: u32_ok_def)
  moreover have "set (u32_elems ?bb) = set (u32_elems bb) - {blk}" using rem(2) e k(2) by simp
  ultimately show ?thesis using d True by blast
qed

theorem u32_list_del_correct_witness:
  "u32_ok u32_demo \<and> (\<exists>r bb'. ext2fs_u32_list_del u32_demo 5 = Some (r, bb') \<and> u32_ok bb' \<and> r = 0 \<and>
     set (u32_elems bb') = {9})"
  using u32_list_del_correct [OF u32_demo_ok, of 5] u32_demo_ok
  by (auto simp: u32_demo_def u32_elems_def)

lemma u32_list_collect_drop:
  assumes "u32_ok bb" "it_magic it = EXT2_ET_MAGIC_BADBLOCKS_ITERATE"
    "bb_num bb - it_ptr it < fuel"
  shows "u32_list_collect fuel bb it = Some (drop (it_ptr it) (u32_elems bb))"
  using assms
proof (induction fuel arbitrary: it)
  case 0
  then show ?case by simp
next
  case (Suc fuel)
  show ?case
  proof (cases "it_ptr it < bb_num bb")
    case True
    then have "drop (it_ptr it) (u32_elems bb) = bb_list bb ! it_ptr it # drop (Suc (it_ptr it)) (u32_elems bb)"
      using Suc.prems(1) by (simp add: u32_elems_def Cons_nth_drop_Suc [symmetric] u32_ok_def)
    with True Suc show ?thesis
      by (simp add: ext2fs_u32_list_iterate_def u32_ok_def mem_simps)
  next
    case False
    with Suc.prems show ?thesis by (simp add: ext2fs_u32_list_iterate_def u32_ok_def u32_elems_def)
  qed
qed

text \<open>An iteration over a well-formed list visits every listed block once, in strictly increasing
  order, and then stops: \<open>bb_num + 1\<close> calls are enough.\<close>

theorem u32_list_iterate_complete:
  assumes "u32_ok bb" "ext2fs_u32_list_iterate_begin mem bb = Inr it"
  shows "\<exists>xs. u32_list_collect (Suc (ext2fs_u32_list_count bb)) bb it = Some xs \<and>
    sorted_wrt (<) xs \<and> set xs = set (u32_elems bb) \<and> length xs = ext2fs_u32_list_count bb"
proof -
  have "it = \<lparr>it_magic = EXT2_ET_MAGIC_BADBLOCKS_ITERATE, it_ptr = 0\<rparr>"
    using assms(2) by (simp add: ext2fs_u32_list_iterate_begin_def split: if_splits)
  then have "u32_list_collect (Suc (bb_num bb)) bb it = Some (u32_elems bb)"
    using u32_list_collect_drop [OF assms(1), of it "Suc (bb_num bb)"] by simp
  with assms(1) show ?thesis by (auto simp: u32_ok_def ext2fs_u32_list_count_def)
qed

theorem u32_list_iterate_complete_witness:
  "u32_ok u32_demo \<and> ext2fs_u32_list_iterate_begin (\<lambda>_. True) u32_demo =
     Inr \<lparr>it_magic = EXT2_ET_MAGIC_BADBLOCKS_ITERATE, it_ptr = 0\<rparr> \<and>
   (\<exists>xs. u32_list_collect (Suc (ext2fs_u32_list_count u32_demo)) u32_demo
       \<lparr>it_magic = EXT2_ET_MAGIC_BADBLOCKS_ITERATE, it_ptr = 0\<rparr> = Some xs \<and> set xs = {5, 9})"
proof -
  have b: "ext2fs_u32_list_iterate_begin (\<lambda>_. True) u32_demo =
     Inr \<lparr>it_magic = EXT2_ET_MAGIC_BADBLOCKS_ITERATE, it_ptr = 0\<rparr>"
    by (simp add: ext2fs_u32_list_iterate_begin_def u32_demo_def)
  from u32_list_iterate_complete [OF u32_demo_ok b] b u32_demo_ok show ?thesis
    by (auto simp: u32_elems_def u32_demo_def)
qed

text \<open>A successful copy of a well-formed list with a non-empty array is well-formed, compares
  equal to the original, and two well-formed lists compare equal exactly when they hold the same set
  of blocks.\<close>

theorem u32_list_copy_equal:
  assumes "u32_ok bb" "0 < bb_size bb" "ext2fs_u32_copy mem bb = Some (Inr bb')" "u32_ok bb2"
  shows "u32_ok bb' \<and> ext2fs_u32_list_equal bb bb' = Some 1 \<and> bb_flags bb' = bb_flags bb \<and>
    ext2fs_u32_list_equal bb bb2 = Some (if set (u32_elems bb) = set (u32_elems bb2) then 1 else 0)"
proof -
  have bb': "bb' = bb\<lparr>bb_list := take (bb_size bb) (bb_list bb)\<rparr>"
    using assms(1-3)
    by (auto simp: ext2fs_u32_copy_def make_u32_list_def Let_def u32_ok_def split: if_splits)
  have "take (bb_num bb) (bb_list bb) = take (bb_num bb) (bb_list bb2) \<and> bb_num bb = bb_num bb2"
    if h: "set (u32_elems bb) = set (u32_elems bb2)"
  proof -
    have e: "u32_elems bb = u32_elems bb2"
      using sorted_wrt_less_unique [OF _ _ h] assms(1,4) by (auto simp: u32_ok_def)
    then have "bb_num bb = bb_num bb2" by (metis length_u32_elems assms(1,4))
    with e show ?thesis by (simp add: u32_elems_def)
  qed
  moreover have "set (u32_elems bb) = set (u32_elems bb2)"
    if "take (bb_num bb) (bb_list bb) = take (bb_num bb) (bb_list bb2)" "bb_num bb = bb_num bb2"
    using that by (simp add: u32_elems_def)
  ultimately have "ext2fs_u32_list_equal bb bb2 =
      Some (if set (u32_elems bb) = set (u32_elems bb2) then 1 else 0)"
    using assms(1,4) by (auto simp: ext2fs_u32_list_equal_def u32_ok_def)
  with assms(1) bb' show ?thesis
    by (auto simp: u32_ok_def u32_elems_def ext2fs_u32_list_equal_def)
qed

theorem u32_list_copy_equal_witness:
  "u32_ok u32_demo \<and> ext2fs_u32_copy (\<lambda>_. True) u32_demo = Some (Inr u32_demo) \<and>
   ext2fs_u32_list_equal u32_demo u32_demo = Some 1"
proof -
  have c: "ext2fs_u32_copy (\<lambda>_. True) u32_demo = Some (Inr u32_demo)" "0 < bb_size u32_demo"
    by (simp_all add: ext2fs_u32_copy_def make_u32_list_def u32_demo_def ext2fs_get_array_def)
  from u32_list_copy_equal [OF u32_demo_ok c(2,1) u32_demo_ok] c u32_demo_ok show ?thesis by simp
qed

end
