(* ===== verification/Bitops.thy ===== *)
theory Bitops
  imports Prelude
begin

text \<open>
  Bit operations on byte arrays, \<^verbatim>\<open>lib/ext2fs/bitops.c\<close>: setting, clearing and testing
  bit \<open>nr\<close> of an array of bytes, least significant bit first, and counting the bits. A bit
  number outside the array is an access outside memory (\<open>None\<close>). The abstraction is the set of
  numbers of the bits that are 1.
\<close>

unbundle bit_operations_syntax

section \<open>Operations\<close>

definition bit_mask :: "nat \<Rightarrow> u8" where
  "bit_mask nr = push_bit (nr mod 8) 1"

definition ext2fs_set_bit64 :: "u64 \<Rightarrow> u8 list \<Rightarrow> (int \<times> u8 list) option" where
  "ext2fs_set_bit64 nr addr =
     do { b \<leftarrow> rd addr (nr div 8);
          addr' \<leftarrow> wr addr (nr div 8) (b OR bit_mask nr);
          Some (uint (bit_mask nr AND b), addr') }"

definition ext2fs_clear_bit64 :: "u64 \<Rightarrow> u8 list \<Rightarrow> (int \<times> u8 list) option" where
  "ext2fs_clear_bit64 nr addr =
     do { b \<leftarrow> rd addr (nr div 8);
          addr' \<leftarrow> wr addr (nr div 8) (b AND NOT (bit_mask nr));
          Some (uint (bit_mask nr AND b), addr') }"

definition ext2fs_test_bit64 :: "u64 \<Rightarrow> u8 list \<Rightarrow> int option" where
  "ext2fs_test_bit64 nr addr =
     do { b \<leftarrow> rd addr (nr div 8); Some (uint (bit_mask nr AND b)) }"

text \<open>The fast variants of \<^verbatim>\<open>bitops.h\<close> only write.\<close>

definition ext2fs_fast_set_bit64 :: "u64 \<Rightarrow> u8 list \<Rightarrow> u8 list option" where
  "ext2fs_fast_set_bit64 nr addr =
     do { b \<leftarrow> rd addr (nr div 8); wr addr (nr div 8) (b OR bit_mask nr) }"

definition ext2fs_fast_clear_bit64 :: "u64 \<Rightarrow> u8 list \<Rightarrow> u8 list option" where
  "ext2fs_fast_clear_bit64 nr addr =
     do { b \<leftarrow> rd addr (nr div 8); wr addr (nr div 8) (b AND NOT (bit_mask nr)) }"

text \<open>The variants with an \<^verbatim>\<open>unsigned int\<close> bit number have the same bodies.\<close>

definition ext2fs_set_bit :: "nat \<Rightarrow> u8 list \<Rightarrow> (int \<times> u8 list) option" where
  "ext2fs_set_bit nr addr =
     do { b \<leftarrow> rd addr (nr div 8);
          addr' \<leftarrow> wr addr (nr div 8) (b OR bit_mask nr);
          Some (uint (bit_mask nr AND b), addr') }"

definition ext2fs_clear_bit :: "nat \<Rightarrow> u8 list \<Rightarrow> (int \<times> u8 list) option" where
  "ext2fs_clear_bit nr addr =
     do { b \<leftarrow> rd addr (nr div 8);
          addr' \<leftarrow> wr addr (nr div 8) (b AND NOT (bit_mask nr));
          Some (uint (bit_mask nr AND b), addr') }"

definition ext2fs_test_bit :: "nat \<Rightarrow> u8 list \<Rightarrow> int option" where
  "ext2fs_test_bit nr addr =
     do { b \<leftarrow> rd addr (nr div 8); Some (uint (bit_mask nr AND b)) }"

section \<open>Blocks of bytes\<close>

text \<open>\<^verbatim>\<open>memset\<close> and \<^verbatim>\<open>memcpy\<close> at an offset of an array.\<close>

definition mem_fill :: "u8 list \<Rightarrow> nat \<Rightarrow> u8 \<Rightarrow> nat \<Rightarrow> u8 list option" where
  "mem_fill arr off c n =
     (if off + n \<le> length arr then Some (take off arr @ replicate n c @ drop (off + n) arr) else None)"

definition mem_read :: "u8 list \<Rightarrow> nat \<Rightarrow> nat \<Rightarrow> u8 list option" where
  "mem_read arr off n = (if off + n \<le> length arr then Some (take n (drop off arr)) else None)"

definition mem_write :: "u8 list \<Rightarrow> nat \<Rightarrow> u8 list \<Rightarrow> u8 list option" where
  "mem_write arr off xs =
     (if off + length xs \<le> length arr then Some (take off arr @ xs @ drop (off + length xs) arr) else None)"

section \<open>The set of one bits\<close>

definition bits :: "u8 list \<Rightarrow> nat set" where
  "bits xs = {n. n < 8 * length xs \<and> bit (xs ! (n div 8)) (n mod 8)}"

lemma bits_iff: "n \<in> bits xs \<longleftrightarrow> n < 8 * length xs \<and> bit (xs ! (n div 8)) (n mod 8)"
  by (simp add: bits_def)

lemma bits_bound: "n \<in> bits xs \<Longrightarrow> n < 8 * length xs"
  by (simp add: bits_iff)

lemma div8_lt: "n div 8 < (m::nat) \<longleftrightarrow> n < 8 * m"
  by (simp add: div_less_iff_less_mult mult.commute)

lemma lt_8_bytes: "m \<le> n \<Longrightarrow> m < 8 * (n div 8 + 1)" for m n :: nat
  by presburger

lemma bit_bit_mask: "bit (bit_mask nr) k \<longleftrightarrow> k = nr mod 8"
  by (auto simp: bit_mask_def bit_simps)

lemma mask_and_eq_0: "bit_mask nr AND b = 0 \<longleftrightarrow> \<not> bit b (nr mod 8)"
proof -
  have "bit_mask nr AND b = 0 \<longleftrightarrow> (\<forall>k. \<not> bit (bit_mask nr AND b) k)"
    by (metis bit_0_eq bit_eq_iff bot_apply bot_bool_def)
  then show ?thesis by (auto simp: bit_simps bit_bit_mask)
qed

lemma test_bit64_spec:
  "nr < 8 * length xs \<Longrightarrow> ext2fs_test_bit64 nr xs = Some (uint (bit_mask nr AND xs ! (nr div 8)))"
  by (simp add: ext2fs_test_bit64_def rd_Some div8_lt)

lemma uint_mask_neq_0:
  "nr < 8 * length xs \<Longrightarrow> uint (bit_mask nr AND xs ! (nr div 8)) \<noteq> 0 \<longleftrightarrow> nr \<in> bits xs"
  by (metis uint_0_iff mask_and_eq_0 bits_iff)

lemma bits_update:
  assumes "nr < 8 * length xs"
  shows "n \<in> bits (xs[nr div 8 := b]) \<longleftrightarrow>
    (if n div 8 = nr div 8 then bit b (n mod 8) else n \<in> bits xs)"
proof -
  have i: "nr div 8 < length xs" using assms by (simp add: div8_lt)
  show ?thesis
  proof (cases "n div 8 = nr div 8")
    case True
    with i have "n < 8 * length xs" by (simp add: div8_lt [symmetric])
    with True i show ?thesis by (simp add: bits_iff)
  next
    case False
    then show ?thesis by (simp add: bits_iff)
  qed
qed

lemma div_mod_8_eq: "n div 8 = nr div 8 \<Longrightarrow> n mod 8 = nr mod 8 \<longleftrightarrow> n = (nr::nat)"
  by (metis div_mult_mod_eq)

lemma in_bits_same_byte:
  "nr < 8 * length xs \<Longrightarrow> n div 8 = nr div 8 \<Longrightarrow> n \<in> bits xs \<longleftrightarrow> bit (xs ! (nr div 8)) (n mod 8)"
  by (metis bits_iff div8_lt)

lemma bits_set:
  assumes "nr < 8 * length xs"
  shows "bits (xs[nr div 8 := (xs ! (nr div 8)) OR bit_mask nr]) = insert nr (bits xs)"
proof (intro set_eqI)
  fix n
  show "n \<in> bits (xs[nr div 8 := (xs ! (nr div 8)) OR bit_mask nr]) \<longleftrightarrow> n \<in> insert nr (bits xs)"
  proof (cases "n div 8 = nr div 8")
    case True
    then show ?thesis
      unfolding bits_update [OF assms] bit_or_iff bit_bit_mask insert_iff
      using in_bits_same_byte [OF assms True] div_mod_8_eq [OF True] by auto
  next
    case False
    then show ?thesis unfolding bits_update [OF assms] by auto
  qed
qed

lemma bits_clear:
  assumes "nr < 8 * length xs"
  shows "bits (xs[nr div 8 := (xs ! (nr div 8)) AND NOT (bit_mask nr)]) = bits xs - {nr}"
proof (intro set_eqI)
  fix n
  show "n \<in> bits (xs[nr div 8 := (xs ! (nr div 8)) AND NOT (bit_mask nr)]) \<longleftrightarrow> n \<in> bits xs - {nr}"
  proof (cases "n div 8 = nr div 8")
    case True
    have "n mod 8 < LENGTH(8)" by simp
    then show ?thesis
      unfolding bits_update [OF assms] bit_and_iff bit_not_iff bit_bit_mask
      using in_bits_same_byte [OF assms True] div_mod_8_eq [OF True] True by auto
  next
    case False
    then show ?thesis unfolding bits_update [OF assms] by auto
  qed
qed

lemma set_bit64_spec:
  assumes "nr < 8 * length xs"
  shows "\<exists>r ys. ext2fs_set_bit64 nr xs = Some (r, ys) \<and> length ys = length xs \<and>
    bits ys = insert nr (bits xs) \<and> (r \<noteq> 0 \<longleftrightarrow> nr \<in> bits xs)"
  using assms bits_set [OF assms] uint_mask_neq_0 [OF assms]
  by (simp add: ext2fs_set_bit64_def rd_Some wr_Some div8_lt)

lemma clear_bit64_spec:
  assumes "nr < 8 * length xs"
  shows "\<exists>r ys. ext2fs_clear_bit64 nr xs = Some (r, ys) \<and> length ys = length xs \<and>
    bits ys = bits xs - {nr} \<and> (r \<noteq> 0 \<longleftrightarrow> nr \<in> bits xs)"
  using assms bits_clear [OF assms] uint_mask_neq_0 [OF assms]
  by (simp add: ext2fs_clear_bit64_def rd_Some wr_Some div8_lt)

lemma fast_set_bit64_spec:
  assumes "nr < 8 * length xs"
  shows "\<exists>ys. ext2fs_fast_set_bit64 nr xs = Some ys \<and> length ys = length xs \<and> bits ys = insert nr (bits xs)"
  using assms bits_set [OF assms] by (simp add: ext2fs_fast_set_bit64_def rd_Some wr_Some div8_lt)

lemma fast_clear_bit64_spec:
  assumes "nr < 8 * length xs"
  shows "\<exists>ys. ext2fs_fast_clear_bit64 nr xs = Some ys \<and> length ys = length xs \<and> bits ys = bits xs - {nr}"
  using assms bits_clear [OF assms] by (simp add: ext2fs_fast_clear_bit64_def rd_Some wr_Some div8_lt)

lemma bits_replicate_0 [simp]: "bits (replicate n 0) = {}"
  by (auto simp: bits_iff div8_lt)

lemma bits_Cons_replicate_0 [simp]: "bits (0 # replicate n 0) = {}"
  using bits_replicate_0 [of "Suc n"] by (simp del: bits_replicate_0)

lemma bits_append: "n \<in> bits (xs @ ys) \<longleftrightarrow>
    (if n < 8 * length xs then n \<in> bits xs else n - 8 * length xs \<in> bits ys)"
proof (cases "n < 8 * length xs")
  case True
  then show ?thesis by (simp add: bits_iff nth_append div8_lt)
next
  case False
  then obtain m where m: "n = 8 * length xs + m" by (metis le_Suc_ex not_less)
  then have "n div 8 = length xs + m div 8" "n mod 8 = m mod 8" by simp_all
  with m False show ?thesis by (auto simp: bits_iff nth_append)
qed

lemma bits_take: "n \<in> bits (take k xs) \<longleftrightarrow> n < 8 * k \<and> n \<in> bits xs"
proof (cases "n < 8 * k \<and> n < 8 * length xs")
  case True
  then have "n div 8 < k" by (simp add: div8_lt)
  with True show ?thesis by (auto simp: bits_iff)
next
  case False
  then show ?thesis by (auto simp: bits_iff)
qed

lemma take_eq_iff_bits:
  assumes "n \<le> length xs" "n \<le> length ys"
  shows "take n xs = take n ys \<longleftrightarrow> (\<forall>k < 8 * n. k \<in> bits xs \<longleftrightarrow> k \<in> bits ys)"
proof
  assume eq: "take n xs = take n ys"
  show "\<forall>k < 8 * n. k \<in> bits xs \<longleftrightarrow> k \<in> bits ys" by (metis eq bits_take)
next
  assume b: "\<forall>k < 8 * n. k \<in> bits xs \<longleftrightarrow> k \<in> bits ys"
  have "xs ! i = ys ! i" if i: "i < n" for i
  proof (rule bit_word_eqI)
    fix j
    assume "j < LENGTH(8)"
    then have j: "j < 8" by simp
    then have k: "8 * i + j < 8 * n" using i by linarith
    have "(8 * i + j) div 8 = i" "(8 * i + j) mod 8 = j" using j by simp_all
    with b k assms show "bit (xs ! i) j = bit (ys ! i) j" by (fastforce simp: bits_iff)
  qed
  then show "take n xs = take n ys" using assms by (intro nth_equalityI) simp_all
qed

lemma bits_drop: "n \<in> bits (drop k xs) \<longleftrightarrow> n + 8 * k \<in> bits xs"
proof -
  have "(n + 8 * k) div 8 = k + n div 8" "(n + 8 * k) mod 8 = n mod 8" by simp_all
  moreover have "n < 8 * length (drop k xs) \<longleftrightarrow> n + 8 * k < 8 * length xs" by auto
  ultimately show ?thesis by (cases "k \<le> length xs") (auto simp: bits_iff)
qed

lemma mem_write_bits:
  assumes "off + length xs \<le> length arr"
  shows "\<exists>arr'. mem_write arr off xs = Some arr' \<and> length arr' = length arr \<and>
    mem_read arr' off (length xs) = Some xs \<and>
    (\<forall>n. n \<in> bits arr' \<longleftrightarrow> (if 8 * off \<le> n \<and> n < 8 * (off + length xs) then n - 8 * off \<in> bits xs else n \<in> bits arr))"
proof -
  let ?a = "take off arr @ xs @ drop (off + length xs) arr"
  have "n \<in> bits ?a \<longleftrightarrow> (if 8 * off \<le> n \<and> n < 8 * (off + length xs) then n - 8 * off \<in> bits xs else n \<in> bits arr)"
    for n
  proof -
    have "n - 8 * off - 8 * length xs + 8 * (off + length xs) = n" if "8 * (off + length xs) \<le> n"
      using that by simp
    then show ?thesis
      using assms by (auto simp: bits_append bits_take bits_drop min_def bits_iff [of _ "[]"] dest: bits_bound)
  qed
  with assms show ?thesis by (simp add: mem_write_def mem_read_def)
qed

lemma mem_fill_bits:
  assumes "off + n \<le> length arr"
  shows "\<exists>arr'. mem_fill arr off c n = Some arr' \<and> length arr' = length arr \<and>
    (\<forall>k. k \<in> bits arr' \<longleftrightarrow> (if 8 * off \<le> k \<and> k < 8 * (off + n) then bit c (k mod 8) else k \<in> bits arr))"
proof -
  have eq: "mem_fill arr off c n = mem_write arr off (replicate n c)" by (simp add: mem_fill_def mem_write_def)
  have "k - 8 * off \<in> bits (replicate n c) \<longleftrightarrow> bit c (k mod 8)" if k: "8 * off \<le> k" "k < 8 * (off + n)" for k
  proof -
    obtain j where j: "k = 8 * off + j" using k(1) le_Suc_ex by blast
    then have "j < 8 * n" "j mod 8 = k mod 8" using k(2) by simp_all
    then show ?thesis by (simp add: j bits_iff div8_lt)
  qed
  moreover from assms have "off + length (replicate n c) \<le> length arr" by simp
  note mem_write_bits [OF this]
  ultimately show ?thesis unfolding eq by (elim exE conjE) simp
qed

lemma bit_255: "bit (255 :: u8) k \<longleftrightarrow> k < 8"
proof -
  have "(255 :: u8) = mask 8" by (simp add: mask_eq_exp_minus_1)
  then show ?thesis by (simp only: bit_mask_iff) simp
qed

end
