(* ===== verification/Bmap64.thy ===== *)
theory Bmap64
  imports Bitops
begin

text \<open>
  The 64-bit bitmap object and the table of back-end operations of \<^verbatim>\<open>lib/ext2fs/bmap64.h\<close>,
  and the contract a back end promises to the generic layer of \<^verbatim>\<open>gen_bitmap64.c\<close>.

  The type parameter \<open>'p\<close> is the back end's private data (\<^verbatim>\<open>void *private\<close>); the
  operation table is a record of functions, as in C. An operation that may touch memory outside its
  object has an option result. Operations that only move search cursors still return the object.
\<close>

section \<open>The object and the operation table\<close>

record 'p bmap =
  bm_magic :: errcode
  bm_start :: u64
  bm_end :: u64
  bm_real_end :: u64
  bm_cluster_bits :: nat
  bm_description :: "string option"
  bm_base_error_code :: errcode
  bm_private :: 'p

record 'p bitmap_ops =
  bop_type :: nat
  new_bmap :: "allocator \<Rightarrow> 'p bmap \<Rightarrow> (errcode \<times> 'p bmap) option"
  copy_bmap :: "allocator \<Rightarrow> 'p bmap \<Rightarrow> 'p bmap \<Rightarrow> (errcode \<times> 'p bmap \<times> 'p bmap) option"
  resize_bmap :: "allocator \<Rightarrow> (nat \<Rightarrow> u8) \<Rightarrow> 'p bmap \<Rightarrow> u64 \<Rightarrow> u64 \<Rightarrow> (errcode \<times> 'p bmap) option"
  mark_bmap :: "'p bmap \<Rightarrow> u64 \<Rightarrow> (int \<times> 'p bmap) option"
  unmark_bmap :: "'p bmap \<Rightarrow> u64 \<Rightarrow> (int \<times> 'p bmap) option"
  test_bmap :: "'p bmap \<Rightarrow> u64 \<Rightarrow> (int \<times> 'p bmap) option"
  mark_bmap_extent :: "'p bmap \<Rightarrow> u64 \<Rightarrow> nat \<Rightarrow> 'p bmap option"
  unmark_bmap_extent :: "'p bmap \<Rightarrow> u64 \<Rightarrow> nat \<Rightarrow> 'p bmap option"
  test_clear_bmap_extent :: "'p bmap \<Rightarrow> u64 \<Rightarrow> nat \<Rightarrow> int option"
  set_bmap_range :: "'p bmap \<Rightarrow> u64 \<Rightarrow> nat \<Rightarrow> u8 list \<Rightarrow> (errcode \<times> 'p bmap) option"
  get_bmap_range :: "'p bmap \<Rightarrow> u64 \<Rightarrow> nat \<Rightarrow> u8 list \<Rightarrow> (errcode \<times> u8 list) option"
  clear_bmap :: "'p bmap \<Rightarrow> 'p bmap option"
  find_first_zero :: "'p bmap \<Rightarrow> u64 \<Rightarrow> u64 \<Rightarrow> (errcode + u64) option"
  find_first_set :: "'p bmap \<Rightarrow> u64 \<Rightarrow> u64 \<Rightarrow> (errcode + u64) option"

text \<open>A small bitmap for the numbers 1 to 20, to evaluate operations on.\<close>

definition small_bmap :: "'p \<Rightarrow> 'p bmap" where
  "small_bmap p = \<lparr>bm_magic = EXT2_ET_MAGIC_BLOCK_BITMAP64, bm_start = 1, bm_end = 20, bm_real_end = 20,
     bm_cluster_bits = 0, bm_description = None, bm_base_error_code = EXT2_ET_BAD_BLOCK_MARK, bm_private = p\<rparr>"

section \<open>First bit of a kind in a range\<close>

text \<open>What \<^verbatim>\<open>find_first_zero\<close> and \<^verbatim>\<open>find_first_set\<close> promise: the least
  position of the range with the wanted value, \<^verbatim>\<open>ENOENT\<close> when there is none.\<close>

definition first_in :: "(nat \<Rightarrow> bool) \<Rightarrow> u64 \<Rightarrow> u64 \<Rightarrow> errcode + u64 \<Rightarrow> bool" where
  "first_in P s e r \<longleftrightarrow>
     (case r of
        Inr n \<Rightarrow> s \<le> n \<and> n \<le> e \<and> P n \<and> (\<forall>k. s \<le> k \<and> k < n \<longrightarrow> \<not> P k)
      | Inl c \<Rightarrow> c = ENOENT \<and> (\<forall>k. s \<le> k \<and> k \<le> e \<longrightarrow> \<not> P k))"

lemma first_in_Inr: "first_in P s e (Inr n) \<longleftrightarrow>
    s \<le> n \<and> n \<le> e \<and> P n \<and> (\<forall>k. s \<le> k \<and> k < n \<longrightarrow> \<not> P k)"
  by (simp add: first_in_def)

lemma first_in_Inl: "first_in P s e (Inl c) \<longleftrightarrow> c = ENOENT \<and> (\<forall>k. s \<le> k \<and> k \<le> e \<longrightarrow> \<not> P k)"
  by (simp add: first_in_def)

lemma first_in_Suc:
  assumes "\<not> P s" "first_in P (s + 1) e r"
  shows "first_in P s e r"
proof -
  have split: "s \<le> k \<longleftrightarrow> k = s \<or> s + 1 \<le> k" for k by auto
  show ?thesis using assms by (cases r) (auto simp: first_in_Inl first_in_Inr split)
qed

lemma first_in_unique: "first_in P s e r \<Longrightarrow> first_in P s e r' \<Longrightarrow> r = r'"
  by (cases r; cases r') (auto simp: first_in_Inl first_in_Inr, meson linorder_neqE_nat)

section \<open>What no operation on bits changes\<close>

definition same_frame :: "'p bmap \<Rightarrow> 'p bmap \<Rightarrow> bool" where
  "same_frame a b \<longleftrightarrow> b = a\<lparr>bm_private := bm_private b\<rparr>"

lemma same_frame_refl [simp]: "same_frame a a"
  by (simp add: same_frame_def)

lemma same_frame_trans: "same_frame a b \<Longrightarrow> same_frame b c \<Longrightarrow> same_frame a c"
  by (cases a; cases b; cases c) (simp add: same_frame_def)

lemma same_frame_private [simp]: "same_frame a (a\<lparr>bm_private := p\<rparr>)"
  by (simp add: same_frame_def)

lemma same_frame_sel:
  assumes "same_frame a b"
  shows "bm_magic b = bm_magic a" "bm_start b = bm_start a" "bm_end b = bm_end a"
    "bm_real_end b = bm_real_end a" "bm_cluster_bits b = bm_cluster_bits a"
  using assms by (cases a; cases b; simp add: same_frame_def)+

section \<open>The back-end contract\<close>

text \<open>
  \<open>bset b\<close> is the set of block or inode numbers marked in \<open>b\<close>, \<open>inv\<close> the back end's
  invariant. Marking and testing are specified for numbers inside \<open>[start, real_end]\<close>, which is
  what the generic layer guarantees.
\<close>

locale bitmap_backend =
  fixes ops :: "'p bitmap_ops"
    and bset :: "'p bmap \<Rightarrow> nat set"
    and inv :: "'p bmap \<Rightarrow> bool"
  assumes frame: "inv b \<Longrightarrow> bm_start b \<le> bm_end b \<and> bm_end b \<le> bm_real_end b \<and> bm_real_end b < W64 - 1"
    and test: "\<lbrakk>inv b; bm_start b \<le> n; n \<le> bm_real_end b\<rbrakk> \<Longrightarrow>
      \<exists>r b'. test_bmap ops b n = Some (r, b') \<and> inv b' \<and> same_frame b b' \<and> bset b' = bset b \<and>
        (r \<noteq> 0 \<longleftrightarrow> n \<in> bset b)"
    and mark: "\<lbrakk>inv b; bm_start b \<le> n; n \<le> bm_real_end b\<rbrakk> \<Longrightarrow>
      \<exists>r b'. mark_bmap ops b n = Some (r, b') \<and> inv b' \<and> same_frame b b' \<and>
        bset b' = insert n (bset b) \<and> (r \<noteq> 0 \<longleftrightarrow> n \<in> bset b)"
    and unmark: "\<lbrakk>inv b; bm_start b \<le> n; n \<le> bm_real_end b\<rbrakk> \<Longrightarrow>
      \<exists>r b'. unmark_bmap ops b n = Some (r, b') \<and> inv b' \<and> same_frame b b' \<and>
        bset b' = bset b - {n} \<and> (n \<in> bset b \<longrightarrow> r \<noteq> 0)"
    and mark_extent: "\<lbrakk>inv b; bm_start b \<le> n; 0 < num; n + num - 1 \<le> bm_real_end b\<rbrakk> \<Longrightarrow>
      \<exists>b'. mark_bmap_extent ops b n num = Some b' \<and> inv b' \<and> same_frame b b' \<and>
        bset b' = bset b \<union> {n..<n + num}"
    and unmark_extent: "\<lbrakk>inv b; bm_start b \<le> n; 0 < num; n + num - 1 \<le> bm_real_end b\<rbrakk> \<Longrightarrow>
      \<exists>b'. unmark_bmap_extent ops b n num = Some b' \<and> inv b' \<and> same_frame b b' \<and>
        bset b' = bset b - {n..<n + num}"
    and test_clear: "\<lbrakk>inv b; bm_start b \<le> n; 0 < num; n + num - 1 \<le> bm_real_end b\<rbrakk> \<Longrightarrow>
      \<exists>r. test_clear_bmap_extent ops b n num = Some r \<and> (r \<noteq> 0 \<longleftrightarrow> bset b \<inter> {n..<n + num} = {})"
    and clear: "inv b \<Longrightarrow> \<exists>b'. clear_bmap ops b = Some b' \<and> inv b' \<and> same_frame b b' \<and> bset b' = {}"
    and first_set: "\<lbrakk>inv b; bm_start b \<le> s; s \<le> e; e \<le> bm_real_end b\<rbrakk> \<Longrightarrow>
      \<exists>r. find_first_set ops b s e = Some r \<and> first_in (\<lambda>k. k \<in> bset b) s e r"
    and first_zero: "\<lbrakk>inv b; bm_start b \<le> s; s \<le> e; e \<le> bm_real_end b\<rbrakk> \<Longrightarrow>
      \<exists>r. find_first_zero ops b s e = Some r \<and> (first_in (\<lambda>k. k \<notin> bset b) s e r \<or> bset b = {} \<and> r = Inl ENOENT)"

text \<open>Creating and copying a bitmap when memory is available.\<close>

locale bitmap_backend_alloc = bitmap_backend +
  assumes new: "\<lbrakk>\<forall>n. mem n; bm_start b \<le> bm_end b; bm_end b \<le> bm_real_end b; bm_real_end b < W64 - 1\<rbrakk> \<Longrightarrow>
      \<exists>b'. new_bmap ops mem b = Some (0, b') \<and> inv b' \<and> same_frame b b' \<and> bset b' = {}"
    and new_result: "new_bmap ops mem b = Some (r, b') \<Longrightarrow> r = 0 \<or> r = EXT2_ET_NO_MEMORY"
    and copy: "\<lbrakk>\<forall>n. mem n; inv src; bm_start dest = bm_start src; bm_end dest = bm_end src;
        bm_real_end dest = bm_real_end src\<rbrakk> \<Longrightarrow>
      \<exists>src' dest'. copy_bmap ops mem src dest = Some (0, src', dest') \<and> inv src' \<and> same_frame src src' \<and>
        bset src' = bset src \<and> inv dest' \<and> same_frame dest dest' \<and> bset dest' = bset src"

end
