(* ===== verification/Bitmap_Ba.thy ===== *)
theory Bitmap_Ba
  imports Bmap64
begin

text \<open>
  The bit-array back end, \<^verbatim>\<open>lib/ext2fs/blkmap64_ba.c\<close>. The private data is the byte array
  itself. \<^verbatim>\<open>ba_find_first_zero\<close> and \<^verbatim>\<open>ba_find_first_set\<close> differ only in the
  wanted bit value, so their loops take it as a parameter; \<open>base\<close> is the address of the array,
  which decides where the 8-byte aligned scan starts. The lemmas show that every operation stays inside
  the array and implements the set of marked numbers, and discharge the back-end contract.
\<close>

unbundle bit_operations_syntax

type_synonym ba_bmap = "u8 list bmap"

section \<open>Allocation, copy, resize\<close>

definition ba_size :: "ba_bmap \<Rightarrow> nat" where
  "ba_size b = sub64 (bm_real_end b) (bm_start b) div 8 + 1"

definition ba_alloc_private_data :: "allocator \<Rightarrow> (nat \<Rightarrow> u8) \<Rightarrow> ba_bmap \<Rightarrow> errcode \<times> ba_bmap" where
  "ba_alloc_private_data mem fresh b =
     (if \<not> mem 8 then (EXT2_ET_NO_MEMORY, b)
      else if \<not> mem (ba_size b) then (EXT2_ET_NO_MEMORY, b)
      else (0, b\<lparr>bm_private := map fresh [0..<ba_size b]\<rparr>))"

definition ba_new_bmap :: "(nat \<Rightarrow> u8) \<Rightarrow> allocator \<Rightarrow> ba_bmap \<Rightarrow> (errcode \<times> ba_bmap) option" where
  "ba_new_bmap fresh mem b =
     (case ba_alloc_private_data mem fresh b of (retval, b') \<Rightarrow>
        if retval \<noteq> 0 then Some (retval, b')
        else do { arr \<leftarrow> mem_fill (bm_private b') 0 0 (ba_size b');
                  Some (0, b'\<lparr>bm_private := arr\<rparr>) })"

definition ba_copy_bmap ::
  "(nat \<Rightarrow> u8) \<Rightarrow> allocator \<Rightarrow> ba_bmap \<Rightarrow> ba_bmap \<Rightarrow> (errcode \<times> ba_bmap \<times> ba_bmap) option" where
  "ba_copy_bmap fresh mem src dest =
     (case ba_alloc_private_data mem fresh dest of (retval, dest') \<Rightarrow>
        if retval \<noteq> 0 then Some (retval, src, dest')
        else do { xs \<leftarrow> mem_read (bm_private src) 0 (ba_size src);
                  arr \<leftarrow> mem_write (bm_private dest') 0 xs;
                  Some (0, src, dest'\<lparr>bm_private := arr\<rparr>) })"

fun ba_clear_down :: "u64 \<Rightarrow> u64 \<Rightarrow> u64 \<Rightarrow> u8 list \<Rightarrow> u8 list option" where
  "ba_clear_down start end bitno arr =
     (if bitno > end
      then do { (_, arr') \<leftarrow> ext2fs_clear_bit64 (sub64 bitno start) arr;
                ba_clear_down start end (bitno - 1) arr' }
      else Some arr)"

definition ba_resize_bmap ::
  "allocator \<Rightarrow> (nat \<Rightarrow> u8) \<Rightarrow> ba_bmap \<Rightarrow> u64 \<Rightarrow> u64 \<Rightarrow> (errcode \<times> ba_bmap) option" where
  "ba_resize_bmap mem fresh b new_end new_real_end =
     do { arr \<leftarrow> (if new_end > bm_end b
                  then ba_clear_down (bm_start b) (bm_end b)
                         (if bm_real_end b > new_end then new_end else bm_real_end b) (bm_private b)
                  else Some (bm_private b));
          let b1 = b\<lparr>bm_private := arr\<rparr> in
          if new_real_end = bm_real_end b then Some (0, b1\<lparr>bm_end := new_end\<rparr>)
          else
            let sz = sub64 (bm_real_end b) (bm_start b) div 8 + 1;
                new_sz = sub64 new_real_end (bm_start b) div 8 + 1
            in if sz \<noteq> new_sz \<and> \<not> mem new_sz then Some (EXT2_ET_NO_MEMORY, b1)
               else do {
                 let arr1 = (if sz \<noteq> new_sz then resize_array fresh new_sz arr else arr);
                 arr2 \<leftarrow> (if new_sz > sz then mem_fill arr1 sz 0 (new_sz - sz) else Some arr1);
                 Some (0, b1\<lparr>bm_private := arr2, bm_end := new_end, bm_real_end := new_real_end\<rparr>) } }"

section \<open>Single bits and extents\<close>

definition ba_mark_bmap :: "ba_bmap \<Rightarrow> u64 \<Rightarrow> (int \<times> ba_bmap) option" where
  "ba_mark_bmap b arg =
     do { (r, arr) \<leftarrow> ext2fs_set_bit64 (sub64 arg (bm_start b)) (bm_private b);
          Some (r, b\<lparr>bm_private := arr\<rparr>) }"

definition ba_unmark_bmap :: "ba_bmap \<Rightarrow> u64 \<Rightarrow> (int \<times> ba_bmap) option" where
  "ba_unmark_bmap b arg =
     do { (r, arr) \<leftarrow> ext2fs_clear_bit64 (sub64 arg (bm_start b)) (bm_private b);
          Some (r, b\<lparr>bm_private := arr\<rparr>) }"

definition ba_test_bmap :: "ba_bmap \<Rightarrow> u64 \<Rightarrow> (int \<times> ba_bmap) option" where
  "ba_test_bmap b arg =
     do { r \<leftarrow> ext2fs_test_bit64 (sub64 arg (bm_start b)) (bm_private b); Some (r, b) }"

function ba_set_loop :: "u64 \<Rightarrow> u64 \<Rightarrow> nat \<Rightarrow> nat \<Rightarrow> u8 list \<Rightarrow> u8 list option" where
  "ba_set_loop start bitno num i arr =
     (if i < num
      then do { arr' \<leftarrow> ext2fs_fast_set_bit64 (sub64 (add64 bitno i) start) arr;
                ba_set_loop start bitno num (Suc i) arr' }
      else Some arr)"
  by pat_completeness auto
termination by (relation "measure (\<lambda>(s, b, num, i, arr). num - i)") auto

definition ba_mark_bmap_extent :: "ba_bmap \<Rightarrow> u64 \<Rightarrow> nat \<Rightarrow> ba_bmap option" where
  "ba_mark_bmap_extent b arg num =
     do { arr \<leftarrow> ba_set_loop (bm_start b) arg num 0 (bm_private b); Some (b\<lparr>bm_private := arr\<rparr>) }"

function ba_clear_loop :: "u64 \<Rightarrow> u64 \<Rightarrow> nat \<Rightarrow> nat \<Rightarrow> u8 list \<Rightarrow> u8 list option" where
  "ba_clear_loop start bitno num i arr =
     (if i < num
      then do { arr' \<leftarrow> ext2fs_fast_clear_bit64 (sub64 (add64 bitno i) start) arr;
                ba_clear_loop start bitno num (Suc i) arr' }
      else Some arr)"
  by pat_completeness auto
termination by (relation "measure (\<lambda>(s, b, num, i, arr). num - i)") auto

definition ba_unmark_bmap_extent :: "ba_bmap \<Rightarrow> u64 \<Rightarrow> nat \<Rightarrow> ba_bmap option" where
  "ba_unmark_bmap_extent b arg num =
     do { arr \<leftarrow> ba_clear_loop (bm_start b) arg num 0 (bm_private b); Some (b\<lparr>bm_private := arr\<rparr>) }"

section \<open>Testing a range for zero\<close>

text \<open>\<^verbatim>\<open>ext2fs_mem_is_zero\<close> of \<^verbatim>\<open>gen_bitmap.c\<close>: 256 bytes at a time.\<close>

fun ext2fs_mem_is_zero :: "u8 list \<Rightarrow> nat \<Rightarrow> nat \<Rightarrow> int option" where
  "ext2fs_mem_is_zero mem off len =
     (if len \<ge> 256 then
        do { xs \<leftarrow> mem_read mem off 256;
             if xs \<noteq> replicate 256 0 then Some 0 else ext2fs_mem_is_zero mem (off + 256) (len - 256) }
      else if len \<noteq> 0 then
        do { xs \<leftarrow> mem_read mem off len; Some (if xs = replicate len 0 then 1 else 0) }
      else Some 1)"

text \<open>The mask loop \<^verbatim>\<open>for (i = count; i > 0; i--, bit--) m |= 1 << bit\<close>.\<close>

fun mask_down :: "nat \<Rightarrow> nat \<Rightarrow> u8 \<Rightarrow> u8" where
  "mask_down 0 k m = m"
| "mask_down (Suc i) k m = mask_down i (k - 1) (m OR push_bit k 1)"

text \<open>The part of \<^verbatim>\<open>ba_test_clear_bmap_extent\<close> from the byte boundary on.\<close>

definition ba_clear_tail :: "u8 list \<Rightarrow> nat \<Rightarrow> nat \<Rightarrow> nat \<Rightarrow> int option" where
  "ba_clear_tail ADDR start_byte len_bit len_byte =
     (if len_bit \<noteq> 0 then
        do { c \<leftarrow> rd ADDR (start_byte + len_byte);
             if mask_down len_bit (len_bit - 1) 0 AND c \<noteq> 0 then Some 0
             else if len_byte = 0 then Some 1
             else ext2fs_mem_is_zero ADDR start_byte len_byte }
      else ext2fs_mem_is_zero ADDR start_byte len_byte)"

definition ba_test_clear_bmap_extent :: "ba_bmap \<Rightarrow> u64 \<Rightarrow> nat \<Rightarrow> int option" where
  "ba_test_clear_bmap_extent b start0 len =
     (let ADDR = bm_private b;
          start = sub64 start0 (bm_start b);
          start_byte = start div 8;
          start_bit = start mod 8
      in if start_bit \<noteq> 0 then
           let mark_count = (if len < 8 - start_bit then len else 8 - start_bit);
               mark_bit = (if len < 8 - start_bit then len + start_bit - 1 else 7);
               first_bit = mask_down mark_count mark_bit 0
           in do { c \<leftarrow> rd ADDR start_byte;
                   if first_bit AND c \<noteq> 0 then Some 0
                   else if len \<le> 8 - start_bit then Some 1
                   else ba_clear_tail ADDR (start_byte + 1) ((len - mark_count) mod 8) ((len - mark_count) div 8) }
         else ba_clear_tail ADDR start_byte (len mod 8) (len div 8))"

section \<open>Whole ranges\<close>

definition ba_set_bmap_range :: "ba_bmap \<Rightarrow> u64 \<Rightarrow> nat \<Rightarrow> u8 list \<Rightarrow> (errcode \<times> ba_bmap) option" where
  "ba_set_bmap_range b start num src =
     do { xs \<leftarrow> mem_read src 0 ((num + 7) div 8);
          arr \<leftarrow> mem_write (bm_private b) (start div 8) xs;
          Some (0, b\<lparr>bm_private := arr\<rparr>) }"

definition ba_get_bmap_range :: "ba_bmap \<Rightarrow> u64 \<Rightarrow> nat \<Rightarrow> u8 list \<Rightarrow> (errcode \<times> u8 list) option" where
  "ba_get_bmap_range b start num out =
     do { xs \<leftarrow> mem_read (bm_private b) (start div 8) ((num + 7) div 8);
          out' \<leftarrow> mem_write out 0 xs;
          Some (0, out') }"

definition ba_clear_bmap :: "ba_bmap \<Rightarrow> ba_bmap option" where
  "ba_clear_bmap b =
     do { arr \<leftarrow> mem_fill (bm_private b) 0 0 (ba_size b); Some (b\<lparr>bm_private := arr\<rparr>) }"

section \<open>Searching\<close>

definition skip_byte :: "bool \<Rightarrow> u8" where
  "skip_byte want = (if want then 0 else 255)"

function scan_to_byte :: "bool \<Rightarrow> u8 list \<Rightarrow> nat \<Rightarrow> nat \<Rightarrow> (nat + nat \<times> nat) option" where
  "scan_to_byte want arr bitpos count =
     (if bitpos mod 8 \<noteq> 0 \<and> count > 0 then
        do { t \<leftarrow> ext2fs_test_bit64 bitpos arr;
             if (t \<noteq> 0) = want then Some (Inl bitpos)
             else scan_to_byte want arr (bitpos + 1) (count - 1) }
      else Some (Inr (bitpos, count)))"
  by pat_completeness auto
termination by (relation "measure (\<lambda>(w, arr, bitpos, count). count)") auto

function scan_aligned ::
  "bool \<Rightarrow> nat \<Rightarrow> u8 list \<Rightarrow> nat \<Rightarrow> nat \<Rightarrow> nat \<Rightarrow> (bool \<times> nat \<times> nat \<times> nat) option" where
  "scan_aligned want base arr pos bitpos count =
     (if count \<ge> 8 \<and> (base + pos) mod 8 \<noteq> 0 then
        do { c \<leftarrow> rd arr pos;
             if c \<noteq> skip_byte want then Some (True, pos, bitpos, count)
             else scan_aligned want base arr (pos + 1) (bitpos + 8) (count - 8) }
      else Some (False, pos, bitpos, count))"
  by pat_completeness auto
termination by (relation "measure (\<lambda>(w, base, arr, pos, bitpos, count). count)") auto

fun scan_words :: "bool \<Rightarrow> u8 list \<Rightarrow> nat \<Rightarrow> nat \<Rightarrow> (nat \<times> nat) option" where
  "scan_words want arr pos 0 = Some (pos, 0)"
| "scan_words want arr pos (Suc i) =
     do { xs \<leftarrow> mem_read arr pos 8;
          if xs \<noteq> replicate 8 (skip_byte want) then Some (pos, Suc i)
          else scan_words want arr (pos + 8) i }"

fun scan_bytes :: "bool \<Rightarrow> u8 list \<Rightarrow> nat \<Rightarrow> nat \<Rightarrow> (nat \<times> nat) option" where
  "scan_bytes want arr pos 0 = Some (pos, 0)"
| "scan_bytes want arr pos (Suc i) =
     do { c \<leftarrow> rd arr pos;
          if c \<noteq> skip_byte want then Some (pos, Suc i) else scan_bytes want arr (pos + 1) i }"

fun scan_bits :: "bool \<Rightarrow> u8 list \<Rightarrow> nat \<Rightarrow> nat \<Rightarrow> nat option option" where
  "scan_bits want arr bitpos 0 = Some None"
| "scan_bits want arr bitpos (Suc count) =
     do { t \<leftarrow> ext2fs_test_bit64 bitpos arr;
          if (t \<noteq> 0) = want then Some (Some bitpos) else scan_bits want arr (bitpos + 1) count }"

definition ba_find_first :: "bool \<Rightarrow> nat \<Rightarrow> ba_bmap \<Rightarrow> u64 \<Rightarrow> u64 \<Rightarrow> (errcode + u64) option" where
  "ba_find_first want base b start end =
     do { let arr = bm_private b;
          head \<leftarrow> scan_to_byte want arr (sub64 start (bm_start b)) (add64 (sub64 end start) 1);
          (case head of
             Inl bitpos \<Rightarrow> Some (Inr (add64 bitpos (bm_start b)))
           | Inr (bitpos, count) \<Rightarrow>
               if count = 0 then Some (Inl ENOENT)
               else do {
                 (byte_found, pos, bitpos, count) \<leftarrow> scan_aligned want base arr (bitpos div 8) bitpos count;
                 (bitpos, count) \<leftarrow>
                   (if byte_found then Some (bitpos, count)
                    else do {
                      let max1 = count div 64;
                      (pos, i) \<leftarrow> scan_words want arr pos max1;
                      let count = count - 64 * (max1 - i);
                      let bitpos = bitpos + 64 * (max1 - i);
                      let max2 = count div 8;
                      (pos, i) \<leftarrow> scan_bytes want arr pos max2;
                      Some (bitpos + 8 * (max2 - i), count - 8 * (max2 - i)) });
                 r \<leftarrow> scan_bits want arr bitpos count;
                 Some (case r of Some n \<Rightarrow> Inr (add64 n (bm_start b)) | None \<Rightarrow> Inl ENOENT) }) }"

definition ba_find_first_zero :: "nat \<Rightarrow> ba_bmap \<Rightarrow> u64 \<Rightarrow> u64 \<Rightarrow> (errcode + u64) option" where
  "ba_find_first_zero base b start end = ba_find_first False base b start end"

definition ba_find_first_set :: "nat \<Rightarrow> ba_bmap \<Rightarrow> u64 \<Rightarrow> u64 \<Rightarrow> (errcode + u64) option" where
  "ba_find_first_set base b start end = ba_find_first True base b start end"

text \<open>The operation table \<^verbatim>\<open>ext2fs_blkmap64_bitarray\<close>; the contents of fresh memory and the
  address of the array are parameters.\<close>

definition ext2fs_blkmap64_bitarray :: "(nat \<Rightarrow> u8) \<Rightarrow> nat \<Rightarrow> u8 list bitmap_ops" where
  "ext2fs_blkmap64_bitarray fresh base =
     \<lparr>bop_type = 1, new_bmap = ba_new_bmap fresh, copy_bmap = ba_copy_bmap fresh,
      resize_bmap = ba_resize_bmap, mark_bmap = ba_mark_bmap, unmark_bmap = ba_unmark_bmap,
      test_bmap = ba_test_bmap, mark_bmap_extent = ba_mark_bmap_extent,
      unmark_bmap_extent = ba_unmark_bmap_extent, test_clear_bmap_extent = ba_test_clear_bmap_extent,
      set_bmap_range = ba_set_bmap_range, get_bmap_range = ba_get_bmap_range, clear_bmap = ba_clear_bmap,
      find_first_zero = ba_find_first_zero base, find_first_set = ba_find_first_set base\<rparr>"

declare ba_clear_down.simps [simp del] ba_set_loop.simps [simp del] ba_clear_loop.simps [simp del]
  ext2fs_mem_is_zero.simps [simp del] scan_to_byte.simps [simp del] scan_aligned.simps [simp del]

section \<open>Invariant and abstraction\<close>

definition ba_inv :: "ba_bmap \<Rightarrow> bool" where
  "ba_inv b \<longleftrightarrow> bm_start b \<le> bm_end b \<and> bm_end b \<le> bm_real_end b \<and> bm_real_end b < W64 - 1 \<and>
     length (bm_private b) = (bm_real_end b - bm_start b) div 8 + 1"

definition ba_set :: "ba_bmap \<Rightarrow> nat set" where
  "ba_set b = {n. bm_start b \<le> n \<and> n \<le> bm_real_end b \<and> n - bm_start b \<in> bits (bm_private b)}"

lemma ba_set_iff: "n \<in> ba_set b \<longleftrightarrow>
    bm_start b \<le> n \<and> n \<le> bm_real_end b \<and> n - bm_start b \<in> bits (bm_private b)"
  by (simp add: ba_set_def)

lemma ba_rel:
  assumes "ba_inv b" "bm_start b \<le> n" "n \<le> bm_real_end b"
  shows "sub64 n (bm_start b) = n - bm_start b" "n - bm_start b < 8 * length (bm_private b)"
proof -
  show "sub64 n (bm_start b) = n - bm_start b"
    using assms by (intro sub64_nowrap) (auto simp: ba_inv_def)
  have "n - bm_start b \<le> bm_real_end b - bm_start b" using assms by simp
  moreover have "bm_real_end b - bm_start b < 8 * ((bm_real_end b - bm_start b) div 8 + 1)"
    by presburger
  ultimately show "n - bm_start b < 8 * length (bm_private b)" using assms by (simp add: ba_inv_def)
qed

lemma ba_size_inv: "ba_inv b \<Longrightarrow> ba_size b = length (bm_private b)"
  by (simp add: ba_size_def ba_inv_def u64_simps)

lemma ba_inv_private: "ba_inv b \<Longrightarrow> length arr = length (bm_private b) \<Longrightarrow> ba_inv (b\<lparr>bm_private := arr\<rparr>)"
  by (simp add: ba_inv_def)

lemma ba_set_eqI:
  assumes "\<And>m. bm_start b \<le> m \<Longrightarrow> m \<le> bm_real_end b \<Longrightarrow> m - bm_start b \<in> bits ys \<longleftrightarrow> m \<in> X"
    and "\<And>m. m \<in> X \<Longrightarrow> bm_start b \<le> m \<and> m \<le> bm_real_end b"
  shows "ba_set (b\<lparr>bm_private := ys\<rparr>) = X"
proof (intro set_eqI)
  fix m
  show "m \<in> ba_set (b\<lparr>bm_private := ys\<rparr>) \<longleftrightarrow> m \<in> X"
    using assms(1) [of m] assms(2) [of m] by (auto simp: ba_set_iff)
qed

lemma ba_test_spec:
  assumes "ba_inv b" "bm_start b \<le> n" "n \<le> bm_real_end b"
  shows "\<exists>r. ba_test_bmap b n = Some (r, b) \<and> (r \<noteq> 0 \<longleftrightarrow> n \<in> ba_set b)"
  using ba_rel [OF assms] assms
  by (simp add: ba_test_bmap_def test_bit64_spec uint_mask_neq_0 ba_set_iff)

lemma ba_mark_spec:
  assumes "ba_inv b" "bm_start b \<le> n" "n \<le> bm_real_end b"
  shows "\<exists>r b'. ba_mark_bmap b n = Some (r, b') \<and> ba_inv b' \<and> same_frame b b' \<and>
    ba_set b' = insert n (ba_set b) \<and> (r \<noteq> 0 \<longleftrightarrow> n \<in> ba_set b)"
proof -
  note r = ba_rel [OF assms]
  from set_bit64_spec [OF r(2)] obtain v ys where
    ys: "ext2fs_set_bit64 (n - bm_start b) (bm_private b) = Some (v, ys)" "length ys = length (bm_private b)"
      "bits ys = insert (n - bm_start b) (bits (bm_private b))" "v \<noteq> 0 \<longleftrightarrow> n - bm_start b \<in> bits (bm_private b)"
    by (elim exE conjE)
  have "ba_set (b\<lparr>bm_private := ys\<rparr>) = insert n (ba_set b)"
  proof (rule ba_set_eqI)
    fix m assume "bm_start b \<le> m" "m \<le> bm_real_end b"
    then show "m - bm_start b \<in> bits ys \<longleftrightarrow> m \<in> insert n (ba_set b)"
      using assms(2) by (simp add: ys(3) ba_set_iff eq_diff_iff)
  qed (use assms in \<open>auto simp: ba_set_iff\<close>)
  with ys r(1) assms ba_inv_private [OF assms(1) ys(2)] show ?thesis
    by (simp add: ba_mark_bmap_def ba_set_iff)
qed

lemma ba_unmark_spec:
  assumes "ba_inv b" "bm_start b \<le> n" "n \<le> bm_real_end b"
  shows "\<exists>r b'. ba_unmark_bmap b n = Some (r, b') \<and> ba_inv b' \<and> same_frame b b' \<and>
    ba_set b' = ba_set b - {n} \<and> (r \<noteq> 0 \<longleftrightarrow> n \<in> ba_set b)"
proof -
  note r = ba_rel [OF assms]
  from clear_bit64_spec [OF r(2)] obtain v ys where
    ys: "ext2fs_clear_bit64 (n - bm_start b) (bm_private b) = Some (v, ys)" "length ys = length (bm_private b)"
      "bits ys = bits (bm_private b) - {n - bm_start b}" "v \<noteq> 0 \<longleftrightarrow> n - bm_start b \<in> bits (bm_private b)"
    by (elim exE conjE)
  have "ba_set (b\<lparr>bm_private := ys\<rparr>) = ba_set b - {n}"
    using assms eq_diff_iff [of "bm_start b" _ n] by (intro ba_set_eqI) (auto simp: ba_set_iff ys(3))
  with ys r(1) assms ba_inv_private [OF assms(1) ys(2)] show ?thesis
    by (simp add: ba_unmark_bmap_def ba_set_iff)
qed

lemma ba_set_loop_spec:
  assumes "start \<le> bitno" "bitno + num \<le> W64" "bitno + num - start \<le> 8 * length arr"
  shows "\<exists>arr'. ba_set_loop start bitno num i arr = Some arr' \<and> length arr' = length arr \<and>
    bits arr' = bits arr \<union> {bitno + i - start..<bitno + num - start}"
  using assms
proof (induction start bitno num i arr rule: ba_set_loop.induct)
  case (1 start bitno num i arr)
  show ?case
  proof (cases "i < num")
    case False
    then have "ba_set_loop start bitno num i arr = Some arr" by (simp add: ba_set_loop.simps [of _ _ _ i])
    with False show ?thesis by auto
  next
    case True
    let ?n = "bitno + i - start"
    have e: "sub64 (add64 bitno i) start = ?n" "?n < 8 * length arr"
      using True "1.prems" by (auto simp: u64_simps)
    from fast_set_bit64_spec [OF e(2)] obtain ys where
      ys: "ext2fs_fast_set_bit64 ?n arr = Some ys" "length ys = length arr" "bits ys = insert ?n (bits arr)" by blast
    have "{?n..<bitno + num - start} = insert ?n {bitno + Suc i - start..<bitno + num - start}"
      using True "1.prems" by auto
    with "1.IH" [OF True, of ys] ys e(1) "1.prems" True show ?thesis
      by (auto simp: ba_set_loop.simps [of _ _ _ i])
  qed
qed

lemma ba_clear_loop_spec:
  assumes "start \<le> bitno" "bitno + num \<le> W64" "bitno + num - start \<le> 8 * length arr"
  shows "\<exists>arr'. ba_clear_loop start bitno num i arr = Some arr' \<and> length arr' = length arr \<and>
    bits arr' = bits arr - {bitno + i - start..<bitno + num - start}"
  using assms
proof (induction start bitno num i arr rule: ba_clear_loop.induct)
  case (1 start bitno num i arr)
  show ?case
  proof (cases "i < num")
    case False
    then have "ba_clear_loop start bitno num i arr = Some arr" by (simp add: ba_clear_loop.simps [of _ _ _ i])
    with False show ?thesis by auto
  next
    case True
    let ?n = "bitno + i - start"
    have e: "sub64 (add64 bitno i) start = ?n" "?n < 8 * length arr"
      using True "1.prems" by (auto simp: u64_simps)
    from fast_clear_bit64_spec [OF e(2)] obtain ys where
      ys: "ext2fs_fast_clear_bit64 ?n arr = Some ys" "length ys = length arr" "bits ys = bits arr - {?n}" by blast
    have "{?n..<bitno + num - start} = insert ?n {bitno + Suc i - start..<bitno + num - start}"
      using True "1.prems" by auto
    with "1.IH" [OF True, of ys] ys e(1) "1.prems" True show ?thesis
      by (auto simp: ba_clear_loop.simps [of _ _ _ i])
  qed
qed

lemma ba_set_shift:
  assumes "ba_inv b" "bm_start b \<le> n" "0 < num" "n + num - 1 \<le> bm_real_end b"
  shows "n + num \<le> W64" "n + num - bm_start b \<le> 8 * length (bm_private b)"
    "\<And>m. bm_start b \<le> m \<Longrightarrow> m - bm_start b \<in> {n + 0 - bm_start b..<n + num - bm_start b} \<longleftrightarrow> m \<in> {n..<n + num}"
proof -
  show "n + num \<le> W64" using assms by (auto simp: ba_inv_def)
  have "n + num - 1 - bm_start b < 8 * length (bm_private b)"
    using assms by (intro ba_rel(2)) auto
  then show "n + num - bm_start b \<le> 8 * length (bm_private b)" using assms by linarith
qed (use assms in auto)

lemma ba_mark_extent_spec:
  assumes "ba_inv b" "bm_start b \<le> n" "0 < num" "n + num - 1 \<le> bm_real_end b"
  shows "\<exists>b'. ba_mark_bmap_extent b n num = Some b' \<and> ba_inv b' \<and> same_frame b b' \<and>
    ba_set b' = ba_set b \<union> {n..<n + num}"
proof -
  note sh = ba_set_shift [OF assms]
  from ba_set_loop_spec [OF assms(2) sh(1,2), of 0] obtain arr where
    arr: "ba_set_loop (bm_start b) n num 0 (bm_private b) = Some arr" "length arr = length (bm_private b)"
      "bits arr = bits (bm_private b) \<union> {n + 0 - bm_start b..<n + num - bm_start b}"
    by (elim exE conjE)
  have "ba_set (b\<lparr>bm_private := arr\<rparr>) = ba_set b \<union> {n..<n + num}"
    using assms sh(3) by (intro ba_set_eqI) (auto simp only: arr(3) ba_set_iff Un_iff atLeastLessThan_iff)
  with arr ba_inv_private [OF assms(1) arr(2)] show ?thesis by (simp add: ba_mark_bmap_extent_def)
qed

lemma ba_unmark_extent_spec:
  assumes "ba_inv b" "bm_start b \<le> n" "0 < num" "n + num - 1 \<le> bm_real_end b"
  shows "\<exists>b'. ba_unmark_bmap_extent b n num = Some b' \<and> ba_inv b' \<and> same_frame b b' \<and>
    ba_set b' = ba_set b - {n..<n + num}"
proof -
  note sh = ba_set_shift [OF assms]
  from ba_clear_loop_spec [OF assms(2) sh(1,2), of 0] obtain arr where
    arr: "ba_clear_loop (bm_start b) n num 0 (bm_private b) = Some arr" "length arr = length (bm_private b)"
      "bits arr = bits (bm_private b) - {n + 0 - bm_start b..<n + num - bm_start b}"
    by (elim exE conjE)
  have "ba_set (b\<lparr>bm_private := arr\<rparr>) = ba_set b - {n..<n + num}"
    using assms sh(3) by (intro ba_set_eqI) (auto simp only: arr(3) ba_set_iff Diff_iff)
  with arr ba_inv_private [OF assms(1) arr(2)] show ?thesis by (simp add: ba_unmark_bmap_extent_def)
qed

lemma ba_clear_spec:
  assumes "ba_inv b"
  shows "\<exists>b'. ba_clear_bmap b = Some b' \<and> ba_inv b' \<and> same_frame b b' \<and> ba_set b' = {}"
  using assms ba_size_inv [OF assms] ba_inv_private [OF assms, of "replicate (length (bm_private b)) 0"]
  by (simp add: ba_clear_bmap_def mem_fill_def ba_set_def)

section \<open>Runs of equal bits\<close>

definition bit_run :: "u8 list \<Rightarrow> bool \<Rightarrow> nat \<Rightarrow> nat \<Rightarrow> bool" where
  "bit_run arr v a b \<longleftrightarrow> (\<forall>n. a \<le> n \<and> n < b \<longrightarrow> (n \<in> bits arr) = v)"

lemma bit_run_empty [simp]: "b \<le> a \<Longrightarrow> bit_run arr v a b"
  by (auto simp: bit_run_def)

lemma all_shift:
  fixes a lo hi :: nat
  shows "(\<forall>n. a + lo \<le> n \<and> n < a + hi \<longrightarrow> P n) \<longleftrightarrow> (\<forall>k. lo \<le> k \<and> k < hi \<longrightarrow> P (a + k))"
proof (intro iffI allI impI)
  fix n assume h: "\<forall>k. lo \<le> k \<and> k < hi \<longrightarrow> P (a + k)" and n: "a + lo \<le> n \<and> n < a + hi"
  from n obtain k where "n = a + k" by (metis add_leD1 le_Suc_ex)
  with h n show "P n" by simp
qed simp

lemma bit_run_split: "a \<le> c \<Longrightarrow> c \<le> b \<Longrightarrow> bit_run arr v a b \<longleftrightarrow> bit_run arr v a c \<and> bit_run arr v c b"
  unfolding bit_run_def by (meson not_le order_trans less_le_trans)

lemma byte_skip_iff: "c = skip_byte w \<longleftrightarrow> (\<forall>k < 8. bit c k = (\<not> w))"
proof
  have m: "(255 :: u8) = -1" by simp
  show "c = skip_byte w \<Longrightarrow> \<forall>k < 8. bit c k = (\<not> w)"
    unfolding skip_byte_def m by (simp add: bit_simps)
  assume "\<forall>k < 8. bit c k = (\<not> w)"
  then show "c = skip_byte w"
    unfolding skip_byte_def m by (intro bit_word_eqI) (simp add: bit_simps)
qed

lemma byte_run:
  assumes "i < length arr"
  shows "arr ! i = skip_byte w \<longleftrightarrow> bit_run arr (\<not> w) (8 * i) (8 * i + 8)"
proof -
  have "bit (arr ! i) k \<longleftrightarrow> 8 * i + k \<in> bits arr" if "k < 8" for k
    using in_bits_same_byte [of "8 * i" arr "8 * i + k"] that assms by simp
  moreover have "(\<forall>n. 8 * i \<le> n \<and> n < 8 * i + 8 \<longrightarrow> P n) \<longleftrightarrow> (\<forall>k < 8. P (8 * i + k))" for P
    using all_shift [of "8 * i" 0 8 P] by simp
  ultimately show ?thesis by (simp add: byte_skip_iff bit_run_def)
qed

lemma bytes_run:
  assumes "off + n \<le> length arr"
  shows "take n (drop off arr) = replicate n (skip_byte w) \<longleftrightarrow> bit_run arr (\<not> w) (8 * off) (8 * (off + n))"
  using assms
proof (induction n)
  case 0
  then show ?case by simp
next
  case (Suc n)
  then have "take (Suc n) (drop off arr) = take n (drop off arr) @ [arr ! (off + n)]"
    by (simp add: take_Suc_conv_app_nth)
  moreover have "replicate (Suc n) (skip_byte w) = replicate n (skip_byte w) @ [skip_byte w]"
    by (simp add: replicate_append_same)
  moreover have "bit_run arr (\<not> w) (8 * off) (8 * (off + Suc n)) \<longleftrightarrow>
      bit_run arr (\<not> w) (8 * off) (8 * (off + n)) \<and> bit_run arr (\<not> w) (8 * (off + n)) (8 * (off + n) + 8)"
    by (subst bit_run_split [of _ "8 * (off + n)"]) (simp_all add: add.commute)
  ultimately show ?case using Suc byte_run [of "off + n" arr w]
    by (simp add: add.commute del: replicate_Suc)
qed

lemma mem_is_zero_spec:
  assumes "off + len \<le> length mem"
  shows "\<exists>r. ext2fs_mem_is_zero mem off len = Some r \<and>
    (r \<noteq> 0 \<longleftrightarrow> bit_run mem False (8 * off) (8 * (off + len)))"
  using assms
proof (induction mem off len rule: ext2fs_mem_is_zero.induct)
  case (1 mem off len)
  have z: "skip_byte True = 0" by (simp add: skip_byte_def)
  show ?case
  proof (cases "256 \<le> len")
    case True
    let ?xs = "take 256 (drop off mem)"
    have r: "mem_read mem off 256 = Some ?xs" using True "1.prems" by (simp add: mem_read_def)
    have run: "?xs = replicate 256 0 \<longleftrightarrow> bit_run mem False (8 * off) (8 * (off + 256))"
      using bytes_run [of off 256 mem True] True "1.prems" by (simp add: z)
    have sp: "bit_run mem False (8 * off) (8 * (off + len)) \<longleftrightarrow>
      bit_run mem False (8 * off) (8 * (off + 256)) \<and> bit_run mem False (8 * (off + 256)) (8 * (off + len))"
      using True by (intro bit_run_split) auto
    have u: "ext2fs_mem_is_zero mem off len =
      (if ?xs \<noteq> replicate 256 0 then Some 0 else ext2fs_mem_is_zero mem (off + 256) (len - 256))"
      using True r by (simp add: ext2fs_mem_is_zero.simps [of mem off len])
    show ?thesis
    proof (cases "?xs = replicate 256 0")
      case eq: True
      have "off + 256 + (len - 256) = off + len" using True by simp
      with "1.IH" [OF True r] eq "1.prems" True show ?thesis
        unfolding u sp using run eq by simp
    next
      case False
      then show ?thesis unfolding u sp run [symmetric] by simp
    qed
  next
    case False
    then show ?thesis
      using "1.prems" bytes_run [of off len mem True]
      by (cases "len = 0") (simp_all add: ext2fs_mem_is_zero.simps [of mem off] mem_read_def z)
  qed
qed

lemma bit_mask_down:
  assumes "i \<le> Suc k" "k < 8"
  shows "bit (mask_down i k m) j \<longleftrightarrow> bit m j \<or> (k < j + i \<and> j \<le> k)"
  using assms
proof (induction i arbitrary: k m)
  case 0
  then show ?case by auto
next
  case (Suc i)
  show ?case
  proof (cases "i = 0")
    case True
    with Suc.prems show ?thesis by (auto simp: bit_simps)
  next
    case False
    with Suc.prems Suc.IH [of "k - 1" "m OR push_bit k 1"] show ?thesis
      by (auto simp: bit_simps)
  qed
qed

lemma word_and_neq_0_iff: "(a AND c :: u8) \<noteq> 0 \<longleftrightarrow> (\<exists>j. bit a j \<and> bit c j)"
proof -
  have "(a AND c) = 0 \<longleftrightarrow> (\<forall>j. \<not> bit (a AND c) j)"
    by (metis bit_0_eq bit_eqI bot_apply bot_bool_def)
  then show ?thesis by (auto simp: bit_simps)
qed

lemma mask_hits_iff:
  assumes "i \<le> Suc k" "k < 8" "p < length arr"
  shows "mask_down i k 0 AND arr ! p = 0 \<longleftrightarrow> bit_run arr False (8 * p + (Suc k - i)) (8 * p + Suc k)"
proof -
  have b: "bit (arr ! p) j \<longleftrightarrow> 8 * p + j \<in> bits arr" if "j < 8" for j
    using in_bits_same_byte [of "8 * p" arr "8 * p + j"] that assms(3) by simp
  have "mask_down i k 0 AND arr ! p = 0 \<longleftrightarrow> (\<forall>j. k < j + i \<and> j \<le> k \<longrightarrow> \<not> bit (arr ! p) j)"
    using word_and_neq_0_iff [of "mask_down i k 0" "arr ! p"] assms(1,2) by (auto simp: bit_mask_down)
  also have "\<dots> \<longleftrightarrow> (\<forall>j. Suc k - i \<le> j \<and> j < Suc k \<longrightarrow> 8 * p + j \<notin> bits arr)"
    using b assms(2) by (auto simp: less_Suc_eq_le)
  also have "\<dots> \<longleftrightarrow> bit_run arr False (8 * p + (Suc k - i)) (8 * p + Suc k)"
    unfolding bit_run_def using all_shift [of "8 * p" "Suc k - i" "Suc k" "\<lambda>n. n \<notin> bits arr"] by simp
  finally show ?thesis .
qed

lemma ba_clear_tail_spec:
  assumes "8 * p + 8 * ly + lb \<le> 8 * length arr" "lb < 8"
  shows "\<exists>r. ba_clear_tail arr p lb ly = Some r \<and> (r \<noteq> 0 \<longleftrightarrow> bit_run arr False (8 * p) (8 * p + 8 * ly + lb))"
proof (cases "lb = 0")
  case True
  with mem_is_zero_spec [of p ly arr] assms show ?thesis by (simp add: ba_clear_tail_def algebra_simps)
next
  case False
  have i: "p + ly < length arr" "p + ly \<le> length arr" using False assms by linarith+
  have hit: "mask_down lb (lb - 1) 0 AND arr ! (p + ly) = 0 \<longleftrightarrow>
      bit_run arr False (8 * (p + ly)) (8 * (p + ly) + lb)"
    using mask_hits_iff [of lb "lb - 1" "p + ly" arr] False assms i by simp
  have sp: "bit_run arr False (8 * p) (8 * p + 8 * ly + lb) \<longleftrightarrow>
      bit_run arr False (8 * p) (8 * (p + ly)) \<and> bit_run arr False (8 * (p + ly)) (8 * (p + ly) + lb)"
    using bit_run_split [of "8 * p" "8 * (p + ly)" "8 * (p + ly) + lb"] by (simp add: algebra_simps)
  have u: "ba_clear_tail arr p lb ly =
      (if mask_down lb (lb - 1) 0 AND arr ! (p + ly) \<noteq> 0 then Some 0
       else if ly = 0 then Some 1 else ext2fs_mem_is_zero arr p ly)"
    using False i by (simp add: ba_clear_tail_def rd_Some)
  show ?thesis
  proof (cases "mask_down lb (lb - 1) 0 AND arr ! (p + ly) = 0")
    case False
    then show ?thesis unfolding u sp using hit by simp
  next
    case True
    then show ?thesis unfolding u sp using hit mem_is_zero_spec [OF i(2)] by (cases "ly = 0") auto
  qed
qed

lemma ba_test_clear_rel:
  assumes "sub64 start0 (bm_start b) = s" "s + len \<le> 8 * length (bm_private b)" "0 < len"
  shows "\<exists>r. ba_test_clear_bmap_extent b start0 len = Some r \<and>
    (r \<noteq> 0 \<longleftrightarrow> bit_run (bm_private b) False s (s + len))"
proof -
  let ?arr = "bm_private b" and ?p = "s div 8" and ?k = "s mod 8"
  have s: "s = 8 * ?p + ?k" and k: "?k < 8" by simp_all
  show ?thesis
  proof (cases "?k = 0")
    case True
    have "8 * ?p + 8 * (len div 8) + len mod 8 = s + len" using s True by presburger
    with ba_clear_tail_spec [of ?p "len div 8" "len mod 8" ?arr] assms s True show ?thesis
      by (simp add: ba_test_clear_bmap_extent_def)
  next
    case False
    define cnt where "cnt = (if len < 8 - ?k then len else 8 - ?k)"
    define mb where "mb = (if len < 8 - ?k then len + ?k - 1 else 7)"
    have p: "?p < length ?arr" using s assms by (simp add: div8_lt)
    have mb: "cnt \<le> Suc mb" "mb < 8" "Suc mb - cnt = ?k" "?k + cnt = Suc mb"
      using False k assms(3) by (auto simp: cnt_def mb_def)
    have hit: "mask_down cnt mb 0 AND ?arr ! ?p = 0 \<longleftrightarrow> bit_run ?arr False s (s + cnt)"
      using mask_hits_iff [OF mb(1,2) p] mb s by (metis add.assoc)
    have u: "ba_test_clear_bmap_extent b start0 len =
      (if mask_down cnt mb 0 AND ?arr ! ?p \<noteq> 0 then Some 0 else if len \<le> 8 - ?k then Some 1
       else ba_clear_tail ?arr (?p + 1) ((len - cnt) mod 8) ((len - cnt) div 8))"
      using False p by (simp add: ba_test_clear_bmap_extent_def assms(1) Let_def cnt_def mb_def rd_Some)
    show ?thesis
    proof (cases "len \<le> 8 - ?k")
      case True
      then have "cnt = len" by (simp add: cnt_def)
      with True show ?thesis unfolding u using hit by simp
    next
      case big: False
      then have c1: "cnt = 8 - ?k" by (simp add: cnt_def)
      have "s + cnt = 8 * (?p + 1)" unfolding c1 by presburger
      note c = c1 this
      have e: "8 * (?p + 1) + 8 * ((len - cnt) div 8) + (len - cnt) mod 8 = s + len"
      proof -
        have "8 * ((len - cnt) div 8) + (len - cnt) mod 8 = len - cnt" by simp
        moreover have "cnt \<le> len" using big c1 by simp
        ultimately show ?thesis using c(2) by linarith
      qed
      have sp: "bit_run ?arr False s (s + len) \<longleftrightarrow> bit_run ?arr False s (s + cnt) \<and> bit_run ?arr False (s + cnt) (s + len)"
        using big c by (intro bit_run_split) auto
      from ba_clear_tail_spec [of "?p + 1" "(len - cnt) div 8" "(len - cnt) mod 8" ?arr] assms e
      have t: "\<exists>r. ba_clear_tail ?arr (?p + 1) ((len - cnt) mod 8) ((len - cnt) div 8) = Some r \<and>
         (r \<noteq> 0 \<longleftrightarrow> bit_run ?arr False (s + cnt) (s + len))" by (simp only: c(2))
      show ?thesis
      proof (cases "bit_run ?arr False s (s + cnt)")
        case True
        with t big show ?thesis unfolding u sp using hit by simp
      next
        case False
        then show ?thesis unfolding u sp using hit by simp
      qed
    qed
  qed
qed

lemma bit_run_ba_set:
  assumes "ba_inv b" "bm_start b \<le> n" "n + len \<le> Suc (bm_real_end b)"
  shows "bit_run (bm_private b) v (n - bm_start b) (n - bm_start b + len) \<longleftrightarrow>
    (\<forall>m. n \<le> m \<and> m < n + len \<longrightarrow> (m \<in> ba_set b) = v)"
proof -
  have r: "n - bm_start b + k = n + k - bm_start b" for k using assms(2) by simp
  have "bit_run (bm_private b) v (n - bm_start b) (n - bm_start b + len) \<longleftrightarrow>
      (\<forall>k < len. (n - bm_start b + k \<in> bits (bm_private b)) = v)"
    using all_shift [of "n - bm_start b" 0 len "\<lambda>x. (x \<in> bits (bm_private b)) = v"]
    by (simp add: bit_run_def)
  also have "\<dots> \<longleftrightarrow> (\<forall>k < len. (n + k \<in> ba_set b) = v)"
    using assms by (auto simp: ba_set_iff r)
  also have "\<dots> \<longleftrightarrow> (\<forall>m. n \<le> m \<and> m < n + len \<longrightarrow> (m \<in> ba_set b) = v)"
    using all_shift [of n 0 len "\<lambda>x. (x \<in> ba_set b) = v"] by simp
  finally show ?thesis .
qed

lemma ba_test_clear_spec:
  assumes "ba_inv b" "bm_start b \<le> n" "0 < num" "n + num - 1 \<le> bm_real_end b"
  shows "\<exists>r. ba_test_clear_bmap_extent b n num = Some r \<and> (r \<noteq> 0 \<longleftrightarrow> ba_set b \<inter> {n..<n + num} = {})"
proof -
  note sh = ba_set_shift [OF assms]
  have "sub64 n (bm_start b) = n - bm_start b" using assms by (intro ba_rel) auto
  from ba_test_clear_rel [OF this, of num] sh(2) assms obtain r where
    r: "ba_test_clear_bmap_extent b n num = Some r"
      "r \<noteq> 0 \<longleftrightarrow> bit_run (bm_private b) False (n - bm_start b) (n - bm_start b + num)" by auto
  have "n + num \<le> Suc (bm_real_end b)" using assms by simp
  with r bit_run_ba_set [OF assms(1,2), of num False] show ?thesis by auto
qed

section \<open>The search loops\<close>

lemma test_bit_wanted:
  assumes "n < 8 * length arr"
  shows "\<exists>t. ext2fs_test_bit64 n arr = Some t \<and> (t \<noteq> 0 \<longleftrightarrow> n \<in> bits arr)"
  using assms by (simp add: test_bit64_spec uint_mask_neq_0)

lemma bit_run_Suc: "bit_run arr v a (Suc a) \<longleftrightarrow> (a \<in> bits arr) = v"
  by (auto simp: bit_run_def less_Suc_eq_le dest: le_antisym)

lemma bit_run_join: "bit_run arr v a c \<Longrightarrow> bit_run arr v c b \<Longrightarrow> bit_run arr v a b"
  unfolding bit_run_def by (meson not_le)

lemma scan_bits_spec:
  assumes "bp + c \<le> 8 * length arr"
  shows "\<exists>r. scan_bits w arr bp c = Some r \<and>
    (case r of Some n \<Rightarrow> bp \<le> n \<and> n < bp + c \<and> (n \<in> bits arr) = w \<and> bit_run arr (\<not> w) bp n
     | None \<Rightarrow> bit_run arr (\<not> w) bp (bp + c))"
  using assms
proof (induction c arbitrary: bp)
  case 0
  then show ?case by simp
next
  case (Suc c)
  then obtain t where t: "ext2fs_test_bit64 bp arr = Some t" "t \<noteq> 0 \<longleftrightarrow> bp \<in> bits arr"
    using test_bit_wanted [of bp arr] by auto
  show ?case
  proof (cases "(bp \<in> bits arr) = w")
    case True
    with t show ?thesis by simp
  next
    case False
    then have run: "bit_run arr (\<not> w) bp (Suc bp)" by (auto simp: bit_run_Suc)
    from Suc.IH [of "Suc bp"] Suc.prems obtain r where r: "scan_bits w arr (Suc bp) c = Some r"
      "case r of Some n \<Rightarrow> Suc bp \<le> n \<and> n < Suc bp + c \<and> (n \<in> bits arr) = w \<and> bit_run arr (\<not> w) (Suc bp) n
       | None \<Rightarrow> bit_run arr (\<not> w) (Suc bp) (Suc bp + c)" by auto
    with t False bit_run_join [OF run] show ?thesis by (auto split: option.splits)
  qed
qed

lemma scan_to_byte_spec:
  assumes "bp + c \<le> 8 * length arr"
  shows "\<exists>r. scan_to_byte w arr bp c = Some r \<and>
    (case r of Inl n \<Rightarrow> bp \<le> n \<and> n < bp + c \<and> (n \<in> bits arr) = w \<and> bit_run arr (\<not> w) bp n
     | Inr (bp', c') \<Rightarrow> bp' + c' = bp + c \<and> bp \<le> bp' \<and> bit_run arr (\<not> w) bp bp' \<and> (c' = 0 \<or> bp' mod 8 = 0))"
  using assms
proof (induction w arr bp c rule: scan_to_byte.induct)
  case (1 w arr bp c)
  show ?case
  proof (cases "bp mod 8 \<noteq> 0 \<and> c > 0")
    case False
    then show ?thesis by (auto simp: scan_to_byte.simps [of w arr bp c])
  next
    case True
    with "1.prems" obtain t where t: "ext2fs_test_bit64 bp arr = Some t" "t \<noteq> 0 \<longleftrightarrow> bp \<in> bits arr"
      using test_bit_wanted [of bp arr] by auto
    have u: "scan_to_byte w arr bp c =
      (if (bp \<in> bits arr) = w then Some (Inl bp) else scan_to_byte w arr (bp + 1) (c - 1))"
      using True t by (simp add: scan_to_byte.simps [of w arr bp c])
    show ?thesis
    proof (cases "(bp \<in> bits arr) = w")
      case eq: True
      with True show ?thesis unfolding u by simp
    next
      case False
      then have run: "bit_run arr (\<not> w) bp (bp + 1)" by (auto simp: bit_run_Suc)
      from "1.IH" [OF True t(1)] False t(2) "1.prems" True obtain r where
        r: "scan_to_byte w arr (bp + 1) (c - 1) = Some r"
        "case r of Inl n \<Rightarrow> bp + 1 \<le> n \<and> n < bp + 1 + (c - 1) \<and> (n \<in> bits arr) = w \<and> bit_run arr (\<not> w) (bp + 1) n
         | Inr (bp', c') \<Rightarrow> bp' + c' = bp + 1 + (c - 1) \<and> bp + 1 \<le> bp' \<and> bit_run arr (\<not> w) (bp + 1) bp' \<and>
             (c' = 0 \<or> bp' mod 8 = 0)" by auto
      with False True bit_run_join [OF run] show ?thesis unfolding u
        by (auto split: sum.splits)
    qed
  qed
qed

lemma scan_aligned_spec:
  assumes "bp + c \<le> 8 * length arr" "bp mod 8 = 0" "pos = bp div 8"
  shows "\<exists>f pos' bp' c'. scan_aligned w base arr pos bp c = Some (f, pos', bp', c') \<and> bp' + c' = bp + c \<and>
    bp \<le> bp' \<and> bp' mod 8 = 0 \<and> pos' = bp' div 8 \<and> bit_run arr (\<not> w) bp bp'"
  using assms
proof (induction w base arr pos bp c rule: scan_aligned.induct)
  case (1 w base arr pos bp c)
  show ?case
  proof (cases "c \<ge> 8 \<and> (base + pos) mod 8 \<noteq> 0")
    case False
    then have "scan_aligned w base arr pos bp c = Some (False, pos, bp, c)"
      by (auto simp: scan_aligned.simps [of w base arr pos bp c])
    with "1.prems" show ?thesis by auto
  next
    case True
    have bp: "8 * pos = bp" and pos: "pos < length arr" using "1.prems" True by auto
    then have rdp: "rd arr pos = Some (arr ! pos)" by (simp add: rd_Some)
    show ?thesis
    proof (cases "arr ! pos = skip_byte w")
      case False
      then have "scan_aligned w base arr pos bp c = Some (True, pos, bp, c)"
        using True rdp by (simp add: scan_aligned.simps [of w base arr pos bp c])
      with "1.prems" show ?thesis by auto
    next
      case eq: True
      with byte_run [OF pos, of w] bp have run: "bit_run arr (\<not> w) bp (bp + 8)" by simp
      from "1.IH" [OF True rdp] eq "1.prems" True obtain f pos' bp' c' where
        r: "scan_aligned w base arr (pos + 1) (bp + 8) (c - 8) = Some (f, pos', bp', c')"
          "bp' + c' = bp + 8 + (c - 8)" "bp + 8 \<le> bp'" "bp' mod 8 = 0" "pos' = bp' div 8"
          "bit_run arr (\<not> w) (bp + 8) bp'" by auto
      have "scan_aligned w base arr pos bp c = Some (f, pos', bp', c')"
        using True eq rdp r(1) by (simp add: scan_aligned.simps [of w base arr pos bp c])
      with True r(2-5) bit_run_join [OF run r(6)] show ?thesis by auto
    qed
  qed
qed

lemma scan_words_spec:
  assumes "pos + 8 * i \<le> length arr"
  shows "\<exists>i' \<le> i. scan_words w arr pos i = Some (pos + 8 * (i - i'), i') \<and>
    bit_run arr (\<not> w) (8 * pos) (8 * (pos + 8 * (i - i')))"
  using assms
proof (induction i arbitrary: pos)
  case 0
  then show ?case by simp
next
  case (Suc i)
  let ?xs = "take 8 (drop pos arr)"
  have r: "mem_read arr pos 8 = Some ?xs" using Suc.prems by (simp add: mem_read_def)
  show ?case
  proof (cases "?xs = replicate 8 (skip_byte w)")
    case False
    then have "scan_words w arr pos (Suc i) = Some (pos, Suc i)" using r by simp
    then show ?thesis by (intro exI [of _ "Suc i"]) simp
  next
    case True
    with bytes_run [of pos 8 arr w] Suc.prems have run: "bit_run arr (\<not> w) (8 * pos) (8 * (pos + 8))" by simp
    from Suc.IH [of "pos + 8"] Suc.prems obtain i' where i': "i' \<le> i"
      "scan_words w arr (pos + 8) i = Some (pos + 8 + 8 * (i - i'), i')"
      "bit_run arr (\<not> w) (8 * (pos + 8)) (8 * (pos + 8 + 8 * (i - i')))" by auto
    have e: "pos + 8 + 8 * (i - i') = pos + 8 * (Suc i - i')" using i'(1) by simp
    have "scan_words w arr pos (Suc i) = Some (pos + 8 * (Suc i - i'), i')" using r True i'(2) e by simp
    with i'(1) bit_run_join [OF run i'(3)] show ?thesis unfolding e by (intro exI [of _ i']) simp
  qed
qed

lemma scan_bytes_spec:
  assumes "pos + i \<le> length arr"
  shows "\<exists>i' \<le> i. scan_bytes w arr pos i = Some (pos + (i - i'), i') \<and>
    bit_run arr (\<not> w) (8 * pos) (8 * (pos + (i - i')))"
  using assms
proof (induction i arbitrary: pos)
  case 0
  then show ?case by simp
next
  case (Suc i)
  have r: "rd arr pos = Some (arr ! pos)" using Suc.prems by (simp add: rd_Some)
  show ?case
  proof (cases "arr ! pos = skip_byte w")
    case False
    then have "scan_bytes w arr pos (Suc i) = Some (pos, Suc i)" using r by simp
    then show ?thesis by (intro exI [of _ "Suc i"]) simp
  next
    case True
    with byte_run [of pos arr w] Suc.prems have run: "bit_run arr (\<not> w) (8 * pos) (8 * (pos + 1))"
      by (simp add: add.commute)
    have "pos + 1 + i \<le> length arr" using Suc.prems by simp
    from Suc.IH [OF this] obtain i' where i': "i' \<le> i"
      "scan_bytes w arr (pos + 1) i = Some (pos + 1 + (i - i'), i')"
      "bit_run arr (\<not> w) (8 * (pos + 1)) (8 * (pos + 1 + (i - i')))" by blast
    have e: "pos + 1 + (i - i') = pos + (Suc i - i')" using i'(1) by simp
    have "scan_bytes w arr pos (Suc i) = Some (pos + (Suc i - i'), i')" using r True i'(2) e by simp
    with i'(1) bit_run_join [OF run i'(3)] show ?thesis unfolding e by (intro exI [of _ i']) simp
  qed
qed

lemma scan_middle_spec:
  assumes "bp + c \<le> 8 * length arr" "bp mod 8 = 0" "pos = bp div 8"
  shows "\<exists>bp' c'. (do { let max1 = c div 64;
              (pos, i) \<leftarrow> scan_words w arr pos max1;
              let count = c - 64 * (max1 - i);
              let bitpos = bp + 64 * (max1 - i);
              let max2 = count div 8;
              (pos, i) \<leftarrow> scan_bytes w arr pos max2;
              Some (bitpos + 8 * (max2 - i), count - 8 * (max2 - i)) }) = Some (bp', c') \<and>
    bp' + c' = bp + c \<and> bp \<le> bp' \<and> bit_run arr (\<not> w) bp bp'"
proof -
  have bp: "8 * pos = bp" using assms by auto
  have "pos + 8 * (c div 64) \<le> length arr" using assms bp by linarith
  from scan_words_spec [OF this, of w] obtain i where i: "i \<le> c div 64"
    "scan_words w arr pos (c div 64) = Some (pos + 8 * (c div 64 - i), i)"
    "bit_run arr (\<not> w) (8 * pos) (8 * (pos + 8 * (c div 64 - i)))" by blast
  define d where "d = c div 64 - i"
  have d: "64 * d \<le> c" unfolding d_def using i(1) by linarith
  let ?c = "c - 64 * d"
  have "(pos + 8 * d) + ?c div 8 \<le> length arr" using assms bp d by linarith
  from scan_bytes_spec [OF this, of w] obtain j where j: "j \<le> ?c div 8"
    "scan_bytes w arr (pos + 8 * d) (?c div 8) = Some (pos + 8 * d + (?c div 8 - j), j)"
    "bit_run arr (\<not> w) (8 * (pos + 8 * d)) (8 * (pos + 8 * d + (?c div 8 - j)))" by blast
  define e where "e = ?c div 8 - j"
  have e: "8 * e \<le> ?c" unfolding e_def using j(1) by linarith
  have "bit_run arr (\<not> w) bp (bp + 64 * d + 8 * e)"
    using bit_run_join [OF i(3) [folded d_def] j(3) [folded e_def]] bp by (simp add: algebra_simps)
  with i(2) j(2) d e show ?thesis by (simp add: Let_def d_def [symmetric] e_def [symmetric])
qed

lemma ba_find_first_rel:
  assumes "sub64 start (bm_start b) = s" "add64 (sub64 end start) 1 = c" "0 < c"
    and "s + c \<le> 8 * length (bm_private b)" "s + c + bm_start b \<le> W64"
  shows "\<exists>r. ba_find_first w base b start end = Some r \<and>
    (case r of Inr m \<Rightarrow> \<exists>n. m = n + bm_start b \<and> s \<le> n \<and> n < s + c \<and> (n \<in> bits (bm_private b)) = w \<and>
         bit_run (bm_private b) (\<not> w) s n
     | Inl e \<Rightarrow> e = ENOENT \<and> bit_run (bm_private b) (\<not> w) s (s + c))"
proof -
  let ?arr = "bm_private b"
  have nw: "add64 n (bm_start b) = n + bm_start b" if "n < s + c" for n
    using that assms(5) by (intro add64_nowrap) simp
  from scan_to_byte_spec [OF assms(4), of w] obtain h where h: "scan_to_byte w ?arr s c = Some h"
    "case h of Inl n \<Rightarrow> s \<le> n \<and> n < s + c \<and> (n \<in> bits ?arr) = w \<and> bit_run ?arr (\<not> w) s n
     | Inr (bp', c') \<Rightarrow> bp' + c' = s + c \<and> s \<le> bp' \<and> bit_run ?arr (\<not> w) s bp' \<and> (c' = 0 \<or> bp' mod 8 = 0)"
    by blast
  show ?thesis
  proof (cases h)
    case (Inl n)
    with h nw assms show ?thesis by (auto simp: ba_find_first_def)
  next
    case (Inr pr)
    obtain bp1 c1 where pr: "pr = (bp1, c1)" by (cases pr)
    with h Inr have b1: "bp1 + c1 = s + c" "s \<le> bp1" "bit_run ?arr (\<not> w) s bp1" "c1 = 0 \<or> bp1 mod 8 = 0"
      by auto
    show ?thesis
    proof (cases "c1 = 0")
      case True
      with b1 h(1) Inr pr assms show ?thesis by (simp add: ba_find_first_def)
    next
      case False
      then have m8: "bp1 mod 8 = 0" using b1 by simp
      have in1: "bp1 + c1 \<le> 8 * length ?arr" using b1 assms by simp
      from scan_aligned_spec [OF in1 m8 refl, of w base] obtain f pos bp2 c2 where
        a: "scan_aligned w base ?arr (bp1 div 8) bp1 c1 = Some (f, pos, bp2, c2)" "bp2 + c2 = bp1 + c1"
          "bp1 \<le> bp2" "bp2 mod 8 = 0" "pos = bp2 div 8" "bit_run ?arr (\<not> w) bp1 bp2" by (elim exE conjE)
      have in2: "bp2 + c2 \<le> 8 * length ?arr" using a in1 by simp
      define mid where "mid = (if f then Some (bp2, c2) else do { let max1 = c2 div 64;
              (pos, i) \<leftarrow> scan_words w ?arr pos max1;
              let count = c2 - 64 * (max1 - i);
              let bitpos = bp2 + 64 * (max1 - i);
              let max2 = count div 8;
              (pos, i) \<leftarrow> scan_bytes w ?arr pos max2;
              Some (bitpos + 8 * (max2 - i), count - 8 * (max2 - i)) })"
      have "\<exists>bp3 c3. mid = Some (bp3, c3) \<and> bp3 + c3 = bp2 + c2 \<and> bp2 \<le> bp3 \<and> bit_run ?arr (\<not> w) bp2 bp3"
        using scan_middle_spec [OF in2 a(4,5), of w] by (auto simp: mid_def)
      then obtain bp3 c3 where m: "mid = Some (bp3, c3)" "bp3 + c3 = bp2 + c2" "bp2 \<le> bp3"
        "bit_run ?arr (\<not> w) bp2 bp3" by blast
      have in3: "bp3 + c3 \<le> 8 * length ?arr" using m in2 by simp
      from scan_bits_spec [OF in3, of w] obtain r where r: "scan_bits w ?arr bp3 c3 = Some r"
        "case r of Some n \<Rightarrow> bp3 \<le> n \<and> n < bp3 + c3 \<and> (n \<in> bits ?arr) = w \<and> bit_run ?arr (\<not> w) bp3 n
         | None \<Rightarrow> bit_run ?arr (\<not> w) bp3 (bp3 + c3)" by blast
      have run: "bit_run ?arr (\<not> w) s bp3"
        using b1(3) a(6) m(4) by (blast intro: bit_run_join)
      have u: "ba_find_first w base b start end =
        Some (case r of Some n \<Rightarrow> Inr (add64 n (bm_start b)) | None \<Rightarrow> Inl ENOENT)"
        using h(1) Inr pr False a(1) m(1) r(1) assms(1,2)
        by (simp add: ba_find_first_def mid_def [symmetric])
      have t: "bp3 + c3 = s + c" "s \<le> bp3" using m a b1 by auto
      show ?thesis
      proof (cases r)
        case None
        with r(2) t bit_run_join [OF run] show ?thesis unfolding u by simp
      next
        case (Some n)
        with r(2) t nw bit_run_join [OF run] show ?thesis unfolding u by auto
      qed
    qed
  qed
qed

lemma ba_find_first_spec:
  assumes "ba_inv b" "bm_start b \<le> s" "s \<le> e" "e \<le> bm_real_end b"
  shows "\<exists>r. ba_find_first w base b s e = Some r \<and> first_in (\<lambda>k. (k \<in> ba_set b) = w) s e r"
proof -
  let ?s = "s - bm_start b" and ?c = "e - s + 1"
  have rel: "sub64 s (bm_start b) = ?s" using assms by (intro ba_rel) auto
  have c: "add64 (sub64 e s) 1 = ?c" using assms by (auto simp: u64_simps ba_inv_def intro!: add64_nowrap)
  have "e - bm_start b < 8 * length (bm_private b)" using assms by (intro ba_rel(2)) auto
  then have len: "?s + ?c \<le> 8 * length (bm_private b)" using assms by linarith
  have w64: "?s + ?c + bm_start b \<le> W64" using assms by (simp add: ba_inv_def)
  from ba_find_first_rel [OF rel c _ len w64, of w base] obtain r where r: "ba_find_first w base b s e = Some r"
    "case r of Inr m \<Rightarrow> \<exists>n. m = n + bm_start b \<and> ?s \<le> n \<and> n < ?s + ?c \<and> (n \<in> bits (bm_private b)) = w \<and>
         bit_run (bm_private b) (\<not> w) ?s n
     | Inl e \<Rightarrow> e = ENOENT \<and> bit_run (bm_private b) (\<not> w) ?s (?s + ?c)" by auto
  show ?thesis
  proof (cases r)
    case (Inl x)
    with r(2) bit_run_ba_set [OF assms(1,2), of ?c "\<not> w"] assms
    have "x = ENOENT" "\<forall>m. s \<le> m \<and> m < s + ?c \<longrightarrow> (m \<in> ba_set b) = (\<not> w)" by auto
    with Inl r(1) assms show ?thesis by (auto simp: first_in_Inl)
  next
    case (Inr m)
    with r(2) obtain n where n: "m = n + bm_start b" "?s \<le> n" "n < ?s + ?c" "(n \<in> bits (bm_private b)) = w"
      "bit_run (bm_private b) (\<not> w) ?s n" by auto
    have m: "s \<le> m" "m \<le> e" "(m \<in> ba_set b) = w" using n assms by (auto simp: ba_set_iff)
    have "?s + (m - s) = n" using n assms by simp
    with bit_run_ba_set [OF assms(1,2), of "m - s" "\<not> w"] n m assms
    have "\<forall>k. s \<le> k \<and> k < m \<longrightarrow> (k \<in> ba_set b) = (\<not> w)" by auto
    with Inr m r(1) show ?thesis by (auto simp: first_in_Inr)
  qed
qed

section \<open>The contract\<close>

interpretation ba: bitmap_backend "ext2fs_blkmap64_bitarray fresh base" ba_set ba_inv for fresh base
proof (unfold_locales, goal_cases)
  case (1 b)
  then show ?case by (simp add: ba_inv_def)
next
  case (2 b n)
  with ba_test_spec [OF 2] show ?case by (auto simp: ext2fs_blkmap64_bitarray_def)
next
  case (3 b n)
  with ba_mark_spec [OF 3] show ?case by (simp add: ext2fs_blkmap64_bitarray_def)
next
  case (4 b n)
  from ba_unmark_spec [OF 4] show ?case unfolding ext2fs_blkmap64_bitarray_def by fastforce
next
  case (5 b n num)
  with ba_mark_extent_spec [OF 5] show ?case by (simp add: ext2fs_blkmap64_bitarray_def)
next
  case (6 b n num)
  with ba_unmark_extent_spec [OF 6] show ?case by (simp add: ext2fs_blkmap64_bitarray_def)
next
  case (7 b n num)
  with ba_test_clear_spec [OF 7] show ?case by (simp add: ext2fs_blkmap64_bitarray_def)
next
  case (8 b)
  with ba_clear_spec [OF 8] show ?case by (simp add: ext2fs_blkmap64_bitarray_def)
next
  case (9 b s e)
  from ba_find_first_spec [OF 9, of True base] show ?case
    by (simp add: ext2fs_blkmap64_bitarray_def ba_find_first_set_def)
next
  case (10 b s e)
  from ba_find_first_spec [OF 10, of False base] show ?case
    by (auto simp: ext2fs_blkmap64_bitarray_def ba_find_first_zero_def)
qed

section \<open>Creation, copy and resize\<close>

lemma ba_new_spec:
  assumes "bm_start b \<le> bm_end b" "bm_end b \<le> bm_real_end b" "bm_real_end b < W64 - 1"
    and "mem 8" "mem (ba_size b)"
  shows "\<exists>b'. ba_new_bmap fresh mem b = Some (0, b') \<and> ba_inv b' \<and> same_frame b b' \<and> ba_set b' = {}"
  using assms
  by (simp add: ba_new_bmap_def ba_alloc_private_data_def mem_fill_def ba_size_def ba_inv_def ba_set_def u64_simps)

lemma ba_copy_spec:
  assumes "ba_inv src" "bm_start dest = bm_start src" "bm_end dest = bm_end src" "bm_real_end dest = bm_real_end src"
    and "mem 8" "mem (ba_size src)"
  shows "\<exists>dest'. ba_copy_bmap fresh mem src dest = Some (0, src, dest') \<and> ba_inv dest' \<and>
    same_frame dest dest' \<and> ba_set dest' = ba_set src"
proof -
  have sz: "ba_size dest = ba_size src" "ba_size src = length (bm_private src)"
    using assms(1-4) ba_size_inv by (auto simp: ba_size_def)
  then have "ba_copy_bmap fresh mem src dest = Some (0, src, dest\<lparr>bm_private := bm_private src\<rparr>)"
    using assms(5,6) by (simp add: ba_copy_bmap_def ba_alloc_private_data_def mem_read_def mem_write_def)
  then show ?thesis using assms(1-4) by (simp add: ba_inv_def ba_set_def)
qed

interpretation ba_alloc: bitmap_backend_alloc "ext2fs_blkmap64_bitarray fresh base" ba_set ba_inv for fresh base
proof (unfold_locales, goal_cases)
  case (1 mem b)
  with ba_new_spec [OF 1(2-4), of mem fresh] show ?case by (simp add: ext2fs_blkmap64_bitarray_def)
next
  case (2 mem b r b')
  then show ?case
    by (auto simp: ext2fs_blkmap64_bitarray_def ba_new_bmap_def ba_alloc_private_data_def Option.bind_eq_Some_conv
        split: if_splits)
next
  case (3 mem src dest)
  have "mem 8" "mem (ba_size src)" using 3(1) by blast+
  from ba_copy_spec [OF 3(2-5) this, of fresh] show ?case
    by (elim exE conjE) (simp add: ext2fs_blkmap64_bitarray_def 3(2))
qed

lemma ba_clear_down_spec:
  assumes "start \<le> hi" "bitno < W64" "bitno - start < 8 * length arr"
  shows "\<exists>arr'. ba_clear_down start hi bitno arr = Some arr' \<and> length arr' = length arr \<and>
    bits arr' = bits arr - {k. hi - start < k \<and> k \<le> bitno - start}"
  using assms
proof (induction start hi bitno arr rule: ba_clear_down.induct)
  case (1 start hi bitno arr)
  show ?case
  proof (cases "hi < bitno")
    case False
    then have "ba_clear_down start hi bitno arr = Some arr" by (simp add: ba_clear_down.simps [of _ _ bitno])
    moreover have "{k. hi - start < k \<and> k \<le> bitno - start} = {}" using False by auto
    ultimately show ?thesis by auto
  next
    case True
    have e: "sub64 bitno start = bitno - start" using True "1.prems" by (simp add: u64_simps)
    from clear_bit64_spec [OF "1.prems"(3)] obtain v ys where
      ys: "ext2fs_clear_bit64 (bitno - start) arr = Some (v, ys)" "length ys = length arr"
        "bits ys = bits arr - {bitno - start}" by (elim exE conjE)
    have "\<exists>arr'. ba_clear_down start hi (bitno - 1) ys = Some arr' \<and> length arr' = length ys \<and>
       bits arr' = bits ys - {k. hi - start < k \<and> k \<le> bitno - 1 - start}"
      using "1.prems" True ys(2) by (intro "1.IH" [OF True _ refl]) (auto simp: e ys(1))
    moreover have "{k. hi - start < k \<and> k \<le> bitno - start} =
      insert (bitno - start) {k. hi - start < k \<and> k \<le> bitno - 1 - start}" using True "1.prems"(1) by auto
    ultimately show ?thesis using True e ys by (auto simp: ba_clear_down.simps [of _ _ bitno])
  qed
qed

text \<open>Growing a bit array whose bits beyond \<open>real_end\<close> are 0.\<close>

lemma ba_resize_grow_spec:
  assumes inv: "ba_inv b" and clean: "bits (bm_private b) \<subseteq> {..bm_real_end b - bm_start b}"
    and new: "bm_real_end b \<le> new_real_end" "new_real_end < W64 - 1" "bm_start b \<le> new_end"
      "new_end \<le> new_real_end" and mem: "mem (sub64 new_real_end (bm_start b) div 8 + 1)"
  shows "\<exists>b'. ba_resize_bmap mem fresh b new_end new_real_end = Some (0, b') \<and> ba_inv b' \<and>
    bm_start b' = bm_start b \<and> bm_end b' = new_end \<and> bm_real_end b' = new_real_end \<and>
    ba_set b' \<inter> {..new_end} = ba_set b \<inter> {..min (bm_end b) new_end}"
proof -
  let ?st = "bm_start b" and ?hi = "if bm_real_end b > new_end then new_end else bm_real_end b"
  have fr: "?st \<le> bm_end b" "bm_end b \<le> bm_real_end b" "bm_real_end b < W64 - 1"
    "length (bm_private b) = (bm_real_end b - ?st) div 8 + 1" using inv by (auto simp: ba_inv_def)
  define arr0 where "arr0 = (if new_end > bm_end b then ba_clear_down ?st (bm_end b) ?hi (bm_private b)
    else Some (bm_private b))"
  have hi: "?hi - ?st < 8 * length (bm_private b)" using new(3) fr by (intro ba_rel(2) [OF inv]) auto
  have "\<exists>arr. arr0 = Some arr \<and> length arr = length (bm_private b) \<and>
    bits arr = bits (bm_private b) - {k. bm_end b < new_end \<and> bm_end b - ?st < k \<and> k \<le> ?hi - ?st}"
  proof (cases "new_end > bm_end b")
    case True
    have "?hi < W64" using fr new by auto
    from ba_clear_down_spec [OF fr(1) this hi] True show ?thesis by (simp add: arr0_def)
  qed (simp add: arr0_def)
  then obtain arr where arr: "arr0 = Some arr" "length arr = length (bm_private b)"
    "bits arr = bits (bm_private b) - {k. bm_end b < new_end \<and> bm_end b - ?st < k \<and> k \<le> ?hi - ?st}"
    by (elim exE conjE)
  define sz where "sz = (bm_real_end b - ?st) div 8 + 1"
  define nsz where "nsz = (new_real_end - ?st) div 8 + 1"
  have s64: "sub64 (bm_real_end b) ?st = bm_real_end b - ?st" "sub64 new_real_end ?st = new_real_end - ?st"
    using fr new by (auto intro!: sub64_nowrap)
  have le: "sz \<le> nsz" using new(1) by (auto simp: sz_def nsz_def intro!: div_le_mono)
  define arr2 where "arr2 = arr @ replicate (nsz - sz) 0"
  have res: "ba_resize_bmap mem fresh b new_end new_real_end =
      Some (0, b\<lparr>bm_private := arr2, bm_end := new_end, bm_real_end := new_real_end\<rparr>)"
  proof (cases "sz = nsz")
    case True
    then have "(bm_real_end b - ?st) div 8 = (new_real_end - ?st) div 8" by (simp add: sz_def nsz_def)
    then show ?thesis
      using arr(1) mem True by (simp add: ba_resize_bmap_def arr0_def [symmetric] s64 Let_def arr2_def)
  next
    case False
    with le have lt: "(bm_real_end b - ?st) div 8 < (new_real_end - ?st) div 8"
      by (simp add: sz_def nsz_def)
    moreover from lt have "new_real_end \<noteq> bm_real_end b" by auto
    moreover have "length arr = Suc ((bm_real_end b - ?st) div 8)" using arr(2) fr(4) by simp
    ultimately show ?thesis
      using arr(1) mem
      by (simp add: ba_resize_bmap_def arr0_def [symmetric] s64 Let_def arr2_def mem_fill_def sz_def nsz_def)
  qed
  let ?b = "b\<lparr>bm_private := arr2, bm_end := new_end, bm_real_end := new_real_end\<rparr>"
  have "length arr2 = nsz" using le arr(2) fr(4) by (simp add: arr2_def sz_def)
  then have "ba_inv ?b" using new by (simp add: ba_inv_def nsz_def)
  moreover have "ba_set ?b \<inter> {..new_end} = ba_set b \<inter> {..min (bm_end b) new_end}"
  proof (intro set_eqI)
    fix m
    have b2: "k \<in> bits arr2 \<longleftrightarrow> k \<in> bits arr" for k
      by (auto simp: arr2_def bits_append dest: bits_bound)
    have mr: "?st \<le> m \<Longrightarrow> m - ?st \<in> bits (bm_private b) \<Longrightarrow> m \<le> bm_real_end b"
      using clean fr by (force simp: subset_iff)
    have "m - ?st \<in> bits arr \<longleftrightarrow> m - ?st \<in> bits (bm_private b) \<and> m \<le> bm_end b"
      if m: "?st \<le> m" "m \<le> new_end"
    proof -
      have "bm_end b - ?st < m - ?st \<longleftrightarrow> bm_end b < m" "m - ?st \<le> ?hi - ?st \<longleftrightarrow> m \<le> ?hi"
        using m fr new by auto
      then show ?thesis using mr m unfolding arr(3) by auto
    qed
    then show "m \<in> ba_set ?b \<inter> {..new_end} \<longleftrightarrow> m \<in> ba_set b \<inter> {..min (bm_end b) new_end}"
      using new(4) mr by (auto simp: ba_set_iff b2)
  qed
  ultimately show ?thesis using res by simp
qed

section \<open>Byte ranges\<close>

text \<open>Storing a byte image with \<^verbatim>\<open>ba_set_bmap_range\<close> and reading the same range back with
  \<^verbatim>\<open>ba_get_bmap_range\<close> returns the image byte for byte; inside the range the array holds exactly
  the bits of the image and outside it nothing changes, provided the range lies inside the array and the
  buffers are large enough.\<close>

theorem ba_range_roundtrip:
  assumes "start div 8 + (num + 7) div 8 \<le> length (bm_private b)"
    "(num + 7) div 8 \<le> length src" "(num + 7) div 8 \<le> length out"
  shows "\<exists>b'. ba_set_bmap_range b start num src = Some (0, b') \<and> same_frame b b' \<and>
    ba_get_bmap_range b' start num out =
      Some (0, take ((num + 7) div 8) src @ drop ((num + 7) div 8) out) \<and>
    (\<forall>n. n \<in> bits (bm_private b') \<longleftrightarrow>
      (if 8 * (start div 8) \<le> n \<and> n < 8 * (start div 8 + (num + 7) div 8)
       then n - 8 * (start div 8) \<in> bits src else n \<in> bits (bm_private b)))"
proof -
  let ?n = "(num + 7) div 8" and ?o = "start div 8"
  have "?o + length (take ?n src) \<le> length (bm_private b)" using assms by simp
  from mem_write_bits [OF this] obtain arr where
    arr: "mem_write (bm_private b) ?o (take ?n src) = Some arr" "mem_read arr ?o ?n = Some (take ?n src)"
      "\<And>n. n \<in> bits arr \<longleftrightarrow> (if 8 * ?o \<le> n \<and> n < 8 * (?o + ?n) then n - 8 * ?o \<in> bits (take ?n src)
         else n \<in> bits (bm_private b))"
    using assms(2) by (auto simp: min_absorb2)
  have "n - 8 * ?o \<in> bits (take ?n src) \<longleftrightarrow> n - 8 * ?o \<in> bits src" if "8 * ?o \<le> n" "n < 8 * (?o + ?n)" for n
    using that by (auto simp: bits_take)
  then have "\<forall>n. n \<in> bits arr \<longleftrightarrow> (if 8 * ?o \<le> n \<and> n < 8 * (?o + ?n) then n - 8 * ?o \<in> bits src
         else n \<in> bits (bm_private b))" using arr(3) by simp
  then show ?thesis using arr(1,2) assms(2,3)
    by (simp add: ba_set_bmap_range_def ba_get_bmap_range_def mem_read_def [of src] mem_write_def [of out])
qed

theorem ba_range_roundtrip_witness:
  "\<exists>b'. ba_set_bmap_range (small_bmap [1, 2, 3]) 8 9 [5, 6, 7] = Some (0, b') \<and> same_frame (small_bmap [1, 2, 3]) b' \<and>
    ba_get_bmap_range b' 8 9 [0, 0, 0] = Some (0, take ((9 + 7) div 8) [5, 6, 7] @ drop ((9 + 7) div 8) [0, 0, 0]) \<and>
    (\<forall>n. n \<in> bits (bm_private b') \<longleftrightarrow>
      (if 8 * (8 div 8) \<le> n \<and> n < 8 * (8 div 8 + (9 + 7) div 8)
       then n - 8 * (8 div 8) \<in> bits [5, 6, 7] else n \<in> bits (bm_private (small_bmap [1, 2, 3]))))"
  by (rule ba_range_roundtrip) (simp_all add: small_bmap_def)

end
