(* ===== verification/Gen_Bitmap32.thy ===== *)
theory Gen_Bitmap32
  imports Bitmap_Ba
begin

text \<open>
  The legacy 32-bit bitmap of \<^verbatim>\<open>lib/ext2fs/gen_bitmap.c\<close>. Every number is an unsigned 32-bit
  value, so sums and differences wrap at \<open>2 ^ 32\<close>. A loop whose counter can wrap and run forever is a
  partial function: it has no value when the C loop does not end. Warnings only print and are left out.
  An object of this type never carries a 64-bit magic; such an access is \<open>None\<close>.
\<close>

unbundle bit_operations_syntax

section \<open>The object\<close>

record bitmap32 =
  g_magic :: errcode
  g_start :: nat
  g_end :: nat
  g_real_end :: nat
  g_description :: "string option"
  g_bitmap :: "u8 list"
  g_base_error_code :: errcode

definition EXT2FS_IS_32_BITMAP :: "errcode \<Rightarrow> bool" where
  "EXT2FS_IS_32_BITMAP m \<longleftrightarrow>
     m = EXT2_ET_MAGIC_GENERIC_BITMAP \<or> m = EXT2_ET_MAGIC_BLOCK_BITMAP \<or> m = EXT2_ET_MAGIC_INODE_BITMAP"

definition EXT2FS_IS_64_BITMAP :: "errcode \<Rightarrow> bool" where
  "EXT2FS_IS_64_BITMAP m \<longleftrightarrow>
     m = EXT2_ET_MAGIC_GENERIC_BITMAP64 \<or> m = EXT2_ET_MAGIC_BLOCK_BITMAP64 \<or> m = EXT2_ET_MAGIC_INODE_BITMAP64"

definition check_magic :: "bitmap32 option \<Rightarrow> errcode" where
  "check_magic b = (case b of
     None \<Rightarrow> EXT2_ET_MAGIC_GENERIC_BITMAP
   | Some m \<Rightarrow> if EXT2FS_IS_32_BITMAP (g_magic m) then 0 else EXT2_ET_MAGIC_GENERIC_BITMAP)"

section \<open>Creation\<close>

definition bitmap32_bytes :: "nat \<Rightarrow> nat \<Rightarrow> nat" where
  "bitmap32_bytes start real_end = sub32 real_end start div 8 + 1"

definition bitmap32_alloc_size :: "nat \<Rightarrow> nat \<Rightarrow> nat" where
  "bitmap32_alloc_size start real_end = (bitmap32_bytes start real_end + 7) div 4 * 4"

definition base_error_code32 :: "errcode \<Rightarrow> errcode" where
  "base_error_code32 magic =
     (if magic = EXT2_ET_MAGIC_INODE_BITMAP then EXT2_ET_BAD_INODE_MARK
      else if magic = EXT2_ET_MAGIC_BLOCK_BITMAP then EXT2_ET_BAD_BLOCK_MARK
      else EXT2_ET_BAD_GENERIC_MARK)"

definition ext2fs_make_generic_bitmap ::
  "allocator \<Rightarrow> errcode \<Rightarrow> nat \<Rightarrow> nat \<Rightarrow> nat \<Rightarrow> string option \<Rightarrow> u8 list option \<Rightarrow> (errcode + bitmap32) option" where
  "ext2fs_make_generic_bitmap mem magic start end real_end descr init_map =
     (let size = bitmap32_alloc_size start real_end;
          make = (\<lambda>arr. \<lparr>g_magic = magic, g_start = start, g_end = end, g_real_end = real_end,
                        g_description = descr, g_bitmap = arr,
                        g_base_error_code = base_error_code32 magic\<rparr>)
      in if \<not> mem 88 then Some (Inl EXT2_ET_NO_MEMORY)
         else if descr \<noteq> None \<and> \<not> mem (length (the descr) + 1) then Some (Inl EXT2_ET_NO_MEMORY)
         else if \<not> mem size then Some (Inl EXT2_ET_NO_MEMORY)
         else case init_map of
                None \<Rightarrow> Some (Inr (make (replicate size 0)))
              | Some src \<Rightarrow> do { xs \<leftarrow> mem_read src 0 size; Some (Inr (make xs)) })"

definition ext2fs_allocate_generic_bitmap ::
  "allocator \<Rightarrow> nat \<Rightarrow> nat \<Rightarrow> nat \<Rightarrow> string option \<Rightarrow> (errcode + bitmap32) option" where
  "ext2fs_allocate_generic_bitmap mem start end real_end descr =
     ext2fs_make_generic_bitmap mem EXT2_ET_MAGIC_GENERIC_BITMAP start end real_end descr None"

definition ext2fs_copy_generic_bitmap :: "allocator \<Rightarrow> bitmap32 \<Rightarrow> (errcode + bitmap32) option" where
  "ext2fs_copy_generic_bitmap mem src =
     ext2fs_make_generic_bitmap mem (g_magic src) (g_start src) (g_end src) (g_real_end src)
       (g_description src) (Some (g_bitmap src))"

section \<open>Single bits\<close>

definition ext2fs_test_generic_bitmap :: "bitmap32 \<Rightarrow> nat \<Rightarrow> int option" where
  "ext2fs_test_generic_bitmap b bitno =
     (if \<not> EXT2FS_IS_32_BITMAP (g_magic b) then
        (if EXT2FS_IS_64_BITMAP (g_magic b) then None else Some 0)
      else if bitno < g_start b \<or> bitno > g_end b then Some 0
      else ext2fs_test_bit (sub32 bitno (g_start b)) (g_bitmap b))"

definition ext2fs_mark_generic_bitmap :: "bitmap32 \<Rightarrow> nat \<Rightarrow> (int \<times> bitmap32) option" where
  "ext2fs_mark_generic_bitmap b bitno =
     (if \<not> EXT2FS_IS_32_BITMAP (g_magic b) then
        (if EXT2FS_IS_64_BITMAP (g_magic b) then None else Some (0, b))
      else if bitno < g_start b \<or> bitno > g_end b then Some (0, b)
      else do { (r, arr) \<leftarrow> ext2fs_set_bit (sub32 bitno (g_start b)) (g_bitmap b);
                Some (r, b\<lparr>g_bitmap := arr\<rparr>) })"

definition ext2fs_unmark_generic_bitmap :: "bitmap32 \<Rightarrow> nat \<Rightarrow> (int \<times> bitmap32) option" where
  "ext2fs_unmark_generic_bitmap b bitno =
     (if \<not> EXT2FS_IS_32_BITMAP (g_magic b) then
        (if EXT2FS_IS_64_BITMAP (g_magic b) then None else Some (0, b))
      else if bitno < g_start b \<or> bitno > g_end b then Some (0, b)
      else do { (r, arr) \<leftarrow> ext2fs_clear_bit (sub32 bitno (g_start b)) (g_bitmap b);
                Some (r, b\<lparr>g_bitmap := arr\<rparr>) })"

definition ext2fs_get_generic_bitmap_start :: "bitmap32 \<Rightarrow> nat option" where
  "ext2fs_get_generic_bitmap_start b =
     (if \<not> EXT2FS_IS_32_BITMAP (g_magic b) then
        (if EXT2FS_IS_64_BITMAP (g_magic b) then None else Some 0)
      else Some (g_start b))"

definition ext2fs_get_generic_bitmap_end :: "bitmap32 \<Rightarrow> nat option" where
  "ext2fs_get_generic_bitmap_end b =
     (if \<not> EXT2FS_IS_32_BITMAP (g_magic b) then
        (if EXT2FS_IS_64_BITMAP (g_magic b) then None else Some 0)
      else Some (g_end b))"

section \<open>Whole bitmap\<close>

definition ext2fs_clear_generic_bitmap :: "bitmap32 \<Rightarrow> bitmap32 option" where
  "ext2fs_clear_generic_bitmap b =
     (if \<not> EXT2FS_IS_32_BITMAP (g_magic b) then
        (if EXT2FS_IS_64_BITMAP (g_magic b) then None else Some b)
      else do { arr \<leftarrow> mem_fill (g_bitmap b) 0 0 (bitmap32_bytes (g_start b) (g_real_end b));
                Some (b\<lparr>g_bitmap := arr\<rparr>) })"

text \<open>The result is the error code, the old end when it was stored, and the bitmap.\<close>

definition ext2fs_fudge_generic_bitmap_end ::
  "bitmap32 \<Rightarrow> errcode \<Rightarrow> errcode \<Rightarrow> nat \<Rightarrow> errcode \<times> nat option \<times> bitmap32" where
  "ext2fs_fudge_generic_bitmap_end b magic neq end =
     (if g_magic b \<noteq> magic then (magic, None, b)
      else if end > g_real_end b then (neq, None, b)
      else (0, Some (g_end b), b\<lparr>g_end := end\<rparr>))"

fun clear_down32 :: "nat \<Rightarrow> nat \<Rightarrow> nat \<Rightarrow> u8 list \<Rightarrow> u8 list option" where
  "clear_down32 start end bitno arr =
     (if bitno > end
      then do { (_, arr') \<leftarrow> ext2fs_clear_bit (sub32 bitno start) arr;
                clear_down32 start end (bitno - 1) arr' }
      else Some arr)"

definition ext2fs_resize_generic_bitmap ::
  "allocator \<Rightarrow> (nat \<Rightarrow> u8) \<Rightarrow> errcode \<Rightarrow> nat \<Rightarrow> nat \<Rightarrow> bitmap32 option \<Rightarrow> (errcode \<times> bitmap32 option) option" where
  "ext2fs_resize_generic_bitmap mem fresh magic new_end new_real_end bmap =
     (case bmap of None \<Rightarrow> Some (magic, None)
      | Some b \<Rightarrow>
        if g_magic b \<noteq> magic then Some (magic, Some b)
        else do {
          arr \<leftarrow> (if new_end > g_end b
                  then clear_down32 (g_start b) (g_end b)
                         (if g_real_end b > new_end then new_end else g_real_end b) (g_bitmap b)
                  else Some (g_bitmap b));
          let b1 = b\<lparr>g_bitmap := arr\<rparr> in
          if new_real_end = g_real_end b then Some (0, Some (b1\<lparr>g_end := new_end\<rparr>))
          else
            let size = bitmap32_bytes (g_start b) (g_real_end b);
                new_size = bitmap32_bytes (g_start b) new_real_end
            in if size \<noteq> new_size \<and> \<not> mem new_size then Some (EXT2_ET_NO_MEMORY, Some b1)
               else do {
                 let arr1 = (if size \<noteq> new_size then resize_array fresh new_size arr else arr);
                 arr2 \<leftarrow> (if new_size > size then mem_fill arr1 size 0 (new_size - size) else Some arr1);
                 Some (0, Some (b1\<lparr>g_bitmap := arr2, g_end := new_end, g_real_end := new_real_end\<rparr>)) } })"

partial_function (option) compare_tail32 ::
  "errcode \<Rightarrow> bitmap32 \<Rightarrow> bitmap32 \<Rightarrow> nat \<Rightarrow> errcode option" where
  "compare_tail32 neq bm1 bm2 i =
     (if i \<le> g_end bm1
      then do { a \<leftarrow> ext2fs_test_generic_bitmap bm1 i;
                b \<leftarrow> ext2fs_test_generic_bitmap bm2 i;
                if a \<noteq> b then Some neq else compare_tail32 neq bm1 bm2 (add32 i 1) }
      else Some 0)"

definition ext2fs_compare_generic_bitmap ::
  "errcode \<Rightarrow> errcode \<Rightarrow> bitmap32 option \<Rightarrow> bitmap32 option \<Rightarrow> errcode option" where
  "ext2fs_compare_generic_bitmap magic neq m1 m2 =
     (case (m1, m2) of
        (Some bm1, Some bm2) \<Rightarrow>
          if g_magic bm1 \<noteq> magic then Some magic
          else if g_magic bm2 \<noteq> magic then Some magic
          else if g_start bm1 \<noteq> g_start bm2 \<or> g_end bm1 \<noteq> g_end bm2 then Some neq
          else do { let n = sub32 (g_end bm1) (g_start bm1) div 8;
                    xs \<leftarrow> mem_read (g_bitmap bm1) 0 n;
                    ys \<leftarrow> mem_read (g_bitmap bm2) 0 n;
                    if xs \<noteq> ys then Some neq
                    else compare_tail32 neq bm1 bm2
                           (sub32 (g_end bm1) (sub32 (g_end bm1) (g_start bm1) mod 8)) }
      | _ \<Rightarrow> Some magic)"

function padding_loop32 :: "nat \<Rightarrow> nat \<Rightarrow> nat \<Rightarrow> nat \<Rightarrow> u8 list \<Rightarrow> u8 list option" where
  "padding_loop32 end real_end i j arr =
     (if i \<le> real_end \<and> i > end
      then do { (_, arr') \<leftarrow> ext2fs_set_bit j arr; padding_loop32 end real_end (add32 i 1) (add32 j 1) arr' }
      else Some arr)"
  by pat_completeness auto
termination
proof (relation "measures [\<lambda>(e, r, i, j, arr). if i < W32 then 0 else 1,
    \<lambda>(e, r, i, j, arr). if i \<le> r \<and> i > e then Suc r - i else 0]", goal_cases)
  case (2 e r i j arr p a arr')
  show ?case
  proof (cases "i + 1 < W32")
    case True
    then show ?thesis using 2 by (auto simp: add32_nowrap)
  next
    case False
    show ?thesis
    proof (cases "i < W32")
      case True
      then have "i = W32 - 1" using False by simp
      then have "add32 i 1 = 0" by (simp add: add32_def)
      then show ?thesis using 2 True by simp
    qed (use add32_lt [of i 1] in simp)
  qed
qed simp

definition ext2fs_set_generic_bitmap_padding :: "bitmap32 \<Rightarrow> bitmap32 option" where
  "ext2fs_set_generic_bitmap_padding b =
     (let i = add32 (g_end b) 1 in
      do { arr \<leftarrow> padding_loop32 (g_end b) (g_real_end b) i (sub32 i (g_start b)) (g_bitmap b);
           Some (b\<lparr>g_bitmap := arr\<rparr>) })"

section \<open>Ranges\<close>

definition ext2fs_get_generic_bitmap_range ::
  "bitmap32 option \<Rightarrow> errcode \<Rightarrow> nat \<Rightarrow> nat \<Rightarrow> u8 list \<Rightarrow> (errcode \<times> u8 list) option" where
  "ext2fs_get_generic_bitmap_range bmap magic start num out =
     (case bmap of None \<Rightarrow> Some (magic, out)
      | Some b \<Rightarrow>
        if g_magic b \<noteq> magic then Some (magic, out)
        else if start < g_start b \<or> sub32 (add32 start num) 1 > g_real_end b
        then Some (EXT2_ET_INVALID_ARGUMENT, out)
        else do { xs \<leftarrow> mem_read (g_bitmap b) (start div 8) (add32 num 7 div 8);
                  out' \<leftarrow> mem_write out 0 xs;
                  Some (0, out') })"

definition ext2fs_set_generic_bitmap_range ::
  "bitmap32 option \<Rightarrow> errcode \<Rightarrow> nat \<Rightarrow> nat \<Rightarrow> u8 list \<Rightarrow> (errcode \<times> bitmap32 option) option" where
  "ext2fs_set_generic_bitmap_range bmap magic start num src =
     (case bmap of None \<Rightarrow> Some (magic, None)
      | Some b \<Rightarrow>
        if g_magic b \<noteq> magic then Some (magic, Some b)
        else if start < g_start b \<or> sub32 (add32 start num) 1 > g_real_end b
        then Some (EXT2_ET_INVALID_ARGUMENT, Some b)
        else do { xs \<leftarrow> mem_read src 0 (add32 num 7 div 8);
                  arr \<leftarrow> mem_write (g_bitmap b) (start div 8) xs;
                  Some (0, Some (b\<lparr>g_bitmap := arr\<rparr>)) })"

text \<open>\<^verbatim>\<open>ext2fs_test_clear_generic_bitmap_range\<close> has the body of
  \<^verbatim>\<open>ba_test_clear_bmap_extent\<close>, with a 32-bit start.\<close>

definition ext2fs_test_clear_generic_bitmap_range :: "bitmap32 \<Rightarrow> nat \<Rightarrow> nat \<Rightarrow> int option" where
  "ext2fs_test_clear_generic_bitmap_range b start0 len =
     (let ADDR = g_bitmap b;
          start = sub32 start0 (g_start b);
          start_byte = start div 8;
          start_bit = start mod 8
      in if start_bit \<noteq> 0 then
           let mark_count = (if len < 8 - start_bit then len else 8 - start_bit);
               mark_bit = (if len < 8 - start_bit then len + start_bit - 1 else 7);
               first_bit = mask_down mark_count mark_bit 0
           in do { c \<leftarrow> rd ADDR start_byte;
                   if first_bit AND c \<noteq> 0 then Some 0
                   else if len \<le> 8 - start_bit then Some 1
                   else ba_clear_tail ADDR (start_byte + 1) ((len - mark_count) mod 8) ((len - mark_count) div 8) }
         else ba_clear_tail ADDR start_byte (len mod 8) (len div 8))"

partial_function (option) find_loop32 :: "bool \<Rightarrow> bitmap32 \<Rightarrow> nat \<Rightarrow> nat \<Rightarrow> (errcode + nat) option" where
  "find_loop32 want b start end =
     (if start \<le> end
      then do { t \<leftarrow> ext2fs_test_bit (sub32 start (g_start b)) (g_bitmap b);
                if (t \<noteq> 0) = want then Some (Inr start) else find_loop32 want b (add32 start 1) end }
      else Some (Inl ENOENT))"

definition ext2fs_find_first_zero_generic_bitmap :: "bitmap32 \<Rightarrow> nat \<Rightarrow> nat \<Rightarrow> (errcode + nat) option" where
  "ext2fs_find_first_zero_generic_bitmap b start end =
     (if start < g_start b \<or> end > g_end b \<or> start > end then Some (Inl EINVAL)
      else find_loop32 False b start end)"

definition ext2fs_find_first_set_generic_bitmap :: "bitmap32 \<Rightarrow> nat \<Rightarrow> nat \<Rightarrow> (errcode + nat) option" where
  "ext2fs_find_first_set_generic_bitmap b start end =
     (if start < g_start b \<or> end > g_end b \<or> start > end then Some (Inl EINVAL)
      else find_loop32 True b start end)"

text \<open>\<^verbatim>\<open>num\<close> is a signed \<^verbatim>\<open>int\<close>; \<^verbatim>\<open>block+num-1\<close> is computed in
  32-bit unsigned arithmetic.\<close>

definition range_last32 :: "nat \<Rightarrow> int \<Rightarrow> nat" where
  "range_last32 block num = nat ((int block + num - 1) mod int W32)"

definition ext2fs_test_block_bitmap_range :: "bitmap32 \<Rightarrow> nat \<Rightarrow> int \<Rightarrow> int option" where
  "ext2fs_test_block_bitmap_range b block num =
     (if g_magic b \<noteq> EXT2_ET_MAGIC_BLOCK_BITMAP then Some EXT2_ET_MAGIC_BLOCK_BITMAP
      else if block < g_start b \<or> range_last32 block num > g_real_end b then Some 0
      else ext2fs_test_clear_generic_bitmap_range b block (nat (num mod int W32)))"

definition ext2fs_test_inode_bitmap_range :: "bitmap32 \<Rightarrow> nat \<Rightarrow> int \<Rightarrow> int option" where
  "ext2fs_test_inode_bitmap_range b inode num =
     (if g_magic b \<noteq> EXT2_ET_MAGIC_INODE_BITMAP then Some EXT2_ET_MAGIC_INODE_BITMAP
      else if inode < g_start b \<or> range_last32 inode num > g_real_end b then Some 0
      else ext2fs_test_clear_generic_bitmap_range b inode (nat (num mod int W32)))"

fun bit_loop32 :: "(u8 \<Rightarrow> nat \<Rightarrow> u8) \<Rightarrow> nat \<Rightarrow> nat \<Rightarrow> nat list \<Rightarrow> u8 list \<Rightarrow> u8 list option" where
  "bit_loop32 f start block [] arr = Some arr"
| "bit_loop32 f start block (i # is) arr =
     do { let nr = sub32 (add32 block i) start;
          b \<leftarrow> rd arr (nr div 8);
          arr' \<leftarrow> wr arr (nr div 8) (f b nr);
          bit_loop32 f start block is arr' }"

definition ext2fs_mark_block_bitmap_range :: "bitmap32 \<Rightarrow> nat \<Rightarrow> int \<Rightarrow> bitmap32 option" where
  "ext2fs_mark_block_bitmap_range b block num =
     (if block < g_start b \<or> range_last32 block num > g_end b then Some b
      else do { arr \<leftarrow> bit_loop32 (\<lambda>c nr. c OR bit_mask nr) (g_start b) block [0..<nat num] (g_bitmap b);
                Some (b\<lparr>g_bitmap := arr\<rparr>) })"

definition ext2fs_unmark_block_bitmap_range :: "bitmap32 \<Rightarrow> nat \<Rightarrow> int \<Rightarrow> bitmap32 option" where
  "ext2fs_unmark_block_bitmap_range b block num =
     (if block < g_start b \<or> range_last32 block num > g_end b then Some b
      else do { arr \<leftarrow> bit_loop32 (\<lambda>c nr. c AND NOT (bit_mask nr)) (g_start b) block [0..<nat num] (g_bitmap b);
                Some (b\<lparr>g_bitmap := arr\<rparr>) })"

declare clear_down32.simps [simp del] padding_loop32.simps [simp del]

section \<open>Invariant and abstraction\<close>

definition g_inv :: "bitmap32 \<Rightarrow> bool" where
  "g_inv b \<longleftrightarrow> EXT2FS_IS_32_BITMAP (g_magic b) \<and> g_start b \<le> g_end b \<and> g_end b \<le> g_real_end b \<and>
     g_real_end b < W32 \<and> (g_real_end b - g_start b) div 8 + 1 \<le> length (g_bitmap b)"

definition g_set :: "bitmap32 \<Rightarrow> nat set" where
  "g_set b = {n. g_start b \<le> n \<and> n \<le> g_real_end b \<and> n - g_start b \<in> bits (g_bitmap b)}"

lemma g_set_iff: "n \<in> g_set b \<longleftrightarrow> g_start b \<le> n \<and> n \<le> g_real_end b \<and> n - g_start b \<in> bits (g_bitmap b)"
  by (simp add: g_set_def)

lemma g_invD:
  assumes "g_inv b"
  shows "EXT2FS_IS_32_BITMAP (g_magic b)" "g_start b \<le> g_end b" "g_end b \<le> g_real_end b" "g_real_end b < W32"
    "(g_real_end b - g_start b) div 8 + 1 \<le> length (g_bitmap b)"
  using assms by (auto simp: g_inv_def)

lemma g_rel:
  assumes "g_inv b" "g_start b \<le> n" "n \<le> g_real_end b"
  shows "sub32 n (g_start b) = n - g_start b" "n - g_start b < 8 * length (g_bitmap b)"
proof -
  note v = g_invD [OF assms(1)]
  show "sub32 n (g_start b) = n - g_start b" using assms v by (intro sub32_nowrap) auto
  have "n - g_start b \<le> g_real_end b - g_start b" using assms by simp
  moreover have "g_real_end b - g_start b < 8 * ((g_real_end b - g_start b) div 8 + 1)" by presburger
  ultimately show "n - g_start b < 8 * length (g_bitmap b)" using v(5) by linarith
qed

lemma g_inv_bitmap: "g_inv b \<Longrightarrow> length arr = length (g_bitmap b) \<Longrightarrow> g_inv (b\<lparr>g_bitmap := arr\<rparr>)"
  by (simp add: g_inv_def)

lemma bit32_eq_bit64:
  "ext2fs_set_bit = ext2fs_set_bit64" "ext2fs_clear_bit = ext2fs_clear_bit64" "ext2fs_test_bit = ext2fs_test_bit64"
  by (intro ext; simp add: ext2fs_set_bit_def ext2fs_set_bit64_def ext2fs_clear_bit_def ext2fs_clear_bit64_def
      ext2fs_test_bit_def ext2fs_test_bit64_def)+

lemma g_set_eqI:
  assumes "\<And>m. g_start b \<le> m \<Longrightarrow> m \<le> g_real_end b \<Longrightarrow> m - g_start b \<in> bits ys \<longleftrightarrow> m \<in> X"
    and "\<And>m. m \<in> X \<Longrightarrow> g_start b \<le> m \<and> m \<le> g_real_end b"
  shows "g_set (b\<lparr>g_bitmap := ys\<rparr>) = X"
  by (intro set_eqI) (use assms in \<open>auto simp: g_set_iff\<close>)

section \<open>Single bits are total\<close>

definition in_range32 :: "bitmap32 \<Rightarrow> nat \<Rightarrow> bool" where
  "in_range32 b n \<longleftrightarrow> g_start b \<le> n \<and> n \<le> g_end b"

lemma test_bitmap32_spec:
  assumes "g_inv b"
  shows "\<exists>r. ext2fs_test_generic_bitmap b n = Some r \<and> (r \<noteq> 0 \<longleftrightarrow> in_range32 b n \<and> n \<in> g_set b)"
proof (cases "in_range32 b n")
  case True
  then have n: "g_start b \<le> n" "n \<le> g_real_end b" using g_invD [OF assms] by (auto simp: in_range32_def)
  from g_rel [OF assms n] test_bit64_spec [of "n - g_start b" "g_bitmap b"] uint_mask_neq_0 [of "n - g_start b" "g_bitmap b"]
  show ?thesis using True n g_invD(1) [OF assms]
    by (simp add: ext2fs_test_generic_bitmap_def in_range32_def bit32_eq_bit64 g_set_iff)
next
  case False
  then show ?thesis using g_invD(1) [OF assms] by (auto simp: ext2fs_test_generic_bitmap_def in_range32_def)
qed

lemma mark_bitmap32_spec:
  assumes "g_inv b"
  shows "\<exists>r b'. ext2fs_mark_generic_bitmap b n = Some (r, b') \<and> g_inv b' \<and>
    g_set b' = (if in_range32 b n then insert n (g_set b) else g_set b) \<and>
    (r \<noteq> 0 \<longleftrightarrow> in_range32 b n \<and> n \<in> g_set b)"
proof (cases "in_range32 b n")
  case True
  then have n: "g_start b \<le> n" "n \<le> g_real_end b" using g_invD [OF assms] by (auto simp: in_range32_def)
  note rel = g_rel [OF assms n]
  from set_bit64_spec [OF rel(2)] obtain r ys where ys: "ext2fs_set_bit64 (n - g_start b) (g_bitmap b) = Some (r, ys)"
    "length ys = length (g_bitmap b)" "bits ys = insert (n - g_start b) (bits (g_bitmap b))"
    "r \<noteq> 0 \<longleftrightarrow> n - g_start b \<in> bits (g_bitmap b)" by (elim exE conjE)
  have "g_set (b\<lparr>g_bitmap := ys\<rparr>) = insert n (g_set b)"
    by (rule g_set_eqI) (use n in \<open>auto simp: ys(3) g_set_iff eq_diff_iff\<close>)
  then show ?thesis using True n g_invD(1) [OF assms] ys rel(1) g_inv_bitmap [OF assms ys(2)]
    by (simp add: ext2fs_mark_generic_bitmap_def in_range32_def bit32_eq_bit64 g_set_iff)
next
  case False
  then show ?thesis using g_invD(1) [OF assms] assms by (auto simp: ext2fs_mark_generic_bitmap_def in_range32_def)
qed

lemma unmark_bitmap32_spec:
  assumes "g_inv b"
  shows "\<exists>r b'. ext2fs_unmark_generic_bitmap b n = Some (r, b') \<and> g_inv b' \<and>
    g_set b' = (if in_range32 b n then g_set b - {n} else g_set b) \<and>
    (r \<noteq> 0 \<longleftrightarrow> in_range32 b n \<and> n \<in> g_set b)"
proof (cases "in_range32 b n")
  case True
  then have n: "g_start b \<le> n" "n \<le> g_real_end b" using g_invD [OF assms] by (auto simp: in_range32_def)
  note rel = g_rel [OF assms n]
  from clear_bit64_spec [OF rel(2)] obtain r ys where ys: "ext2fs_clear_bit64 (n - g_start b) (g_bitmap b) = Some (r, ys)"
    "length ys = length (g_bitmap b)" "bits ys = bits (g_bitmap b) - {n - g_start b}"
    "r \<noteq> 0 \<longleftrightarrow> n - g_start b \<in> bits (g_bitmap b)" by (elim exE conjE)
  have "g_set (b\<lparr>g_bitmap := ys\<rparr>) = g_set b - {n}"
    by (rule g_set_eqI) (use n in \<open>auto simp: ys(3) g_set_iff eq_diff_iff\<close>)
  then show ?thesis using True n g_invD(1) [OF assms] ys rel(1) g_inv_bitmap [OF assms ys(2)]
    by (simp add: ext2fs_unmark_generic_bitmap_def in_range32_def bit32_eq_bit64 g_set_iff)
next
  case False
  then show ?thesis using g_invD(1) [OF assms] assms by (auto simp: ext2fs_unmark_generic_bitmap_def in_range32_def)
qed

section \<open>Creation, copy, clear, padding\<close>

lemma make_bitmap32_spec:
  assumes "\<forall>n. mem n" "EXT2FS_IS_32_BITMAP magic" "start \<le> end" "end \<le> real_end" "real_end < W32"
  shows "\<exists>b. ext2fs_make_generic_bitmap mem magic start end real_end descr None = Some (Inr b) \<and> g_inv b \<and>
    g_set b = {} \<and> g_start b = start \<and> g_end b = end \<and> g_real_end b = real_end \<and> g_magic b = magic \<and>
    length (g_bitmap b) = bitmap32_alloc_size start real_end"
proof -
  have "bitmap32_bytes start real_end = (real_end - start) div 8 + 1"
    using assms by (simp add: bitmap32_bytes_def u64_simps)
  moreover have "n \<le> (n + 7) div 4 * 4" for n :: nat by presburger
  ultimately have "(real_end - start) div 8 + 1 \<le> bitmap32_alloc_size start real_end"
    unfolding bitmap32_alloc_size_def by metis
  then show ?thesis using assms by (simp add: ext2fs_make_generic_bitmap_def Let_def g_inv_def g_set_def)
qed

lemma copy_bitmap32_spec:
  assumes "\<forall>n. mem n" "g_inv b" "length (g_bitmap b) = bitmap32_alloc_size (g_start b) (g_real_end b)"
  shows "\<exists>b'. ext2fs_copy_generic_bitmap mem b = Some (Inr b') \<and> g_inv b' \<and> g_set b' = g_set b \<and>
    g_start b' = g_start b \<and> g_end b' = g_end b \<and> g_real_end b' = g_real_end b"
  using assms
  by (simp add: ext2fs_copy_generic_bitmap_def ext2fs_make_generic_bitmap_def Let_def mem_read_def g_inv_def g_set_def)

lemma clear_bitmap32_spec:
  assumes "g_inv b"
  shows "\<exists>b'. ext2fs_clear_generic_bitmap b = Some b' \<and> g_inv b' \<and> g_set b' = {}"
proof -
  note v = g_invD [OF assms]
  have n: "bitmap32_bytes (g_start b) (g_real_end b) = (g_real_end b - g_start b) div 8 + 1"
    using v by (simp add: bitmap32_bytes_def u64_simps)
  have le: "0 + ((g_real_end b - g_start b) div 8 + 1) \<le> length (g_bitmap b)" using v(5) by simp
  from mem_fill_bits [OF le, of 0] obtain arr where
    a: "mem_fill (g_bitmap b) 0 0 ((g_real_end b - g_start b) div 8 + 1) = Some arr" "length arr = length (g_bitmap b)"
    "\<forall>k. k \<in> bits arr \<longleftrightarrow> (if 8 * 0 \<le> k \<and> k < 8 * (0 + ((g_real_end b - g_start b) div 8 + 1))
       then bit (0 :: u8) (k mod 8) else k \<in> bits (g_bitmap b))" by (elim exE conjE)
  have "m - g_start b \<notin> bits arr" if "g_start b \<le> m" "m \<le> g_real_end b" for m
  proof -
    have "m - g_start b \<le> g_real_end b - g_start b" using that by simp
    then have "m - g_start b < 8 * ((g_real_end b - g_start b) div 8 + 1)" by (rule lt_8_bytes)
    then show ?thesis using a(3) by simp
  qed
  then have "g_set (b\<lparr>g_bitmap := arr\<rparr>) = {}" by (auto simp: g_set_def)
  with a v(1) g_inv_bitmap [OF assms a(2)] show ?thesis by (simp add: ext2fs_clear_generic_bitmap_def n)
qed

lemma padding_loop32_spec:
  assumes "end < i" "i \<le> real_end + 1" "real_end < W32" "start \<le> end" "real_end - start < 8 * length arr"
    "real_end < W32 - 1 \<or> i \<le> real_end"
  shows "\<exists>arr'. padding_loop32 end real_end i (i - start) arr = Some arr' \<and> length arr' = length arr \<and>
    bits arr' = bits arr \<union> {i - start..<real_end + 1 - start}"
  using assms
proof (induction "real_end + 1 - i" arbitrary: i arr)
  case 0
  then have "padding_loop32 end real_end i (i - start) arr = Some arr" by (simp add: padding_loop32.simps)
  then show ?case using 0 by simp
next
  case (Suc d)
  have i: "i \<le> real_end" "i - start < 8 * length arr" using Suc.hyps(2) Suc.prems by linarith+
  from set_bit64_spec [OF i(2)] obtain r ys where ys: "ext2fs_set_bit64 (i - start) arr = Some (r, ys)"
    "length ys = length arr" "bits ys = insert (i - start) (bits arr)" by (elim exE conjE)
  have iv: "{i - start..<real_end + 1 - start} = insert (i - start) {i + 1 - start..<real_end + 1 - start}"
    using i(1) Suc.prems by auto
  note eq = padding_loop32.simps [of "end" real_end i "i - start" arr]
  show ?case
  proof (cases "i = W32 - 1")
    case True
    then have "add32 i 1 = 0" "real_end = i" using i(1) Suc.prems(3) by (simp_all add: add32_def)
    then have "padding_loop32 end real_end i (i - start) arr = Some ys"
      using i Suc.prems(1) ys(1) padding_loop32.simps [of "end" real_end 0] unfolding eq by (simp add: bit32_eq_bit64)
    then show ?thesis using ys iv \<open>real_end = i\<close> by simp
  next
    case False
    then have "i + 1 < W32" using i(1) Suc.prems(3) by simp
    then have n: "add32 i 1 = i + 1" "add32 (i - start) 1 = i + 1 - start"
      using Suc.prems(1,4) by (simp_all add: add32_nowrap)
    have "\<exists>arr'. padding_loop32 end real_end (i + 1) (i + 1 - start) ys = Some arr' \<and> length arr' = length ys \<and>
      bits arr' = bits ys \<union> {i + 1 - start..<real_end + 1 - start}"
      using Suc.hyps(2) Suc.prems i ys(2) False by (intro Suc.hyps(1)) auto
    then show ?thesis using i Suc.prems(1) ys iv n unfolding eq by (simp add: bit32_eq_bit64)
  qed
qed

lemma padding_bitmap32_spec:
  assumes "g_inv b"
  shows "\<exists>b'. ext2fs_set_generic_bitmap_padding b = Some b' \<and> g_inv b' \<and>
    g_set b' = g_set b \<union> {g_end b<..g_real_end b}"
proof (cases "g_end b = W32 - 1")
  case True
  note v = g_invD [OF assms]
  have "add32 (g_end b) 1 = 0" using True by (simp add: add32_def)
  then have "ext2fs_set_generic_bitmap_padding b = Some b"
    by (simp add: ext2fs_set_generic_bitmap_padding_def padding_loop32.simps [of _ _ 0])
  moreover have "{g_end b<..g_real_end b} = {}" using True v by auto
  ultimately show ?thesis using assms by auto
next
  case False
  note v = g_invD [OF assms]
  have i: "add32 (g_end b) 1 = g_end b + 1" "sub32 (g_end b + 1) (g_start b) = g_end b + 1 - g_start b"
    using False v by (simp_all add: u64_simps)
  have "g_real_end b - g_start b < 8 * length (g_bitmap b)" using g_rel(2) [OF assms, of "g_real_end b"] v by simp
  with padding_loop32_spec [of "g_end b" "g_end b + 1" "g_real_end b" "g_start b" "g_bitmap b"] v False
  obtain arr where a: "padding_loop32 (g_end b) (g_real_end b) (g_end b + 1) (g_end b + 1 - g_start b) (g_bitmap b) = Some arr"
    "length arr = length (g_bitmap b)"
    "bits arr = bits (g_bitmap b) \<union> {g_end b + 1 - g_start b..<g_real_end b + 1 - g_start b}" by force
  have "g_set (b\<lparr>g_bitmap := arr\<rparr>) = g_set b \<union> {g_end b<..g_real_end b}"
    by (rule g_set_eqI) (use v in \<open>auto simp: a(3) g_set_iff\<close>)
  with a(1) i g_inv_bitmap [OF assms a(2)] show ?thesis by (simp add: ext2fs_set_generic_bitmap_padding_def)
qed

section \<open>Searching and testing ranges\<close>

lemma find_loop32_spec:
  assumes "g_inv b" "g_start b \<le> s" "e \<le> g_real_end b" "e < W32 - 1"
  shows "\<exists>r. find_loop32 w b s e = Some r \<and> first_in (\<lambda>k. (k \<in> g_set b) = w) s e r"
  using assms(2)
proof (induction "e + 1 - s" arbitrary: s)
  case 0
  then have "find_loop32 w b s e = Some (Inl ENOENT)" by (simp add: find_loop32.simps)
  moreover have "\<not> (s \<le> k \<and> k \<le> e)" for k using 0 by auto
  ultimately show ?case by (auto simp: first_in_Inl)
next
  case (Suc d)
  have s: "s \<le> e" "s \<le> g_real_end b" using Suc.hyps(2) assms(3) by simp_all
  note rel = g_rel [OF assms(1) Suc.prems s(2)]
  have t: "\<exists>t. ext2fs_test_bit (s - g_start b) (g_bitmap b) = Some t \<and> (t \<noteq> 0 \<longleftrightarrow> s \<in> g_set b)"
    using test_bit64_spec [OF rel(2)] uint_mask_neq_0 [OF rel(2)] Suc.prems s(2)
    by (simp add: bit32_eq_bit64 g_set_iff)
  then obtain t where t: "ext2fs_test_bit (s - g_start b) (g_bitmap b) = Some t" "t \<noteq> 0 \<longleftrightarrow> s \<in> g_set b" by blast
  have n: "add32 s 1 = s + 1" using s(1) assms(4) by (simp add: add32_nowrap)
  have eq: "find_loop32 w b s e = (if (s \<in> g_set b) = w then Some (Inr s) else find_loop32 w b (s + 1) e)"
    using s(1) t rel(1) n by (subst find_loop32.simps) simp
  show ?case
  proof (cases "(s \<in> g_set b) = w")
    case True
    then show ?thesis using eq s(1) by (auto simp: first_in_Inr)
  next
    case False
    have "\<exists>r. find_loop32 w b (s + 1) e = Some r \<and> first_in (\<lambda>k. (k \<in> g_set b) = w) (s + 1) e r"
      using Suc.hyps(2) Suc.prems by (intro Suc.hyps(1)) simp_all
    then obtain r where r: "find_loop32 w b (s + 1) e = Some r" "first_in (\<lambda>k. (k \<in> g_set b) = w) (s + 1) e r" by blast
    have "first_in (\<lambda>k. (k \<in> g_set b) = w) s e r" by (rule first_in_Suc [OF _ r(2)]) (use False in simp)
    with r(1) eq False show ?thesis by simp
  qed
qed

definition as_ba :: "bitmap32 \<Rightarrow> ba_bmap" where
  "as_ba b = \<lparr>bm_magic = g_magic b, bm_start = g_start b, bm_end = g_end b, bm_real_end = g_real_end b,
     bm_cluster_bits = 0, bm_description = g_description b, bm_base_error_code = g_base_error_code b,
     bm_private = g_bitmap b\<rparr>"

lemma test_clear32_spec:
  assumes "g_inv b" "g_start b \<le> n" "0 < num" "n + num - 1 \<le> g_real_end b"
  shows "\<exists>r. ext2fs_test_clear_generic_bitmap_range b n num = Some r \<and> (r \<noteq> 0 \<longleftrightarrow> g_set b \<inter> {n..<n + num} = {})"
proof -
  note v = g_invD [OF assms(1)]
  let ?s = "n - g_start b"
  have s: "sub32 n (g_start b) = ?s" "sub64 n (g_start b) = ?s"
    using assms v by (auto intro!: sub32_nowrap sub64_nowrap)
  have last: "?s + num - 1 < 8 * length (g_bitmap b)"
    using g_rel(2) [OF assms(1), of "n + num - 1"] assms by (simp add: add.commute)
  have "ext2fs_test_clear_generic_bitmap_range b n num = ba_test_clear_bmap_extent (as_ba b) n num"
    by (simp add: ext2fs_test_clear_generic_bitmap_range_def ba_test_clear_bmap_extent_def as_ba_def s)
  moreover have "sub64 n (bm_start (as_ba b)) = ?s" "?s + num \<le> 8 * length (bm_private (as_ba b))"
    using s last assms(3) by (simp_all add: as_ba_def)
  note ba_test_clear_rel [OF this assms(3)]
  moreover have "bit_run (g_bitmap b) False ?s (?s + num) \<longleftrightarrow> g_set b \<inter> {n..<n + num} = {}"
  proof -
    have "m \<notin> g_set b" if run: "bit_run (g_bitmap b) False ?s (?s + num)" and m: "m \<in> {n..<n + num}" for m
    proof -
      have "?s \<le> m - g_start b" "m - g_start b < ?s + num" using m assms(2) by auto
      with run have "m - g_start b \<notin> bits (g_bitmap b)" by (simp add: bit_run_def)
      then show ?thesis by (simp add: g_set_iff)
    qed
    moreover have "k \<notin> bits (g_bitmap b)" if free: "g_set b \<inter> {n..<n + num} = {}" and k: "?s \<le> k" "k < ?s + num" for k
    proof -
      have "k + g_start b \<in> {n..<n + num}" "k + g_start b \<le> g_real_end b" using k assms(2,4) by auto
      with free have "k + g_start b \<notin> g_set b" by blast
      with \<open>k + g_start b \<le> g_real_end b\<close> show ?thesis by (simp add: g_set_iff)
    qed
    ultimately show ?thesis unfolding bit_run_def by blast
  qed
  ultimately show ?thesis by (simp add: as_ba_def)
qed

section \<open>Comparing\<close>

lemma test_bitmap32_eq:
  assumes "g_inv b1" "g_inv b2" "g_start b1 = g_start b2" "g_end b1 = g_end b2"
  shows "\<exists>a c. ext2fs_test_generic_bitmap b1 n = Some a \<and> ext2fs_test_generic_bitmap b2 n = Some c \<and>
    (a = c \<longleftrightarrow> (in_range32 b1 n \<longrightarrow> (n \<in> g_set b1 \<longleftrightarrow> n \<in> g_set b2)))"
proof (cases "in_range32 b1 n")
  case True
  let ?k = "n - g_start b1"
  have n: "g_start b1 \<le> n" "n \<le> g_real_end b1" "n \<le> g_real_end b2"
    using True assms g_invD [OF assms(1)] g_invD [OF assms(2)] by (auto simp: in_range32_def)
  note r1 = g_rel [OF assms(1) n(1,2)] and r2 = g_rel [OF assms(2) n(1) [unfolded assms(3)] n(3), folded assms(3)]
  have t: "ext2fs_test_generic_bitmap b n = Some (uint (bit_mask ?k AND g_bitmap b ! (?k div 8)))"
    if "g_inv b" "g_start b = g_start b1" "in_range32 b n" "sub32 n (g_start b1) = ?k" "?k < 8 * length (g_bitmap b)" for b
    using that g_invD(1) [OF that(1)]
    by (simp add: ext2fs_test_generic_bitmap_def in_range32_def bit32_eq_bit64 test_bit64_spec)
  have mask: "bit_mask ?k AND c = (if bit c (?k mod 8) then bit_mask ?k else 0)" for c :: u8
    by (rule bit_word_eqI) (auto simp: bit_and_iff bit_bit_mask)
  have nz: "uint (bit_mask ?k) \<noteq> 0"
    unfolding uint_0_iff by (metis bit_bit_mask bit_0_eq bot_apply bot_bool_def)
  have in2: "in_range32 b2 n" using True assms(3,4) by (simp add: in_range32_def)
  have "n \<in> g_set b1 \<longleftrightarrow> bit (g_bitmap b1 ! (?k div 8)) (?k mod 8)"
    "n \<in> g_set b2 \<longleftrightarrow> bit (g_bitmap b2 ! (?k div 8)) (?k mod 8)"
    using n r1 r2 assms(3) by (simp_all add: g_set_iff bits_iff)
  then show ?thesis
    using t [OF assms(1) refl True r1] t [OF assms(2) assms(3) [symmetric] in2 r2] True nz
    by (simp add: mask)
next
  case False
  then show ?thesis
    using g_invD(1) [OF assms(1)] g_invD(1) [OF assms(2)] assms(3,4)
    by (auto simp: ext2fs_test_generic_bitmap_def in_range32_def)
qed

lemma compare_tail32_spec:
  assumes "g_inv b1" "g_inv b2" "g_start b1 = g_start b2" "g_end b1 = g_end b2" "g_end b1 < W32 - 1" "neq \<noteq> 0"
    and "g_start b1 \<le> i"
  shows "\<exists>r. compare_tail32 neq b1 b2 i = Some r \<and>
    (r = 0 \<longleftrightarrow> (\<forall>n. i \<le> n \<and> n \<le> g_end b1 \<longrightarrow> (n \<in> g_set b1 \<longleftrightarrow> n \<in> g_set b2)))"
  using assms(7)
proof (induction "g_end b1 + 1 - i" arbitrary: i)
  case 0
  then have "compare_tail32 neq b1 b2 i = Some 0" by (simp add: compare_tail32.simps)
  moreover have "\<not> (i \<le> n \<and> n \<le> g_end b1)" for n using 0 by auto
  ultimately show ?case by auto
next
  case (Suc d)
  have i: "i \<le> g_end b1" "in_range32 b1 i" using Suc by (auto simp: in_range32_def)
  obtain a c where ac: "ext2fs_test_generic_bitmap b1 i = Some a" "ext2fs_test_generic_bitmap b2 i = Some c"
    "a = c \<longleftrightarrow> (i \<in> g_set b1 \<longleftrightarrow> i \<in> g_set b2)"
    using test_bitmap32_eq [OF assms(1-4), of i] i(2) by blast
  have n: "add32 i 1 = i + 1" using i(1) assms(5) by (simp add: add32_nowrap)
  have eq: "compare_tail32 neq b1 b2 i = (if a \<noteq> c then Some neq else compare_tail32 neq b1 b2 (i + 1))"
    using i(1) ac(1,2) n by (subst compare_tail32.simps) simp
  have "\<exists>r. compare_tail32 neq b1 b2 (i + 1) = Some r \<and>
    (r = 0 \<longleftrightarrow> (\<forall>n. i + 1 \<le> n \<and> n \<le> g_end b1 \<longrightarrow> (n \<in> g_set b1 \<longleftrightarrow> n \<in> g_set b2)))"
    using Suc.hyps(2) Suc.prems by (intro Suc.hyps(1)) simp_all
  moreover have "(\<forall>n. i \<le> n \<and> n \<le> g_end b1 \<longrightarrow> P n) \<longleftrightarrow> P i \<and> (\<forall>n. i + 1 \<le> n \<and> n \<le> g_end b1 \<longrightarrow> P n)" for P
    using i(1) by (metis Suc_eq_plus1 Suc_leI le_less less_imp_le_nat order_less_le_trans lessI)
  ultimately show ?case using ac(3) assms(6) by (cases "a = c") (auto simp: eq)
qed

lemma compare_bitmap32_spec:
  assumes "g_inv b1" "g_inv b2" "g_end b1 < W32 - 1" "neq \<noteq> 0" "g_magic b1 = magic" "g_magic b2 = magic"
  shows "\<exists>r. ext2fs_compare_generic_bitmap magic neq (Some b1) (Some b2) = Some r \<and>
    (r = 0 \<longleftrightarrow> g_start b1 = g_start b2 \<and> g_end b1 = g_end b2 \<and>
      g_set b1 \<inter> {g_start b1..g_end b1} = g_set b2 \<inter> {g_start b1..g_end b1})"
proof (cases "g_start b1 = g_start b2 \<and> g_end b1 = g_end b2")
  case False
  then show ?thesis using assms(4-6) by (auto simp: ext2fs_compare_generic_bitmap_def)
next
  case True
  note v1 = g_invD [OF assms(1)] and v2 = g_invD [OF assms(2)]
  define d where "d = g_end b1 - g_start b1"
  define n where "n = d div 8"
  have sub: "sub32 (g_end b1) (g_start b1) = d" "sub32 (g_end b1) (d mod 8) = g_start b1 + 8 * n"
  proof -
    have e: "g_end b1 = g_start b1 + d" using v1 by (simp add: d_def)
    show "sub32 (g_end b1) (g_start b1) = d" using v1 by (simp add: d_def u64_simps)
    have "d mod 8 \<le> d" by simp
    then have "sub32 (g_end b1) (d mod 8) = g_end b1 - d mod 8" using e v1 by (intro sub32_nowrap) linarith+
    also have "\<dots> = g_start b1 + 8 * n" unfolding e n_def using mult_div_mod_eq [of 8 d] by linarith
    finally show "sub32 (g_end b1) (d mod 8) = g_start b1 + 8 * n" .
  qed
  have len: "n \<le> length (g_bitmap b1)" "n \<le> length (g_bitmap b2)"
  proof -
    have "d div 8 \<le> (g_real_end b1 - g_start b1) div 8" "d div 8 \<le> (g_real_end b2 - g_start b2) div 8"
      using v1 v2 True by (auto simp: d_def intro!: div_le_mono)
    then show "n \<le> length (g_bitmap b1)" "n \<le> length (g_bitmap b2)" using v1(5) v2(5) by (simp_all add: n_def)
  qed
  have le: "g_start b1 + 8 * n \<le> g_end b1" using v1 by (simp add: n_def d_def)
  have head: "take n (g_bitmap b1) = take n (g_bitmap b2) \<longleftrightarrow>
    (\<forall>m. g_start b1 \<le> m \<and> m < g_start b1 + 8 * n \<longrightarrow> (m \<in> g_set b1 \<longleftrightarrow> m \<in> g_set b2))"
    unfolding take_eq_iff_bits [OF len]
  proof (rule iffI; intro allI impI)
    fix m assume "\<forall>k < 8 * n. k \<in> bits (g_bitmap b1) \<longleftrightarrow> k \<in> bits (g_bitmap b2)" "g_start b1 \<le> m \<and> m < g_start b1 + 8 * n"
    then show "m \<in> g_set b1 \<longleftrightarrow> m \<in> g_set b2" using True le v1 v2 by (auto simp: g_set_iff)
  next
    fix k assume a: "\<forall>m. g_start b1 \<le> m \<and> m < g_start b1 + 8 * n \<longrightarrow> (m \<in> g_set b1 \<longleftrightarrow> m \<in> g_set b2)" "k < 8 * n"
    then have "g_start b1 + k \<in> g_set b1 \<longleftrightarrow> g_start b1 + k \<in> g_set b2" by simp
    then show "k \<in> bits (g_bitmap b1) \<longleftrightarrow> k \<in> bits (g_bitmap b2)" using True le v1 v2 a(2) by (auto simp: g_set_iff)
  qed
  obtain r where r: "compare_tail32 neq b1 b2 (g_start b1 + 8 * n) = Some r"
    "r = 0 \<longleftrightarrow> (\<forall>m. g_start b1 + 8 * n \<le> m \<and> m \<le> g_end b1 \<longrightarrow> (m \<in> g_set b1 \<longleftrightarrow> m \<in> g_set b2))"
    using compare_tail32_spec [OF assms(1,2) _ _ assms(3,4), of "g_start b1 + 8 * n"] True by auto
  have eq: "ext2fs_compare_generic_bitmap magic neq (Some b1) (Some b2) =
    (if take n (g_bitmap b1) \<noteq> take n (g_bitmap b2) then Some neq else Some r)"
    unfolding ext2fs_compare_generic_bitmap_def prod.case option.case sub Let_def n_def [symmetric]
    using True assms(5,6) r(1) len by (simp add: mem_read_def)
  have all: "g_set b1 \<inter> {g_start b1..g_end b1} = g_set b2 \<inter> {g_start b1..g_end b1} \<longleftrightarrow>
    (\<forall>m. g_start b1 \<le> m \<and> m \<le> g_end b1 \<longrightarrow> (m \<in> g_set b1 \<longleftrightarrow> m \<in> g_set b2))"
    unfolding set_eq_iff Int_iff atLeastAtMost_iff by blast
  have split: "(\<forall>m. g_start b1 \<le> m \<and> m \<le> g_end b1 \<longrightarrow> P m) \<longleftrightarrow>
    (\<forall>m. g_start b1 \<le> m \<and> m < g_start b1 + 8 * n \<longrightarrow> P m) \<and>
    (\<forall>m. g_start b1 + 8 * n \<le> m \<and> m \<le> g_end b1 \<longrightarrow> P m)" for P
    using le by (meson le_add1 le_less_trans less_imp_le_nat not_le order_trans)
  show ?thesis
  proof (cases "take n (g_bitmap b1) = take n (g_bitmap b2)")
    case eqt: True
    then show ?thesis using eq r(2) head True unfolding all split by simp
  next
    case net: False
    then show ?thesis using eq assms(4) head True unfolding all split by simp
  qed
qed

section \<open>Marking ranges\<close>

lemma bit_loop32_mark:
  assumes "\<forall>i \<in> set is. block + i < W32 \<and> block + i - start < 8 * length arr" "start \<le> block"
  shows "\<exists>arr'. bit_loop32 (\<lambda>c nr. c OR bit_mask nr) start block is arr = Some arr' \<and> length arr' = length arr \<and>
    bits arr' = bits arr \<union> (\<lambda>i. block + i - start) ` set is"
  using assms(1)
proof (induction "is" arbitrary: arr)
  case Nil
  then show ?case by simp
next
  case (Cons i "is")
  let ?n = "block + i - start"
  have n: "sub32 (add32 block i) start = ?n" "?n < 8 * length arr" using Cons.prems assms(2) by (auto simp: u64_simps)
  let ?a = "arr[?n div 8 := arr ! (?n div 8) OR bit_mask ?n]"
  have "\<exists>arr'. bit_loop32 (\<lambda>c nr. c OR bit_mask nr) start block is ?a = Some arr' \<and> length arr' = length ?a \<and>
    bits arr' = bits ?a \<union> (\<lambda>i. block + i - start) ` set is" using Cons.prems by (intro Cons.IH) simp
  then show ?case using n bits_set [OF n(2)] by (auto simp: rd_Some wr_Some div8_lt)
qed

lemma bit_loop32_unmark:
  assumes "\<forall>i \<in> set is. block + i < W32 \<and> block + i - start < 8 * length arr" "start \<le> block"
  shows "\<exists>arr'. bit_loop32 (\<lambda>c nr. c AND NOT (bit_mask nr)) start block is arr = Some arr' \<and>
    length arr' = length arr \<and> bits arr' = bits arr - (\<lambda>i. block + i - start) ` set is"
  using assms(1)
proof (induction "is" arbitrary: arr)
  case Nil
  then show ?case by simp
next
  case (Cons i "is")
  let ?n = "block + i - start"
  have n: "sub32 (add32 block i) start = ?n" "?n < 8 * length arr" using Cons.prems assms(2) by (auto simp: u64_simps)
  let ?a = "arr[?n div 8 := arr ! (?n div 8) AND NOT (bit_mask ?n)]"
  have "\<exists>arr'. bit_loop32 (\<lambda>c nr. c AND NOT (bit_mask nr)) start block is ?a = Some arr' \<and> length arr' = length ?a \<and>
    bits arr' = bits ?a - (\<lambda>i. block + i - start) ` set is" using Cons.prems by (intro Cons.IH) simp
  then show ?case using n bits_clear [OF n(2)] by (auto simp: rd_Some wr_Some div8_lt)
qed

lemma range32_rel:
  assumes "g_inv b" "g_start b \<le> block" "0 < num" "block + nat num - 1 \<le> g_end b"
  shows "range_last32 block num = block + nat num - 1"
    "\<forall>i \<in> set [0..<nat num]. block + i < W32 \<and> block + i - g_start b < 8 * length (g_bitmap b)"
    "m \<in> {block..<block + nat num} \<longleftrightarrow> g_start b \<le> m \<and> m - g_start b \<in> (\<lambda>i. block + i - g_start b) ` set [0..<nat num]"
proof -
  note v = g_invD [OF assms(1)]
  have "int (nat num) = num" "1 \<le> block + nat num" using assms(3) by simp_all
  then have "int block + num - 1 = int (block + nat num - 1)" by (simp only: of_nat_diff of_nat_add of_nat_1)
  moreover have "block + nat num - 1 < W32" using assms(4) v by linarith
  ultimately show "range_last32 block num = block + nat num - 1"
    unfolding range_last32_def by (simp only: zmod_int [symmetric] nat_int mod_less)
  show "\<forall>i \<in> set [0..<nat num]. block + i < W32 \<and> block + i - g_start b < 8 * length (g_bitmap b)"
  proof
    fix i assume "i \<in> set [0..<nat num]"
    then have i: "block + i \<le> g_real_end b" "g_start b \<le> block + i" using assms v by auto
    then show "block + i < W32 \<and> block + i - g_start b < 8 * length (g_bitmap b)"
      using g_rel(2) [OF assms(1) i(2,1)] v(4) by linarith
  qed
  show "m \<in> {block..<block + nat num} \<longleftrightarrow> g_start b \<le> m \<and> m - g_start b \<in> (\<lambda>i. block + i - g_start b) ` set [0..<nat num]"
  proof -
    have "(\<lambda>i. block + i - g_start b) ` {0..<nat num} = (\<lambda>i. i + (block - g_start b)) ` {0..<nat num}"
      using assms(2) by (intro image_cong) simp_all
    also have "\<dots> = {block - g_start b..<nat num + (block - g_start b)}" by simp
    finally have img: "(\<lambda>i. block + i - g_start b) ` set [0..<nat num] = {block - g_start b..<nat num + (block - g_start b)}"
      by simp
    show ?thesis unfolding img using assms(2) by auto
  qed
qed

lemma mark_range32_spec:
  assumes "g_inv b" "g_start b \<le> block" "0 < num" "block + nat num - 1 \<le> g_end b"
  shows "\<exists>b'. ext2fs_mark_block_bitmap_range b block num = Some b' \<and> g_inv b' \<and>
    g_set b' = g_set b \<union> {block..<block + nat num}"
proof -
  note rr = range32_rel [OF assms] and v = g_invD [OF assms(1)]
  from bit_loop32_mark [OF rr(2) assms(2)] obtain arr where a:
    "bit_loop32 (\<lambda>c nr. c OR bit_mask nr) (g_start b) block [0..<nat num] (g_bitmap b) = Some arr"
    "length arr = length (g_bitmap b)" "bits arr = bits (g_bitmap b) \<union> (\<lambda>i. block + i - g_start b) ` set [0..<nat num]"
    by (elim exE conjE)
  have "g_set (b\<lparr>g_bitmap := arr\<rparr>) = g_set b \<union> {block..<block + nat num}"
  proof (rule g_set_eqI)
    fix m assume m: "g_start b \<le> m" "m \<le> g_real_end b"
    then show "m - g_start b \<in> bits arr \<longleftrightarrow> m \<in> g_set b \<union> {block..<block + nat num}"
      unfolding a(3) Un_iff rr(3) g_set_iff by blast
  qed (use assms v in \<open>auto simp: g_set_iff\<close>)
  then show ?thesis using a g_inv_bitmap [OF assms(1) a(2)] rr(1) assms(2,4)
    by (simp add: ext2fs_mark_block_bitmap_range_def)
qed

lemma unmark_range32_spec:
  assumes "g_inv b" "g_start b \<le> block" "0 < num" "block + nat num - 1 \<le> g_end b"
  shows "\<exists>b'. ext2fs_unmark_block_bitmap_range b block num = Some b' \<and> g_inv b' \<and>
    g_set b' = g_set b - {block..<block + nat num}"
proof -
  note rr = range32_rel [OF assms] and v = g_invD [OF assms(1)]
  from bit_loop32_unmark [OF rr(2) assms(2)] obtain arr where a:
    "bit_loop32 (\<lambda>c nr. c AND NOT (bit_mask nr)) (g_start b) block [0..<nat num] (g_bitmap b) = Some arr"
    "length arr = length (g_bitmap b)" "bits arr = bits (g_bitmap b) - (\<lambda>i. block + i - g_start b) ` set [0..<nat num]"
    by (elim exE conjE)
  have "g_set (b\<lparr>g_bitmap := arr\<rparr>) = g_set b - {block..<block + nat num}"
  proof (rule g_set_eqI)
    fix m assume m: "g_start b \<le> m" "m \<le> g_real_end b"
    then show "m - g_start b \<in> bits arr \<longleftrightarrow> m \<in> g_set b - {block..<block + nat num}"
      unfolding a(3) Diff_iff rr(3) g_set_iff by blast
  qed (use assms v in \<open>auto simp: g_set_iff\<close>)
  then show ?thesis using a g_inv_bitmap [OF assms(1) a(2)] rr(1) assms(2,4)
    by (simp add: ext2fs_unmark_block_bitmap_range_def)
qed

end
