(* ===== verification/Bitmap_Rb.thy ===== *)
theory Bitmap_Rb
  imports Bmap64
begin

text \<open>
  The extent-tree back end, \<^verbatim>\<open>lib/ext2fs/blkmap64_rb.c\<close>: a set of runs of marked bits in
  a red-black tree, with a write cursor and a read cursor.

  The tree of \<^verbatim>\<open>rbtree.c\<close> is its in-order sequence of extents; \<^verbatim>\<open>ext2fs_rb_first\<close>,
  \<^verbatim>\<open>_last\<close>, \<^verbatim>\<open>_next\<close> and \<^verbatim>\<open>_prev\<close> are its neighbours, linking and erasing keep
  the order. A descent from the root ends at the node that matches, or below one of the two neighbours of
  the gap; which of the two depends on the shape of the tree, so \<open>shape\<close> is a parameter of every
  operation that uses it. An extent has an address, since the cursors are pointers: following a cursor to
  an extent that is no longer in the tree is \<open>None\<close>. Running out of memory for an extent aborts the
  process and is not modelled.
\<close>

section \<open>Data\<close>

record bmap_rb_extent =
  x_addr :: nat
  x_start :: u64
  x_count :: u64

record rb_private =
  root :: "bmap_rb_extent list"
  wcursor :: "nat option"
  rcursor :: "nat option"
  rcursor_next :: "nat option"
  next_addr :: nat

type_synonym rb_bmap = "rb_private bmap"
type_synonym shape = "bmap_rb_extent list \<Rightarrow> nat \<Rightarrow> bool"

abbreviation x_end :: "bmap_rb_extent \<Rightarrow> u64" where
  "x_end e \<equiv> add64 (x_start e) (x_count e)"

section \<open>Tree walks\<close>

definition rb_deref :: "bmap_rb_extent list \<Rightarrow> nat \<Rightarrow> bmap_rb_extent option" where
  "rb_deref xs a = List.find (\<lambda>e. x_addr e = a) xs"

fun rb_next :: "bmap_rb_extent list \<Rightarrow> nat \<Rightarrow> nat option" where
  "rb_next (x # y # xs) a = (if x_addr x = a then Some (x_addr y) else rb_next (y # xs) a)"
| "rb_next xs a = None"

text \<open>A descent: the number of extents left of the end point, and whether it matched one there.\<close>

definition rb_descend :: "(bmap_rb_extent \<Rightarrow> bool) \<Rightarrow> (bmap_rb_extent \<Rightarrow> bool) \<Rightarrow> bmap_rb_extent list \<Rightarrow> nat \<times> bool"
  where
  "rb_descend left right xs =
     (let i = length (takeWhile right xs) in (i, i < length xs \<and> \<not> left (xs ! i)))"

definition rb_parent :: "shape \<Rightarrow> bmap_rb_extent list \<Rightarrow> nat \<Rightarrow> nat" where
  "rb_parent shape xs i =
     (if i = 0 then 0 else if i = length xs then i - 1 else if shape xs i then i - 1 else i)"

text \<open>\<^verbatim>\<open>rb_free_extent\<close>: cursors to a freed extent are reset.\<close>

definition rb_free_extent :: "nat \<Rightarrow> rb_private \<Rightarrow> rb_private" where
  "rb_free_extent a bp =
     (let drop_cur = (\<lambda>c. if c = Some a then None else c) in
      bp\<lparr>wcursor := drop_cur (wcursor bp), rcursor := drop_cur (rcursor bp),
         rcursor_next := drop_cur (rcursor_next bp)\<rparr>)"

definition rb_free_all :: "bmap_rb_extent list \<Rightarrow> rb_private \<Rightarrow> rb_private" where
  "rb_free_all es bp = fold (\<lambda>e. rb_free_extent (x_addr e)) es bp"

section \<open>Allocation, copy, truncation\<close>

definition rb_empty_private :: rb_private where
  "rb_empty_private = \<lparr>root = [], wcursor = None, rcursor = None, rcursor_next = None, next_addr = 0\<rparr>"

definition rb_alloc_private_data :: "allocator \<Rightarrow> rb_bmap \<Rightarrow> errcode \<times> rb_bmap" where
  "rb_alloc_private_data mem b =
     (if mem 32 then (0, b\<lparr>bm_private := rb_empty_private\<rparr>) else (EXT2_ET_NO_MEMORY, b))"

definition rb_new_bmap :: "allocator \<Rightarrow> rb_bmap \<Rightarrow> (errcode \<times> rb_bmap) option" where
  "rb_new_bmap mem b = Some (rb_alloc_private_data mem b)"

text \<open>The copy appends each extent at the right end; the fresh extents are numbered in order. When an
  allocation fails the loop stops with the extents copied so far.\<close>

fun rb_copy_extents :: "allocator \<Rightarrow> bmap_rb_extent list \<Rightarrow> rb_private \<Rightarrow> errcode \<times> rb_private" where
  "rb_copy_extents mem [] dst = (0, dst)"
| "rb_copy_extents mem (e # es) dst =
     (if mem 40
      then rb_copy_extents mem es (dst\<lparr>root := root dst @ [e\<lparr>x_addr := next_addr dst\<rparr>],
                                      next_addr := Suc (next_addr dst)\<rparr>)
      else (EXT2_ET_NO_MEMORY, dst))"

definition rb_copy_bmap :: "allocator \<Rightarrow> rb_bmap \<Rightarrow> rb_bmap \<Rightarrow> (errcode \<times> rb_bmap \<times> rb_bmap) option" where
  "rb_copy_bmap mem src dest =
     (case rb_alloc_private_data mem dest of (retval, dest') \<Rightarrow>
        if retval \<noteq> 0 then Some (retval, src, dest')
        else case rb_copy_extents mem (root (bm_private src)) ((bm_private dest')\<lparr>rcursor := None\<rparr>) of
          (r, p) \<Rightarrow> Some (r, src\<lparr>bm_private := (bm_private src)\<lparr>rcursor := None\<rparr>\<rparr>, dest'\<lparr>bm_private := p\<rparr>))"

text \<open>\<^verbatim>\<open>rb_truncate\<close> works from the last extent, so on the reversed sequence.\<close>

fun rb_truncate_rev :: "u64 \<Rightarrow> bmap_rb_extent list \<Rightarrow> bmap_rb_extent list" where
  "rb_truncate_rev new_max [] = []"
| "rb_truncate_rev new_max (e # es) =
     (if sub64 (x_end e) 1 \<le> new_max then e # es
      else if x_start e > new_max then rb_truncate_rev new_max es
      else e\<lparr>x_count := add64 (sub64 new_max (x_start e)) 1\<rparr> # es)"

definition rb_truncate :: "u64 \<Rightarrow> bmap_rb_extent list \<Rightarrow> bmap_rb_extent list" where
  "rb_truncate new_max xs = rev (rb_truncate_rev new_max (rev xs))"

section \<open>Testing a bit\<close>

definition rb_in :: "u64 \<Rightarrow> bmap_rb_extent \<Rightarrow> bool" where
  "rb_in bt e \<longleftrightarrow> bt \<ge> x_start e \<and> bt < x_end e"

definition rb_search_tree :: "rb_private \<Rightarrow> u64 \<Rightarrow> int \<times> rb_private" where
  "rb_search_tree bp bt =
     (case rb_descend (\<lambda>e. bt < x_start e) (\<lambda>e. bt \<ge> x_end e) (root bp) of
        (i, True) \<Rightarrow> (1, bp\<lparr>rcursor := Some (x_addr (root bp ! i)), rcursor_next := None\<rparr>)
      | (i, False) \<Rightarrow> (0, bp))"

definition rb_test_wcursor :: "rb_private \<Rightarrow> u64 \<Rightarrow> (int \<times> rb_private) option" where
  "rb_test_wcursor bp bt =
     (case wcursor bp of
        None \<Rightarrow> Some (rb_search_tree bp bt)
      | Some w \<Rightarrow> do { we \<leftarrow> rb_deref (root bp) w;
                       if rb_in bt we then Some (1, bp) else Some (rb_search_tree bp bt) })"

definition rb_test_bit :: "rb_private \<Rightarrow> u64 \<Rightarrow> (int \<times> rb_private) option" where
  "rb_test_bit bp bt =
     (case rcursor bp of
        None \<Rightarrow> Some (rb_search_tree bp bt)
      | Some rc \<Rightarrow> do {
          re \<leftarrow> rb_deref (root bp) rc;
          if rb_in bt re then Some (1, bp)
          else do {
            let nx = (case rcursor_next bp of None \<Rightarrow> rb_next (root bp) rc | Some a \<Rightarrow> Some a);
            let bp1 = bp\<lparr>rcursor_next := nx\<rparr>;
            hit \<leftarrow> (case nx of
                      None \<Rightarrow> Some False
                    | Some a \<Rightarrow> do { ne \<leftarrow> rb_deref (root bp1) a;
                                     Some (bt \<ge> x_end re \<and> bt < x_start ne) });
            if hit then Some (0, bp1)
            else rb_test_wcursor (bp1\<lparr>rcursor := None, rcursor_next := None\<rparr>) bt } })"

section \<open>Inserting an extent\<close>

text \<open>The loop after \<^verbatim>\<open>skip_insert\<close>: the grown count, the extents that stay, the extents
  freed.\<close>

fun rb_merge_right :: "u64 \<Rightarrow> u64 \<Rightarrow> bmap_rb_extent list \<Rightarrow> u64 \<times> bmap_rb_extent list \<times> bmap_rb_extent list" where
  "rb_merge_right start count [] = (count, [], [])"
| "rb_merge_right start count (e # es) =
     (if x_end e \<le> start then
        (case rb_merge_right start count es of (c, keep, freed) \<Rightarrow> (c, e # keep, freed))
      else if add64 start count < x_start e then (count, e # es, [])
      else if add64 start count \<ge> x_end e then
        (case rb_merge_right start count es of (c, keep, freed) \<Rightarrow> (c, keep, e # freed))
      else (add64 count (sub64 (x_end e) (add64 start count)), es, [e]))"

definition rb_skip_insert ::
  "bmap_rb_extent list \<Rightarrow> bmap_rb_extent \<Rightarrow> bmap_rb_extent list \<Rightarrow> u64 \<Rightarrow> u64 \<Rightarrow> rb_private \<Rightarrow> rb_private" where
  "rb_skip_insert before e after start count bp =
     (case rb_merge_right start count after of (c, keep, freed) \<Rightarrow>
        (rb_free_all freed bp)\<lparr>root := before @ e\<lparr>x_start := start, x_count := c\<rparr> # keep\<rparr>)"

definition rb_got_extent :: "nat \<Rightarrow> u64 \<Rightarrow> u64 \<Rightarrow> rb_private \<Rightarrow> int \<times> rb_private" where
  "rb_got_extent i start count bp =
     (let e = root bp ! i in
      if add64 start count \<le> x_end e then (1, bp)
      else (if x_end e = start then 0 else 1,
            rb_skip_insert (take i (root bp)) e (drop (Suc i) (root bp)) (x_start e)
              (add64 count (sub64 start (x_start e))) bp))"

text \<open>The search of the tree for a place for the extent.\<close>

definition rb_insert_search :: "u64 \<Rightarrow> u64 \<Rightarrow> rb_private \<Rightarrow> int \<times> rb_private" where
  "rb_insert_search start count bp =
     (case rb_descend (\<lambda>e. start < x_start e) (\<lambda>e. start > x_end e) (root bp) of
        (i, True) \<Rightarrow> rb_got_extent i start count bp
      | (i, False) \<Rightarrow>
          let new_ext = \<lparr>x_addr = next_addr bp, x_start = start, x_count = count\<rparr>;
              bp1 = bp\<lparr>wcursor := Some (next_addr bp), next_addr := Suc (next_addr bp)\<rparr>;
              before = take i (root bp);
              after = drop i (root bp)
          in if before \<noteq> [] \<and> x_end (last before) = start
             then (0, rb_skip_insert (butlast before) new_ext after (x_start (last before))
                        (add64 count (x_count (last before)))
                        (rb_free_extent (x_addr (last before)) bp1))
             else (0, rb_skip_insert before new_ext after start count bp1))"

definition rb_insert_extent :: "u64 \<Rightarrow> u64 \<Rightarrow> rb_private \<Rightarrow> (int \<times> rb_private) option" where
  "rb_insert_extent start count bp0 =
     (let bp = bp0\<lparr>rcursor_next := None\<rparr> in
      case wcursor bp of
        None \<Rightarrow> Some (rb_insert_search start count bp)
      | Some w \<Rightarrow> do {
          e \<leftarrow> rb_deref (root bp) w;
          if start \<ge> x_start e \<and> start \<le> x_end e
          then Some (rb_got_extent (length (takeWhile (\<lambda>f. Some (x_addr f) \<noteq> wcursor bp) (root bp))) start count bp)
          else Some (rb_insert_search start count bp) })"

section \<open>Removing an extent\<close>

fun rb_remove_right :: "u64 \<Rightarrow> u64 \<Rightarrow> bmap_rb_extent list \<Rightarrow> bool \<times> bmap_rb_extent list \<times> bmap_rb_extent list" where
  "rb_remove_right start count [] = (False, [], [])"
| "rb_remove_right start count (e # es) =
     (if x_end e \<le> start then
        (case rb_remove_right start count es of (r, keep, freed) \<Rightarrow> (r, e # keep, freed))
      else if add64 start count < x_start e then (False, e # es, [])
      else if add64 start count \<ge> x_end e then
        (case rb_remove_right start count es of (r, keep, freed) \<Rightarrow> (True, keep, e # freed))
      else (True, e\<lparr>x_count := sub64 (x_count e) (sub64 (add64 start count) (x_start e)),
                     x_start := add64 start count\<rparr> # es, []))"

text \<open>The loop over the extents right of the descent's end, from extent \<open>j\<close> on; \<open>r\<close> is the
  value of \<^verbatim>\<open>retval\<close> before it.\<close>

definition rb_remove_from :: "nat \<Rightarrow> int \<Rightarrow> u64 \<Rightarrow> u64 \<Rightarrow> rb_private \<Rightarrow> int \<times> rb_private" where
  "rb_remove_from j r start count bp =
     (case rb_remove_right start count (drop j (root bp)) of (hit, keep, freed) \<Rightarrow>
        (if hit then 1 else r, (rb_free_all freed bp)\<lparr>root := take j (root bp) @ keep\<rparr>))"

definition rb_remove_extent :: "shape \<Rightarrow> u64 \<Rightarrow> u64 \<Rightarrow> rb_private \<Rightarrow> (int \<times> rb_private) option" where
  "rb_remove_extent shape start count bp =
     (let xs = root bp in
      if xs = [] then Some (0, bp)
      else case rb_descend (\<lambda>e. start < x_start e) (\<lambda>e. start \<ge> x_end e) xs of
        (i, False) \<Rightarrow> Some (rb_remove_from (rb_parent shape xs i) 0 start count bp)
      | (i, True) \<Rightarrow>
          let e = xs ! i in
          if start > x_start e \<and> add64 start count < x_end e then
            let bp1 = bp\<lparr>root := xs[i := e\<lparr>x_count := sub64 start (x_start e)\<rparr>]\<rparr>
            in do { (_, bp2) \<leftarrow> rb_insert_extent (add64 start count) (sub64 (x_end e) (add64 start count)) bp1;
                    Some (1, bp2) }
          else
            let whole = add64 start count \<ge> x_end e;
                e1 = (if whole then e\<lparr>x_count := sub64 start (x_start e)\<rparr> else e)
            in if x_count e1 = 0
               then Some (rb_remove_from i (if whole then 1 else 0) start count
                            ((rb_free_extent (x_addr e) bp)\<lparr>root := take i xs @ drop (Suc i) xs\<rparr>))
               else if start = x_start e1
               then Some (1, bp\<lparr>root := xs[i := e1\<lparr>x_start := add64 (x_start e1) count,
                                                 x_count := sub64 (x_count e1) count\<rparr>]\<rparr>)
               else let ys = xs[i := e1]
                    in Some (rb_remove_from (rb_parent shape ys (Suc i)) 1 start count (bp\<lparr>root := ys\<rparr>)))"

section \<open>The operations of the table\<close>

definition rb_resize_bmap ::
  "allocator \<Rightarrow> (nat \<Rightarrow> u8) \<Rightarrow> rb_bmap \<Rightarrow> u64 \<Rightarrow> u64 \<Rightarrow> (errcode \<times> rb_bmap) option" where
  "rb_resize_bmap mem fresh b new_end new_real_end =
     (let bp = (bm_private b)\<lparr>rcursor := None, wcursor := None\<rparr>;
          new_max = sub64 (if new_end < bm_end b then new_end else bm_end b) (bm_start b);
          bp1 = bp\<lparr>root := rb_truncate new_max (root bp)\<rparr>;
          b1 = b\<lparr>bm_private := bp1, bm_end := new_end, bm_real_end := new_real_end\<rparr>
      in if new_end < new_real_end
         then do { (_, bp2) \<leftarrow> rb_insert_extent (sub64 (add64 new_end 1) (bm_start b)) (sub64 new_real_end new_end) bp1;
                   Some (0, b1\<lparr>bm_private := bp2\<rparr>) }
         else Some (0, b1))"

definition rb_mark_bmap :: "rb_bmap \<Rightarrow> u64 \<Rightarrow> (int \<times> rb_bmap) option" where
  "rb_mark_bmap b arg =
     do { (r, bp) \<leftarrow> rb_insert_extent (sub64 arg (bm_start b)) 1 (bm_private b);
          Some (r, b\<lparr>bm_private := bp\<rparr>) }"

definition rb_unmark_bmap :: "shape \<Rightarrow> rb_bmap \<Rightarrow> u64 \<Rightarrow> (int \<times> rb_bmap) option" where
  "rb_unmark_bmap shape b arg =
     do { (r, bp) \<leftarrow> rb_remove_extent shape (sub64 arg (bm_start b)) 1 (bm_private b);
          Some (r, b\<lparr>bm_private := bp\<rparr>) }"

definition rb_test_bmap :: "rb_bmap \<Rightarrow> u64 \<Rightarrow> (int \<times> rb_bmap) option" where
  "rb_test_bmap b arg =
     do { (r, bp) \<leftarrow> rb_test_bit (bm_private b) (sub64 arg (bm_start b));
          Some (r, b\<lparr>bm_private := bp\<rparr>) }"

definition rb_mark_bmap_extent :: "rb_bmap \<Rightarrow> u64 \<Rightarrow> nat \<Rightarrow> rb_bmap option" where
  "rb_mark_bmap_extent b arg num =
     do { (_, bp) \<leftarrow> rb_insert_extent (sub64 arg (bm_start b)) num (bm_private b);
          Some (b\<lparr>bm_private := bp\<rparr>) }"

definition rb_unmark_bmap_extent :: "shape \<Rightarrow> rb_bmap \<Rightarrow> u64 \<Rightarrow> nat \<Rightarrow> rb_bmap option" where
  "rb_unmark_bmap_extent shape b arg num =
     do { (_, bp) \<leftarrow> rb_remove_extent shape (sub64 arg (bm_start b)) num (bm_private b);
          Some (b\<lparr>bm_private := bp\<rparr>) }"

fun rb_clear_scan :: "u64 \<Rightarrow> nat \<Rightarrow> bmap_rb_extent list \<Rightarrow> int" where
  "rb_clear_scan start len [] = 1"
| "rb_clear_scan start len (e # es) =
     (if x_end e \<le> start then rb_clear_scan start len es
      else if add64 start len \<le> x_start e then 1 else 0)"

definition rb_test_clear_bmap_extent :: "shape \<Rightarrow> rb_bmap \<Rightarrow> u64 \<Rightarrow> nat \<Rightarrow> int option" where
  "rb_test_clear_bmap_extent shape b start0 len =
     (let xs = root (bm_private b);
          start = sub64 start0 (bm_start b)
      in if len = 0 \<or> xs = [] then Some 1
         else case rb_descend (\<lambda>e. start < x_start e) (\<lambda>e. start \<ge> x_end e) xs of
           (i, True) \<Rightarrow> Some 0
         | (i, False) \<Rightarrow> Some (rb_clear_scan start len (drop (rb_parent shape xs i) xs)))"

text \<open>\<^verbatim>\<open>rb_set_bmap_range\<close>: \<^verbatim>\<open>first_set\<close> is an \<^verbatim>\<open>int\<close> that is
  assigned a \<^verbatim>\<open>size_t\<close>, and \<^verbatim>\<open>ext2fs_test_bit\<close> takes an
  \<^verbatim>\<open>unsigned int\<close>.\<close>

definition to_s32 :: "nat \<Rightarrow> int" where
  "to_s32 i = (if i mod W32 < 2147483648 then int (i mod W32) else int (i mod W32) - int W32)"

definition rb_insert_run :: "u64 \<Rightarrow> u64 \<Rightarrow> int \<Rightarrow> nat \<Rightarrow> rb_private \<Rightarrow> rb_private option" where
  "rb_insert_run bstart start first_set i bp =
     do { (_, bp') \<leftarrow> rb_insert_extent (sub64 (nat ((int start + first_set) mod int W64)) bstart)
                      (nat ((int i - first_set) mod int W64)) bp;
          Some bp' }"

function rb_set_loop :: "u64 \<Rightarrow> u64 \<Rightarrow> nat \<Rightarrow> u8 list \<Rightarrow> nat \<Rightarrow> int \<Rightarrow> rb_private \<Rightarrow> rb_private option" where
  "rb_set_loop bstart start num inp i first_set bp =
     (if i < num then
        do { c \<leftarrow> (if i mod 8 = 0 then rd inp (i div 8) else Some 1);
             if i mod 8 = 0 \<and> c = 255
             then rb_set_loop bstart start num inp (i + 8) (if first_set = -1 then to_s32 i else first_set) bp
             else if i mod 8 = 0 \<and> c = 0 \<and> first_set = -1
             then rb_set_loop bstart start num inp (i + 8) first_set bp
             else do {
               t \<leftarrow> ext2fs_test_bit (i mod W32) inp;
               if t \<noteq> 0
               then rb_set_loop bstart start num inp (i + 1) (if first_set = -1 then to_s32 i else first_set) bp
               else if first_set = -1 then rb_set_loop bstart start num inp (i + 1) first_set bp
               else do { bp' \<leftarrow> rb_insert_run bstart start first_set i bp;
                         rb_set_loop bstart start num inp (i + 1) (-1) bp' } } }
      else if first_set \<noteq> -1 then rb_insert_run bstart start first_set num bp
      else Some bp)"
  by pat_completeness auto
termination by (relation "measure (\<lambda>(b, s, num, inp, i, f, bp). num - i)") auto

definition rb_set_bmap_range :: "rb_bmap \<Rightarrow> u64 \<Rightarrow> nat \<Rightarrow> u8 list \<Rightarrow> (errcode \<times> rb_bmap) option" where
  "rb_set_bmap_range b start num inp =
     do { bp \<leftarrow> rb_set_loop (bm_start b) start num inp 0 (-1) (bm_private b);
          Some (0, b\<lparr>bm_private := bp\<rparr>) }"

text \<open>The inner loop of \<^verbatim>\<open>rb_get_bmap_range\<close>; \<^verbatim>\<open>nbytes\<close> and
  \<^verbatim>\<open>offset\<close> are \<^verbatim>\<open>int\<close>, and \<^verbatim>\<open>nbytes << 3\<close> overflows from
  \<open>2 ^ 28\<close> on.\<close>

function rb_fill_out :: "u64 \<Rightarrow> u64 \<Rightarrow> u64 \<Rightarrow> u8 list \<Rightarrow> u8 list option" where
  "rb_fill_out start pos count out =
     (if count > 0 then
        if count \<ge> 8 \<and> sub64 pos start mod 8 = 0 then
          let nbytes = count div 8; offset = sub64 pos start div 8 in
          if nbytes \<ge> 268435456 \<or> offset \<ge> 2147483648 then None
          else do { out' \<leftarrow> mem_fill out offset 255 nbytes;
                    rb_fill_out start (add64 pos (8 * nbytes)) (count - 8 * nbytes) out' }
        else do { out' \<leftarrow> ext2fs_fast_set_bit64 (sub64 pos start) out;
                  rb_fill_out start (add64 pos 1) (count - 1) out' }
      else Some out)"
  by pat_completeness auto
termination by (relation "measure (\<lambda>(s, p, count, out). count)") auto

fun rb_get_loop :: "u64 \<Rightarrow> nat \<Rightarrow> bmap_rb_extent list \<Rightarrow> u8 list \<Rightarrow> u8 list option" where
  "rb_get_loop start num [] out = Some out"
| "rb_get_loop start num (e # es) out =
     (if x_start e \<ge> add64 start num then Some out
      else if x_start e < start \<and> x_end e < start then rb_get_loop start num es out
      else
        let pos = (if x_start e < start then start else x_start e);
            count = (if x_start e < start then sub64 (x_count e) (sub64 start (x_start e)) else x_count e);
            count' = (if add64 pos count > add64 start num then sub64 (add64 start num) pos else count)
        in do { out' \<leftarrow> rb_fill_out start pos count' out; rb_get_loop start num es out' })"

definition rb_get_bmap_range :: "shape \<Rightarrow> rb_bmap \<Rightarrow> u64 \<Rightarrow> nat \<Rightarrow> u8 list \<Rightarrow> (errcode \<times> u8 list) option" where
  "rb_get_bmap_range shape b start0 num out =
     (let xs = root (bm_private b);
          start = sub64 start0 (bm_start b)
      in if xs = [] then Some (0, out)
         else let i = (case rb_descend (\<lambda>e. start < x_start e) (\<lambda>e. start \<ge> x_end e) xs of
                         (i, True) \<Rightarrow> i | (i, False) \<Rightarrow> rb_parent shape xs i)
              in do { out0 \<leftarrow> mem_fill out 0 0 ((num + 7) div 8);
                      out' \<leftarrow> rb_get_loop start num (drop i xs) out0;
                      Some (0, out') })"

definition rb_clear_bmap :: "rb_bmap \<Rightarrow> rb_bmap option" where
  "rb_clear_bmap b =
     Some (b\<lparr>bm_private := (bm_private b)\<lparr>root := [], rcursor := None, rcursor_next := None, wcursor := None\<rparr>\<rparr>)"

definition rb_find_first_zero :: "rb_bmap \<Rightarrow> u64 \<Rightarrow> u64 \<Rightarrow> (errcode + u64) option" where
  "rb_find_first_zero b start0 end0 =
     (let xs = root (bm_private b);
          start = sub64 start0 (bm_start b);
          end = sub64 end0 (bm_start b)
      in Some (if start > end then Inl EINVAL
               else if xs = [] then Inl ENOENT
               else case rb_descend (\<lambda>e. start < x_start e) (\<lambda>e. start \<ge> x_end e) xs of
                 (i, True) \<Rightarrow> (if x_end (xs ! i) \<le> end then Inr (add64 (x_end (xs ! i)) (bm_start b)) else Inl ENOENT)
               | (i, False) \<Rightarrow> Inr (add64 start (bm_start b))))"

definition rb_find_first_set :: "shape \<Rightarrow> rb_bmap \<Rightarrow> u64 \<Rightarrow> u64 \<Rightarrow> (errcode + u64) option" where
  "rb_find_first_set shape b start0 end0 =
     (let xs = root (bm_private b);
          start = sub64 start0 (bm_start b);
          end = sub64 end0 (bm_start b)
      in Some (if start > end then Inl EINVAL
               else if xs = [] then Inl ENOENT
               else case rb_descend (\<lambda>e. start < x_start e) (\<lambda>e. start \<ge> x_end e) xs of
                 (i, True) \<Rightarrow> Inr (add64 start (bm_start b))
               | (i, False) \<Rightarrow>
                   let p = rb_parent shape xs i;
                       q = (if x_start (xs ! p) < start then Suc p else p)
                   in if q < length xs \<and> x_start (xs ! q) \<le> end
                      then Inr (add64 (x_start (xs ! q)) (bm_start b)) else Inl ENOENT))"

definition ext2fs_blkmap64_rbtree :: "shape \<Rightarrow> rb_private bitmap_ops" where
  "ext2fs_blkmap64_rbtree shape =
     \<lparr>bop_type = 2, new_bmap = rb_new_bmap, copy_bmap = rb_copy_bmap,
      resize_bmap = rb_resize_bmap, mark_bmap = rb_mark_bmap, unmark_bmap = rb_unmark_bmap shape,
      test_bmap = rb_test_bmap, mark_bmap_extent = rb_mark_bmap_extent,
      unmark_bmap_extent = rb_unmark_bmap_extent shape,
      test_clear_bmap_extent = rb_test_clear_bmap_extent shape,
      set_bmap_range = rb_set_bmap_range, get_bmap_range = rb_get_bmap_range shape,
      clear_bmap = rb_clear_bmap, find_first_zero = rb_find_first_zero,
      find_first_set = rb_find_first_set shape\<rparr>"

declare rb_set_loop.simps [simp del] rb_fill_out.simps [simp del]

end
