(* ===== verification/Bitmap_Rb_Correct.thy ===== *)
theory Bitmap_Rb_Correct
  imports Bitmap_Rb
begin

text \<open>
  Correctness of the extent-tree back end: the tree is a sorted list of disjoint, non-adjacent,
  non-empty extents (the property \<^verbatim>\<open>check_tree\<close> tests in debug builds), the cursors
  always point into it, every operation keeps this and implements the set of marked numbers, whatever
  the shape of the tree.
\<close>

section \<open>Well-formed trees and their bits\<close>

definition rb_before :: "bmap_rb_extent \<Rightarrow> bmap_rb_extent \<Rightarrow> bool" where
  "rb_before a b \<longleftrightarrow> x_start a + x_count a < x_start b"

definition rb_wf :: "nat \<Rightarrow> bmap_rb_extent list \<Rightarrow> bool" where
  "rb_wf M xs \<longleftrightarrow> sorted_wrt rb_before xs \<and> (\<forall>e \<in> set xs. 0 < x_count e \<and> x_start e + x_count e \<le> M)"

definition rb_bits :: "bmap_rb_extent list \<Rightarrow> nat set" where
  "rb_bits xs = (\<Union>e \<in> set xs. {x_start e..<x_start e + x_count e})"

lemma rb_bits_simps [simp]:
  "rb_bits [] = {}"
  "rb_bits (e # es) = {x_start e..<x_start e + x_count e} \<union> rb_bits es"
  "rb_bits (xs @ ys) = rb_bits xs \<union> rb_bits ys"
  by (auto simp: rb_bits_def)

lemma rb_bits_iff: "n \<in> rb_bits xs \<longleftrightarrow> (\<exists>e \<in> set xs. x_start e \<le> n \<and> n < x_start e + x_count e)"
  by (auto simp: rb_bits_def)

lemma rb_wf_Nil [simp]: "rb_wf M []"
  by (simp add: rb_wf_def)

lemma rb_wf_Cons: "rb_wf M (e # es) \<longleftrightarrow>
    0 < x_count e \<and> x_start e + x_count e \<le> M \<and> (\<forall>f \<in> set es. rb_before e f) \<and> rb_wf M es"
  by (auto simp: rb_wf_def)

lemma rb_wf_append: "rb_wf M (xs @ ys) \<longleftrightarrow>
    rb_wf M xs \<and> rb_wf M ys \<and> (\<forall>a \<in> set xs. \<forall>b \<in> set ys. rb_before a b)"
  by (auto simp: rb_wf_def sorted_wrt_append)

lemma x_end_wf: "rb_wf M xs \<Longrightarrow> M < W64 \<Longrightarrow> e \<in> set xs \<Longrightarrow> x_end e = x_start e + x_count e"
  by (auto simp: rb_wf_def intro!: add64_nowrap)

lemma rb_wf_bound: "rb_wf M xs \<Longrightarrow> n \<in> rb_bits xs \<Longrightarrow> n < M"
  by (auto simp: rb_wf_def rb_bits_iff)

lemma rb_wf_take_drop: "rb_wf M xs \<Longrightarrow> rb_wf M (take i xs)" "rb_wf M xs \<Longrightarrow> rb_wf M (drop i xs)"
  using rb_wf_append [of M "take i xs" "drop i xs"] by auto

text \<open>Splitting a well-formed tree at an extent.\<close>

lemma rb_split_nth: "i < length xs \<Longrightarrow> xs = take i xs @ xs ! i # drop (Suc i) xs"
  by (rule id_take_nth_drop)

lemma rb_bits_split_iff:
  assumes "rb_wf M (A @ e # R)" "x_start e \<le> n" "n < x_start e + x_count e + 1"
  shows "n \<in> rb_bits (A @ e # R) \<longleftrightarrow> n < x_start e + x_count e"
  using assms by (auto simp: rb_wf_append rb_wf_Cons rb_bits_iff rb_before_def)

section \<open>Descents\<close>

lemma rb_descend_cases:
  assumes "rb_descend l r xs = (i, m)"
  shows "i \<le> length xs" "\<forall>e \<in> set (take i xs). r e" "i < length xs \<Longrightarrow> \<not> r (xs ! i)"
    "m \<longleftrightarrow> i < length xs \<and> \<not> l (xs ! i)"
proof -
  have i: "i = length (takeWhile r xs)" and m: "m = (i < length xs \<and> \<not> l (xs ! i))"
    using assms by (auto simp: rb_descend_def Let_def)
  show "i \<le> length xs" using i length_takeWhile_le by simp
  show "\<forall>e \<in> set (take i xs). r e"
    using i by (metis takeWhile_eq_take set_takeWhileD)
  show "i < length xs \<Longrightarrow> \<not> r (xs ! i)" using i nth_length_takeWhile by blast
  show "m \<longleftrightarrow> i < length xs \<and> \<not> l (xs ! i)" using m by simp
qed

lemma rb_right_of:
  assumes "rb_wf M xs" "i < length xs \<Longrightarrow> s < x_start (xs ! i)"
  shows "\<forall>e \<in> set (drop i xs). s < x_start e"
proof (cases "i < length xs")
  case True
  have "rb_wf M (xs ! i # drop (Suc i) xs)"
    using rb_wf_take_drop(2) [OF assms(1), of i] True by (simp add: Cons_nth_drop_Suc)
  with assms(2) [OF True] have "\<forall>e \<in> set (xs ! i # drop (Suc i) xs). s < x_start e"
    by (auto simp: rb_wf_Cons rb_before_def)
  then show ?thesis using True by (simp add: Cons_nth_drop_Suc)
qed simp

text \<open>A descent for position \<open>s\<close> on a well-formed tree: it matches the extent holding
  \<open>s\<close>, or ends between the extents left and right of \<open>s\<close>.\<close>

lemma rb_descend_bit:
  assumes "rb_descend (\<lambda>e. s < x_start e) (\<lambda>e. s \<ge> x_end e) xs = (i, m)" "rb_wf M xs" "M < W64"
  shows "m \<longleftrightarrow> s \<in> rb_bits xs"
    "m \<Longrightarrow> i < length xs \<and> x_start (xs ! i) \<le> s \<and> s < x_start (xs ! i) + x_count (xs ! i)"
    "\<forall>e \<in> set (take i xs). x_start e + x_count e \<le> s"
    "\<not> m \<Longrightarrow> \<forall>e \<in> set (drop i xs). s < x_start e"
proof -
  note d = rb_descend_cases [OF assms(1)]
  note xe = x_end_wf [OF assms(2,3)]
  show left: "\<forall>e \<in> set (take i xs). x_start e + x_count e \<le> s"
    using d(2) xe by (metis in_set_takeD)
  show hit: "m \<Longrightarrow> i < length xs \<and> x_start (xs ! i) \<le> s \<and> s < x_start (xs ! i) + x_count (xs ! i)"
    using d xe by (metis not_le nth_mem)
  show right: "\<forall>e \<in> set (drop i xs). s < x_start e" if "\<not> m"
    using rb_right_of [OF assms(2)] d(4) that by blast
  have "s \<notin> rb_bits xs" if "\<not> m"
  proof -
    have "s \<notin> rb_bits (take i xs)" "s \<notin> rb_bits (drop i xs)"
      using left right [OF that] unfolding rb_bits_iff by (meson leD)+
    then show ?thesis using rb_bits_simps(3) [of "take i xs" "drop i xs"] by simp
  qed
  moreover have "s \<in> rb_bits xs" if m using hit [OF that] by (meson nth_mem rb_bits_iff)
  ultimately show "m \<longleftrightarrow> s \<in> rb_bits xs" by blast
qed

section \<open>Cursors\<close>

text \<open>Every cursor that is followed points to an extent of the tree; \<^verbatim>\<open>rcursor_next\<close>,
  when set while \<^verbatim>\<open>rcursor\<close> is, is the extent right of it.\<close>

definition rb_cur :: "rb_private \<Rightarrow> bool" where
  "rb_cur bp \<longleftrightarrow>
     (let as = map x_addr (root bp) in
      distinct as \<and> (\<forall>a \<in> set as. a < next_addr bp) \<and>
      (\<forall>a. wcursor bp = Some a \<longrightarrow> a \<in> set as) \<and>
      (\<forall>a. rcursor bp = Some a \<longrightarrow> a \<in> set as \<and>
         (\<forall>b. rcursor_next bp = Some b \<longrightarrow> (\<exists>ys zs. as = ys @ a # b # zs))))"

definition drop_cur :: "nat set \<Rightarrow> nat option \<Rightarrow> nat option" where
  "drop_cur F c = (case c of None \<Rightarrow> None | Some a \<Rightarrow> if a \<in> F then None else Some a)"

lemma drop_cur_Some: "drop_cur F c = Some a \<longleftrightarrow> c = Some a \<and> a \<notin> F"
  by (auto simp: drop_cur_def split: option.splits)

lemma drop_cur_drop: "drop_cur F (drop_cur G c) = drop_cur (F \<union> G) c"
  by (auto simp: drop_cur_def split: option.splits)

lemma drop_cur_empty: "drop_cur {} c = c"
  by (auto simp: drop_cur_def split: option.splits)

lemma rb_free_extent_eq: "rb_free_extent a bp =
    bp\<lparr>wcursor := drop_cur {a} (wcursor bp), rcursor := drop_cur {a} (rcursor bp),
       rcursor_next := drop_cur {a} (rcursor_next bp)\<rparr>"
proof -
  have "drop_cur {a} c = (if c = Some a then None else c)" for c
    by (auto simp: drop_cur_def split: option.splits)
  then show ?thesis by (simp add: rb_free_extent_def)
qed

lemma rb_free_all_eq: "rb_free_all es bp =
    bp\<lparr>wcursor := drop_cur (x_addr ` set es) (wcursor bp), rcursor := drop_cur (x_addr ` set es) (rcursor bp),
       rcursor_next := drop_cur (x_addr ` set es) (rcursor_next bp)\<rparr>"
proof (induction es arbitrary: bp)
  case Nil
  then show ?case by (simp add: rb_free_all_def drop_cur_empty)
next
  case (Cons e es)
  have "rb_free_all (e # es) bp = rb_free_all es (rb_free_extent (x_addr e) bp)"
    by (simp add: rb_free_all_def)
  then show ?case by (simp add: Cons.IH rb_free_extent_eq drop_cur_drop)
qed

lemma rb_free_all_sel:
  "root (rb_free_all es bp) = root bp" "next_addr (rb_free_all es bp) = next_addr bp"
  "wcursor (rb_free_all es bp) = drop_cur (x_addr ` set es) (wcursor bp)"
  "rcursor (rb_free_all es bp) = drop_cur (x_addr ` set es) (rcursor bp)"
  "rcursor_next (rb_free_all es bp) = drop_cur (x_addr ` set es) (rcursor_next bp)"
  by (simp_all add: rb_free_all_eq)

lemma rb_cur_free:
  assumes "rb_cur bp" "map x_addr ys = filter (\<lambda>a. a \<notin> x_addr ` set freed) (map x_addr (root bp))"
  shows "rb_cur ((rb_free_all freed bp)\<lparr>root := ys\<rparr>)"
proof -
  let ?P = "\<lambda>a. a \<notin> x_addr ` set freed"
  have next_kept: "\<exists>us vs. filter ?P (map x_addr (root bp)) = us @ a # b # vs"
    if "map x_addr (root bp) = us @ a # b # vs" "?P a" "?P b" for a b us vs
    by (rule exI [of _ "filter ?P us"], rule exI [of _ "filter ?P vs"]) (simp add: that)
  have c: "distinct (map x_addr (root bp))" "\<forall>a \<in> set (map x_addr (root bp)). a < next_addr bp"
    "\<forall>a. wcursor bp = Some a \<longrightarrow> a \<in> set (map x_addr (root bp))"
    "\<forall>a. rcursor bp = Some a \<longrightarrow> a \<in> set (map x_addr (root bp)) \<and>
       (\<forall>b. rcursor_next bp = Some b \<longrightarrow> (\<exists>us vs. map x_addr (root bp) = us @ a # b # vs))"
    using assms(1) unfolding rb_cur_def Let_def by blast+
  define bp' where "bp' = (rb_free_all freed bp)\<lparr>root := ys\<rparr>"
  have sel: "map x_addr (root bp') = filter ?P (map x_addr (root bp))" "next_addr bp' = next_addr bp"
    "\<And>a. wcursor bp' = Some a \<longleftrightarrow> wcursor bp = Some a \<and> ?P a"
    "\<And>a. rcursor bp' = Some a \<longleftrightarrow> rcursor bp = Some a \<and> ?P a"
    "\<And>a. rcursor_next bp' = Some a \<longleftrightarrow> rcursor_next bp = Some a \<and> ?P a"
    by (simp_all add: bp'_def assms(2) rb_free_all_sel drop_cur_Some)
  have "distinct (filter ?P (map x_addr (root bp)))" using c(1) by (rule distinct_filter)
  then have "rb_cur bp'"
    unfolding rb_cur_def Let_def sel set_filter mem_Collect_eq
    using c(2-4) next_kept by blast
  then show ?thesis by (simp only: bp'_def)
qed

lemma filter_distinct_middle:
  assumes "distinct (xs @ ys @ zs)"
  shows "filter (\<lambda>a. a \<notin> set ys) (xs @ ys @ zs) = xs @ zs"
proof -
  have "filter (\<lambda>a. a \<notin> set ys) xs = xs" "filter (\<lambda>a. a \<notin> set ys) zs = zs" using assms by (auto intro: filter_True)
  then show ?thesis by simp
qed

text \<open>Freeing a block of extents and changing others in place.\<close>

lemma rb_cur_free_middle:
  assumes "rb_cur bp" "root bp = A @ F @ R" "map x_addr A' = map x_addr A" "map x_addr R' = map x_addr R"
  shows "rb_cur ((rb_free_all F bp)\<lparr>root := A' @ R'\<rparr>)"
proof (rule rb_cur_free [OF assms(1)])
  have "distinct (map x_addr A @ map x_addr F @ map x_addr R)"
    using assms(1,2) by (simp add: rb_cur_def Let_def)
  from filter_distinct_middle [OF this] assms(2-4)
  show "map x_addr (A' @ R') = filter (\<lambda>a. a \<notin> x_addr ` set F) (map x_addr (root bp))" by simp
qed

lemma nth_addr_inj:
  "distinct (map x_addr xs) \<Longrightarrow> i < length xs \<Longrightarrow> j < length xs \<Longrightarrow> x_addr (xs ! i) = x_addr (xs ! j) \<longleftrightarrow> i = j"
  by (metis length_map nth_eq_iff_index_eq nth_map)

lemma rb_deref_nth:
  assumes "distinct (map x_addr xs)" "i < length xs"
  shows "rb_deref xs (x_addr (xs ! i)) = Some (xs ! i)"
proof -
  have "\<not> x_addr (xs ! j) = x_addr (xs ! i)" if "j < i" for j
    using nth_addr_inj [OF assms(1), of j i] that assms(2) by simp
  then show ?thesis unfolding rb_deref_def find_Some_iff using assms(2) by blast
qed

lemma rb_addr_index:
  assumes "a \<in> set (map x_addr xs)"
  obtains i where "i < length xs" "x_addr (xs ! i) = a"
  using assms by (metis in_set_conv_nth length_map nth_map)

lemma takeWhile_addr:
  assumes "distinct (map x_addr xs)" "i < length xs"
  shows "length (takeWhile (\<lambda>e. Some (x_addr e) \<noteq> Some (x_addr (xs ! i))) xs) = i"
proof -
  have "takeWhile (\<lambda>e. Some (x_addr e) \<noteq> Some (x_addr (xs ! i))) xs = take i xs"
    by (rule takeWhile_eq_take_P_nth) (use nth_addr_inj [OF assms(1)] assms(2) in simp_all)
  then show ?thesis using assms(2) by simp
qed

section \<open>Insertion\<close>

lemma rb_merge_right_spec:
  assumes "rb_wf M R" "M < W64" "\<forall>e \<in> set R. s < x_start e" "0 < c" "s + c \<le> M"
  shows "\<exists>c' keep freed. rb_merge_right s c R = (c', keep, freed) \<and> R = freed @ keep \<and> c \<le> c' \<and>
    s + c' \<le> M \<and> (\<forall>e \<in> set keep. s + c' < x_start e) \<and>
    {s..<s + c'} \<union> rb_bits keep = {s..<s + c} \<union> rb_bits R"
  using assms
proof (induction R)
  case Nil
  then show ?case by simp
next
  case (Cons e es)
  from Cons.prems have wf: "0 < x_count e" "x_start e + x_count e \<le> M" "\<forall>f \<in> set es. rb_before e f" "rb_wf M es"
    by (auto simp: rb_wf_Cons)
  have xe: "x_end e = x_start e + x_count e" and sc: "add64 s c = s + c"
    using Cons.prems wf by (simp_all add: add64_nowrap)
  have se: "s < x_start e" using Cons.prems by simp
  consider "s + c < x_start e" | "x_start e + x_count e \<le> s + c" | "x_start e \<le> s + c" "s + c < x_start e + x_count e"
    by linarith
  then show ?case
  proof cases
    case 1
    then have "\<forall>f \<in> set (e # es). s + c < x_start f" using wf by (fastforce simp: rb_before_def)
    with 1 xe sc se Cons.prems show ?thesis by simp
  next
    case 2
    obtain c' keep freed where IH: "rb_merge_right s c es = (c', keep, freed)" "es = freed @ keep" "c \<le> c'"
      "s + c' \<le> M" "\<forall>e \<in> set keep. s + c' < x_start e" "{s..<s + c'} \<union> rb_bits keep = {s..<s + c} \<union> rb_bits es"
      using Cons.IH wf Cons.prems by auto
    have "rb_merge_right s c (e # es) = (c', keep, e # freed)" using 2 xe sc se wf IH(1) by simp
    moreover have "{s..<s + c} \<union> rb_bits (e # es) = {s..<s + c} \<union> rb_bits es" using 2 se by auto
    ultimately show ?thesis using IH(2-6) by simp
  next
    case 3
    let ?c = "x_start e + x_count e - s"
    have "rb_merge_right s c (e # es) = (?c, es, [e])"
      using 3 xe sc se wf Cons.prems by (simp add: u64_simps)
    moreover have "\<forall>f \<in> set es. s + ?c < x_start f" using wf se by (auto simp: rb_before_def)
    moreover have "{s..<s + ?c} \<union> rb_bits es = {s..<s + c} \<union> rb_bits (e # es)"
      using 3 se by auto
    moreover have "c \<le> ?c" "s + ?c \<le> M" using 3 se wf by simp_all
    ultimately show ?thesis by simp
  qed
qed

definition rb_ok :: "nat \<Rightarrow> rb_private \<Rightarrow> bool" where
  "rb_ok M bp \<longleftrightarrow> rb_wf M (root bp) \<and> rb_cur bp"

lemma rb_skip_insert_spec:
  assumes "rb_cur (bp\<lparr>root := A @ e # R\<rparr>)" "rb_wf M A" "rb_wf M R" "M < W64"
    and "\<forall>a \<in> set A. x_start a + x_count a < s" "\<forall>a \<in> set R. s < x_start a" "0 < c" "s + c \<le> M"
  shows "rb_ok M (rb_skip_insert A e R s c bp)"
    "rb_bits (root (rb_skip_insert A e R s c bp)) = rb_bits A \<union> {s..<s + c} \<union> rb_bits R"
proof -
  obtain c' keep freed where m: "rb_merge_right s c R = (c', keep, freed)" "R = freed @ keep" "c \<le> c'"
    "s + c' \<le> M" "\<forall>e \<in> set keep. s + c' < x_start e" "{s..<s + c'} \<union> rb_bits keep = {s..<s + c} \<union> rb_bits R"
    using rb_merge_right_spec [OF assms(3,4,6-8)] by blast
  let ?e = "e\<lparr>x_start := s, x_count := c'\<rparr>"
  have eq: "rb_skip_insert A e R s c bp = (rb_free_all freed (bp\<lparr>root := A @ e # R\<rparr>))\<lparr>root := (A @ [?e]) @ keep\<rparr>"
    by (simp add: rb_skip_insert_def m(1) rb_free_all_eq)
  have "rb_cur (rb_skip_insert A e R s c bp)"
    unfolding eq by (rule rb_cur_free_middle [OF assms(1), where A = "A @ [e]" and R = keep]) (simp_all add: m(2))
  moreover have "rb_wf M (root (rb_skip_insert A e R s c bp))"
  proof -
    have "rb_wf M keep" using assms(3) by (simp add: m(2) rb_wf_append)
    moreover have "\<forall>a \<in> set A. \<forall>b \<in> set keep. x_start a + x_count a < x_start b" using assms(5) m(5) by fastforce
    ultimately show ?thesis
      using assms(2,5,7) m(3-5) by (auto simp: eq rb_wf_append rb_wf_Cons rb_before_def)
  qed
  ultimately show "rb_ok M (rb_skip_insert A e R s c bp)" by (simp add: rb_ok_def)
  show "rb_bits (root (rb_skip_insert A e R s c bp)) = rb_bits A \<union> {s..<s + c} \<union> rb_bits R"
    using m(6) by (simp add: eq Un_assoc)
qed

lemma rb_got_extent_spec:
  assumes "rb_ok M bp" "M < W64" "i < length (root bp)" "0 < c" "s + c \<le> M"
    and "x_start (root bp ! i) \<le> s" "s \<le> x_start (root bp ! i) + x_count (root bp ! i)"
  shows "\<exists>r bp'. rb_got_extent i s c bp = (r, bp') \<and> rb_ok M bp' \<and>
    rb_bits (root bp') = rb_bits (root bp) \<union> {s..<s + c} \<and> (r \<noteq> 0 \<longleftrightarrow> s \<in> rb_bits (root bp))"
proof -
  let ?e = "root bp ! i"
  define A where "A = take i (root bp)"
  define R where "R = drop (Suc i) (root bp)"
  have split: "root bp = A @ ?e # R" unfolding A_def R_def by (rule rb_split_nth [OF assms(3)])
  have wf: "rb_wf M (A @ ?e # R)" using assms(1) split by (simp add: rb_ok_def)
  have xe: "x_end ?e = x_start ?e + x_count ?e"
    using assms(1-3) by (intro x_end_wf) (auto simp: rb_ok_def)
  have sc: "add64 s c = s + c" using assms by (simp add: add64_nowrap)
  have inb: "s \<in> rb_bits (root bp) \<longleftrightarrow> s < x_start ?e + x_count ?e"
    using rb_bits_split_iff [OF wf assms(6)] assms(7) split by simp
  have bits: "rb_bits (root bp) = rb_bits A \<union> {x_start ?e..<x_start ?e + x_count ?e} \<union> rb_bits R"
    by (subst split) (simp add: Un_assoc)
  show ?thesis
  proof (cases "s + c \<le> x_start ?e + x_count ?e")
    case True
    then have "rb_got_extent i s c bp = (1, bp)" by (simp add: rb_got_extent_def Let_def xe sc)
    moreover have "{s..<s + c} \<subseteq> rb_bits (root bp)" using True assms(6) unfolding bits by auto
    ultimately show ?thesis using assms(1,4) True inb by auto
  next
    case False
    let ?c = "c + (s - x_start ?e)"
    have c: "add64 c (sub64 s (x_start ?e)) = ?c" using assms by (simp add: u64_simps)
    let ?bp = "rb_skip_insert A ?e R (x_start ?e) ?c bp"
    have g: "rb_got_extent i s c bp = (if x_start ?e + x_count ?e = s then 0 else 1, ?bp)"
      using False by (simp add: rb_got_extent_def Let_def xe sc c A_def R_def)
    have cur: "rb_cur (bp\<lparr>root := A @ ?e # R\<rparr>)"
      using assms(1) by (simp add: rb_ok_def split [symmetric])
    have "rb_wf M A" "rb_wf M R" "\<forall>a \<in> set A. x_start a + x_count a < x_start ?e"
      "\<forall>a \<in> set R. x_start ?e < x_start a" "0 < ?c" "x_start ?e + ?c \<le> M"
      using wf assms by (auto simp: rb_wf_append rb_wf_Cons rb_before_def)
    note sp = rb_skip_insert_spec [OF cur this(1,2) assms(2) this(3-6)]
    then have "rb_ok M ?bp" "rb_bits (root ?bp) = rb_bits A \<union> {x_start ?e..<x_start ?e + ?c} \<union> rb_bits R"
      by simp_all
    moreover have "{x_start ?e..<x_start ?e + ?c} = {x_start ?e..<x_start ?e + x_count ?e} \<union> {s..<s + c}"
      using False assms by auto
    ultimately show ?thesis using g inb assms(7) bits by (auto simp: Un_ac)
  qed
qed

lemma rb_insert_new:
  assumes "rb_ok M bp" "M < W64" "0 < c" "s + c \<le> M" "rcursor_next bp = None"
    and "\<forall>e \<in> set (take i (root bp)). x_start e + x_count e < s" "\<forall>e \<in> set (drop i (root bp)). s < x_start e"
  defines "bp' \<equiv> rb_skip_insert (take i (root bp)) \<lparr>x_addr = next_addr bp, x_start = s, x_count = c\<rparr>
    (drop i (root bp)) s c (bp\<lparr>wcursor := Some (next_addr bp), next_addr := Suc (next_addr bp)\<rparr>)"
  shows "rb_ok M bp'" "rb_bits (root bp') = rb_bits (root bp) \<union> {s..<s + c}" "s \<notin> rb_bits (root bp)"
proof -
  define A where "A = take i (root bp)"
  define R where "R = drop i (root bp)"
  have root: "root bp = A @ R" by (simp add: A_def R_def)
  let ?e = "\<lparr>x_addr = next_addr bp, x_start = s, x_count = c\<rparr>"
  let ?bp = "bp\<lparr>wcursor := Some (next_addr bp), next_addr := Suc (next_addr bp)\<rparr>"
  have "rb_cur (?bp\<lparr>root := A @ ?e # R\<rparr>)"
    using assms(1,5) by (fastforce simp: rb_ok_def rb_cur_def Let_def root less_Suc_eq)
  moreover have "rb_wf M A" "rb_wf M R" using assms(1) by (simp_all add: rb_ok_def root rb_wf_append)
  moreover have "\<forall>e \<in> set A. x_start e + x_count e < s" "\<forall>e \<in> set R. s < x_start e"
    using assms(6,7) by (simp_all add: A_def R_def)
  ultimately have "rb_ok M (rb_skip_insert A ?e R s c ?bp)"
    "rb_bits (root (rb_skip_insert A ?e R s c ?bp)) = rb_bits A \<union> {s..<s + c} \<union> rb_bits R"
    using rb_skip_insert_spec [of A ?e R ?bp M s c] assms(2-4) by blast+
  then show "rb_ok M bp'" "rb_bits (root bp') = rb_bits (root bp) \<union> {s..<s + c}"
    unfolding bp'_def A_def [symmetric] R_def [symmetric] unfolding root by (auto simp: Un_ac)
  show "s \<notin> rb_bits (root bp)"
    unfolding root rb_bits_simps(3) Un_iff rb_bits_iff using assms(6,7) unfolding A_def R_def by fastforce
qed

lemma rb_insert_search_spec:
  assumes "rb_ok M b" "M < W64" "0 < c" "s + c \<le> M" "rcursor_next b = None"
  shows "\<exists>r bp'. rb_insert_search s c b = (r, bp') \<and> rb_ok M bp' \<and>
    rb_bits (root bp') = rb_bits (root b) \<union> {s..<s + c} \<and> (r \<noteq> 0 \<longleftrightarrow> s \<in> rb_bits (root b))"
proof -
  have wf: "rb_wf M (root b)" using assms(1) by (simp add: rb_ok_def)
  note xe = x_end_wf [OF wf assms(2)]
  let ?desc = "rb_descend (\<lambda>e. s < x_start e) (\<lambda>e. s > x_end e) (root b)"
  obtain i m where im: "?desc = (i, m)" by (cases ?desc)
  note dc = rb_descend_cases [OF im]
  have left: "\<forall>e \<in> set (take i (root b)). x_start e + x_count e < s"
    using dc(2) xe by (metis in_set_takeD)
  show ?thesis
  proof (cases m)
    case True
    then have "i < length (root b)" "x_start (root b ! i) \<le> s" using dc(4) by auto
    moreover from this have "s \<le> x_start (root b ! i) + x_count (root b ! i)"
      using dc(3) xe [of "root b ! i"] by simp
    ultimately show ?thesis
      using rb_got_extent_spec [OF assms(1,2) _ assms(3,4)] by (simp add: rb_insert_search_def im True)
  next
    case False
    have right: "\<forall>e \<in> set (drop i (root b)). s < x_start e"
      using rb_right_of [OF wf] dc(4) False by blast
    have "\<not> (take i (root b) \<noteq> [] \<and> x_end (last (take i (root b))) = s)"
      using left xe [of "last (take i (root b))"] last_in_set [of "take i (root b)"] in_set_takeD by fastforce
    with False im have "rb_insert_search s c b =
      (0, rb_skip_insert (take i (root b)) \<lparr>x_addr = next_addr b, x_start = s, x_count = c\<rparr>
         (drop i (root b)) s c (b\<lparr>wcursor := Some (next_addr b), next_addr := Suc (next_addr b)\<rparr>))"
      by (simp only: rb_insert_search_def prod.case bool.case Let_def if_False)
    then show ?thesis using rb_insert_new [OF assms left right] by simp
  qed
qed

lemma rb_insert_extent_spec:
  assumes "rb_ok M bp" "M < W64" "0 < c" "s + c \<le> M"
  shows "\<exists>r bp'. rb_insert_extent s c bp = Some (r, bp') \<and> rb_ok M bp' \<and>
    rb_bits (root bp') = rb_bits (root bp) \<union> {s..<s + c} \<and> (r \<noteq> 0 \<longleftrightarrow> s \<in> rb_bits (root bp))"
proof -
  define b where "b = bp\<lparr>rcursor_next := None\<rparr>"
  have b: "rb_ok M b" "root b = root bp" "rcursor_next b = None"
    using assms(1) by (simp_all add: b_def rb_ok_def rb_cur_def Let_def)
  have d: "distinct (map x_addr (root b))" using b(1) by (simp add: rb_ok_def rb_cur_def Let_def)
  have wf: "rb_wf M (root b)" using b(1) by (simp add: rb_ok_def)
  note search = rb_insert_search_spec [OF b(1) assms(2-4) b(3), unfolded b(2)]
  show ?thesis
  proof (cases "wcursor b")
    case None
    then have "rb_insert_extent s c bp = Some (rb_insert_search s c b)"
      by (simp add: rb_insert_extent_def b_def [symmetric] Let_def)
    with search show ?thesis by simp
  next
    case (Some w)
    then have "w \<in> set (map x_addr (root b))" using b(1) unfolding rb_ok_def rb_cur_def Let_def by blast
    then obtain i where i: "i < length (root b)" "x_addr (root b ! i) = w" by (rule rb_addr_index)
    let ?near = "s \<ge> x_start (root b ! i) \<and> s \<le> x_start (root b ! i) + x_count (root b ! i)"
    have "rb_insert_extent s c bp = Some (if ?near then rb_got_extent i s c b else rb_insert_search s c b)"
      unfolding rb_insert_extent_def b_def [symmetric] Let_def Some option.case
      by (simp add: rb_deref_nth [OF d i(1), unfolded i(2)] takeWhile_addr [OF d i(1), unfolded i(2), simplified]
          x_end_wf [OF wf assms(2) nth_mem [OF i(1)]])
    with search rb_got_extent_spec [OF b(1) assms(2) i(1) assms(3,4), unfolded b(2)]
    show ?thesis unfolding b(2) by (cases ?near) (auto simp: b(2))
  qed
qed

section \<open>Removal\<close>

lemma rb_remove_right_spec:
  assumes "rb_wf M D" "M < W64" "s + c \<le> M" "\<forall>e \<in> set D. x_start e + x_count e \<le> s \<or> s \<le> x_start e"
    and "distinct (map x_addr D)"
  shows "\<exists>hit keep freed. rb_remove_right s c D = (hit, keep, freed) \<and> rb_wf M keep \<and>
    rb_bits keep = rb_bits D - {s..<s + c} \<and> (rb_bits D \<inter> {s..<s + c} \<noteq> {} \<longrightarrow> hit) \<and> set freed \<subseteq> set D \<and>
    map x_addr keep = filter (\<lambda>a. a \<notin> x_addr ` set freed) (map x_addr D) \<and>
    (\<forall>a. (\<forall>f \<in> set D. rb_before a f) \<longrightarrow> (\<forall>f \<in> set keep. rb_before a f))"
  using assms
proof (induction D)
  case Nil
  have "rb_remove_right s c [] = (False, [], [])" by simp
  then show ?case by fastforce
next
  case (Cons e es)
  from Cons.prems have wf: "0 < x_count e" "x_start e + x_count e \<le> M" "\<forall>f \<in> set es. rb_before e f" "rb_wf M es"
    and d: "x_addr e \<notin> x_addr ` set es" "distinct (map x_addr es)" by (auto simp: rb_wf_Cons)
  have xe: "x_end e = x_start e + x_count e" and sc: "add64 s c = s + c"
    using Cons.prems wf by (simp_all add: add64_nowrap)
  obtain hit keep freed where IH: "rb_remove_right s c es = (hit, keep, freed)" "rb_wf M keep"
    "rb_bits keep = rb_bits es - {s..<s + c}" "rb_bits es \<inter> {s..<s + c} \<noteq> {} \<longrightarrow> hit" "set freed \<subseteq> set es"
    "map x_addr keep = filter (\<lambda>a. a \<notin> x_addr ` set freed) (map x_addr es)"
    "\<forall>a. (\<forall>f \<in> set es. rb_before a f) \<longrightarrow> (\<forall>f \<in> set keep. rb_before a f)"
    using Cons.IH wf(4) d(2) Cons.prems by (auto simp del: Int_iff)
  consider "x_start e + x_count e \<le> s" | "s \<le> x_start e" "s + c < x_start e"
    | "s \<le> x_start e" "x_start e \<le> s + c" "x_start e + x_count e \<le> s + c"
    | "s \<le> x_start e" "x_start e \<le> s + c" "s + c < x_start e + x_count e"
    using Cons.prems(4) by fastforce
  then show ?case
  proof cases
    case 1
    have eq: "rb_remove_right s c (e # es) = (hit, e # keep, freed)" using 1 xe IH(1) by simp
    have fr: "x_addr e \<notin> x_addr ` set freed" using IH(5) d(1) by blast
    have b: "{x_start e..<x_start e + x_count e} \<inter> {s..<s + c} = {}" using 1 by auto
    show ?thesis unfolding eq
      using IH(2-7) wf fr b by (auto simp: rb_wf_Cons)
  next
    case 2
    have eq: "rb_remove_right s c (e # es) = (False, e # es, [])" using 2 xe sc wf by simp
    have "rb_bits (e # es) \<inter> {s..<s + c} = {}" using 2 wf by (auto simp: rb_bits_iff rb_before_def) fastforce
    then show ?thesis unfolding eq using Cons.prems(1) by auto
  next
    case 3
    have eq: "rb_remove_right s c (e # es) = (True, keep, e # freed)" using 3 xe sc wf IH(1) by simp
    have "filter (\<lambda>a. a \<noteq> x_addr e \<and> a \<notin> x_addr ` set freed) (map x_addr es) =
      filter (\<lambda>a. a \<notin> x_addr ` set freed) (map x_addr es)"
      using d(1) by (intro filter_cong [OF refl]) (metis list.set_map)
    moreover have "{x_start e..<x_start e + x_count e} \<subseteq> {s..<s + c}" using 3 by auto
    ultimately show ?thesis unfolding eq using IH(2-7) by auto
  next
    case 4
    let ?e = "e\<lparr>x_count := x_count e - (s + c - x_start e), x_start := s + c\<rparr>"
    have eq: "rb_remove_right s c (e # es) = (True, ?e # es, [])"
      using 4 xe sc wf Cons.prems by (simp add: u64_simps)
    have nd: "rb_bits es \<inter> {s..<s + c} = {}" using 4 wf by (auto simp: rb_bits_iff rb_before_def) fastforce
    have "x_start ?e + x_count ?e = x_start e + x_count e" using 4 by simp
    then have "rb_wf M (?e # es)" using wf 4 unfolding rb_wf_Cons by (simp add: rb_before_def add.commute)
    moreover have "rb_bits (?e # es) = rb_bits (e # es) - {s..<s + c}"
      using 4 nd by auto
    moreover have "rb_before a ?e" if "rb_before a e" for a using that 4 by (simp add: rb_before_def)
    ultimately show ?thesis unfolding eq by auto
  qed
qed

lemma rb_remove_from_spec:
  assumes "rb_ok M bp" "M < W64" "s + c \<le> M"
    and "\<forall>e \<in> set (take j (root bp)). x_start e + x_count e \<le> s"
    and "\<forall>e \<in> set (drop j (root bp)). x_start e + x_count e \<le> s \<or> s \<le> x_start e"
  shows "\<exists>r' bp'. rb_remove_from j r s c bp = (r', bp') \<and> rb_ok M bp' \<and>
    rb_bits (root bp') = rb_bits (root bp) - {s..<s + c} \<and>
    (r \<noteq> 0 \<or> rb_bits (root bp) \<inter> {s..<s + c} \<noteq> {} \<longrightarrow> r' \<noteq> 0)"
proof -
  define A where "A = take j (root bp)"
  define D where "D = drop j (root bp)"
  have root: "root bp = A @ D" by (simp add: A_def D_def)
  have wf: "rb_wf M A" "rb_wf M D" "\<forall>a \<in> set A. \<forall>b \<in> set D. rb_before a b" and cur: "rb_cur bp"
    using assms(1) by (auto simp: rb_ok_def root rb_wf_append)
  have dist: "distinct (map x_addr A @ map x_addr D)" using cur by (simp add: rb_cur_def Let_def root)
  have dD: "distinct (map x_addr D)" using dist by simp
  obtain hit keep freed where m: "rb_remove_right s c D = (hit, keep, freed)" "rb_wf M keep"
    "rb_bits keep = rb_bits D - {s..<s + c}" "rb_bits D \<inter> {s..<s + c} \<noteq> {} \<longrightarrow> hit" "set freed \<subseteq> set D"
    "map x_addr keep = filter (\<lambda>a. a \<notin> x_addr ` set freed) (map x_addr D)"
    "\<forall>a. (\<forall>f \<in> set D. rb_before a f) \<longrightarrow> (\<forall>f \<in> set keep. rb_before a f)"
    using rb_remove_right_spec [OF wf(2) assms(2,3) assms(5) [folded D_def] dD] by blast
  have eq: "rb_remove_from j r s c bp = (if hit then 1 else r, (rb_free_all freed bp)\<lparr>root := A @ keep\<rparr>)"
    by (simp add: rb_remove_from_def A_def [symmetric] D_def [symmetric] m(1))
  have "filter (\<lambda>a. a \<notin> x_addr ` set freed) (map x_addr A) = map x_addr A"
    using dist m(5) by (intro filter_True) auto
  then have "rb_cur ((rb_free_all freed bp)\<lparr>root := A @ keep\<rparr>)"
    by (intro rb_cur_free [OF cur]) (simp add: root m(6))
  moreover have "rb_wf M (A @ keep)" using wf m(2,7) by (auto simp: rb_wf_append)
  moreover have nA: "rb_bits A \<inter> {s..<s + c} = {}"
    using assms(4) unfolding A_def by (auto simp: rb_bits_iff) fastforce
  ultimately show ?thesis using m(3,4) unfolding eq by (auto simp: rb_ok_def root)
qed

text \<open>Changing an extent in place: it may only shrink.\<close>

lemma rb_shrink:
  assumes "rb_ok M bp" "i < length (root bp)" "x_addr e' = x_addr (root bp ! i)" "0 < x_count e'"
    and "x_start (root bp ! i) \<le> x_start e'"
      "x_start e' + x_count e' \<le> x_start (root bp ! i) + x_count (root bp ! i)"
  shows "rb_ok M (bp\<lparr>root := (root bp)[i := e']\<rparr>)"
    "rb_bits ((root bp)[i := e']) = rb_bits (root bp) -
       ({x_start (root bp ! i)..<x_start (root bp ! i) + x_count (root bp ! i)} - {x_start e'..<x_start e' + x_count e'})"
proof -
  let ?e = "root bp ! i"
  define A where "A = take i (root bp)"
  define R where "R = drop (Suc i) (root bp)"
  have split: "root bp = A @ ?e # R" unfolding A_def R_def by (rule rb_split_nth [OF assms(2)])
  have upd: "(root bp)[i := e'] = A @ e' # R" using assms(2) by (simp add: upd_conv_take_nth_drop A_def R_def)
  have wf: "rb_wf M (A @ ?e # R)" and cur: "rb_cur bp" using assms(1) split by (simp_all add: rb_ok_def)
  have "rb_wf M (A @ e' # R)"
    using wf assms(4-6) by (fastforce simp: rb_wf_append rb_wf_Cons rb_before_def)
  moreover have "map x_addr (A @ e' # R) = map x_addr (root bp)" by (subst split) (simp add: assms(3))
  ultimately show "rb_ok M (bp\<lparr>root := (root bp)[i := e']\<rparr>)"
    using cur by (simp add: rb_ok_def rb_cur_def Let_def upd)
  have "n \<notin> rb_bits A \<and> n \<notin> rb_bits R" if "x_start ?e \<le> n" "n < x_start ?e + x_count ?e" for n
    using wf that by (auto simp: rb_wf_append rb_wf_Cons rb_before_def rb_bits_iff)
  then have "rb_bits (A @ e' # R) = rb_bits (A @ ?e # R) -
       ({x_start ?e..<x_start ?e + x_count ?e} - {x_start e'..<x_start e' + x_count e'})"
    using assms(5,6) by auto
  then show "rb_bits ((root bp)[i := e']) = rb_bits (root bp) -
       ({x_start ?e..<x_start ?e + x_count ?e} - {x_start e'..<x_start e' + x_count e'})"
    unfolding upd using split by metis
qed

lemma rb_parent_bounds:
  assumes "i \<le> length xs" "xs \<noteq> []"
  shows "rb_parent shape xs i \<le> i" "rb_parent shape xs i < length xs" "i \<le> Suc (rb_parent shape xs i)"
proof -
  have "0 < length xs" using assms(2) by simp
  with assms(1) show "rb_parent shape xs i \<le> i" "rb_parent shape xs i < length xs" "i \<le> Suc (rb_parent shape xs i)"
    unfolding rb_parent_def by auto
qed

lemma set_drop_Suc:
  assumes "p \<le> i" "i \<le> Suc p" "e \<in> set (drop p xs)"
  shows "e \<in> set (take i xs) \<or> e \<in> set (drop i xs)"
proof -
  have "e \<in> set (take i xs @ drop i xs)" using in_set_dropD [OF assms(3)] by simp
  then show ?thesis unfolding set_append by blast
qed

lemma rb_remove_between:
  assumes "rb_ok M bp" "M < W64" "s + c \<le> M" "i \<le> length (root bp)" "root bp \<noteq> []"
    and left: "\<forall>e \<in> set (take i (root bp)). x_start e + x_count e \<le> s"
    and right: "\<forall>e \<in> set (drop i (root bp)). s \<le> x_start e"
  shows "\<exists>r' bp'. rb_remove_from (rb_parent shape (root bp) i) r s c bp = (r', bp') \<and> rb_ok M bp' \<and>
    rb_bits (root bp') = rb_bits (root bp) - {s..<s + c} \<and>
    (r \<noteq> 0 \<or> rb_bits (root bp) \<inter> {s..<s + c} \<noteq> {} \<longrightarrow> r' \<noteq> 0)"
proof (rule rb_remove_from_spec [OF assms(1-3)])
  note p = rb_parent_bounds [OF assms(4,5), of shape]
  show "\<forall>e \<in> set (take (rb_parent shape (root bp) i) (root bp)). x_start e + x_count e \<le> s"
    by (intro ballI bspec [OF left] subsetD [OF set_take_subset_set_take [OF p(1)]])
  show "\<forall>e \<in> set (drop (rb_parent shape (root bp) i) (root bp)). x_start e + x_count e \<le> s \<or> s \<le> x_start e"
  proof
    fix e
    assume "e \<in> set (drop (rb_parent shape (root bp) i) (root bp))"
    from set_drop_Suc [OF p(1,3) this] show "x_start e + x_count e \<le> s \<or> s \<le> x_start e"
      using bspec [OF left] bspec [OF right] by auto
  qed
qed

text \<open>The branches of \<^verbatim>\<open>rb_remove_extent\<close> for a descent that matched extent \<open>i\<close>.\<close>

lemma rb_remove_hit_split:
  assumes "rb_ok M bp" "M < W64" "i < length (root bp)" "0 < c"
    and "x_start (root bp ! i) < s" "s + c < x_start (root bp ! i) + x_count (root bp ! i)"
  defines "e \<equiv> root bp ! i"
  shows "\<exists>r bp'. rb_insert_extent (s + c) (x_start e + x_count e - (s + c))
      (bp\<lparr>root := (root bp)[i := e\<lparr>x_count := s - x_start e\<rparr>]\<rparr>) = Some (r, bp') \<and> rb_ok M bp' \<and>
      rb_bits (root bp') = rb_bits (root bp) - {s..<s + c}"
proof -
  let ?e = "e\<lparr>x_count := s - x_start e\<rparr>"
  let ?bp = "bp\<lparr>root := (root bp)[i := ?e]\<rparr>"
  have M: "x_start e + x_count e \<le> M" using assms(1,3) by (auto simp: rb_ok_def rb_wf_def e_def)
  have sh: "rb_ok M ?bp" "rb_bits (root ?bp) = rb_bits (root bp) -
     ({x_start e..<x_start e + x_count e} - {x_start e..<s})"
    using rb_shrink [OF assms(1,3), of ?e] assms(5,6) by (simp_all add: e_def)
  have in_e: "{x_start e..<x_start e + x_count e} \<subseteq> rb_bits (root bp)"
    using nth_mem [OF assms(3)] unfolding rb_bits_def e_def by blast
  from rb_insert_extent_spec [OF sh(1) assms(2), of "x_start e + x_count e - (s + c)" "s + c"] assms(6) M
  obtain r bp' where r: "rb_insert_extent (s + c) (x_start e + x_count e - (s + c)) ?bp = Some (r, bp')"
    "rb_ok M bp'" "rb_bits (root bp') = rb_bits (root ?bp) \<union> {s + c..<x_start e + x_count e}"
    by (auto simp: e_def)
  have "rb_bits (root bp') = rb_bits (root bp) - {s..<s + c}"
    unfolding r(3) sh(2) using in_e assms(5,6) by (fastforce simp: e_def)
  with r(1,2) show ?thesis by blast
qed

lemma rb_remove_hit_whole:
  assumes "rb_ok M bp" "M < W64" "i < length (root bp)" "s + c \<le> M"
    and "x_start (root bp ! i) = s" "s + c \<ge> x_start (root bp ! i) + x_count (root bp ! i)"
    and "\<forall>e \<in> set (take i (root bp)). x_start e + x_count e \<le> s"
  shows "\<exists>r bp'. rb_remove_from i 1 s c ((rb_free_extent (x_addr (root bp ! i)) bp)
      \<lparr>root := take i (root bp) @ drop (Suc i) (root bp)\<rparr>) = (r, bp') \<and> rb_ok M bp' \<and>
      rb_bits (root bp') = rb_bits (root bp) - {s..<s + c} \<and> r \<noteq> 0"
proof -
  let ?e = "root bp ! i"
  define A where "A = take i (root bp)"
  define R where "R = drop (Suc i) (root bp)"
  have split: "root bp = A @ ?e # R" unfolding A_def R_def by (rule rb_split_nth [OF assms(3)])
  let ?bp = "(rb_free_extent (x_addr ?e) bp)\<lparr>root := A @ R\<rparr>"
  have wf: "rb_wf M (A @ ?e # R)" and cur: "rb_cur bp" using assms(1) split by (simp_all add: rb_ok_def)
  have "?bp = (rb_free_all [?e] bp)\<lparr>root := A @ R\<rparr>" by (simp add: rb_free_all_def)
  then have "rb_cur ?bp" using rb_cur_free_middle [OF cur, of A "[?e]" R A R] split by simp
  moreover have "rb_wf M (A @ R)" using wf by (auto simp: rb_wf_append rb_wf_Cons)
  ultimately have ok: "rb_ok M ?bp" by (simp add: rb_ok_def)
  have i: "take i (A @ R) = A" "drop i (A @ R) = R" using assms(3) by (simp_all add: A_def)
  have R: "\<forall>e \<in> set R. s \<le> x_start e" using wf assms(5) by (auto simp: rb_wf_append rb_wf_Cons rb_before_def)
  have sel: "root ?bp = A @ R" by simp
  have "\<exists>r' bp'. rb_remove_from i 1 s c ?bp = (r', bp') \<and> rb_ok M bp' \<and>
    rb_bits (root bp') = rb_bits (root ?bp) - {s..<s + c} \<and>
    ((1::int) \<noteq> 0 \<or> rb_bits (root ?bp) \<inter> {s..<s + c} \<noteq> {} \<longrightarrow> r' \<noteq> 0)"
    using assms(7) R by (intro rb_remove_from_spec [OF ok assms(2,4)]) (simp_all only: sel i A_def [symmetric], blast+)
  moreover have "rb_bits (root ?bp) - {s..<s + c} = rb_bits (root bp) - {s..<s + c}"
    by (subst (2) split) (use assms(5,6) in auto)
  ultimately show ?thesis by (simp add: A_def R_def)
qed

lemma rb_remove_hit_tail:
  assumes "rb_ok M bp" "M < W64" "i < length (root bp)" "s + c \<le> M"
    and "x_start (root bp ! i) < s" "s < x_start (root bp ! i) + x_count (root bp ! i)"
      "s + c \<ge> x_start (root bp ! i) + x_count (root bp ! i)"
    and "\<forall>e \<in> set (take i (root bp)). x_start e + x_count e \<le> s"
  defines "e \<equiv> root bp ! i"
  defines "ys \<equiv> (root bp)[i := e\<lparr>x_count := s - x_start e\<rparr>]"
  shows "\<exists>r bp'. rb_remove_from (rb_parent shape ys (Suc i)) 1 s c (bp\<lparr>root := ys\<rparr>) = (r, bp') \<and> rb_ok M bp' \<and>
      rb_bits (root bp') = rb_bits (root bp) - {s..<s + c} \<and> r \<noteq> 0"
proof -
  let ?e = "e\<lparr>x_count := s - x_start e\<rparr>"
  let ?bp = "bp\<lparr>root := ys\<rparr>"
  have sh: "rb_ok M ?bp" "rb_bits (root ?bp) = rb_bits (root bp) - ({x_start e..<x_start e + x_count e} - {x_start e..<s})"
    using rb_shrink [OF assms(1,3), of ?e] assms(5-7) by (simp_all add: e_def ys_def)
  have upd: "ys = take i (root bp) @ ?e # drop (Suc i) (root bp)"
    unfolding ys_def by (rule upd_conv_take_nth_drop [OF assms(3)])
  have tk: "take (Suc i) ys = take i (root bp) @ [?e]" "drop (Suc i) ys = drop (Suc i) (root bp)"
    using assms(3) by (simp_all add: upd)
  have left: "\<forall>e \<in> set (take (Suc i) (root ?bp)). x_start e + x_count e \<le> s"
    using assms(5,8) by (simp add: tk e_def)
  have "rb_wf M (take i (root bp) @ e # drop (Suc i) (root bp))"
    using assms(1) rb_split_nth [OF assms(3)] by (simp add: rb_ok_def e_def)
  then have right: "\<forall>f \<in> set (drop (Suc i) (root ?bp)). s \<le> x_start f"
    using assms(6) by (auto simp: tk rb_wf_append rb_wf_Cons rb_before_def e_def)
  have "Suc i \<le> length (root ?bp)" "root ?bp \<noteq> []" using assms(3) by (auto simp: ys_def)
  from rb_remove_between [OF sh(1) assms(2,4) this left right, of shape 1]
  obtain r bp' where r: "rb_remove_from (rb_parent shape ys (Suc i)) 1 s c ?bp = (r, bp')" "rb_ok M bp'"
    "rb_bits (root bp') = rb_bits (root ?bp) - {s..<s + c}" "r \<noteq> 0" by auto
  have "rb_bits (root bp') = rb_bits (root bp) - {s..<s + c}"
    unfolding r(3) sh(2) using assms(5-7) by (fastforce simp: e_def)
  with r show ?thesis by blast
qed

lemma rb_remove_extent_spec:
  assumes "rb_ok M bp" "M < W64" "0 < c" "s + c \<le> M"
  shows "\<exists>r bp'. rb_remove_extent shape s c bp = Some (r, bp') \<and> rb_ok M bp' \<and>
    rb_bits (root bp') = rb_bits (root bp) - {s..<s + c} \<and> (rb_bits (root bp) \<inter> {s..<s + c} \<noteq> {} \<longrightarrow> r \<noteq> 0)"
proof (cases "root bp = []")
  case True
  then show ?thesis using assms(1) by (simp add: rb_remove_extent_def)
next
  case False
  have wf: "rb_wf M (root bp)" using assms(1) by (simp add: rb_ok_def)
  let ?desc = "rb_descend (\<lambda>e. s < x_start e) (\<lambda>e. s \<ge> x_end e) (root bp)"
  obtain i m where im: "?desc = (i, m)" by (cases ?desc)
  note d = rb_descend_bit [OF im wf assms(2)]
  have sc: "add64 s c = s + c" using assms by (simp add: add64_nowrap)
  show ?thesis
  proof (cases m)
    case m: False
    have "\<forall>e \<in> set (drop i (root bp)). s \<le> x_start e" using d(4) [OF m] by auto
    from rb_remove_between [OF assms(1,2,4) rb_descend_cases(1) [OF im] False d(3) this, of shape 0]
    show ?thesis using False im m by (simp add: rb_remove_extent_def)
  next
    case m: True
    let ?e = "root bp ! i"
    have i: "i < length (root bp)" "x_start ?e \<le> s" "s < x_start ?e + x_count ?e" using d(2) [OF m] by auto
    have M: "x_start ?e + x_count ?e \<le> M" using wf i(1) by (auto simp: rb_wf_def)
    have xe: "x_end ?e = x_start ?e + x_count ?e" using x_end_wf [OF wf assms(2) nth_mem [OF i(1)]] .
    have cnt: "sub64 s (x_start ?e) = s - x_start ?e" using i assms(2) M by (simp add: sub64_nowrap)
    note eqs = rb_remove_extent_def Let_def im m False sc xe cnt
    consider "x_start ?e < s" "s + c < x_start ?e + x_count ?e"
      | "x_start ?e = s" "x_start ?e + x_count ?e \<le> s + c"
      | "x_start ?e < s" "x_start ?e + x_count ?e \<le> s + c"
      | "x_start ?e = s" "s + c < x_start ?e + x_count ?e" using i by linarith
    then show ?thesis
    proof cases
      case 1
      have "sub64 (x_start ?e + x_count ?e) (s + c) = x_start ?e + x_count ?e - (s + c)"
        using 1 M assms(2) by (simp add: sub64_nowrap)
      with 1 have "rb_remove_extent shape s c bp =
          do { (_, bp2) \<leftarrow> rb_insert_extent (s + c) (x_start ?e + x_count ?e - (s + c))
                 (bp\<lparr>root := (root bp)[i := ?e\<lparr>x_count := s - x_start ?e\<rparr>]\<rparr>); Some (1, bp2) }" by (simp add: eqs)
      moreover note rb_remove_hit_split [OF assms(1,2) i(1) assms(3) 1]
      ultimately show ?thesis by (elim exE conjE) simp
    next
      case 2
      have "add64 s (x_count ?e) = s + x_count ?e" "sub64 s s = 0" using 2 xe cnt by simp_all
      with 2 have "rb_remove_extent shape s c bp = Some (rb_remove_from i 1 s c ((rb_free_extent (x_addr ?e) bp)
          \<lparr>root := take i (root bp) @ drop (Suc i) (root bp)\<rparr>))" by (simp add: eqs)
      moreover note rb_remove_hit_whole [OF assms(1,2) i(1) assms(4) 2 d(3)]
      ultimately show ?thesis by (elim exE conjE) simp
    next
      case 3
      let ?ys = "(root bp)[i := ?e\<lparr>x_count := s - x_start ?e\<rparr>]"
      have "rb_remove_extent shape s c bp =
          Some (rb_remove_from (rb_parent shape ?ys (Suc i)) 1 s c (bp\<lparr>root := ?ys\<rparr>))" using 3 by (simp add: eqs)
      moreover note rb_remove_hit_tail [OF assms(1,2) i(1) assms(4) 3(1) i(3) 3(2) d(3), of shape]
      ultimately show ?thesis by (elim exE conjE) simp
    next
      case 4
      let ?e' = "?e\<lparr>x_start := s + c, x_count := x_count ?e - c\<rparr>"
      have "rb_remove_extent shape s c bp = Some (1, bp\<lparr>root := (root bp)[i := ?e']\<rparr>)"
        using 4 M assms i by (auto simp: eqs u64_simps)
      moreover have "{x_start ?e..<x_start ?e + x_count ?e} - {s + c..<s + c + (x_count ?e - c)} = {s..<s + c}"
        using 4 i by auto
      ultimately show ?thesis using rb_shrink [OF assms(1) i(1), of ?e'] 4 by simp
    qed
  qed
qed

section \<open>Testing a bit\<close>

lemma rb_search_tree_spec:
  assumes "rb_ok M bp" "M < W64"
  shows "\<exists>r bp'. rb_search_tree bp s = (r, bp') \<and> rb_ok M bp' \<and> root bp' = root bp \<and>
    (r \<noteq> 0 \<longleftrightarrow> s \<in> rb_bits (root bp))"
proof -
  have wf: "rb_wf M (root bp)" using assms(1) by (simp add: rb_ok_def)
  let ?desc = "rb_descend (\<lambda>e. s < x_start e) (\<lambda>e. s \<ge> x_end e) (root bp)"
  obtain i m where im: "?desc = (i, m)" by (cases ?desc)
  note d = rb_descend_bit [OF im wf assms(2)]
  show ?thesis
  proof (cases m)
    case True
    then have "x_addr (root bp ! i) \<in> set (map x_addr (root bp))" using d(2) by simp
    with True d(1) assms(1) show ?thesis by (simp add: rb_search_tree_def im rb_ok_def rb_cur_def Let_def)
  qed (use d(1) assms(1) in \<open>simp add: rb_search_tree_def im\<close>)
qed

lemma rb_test_wcursor_spec:
  assumes "rb_ok M bp" "M < W64"
  shows "\<exists>r bp'. rb_test_wcursor bp s = Some (r, bp') \<and> rb_ok M bp' \<and> root bp' = root bp \<and>
    (r \<noteq> 0 \<longleftrightarrow> s \<in> rb_bits (root bp))"
proof (cases "wcursor bp")
  case None
  then show ?thesis using rb_search_tree_spec [OF assms] by (simp add: rb_test_wcursor_def)
next
  case (Some w)
  have d: "distinct (map x_addr (root bp))" "w \<in> set (map x_addr (root bp))"
    using assms(1) Some unfolding rb_ok_def rb_cur_def Let_def by blast+
  obtain i where i: "i < length (root bp)" "x_addr (root bp ! i) = w" using d(2) by (rule rb_addr_index)
  have der: "rb_deref (root bp) w = Some (root bp ! i)" using rb_deref_nth [OF d(1) i(1)] i(2) by simp
  have "x_end (root bp ! i) = x_start (root bp ! i) + x_count (root bp ! i)"
    using x_end_wf assms nth_mem [OF i(1)] unfolding rb_ok_def by blast
  then have "s \<in> rb_bits (root bp)" if "rb_in s (root bp ! i)"
    using that nth_mem [OF i(1)] by (auto simp: rb_bits_iff rb_in_def)
  then show ?thesis
    using rb_search_tree_spec [OF assms, of s] assms(1)
    by (cases "rb_in s (root bp ! i)") (simp_all add: rb_test_wcursor_def Some der)
qed

lemma rb_next_middle:
  assumes "distinct (map x_addr (A @ e # R))"
  shows "rb_next (A @ e # R) (x_addr e) = (case R of [] \<Rightarrow> None | f # _ \<Rightarrow> Some (x_addr f))"
  using assms
proof (induction A)
  case Nil
  then show ?case by (cases R) simp_all
next
  case (Cons a A)
  then show ?case by (cases A) (auto split: list.splits)
qed

lemma rb_gap_empty:
  assumes "rb_wf M (A @ e # f # R)" "x_start e + x_count e \<le> n" "n < x_start f"
  shows "n \<notin> rb_bits (A @ e # f # R)"
  using assms by (fastforce simp: rb_wf_append rb_wf_Cons rb_before_def rb_bits_iff)

lemma map_eq_append_two:
  assumes "map g xs = us @ a # b # vs"
  obtains A e f R where "xs = A @ e # f # R" "g e = a" "g f = b"
  using assms by (auto simp: map_eq_append_conv map_eq_Cons_conv)

text \<open>The read cursor's successor, as \<^verbatim>\<open>rb_test_bit\<close> computes or caches it.\<close>

lemma rb_cursor_next:
  assumes "rb_ok M bp" "rcursor bp = Some rc"
    and nx: "nx = (case rcursor_next bp of None \<Rightarrow> rb_next (root bp) rc | Some a \<Rightarrow> Some a)"
  shows "rb_ok M (bp\<lparr>rcursor_next := nx\<rparr>)"
    "nx = Some a \<Longrightarrow> \<exists>A e f R. root bp = A @ e # f # R \<and> x_addr e = rc \<and> x_addr f = a"
proof -
  let ?as = "map x_addr (root bp)"
  have c: "distinct ?as" "rc \<in> set ?as" "\<And>b. rcursor_next bp = Some b \<Longrightarrow> \<exists>ys zs. ?as = ys @ rc # b # zs"
    using assms(1,2) unfolding rb_ok_def rb_cur_def Let_def by blast+
  have ex: "\<exists>ys zs. ?as = ys @ rc # b # zs" if "nx = Some b" for b
  proof (cases "rcursor_next bp")
    case None
    obtain i where i: "i < length (root bp)" "x_addr (root bp ! i) = rc" using c(2) by (rule rb_addr_index)
    have sp: "root bp = take i (root bp) @ root bp ! i # drop (Suc i) (root bp)" by (rule rb_split_nth [OF i(1)])
    have "Some b = (case drop (Suc i) (root bp) of [] \<Rightarrow> None | f # _ \<Rightarrow> Some (x_addr f))"
      using rb_next_middle [of "take i (root bp)" "root bp ! i" "drop (Suc i) (root bp)"] sp c(1) i(2) that None nx by simp
    then obtain f R where f: "drop (Suc i) (root bp) = f # R" "x_addr f = b" by (auto split: list.splits)
    have "?as = map x_addr (take i (root bp)) @ rc # b # map x_addr R" by (subst sp) (simp add: f i(2))
    then show ?thesis by blast
  qed (use c(3) that nx in simp)
  then show "rb_ok M (bp\<lparr>rcursor_next := nx\<rparr>)"
    using assms(1,2) unfolding rb_ok_def rb_cur_def Let_def by simp
  show "\<exists>A e f R. root bp = A @ e # f # R \<and> x_addr e = rc \<and> x_addr f = a" if "nx = Some a"
  proof -
    from ex [OF that] obtain us vs where "?as = us @ rc # a # vs" by (elim exE)
    then obtain A e f R where "root bp = A @ e # f # R" "x_addr e = rc" "x_addr f = a" by (rule map_eq_append_two)
    then show ?thesis by (intro exI conjI)
  qed
qed

lemma rb_test_bit_spec:
  assumes "rb_ok M bp" "M < W64"
  shows "\<exists>r bp'. rb_test_bit bp s = Some (r, bp') \<and> rb_ok M bp' \<and> root bp' = root bp \<and>
    (r \<noteq> 0 \<longleftrightarrow> s \<in> rb_bits (root bp))"
proof (cases "rcursor bp")
  case None
  then show ?thesis using rb_search_tree_spec [OF assms] by (simp add: rb_test_bit_def)
next
  case (Some rc)
  have wf: "rb_wf M (root bp)" using assms(1) by (simp add: rb_ok_def)
  have d: "distinct (map x_addr (root bp))" "rc \<in> set (map x_addr (root bp))"
    using assms(1) Some unfolding rb_ok_def rb_cur_def Let_def by blast+
  obtain i where i: "i < length (root bp)" "x_addr (root bp ! i) = rc" using d(2) by (rule rb_addr_index)
  let ?re = "root bp ! i"
  have der: "rb_deref (root bp) rc = Some ?re" using rb_deref_nth [OF d(1) i(1)] i(2) by simp
  have xr: "x_end ?re = x_start ?re + x_count ?re" by (rule x_end_wf [OF wf assms(2) nth_mem [OF i(1)]])
  define nx where "nx = (case rcursor_next bp of None \<Rightarrow> rb_next (root bp) rc | Some a \<Rightarrow> Some a)"
  note cn = rb_cursor_next [OF assms(1) Some nx_def]
  let ?bp1 = "bp\<lparr>rcursor_next := nx\<rparr>"
  have ok2: "rb_ok M (?bp1\<lparr>rcursor := None, rcursor_next := None\<rparr>)"
    using assms(1) by (simp add: rb_ok_def rb_cur_def Let_def)
  note w = rb_test_wcursor_spec [OF ok2 assms(2), of s]
  have hit: "\<exists>h. (case nx of None \<Rightarrow> Some False
      | Some a \<Rightarrow> do { ne \<leftarrow> rb_deref (root bp) a; Some (s \<ge> x_end ?re \<and> s < x_start ne) }) = Some h \<and>
      (h \<longrightarrow> s \<notin> rb_bits (root bp))"
  proof (cases nx)
    case (Some a)
    from cn(2) [OF Some] obtain A e f R where r: "root bp = A @ e # f # R" "x_addr e = rc" "x_addr f = a"
      by (elim exE conjE)
    have re: "e = ?re" using der rb_deref_nth [OF d(1), of "length A"] r by simp
    have "rb_deref (root bp) a = Some f" using rb_deref_nth [OF d(1), of "Suc (length A)"] r by (simp add: nth_append)
    with rb_gap_empty [OF wf [unfolded r(1)], folded r(1), of s, unfolded re]
    show ?thesis by (simp add: Some xr)
  qed auto
  then obtain h where h: "(case nx of None \<Rightarrow> Some False
      | Some a \<Rightarrow> do { ne \<leftarrow> rb_deref (root bp) a; Some (s \<ge> x_end ?re \<and> s < x_start ne) }) = Some h"
    "h \<longrightarrow> s \<notin> rb_bits (root bp)" by blast
  have eq: "rb_test_bit bp s = (if rb_in s ?re then Some (1, bp) else if h then Some (0, ?bp1)
      else rb_test_wcursor (?bp1\<lparr>rcursor := None, rcursor_next := None\<rparr>) s)"
    unfolding rb_test_bit_def Some option.case nx_def [symmetric]
    by (cases nx) (use h(1) in \<open>auto simp: der Let_def Option.bind_eq_Some_conv\<close>)
  have "s \<in> rb_bits (root bp)" if "rb_in s ?re"
    using that nth_mem [OF i(1)] xr by (auto simp: rb_bits_iff rb_in_def)
  then show ?thesis
    using eq h(2) w cn(1) assms(1) by (cases "rb_in s ?re"; cases h) simp_all
qed

section \<open>Searches\<close>

lemma rb_clear_scan_spec:
  assumes "rb_wf M D" "M < W64" "0 < len" "s + len \<le> M"
  shows "rb_clear_scan s len D \<noteq> 0 \<longleftrightarrow> rb_bits D \<inter> {s..<s + len} = {}"
  using assms
proof (induction D)
  case Nil
  then show ?case by simp
next
  case (Cons e es)
  have wf: "0 < x_count e" "\<forall>f \<in> set es. rb_before e f" "rb_wf M es" "x_start e + x_count e \<le> M"
    using Cons.prems(1) by (auto simp: rb_wf_Cons)
  have xe: "x_end e = x_start e + x_count e" and sl: "add64 s len = s + len"
    using wf Cons.prems by (simp_all add: add64_nowrap)
  consider "x_start e + x_count e \<le> s" | "s < x_start e + x_count e" "s + len \<le> x_start e"
    | "s < x_start e + x_count e" "x_start e < s + len" by linarith
  then show ?case
  proof cases
    case 1
    then have "rb_bits (e # es) \<inter> {s..<s + len} = rb_bits es \<inter> {s..<s + len}" by auto
    with 1 xe Cons.IH wf Cons.prems show ?thesis by simp
  next
    case 2
    then have "rb_bits (e # es) \<inter> {s..<s + len} = {}"
      using wf by (auto simp: rb_bits_iff rb_before_def) fastforce
    with 2 xe sl show ?thesis by (simp del: rb_bits_simps)
  next
    case 3
    then have "max s (x_start e) \<in> rb_bits (e # es) \<inter> {s..<s + len}" using wf Cons.prems(3) by auto
    with 3 xe sl show ?thesis by (auto simp del: rb_bits_simps)
  qed
qed

lemma rb_skip_left:
  assumes "\<forall>e \<in> set (take i xs). x_start e + x_count e \<le> s" "s \<le> n"
  shows "n \<in> rb_bits xs \<longleftrightarrow> n \<in> rb_bits (drop i xs)"
proof -
  have "n \<notin> rb_bits (take i xs)" using assms by (fastforce simp: rb_bits_iff)
  then show ?thesis using rb_bits_simps(3) [of "take i xs" "drop i xs"] by auto
qed

text \<open>The extent at the end of a descent that did not match is the first one right of \<open>s\<close>.\<close>

lemma rb_first_right:
  assumes "rb_wf M xs" "\<forall>e \<in> set (take i xs). x_start e + x_count e \<le> s" "\<forall>e \<in> set (drop i xs). s < x_start e"
  shows "i < length xs \<Longrightarrow> first_in (\<lambda>k. k \<in> rb_bits xs) s (x_start (xs ! i)) (Inr (x_start (xs ! i)))"
    "\<not> i < length xs \<Longrightarrow> s \<le> n \<Longrightarrow> n \<notin> rb_bits xs"
proof -
  show "n \<notin> rb_bits xs" if "\<not> i < length xs" "s \<le> n" using rb_skip_left [OF assms(2) that(2)] that(1) by simp
  assume i: "i < length xs"
  have D: "drop i xs = xs ! i # drop (Suc i) xs" using i by (simp add: Cons_nth_drop_Suc)
  have "rb_wf M (xs ! i # drop (Suc i) xs)" using rb_wf_take_drop(2) [OF assms(1), of i] D by simp
  then have "k \<notin> rb_bits (drop i xs)" if "k < x_start (xs ! i)" for k
    using that unfolding D by (fastforce simp: rb_wf_Cons rb_before_def rb_bits_iff)
  moreover have "x_start (xs ! i) \<in> rb_bits xs"
    using assms(1) nth_mem [OF i] by (fastforce simp: rb_bits_iff rb_wf_def)
  moreover have "s < x_start (xs ! i)" using assms(3) D by simp
  ultimately show "first_in (\<lambda>k. k \<in> rb_bits xs) s (x_start (xs ! i)) (Inr (x_start (xs ! i)))"
    using rb_skip_left [OF assms(2)] by (auto simp: first_in_Inr)
qed

section \<open>Invariant and abstraction\<close>

definition rb_inv :: "rb_bmap \<Rightarrow> bool" where
  "rb_inv b \<longleftrightarrow> bm_start b \<le> bm_end b \<and> bm_end b \<le> bm_real_end b \<and> bm_real_end b < W64 - 1 \<and>
     rb_ok (bm_real_end b - bm_start b + 1) (bm_private b)"

definition rb_set :: "rb_bmap \<Rightarrow> nat set" where
  "rb_set b = {n. bm_start b \<le> n \<and> n - bm_start b \<in> rb_bits (root (bm_private b))}"

lemma rb_set_iff: "n \<in> rb_set b \<longleftrightarrow> bm_start b \<le> n \<and> n - bm_start b \<in> rb_bits (root (bm_private b))"
  by (simp add: rb_set_def)

lemma rb_invD:
  assumes "rb_inv b"
  shows "bm_start b \<le> bm_end b" "bm_end b \<le> bm_real_end b" "bm_real_end b < W64 - 1"
    "rb_ok (bm_real_end b - bm_start b + 1) (bm_private b)" "bm_real_end b - bm_start b + 1 < W64"
  using assms by (auto simp: rb_inv_def)

lemma rb_rel:
  assumes "rb_inv b" "bm_start b \<le> n" "n \<le> bm_real_end b"
  shows "sub64 n (bm_start b) = n - bm_start b" "n - bm_start b + 1 \<le> bm_real_end b - bm_start b + 1"
  using assms by (auto simp: rb_inv_def intro!: sub64_nowrap)

lemma rb_inv_private: "rb_inv b \<Longrightarrow> rb_ok (bm_real_end b - bm_start b + 1) p \<Longrightarrow> rb_inv (b\<lparr>bm_private := p\<rparr>)"
  by (simp add: rb_inv_def)

lemma rb_set_private:
  "n \<in> rb_set (b\<lparr>bm_private := p\<rparr>) \<longleftrightarrow> bm_start b \<le> n \<and> n - bm_start b \<in> rb_bits (root p)"
  by (simp add: rb_set_def)

lemma rb_test_bmap_spec:
  assumes "rb_inv b" "bm_start b \<le> n" "n \<le> bm_real_end b"
  shows "\<exists>r b'. rb_test_bmap b n = Some (r, b') \<and> rb_inv b' \<and> same_frame b b' \<and> rb_set b' = rb_set b \<and>
    (r \<noteq> 0 \<longleftrightarrow> n \<in> rb_set b)"
proof -
  note v = rb_invD [OF assms(1)]
  from rb_test_bit_spec [OF v(4,5), of "n - bm_start b"] obtain r bp where
    "rb_test_bit (bm_private b) (n - bm_start b) = Some (r, bp)" "rb_ok (bm_real_end b - bm_start b + 1) bp"
    "root bp = root (bm_private b)" "r \<noteq> 0 \<longleftrightarrow> n - bm_start b \<in> rb_bits (root (bm_private b))"
    by (elim exE conjE)
  then show ?thesis
    using assms(2) rb_inv_private [OF assms(1)]
    by (simp add: rb_test_bmap_def rb_rel(1) [OF assms] rb_set_def)
qed

lemma rb_insert_run_spec:
  assumes "rb_inv b" "bm_start b \<le> n" "0 < num" "n + num - 1 \<le> bm_real_end b"
  shows "\<exists>r bp. rb_insert_extent (sub64 n (bm_start b)) num (bm_private b) = Some (r, bp) \<and>
    rb_inv (b\<lparr>bm_private := bp\<rparr>) \<and> rb_set (b\<lparr>bm_private := bp\<rparr>) = rb_set b \<union> {n..<n + num} \<and>
    (r \<noteq> 0 \<longleftrightarrow> n \<in> rb_set b)"
proof -
  note v = rb_invD [OF assms(1)]
  have n: "n \<le> bm_real_end b" "n - bm_start b + num \<le> bm_real_end b - bm_start b + 1" using assms by simp_all
  from rb_insert_extent_spec [OF v(4,5) assms(3) n(2)] obtain r bp where i:
    "rb_insert_extent (n - bm_start b) num (bm_private b) = Some (r, bp)" "rb_ok (bm_real_end b - bm_start b + 1) bp"
    "rb_bits (root bp) = rb_bits (root (bm_private b)) \<union> {n - bm_start b..<n - bm_start b + num}"
    "r \<noteq> 0 \<longleftrightarrow> n - bm_start b \<in> rb_bits (root (bm_private b))" by (elim exE conjE)
  have "rb_set (b\<lparr>bm_private := bp\<rparr>) = rb_set b \<union> {n..<n + num}"
    by (intro set_eqI) (use assms(2) in \<open>auto simp: rb_set_private rb_set_iff i(3)\<close>)
  with i rb_inv_private [OF assms(1) i(2)] assms(2) show ?thesis
    by (simp add: rb_rel(1) [OF assms(1,2) n(1)] rb_set_iff)
qed

lemma rb_remove_run_spec:
  assumes "rb_inv b" "bm_start b \<le> n" "0 < num" "n + num - 1 \<le> bm_real_end b"
  shows "\<exists>r bp. rb_remove_extent shape (sub64 n (bm_start b)) num (bm_private b) = Some (r, bp) \<and>
    rb_inv (b\<lparr>bm_private := bp\<rparr>) \<and> rb_set (b\<lparr>bm_private := bp\<rparr>) = rb_set b - {n..<n + num} \<and>
    (n \<in> rb_set b \<longrightarrow> r \<noteq> 0)"
proof -
  note v = rb_invD [OF assms(1)]
  have n: "n \<le> bm_real_end b" "n - bm_start b + num \<le> bm_real_end b - bm_start b + 1" using assms by simp_all
  from rb_remove_extent_spec [OF v(4,5) assms(3) n(2), of shape] obtain r bp where i:
    "rb_remove_extent shape (n - bm_start b) num (bm_private b) = Some (r, bp)" "rb_ok (bm_real_end b - bm_start b + 1) bp"
    "rb_bits (root bp) = rb_bits (root (bm_private b)) - {n - bm_start b..<n - bm_start b + num}"
    "rb_bits (root (bm_private b)) \<inter> {n - bm_start b..<n - bm_start b + num} \<noteq> {} \<longrightarrow> r \<noteq> 0" by (elim exE conjE)
  have "rb_set (b\<lparr>bm_private := bp\<rparr>) = rb_set b - {n..<n + num}"
    by (intro set_eqI) (use assms(2) in \<open>auto simp: rb_set_private rb_set_iff i(3)\<close>)
  moreover have "n \<in> rb_set b \<longrightarrow> r \<noteq> 0" using i(4) assms(3) by (auto simp: rb_set_iff)
  ultimately show ?thesis
    using i(1) rb_inv_private [OF assms(1) i(2)] by (simp add: rb_rel(1) [OF assms(1,2) n(1)])
qed

lemma rb_test_clear_spec:
  assumes "rb_inv b" "bm_start b \<le> n" "0 < num" "n + num - 1 \<le> bm_real_end b"
  shows "\<exists>r. rb_test_clear_bmap_extent shape b n num = Some r \<and> (r \<noteq> 0 \<longleftrightarrow> rb_set b \<inter> {n..<n + num} = {})"
proof -
  note v = rb_invD [OF assms(1)]
  let ?M = "bm_real_end b - bm_start b + 1"
  let ?xs = "root (bm_private b)"
  define s where "s = n - bm_start b"
  have wf: "rb_wf ?M ?xs" using v(4) by (simp add: rb_ok_def)
  have n: "n \<le> bm_real_end b" "s + num \<le> ?M" using assms by (simp_all add: s_def)
  have sub: "sub64 n (bm_start b) = s" using rb_rel(1) [OF assms(1,2) n(1)] by (simp add: s_def)
  have sets: "rb_set b \<inter> {n..<n + num} = {} \<longleftrightarrow> rb_bits ?xs \<inter> {s..<s + num} = {}"
  proof -
    have "k + bm_start b \<in> rb_set b \<inter> {n..<n + num}" if "k \<in> rb_bits ?xs \<inter> {s..<s + num}" for k
      using that assms(2) by (auto simp: rb_set_iff s_def)
    moreover have "m - bm_start b \<in> rb_bits ?xs \<inter> {s..<s + num}" if "m \<in> rb_set b \<inter> {n..<n + num}" for m
      using that assms(2) by (auto simp: rb_set_iff s_def)
    ultimately show ?thesis by blast
  qed
  let ?desc = "rb_descend (\<lambda>e. s < x_start e) (\<lambda>e. s \<ge> x_end e) ?xs"
  obtain i m where im: "?desc = (i, m)" by (cases ?desc)
  note d = rb_descend_bit [OF im wf v(5)]
  show ?thesis
  proof (cases "?xs = []")
    case True
    then show ?thesis by (simp add: rb_test_clear_bmap_extent_def rb_set_def)
  next
    case ne: False
    show ?thesis
    proof (cases m)
      case True
      have "s \<in> rb_bits ?xs \<inter> {s..<s + num}" using d(1) True assms(3) by simp
      with True ne im assms(3) show ?thesis
        unfolding sets by (auto simp: rb_test_clear_bmap_extent_def Let_def sub simp del: Int_iff)
    next
      case False
      let ?p = "rb_parent shape ?xs i"
      have "rb_parent shape ?xs i \<le> i" by (rule rb_parent_bounds(1) [OF rb_descend_cases(1) [OF im] ne])
      then have "\<forall>e \<in> set (take ?p ?xs). x_start e + x_count e \<le> s"
        using d(3) set_take_subset_set_take by (metis subsetD)
      from rb_skip_left [OF this] have "rb_bits ?xs \<inter> {s..<s + num} = rb_bits (drop ?p ?xs) \<inter> {s..<s + num}" by auto
      moreover note rb_clear_scan_spec [OF rb_wf_take_drop(2) [OF wf, of ?p] v(5) assms(3) n(2)]
      ultimately show ?thesis
        unfolding sets using False ne im assms(3) by (simp add: rb_test_clear_bmap_extent_def Let_def sub)
    qed
  qed
qed

text \<open>Both searches agree with the first position of the set, relative to the start.\<close>

lemma first_in_shift:
  assumes "bm_start b \<le> s" "bm_start b \<le> e" "e < W64"
    and "case r of Inr n \<Rightarrow> r' = Inr (add64 n (bm_start b)) | Inl c \<Rightarrow> r' = Inl c"
    and "first_in (\<lambda>k. Q (k + bm_start b)) (s - bm_start b) (e - bm_start b) r"
  shows "first_in Q s e r'"
proof (cases r)
  case (Inl c)
  have "\<not> Q k" if "s \<le> k" "k \<le> e" for k
  proof -
    have "s - bm_start b \<le> k - bm_start b" "k - bm_start b \<le> e - bm_start b" using that by simp_all
    with assms(5) Inl have "\<not> Q (k - bm_start b + bm_start b)" by (simp add: first_in_Inl)
    then show ?thesis using that assms(1) by simp
  qed
  with assms(4,5) Inl show ?thesis by (simp add: first_in_Inl)
next
  case (Inr n)
  with assms(5) have n: "s - bm_start b \<le> n" "n \<le> e - bm_start b" "Q (n + bm_start b)"
    "\<And>k. s - bm_start b \<le> k \<Longrightarrow> k < n \<Longrightarrow> \<not> Q (k + bm_start b)" by (simp_all add: first_in_Inr)
  have "n + bm_start b \<le> e" using n(2) assms(2) by simp
  then have r': "r' = Inr (n + bm_start b)" using assms(3,4) Inr by (simp add: add64_nowrap)
  have "\<not> Q k" if "s \<le> k" "k < n + bm_start b" for k
    using n(4) [of "k - bm_start b"] that assms(1) by simp
  with n(1,3) \<open>n + bm_start b \<le> e\<close> assms(1) show ?thesis unfolding r' first_in_Inr by auto
qed

lemma rb_find_rel:
  assumes "rb_inv b" "bm_start b \<le> s" "s \<le> e" "e \<le> bm_real_end b"
  shows "sub64 s (bm_start b) = s - bm_start b" "sub64 e (bm_start b) = e - bm_start b"
    "s - bm_start b \<le> e - bm_start b" "e < W64" "bm_start b \<le> e"
  using assms rb_rel(1) [OF assms(1), of s] rb_rel(1) [OF assms(1), of e] by (auto simp: rb_inv_def)

lemma rb_root_empty:
  assumes "rb_inv b" "rb_set b = {}"
  shows "root (bm_private b) = []"
proof -
  have "rb_wf (bm_real_end b - bm_start b + 1) (root (bm_private b))" using rb_invD(4) [OF assms(1)] by (simp add: rb_ok_def)
  moreover have "k \<notin> rb_bits (root (bm_private b))" for k using assms(2) rb_set_iff [of "bm_start b + k" b] by auto
  then have "rb_bits (root (bm_private b)) = {}" by blast
  ultimately show ?thesis by (cases "root (bm_private b)") (auto simp: rb_wf_Cons)
qed

lemma rb_find_first_zero_empty:
  assumes "rb_inv b" "bm_start b \<le> s" "s \<le> e" "e \<le> bm_real_end b" "rb_set b = {}"
  shows "rb_find_first_zero b s e = Some (Inl ENOENT)"
  using rb_find_rel [OF assms(1-4)] rb_root_empty [OF assms(1,5)] by (simp add: rb_find_first_zero_def)

lemma rb_find_first_zero_spec:
  assumes "rb_inv b" "bm_start b \<le> s" "s \<le> e" "e \<le> bm_real_end b" "rb_set b \<noteq> {}"
  shows "\<exists>r. rb_find_first_zero b s e = Some r \<and> first_in (\<lambda>k. k \<notin> rb_set b) s e r"
proof -
  note v = rb_invD [OF assms(1)] and f = rb_find_rel [OF assms(1-4)]
  let ?xs = "root (bm_private b)"
  define t where "t = s - bm_start b"
  define u where "u = e - bm_start b"
  have wf: "rb_wf (bm_real_end b - bm_start b + 1) ?xs" using v(4) by (simp add: rb_ok_def)
  have ne: "?xs \<noteq> []" using assms(5) by (auto simp: rb_set_def)
  let ?desc = "rb_descend (\<lambda>e. t < x_start e) (\<lambda>e. t \<ge> x_end e) ?xs"
  obtain i m where im: "?desc = (i, m)" by (cases ?desc)
  note d = rb_descend_bit [OF im wf v(5)]
  define r where "r = (if m then if x_end (?xs ! i) \<le> u then Inr (x_end (?xs ! i)) else Inl ENOENT else Inr t)"
  have "first_in (\<lambda>k. k \<notin> rb_bits ?xs) t u r"
  proof (cases m)
    case False
    then show ?thesis using d(1) f(3) by (simp add: r_def first_in_Inr t_def u_def) linarith
  next
    case True
    note i = d(2) [OF True]
    let ?e = "?xs ! i"
    have xe: "x_end ?e = x_start ?e + x_count ?e" using x_end_wf [OF wf v(5) nth_mem] i by blast
    have "rb_wf (bm_real_end b - bm_start b + 1) (take i ?xs @ ?e # drop (Suc i) ?xs)"
      using wf rb_split_nth [of i ?xs] i by simp
    from rb_bits_split_iff [OF this] rb_split_nth [of i ?xs] i
    have in_e: "n \<in> rb_bits ?xs \<longleftrightarrow> n < x_end ?e" if "t \<le> n" "n \<le> x_end ?e" for n
      using that xe by simp
    then show ?thesis using i True by (auto simp: r_def first_in_Inr first_in_Inl xe)
  qed
  then have fi: "first_in (\<lambda>k. k + bm_start b \<notin> rb_set b) (s - bm_start b) (e - bm_start b) r"
    by (simp add: rb_set_iff t_def u_def)
  have eq: "rb_find_first_zero b s e = Some (case r of Inr n \<Rightarrow> Inr (add64 n (bm_start b)) | Inl c \<Rightarrow> Inl c)"
    using ne im f by (auto simp: rb_find_first_zero_def Let_def r_def t_def u_def split: bool.splits)
  have "first_in (\<lambda>k. k \<notin> rb_set b) s e (case r of Inr n \<Rightarrow> Inr (add64 n (bm_start b)) | Inl c \<Rightarrow> Inl c)"
    by (rule first_in_shift [OF assms(2) f(5,4) _ fi]) (simp split: sum.split)
  with eq show ?thesis by blast
qed

lemma rb_find_first_set_spec:
  assumes "rb_inv b" "bm_start b \<le> s" "s \<le> e" "e \<le> bm_real_end b"
  shows "\<exists>r. rb_find_first_set shape b s e = Some r \<and> first_in (\<lambda>k. k \<in> rb_set b) s e r"
proof -
  note v = rb_invD [OF assms(1)] and f = rb_find_rel [OF assms]
  let ?xs = "root (bm_private b)"
  define t where "t = s - bm_start b"
  define u where "u = e - bm_start b"
  have wf: "rb_wf (bm_real_end b - bm_start b + 1) ?xs" using v(4) by (simp add: rb_ok_def)
  let ?desc = "rb_descend (\<lambda>e. t < x_start e) (\<lambda>e. t \<ge> x_end e) ?xs"
  obtain i m where im: "?desc = (i, m)" by (cases ?desc)
  note d = rb_descend_bit [OF im wf v(5)]
  have i_le: "i \<le> length ?xs" by (rule rb_descend_cases(1) [OF im])
  define r where "r = (if m then Inr t else if i < length ?xs \<and> x_start (?xs ! i) \<le> u
    then Inr (x_start (?xs ! i)) else Inl ENOENT)"
  have "first_in (\<lambda>k. k \<in> rb_bits ?xs) t u r"
  proof (cases m)
    case True
    then show ?thesis using d(1) f(3) by (simp add: r_def first_in_Inr t_def u_def) linarith
  next
    case False
    note fr = rb_first_right [OF wf d(3) d(4) [OF False]]
    show ?thesis
      using fr False by (cases "i < length ?xs"; cases "x_start (?xs ! i) \<le> u") (auto simp: r_def first_in_Inr first_in_Inl)
  qed
  then have fi: "first_in (\<lambda>k. k + bm_start b \<in> rb_set b) (s - bm_start b) (e - bm_start b) r"
    by (simp add: rb_set_iff t_def u_def)
  have next_is_i: "(if x_start (?xs ! p) < t then Suc p else p) = i"
    if "p = rb_parent shape ?xs i" "\<not> m" "?xs \<noteq> []" for p
  proof (cases "p = i")
    case True
    then have "?xs ! p \<in> set (drop i ?xs)"
      using rb_parent_bounds(2) [OF i_le that(3), of shape] that(1) by (metis Cons_nth_drop_Suc list.set_intros(1))
    then show ?thesis using d(4) [OF that(2)] True by fastforce
  next
    case False
    then have p: "i = Suc p" "p < length ?xs" using rb_parent_bounds [OF i_le that(3), of shape] that(1) by auto
    then have mem: "?xs ! p \<in> set (take i ?xs)" by (simp add: take_Suc_conv_app_nth)
    then have "0 < x_count (?xs ! p)" using wf in_set_takeD [OF mem] by (simp add: rb_wf_def)
    then show ?thesis using d(3) mem p by fastforce
  qed
  have eq: "rb_find_first_set shape b s e = Some (case r of Inr n \<Rightarrow> Inr (add64 n (bm_start b)) | Inl c \<Rightarrow> Inl c)"
  proof (cases "?xs = []")
    case True
    then have "\<not> m" "i = 0" using d(1) i_le by auto
    with True f show ?thesis by (simp add: rb_find_first_set_def Let_def r_def)
  next
    case False
    then show ?thesis
      using im f next_is_i [OF refl] unfolding rb_find_first_set_def Let_def r_def t_def [symmetric] u_def [symmetric]
      by (cases m) (auto simp: t_def [symmetric] u_def [symmetric])
  qed
  have "first_in (\<lambda>k. k \<in> rb_set b) s e (case r of Inr n \<Rightarrow> Inr (add64 n (bm_start b)) | Inl c \<Rightarrow> Inl c)"
    by (rule first_in_shift [OF assms(2) f(5,4) _ fi]) (simp split: sum.split)
  with eq show ?thesis by blast
qed

section \<open>The contract\<close>

interpretation rb: bitmap_backend "ext2fs_blkmap64_rbtree shape" rb_set rb_inv for shape
proof (unfold_locales, goal_cases)
  case (1 b)
  then show ?case by (simp add: rb_inv_def)
next
  case (2 b n)
  with rb_test_bmap_spec [OF 2] show ?case by (simp add: ext2fs_blkmap64_rbtree_def)
next
  case (3 b n)
  then have "n + 1 - 1 \<le> bm_real_end b" by simp
  from rb_insert_run_spec [OF 3(1,2) zero_less_one this] show ?case
    by (elim exE conjE) (simp add: ext2fs_blkmap64_rbtree_def rb_mark_bmap_def)
next
  case (4 b n)
  then have "n + 1 - 1 \<le> bm_real_end b" by simp
  from rb_remove_run_spec [OF 4(1,2) zero_less_one this, of shape] show ?case
    by (elim exE conjE) (simp add: ext2fs_blkmap64_rbtree_def rb_unmark_bmap_def)
next
  case (5 b n num)
  from rb_insert_run_spec [OF 5] show ?case
    by (elim exE conjE) (simp add: ext2fs_blkmap64_rbtree_def rb_mark_bmap_extent_def)
next
  case (6 b n num)
  from rb_remove_run_spec [OF 6, of shape] show ?case
    by (elim exE conjE) (simp add: ext2fs_blkmap64_rbtree_def rb_unmark_bmap_extent_def)
next
  case (7 b n num)
  with rb_test_clear_spec [OF 7, of shape] show ?case by (simp add: ext2fs_blkmap64_rbtree_def)
next
  case (8 b)
  then show ?case
    by (simp add: ext2fs_blkmap64_rbtree_def rb_clear_bmap_def rb_inv_def rb_ok_def rb_cur_def rb_set_def)
next
  case (9 b s e)
  with rb_find_first_set_spec [OF 9, of shape] show ?case by (simp add: ext2fs_blkmap64_rbtree_def)
next
  case (10 b s e)
  show ?case
  proof (cases "rb_set b = {}")
    case True
    with rb_find_first_zero_empty [OF 10] show ?thesis by (simp add: ext2fs_blkmap64_rbtree_def)
  next
    case False
    with rb_find_first_zero_spec [OF 10] show ?thesis by (auto simp: ext2fs_blkmap64_rbtree_def)
  qed
qed

end
