(* ===== verification/Bitmap_Rb_Range.thy ===== *)
theory Bitmap_Rb_Range
  imports Bitmap_Rb_Correct
begin

text \<open>
  The remaining operations of the extent-tree back end: creation, copy, resize, and the transfer of
  whole bit ranges from and to byte buffers.
\<close>

section \<open>Creation and copy\<close>

lemma rb_empty_ok: "rb_ok M rb_empty_private"
  by (simp add: rb_ok_def rb_cur_def rb_empty_private_def)

lemma rb_new_spec:
  assumes "bm_start b \<le> bm_end b" "bm_end b \<le> bm_real_end b" "bm_real_end b < W64 - 1" "mem 32"
  shows "\<exists>b'. rb_new_bmap mem b = Some (0, b') \<and> rb_inv b' \<and> same_frame b b' \<and> rb_set b' = {}"
  using assms
  by (simp add: rb_new_bmap_def rb_alloc_private_data_def rb_inv_def rb_empty_ok rb_set_def)
    (simp add: rb_empty_private_def)

definition same_run :: "bmap_rb_extent \<Rightarrow> bmap_rb_extent \<Rightarrow> bool" where
  "same_run a b \<longleftrightarrow> x_start a = x_start b \<and> x_count a = x_count b"

lemma same_run_transfer:
  assumes "list_all2 same_run xs ys"
  shows "rb_wf M xs \<Longrightarrow> rb_wf M ys" "rb_bits xs = rb_bits ys"
proof -
  have mem: "\<exists>a \<in> set us. same_run a b" if "list_all2 same_run us vs" "b \<in> set vs" for us vs b
    using that by (metis in_set_conv_nth list_all2_conv_all_nth)
  show "rb_wf M xs \<Longrightarrow> rb_wf M ys"
    using assms
  proof (induction rule: list_all2_induct)
    case (Cons x xs y ys)
    then have "rb_before y f" if "f \<in> set ys" for f
      using mem [OF Cons.hyps(2) that] by (auto simp: rb_wf_Cons rb_before_def same_run_def)
    with Cons show ?case by (auto simp: rb_wf_Cons same_run_def)
  qed simp
  show "rb_bits xs = rb_bits ys"
    using assms by (induction rule: list_all2_induct) (auto simp: same_run_def)
qed

lemma rb_copy_extents_spec:
  assumes "mem 40"
  shows "\<exists>ys. rb_copy_extents mem es dst =
      (0, dst\<lparr>root := root dst @ ys, next_addr := next_addr dst + length es\<rparr>) \<and>
    list_all2 same_run es ys \<and> map x_addr ys = [next_addr dst..<next_addr dst + length es]"
proof (induction es arbitrary: dst)
  case Nil
  then show ?case by simp
next
  case (Cons e es)
  let ?e = "e\<lparr>x_addr := next_addr dst\<rparr>"
  let ?d = "dst\<lparr>root := root dst @ [?e], next_addr := Suc (next_addr dst)\<rparr>"
  from Cons [of ?d] obtain ys where ys: "rb_copy_extents mem es ?d =
      (0, ?d\<lparr>root := root ?d @ ys, next_addr := next_addr ?d + length es\<rparr>)"
    "list_all2 same_run es ys" "map x_addr ys = [next_addr ?d..<next_addr ?d + length es]" by (elim exE conjE)
  have "rb_copy_extents mem (e # es) dst =
      (0, dst\<lparr>root := root dst @ (?e # ys), next_addr := next_addr dst + length (e # es)\<rparr>)"
    using ys(1) assms by simp
  moreover have "list_all2 same_run (e # es) (?e # ys)" using ys(2) by (simp add: same_run_def)
  moreover have "map x_addr (?e # ys) = [next_addr dst..<next_addr dst + length (e # es)]"
    using ys(3) upt_conv_Cons [of "next_addr dst" "next_addr dst + length (e # es)"] by (simp del: upt_Suc)
  ultimately show ?case by blast
qed

lemma rb_copy_spec:
  assumes "rb_inv src" "bm_start dest = bm_start src" "bm_end dest = bm_end src" "bm_real_end dest = bm_real_end src"
    and "mem 32" "mem 40"
  shows "\<exists>src' dest'. rb_copy_bmap mem src dest = Some (0, src', dest') \<and> rb_inv src' \<and> same_frame src src' \<and>
    rb_set src' = rb_set src \<and> rb_inv dest' \<and> same_frame dest dest' \<and> rb_set dest' = rb_set src"
proof -
  let ?src = "src\<lparr>bm_private := (bm_private src)\<lparr>rcursor := None\<rparr>\<rparr>"
  let ?es = "root (bm_private src)"
  let ?p0 = "rb_empty_private\<lparr>rcursor := None\<rparr>"
  obtain ys where ys: "rb_copy_extents mem ?es ?p0 = (0, ?p0\<lparr>root := root ?p0 @ ys, next_addr := next_addr ?p0 + length ?es\<rparr>)"
    "list_all2 same_run ?es ys" "map x_addr ys = [next_addr ?p0..<next_addr ?p0 + length ?es]"
    using rb_copy_extents_spec [of mem ?es ?p0, OF assms(6)] by (elim exE conjE)
  let ?p = "?p0\<lparr>root := root ?p0 @ ys, next_addr := next_addr ?p0 + length ?es\<rparr>"
  have ok: "rb_ok (bm_real_end src - bm_start src + 1) (bm_private src)" using assms(1) by (simp add: rb_inv_def)
  have "rb_copy_bmap mem src dest = Some (0, ?src, dest\<lparr>bm_private := ?p\<rparr>)"
    using ys(1) assms(5) by (simp add: rb_copy_bmap_def rb_alloc_private_data_def)
  moreover have "rb_inv ?src" "rb_set ?src = rb_set src"
    using assms(1) by (simp_all add: rb_inv_def rb_ok_def rb_cur_def Let_def rb_set_def)
  moreover have "rb_ok (bm_real_end src - bm_start src + 1) ?p"
    using same_run_transfer(1) [OF ys(2)] ok ys(3) by (simp add: rb_ok_def rb_cur_def Let_def rb_empty_private_def)
  then have "rb_inv (dest\<lparr>bm_private := ?p\<rparr>)" using assms(1-4) by (simp add: rb_inv_def)
  moreover have "rb_set (dest\<lparr>bm_private := ?p\<rparr>) = rb_set src"
    using same_run_transfer(2) [OF ys(2)] assms(2) by (simp add: rb_set_def rb_empty_private_def)
  ultimately show ?thesis by simp
qed

interpretation rb_alloc: bitmap_backend_alloc "ext2fs_blkmap64_rbtree shape" rb_set rb_inv for shape
proof (unfold_locales, goal_cases)
  case (1 mem b)
  with rb_new_spec [OF 1(2-4), of mem] show ?case by (simp add: ext2fs_blkmap64_rbtree_def)
next
  case (2 mem b r b')
  then show ?case
    by (auto simp: ext2fs_blkmap64_rbtree_def rb_new_bmap_def rb_alloc_private_data_def split: if_splits)
next
  case (3 mem src dest)
  with rb_copy_spec [OF 3(2-5), of mem] show ?case by (simp add: ext2fs_blkmap64_rbtree_def)
qed

section \<open>Resizing\<close>

lemma rb_truncate_snoc: "rb_truncate m (xs @ [e]) =
    (if sub64 (x_end e) 1 \<le> m then xs @ [e]
     else if x_start e > m then rb_truncate m xs
     else xs @ [e\<lparr>x_count := add64 (sub64 m (x_start e)) 1\<rparr>])"
  by (simp add: rb_truncate_def)

lemma rb_truncate_spec:
  assumes "rb_wf M xs" "M < W64"
  shows "rb_wf (min M (m + 1)) (rb_truncate m xs) \<and> rb_bits (rb_truncate m xs) = rb_bits xs \<inter> {..m} \<and>
    (\<exists>k. map x_addr (rb_truncate m xs) = take k (map x_addr xs))"
  using assms(1)
proof (induction xs rule: rev_induct)
  case Nil
  then show ?case by (simp add: rb_truncate_def)
next
  case (snoc e xs)
  have wf: "rb_wf M xs" "0 < x_count e" "x_start e + x_count e \<le> M" "\<forall>f \<in> set xs. x_start f + x_count f < x_start e"
    using snoc.prems by (auto simp: rb_wf_append rb_wf_Cons rb_before_def)
  have xe: "sub64 (x_end e) 1 = x_start e + x_count e - 1" using wf assms(2) by (simp add: u64_simps)
  have below: "n < x_start e" if "n \<in> rb_bits xs" for n
    using that wf(4) by (fastforce simp: rb_bits_iff)
  have lt: "x_start f + x_count f \<le> x_start e" if "f \<in> set xs" for f using wf(4) that by fastforce
  have narrow: "rb_wf (min M (m + 1)) xs" if "x_start e \<le> m + 1"
    using wf(1) lt that unfolding rb_wf_def by (auto intro: order_trans)
  consider "x_start e + x_count e \<le> m + 1" | "m < x_start e" | "x_start e \<le> m" "m + 1 < x_start e + x_count e"
    by linarith
  then show ?case
  proof cases
    case 1
    then have t: "rb_truncate m (xs @ [e]) = xs @ [e]" using xe wf(2) by (simp add: rb_truncate_snoc)
    have "rb_bits (xs @ [e]) \<subseteq> {..m}" using 1 below by fastforce
    moreover have "rb_wf (min M (m + 1)) (xs @ [e])"
      using narrow 1 wf by (auto simp: rb_wf_append rb_wf_Cons rb_before_def)
    ultimately show ?thesis unfolding t by (auto intro: exI [of _ "Suc (length xs)"])
  next
    case 2
    then have t: "rb_truncate m (xs @ [e]) = rb_truncate m xs"
      using xe wf(2) unfolding rb_truncate_snoc by simp linarith
    from snoc.IH [OF wf(1)] obtain k where k: "map x_addr (rb_truncate m xs) = take k (map x_addr xs)" by blast
    then have "map x_addr (rb_truncate m xs) = take (min k (length xs)) (map x_addr (xs @ [e]))"
      by (simp add: take_map min_def)
    moreover have "rb_bits (xs @ [e]) \<inter> {..m} = rb_bits xs \<inter> {..m}" using 2 by auto
    ultimately show ?thesis unfolding t using snoc.IH [OF wf(1)] by (simp only: simp_thms) blast
  next
    case 3
    let ?e = "e\<lparr>x_count := m - x_start e + 1\<rparr>"
    have t: "rb_truncate m (xs @ [e]) = xs @ [?e]"
      using 3 xe wf assms(2) by (simp add: rb_truncate_snoc u64_simps)
    have "rb_bits (xs @ [?e]) = rb_bits (xs @ [e]) \<inter> {..m}" using 3 below by fastforce
    moreover have "rb_wf (min M (m + 1)) (xs @ [?e])"
      using narrow 3 wf by (auto simp: rb_wf_append rb_wf_Cons rb_before_def)
    moreover have "map x_addr (xs @ [?e]) = take (Suc (length xs)) (map x_addr (xs @ [e]))" by simp
    ultimately show ?thesis unfolding t by (simp only: simp_thms) blast
  qed
qed

lemma rb_resize_spec:
  assumes "rb_inv b" "bm_start b \<le> new_end" "new_end \<le> new_real_end" "new_real_end < W64 - 1"
  shows "\<exists>b'. rb_resize_bmap mem fresh b new_end new_real_end = Some (0, b') \<and> rb_inv b' \<and>
    bm_start b' = bm_start b \<and> bm_end b' = new_end \<and> bm_real_end b' = new_real_end \<and>
    rb_set b' = (rb_set b \<inter> {..min new_end (bm_end b)}) \<union> {new_end<..new_real_end}"
proof -
  note v = rb_invD [OF assms(1)]
  define m where "m = min new_end (bm_end b) - bm_start b"
  define M where "M = new_real_end - bm_start b + 1"
  let ?xs = "rb_truncate m (root (bm_private b))"
  let ?bp = "(bm_private b)\<lparr>rcursor := None, wcursor := None, root := ?xs\<rparr>"
  let ?b = "b\<lparr>bm_private := ?bp, bm_end := new_end, bm_real_end := new_real_end\<rparr>"
  have mx: "sub64 (if new_end < bm_end b then new_end else bm_end b) (bm_start b) = m"
    using v assms(2) by (auto simp: m_def min_def intro!: sub64_nowrap)
  from v(4) have wf: "rb_wf (bm_real_end b - bm_start b + 1) (root (bm_private b))" by (simp add: rb_ok_def)
  note t = rb_truncate_spec [OF wf v(5), of m]
  have "rb_wf M ?xs"
  proof -
    have "m + 1 \<le> M" using assms(2,3) v(1) by (auto simp: m_def M_def min_def)
    then show ?thesis using t unfolding rb_wf_def by (meson min.boundedE order_trans)
  qed
  moreover obtain k where k: "map x_addr ?xs = take k (map x_addr (root (bm_private b)))" using t by blast
  have "distinct (map x_addr (root (bm_private b)))" "\<forall>a \<in> set (map x_addr (root (bm_private b))). a < next_addr (bm_private b)"
    using v(4) unfolding rb_ok_def rb_cur_def Let_def by blast+
  then have "distinct (map x_addr ?xs)" "\<forall>a \<in> set (map x_addr ?xs). a < next_addr (bm_private b)"
    unfolding k by (simp, meson in_set_takeD)
  then have "rb_cur ?bp" unfolding rb_cur_def Let_def by simp
  ultimately have "rb_ok M ?bp" by (simp add: rb_ok_def)
  then have inv: "rb_inv ?b" using assms(2-4) by (simp add: rb_inv_def M_def)
  have set: "rb_set ?b = rb_set b \<inter> {..min new_end (bm_end b)}"
    using t assms(2) v(1) by (auto simp: rb_set_def m_def min_def)
  show ?thesis
  proof (cases "new_end < new_real_end")
    case True
    have n: "sub64 (add64 new_end 1) (bm_start b) = sub64 (new_end + 1) (bm_start ?b)"
      "sub64 new_real_end new_end = new_real_end - new_end"
      using assms True by (simp_all add: u64_simps)
    have "\<exists>r bp. rb_insert_extent (sub64 (new_end + 1) (bm_start ?b)) (new_real_end - new_end) (bm_private ?b) = Some (r, bp) \<and>
      rb_inv (?b\<lparr>bm_private := bp\<rparr>) \<and>
      rb_set (?b\<lparr>bm_private := bp\<rparr>) = rb_set ?b \<union> {new_end + 1..<new_end + 1 + (new_real_end - new_end)} \<and>
      (r \<noteq> 0 \<longleftrightarrow> new_end + 1 \<in> rb_set ?b)"
      using True assms by (intro rb_insert_run_spec [OF inv]) simp_all
    then obtain r bp where i: "rb_insert_extent (sub64 (new_end + 1) (bm_start ?b)) (new_real_end - new_end) ?bp = Some (r, bp)"
      "rb_inv (?b\<lparr>bm_private := bp\<rparr>)"
      "rb_set (?b\<lparr>bm_private := bp\<rparr>) = rb_set ?b \<union> {new_end + 1..<new_end + 1 + (new_real_end - new_end)}"
      by (elim exE conjE) simp
    have "{new_end + 1..<new_end + 1 + (new_real_end - new_end)} = {new_end<..new_real_end}" using True by auto
    moreover have "rb_resize_bmap mem fresh b new_end new_real_end = Some (0, ?b\<lparr>bm_private := bp\<rparr>)"
      unfolding rb_resize_bmap_def Let_def mx n using True i(1) by (simp add: mx)
    ultimately show ?thesis using i(2,3) set by simp
  next
    case False
    have "rb_resize_bmap mem fresh b new_end new_real_end = Some (0, ?b)"
      using False by (simp add: rb_resize_bmap_def Let_def mx)
    then show ?thesis using inv set False assms(3) by simp
  qed
qed

section \<open>Storing a bit range\<close>

lemma test_bit_bits: "nr < 8 * length xs \<Longrightarrow> \<exists>t. ext2fs_test_bit nr xs = Some t \<and> (t \<noteq> 0 \<longleftrightarrow> nr \<in> bits xs)"
  using test_bit64_spec [of nr xs] uint_mask_neq_0 [of nr xs]
  by (simp add: ext2fs_test_bit_def ext2fs_test_bit64_def)

lemma to_s32_small: "i < 2147483648 \<Longrightarrow> to_s32 i = int i"
  by (simp add: to_s32_def)

lemma rb_insert_run_call:
  assumes "rb_inv b" "bm_start b \<le> start" "f < i" "start + i - 1 \<le> bm_real_end b"
  shows "\<exists>bp. rb_insert_run (bm_start b) start (int f) i (bm_private b) = Some bp \<and>
    rb_inv (b\<lparr>bm_private := bp\<rparr>) \<and> rb_set (b\<lparr>bm_private := bp\<rparr>) = rb_set b \<union> {start + f..<start + i}"
proof -
  note v = rb_invD [OF assms(1)]
  have b: "start + f < W64" "i - f < W64" using v assms by linarith+
  have a: "nat ((int start + int f) mod int W64) = start + f"
    using b(1) by (simp flip: of_nat_add)
  have c: "nat ((int i - int f) mod int W64) = i - f"
    using b(2) assms(3) by (simp flip: of_nat_diff)
  have "bm_start b \<le> start + f" "0 < i - f" "start + f + (i - f) - 1 \<le> bm_real_end b" "start + f + (i - f) = start + i"
    using assms(2-4) by simp_all
  with rb_insert_run_spec [OF assms(1) this(1-3)] show ?thesis
    unfolding rb_insert_run_def a c by (elim exE conjE) simp
qed

text \<open>The numbers the loop at position \<open>i\<close> with pending run \<open>f\<close> still has to mark.\<close>

definition rb_todo :: "nat set \<Rightarrow> nat \<Rightarrow> nat \<Rightarrow> int \<Rightarrow> nat set" where
  "rb_todo B num i f = {k. k < num \<and> (k \<in> B \<and> i \<le> k \<or> f \<noteq> -1 \<and> f \<le> int k \<and> k < i)}"

lemma rb_todo_run:
  assumes "\<forall>k. i \<le> k \<and> k < i + d \<longrightarrow> k \<in> B" "f = -1 \<or> f < int i"
  shows "rb_todo B num (i + d) (if f = -1 then int i else f) = rb_todo B num i f"
  unfolding rb_todo_def by (intro Collect_cong) (use assms in auto)

lemma rb_todo_skip:
  assumes "\<forall>k. i \<le> k \<and> k < i + d \<longrightarrow> k \<notin> B"
  shows "rb_todo B num (i + d) (-1) = rb_todo B num i (-1)"
  unfolding rb_todo_def by (intro Collect_cong) (use assms not_less in auto)

lemma rb_todo_close:
  assumes "i \<notin> B" "i < num" "f < i"
  shows "rb_todo B num i (int f) = {f..<i} \<union> rb_todo B num (i + 1) (-1)"
proof (intro set_eqI)
  fix k
  have "i \<le> k \<longleftrightarrow> k = i \<or> i + 1 \<le> k" by auto
  then show "k \<in> rb_todo B num i (int f) \<longleftrightarrow> k \<in> {f..<i} \<union> rb_todo B num (i + 1) (-1)"
    using assms by (auto simp: rb_todo_def)
qed

lemma rb_todo_end:
  assumes "num \<le> i"
  shows "rb_todo B num i (-1) = {}" "f < i \<Longrightarrow> rb_todo B num i (int f) = {f..<num}"
  unfolding rb_todo_def using assms by auto

lemma byte_bits:
  assumes "i mod 8 = 0" "i div 8 < length xs" "i \<le> k" "k < i + 8"
  shows "k \<in> bits xs \<longleftrightarrow> bit (xs ! (i div 8)) (k mod 8)"
proof -
  obtain q where q: "i = 8 * q" using assms(1) by (auto simp: mod_eq_0_iff_dvd dvd_def)
  obtain r where r: "k = 8 * q + r" using assms(3) q le_Suc_ex by blast
  have k: "k div 8 = i div 8" using assms(4) by (simp add: q r)
  have "k < 8 * length xs" using assms(2) unfolding k [symmetric] div8_lt .
  with k show ?thesis by (simp add: bits_iff)
qed

text \<open>One iteration: it either finishes the loop or hands a later position and a pending run on.\<close>

lemma rb_set_loop_step:
  assumes "i < num" "num < 2147483648" "num \<le> 8 * length inp" "f = -1 \<or> (0 \<le> f \<and> f < int i)"
  obtains (go) d f' where "0 < d" "f' = -1 \<or> (0 \<le> f' \<and> f' < int (i + d) \<and> f' < int num)"
      "rb_set_loop bs st num inp i f bp = rb_set_loop bs st num inp (i + d) f' bp"
      "rb_todo (bits inp) num (i + d) f' = rb_todo (bits inp) num i f"
    | (close) "f \<noteq> -1" "i \<notin> bits inp" "rb_set_loop bs st num inp i f bp =
       do { bp' \<leftarrow> rb_insert_run bs st f i bp; rb_set_loop bs st num inp (i + 1) (-1) bp' }"
proof -
  let ?f = "if f = -1 then int i else f"
  have i: "i < 8 * length inp" "i div 8 < length inp" "to_s32 i = int i" "i mod W32 = i"
    using assms by (auto simp: div8_lt to_s32_small)
  obtain t where t: "ext2fs_test_bit i inp = Some t" "t \<noteq> 0 \<longleftrightarrow> i \<in> bits inp"
    using test_bit_bits [OF i(1)] by blast
  note eq = rb_set_loop.simps [of bs st num inp i f bp]
  have f: "?f = -1 \<or> (0 \<le> ?f \<and> ?f < int (i + d) \<and> ?f < int num)" if "0 < d" for d using that assms(1,4) by auto
  have fm: "f = -1 \<or> f < int i" using assms(4) by auto
  let ?c = "inp ! (i div 8)"
  consider (full) "i mod 8 = 0 \<and> ?c = 255" | (zero) "i mod 8 = 0 \<and> ?c = 0 \<and> f = -1"
    | (set) "\<not> (i mod 8 = 0 \<and> ?c = 255)" "\<not> (i mod 8 = 0 \<and> ?c = 0 \<and> f = -1)" "i \<in> bits inp"
    | (skip) "\<not> (i mod 8 = 0 \<and> ?c = 255)" "\<not> (i mod 8 = 0 \<and> ?c = 0 \<and> f = -1)" "i \<notin> bits inp" "f = -1"
    | (stop) "\<not> (i mod 8 = 0 \<and> ?c = 255)" "\<not> (i mod 8 = 0 \<and> ?c = 0 \<and> f = -1)" "i \<notin> bits inp" "f \<noteq> -1"
    by argo
  then show ?thesis
  proof cases
    case full
    then have "\<forall>k. i \<le> k \<and> k < i + 8 \<longrightarrow> k \<in> bits inp"
      using byte_bits [OF _ i(2)] bit_255 [of "k mod 8" for k] by simp
    from rb_todo_run [OF this fm] have "rb_todo (bits inp) num (i + 8) ?f = rb_todo (bits inp) num i f" .
    moreover have "rb_set_loop bs st num inp i f bp = rb_set_loop bs st num inp (i + 8) ?f bp"
      using full assms(1) i unfolding eq by (simp add: rd_Some)
    ultimately show ?thesis using f [of 8] go [of 8 ?f] by simp
  next
    case zero
    then have "\<forall>k. i \<le> k \<and> k < i + 8 \<longrightarrow> k \<notin> bits inp" using byte_bits [OF _ i(2)] by simp
    from rb_todo_skip [OF this] have "rb_todo (bits inp) num (i + 8) (-1) = rb_todo (bits inp) num i (-1)" .
    moreover have "rb_set_loop bs st num inp i f bp = rb_set_loop bs st num inp (i + 8) (-1) bp"
      using zero assms(1) i unfolding eq by (simp add: rd_Some)
    ultimately show ?thesis using zero go [of 8 "-1"] by simp
  next
    case set
    then have "\<forall>k. i \<le> k \<and> k < i + 1 \<longrightarrow> k \<in> bits inp" using le_antisym by fastforce
    from rb_todo_run [OF this fm] have "rb_todo (bits inp) num (i + 1) ?f = rb_todo (bits inp) num i f" .
    moreover have "rb_set_loop bs st num inp i f bp = rb_set_loop bs st num inp (i + 1) ?f bp"
      using set(1,2) assms(1) i t set(3) unfolding eq by (cases "i mod 8 = 0"; cases "f = -1") (simp_all add: rd_Some)
    ultimately show ?thesis using f [of 1] go [of 1 ?f] by simp
  next
    case skip
    then have "\<forall>k. i \<le> k \<and> k < i + 1 \<longrightarrow> k \<notin> bits inp" by (auto simp: less_Suc_eq_le)
    from rb_todo_skip [OF this] have "rb_todo (bits inp) num (i + 1) (-1) = rb_todo (bits inp) num i (-1)" .
    moreover have "rb_set_loop bs st num inp i f bp = rb_set_loop bs st num inp (i + 1) (-1) bp"
      using skip(1,2) assms(1) i t skip(3,4) unfolding eq by (cases "i mod 8 = 0"; cases "f = -1") (simp_all add: rd_Some)
    ultimately show ?thesis using skip go [of 1 "-1"] by simp
  next
    case stop
    then have "rb_set_loop bs st num inp i f bp =
       do { bp' \<leftarrow> rb_insert_run bs st f i bp; rb_set_loop bs st num inp (i + 1) (-1) bp' }"
      using assms(1) i t unfolding eq by (cases "i mod 8 = 0"; cases "f = -1") (simp_all add: rd_Some)
    then show ?thesis using stop close by blast
  qed
qed

lemma rb_set_loop_spec:
  assumes "rb_inv b" "bm_start b \<le> start" "num < 2147483648" "num \<le> 8 * length inp"
    and "start + num - 1 \<le> bm_real_end b" "f = -1 \<or> (0 \<le> f \<and> f < int i \<and> f < int num)"
  shows "\<exists>bp. rb_set_loop (bm_start b) start num inp i f (bm_private b) = Some bp \<and>
    rb_inv (b\<lparr>bm_private := bp\<rparr>) \<and>
    rb_set (b\<lparr>bm_private := bp\<rparr>) = rb_set b \<union> (\<lambda>k. start + k) ` rb_todo (bits inp) num i f"
  using assms
proof (induction "num - i" arbitrary: b i f rule: less_induct)
  case less
  note eq = rb_set_loop.simps [of "bm_start b" start num inp i f "bm_private b"]
  have shift: "(\<lambda>k. start + k) ` {g..<h} = {start + g..<start + h}" for g h
    by (simp add: image_add_atLeastLessThan add.commute)
  show ?case
  proof (cases "i < num")
    case False
    show ?thesis
    proof (cases "f = -1")
      case True
      then have "rb_set_loop (bm_start b) start num inp i f (bm_private b) = Some (bm_private b)"
        using False unfolding eq by simp
      then show ?thesis using False True less.prems(1) by (simp add: rb_todo_end)
    next
      case nf: False
      then obtain g where g: "f = int g" "g < i" "g < num" using less.prems(6) by (metis nonneg_int_cases of_nat_less_iff)
      from rb_insert_run_call [OF less.prems(1,2) g(3) less.prems(5)] show ?thesis
        using False nf rb_todo_end(2) [of num i g] g shift [of g num] unfolding eq by simp
    qed
  next
    case True
    have f: "f = -1 \<or> (0 \<le> f \<and> f < int i)" using less.prems(6) by auto
    from True less.prems(3,4) f show ?thesis
    proof (cases rule: rb_set_loop_step [where bs = "bm_start b" and st = start and bp = "bm_private b"])
      case (go d f')
      have "num - (i + d) < num - i" using True go(1) by simp
      from less.hyps [OF this less.prems(1-5) go(2)] show ?thesis unfolding go(3,4) .
    next
      case close
      note c = close
      then obtain g where g: "f = int g" "g < i" using f by (metis nonneg_int_cases of_nat_less_iff)
      have "start + i - 1 \<le> bm_real_end b" using less.prems(5) True by simp
      from rb_insert_run_call [OF less.prems(1,2) g(2) this] obtain bp where bp:
        "rb_insert_run (bm_start b) start (int g) i (bm_private b) = Some bp"
        "rb_inv (b\<lparr>bm_private := bp\<rparr>)" "rb_set (b\<lparr>bm_private := bp\<rparr>) = rb_set b \<union> {start + g..<start + i}"
        by (elim exE conjE)
      have "num - (i + 1) < num - i" using True by simp
      from less.hyps [OF this bp(2), of "-1"] less.prems
      obtain bp' where bp': "rb_set_loop (bm_start b) start num inp (i + 1) (-1) bp = Some bp'"
        "rb_inv (b\<lparr>bm_private := bp'\<rparr>)" "rb_set (b\<lparr>bm_private := bp'\<rparr>) =
          rb_set (b\<lparr>bm_private := bp\<rparr>) \<union> (\<lambda>k. start + k) ` rb_todo (bits inp) num (i + 1) (-1)"
        by auto
      show ?thesis
        using c(3) bp bp' rb_todo_close [OF c(2) True g(2)] shift [of g i] by (simp add: g(1) image_Un Un_assoc)
    qed
  qed
qed

lemma rb_set_range_spec:
  assumes "rb_inv b" "bm_start b \<le> start" "num < 2147483648" "num \<le> 8 * length inp"
    and "start + num - 1 \<le> bm_real_end b"
  shows "\<exists>b'. rb_set_bmap_range b start num inp = Some (0, b') \<and> rb_inv b' \<and> same_frame b b' \<and>
    rb_set b' = rb_set b \<union> {start + k |k. k < num \<and> k \<in> bits inp}"
proof -
  have "(\<lambda>k. start + k) ` rb_todo (bits inp) num 0 (-1) = {start + k |k. k < num \<and> k \<in> bits inp}"
    by (auto simp: rb_todo_def)
  moreover have "(-1::int) = -1 \<or> 0 \<le> (-1::int) \<and> (-1::int) < int 0 \<and> -1 < int num" by simp
  note rb_set_loop_spec [OF assms this]
  ultimately show ?thesis by (elim exE conjE) (simp add: rb_set_bmap_range_def)
qed

section \<open>Reading a bit range\<close>

lemma rb_fill_out_spec:
  assumes "start \<le> pos" "pos - start + count \<le> 8 * length out" "pos - start + count < 2147483648" "pos + count < W64"
  shows "\<exists>out'. rb_fill_out start pos count out = Some out' \<and> length out' = length out \<and>
    bits out' = bits out \<union> {pos - start..<pos - start + count}"
  using assms
proof (induction count arbitrary: pos out rule: less_induct)
  case (less count)
  note eq = rb_fill_out.simps [of start pos count out]
  have sub: "sub64 pos start = pos - start" using less.prems by (simp add: sub64_nowrap)
  let ?p = "pos - start"
  consider "count = 0" | "count \<ge> 8" "?p mod 8 = 0" | "0 < count" "\<not> (count \<ge> 8 \<and> ?p mod 8 = 0)" by linarith
  then show ?case
  proof cases
    case 1
    then show ?thesis unfolding eq by simp
  next
    case 2
    define nb where "nb = count div 8"
    have nb: "0 < nb" "8 * nb \<le> count" "nb < 268435456" "?p div 8 < 2147483648" "8 * (?p div 8) = ?p"
      using 2 less.prems(3) by (auto simp: nb_def)
    have "?p div 8 + nb \<le> length out" using nb less.prems(2) by linarith
    from mem_fill_bits [OF this, of 255] obtain out1 where o: "mem_fill out (?p div 8) 255 nb = Some out1"
      "length out1 = length out"
      "\<forall>k. k \<in> bits out1 \<longleftrightarrow> (if 8 * (?p div 8) \<le> k \<and> k < 8 * (?p div 8 + nb) then bit (255 :: u8) (k mod 8) else k \<in> bits out)"
      by (elim exE conjE)
    have o3: "bits out1 = bits out \<union> {?p..<?p + 8 * nb}"
    proof (intro set_eqI)
      fix k
      have "k \<in> bits out1 \<longleftrightarrow> (if ?p \<le> k \<and> k < ?p + 8 * nb then k mod 8 < 8 else k \<in> bits out)"
        using o(3) unfolding distrib_left nb(5) bit_255 by (rule spec)
      then show "k \<in> bits out1 \<longleftrightarrow> k \<in> bits out \<union> {?p..<?p + 8 * nb}" by (auto split: if_splits)
    qed
    have "add64 pos (8 * nb) = pos + 8 * nb" using nb less.prems(4) by (simp add: add64_nowrap)
    then have step: "rb_fill_out start pos count out = rb_fill_out start (pos + 8 * nb) (count - 8 * nb) out1"
      unfolding eq using 2 nb o(1) by (simp add: sub nb_def [symmetric] Let_def)
    have d: "pos + 8 * nb - start = ?p + 8 * nb" using less.prems(1) by simp
    have "\<exists>out'. rb_fill_out start (pos + 8 * nb) (count - 8 * nb) out1 = Some out' \<and> length out' = length out1 \<and>
      bits out' = bits out1 \<union> {pos + 8 * nb - start..<pos + 8 * nb - start + (count - 8 * nb)}"
      by (rule less.IH) (use nb less.prems o(2) in simp_all)
    then show ?thesis unfolding step d o3 using nb(2) o(2) by (elim exE conjE) (auto simp: ivl_disj_un_two(3) Un_assoc)
  next
    case 3
    have "?p < 8 * length out" using 3 less.prems(2) by simp
    from fast_set_bit64_spec [OF this] obtain out1 where o: "ext2fs_fast_set_bit64 ?p out = Some out1"
      "length out1 = length out" "bits out1 = insert ?p (bits out)" by (elim exE conjE)
    have "add64 pos 1 = pos + 1" using 3 less.prems(4) by (simp add: add64_nowrap)
    then have step: "rb_fill_out start pos count out = rb_fill_out start (pos + 1) (count - 1) out1"
      unfolding eq sub if_not_P [OF 3(2)] using 3(1) o(1) by simp
    have d: "pos + 1 - start = ?p + 1" using less.prems(1) by simp
    have "\<exists>out'. rb_fill_out start (pos + 1) (count - 1) out1 = Some out' \<and> length out' = length out1 \<and>
      bits out' = bits out1 \<union> {pos + 1 - start..<pos + 1 - start + (count - 1)}"
      by (rule less.IH) (use 3 less.prems o(2) in simp_all)
    moreover have "insert ?p {?p + 1..<?p + 1 + (count - 1)} = {?p..<?p + count}" using 3(1) by auto
    ultimately show ?thesis unfolding step d o(3) using o(2) by (elim exE conjE) (simp, metis Un_insert_left Un_insert_right)
  qed
qed

lemma rb_get_loop_spec:
  assumes "rb_wf M D" "M < W64" "s + num \<le> M" "num \<le> 8 * length out" "num < 2147483648"
  shows "\<exists>out'. rb_get_loop s num D out = Some out' \<and> length out' = length out \<and>
    bits out' = bits out \<union> {k. k < num \<and> s + k \<in> rb_bits D}"
  using assms
proof (induction D arbitrary: out)
  case Nil
  then show ?case by simp
next
  case (Cons e es)
  have wf: "0 < x_count e" "x_start e + x_count e \<le> M" "\<forall>f \<in> set es. rb_before e f" "rb_wf M es"
    using Cons.prems(1) by (auto simp: rb_wf_Cons)
  have xe: "x_end e = x_start e + x_count e" and sn: "add64 s num = s + num"
    using wf Cons.prems by (simp_all add: add64_nowrap)
  consider (stop) "s + num \<le> x_start e" | (skip) "x_start e < s + num" "x_start e + x_count e < s"
    | (fill) "x_start e < s + num" "s \<le> x_start e + x_count e" by linarith
  then show ?case
  proof cases
    case stop
    have "{k. k < num \<and> s + k \<in> rb_bits (e # es)} = {}"
      using stop wf by (fastforce simp: rb_bits_iff rb_before_def)
    moreover have "rb_get_loop s num (e # es) out = Some out" using stop sn by simp
    ultimately show ?thesis by (intro exI [of _ out]) (auto simp del: rb_bits_simps rb_get_loop.simps)
  next
    case skip
    have "{k. k < num \<and> s + k \<in> rb_bits (e # es)} = {k. k < num \<and> s + k \<in> rb_bits es}"
      using skip by auto
    then show ?thesis using skip xe sn Cons.IH [OF wf(4) Cons.prems(2-5)] by simp
  next
    case fill
    define pos where "pos = max s (x_start e)"
    define hi where "hi = min (s + num) (x_start e + x_count e)"
    have p: "s \<le> pos" "pos \<le> hi" "hi \<le> s + num" "hi \<le> M" using fill wf Cons.prems(3) by (auto simp: pos_def hi_def)
    have c1: "(if x_start e < s then sub64 (x_count e) (sub64 s (x_start e)) else x_count e) = x_start e + x_count e - pos"
      using fill wf Cons.prems(2) by (auto simp: pos_def u64_simps)
    have pe: "(if x_start e < s then s else x_start e) = pos" by (simp add: pos_def)
    have c2: "(if add64 pos (x_start e + x_count e - pos) > s + num then sub64 (s + num) pos
        else x_start e + x_count e - pos) = hi - pos"
      using fill wf Cons.prems(2,3) p by (auto simp: pos_def hi_def u64_simps)
    have eq: "rb_get_loop s num (e # es) out = do { out' \<leftarrow> rb_fill_out s pos (hi - pos) out; rb_get_loop s num es out' }"
      using fill unfolding rb_get_loop.simps Let_def xe sn pe c1 c2 by simp
    have "s \<le> pos" "pos - s + (hi - pos) \<le> 8 * length out" "pos - s + (hi - pos) < 2147483648" "pos + (hi - pos) < W64"
      using p Cons.prems by simp_all
    from rb_fill_out_spec [OF this] obtain out1 where o: "rb_fill_out s pos (hi - pos) out = Some out1"
      "length out1 = length out" "bits out1 = bits out \<union> {pos - s..<pos - s + (hi - pos)}" by (elim exE conjE)
    have "{pos - s..<pos - s + (hi - pos)} \<union> {k. k < num \<and> s + k \<in> rb_bits es} = {k. k < num \<and> s + k \<in> rb_bits (e # es)}"
      using fill by (auto simp: pos_def hi_def)
    moreover have "num \<le> 8 * length out1" using o(2) Cons.prems(4) by simp
    note Cons.IH [OF wf(4) Cons.prems(2,3) this Cons.prems(5)]
    ultimately show ?thesis using o by (elim exE conjE) (simp add: eq Un_assoc del: rb_bits_simps rb_get_loop.simps)
  qed
qed

lemma rb_get_range_spec:
  assumes "rb_inv b" "bm_start b \<le> start" "num < 2147483648" "start + num - 1 \<le> bm_real_end b" "0 < num"
    and "(num + 7) div 8 \<le> length out" "rb_set b \<noteq> {}"
  shows "\<exists>out'. rb_get_bmap_range shape b start num out = Some (0, out') \<and> length out' = length out \<and>
    (\<forall>k < 8 * ((num + 7) div 8). k \<in> bits out' \<longleftrightarrow> k < num \<and> start + k \<in> rb_set b)"
proof -
  note v = rb_invD [OF assms(1)]
  let ?xs = "root (bm_private b)" and ?n = "(num + 7) div 8"
  define s where "s = start - bm_start b"
  have sub: "sub64 start (bm_start b) = s" using rb_rel(1) [OF assms(1,2)] assms(4,5) by (simp add: s_def)
  have wf: "rb_wf (bm_real_end b - bm_start b + 1) ?xs" using v(4) by (simp add: rb_ok_def)
  have ne: "?xs \<noteq> []" using assms(7) by (auto simp: rb_set_def)
  let ?desc = "rb_descend (\<lambda>e. s < x_start e) (\<lambda>e. s \<ge> x_end e) ?xs"
  obtain i m where im: "?desc = (i, m)" by (cases ?desc)
  note d = rb_descend_bit [OF im wf v(5)]
  define p where "p = (if m then i else rb_parent shape ?xs i)"
  have "p \<le> i" using rb_parent_bounds(1) [OF rb_descend_cases(1) [OF im] ne] by (simp add: p_def)
  from subsetD [OF set_take_subset_set_take [OF this]]
  have left: "\<forall>e \<in> set (take p ?xs). x_start e + x_count e \<le> s"
    by (intro ballI bspec [OF d(3)])
  obtain out0 where o0: "mem_fill out 0 0 ?n = Some out0" "length out0 = length out"
    "\<forall>k. k \<in> bits out0 \<longleftrightarrow> (if 8 * 0 \<le> k \<and> k < 8 * (0 + ?n) then bit (0 :: u8) (k mod 8) else k \<in> bits out)"
    using mem_fill_bits [of 0 ?n out 0] assms(6) unfolding add_0 by blast
  have "s + num \<le> bm_real_end b - bm_start b + 1" "num \<le> 8 * length out0"
    using assms(2,4,5,6) o0(2) by (auto simp: s_def)
  from rb_get_loop_spec [OF rb_wf_take_drop(2) [OF wf, of p] v(5) this assms(3)] obtain out' where o':
    "rb_get_loop s num (drop p ?xs) out0 = Some out'" "length out' = length out0"
    "bits out' = bits out0 \<union> {k. k < num \<and> s + k \<in> rb_bits (drop p ?xs)}" by (elim exE conjE)
  have "rb_get_bmap_range shape b start num out = Some (0, out')"
    using ne o0(1) o'(1) im by (cases m) (simp_all add: rb_get_bmap_range_def Let_def sub p_def)
  moreover have "k \<in> bits out' \<longleftrightarrow> k < num \<and> start + k \<in> rb_set b" if "k < 8 * ?n" for k
  proof -
    have "s + k \<in> rb_bits (drop p ?xs) \<longleftrightarrow> s + k \<in> rb_bits ?xs" using rb_skip_left [OF left, of "s + k"] by simp
    moreover have "start + k \<in> rb_set b \<longleftrightarrow> s + k \<in> rb_bits ?xs" using assms(2) by (simp add: rb_set_iff s_def)
    ultimately show ?thesis using o0(3) that by (auto simp: o'(3))
  qed
  ultimately show ?thesis using o0(2) o'(2) by simp
qed

end
