(* ===== verification/Bmap_Ops.thy ===== *)
theory Bmap_Ops
  imports Bitmap_Rb_Range Bitmap_Ba
begin

text \<open>
  The \<^verbatim>\<open>bitmap_ops\<close> pointer of a 64-bit bitmap: an object is either a bit array or an extent
  tree, and a call through the table reaches the back end of the object. The private data tells which
  table \<^verbatim>\<open>ext2fs_alloc_generic_bmap\<close> stored, so the dispatch is a table of its own, and it
  meets the same contract as the two back ends.
\<close>

datatype priv = PBA "u8 list" | PRB rb_private

type_synonym bmap64 = "priv bmap"

text \<open>The bytes of fresh memory, the address of a bit array, the shape of a tree.\<close>

record bm_env =
  env_fresh :: "nat \<Rightarrow> u8"
  env_base :: nat
  env_shape :: shape

definition retype :: "'p bmap \<Rightarrow> 'q \<Rightarrow> 'q bmap" where
  "retype b p = \<lparr>bm_magic = bm_magic b, bm_start = bm_start b, bm_end = bm_end b, bm_real_end = bm_real_end b,
     bm_cluster_bits = bm_cluster_bits b, bm_description = bm_description b,
     bm_base_error_code = bm_base_error_code b, bm_private = p\<rparr>"

definition from_ba :: "ba_bmap \<Rightarrow> bmap64" where "from_ba b = retype b (PBA (bm_private b))"
definition from_rb :: "rb_bmap \<Rightarrow> bmap64" where "from_rb b = retype b (PRB (bm_private b))"

definition via :: "bmap64 \<Rightarrow> (ba_bmap \<Rightarrow> 'r) \<Rightarrow> (rb_bmap \<Rightarrow> 'r) \<Rightarrow> 'r" where
  "via b f g = (case bm_private b of PBA arr \<Rightarrow> f (retype b arr) | PRB p \<Rightarrow> g (retype b p))"

definition bmap_ops :: "bm_env \<Rightarrow> priv bitmap_ops" where
  "bmap_ops env =
    (let ba = ext2fs_blkmap64_bitarray (env_fresh env) (env_base env);
         rb = ext2fs_blkmap64_rbtree (env_shape env)
     in \<lparr>bop_type = 0,
        new_bmap = (\<lambda>mem b. via b (\<lambda>x. map_option (map_prod id from_ba) (new_bmap ba mem x))
                                  (\<lambda>x. map_option (map_prod id from_rb) (new_bmap rb mem x))),
        copy_bmap = (\<lambda>mem s d. via s
           (\<lambda>x. map_option (map_prod id (map_prod from_ba from_ba)) (copy_bmap ba mem x (retype d [])))
           (\<lambda>x. map_option (map_prod id (map_prod from_rb from_rb)) (copy_bmap rb mem x (retype d rb_empty_private)))),
        resize_bmap = (\<lambda>mem fresh b e r. via b
           (\<lambda>x. map_option (map_prod id from_ba) (resize_bmap ba mem fresh x e r))
           (\<lambda>x. map_option (map_prod id from_rb) (resize_bmap rb mem fresh x e r))),
        mark_bmap = (\<lambda>b n. via b (\<lambda>x. map_option (map_prod id from_ba) (mark_bmap ba x n))
                                 (\<lambda>x. map_option (map_prod id from_rb) (mark_bmap rb x n))),
        unmark_bmap = (\<lambda>b n. via b (\<lambda>x. map_option (map_prod id from_ba) (unmark_bmap ba x n))
                                   (\<lambda>x. map_option (map_prod id from_rb) (unmark_bmap rb x n))),
        test_bmap = (\<lambda>b n. via b (\<lambda>x. map_option (map_prod id from_ba) (test_bmap ba x n))
                                 (\<lambda>x. map_option (map_prod id from_rb) (test_bmap rb x n))),
        mark_bmap_extent = (\<lambda>b n num. via b (\<lambda>x. map_option from_ba (mark_bmap_extent ba x n num))
                                            (\<lambda>x. map_option from_rb (mark_bmap_extent rb x n num))),
        unmark_bmap_extent = (\<lambda>b n num. via b (\<lambda>x. map_option from_ba (unmark_bmap_extent ba x n num))
                                              (\<lambda>x. map_option from_rb (unmark_bmap_extent rb x n num))),
        test_clear_bmap_extent = (\<lambda>b n num. via b (\<lambda>x. test_clear_bmap_extent ba x n num)
                                                  (\<lambda>x. test_clear_bmap_extent rb x n num)),
        set_bmap_range = (\<lambda>b n num inp. via b (\<lambda>x. map_option (map_prod id from_ba) (set_bmap_range ba x n num inp))
                                              (\<lambda>x. map_option (map_prod id from_rb) (set_bmap_range rb x n num inp))),
        get_bmap_range = (\<lambda>b n num out. via b (\<lambda>x. get_bmap_range ba x n num out)
                                              (\<lambda>x. get_bmap_range rb x n num out)),
        clear_bmap = (\<lambda>b. via b (\<lambda>x. map_option from_ba (clear_bmap ba x))
                                (\<lambda>x. map_option from_rb (clear_bmap rb x))),
        find_first_zero = (\<lambda>b s e. via b (\<lambda>x. find_first_zero ba x s e) (\<lambda>x. find_first_zero rb x s e)),
        find_first_set = (\<lambda>b s e. via b (\<lambda>x. find_first_set ba x s e) (\<lambda>x. find_first_set rb x s e))\<rparr>)"

section \<open>Invariant and abstraction\<close>

definition bm_inv :: "bmap64 \<Rightarrow> bool" where
  "bm_inv b \<longleftrightarrow> via b ba_inv rb_inv"

definition bm_set :: "bmap64 \<Rightarrow> nat set" where
  "bm_set b = via b ba_set rb_set"

lemma retype_sel [simp]:
  "bm_magic (retype b p) = bm_magic b" "bm_start (retype b p) = bm_start b" "bm_end (retype b p) = bm_end b"
  "bm_real_end (retype b p) = bm_real_end b" "bm_cluster_bits (retype b p) = bm_cluster_bits b"
  "bm_private (retype b p) = p"
  by (simp_all add: retype_def)

lemma retype_retype [simp]: "retype (retype b p) q = retype b q"
  by (simp add: retype_def)

lemma retype_self [simp]: "retype b (bm_private b) = b"
  by (simp add: retype_def)

lemma via_from [simp]: "via (from_ba x) f g = f x" "via (from_rb y) f g = g y"
  by (simp_all add: via_def from_ba_def from_rb_def)

lemma bm_cases:
  obtains (ba) x where "b = from_ba x" | (rb) y where "b = from_rb y"
proof (cases "bm_private b")
  case (PBA arr)
  then have "b = from_ba (retype b arr)" by (simp add: from_ba_def) (metis retype_self)
  then show ?thesis by (rule ba)
next
  case (PRB p)
  then have "b = from_rb (retype b p)" by (simp add: from_rb_def) (metis retype_self)
  then show ?thesis by (rule rb)
qed

lemma from_sel [simp]:
  "bm_start (from_ba x) = bm_start x" "bm_end (from_ba x) = bm_end x" "bm_real_end (from_ba x) = bm_real_end x"
  "bm_start (from_rb y) = bm_start y" "bm_end (from_rb y) = bm_end y" "bm_real_end (from_rb y) = bm_real_end y"
  by (simp_all add: from_ba_def from_rb_def)

lemma same_frame_from [simp]:
  "same_frame (from_ba x) (from_ba x') = same_frame x x'" "same_frame (from_rb y) (from_rb y') = same_frame y y'"
  by (cases x; cases x'; simp add: same_frame_def from_ba_def retype_def)
    (cases y; cases y'; simp add: same_frame_def from_rb_def retype_def)

lemma bm_inv_from [simp]: "bm_inv (from_ba x) = ba_inv x" "bm_inv (from_rb y) = rb_inv y"
  and bm_set_from [simp]: "bm_set (from_ba x) = ba_set x" "bm_set (from_rb y) = rb_set y"
  by (simp_all add: bm_inv_def bm_set_def)

abbreviation env_ba :: "bm_env \<Rightarrow> u8 list bitmap_ops" where
  "env_ba env \<equiv> ext2fs_blkmap64_bitarray (env_fresh env) (env_base env)"

abbreviation env_rb :: "bm_env \<Rightarrow> rb_private bitmap_ops" where
  "env_rb env \<equiv> ext2fs_blkmap64_rbtree (env_shape env)"

lemma bmap_ops_ba [simp]:
  "test_bmap (bmap_ops env) (from_ba x) n = map_option (map_prod id from_ba) (test_bmap (env_ba env) x n)"
  "mark_bmap (bmap_ops env) (from_ba x) n = map_option (map_prod id from_ba) (mark_bmap (env_ba env) x n)"
  "unmark_bmap (bmap_ops env) (from_ba x) n = map_option (map_prod id from_ba) (unmark_bmap (env_ba env) x n)"
  "mark_bmap_extent (bmap_ops env) (from_ba x) n k = map_option from_ba (mark_bmap_extent (env_ba env) x n k)"
  "unmark_bmap_extent (bmap_ops env) (from_ba x) n k = map_option from_ba (unmark_bmap_extent (env_ba env) x n k)"
  "test_clear_bmap_extent (bmap_ops env) (from_ba x) n k = test_clear_bmap_extent (env_ba env) x n k"
  "clear_bmap (bmap_ops env) (from_ba x) = map_option from_ba (clear_bmap (env_ba env) x)"
  "find_first_zero (bmap_ops env) (from_ba x) n e = find_first_zero (env_ba env) x n e"
  "find_first_set (bmap_ops env) (from_ba x) n e = find_first_set (env_ba env) x n e"
  "new_bmap (bmap_ops env) mem (from_ba x) = map_option (map_prod id from_ba) (new_bmap (env_ba env) mem x)"
  "copy_bmap (bmap_ops env) mem (from_ba x) d =
     map_option (map_prod id (map_prod from_ba from_ba)) (copy_bmap (env_ba env) mem x (retype d []))"
  by (simp_all add: bmap_ops_def Let_def)

lemma bmap_ops_rb [simp]:
  "test_bmap (bmap_ops env) (from_rb y) n = map_option (map_prod id from_rb) (test_bmap (env_rb env) y n)"
  "mark_bmap (bmap_ops env) (from_rb y) n = map_option (map_prod id from_rb) (mark_bmap (env_rb env) y n)"
  "unmark_bmap (bmap_ops env) (from_rb y) n = map_option (map_prod id from_rb) (unmark_bmap (env_rb env) y n)"
  "mark_bmap_extent (bmap_ops env) (from_rb y) n k = map_option from_rb (mark_bmap_extent (env_rb env) y n k)"
  "unmark_bmap_extent (bmap_ops env) (from_rb y) n k = map_option from_rb (unmark_bmap_extent (env_rb env) y n k)"
  "test_clear_bmap_extent (bmap_ops env) (from_rb y) n k = test_clear_bmap_extent (env_rb env) y n k"
  "clear_bmap (bmap_ops env) (from_rb y) = map_option from_rb (clear_bmap (env_rb env) y)"
  "find_first_zero (bmap_ops env) (from_rb y) n e = find_first_zero (env_rb env) y n e"
  "find_first_set (bmap_ops env) (from_rb y) n e = find_first_set (env_rb env) y n e"
  "new_bmap (bmap_ops env) mem (from_rb y) = map_option (map_prod id from_rb) (new_bmap (env_rb env) mem y)"
  "copy_bmap (bmap_ops env) mem (from_rb y) d =
     map_option (map_prod id (map_prod from_rb from_rb)) (copy_bmap (env_rb env) mem y (retype d rb_empty_private))"
  by (simp_all add: bmap_ops_def Let_def)

lemma ex_from_result:
  "(\<exists>r b'. (\<exists>b. A r b \<and> f b = b') \<and> P r b') \<longleftrightarrow> (\<exists>r b. A r b \<and> P r (f b))"
  "(\<exists>b'. (\<exists>b. B b \<and> f b = b') \<and> Q b') \<longleftrightarrow> (\<exists>b. B b \<and> Q (f b))"
  by blast+

interpretation bm: bitmap_backend "bmap_ops env" bm_set bm_inv for env
proof (unfold_locales, goal_cases)
  case (1 b)
  then show ?case by (cases b rule: bm_cases) (use ba.frame rb.frame in auto)
next
  case (2 b n)
  then show ?case by (cases b rule: bm_cases) (simp_all add: ex_from_result ba.test rb.test)
next
  case (3 b n)
  then show ?case by (cases b rule: bm_cases) (simp_all add: ex_from_result ba.mark rb.mark)
next
  case (4 b n)
  then show ?case by (cases b rule: bm_cases) (simp_all add: ex_from_result ba.unmark rb.unmark)
next
  case (5 b n num)
  then show ?case by (cases b rule: bm_cases) (simp_all add: ex_from_result ba.mark_extent rb.mark_extent)
next
  case (6 b n num)
  then show ?case by (cases b rule: bm_cases) (simp_all add: ex_from_result ba.unmark_extent rb.unmark_extent)
next
  case (7 b n num)
  then show ?case by (cases b rule: bm_cases) (simp_all add: ba.test_clear rb.test_clear)
next
  case (8 b)
  then show ?case by (cases b rule: bm_cases) (simp_all add: ex_from_result ba.clear rb.clear)
next
  case (9 b s e)
  then show ?case by (cases b rule: bm_cases) (simp_all add: ba.first_set rb.first_set)
next
  case (10 b s e)
  then show ?case by (cases b rule: bm_cases) (simp_all add: ba.first_zero rb.first_zero)
qed

interpretation bm_alloc: bitmap_backend_alloc "bmap_ops env" bm_set bm_inv for env
proof (unfold_locales, goal_cases)
  case (1 mem b)
  then show ?case by (cases b rule: bm_cases) (simp_all add: ex_from_result ba_alloc.new rb_alloc.new)
next
  case (2 mem b r b')
  then show ?case
    by (cases b rule: bm_cases) (auto dest!: ba_alloc.new_result rb_alloc.new_result)
next
  case (3 mem src dest)
  show ?case
  proof (cases src rule: bm_cases)
    case (ba x)
    have sf: "same_frame dest (from_ba d)" if "same_frame (retype dest []) d" for d
      using that by (cases d; cases dest) (simp add: same_frame_def from_ba_def retype_def)
    have "ba_inv x" "bm_start (retype dest []) = bm_start x" "bm_end (retype dest []) = bm_end x"
      "bm_real_end (retype dest []) = bm_real_end x" using 3 ba by simp_all
    from ba_alloc.copy [OF 3(1) this, of "env_fresh env" "env_base env"] show ?thesis
      by (elim exE conjE) (simp add: ba sf)
  next
    case (rb y)
    have sf: "same_frame dest (from_rb d)" if "same_frame (retype dest rb_empty_private) d" for d
      using that by (cases d; cases dest) (simp add: same_frame_def from_rb_def retype_def)
    have "rb_inv y" "bm_start (retype dest rb_empty_private) = bm_start y" "bm_end (retype dest rb_empty_private) = bm_end y"
      "bm_real_end (retype dest rb_empty_private) = bm_real_end y" using 3 rb by simp_all
    from rb_alloc.copy [OF 3(1) this, of "env_shape env"] show ?thesis
      by (elim exE conjE) (simp add: rb sf)
  qed
qed

end
