(* ===== verification/Gen_Bitmap64.thy ===== *)
theory Gen_Bitmap64
  imports Gen_Bitmap32 Bmap_Ops
begin

text \<open>
  The generic bitmap layer, \<^verbatim>\<open>lib/ext2fs/gen_bitmap64.c\<close>, and the allocation functions of
  \<^verbatim>\<open>lib/ext2fs/bitmaps.c\<close>. A generic bitmap pointer is \<open>None\<close> (NULL), a legacy 32-bit
  bitmap or a 64-bit bitmap; every function starts with the tests of the code for NULL and for the magic
  number. The 64-bit functions take the operation table as an argument, so what the layer guarantees
  is proved once, from the contract of a back end. Block numbers become cluster numbers by a right shift of
  \<^verbatim>\<open>cluster_bits\<close>. Warnings only print and are left out; a 64-bit object with a 32-bit magic is an
  access to a wrong type, \<open>None\<close>.
\<close>

section \<open>Objects\<close>

datatype 'p any_bmap = B32 bitmap32 | B64 "'p bmap"

record fs_view =
  fs_cluster_ratio_bits :: nat
  fs_inodes_count :: nat
  fs_first_data_block :: nat
  fs_blocks_count :: nat
  fs_clusters_per_group :: nat
  fs_blocks_per_group :: nat
  fs_inodes_per_group :: nat
  fs_group_desc_count :: nat
  fs_flag_64bits :: bool
  fs_default_bitmap_type :: nat

text \<open>\<^verbatim>\<open>ext2fs_get_num_dirs\<close> reads the group descriptors; its result, an error code or the
  number of directories, is an argument.\<close>

definition choose_backend :: "fs_view \<Rightarrow> errcode + nat \<Rightarrow> nat \<Rightarrow> errcode + nat" where
  "choose_backend fs num_dirs type0 =
     (let type = (if type0 = 0 then 1 else type0) in
      if type = 1 then Inr 1
      else if type = 2 then Inr 2
      else if type = 3 then
        (case num_dirs of Inl _ \<Rightarrow> Inr 1 | Inr n \<Rightarrow> if n > fs_inodes_count fs div 320 then Inr 1 else Inr 2)
      else Inl EINVAL)"

definition base_error_code64 :: "errcode \<Rightarrow> errcode" where
  "base_error_code64 magic =
     (if magic = EXT2_ET_MAGIC_INODE_BITMAP64 then EXT2_ET_BAD_INODE_MARK
      else if magic = EXT2_ET_MAGIC_BLOCK_BITMAP64 then EXT2_ET_BAD_BLOCK_MARK
      else EXT2_ET_BAD_GENERIC_MARK)"

definition ext2fs_alloc_generic_bmap ::
  "bm_env \<Rightarrow> allocator \<Rightarrow> fs_view \<Rightarrow> errcode + nat \<Rightarrow> errcode \<Rightarrow> nat \<Rightarrow> u64 \<Rightarrow> u64 \<Rightarrow> u64 \<Rightarrow> string option \<Rightarrow>
   (errcode + bmap64) option" where
  "ext2fs_alloc_generic_bmap env mem fs num_dirs magic type start end real_end descr =
     (case choose_backend fs num_dirs type of
        Inl e \<Rightarrow> Some (Inl e)
      | Inr t \<Rightarrow>
          if \<not> mem 88 then Some (Inl EXT2_ET_NO_MEMORY)
          else if descr \<noteq> None \<and> \<not> mem (length (the descr) + 1) then Some (Inl EXT2_ET_NO_MEMORY)
          else
            let bitmap = \<lparr>bm_magic = magic, bm_start = start, bm_end = end, bm_real_end = real_end,
                  bm_cluster_bits = (if magic = EXT2_ET_MAGIC_BLOCK_BITMAP64 then fs_cluster_ratio_bits fs else 0),
                  bm_description = descr, bm_base_error_code = base_error_code64 magic,
                  bm_private = (if t = 1 then PBA [] else PRB rb_empty_private)\<rparr>
            in do { (retval, b) \<leftarrow> new_bmap (bmap_ops env) mem bitmap;
                    Some (if retval \<noteq> 0 then Inl retval else Inr b) })"

definition ext2fs_copy_generic_bmap ::
  "'p bitmap_ops \<Rightarrow> allocator \<Rightarrow> 'p any_bmap option \<Rightarrow> (errcode + 'p any_bmap \<times> 'p any_bmap) option" where
  "ext2fs_copy_generic_bmap ops mem src =
     (case src of
        None \<Rightarrow> Some (Inl EINVAL)
      | Some (B32 b) \<Rightarrow>
          if EXT2FS_IS_32_BITMAP (g_magic b) then
            do { r \<leftarrow> ext2fs_copy_generic_bitmap mem b;
                 Some (case r of Inl e \<Rightarrow> Inl e | Inr c \<Rightarrow> Inr (B32 b, B32 c)) }
          else if EXT2FS_IS_64_BITMAP (g_magic b) then None else Some (Inl EINVAL)
      | Some (B64 b) \<Rightarrow>
          if EXT2FS_IS_32_BITMAP (bm_magic b) then None
          else if \<not> EXT2FS_IS_64_BITMAP (bm_magic b) then Some (Inl EINVAL)
          else if \<not> mem 88 then Some (Inl EXT2_ET_NO_MEMORY)
          else
            let new_descr = map_option (\<lambda>d. ''copy of '' @ d) (bm_description b) in
            if bm_description b \<noteq> None \<and> \<not> mem (length (the (bm_description b)) + 10)
            then Some (Inl EXT2_ET_NO_MEMORY)
            else do { (retval, b', c) \<leftarrow> copy_bmap ops mem b (b\<lparr>bm_description := new_descr\<rparr>);
                      Some (if retval \<noteq> 0 then Inl retval else Inr (B64 b', B64 c)) })"

definition ext2fs_resize_generic_bmap ::
  "'p bitmap_ops \<Rightarrow> allocator \<Rightarrow> (nat \<Rightarrow> u8) \<Rightarrow> 'p any_bmap option \<Rightarrow> u64 \<Rightarrow> u64 \<Rightarrow> (errcode \<times> 'p any_bmap option) option" where
  "ext2fs_resize_generic_bmap ops mem fresh bmap new_end new_real_end =
     (case bmap of
        None \<Rightarrow> Some (EINVAL, None)
      | Some (B32 b) \<Rightarrow>
          if EXT2FS_IS_32_BITMAP (g_magic b) then
            do { (e, b') \<leftarrow> ext2fs_resize_generic_bitmap mem fresh (g_magic b) (new_end mod W32) (new_real_end mod W32) (Some b);
                 Some (e, map_option B32 b') }
          else if EXT2FS_IS_64_BITMAP (g_magic b) then None else Some (EINVAL, bmap)
      | Some (B64 b) \<Rightarrow>
          if EXT2FS_IS_32_BITMAP (bm_magic b) then None
          else if \<not> EXT2FS_IS_64_BITMAP (bm_magic b) then Some (EINVAL, bmap)
          else do { (e, b') \<leftarrow> resize_bmap ops mem fresh b new_end new_real_end; Some (e, Some (B64 b')) })"

definition ext2fs_fudge_generic_bmap_end ::
  "'p any_bmap option \<Rightarrow> errcode \<Rightarrow> u64 \<Rightarrow> (errcode \<times> u64 option \<times> 'p any_bmap option) option" where
  "ext2fs_fudge_generic_bmap_end bitmap neq end =
     (case bitmap of
        None \<Rightarrow> Some (EINVAL, None, None)
      | Some (B32 b) \<Rightarrow>
          if EXT2FS_IS_32_BITMAP (g_magic b) then
            (case ext2fs_fudge_generic_bitmap_end b (g_magic b) neq (end mod W32) of
               (e, oend, b') \<Rightarrow> Some (e, oend, Some (B32 b')))
          else if EXT2FS_IS_64_BITMAP (g_magic b) then None else Some (EINVAL, None, bitmap)
      | Some (B64 b) \<Rightarrow>
          if EXT2FS_IS_32_BITMAP (bm_magic b) then None
          else if \<not> EXT2FS_IS_64_BITMAP (bm_magic b) then Some (EINVAL, None, bitmap)
          else if end > bm_real_end b then Some (neq, None, bitmap)
          else Some (0, Some (bm_end b), Some (B64 (b\<lparr>bm_end := end\<rparr>))))"

definition ext2fs_get_generic_bmap_start :: "'p any_bmap option \<Rightarrow> u64 option" where
  "ext2fs_get_generic_bmap_start bitmap =
     (case bitmap of
        None \<Rightarrow> Some (nat EINVAL)
      | Some (B32 b) \<Rightarrow>
          if EXT2FS_IS_32_BITMAP (g_magic b) then ext2fs_get_generic_bitmap_start b
          else if EXT2FS_IS_64_BITMAP (g_magic b) then None else Some (nat EINVAL)
      | Some (B64 b) \<Rightarrow>
          if EXT2FS_IS_32_BITMAP (bm_magic b) then None
          else if \<not> EXT2FS_IS_64_BITMAP (bm_magic b) then Some (nat EINVAL) else Some (bm_start b))"

definition ext2fs_get_generic_bmap_end :: "'p any_bmap option \<Rightarrow> u64 option" where
  "ext2fs_get_generic_bmap_end bitmap =
     (case bitmap of
        None \<Rightarrow> Some (nat EINVAL)
      | Some (B32 b) \<Rightarrow>
          if EXT2FS_IS_32_BITMAP (g_magic b) then ext2fs_get_generic_bitmap_end b
          else if EXT2FS_IS_64_BITMAP (g_magic b) then None else Some (nat EINVAL)
      | Some (B64 b) \<Rightarrow>
          if EXT2FS_IS_32_BITMAP (bm_magic b) then None
          else if \<not> EXT2FS_IS_64_BITMAP (bm_magic b) then Some (nat EINVAL) else Some (bm_end b))"

text \<open>\<^verbatim>\<open>ext2fs_clear_generic_bmap\<close> and \<^verbatim>\<open>ext2fs_set_generic_bmap_padding\<close>
  do not test for NULL or for a 64-bit magic.\<close>

definition ext2fs_clear_generic_bmap :: "'p bitmap_ops \<Rightarrow> 'p any_bmap \<Rightarrow> 'p any_bmap option" where
  "ext2fs_clear_generic_bmap ops bitmap =
     (case bitmap of
        B32 b \<Rightarrow> if EXT2FS_IS_32_BITMAP (g_magic b) then map_option B32 (ext2fs_clear_generic_bitmap b) else None
      | B64 b \<Rightarrow> if EXT2FS_IS_32_BITMAP (bm_magic b) then None else map_option B64 (clear_bmap ops b))"

definition ext2fs_set_generic_bmap_padding :: "'p bitmap_ops \<Rightarrow> 'p any_bmap \<Rightarrow> 'p any_bmap option" where
  "ext2fs_set_generic_bmap_padding ops bitmap =
     (case bitmap of
        B32 b \<Rightarrow> if EXT2FS_IS_32_BITMAP (g_magic b) then map_option B32 (ext2fs_set_generic_bitmap_padding b) else None
      | B64 b \<Rightarrow>
          if EXT2FS_IS_32_BITMAP (bm_magic b) then None
          else let start = add64 (bm_end b) 1; num = sub64 (bm_real_end b) (bm_end b)
               in map_option B64 (mark_bmap_extent ops b start (num mod W32)))"

section \<open>Single numbers\<close>

text \<open>The three single-bit functions: tests, shift, range check, call of the table.\<close>

definition ext2fs_mark_generic_bmap ::
  "'p bitmap_ops \<Rightarrow> 'p any_bmap option \<Rightarrow> u64 \<Rightarrow> (int \<times> 'p any_bmap option) option" where
  "ext2fs_mark_generic_bmap ops bitmap arg =
     (case bitmap of
        None \<Rightarrow> Some (0, None)
      | Some (B32 b) \<Rightarrow>
          if EXT2FS_IS_32_BITMAP (g_magic b) then
            (if arg \<ge> W32 then Some (0, bitmap)
             else do { (r, b') \<leftarrow> ext2fs_mark_generic_bitmap b arg; Some (r, Some (B32 b')) })
          else if EXT2FS_IS_64_BITMAP (g_magic b) then None else Some (0, bitmap)
      | Some (B64 b) \<Rightarrow>
          if EXT2FS_IS_32_BITMAP (bm_magic b) then None
          else if \<not> EXT2FS_IS_64_BITMAP (bm_magic b) then Some (0, bitmap)
          else let arg = arg div 2 ^ bm_cluster_bits b in
            if arg < bm_start b \<or> arg > bm_end b then Some (0, bitmap)
            else do { (r, b') \<leftarrow> mark_bmap ops b arg; Some (r, Some (B64 b')) })"

definition ext2fs_unmark_generic_bmap ::
  "'p bitmap_ops \<Rightarrow> 'p any_bmap option \<Rightarrow> u64 \<Rightarrow> (int \<times> 'p any_bmap option) option" where
  "ext2fs_unmark_generic_bmap ops bitmap arg =
     (case bitmap of
        None \<Rightarrow> Some (0, None)
      | Some (B32 b) \<Rightarrow>
          if EXT2FS_IS_32_BITMAP (g_magic b) then
            (if arg \<ge> W32 then Some (0, bitmap)
             else do { (r, b') \<leftarrow> ext2fs_unmark_generic_bitmap b arg; Some (r, Some (B32 b')) })
          else if EXT2FS_IS_64_BITMAP (g_magic b) then None else Some (0, bitmap)
      | Some (B64 b) \<Rightarrow>
          if EXT2FS_IS_32_BITMAP (bm_magic b) then None
          else if \<not> EXT2FS_IS_64_BITMAP (bm_magic b) then Some (0, bitmap)
          else let arg = arg div 2 ^ bm_cluster_bits b in
            if arg < bm_start b \<or> arg > bm_end b then Some (0, bitmap)
            else do { (r, b') \<leftarrow> unmark_bmap ops b arg; Some (r, Some (B64 b')) })"

definition ext2fs_test_generic_bmap ::
  "'p bitmap_ops \<Rightarrow> 'p any_bmap option \<Rightarrow> u64 \<Rightarrow> (int \<times> 'p any_bmap option) option" where
  "ext2fs_test_generic_bmap ops bitmap arg =
     (case bitmap of
        None \<Rightarrow> Some (0, None)
      | Some (B32 b) \<Rightarrow>
          if EXT2FS_IS_32_BITMAP (g_magic b) then
            (if arg \<ge> W32 then Some (0, bitmap)
             else do { r \<leftarrow> ext2fs_test_generic_bitmap b arg; Some (r, bitmap) })
          else if EXT2FS_IS_64_BITMAP (g_magic b) then None else Some (0, bitmap)
      | Some (B64 b) \<Rightarrow>
          if EXT2FS_IS_32_BITMAP (bm_magic b) then None
          else if \<not> EXT2FS_IS_64_BITMAP (bm_magic b) then Some (0, bitmap)
          else let arg = arg div 2 ^ bm_cluster_bits b in
            if arg < bm_start b \<or> arg > bm_end b then Some (0, bitmap)
            else do { (r, b') \<leftarrow> test_bmap ops b arg; Some (r, Some (B64 b')) })"

section \<open>Byte ranges\<close>

definition last_of_range :: "u64 \<Rightarrow> nat \<Rightarrow> u64" where
  "last_of_range start num = sub64 (add64 start num) 1"

definition ext2fs_set_generic_bmap_range ::
  "'p bitmap_ops \<Rightarrow> 'p any_bmap option \<Rightarrow> u64 \<Rightarrow> nat \<Rightarrow> u8 list \<Rightarrow> (errcode \<times> 'p any_bmap option) option" where
  "ext2fs_set_generic_bmap_range ops bmap start num src =
     (case bmap of
        None \<Rightarrow> Some (EINVAL, None)
      | Some (B32 b) \<Rightarrow>
          if EXT2FS_IS_32_BITMAP (g_magic b) then
            (if last_of_range start num \<ge> W32 then Some (EINVAL, bmap)
             else do { (e, b') \<leftarrow> ext2fs_set_generic_bitmap_range (Some b) (g_magic b) (start mod W32) num src;
                       Some (e, map_option B32 b') })
          else if EXT2FS_IS_64_BITMAP (g_magic b) then None else Some (EINVAL, bmap)
      | Some (B64 b) \<Rightarrow>
          if EXT2FS_IS_32_BITMAP (bm_magic b) then None
          else if \<not> EXT2FS_IS_64_BITMAP (bm_magic b) then Some (EINVAL, bmap)
          else do { (e, b') \<leftarrow> set_bmap_range ops b start num src; Some (e, Some (B64 b')) })"

definition ext2fs_get_generic_bmap_range ::
  "'p bitmap_ops \<Rightarrow> 'p any_bmap option \<Rightarrow> u64 \<Rightarrow> nat \<Rightarrow> u8 list \<Rightarrow> (errcode \<times> u8 list) option" where
  "ext2fs_get_generic_bmap_range ops bmap start num out =
     (case bmap of
        None \<Rightarrow> Some (EINVAL, out)
      | Some (B32 b) \<Rightarrow>
          if EXT2FS_IS_32_BITMAP (g_magic b) then
            (if last_of_range start num \<ge> W32 then Some (EINVAL, out)
             else ext2fs_get_generic_bitmap_range (Some b) (g_magic b) (start mod W32) num out)
          else if EXT2FS_IS_64_BITMAP (g_magic b) then None else Some (EINVAL, out)
      | Some (B64 b) \<Rightarrow>
          if EXT2FS_IS_32_BITMAP (bm_magic b) then None
          else if \<not> EXT2FS_IS_64_BITMAP (bm_magic b) then Some (EINVAL, out)
          else get_bmap_range ops b start num out)"

section \<open>Comparison\<close>

definition any_magic :: "'p any_bmap \<Rightarrow> errcode" where
  "any_magic b = (case b of B32 g \<Rightarrow> g_magic g | B64 m \<Rightarrow> bm_magic m)"

text \<open>Testing may move the cursors of a bitmap, so the loop hands both bitmaps on.\<close>

partial_function (option) compare_tail64 ::
  "'p bitmap_ops \<Rightarrow> errcode \<Rightarrow> 'p any_bmap option \<Rightarrow> 'p any_bmap option \<Rightarrow> u64 \<Rightarrow> u64 \<Rightarrow>
   (errcode \<times> 'p any_bmap option \<times> 'p any_bmap option) option" where
  "compare_tail64 ops neq bm1 bm2 end i =
     (if i \<le> end
      then do { ra \<leftarrow> ext2fs_test_generic_bmap ops bm1 i;
                rb \<leftarrow> ext2fs_test_generic_bmap ops bm2 i;
                if fst ra \<noteq> fst rb then Some (neq, snd ra, snd rb)
                else compare_tail64 ops neq (snd ra) (snd rb) end (add64 i 1) }
      else Some (0, bm1, bm2))"

definition ext2fs_compare_generic_bmap ::
  "'p bitmap_ops \<Rightarrow> errcode \<Rightarrow> 'p any_bmap option \<Rightarrow> 'p any_bmap option \<Rightarrow>
   (errcode \<times> 'p any_bmap option \<times> 'p any_bmap option) option" where
  "ext2fs_compare_generic_bmap ops neq m1 m2 =
     (case (m1, m2) of
        (Some bm1, Some bm2) \<Rightarrow>
          if any_magic bm1 \<noteq> any_magic bm2 then Some (EINVAL, m1, m2)
          else (case (bm1, bm2) of
            (B32 b1, B32 b2) \<Rightarrow>
              if EXT2FS_IS_32_BITMAP (g_magic b1)
              then do { e \<leftarrow> ext2fs_compare_generic_bitmap (g_magic b1) neq (Some b1) (Some b2); Some (e, m1, m2) }
              else if EXT2FS_IS_64_BITMAP (g_magic b1) then None else Some (EINVAL, m1, m2)
          | (B64 b1, B64 b2) \<Rightarrow>
              if EXT2FS_IS_32_BITMAP (bm_magic b1) then None
              else if \<not> EXT2FS_IS_64_BITMAP (bm_magic b1) then Some (EINVAL, m1, m2)
              else if bm_start b1 \<noteq> bm_start b2 \<or> bm_end b1 \<noteq> bm_end b2 then Some (neq, m1, m2)
              else compare_tail64 ops neq m1 m2 (bm_end b1)
                     (sub64 (bm_end b1) (sub64 (bm_end b1) (bm_start b1) mod 8))
          | _ \<Rightarrow> None)
      | _ \<Rightarrow> Some (EINVAL, m1, m2))"

section \<open>Block ranges\<close>

text \<open>The conversion of a block range to clusters: the first cluster and the number of clusters, in
  an \<^verbatim>\<open>unsigned int\<close>. The code shifts an \<^verbatim>\<open>int\<close>, which is undefined from 31 bits on.\<close>

definition cluster_range :: "nat \<Rightarrow> u64 \<Rightarrow> nat \<Rightarrow> (u64 \<times> nat) option" where
  "cluster_range cluster_bits block num =
     (let end = add64 block num;
          cblock = block div 2 ^ cluster_bits;
          cend = add64 end (2 ^ cluster_bits - 1) div 2 ^ cluster_bits
      in if cluster_bits < 31 then Some (cblock, sub64 cend cblock mod W32) else None)"

definition range_outside :: "'p bmap \<Rightarrow> u64 \<Rightarrow> nat \<Rightarrow> bool" where
  "range_outside b cblock cnum \<longleftrightarrow> cblock < bm_start b \<or> last_of_range cblock cnum > bm_end b"

definition ext2fs_test_block_bitmap_range2 ::
  "'p bitmap_ops \<Rightarrow> 'p any_bmap option \<Rightarrow> u64 \<Rightarrow> nat \<Rightarrow> (int \<times> 'p any_bmap option) option" where
  "ext2fs_test_block_bitmap_range2 ops bmap block num =
     (case bmap of
        None \<Rightarrow> Some (EINVAL, None)
      | Some bm \<Rightarrow>
          if num = 1 then
            do { (r, bm') \<leftarrow> ext2fs_test_generic_bmap ops bmap block; Some (if r = 0 then 1 else 0, bm') }
          else (case bm of
            B32 b \<Rightarrow>
              if EXT2FS_IS_32_BITMAP (g_magic b) then
                (if last_of_range block num \<ge> W32 then Some (EINVAL, bmap)
                 else do { r \<leftarrow> ext2fs_test_block_bitmap_range b (block mod W32) (to_s32 num); Some (r, bmap) })
              else if EXT2FS_IS_64_BITMAP (g_magic b) then None else Some (EINVAL, bmap)
          | B64 b \<Rightarrow>
              if EXT2FS_IS_32_BITMAP (bm_magic b) then None
              else if \<not> EXT2FS_IS_64_BITMAP (bm_magic b) then Some (EINVAL, bmap)
              else do { (cblock, cnum) \<leftarrow> cluster_range (bm_cluster_bits b) block num;
                if range_outside b cblock cnum then Some (EINVAL, bmap)
                else do { r \<leftarrow> test_clear_bmap_extent ops b cblock cnum; Some (r, bmap) } }))"

definition ext2fs_mark_block_bitmap_range2 ::
  "'p bitmap_ops \<Rightarrow> 'p any_bmap option \<Rightarrow> u64 \<Rightarrow> nat \<Rightarrow> 'p any_bmap option option" where
  "ext2fs_mark_block_bitmap_range2 ops bmap block num =
     (case bmap of
        None \<Rightarrow> Some None
      | Some (B32 b) \<Rightarrow>
          if EXT2FS_IS_32_BITMAP (g_magic b) then
            (if last_of_range block num \<ge> W32 then Some bmap
             else map_option (\<lambda>x. Some (B32 x)) (ext2fs_mark_block_bitmap_range b (block mod W32) (to_s32 num)))
          else if EXT2FS_IS_64_BITMAP (g_magic b) then None else Some bmap
      | Some (B64 b) \<Rightarrow>
          if EXT2FS_IS_32_BITMAP (bm_magic b) then None
          else if \<not> EXT2FS_IS_64_BITMAP (bm_magic b) then Some bmap
          else do { (cblock, cnum) \<leftarrow> cluster_range (bm_cluster_bits b) block num;
            if range_outside b cblock cnum then Some bmap
            else map_option (\<lambda>x. Some (B64 x)) (mark_bmap_extent ops b cblock cnum) })"

definition ext2fs_unmark_block_bitmap_range2 ::
  "'p bitmap_ops \<Rightarrow> 'p any_bmap option \<Rightarrow> u64 \<Rightarrow> nat \<Rightarrow> 'p any_bmap option option" where
  "ext2fs_unmark_block_bitmap_range2 ops bmap block num =
     (case bmap of
        None \<Rightarrow> Some None
      | Some (B32 b) \<Rightarrow>
          if EXT2FS_IS_32_BITMAP (g_magic b) then
            (if last_of_range block num \<ge> W32 then Some bmap
             else map_option (\<lambda>x. Some (B32 x)) (ext2fs_unmark_block_bitmap_range b (block mod W32) (to_s32 num)))
          else if EXT2FS_IS_64_BITMAP (g_magic b) then None else Some bmap
      | Some (B64 b) \<Rightarrow>
          if EXT2FS_IS_32_BITMAP (bm_magic b) then None
          else if \<not> EXT2FS_IS_64_BITMAP (bm_magic b) then Some bmap
          else do { (cblock, cnum) \<leftarrow> cluster_range (bm_cluster_bits b) block num;
            if range_outside b cblock cnum then Some bmap
            else map_option (\<lambda>x. Some (B64 x)) (unmark_bmap_extent ops b cblock cnum) })"

section \<open>Searching\<close>

text \<open>Both back ends provide the two search operations, so the bit-by-bit fallback loop of the code is
  never reached and is left out.\<close>

definition find_first_result :: "nat \<Rightarrow> u64 \<Rightarrow> errcode + u64 \<Rightarrow> errcode + u64" where
  "find_first_result cluster_bits start r =
     (case r of
        Inl e \<Rightarrow> Inl e
      | Inr cout \<Rightarrow> let c = (cout * 2 ^ cluster_bits) mod W64 in Inr (if c \<ge> start then c else start))"

definition ext2fs_find_first_zero_generic_bmap ::
  "'p bitmap_ops \<Rightarrow> 'p any_bmap option \<Rightarrow> u64 \<Rightarrow> u64 \<Rightarrow> (errcode + u64) option" where
  "ext2fs_find_first_zero_generic_bmap ops bitmap start end =
     (case bitmap of
        None \<Rightarrow> Some (Inl EINVAL)
      | Some (B32 b) \<Rightarrow>
          if EXT2FS_IS_32_BITMAP (g_magic b) then
            (if start \<ge> W32 \<or> end \<ge> W32 then Some (Inl EINVAL)
             else ext2fs_find_first_zero_generic_bitmap b start end)
          else if EXT2FS_IS_64_BITMAP (g_magic b) then None else Some (Inl EINVAL)
      | Some (B64 b) \<Rightarrow>
          if EXT2FS_IS_32_BITMAP (bm_magic b) then None
          else if \<not> EXT2FS_IS_64_BITMAP (bm_magic b) then Some (Inl EINVAL)
          else let cstart = start div 2 ^ bm_cluster_bits b; cend = end div 2 ^ bm_cluster_bits b in
            if cstart < bm_start b \<or> cend > bm_end b \<or> start > end then Some (Inl EINVAL)
            else map_option (find_first_result (bm_cluster_bits b) start) (find_first_zero ops b cstart cend))"

definition ext2fs_find_first_set_generic_bmap ::
  "'p bitmap_ops \<Rightarrow> 'p any_bmap option \<Rightarrow> u64 \<Rightarrow> u64 \<Rightarrow> (errcode + u64) option" where
  "ext2fs_find_first_set_generic_bmap ops bitmap start end =
     (case bitmap of
        None \<Rightarrow> Some (Inl EINVAL)
      | Some (B32 b) \<Rightarrow>
          if EXT2FS_IS_32_BITMAP (g_magic b) then
            (if start \<ge> W32 \<or> end \<ge> W32 then Some (Inl EINVAL)
             else ext2fs_find_first_set_generic_bitmap b start end)
          else if EXT2FS_IS_64_BITMAP (g_magic b) then None else Some (Inl EINVAL)
      | Some (B64 b) \<Rightarrow>
          if EXT2FS_IS_32_BITMAP (bm_magic b) then None
          else if \<not> EXT2FS_IS_64_BITMAP (bm_magic b) then Some (Inl EINVAL)
          else let cstart = start div 2 ^ bm_cluster_bits b; cend = end div 2 ^ bm_cluster_bits b in
            if cstart < bm_start b \<or> cend > bm_end b \<or> start > end then Some (Inl EINVAL)
            else map_option (find_first_result (bm_cluster_bits b) start) (find_first_set ops b cstart cend))"

section \<open>Allocation from a file system\<close>

abbreviation EXT2_ET_CANT_USE_LEGACY_BITMAPS :: errcode where
  "EXT2_ET_CANT_USE_LEGACY_BITMAPS \<equiv> 2133571465"

definition or_legacy ::
  "allocator \<Rightarrow> errcode \<Rightarrow> u64 \<Rightarrow> u64 \<Rightarrow> u64 \<Rightarrow> string option \<Rightarrow> (errcode + priv any_bmap) option" where
  "or_legacy mem magic start end real_end descr =
     (if end > W32 - 1 \<or> real_end > W32 - 1 then Some (Inl EXT2_ET_CANT_USE_LEGACY_BITMAPS)
      else map_option (map_sum id B32)
             (ext2fs_make_generic_bitmap mem magic (start mod W32) end real_end descr None))"

definition ext2fs_allocate_inode_bitmap ::
  "bm_env \<Rightarrow> allocator \<Rightarrow> fs_view \<Rightarrow> errcode + nat \<Rightarrow> string option \<Rightarrow> (errcode + priv any_bmap) option" where
  "ext2fs_allocate_inode_bitmap env mem fs num_dirs descr =
     (let start = 1;
          end = fs_inodes_count fs;
          real_end = (fs_inodes_per_group fs * fs_group_desc_count fs) mod W32
      in if fs_flag_64bits fs
         then map_option (map_sum id B64)
                (ext2fs_alloc_generic_bmap env mem fs num_dirs EXT2_ET_MAGIC_INODE_BITMAP64
                   (fs_default_bitmap_type fs) start end real_end descr)
         else or_legacy mem EXT2_ET_MAGIC_INODE_BITMAP start end real_end descr)"

definition ext2fs_allocate_block_bitmap ::
  "bm_env \<Rightarrow> allocator \<Rightarrow> fs_view \<Rightarrow> errcode + nat \<Rightarrow> string option \<Rightarrow> (errcode + priv any_bmap) option" where
  "ext2fs_allocate_block_bitmap env mem fs num_dirs descr =
     (let start = fs_first_data_block fs div 2 ^ fs_cluster_ratio_bits fs;
          end = sub64 (fs_blocks_count fs) 1 div 2 ^ fs_cluster_ratio_bits fs;
          real_end = add64 (sub64 ((fs_clusters_per_group fs * fs_group_desc_count fs) mod W64) 1) start
      in if fs_flag_64bits fs
         then map_option (map_sum id B64)
                (ext2fs_alloc_generic_bmap env mem fs num_dirs EXT2_ET_MAGIC_BLOCK_BITMAP64
                   (fs_default_bitmap_type fs) start end real_end descr)
         else or_legacy mem EXT2_ET_MAGIC_BLOCK_BITMAP start end real_end descr)"

definition ext2fs_allocate_subcluster_bitmap ::
  "bm_env \<Rightarrow> allocator \<Rightarrow> fs_view \<Rightarrow> errcode + nat \<Rightarrow> string option \<Rightarrow> (errcode + priv any_bmap) option" where
  "ext2fs_allocate_subcluster_bitmap env mem fs num_dirs descr =
     (if fs_cluster_ratio_bits fs = 0 then ext2fs_allocate_block_bitmap env mem fs num_dirs descr
      else if \<not> fs_flag_64bits fs then Some (Inl EXT2_ET_CANT_USE_LEGACY_BITMAPS)
      else
        let start = fs_first_data_block fs;
            end = sub64 (fs_blocks_count fs) 1;
            real_end = add64 (sub64 ((fs_blocks_per_group fs * fs_group_desc_count fs) mod W64) 1) start
        in do { r \<leftarrow> ext2fs_alloc_generic_bmap env mem fs num_dirs EXT2_ET_MAGIC_BLOCK_BITMAP64
                       (fs_default_bitmap_type fs) start end real_end descr;
                Some (case r of Inl e \<Rightarrow> Inl e | Inr b \<Rightarrow> Inr (B64 (b\<lparr>bm_cluster_bits := 0\<rparr>))) })"

definition ext2fs_get_bitmap_granularity :: "'p any_bmap \<Rightarrow> nat" where
  "ext2fs_get_bitmap_granularity bitmap =
     (case bitmap of
        B32 _ \<Rightarrow> 0
      | B64 b \<Rightarrow> if \<not> EXT2FS_IS_64_BITMAP (bm_magic b) then 0 else bm_cluster_bits b)"

text \<open>The conversion of a per-block bitmap to a per-cluster bitmap. Both objects are 64-bit bitmaps:
  a legacy bitmap has granularity 0, and only a file system with clusters converts.\<close>

partial_function (option) convert_loop ::
  "'p bitmap_ops \<Rightarrow> nat \<Rightarrow> u64 \<Rightarrow> 'p any_bmap option \<Rightarrow> 'p any_bmap option \<Rightarrow> u64 \<Rightarrow> nat \<Rightarrow>
   ('p any_bmap option \<times> 'p any_bmap option) option" where
  "convert_loop ops ratio real_end bmap cmap i n =
     (if i < real_end then
        do { t \<leftarrow> ext2fs_test_generic_bmap ops bmap i;
             if fst t \<noteq> 0
             then do { m \<leftarrow> ext2fs_mark_generic_bmap ops cmap i;
                       convert_loop ops ratio real_end (snd t) (snd m) (add64 i (ratio - n)) 0 }
             else convert_loop ops ratio real_end (snd t) cmap (add64 i 1) (if n + 1 \<ge> ratio then 0 else n + 1) }
      else Some (bmap, cmap))"

definition ext2fs_convert_subcluster_bitmap ::
  "bm_env \<Rightarrow> allocator \<Rightarrow> fs_view \<Rightarrow> errcode + nat \<Rightarrow> bmap64 \<Rightarrow> (errcode \<times> priv any_bmap) option" where
  "ext2fs_convert_subcluster_bitmap env mem fs num_dirs bmap =
     (if fs_cluster_ratio_bits fs = ext2fs_get_bitmap_granularity (B64 bmap) then Some (0, B64 bmap)
      else do {
        r \<leftarrow> ext2fs_allocate_block_bitmap env mem fs num_dirs (Some ''converted cluster bitmap'');
        (case r of
           Inl e \<Rightarrow> Some (e, B64 bmap)
         | Inr (B32 c) \<Rightarrow> None
         | Inr (B64 c) \<Rightarrow> do {
             (b', c') \<leftarrow> convert_loop (bmap_ops env) (2 ^ fs_cluster_ratio_bits fs) (bm_real_end bmap)
                          (Some (B64 (bmap\<lparr>bm_end := bm_real_end bmap\<rparr>)))
                          (Some (B64 (c\<lparr>bm_end := bm_real_end c\<rparr>))) (bm_start bmap) 0;
             (case c' of
                Some (B64 d) \<Rightarrow> Some (0, B64 (d\<lparr>bm_end := bm_end c\<rparr>))
              | _ \<Rightarrow> None) }) })"

end
