(* ===== verification/Gen_Bitmap64_Correct.thy ===== *)
theory Gen_Bitmap64_Correct
  imports Gen_Bitmap64
begin

text \<open>
  What the generic layer guarantees for any back end that meets the contract: every function is
  defined for every argument, keeps the invariant, and changes the set of marked clusters exactly as
  documented, the numbers outside \<open>[start, end]\<close> being refused. The last section describes a
  sequence of calls by an abstract specification on sets and shows that both back ends implement it, so
  a client cannot tell them apart.
\<close>

section \<open>Abstract specification\<close>

text \<open>A client sees the range \<open>[start, end]\<close> and the cluster shift of a bitmap, and a set of cluster
  numbers.\<close>

record bm_view =
  v_start :: u64
  v_end :: u64
  v_bits :: nat

definition view :: "'p bmap \<Rightarrow> bm_view" where
  "view b = \<lparr>v_start = bm_start b, v_end = bm_end b, v_bits = bm_cluster_bits b\<rparr>"

lemma view_sel [simp]: "v_start (view b) = bm_start b" "v_end (view b) = bm_end b" "v_bits (view b) = bm_cluster_bits b"
  by (simp_all add: view_def)

lemma view_frame: "same_frame a b \<Longrightarrow> view b = view a"
  by (simp add: view_def same_frame_sel)

definition cluster_of :: "bm_view \<Rightarrow> u64 \<Rightarrow> nat" where
  "cluster_of v n = n div 2 ^ v_bits v"

definition accepts :: "bm_view \<Rightarrow> nat \<Rightarrow> bool" where
  "accepts v c \<longleftrightarrow> v_start v \<le> c \<and> c \<le> v_end v"

definition clusters_of :: "bm_view \<Rightarrow> u64 \<Rightarrow> nat \<Rightarrow> nat set" where
  "clusters_of v block num = cluster_of v ` {block..<block + num}"

text \<open>A range of blocks the caller may pass: not empty, and its end does not overflow; the shift of the bitmap is defined.\<close>

definition good_range :: "bm_view \<Rightarrow> u64 \<Rightarrow> nat \<Rightarrow> bool" where
  "good_range v block num \<longleftrightarrow> 0 < num \<and> num < W32 \<and> block + num + 2 ^ v_bits v \<le> W64 \<and> v_bits v < 31"

lemma image_div_interval:
  fixes r a n :: nat
  assumes "0 < r" "0 < n"
  shows "(\<lambda>k. k div r) ` {a..<a + n} = {a div r..<(a + n + (r - 1)) div r}"
proof (intro set_eqI iffI)
  fix c assume "c \<in> (\<lambda>k. k div r) ` {a..<a + n}"
  then obtain k where k: "c = k div r" "a \<le> k" "k < a + n" by auto
  have "k + r \<le> a + n + (r - 1)" using k(3) assms(1) by simp
  then have "(k + r) div r \<le> (a + n + (r - 1)) div r" by (rule div_le_mono)
  moreover have "(k + r) div r = Suc c" using k(1) assms(1) by (simp add: div_add_self2)
  ultimately have "c < (a + n + (r - 1)) div r" by (simp only: less_eq_Suc_le)
  then show "c \<in> {a div r..<(a + n + (r - 1)) div r}" using k by (simp add: div_le_mono)
next
  fix c assume c: "c \<in> {a div r..<(a + n + (r - 1)) div r}"
  let ?k = "max a (c * r)"
  have "Suc c \<le> (a + n + (r - 1)) div r" using c by simp
  then have "Suc c * r \<le> a + n + (r - 1)" using assms(1) by (simp add: less_eq_div_iff_mult_less_eq)
  then have "c * r < a + n" using assms(1) by simp
  moreover have "?k div r = c"
  proof (cases "a \<le> c * r")
    case True
    then show ?thesis using assms(1) by (simp add: max_def)
  next
    case False
    then have "a < Suc c * r" if "a div r = c" using that assms(1) by (metis div_less_iff_less_mult lessI)
    moreover have "c \<le> a div r" using False assms(1) by (simp add: less_eq_div_iff_mult_less_eq)
    ultimately show ?thesis using c False by (auto simp: max_def)
  qed
  ultimately show "c \<in> (\<lambda>k. k div r) ` {a..<a + n}" using assms(2) by (intro image_eqI [of _ _ ?k]) auto
qed

lemma cluster_range_spec:
  assumes "good_range v block num"
  shows "\<exists>cnum. cluster_range (v_bits v) block num = Some (cluster_of v block, cnum) \<and> 0 < cnum \<and>
    clusters_of v block num = {cluster_of v block..<cluster_of v block + cnum} \<and>
    cluster_of v block + cnum < W64"
proof -
  let ?r = "2 ^ v_bits v :: nat"
  define cend where "cend = (block + num + (?r - 1)) div ?r"
  have g: "0 < num" "num < W32" "block + num + ?r \<le> W64" "v_bits v < 31" using assms by (auto simp: good_range_def)
  have r: "0 < ?r" by simp
  have "block + num < W64" "block + num + (?r - 1) < W64" using g(3) r by linarith+
  then have w: "add64 block num = block + num" "add64 (block + num) (?r - 1) = block + num + (?r - 1)"
    by (simp_all only: add64_nowrap)
  have img: "clusters_of v block num = {cluster_of v block..<cend}"
    unfolding clusters_of_def cluster_of_def cend_def by (rule image_div_interval [OF r g(1)])
  have "cluster_of v block \<in> clusters_of v block num" using g(1) by (auto simp: clusters_of_def)
  then have lt: "cluster_of v block < cend" unfolding img by simp
  have "cend \<le> block + num + (?r - 1)" unfolding cend_def by (rule div_le_dividend)
  then have cw: "cend < W64" using g r by linarith
  have "cend - cluster_of v block \<le> num"
  proof -
    have "card (clusters_of v block num) \<le> card {block..<block + num}"
      unfolding clusters_of_def by (rule card_image_le) simp
    then show ?thesis by (simp add: img)
  qed
  then have n: "(cend - cluster_of v block) mod W32 = cend - cluster_of v block" using g(2) by simp
  have "sub64 cend (cluster_of v block) = cend - cluster_of v block" using lt cw by (intro sub64_nowrap) auto
  then have "cluster_range (v_bits v) block num = Some (cluster_of v block, cend - cluster_of v block)"
    using n g(4) unfolding cluster_range_def Let_def w cend_def [symmetric] by (simp only: cluster_of_def if_True)
  then show ?thesis using lt img cw by simp
qed

lemma find_first_result_spec:
  assumes "first_in P (cluster_of v s) (cluster_of v e) r" "s \<le> e" "e < W64"
  shows "first_in (\<lambda>k. P (cluster_of v k)) s e (find_first_result (v_bits v) s r)"
proof (cases r)
  case (Inl c)
  then show ?thesis using assms(1)
    by (simp add: find_first_result_def first_in_Inl cluster_of_def div_le_mono)
next
  case (Inr c)
  let ?r = "2 ^ v_bits v :: nat"
  have c: "cluster_of v s \<le> c" "c \<le> cluster_of v e" "P c" "\<And>k. cluster_of v s \<le> k \<Longrightarrow> k < c \<Longrightarrow> \<not> P k"
    using assms(1) by (auto simp: Inr first_in_Inr)
  have ce: "c * ?r \<le> e" using c(2) by (simp add: cluster_of_def less_eq_div_iff_mult_less_eq)
  then have mod: "c * ?r mod W64 = c * ?r" using assms(3) by simp
  define n where "n = max (c * ?r) s"
  have res: "find_first_result (v_bits v) s r = Inr n"
    unfolding find_first_result_def Inr sum.case Let_def mod n_def by (simp add: max_def)
  have "cluster_of v n = c"
  proof (cases "s \<le> c * ?r")
    case True
    then show ?thesis by (simp add: n_def cluster_of_def max_def)
  next
    case False
    then have "c \<le> cluster_of v s" by (simp add: cluster_of_def less_eq_div_iff_mult_less_eq)
    then show ?thesis using c(1) False by (simp add: n_def max_def)
  qed
  moreover have "\<not> P (cluster_of v k)" if "s \<le> k" "k < n" for k
  proof -
    have "k < c * ?r" using that by (simp add: n_def max_def split: if_splits)
    then have "cluster_of v k < c" by (simp add: cluster_of_def div_less_iff_less_mult)
    then show ?thesis using c(4) that(1) by (simp add: cluster_of_def div_le_mono)
  qed
  ultimately show ?thesis unfolding res first_in_Inr using c(3) ce assms(2) by (simp add: n_def)
qed

lemma find_refused:
  assumes "\<not> (s \<le> e \<and> accepts (view b) (cluster_of (view b) s) \<and> accepts (view b) (cluster_of (view b) e))"
  shows "s div 2 ^ bm_cluster_bits b < bm_start b \<or> bm_end b < e div 2 ^ bm_cluster_bits b \<or> e < s"
proof (rule ccontr)
  assume n: "\<not> ?thesis"
  then have "s div 2 ^ bm_cluster_bits b \<le> e div 2 ^ bm_cluster_bits b" by (simp add: div_le_mono)
  then show False using n assms by (simp add: accepts_def cluster_of_def)
qed

section \<open>The generic layer over any back end\<close>

context bitmap_backend
begin

lemma is64_not_32: "EXT2FS_IS_64_BITMAP m \<Longrightarrow> \<not> EXT2FS_IS_32_BITMAP m"
  by (auto simp: EXT2FS_IS_64_BITMAP_def EXT2FS_IS_32_BITMAP_def)

lemma accepts_real: "inv b \<Longrightarrow> accepts (view b) c \<Longrightarrow> bm_start b \<le> c \<and> c \<le> bm_real_end b"
  using frame [of b] by (auto simp: accepts_def)

lemma gen_test:
  assumes "inv b" "EXT2FS_IS_64_BITMAP (bm_magic b)"
  shows "\<exists>r b'. ext2fs_test_generic_bmap ops (Some (B64 b)) n = Some (r, Some (B64 b')) \<and> inv b' \<and>
    same_frame b b' \<and> bset b' = bset b \<and> (r \<noteq> 0 \<longleftrightarrow> accepts (view b) (cluster_of (view b) n) \<and> cluster_of (view b) n \<in> bset b)"
proof (cases "accepts (view b) (cluster_of (view b) n)")
  case True
  from test [OF assms(1) conjunct1 [OF accepts_real [OF assms(1) True]] conjunct2 [OF accepts_real [OF assms(1) True]]]
  show ?thesis
    using True assms is64_not_32 [OF assms(2)]
    by (elim exE conjE) (simp add: ext2fs_test_generic_bmap_def accepts_def cluster_of_def)
next
  case False
  then show ?thesis
    using assms is64_not_32 [OF assms(2)] by (auto simp: ext2fs_test_generic_bmap_def accepts_def cluster_of_def Let_def)
qed

lemma gen_mark:
  assumes "inv b" "EXT2FS_IS_64_BITMAP (bm_magic b)"
  shows "\<exists>r b'. ext2fs_mark_generic_bmap ops (Some (B64 b)) n = Some (r, Some (B64 b')) \<and> inv b' \<and> same_frame b b' \<and>
    bset b' = (if accepts (view b) (cluster_of (view b) n) then insert (cluster_of (view b) n) (bset b) else bset b) \<and>
    (r \<noteq> 0 \<longleftrightarrow> accepts (view b) (cluster_of (view b) n) \<and> cluster_of (view b) n \<in> bset b)"
proof (cases "accepts (view b) (cluster_of (view b) n)")
  case True
  from mark [OF assms(1) conjunct1 [OF accepts_real [OF assms(1) True]] conjunct2 [OF accepts_real [OF assms(1) True]]]
  show ?thesis
    using True assms is64_not_32 [OF assms(2)]
    by (elim exE conjE) (simp add: ext2fs_mark_generic_bmap_def accepts_def cluster_of_def)
next
  case False
  then show ?thesis
    using assms is64_not_32 [OF assms(2)] by (auto simp: ext2fs_mark_generic_bmap_def accepts_def cluster_of_def Let_def)
qed

lemma gen_unmark:
  assumes "inv b" "EXT2FS_IS_64_BITMAP (bm_magic b)"
  shows "\<exists>r b'. ext2fs_unmark_generic_bmap ops (Some (B64 b)) n = Some (r, Some (B64 b')) \<and> inv b' \<and> same_frame b b' \<and>
    bset b' = (if accepts (view b) (cluster_of (view b) n) then bset b - {cluster_of (view b) n} else bset b) \<and>
    (accepts (view b) (cluster_of (view b) n) \<and> cluster_of (view b) n \<in> bset b \<longrightarrow> r \<noteq> 0) \<and>
    (\<not> accepts (view b) (cluster_of (view b) n) \<longrightarrow> r = 0)"
proof (cases "accepts (view b) (cluster_of (view b) n)")
  case True
  from unmark [OF assms(1) conjunct1 [OF accepts_real [OF assms(1) True]] conjunct2 [OF accepts_real [OF assms(1) True]]]
  show ?thesis
    using True assms is64_not_32 [OF assms(2)]
    by (elim exE conjE) (simp add: ext2fs_unmark_generic_bmap_def accepts_def cluster_of_def)
next
  case False
  then show ?thesis
    using assms is64_not_32 [OF assms(2)] by (auto simp: ext2fs_unmark_generic_bmap_def accepts_def cluster_of_def Let_def)
qed

lemma gen_clear:
  assumes "inv b" "EXT2FS_IS_64_BITMAP (bm_magic b)"
  shows "\<exists>b'. ext2fs_clear_generic_bmap ops (B64 b) = Some (B64 b') \<and> inv b' \<and> same_frame b b' \<and> bset b' = {}"
  using clear [OF assms(1)] is64_not_32 [OF assms(2)]
  by (elim exE conjE) (simp add: ext2fs_clear_generic_bmap_def)

lemma gen_padding:
  assumes "inv b" "EXT2FS_IS_64_BITMAP (bm_magic b)" "bm_end b < bm_real_end b" "bm_real_end b - bm_end b < W32"
  shows "\<exists>b'. ext2fs_set_generic_bmap_padding ops (B64 b) = Some (B64 b') \<and> inv b' \<and> same_frame b b' \<and>
    bset b' = bset b \<union> {bm_end b<..bm_real_end b}"
proof -
  note f = frame [OF assms(1)]
  have n: "add64 (bm_end b) 1 = bm_end b + 1" "sub64 (bm_real_end b) (bm_end b) mod W32 = bm_real_end b - bm_end b"
    using f assms(3,4) by (simp_all add: u64_simps)
  have "bm_start b \<le> bm_end b + 1" "0 < bm_real_end b - bm_end b"
    "bm_end b + 1 + (bm_real_end b - bm_end b) - 1 \<le> bm_real_end b" using f assms(3) by simp_all
  note mark_extent [OF assms(1) this]
  moreover have "{bm_end b + 1..<bm_end b + 1 + (bm_real_end b - bm_end b)} = {bm_end b<..bm_real_end b}"
    using assms(3) by auto
  ultimately show ?thesis using is64_not_32 [OF assms(2)]
    by (elim exE conjE) (simp add: ext2fs_set_generic_bmap_padding_def n [simplified])
qed

text \<open>A range of blocks: refused as a whole when one of its clusters is outside.\<close>

lemma gen_range_inside:
  assumes "inv b" "good_range (view b) block num"
  obtains cnum where "cluster_range (bm_cluster_bits b) block num = Some (cluster_of (view b) block, cnum)" "0 < cnum"
    "clusters_of (view b) block num = {cluster_of (view b) block..<cluster_of (view b) block + cnum}"
    "range_outside b (cluster_of (view b) block) cnum \<longleftrightarrow> \<not> (\<forall>c \<in> clusters_of (view b) block num. accepts (view b) c)"
    "\<not> range_outside b (cluster_of (view b) block) cnum \<longrightarrow>
       bm_start b \<le> cluster_of (view b) block \<and> cluster_of (view b) block + cnum - 1 \<le> bm_real_end b"
proof -
  note f = frame [OF assms(1)]
  obtain cnum where c: "cluster_range (bm_cluster_bits b) block num = Some (cluster_of (view b) block, cnum)" "0 < cnum"
    "clusters_of (view b) block num = {cluster_of (view b) block..<cluster_of (view b) block + cnum}" "cluster_of (view b) block + cnum < W64"
    using cluster_range_spec [OF assms(2)] unfolding view_sel by blast
  have last: "last_of_range (cluster_of (view b) block) cnum = cluster_of (view b) block + cnum - 1"
    using c(2,4) by (simp add: last_of_range_def u64_simps)
  have out: "range_outside b (cluster_of (view b) block) cnum \<longleftrightarrow> \<not> (\<forall>c \<in> clusters_of (view b) block num. accepts (view b) c)"
  proof -
    have "cluster_of (view b) block \<in> clusters_of (view b) block num" "cluster_of (view b) block + cnum - 1 \<in> clusters_of (view b) block num"
      unfolding c(3) using c(2) by auto
    then show ?thesis unfolding range_outside_def last accepts_def c(3) by fastforce
  qed
  have "\<not> range_outside b (cluster_of (view b) block) cnum \<longrightarrow>
    bm_start b \<le> cluster_of (view b) block \<and> cluster_of (view b) block + cnum - 1 \<le> bm_real_end b"
    using f unfolding range_outside_def last by linarith
  with c(1-3) out show thesis by (rule that)
qed

lemma gen_mark_range:
  assumes "inv b" "EXT2FS_IS_64_BITMAP (bm_magic b)" "good_range (view b) block num"
  shows "\<exists>b'. ext2fs_mark_block_bitmap_range2 ops (Some (B64 b)) block num = Some (Some (B64 b')) \<and> inv b' \<and>
    same_frame b b' \<and> bset b' = (if \<forall>c \<in> clusters_of (view b) block num. accepts (view b) c
      then bset b \<union> clusters_of (view b) block num else bset b)"
proof -
  obtain cnum where c: "cluster_range (bm_cluster_bits b) block num = Some (cluster_of (view b) block, cnum)" "0 < cnum"
    "clusters_of (view b) block num = {cluster_of (view b) block..<cluster_of (view b) block + cnum}"
    "range_outside b (cluster_of (view b) block) cnum \<longleftrightarrow> \<not> (\<forall>c \<in> clusters_of (view b) block num. accepts (view b) c)"
    "\<not> range_outside b (cluster_of (view b) block) cnum \<longrightarrow>
       bm_start b \<le> cluster_of (view b) block \<and> cluster_of (view b) block + cnum - 1 \<le> bm_real_end b"
    using gen_range_inside [OF assms(1,3)] by metis
  note n32 = is64_not_32 [OF assms(2)]
  show ?thesis
  proof (cases "range_outside b (cluster_of (view b) block) cnum")
    case True
    have "ext2fs_mark_block_bitmap_range2 ops (Some (B64 b)) block num = Some (Some (B64 b))"
      using True assms(2) n32 by (simp add: ext2fs_mark_block_bitmap_range2_def c(1))
    moreover have "\<not> (\<forall>c \<in> clusters_of (view b) block num. accepts (view b) c)" using True c(4) by blast
    ultimately show ?thesis using assms(1) by (simp only: if_False) simp
  next
    case False
    from mark_extent [OF assms(1) _ c(2), of "cluster_of (view b) block"] c(5) [THEN mp, OF False]
    obtain b' where b': "mark_bmap_extent ops b (cluster_of (view b) block) cnum = Some b'" "inv b'" "same_frame b b'"
      "bset b' = bset b \<union> clusters_of (view b) block num" unfolding c(3) by blast
    have "ext2fs_mark_block_bitmap_range2 ops (Some (B64 b)) block num = Some (Some (B64 b'))"
      using False assms(2) n32 b'(1) by (simp add: ext2fs_mark_block_bitmap_range2_def c(1))
    moreover have "\<forall>c \<in> clusters_of (view b) block num. accepts (view b) c" using False c(4) by blast
    ultimately show ?thesis using b'(2-4) by simp
  qed
qed

lemma gen_unmark_range:
  assumes "inv b" "EXT2FS_IS_64_BITMAP (bm_magic b)" "good_range (view b) block num"
  shows "\<exists>b'. ext2fs_unmark_block_bitmap_range2 ops (Some (B64 b)) block num = Some (Some (B64 b')) \<and> inv b' \<and>
    same_frame b b' \<and> bset b' = (if \<forall>c \<in> clusters_of (view b) block num. accepts (view b) c
      then bset b - clusters_of (view b) block num else bset b)"
proof -
  obtain cnum where c: "cluster_range (bm_cluster_bits b) block num = Some (cluster_of (view b) block, cnum)" "0 < cnum"
    "clusters_of (view b) block num = {cluster_of (view b) block..<cluster_of (view b) block + cnum}"
    "range_outside b (cluster_of (view b) block) cnum \<longleftrightarrow> \<not> (\<forall>c \<in> clusters_of (view b) block num. accepts (view b) c)"
    "\<not> range_outside b (cluster_of (view b) block) cnum \<longrightarrow>
       bm_start b \<le> cluster_of (view b) block \<and> cluster_of (view b) block + cnum - 1 \<le> bm_real_end b"
    using gen_range_inside [OF assms(1,3)] by metis
  note n32 = is64_not_32 [OF assms(2)]
  show ?thesis
  proof (cases "range_outside b (cluster_of (view b) block) cnum")
    case True
    have "ext2fs_unmark_block_bitmap_range2 ops (Some (B64 b)) block num = Some (Some (B64 b))"
      using True assms(2) n32 by (simp add: ext2fs_unmark_block_bitmap_range2_def c(1))
    moreover have "\<not> (\<forall>c \<in> clusters_of (view b) block num. accepts (view b) c)" using True c(4) by blast
    ultimately show ?thesis using assms(1) by (simp only: if_False) simp
  next
    case False
    from unmark_extent [OF assms(1) _ c(2), of "cluster_of (view b) block"] c(5) [THEN mp, OF False]
    obtain b' where b': "unmark_bmap_extent ops b (cluster_of (view b) block) cnum = Some b'" "inv b'" "same_frame b b'"
      "bset b' = bset b - clusters_of (view b) block num" unfolding c(3) by blast
    have "ext2fs_unmark_block_bitmap_range2 ops (Some (B64 b)) block num = Some (Some (B64 b'))"
      using False assms(2) n32 b'(1) by (simp add: ext2fs_unmark_block_bitmap_range2_def c(1))
    moreover have "\<forall>c \<in> clusters_of (view b) block num. accepts (view b) c" using False c(4) by blast
    ultimately show ?thesis using b'(2-4) by simp
  qed
qed

lemma gen_test_range:
  assumes "inv b" "EXT2FS_IS_64_BITMAP (bm_magic b)" "good_range (view b) block num"
  shows "\<exists>r b'. ext2fs_test_block_bitmap_range2 ops (Some (B64 b)) block num = Some (r, Some (B64 b')) \<and> inv b' \<and>
    same_frame b b' \<and> bset b' = bset b \<and>
    (r \<noteq> 0 \<longleftrightarrow> \<not> (\<forall>c \<in> clusters_of (view b) block num. accepts (view b) c) \<or>
       bset b \<inter> clusters_of (view b) block num = {})"
proof (cases "num = 1")
  case True
  have one: "clusters_of (view b) block num = {cluster_of (view b) block}" by (simp add: clusters_of_def True)
  obtain r b' where t: "ext2fs_test_generic_bmap ops (Some (B64 b)) block = Some (r, Some (B64 b'))" "inv b'"
    "same_frame b b'" "bset b' = bset b"
    "r \<noteq> 0 \<longleftrightarrow> accepts (view b) (cluster_of (view b) block) \<and> cluster_of (view b) block \<in> bset b"
    using gen_test [OF assms(1,2), of block] by blast
  have "ext2fs_test_block_bitmap_range2 ops (Some (B64 b)) block num = Some (if r = 0 then 1 else 0, Some (B64 b'))"
    by (simp add: ext2fs_test_block_bitmap_range2_def True t(1))
  then show ?thesis using t(2-5) unfolding one by (cases "r = 0") auto
next
  case num: False
  obtain cnum where c: "cluster_range (bm_cluster_bits b) block num = Some (cluster_of (view b) block, cnum)" "0 < cnum"
    "clusters_of (view b) block num = {cluster_of (view b) block..<cluster_of (view b) block + cnum}"
    "range_outside b (cluster_of (view b) block) cnum \<longleftrightarrow> \<not> (\<forall>c \<in> clusters_of (view b) block num. accepts (view b) c)"
    "\<not> range_outside b (cluster_of (view b) block) cnum \<longrightarrow>
       bm_start b \<le> cluster_of (view b) block \<and> cluster_of (view b) block + cnum - 1 \<le> bm_real_end b"
    using gen_range_inside [OF assms(1,3)] by metis
  note n32 = is64_not_32 [OF assms(2)]
  show ?thesis
  proof (cases "range_outside b (cluster_of (view b) block) cnum")
    case True
    have "ext2fs_test_block_bitmap_range2 ops (Some (B64 b)) block num = Some (EINVAL, Some (B64 b))"
      using True num assms(2) n32 by (simp add: ext2fs_test_block_bitmap_range2_def c(1))
    moreover have "\<not> (\<forall>c \<in> clusters_of (view b) block num. accepts (view b) c)" using True c(4) by blast
    ultimately show ?thesis using assms(1) by (intro exI [of _ EINVAL] exI [of _ b]) simp
  next
    case False
    from test_clear [OF assms(1) _ c(2), of "cluster_of (view b) block"] c(5) [THEN mp, OF False]
    obtain r where r: "test_clear_bmap_extent ops b (cluster_of (view b) block) cnum = Some r"
      "r \<noteq> 0 \<longleftrightarrow> bset b \<inter> clusters_of (view b) block num = {}" unfolding c(3) by blast
    have "ext2fs_test_block_bitmap_range2 ops (Some (B64 b)) block num = Some (r, Some (B64 b))"
      using False num assms(2) n32 r(1) by (simp add: ext2fs_test_block_bitmap_range2_def c(1))
    moreover have "\<forall>c \<in> clusters_of (view b) block num. accepts (view b) c" using False c(4) by blast
    ultimately show ?thesis using r(2) assms(1) by (intro exI [of _ r] exI [of _ b]) simp
  qed
qed

text \<open>Searching for a block: the first cluster becomes the first block of the range in that cluster.\<close>

lemma gen_find_set:
  assumes "inv b" "EXT2FS_IS_64_BITMAP (bm_magic b)" "e < W64"
  shows "\<exists>r. ext2fs_find_first_set_generic_bmap ops (Some (B64 b)) s e = Some r \<and>
    (if s \<le> e \<and> accepts (view b) (cluster_of (view b) s) \<and> accepts (view b) (cluster_of (view b) e)
     then first_in (\<lambda>k. cluster_of (view b) k \<in> bset b) s e r else r = Inl EINVAL)"
proof (cases "s \<le> e \<and> accepts (view b) (cluster_of (view b) s) \<and> accepts (view b) (cluster_of (view b) e)")
  case True
  then have in_range: "bm_start b \<le> cluster_of (view b) s" "cluster_of (view b) s \<le> cluster_of (view b) e"
    "cluster_of (view b) e \<le> bm_end b" by (auto simp: accepts_def cluster_of_def div_le_mono)
  then have "cluster_of (view b) e \<le> bm_real_end b" using frame [OF assms(1)] by linarith
  from first_set [OF assms(1) in_range(1,2) this] obtain r where
    r: "find_first_set ops b (cluster_of (view b) s) (cluster_of (view b) e) = Some r"
    "first_in (\<lambda>k. k \<in> bset b) (cluster_of (view b) s) (cluster_of (view b) e) r" by blast
  have "ext2fs_find_first_set_generic_bmap ops (Some (B64 b)) s e =
      Some (find_first_result (bm_cluster_bits b) s r)"
    using in_range True assms(2) is64_not_32 [OF assms(2)] r(1)
    by (simp add: ext2fs_find_first_set_generic_bmap_def Let_def cluster_of_def)
  then show ?thesis using True find_first_result_spec [OF r(2)] assms(3) by simp
next
  case False
  have "ext2fs_find_first_set_generic_bmap ops (Some (B64 b)) s e = Some (Inl EINVAL)"
    using find_refused [OF False] assms(2) is64_not_32 [OF assms(2)]
    by (simp add: ext2fs_find_first_set_generic_bmap_def Let_def)
  then show ?thesis using False by (simp only: if_False) simp
qed

text \<open>On an empty bitmap a back end may answer \<^verbatim>\<open>ENOENT\<close> although every number is clear.\<close>

lemma gen_find_zero_any:
  assumes "inv b" "EXT2FS_IS_64_BITMAP (bm_magic b)" "e < W64"
  shows "\<exists>r. ext2fs_find_first_zero_generic_bmap ops (Some (B64 b)) s e = Some r \<and>
    (if s \<le> e \<and> accepts (view b) (cluster_of (view b) s) \<and> accepts (view b) (cluster_of (view b) e)
     then first_in (\<lambda>k. cluster_of (view b) k \<notin> bset b) s e r \<or> bset b = {} \<and> r = Inl ENOENT else r = Inl EINVAL)"
proof (cases "s \<le> e \<and> accepts (view b) (cluster_of (view b) s) \<and> accepts (view b) (cluster_of (view b) e)")
  case True
  then have in_range: "bm_start b \<le> cluster_of (view b) s" "cluster_of (view b) s \<le> cluster_of (view b) e"
    "cluster_of (view b) e \<le> bm_end b" by (auto simp: accepts_def cluster_of_def div_le_mono)
  then have "cluster_of (view b) e \<le> bm_real_end b" using frame [OF assms(1)] by linarith
  from first_zero [OF assms(1) in_range(1,2) this] obtain r where
    r: "find_first_zero ops b (cluster_of (view b) s) (cluster_of (view b) e) = Some r"
    "first_in (\<lambda>k. k \<notin> bset b) (cluster_of (view b) s) (cluster_of (view b) e) r \<or> bset b = {} \<and> r = Inl ENOENT" by blast
  have "ext2fs_find_first_zero_generic_bmap ops (Some (B64 b)) s e =
      Some (find_first_result (bm_cluster_bits b) s r)"
    using in_range True assms(2) is64_not_32 [OF assms(2)] r(1)
    by (simp add: ext2fs_find_first_zero_generic_bmap_def Let_def cluster_of_def)
  moreover have "find_first_result (bm_cluster_bits b) s (Inl ENOENT) = Inl ENOENT" by (simp add: find_first_result_def)
  ultimately show ?thesis using True find_first_result_spec [of "\<lambda>k. k \<notin> bset b" "view b" s e r] r(2) assms(3) by auto
next
  case False
  have "ext2fs_find_first_zero_generic_bmap ops (Some (B64 b)) s e = Some (Inl EINVAL)"
    using find_refused [OF False] assms(2) is64_not_32 [OF assms(2)]
    by (simp add: ext2fs_find_first_zero_generic_bmap_def Let_def)
  then show ?thesis using False by (simp only: if_False) simp
qed

lemma gen_find_zero:
  assumes "inv b" "EXT2FS_IS_64_BITMAP (bm_magic b)" "e < W64" "bset b \<noteq> {}"
  shows "\<exists>r. ext2fs_find_first_zero_generic_bmap ops (Some (B64 b)) s e = Some r \<and>
    (if s \<le> e \<and> accepts (view b) (cluster_of (view b) s) \<and> accepts (view b) (cluster_of (view b) e)
     then first_in (\<lambda>k. cluster_of (view b) k \<notin> bset b) s e r else r = Inl EINVAL)"
  using gen_find_zero_any [OF assms(1-3), of s] by (simp only: assms(4) simp_thms)

end

end
