(* ===== verification/Bmap_Session.thy ===== *)
theory Bmap_Session
  imports Gen_Bitmap64_Correct
begin

text \<open>
  Sequences of calls on a 64-bit bitmap. An abstract bitmap is a set of cluster numbers; every
  call changes the set and gives an observation. The functions of \<^verbatim>\<open>gen_bitmap64.c\<close> over a back end
  that meets its contract refine the abstract bitmap, call by call and for every sequence, without an access
  outside the back end's memory. The two back ends of the library are instances.

  In two places the abstract bitmap leaves the observation open, because the back ends differ there: unmarking a number
  that is clear may report it as marked (the tree does so right before an extent), and the search for a clear number may answer
  \<^verbatim>\<open>ENOENT\<close> on an empty bitmap (the tree does). A client that makes the same calls on a bit array and on a
  red-black tree observes the same results everywhere else.
\<close>

section \<open>Calls and observations\<close>

datatype bm_cmd =
    CTest u64
  | CMark u64
  | CUnmark u64
  | CTestRange u64 nat
  | CMarkRange u64 nat
  | CUnmarkRange u64 nat
  | CFindSet u64 u64
  | CFindZero u64 u64
  | CClear

datatype bm_obs = Done | Flag bool | Found "errcode + u64"

text \<open>The calls a client may make: a range is not empty and does not overflow, a block number fits.\<close>

fun valid_cmd :: "bm_view \<Rightarrow> bm_cmd \<Rightarrow> bool" where
  "valid_cmd v (CTestRange block num) = good_range v block num"
| "valid_cmd v (CMarkRange block num) = good_range v block num"
| "valid_cmd v (CUnmarkRange block num) = good_range v block num"
| "valid_cmd v (CFindSet s e) = (e < W64)"
| "valid_cmd v (CFindZero s e) = (e < W64)"
| "valid_cmd v _ = True"

section \<open>Abstract bitmap\<close>

definition all_accepted :: "bm_view \<Rightarrow> nat set \<Rightarrow> bool" where
  "all_accepted v C \<longleftrightarrow> (\<forall>c \<in> C. accepts v c)"

fun spec_next :: "bm_view \<Rightarrow> bm_cmd \<Rightarrow> nat set \<Rightarrow> nat set" where
  "spec_next v (CMark n) S = (if accepts v (cluster_of v n) then insert (cluster_of v n) S else S)"
| "spec_next v (CUnmark n) S = (if accepts v (cluster_of v n) then S - {cluster_of v n} else S)"
| "spec_next v (CMarkRange block num) S =
     (if all_accepted v (clusters_of v block num) then S \<union> clusters_of v block num else S)"
| "spec_next v (CUnmarkRange block num) S =
     (if all_accepted v (clusters_of v block num) then S - clusters_of v block num else S)"
| "spec_next v CClear S = {}"
| "spec_next v _ S = S"

fun spec_obs :: "bm_view \<Rightarrow> bm_cmd \<Rightarrow> nat set \<Rightarrow> bm_obs \<Rightarrow> bool" where
  "spec_obs v (CTest n) S ob = (ob = Flag (accepts v (cluster_of v n) \<and> cluster_of v n \<in> S))"
| "spec_obs v (CMark n) S ob = (ob = Flag (accepts v (cluster_of v n) \<and> cluster_of v n \<in> S))"
| "spec_obs v (CUnmark n) S ob =
     (\<exists>r. ob = Flag r \<and> (if accepts v (cluster_of v n) then cluster_of v n \<in> S \<longrightarrow> r else \<not> r))"
| "spec_obs v (CTestRange block num) S ob =
     (ob = Flag (\<not> all_accepted v (clusters_of v block num) \<or> S \<inter> clusters_of v block num = {}))"
| "spec_obs v (CFindSet s e) S ob =
     (case ob of
        Found r \<Rightarrow>
          if s \<le> e \<and> accepts v (cluster_of v s) \<and> accepts v (cluster_of v e)
          then first_in (\<lambda>k. cluster_of v k \<in> S) s e r else r = Inl EINVAL
      | _ \<Rightarrow> False)"
| "spec_obs v (CFindZero s e) S ob =
     (case ob of
        Found r \<Rightarrow>
          if s \<le> e \<and> accepts v (cluster_of v s) \<and> accepts v (cluster_of v e)
          then first_in (\<lambda>k. cluster_of v k \<notin> S) s e r \<or> S = {} \<and> r = Inl ENOENT else r = Inl EINVAL
      | _ \<Rightarrow> False)"
| "spec_obs v _ S ob = (ob = Done)"

text \<open>Where an observation is open.\<close>

fun lax :: "bm_view \<Rightarrow> bm_cmd \<Rightarrow> nat set \<Rightarrow> bool" where
  "lax v (CUnmark n) S \<longleftrightarrow> accepts v (cluster_of v n) \<and> cluster_of v n \<notin> S"
| "lax v (CFindZero s e) S \<longleftrightarrow> S = {}"
| "lax v _ S \<longleftrightarrow> False"

fun agree :: "bm_view \<Rightarrow> nat set \<Rightarrow> bm_cmd list \<Rightarrow> bm_obs list \<Rightarrow> bm_obs list \<Rightarrow> bool" where
  "agree v S [] os ps \<longleftrightarrow> os = [] \<and> ps = []"
| "agree v S (c # cs) (a # os) (b # ps) \<longleftrightarrow> (a = b \<or> lax v c S) \<and> agree v (spec_next v c S) cs os ps"
| "agree v S (c # cs) _ _ \<longleftrightarrow> False"

inductive spec_run :: "bm_view \<Rightarrow> nat set \<Rightarrow> bm_cmd list \<Rightarrow> bm_obs list \<Rightarrow> nat set \<Rightarrow> bool" for v where
  spec_run_Nil: "spec_run v S [] [] S"
| spec_run_Cons: "\<lbrakk>spec_obs v c S ob; spec_run v (spec_next v c S) cs obs T\<rbrakk> \<Longrightarrow> spec_run v S (c # cs) (ob # obs) T"

inductive_cases spec_run_NilE: "spec_run v S [] obs T"
inductive_cases spec_run_ConsE: "spec_run v S (c # cs) obs T"

lemma spec_obs_unique: "spec_obs v c S ob \<Longrightarrow> spec_obs v c S ob' \<Longrightarrow> ob = ob' \<or> lax v c S"
  by (cases c) (auto split: bm_obs.splits if_splits dest: first_in_unique)

lemma spec_run_unique: "spec_run v S cs obs T \<Longrightarrow> spec_run v S cs obs' T' \<Longrightarrow> agree v S cs obs obs' \<and> T = T'"
proof (induction arbitrary: obs' T' rule: spec_run.induct)
  case (spec_run_Nil S)
  then show ?case by (auto elim: spec_run_NilE)
next
  case (spec_run_Cons c S ob cs obs T)
  from spec_run_Cons.prems show ?case
    by (cases rule: spec_run_ConsE) (use spec_obs_unique [OF spec_run_Cons.hyps(1)] spec_run_Cons.IH in auto)
qed

section \<open>The calls on the code's functions\<close>

fun exec_cmd :: "'p bitmap_ops \<Rightarrow> bm_cmd \<Rightarrow> 'p any_bmap option \<Rightarrow> (bm_obs \<times> 'p any_bmap option) option" where
  "exec_cmd ops (CTest n) m = map_option (map_prod (\<lambda>r. Flag (r \<noteq> 0)) id) (ext2fs_test_generic_bmap ops m n)"
| "exec_cmd ops (CMark n) m = map_option (map_prod (\<lambda>r. Flag (r \<noteq> 0)) id) (ext2fs_mark_generic_bmap ops m n)"
| "exec_cmd ops (CUnmark n) m = map_option (map_prod (\<lambda>r. Flag (r \<noteq> 0)) id) (ext2fs_unmark_generic_bmap ops m n)"
| "exec_cmd ops (CTestRange block num) m =
     map_option (map_prod (\<lambda>r. Flag (r \<noteq> 0)) id) (ext2fs_test_block_bitmap_range2 ops m block num)"
| "exec_cmd ops (CMarkRange block num) m = map_option (Pair Done) (ext2fs_mark_block_bitmap_range2 ops m block num)"
| "exec_cmd ops (CUnmarkRange block num) m = map_option (Pair Done) (ext2fs_unmark_block_bitmap_range2 ops m block num)"
| "exec_cmd ops (CFindSet s e) m =
     map_option (\<lambda>r. (Found r, m)) (ext2fs_find_first_set_generic_bmap ops m s e)"
| "exec_cmd ops (CFindZero s e) m =
     map_option (\<lambda>r. (Found r, m)) (ext2fs_find_first_zero_generic_bmap ops m s e)"
| "exec_cmd ops CClear m =
     (case m of None \<Rightarrow> None | Some b \<Rightarrow> map_option (\<lambda>b'. (Done, Some b')) (ext2fs_clear_generic_bmap ops b))"

fun exec_run :: "'p bitmap_ops \<Rightarrow> bm_cmd list \<Rightarrow> 'p any_bmap option \<Rightarrow> (bm_obs list \<times> 'p any_bmap option) option" where
  "exec_run ops [] m = Some ([], m)"
| "exec_run ops (c # cs) m =
     do { (ob, m1) \<leftarrow> exec_cmd ops c m; (obs, m2) \<leftarrow> exec_run ops cs m1; Some (ob # obs, m2) }"

context bitmap_backend
begin

lemma exec_cmd_refines:
  assumes "inv b" "EXT2FS_IS_64_BITMAP (bm_magic b)" "valid_cmd (view b) c"
  shows "\<exists>ob b'. exec_cmd ops c (Some (B64 b)) = Some (ob, Some (B64 b')) \<and> inv b' \<and> same_frame b b' \<and>
    bset b' = spec_next (view b) c (bset b) \<and> spec_obs (view b) c (bset b) ob"
proof (cases c)
  case (CTest n)
  from gen_test [OF assms(1,2), of n] show ?thesis by (elim exE conjE) (simp add: CTest)
next
  case (CMark n)
  from gen_mark [OF assms(1,2), of n] show ?thesis by (elim exE conjE) (simp add: CMark)
next
  case (CUnmark n)
  from gen_unmark [OF assms(1,2), of n] show ?thesis by (elim exE conjE) (simp add: CUnmark)
next
  case (CTestRange block num)
  with assms(3) have "good_range (view b) block num" by simp
  from gen_test_range [OF assms(1,2) this] show ?thesis
    by (elim exE conjE) (simp add: CTestRange all_accepted_def)
next
  case (CMarkRange block num)
  with assms(3) have "good_range (view b) block num" by simp
  from gen_mark_range [OF assms(1,2) this] show ?thesis
    by (elim exE conjE) (simp only: CMarkRange all_accepted_def exec_cmd.simps spec_next.simps spec_obs.simps, simp)
next
  case (CUnmarkRange block num)
  with assms(3) have "good_range (view b) block num" by simp
  from gen_unmark_range [OF assms(1,2) this] show ?thesis
    by (elim exE conjE) (simp only: CUnmarkRange all_accepted_def exec_cmd.simps spec_next.simps spec_obs.simps, simp)
next
  case (CFindSet s e)
  with assms(3) have "e < W64" by simp
  from gen_find_set [OF assms(1,2) this, of s] show ?thesis
    using assms(1) by (elim exE conjE) (simp add: CFindSet)
next
  case (CFindZero s e)
  with assms(3) have "e < W64" by simp
  from gen_find_zero_any [OF assms(1,2) this, of s] show ?thesis
    using assms(1) by (elim exE conjE) (simp add: CFindZero)
next
  case CClear
  from gen_clear [OF assms(1,2)] show ?thesis by (elim exE conjE) (simp add: CClear)
qed

lemma exec_run_refines:
  assumes "inv b" "EXT2FS_IS_64_BITMAP (bm_magic b)" "\<forall>c \<in> set cs. valid_cmd (view b) c"
  shows "\<exists>obs b'. exec_run ops cs (Some (B64 b)) = Some (obs, Some (B64 b')) \<and> inv b' \<and> same_frame b b' \<and>
    spec_run (view b) (bset b) cs obs (bset b')"
  using assms
proof (induction cs arbitrary: b)
  case Nil
  then show ?case by (simp add: spec_run_Nil)
next
  case (Cons c cs)
  then obtain ob b1 where c: "exec_cmd ops c (Some (B64 b)) = Some (ob, Some (B64 b1))" "inv b1" "same_frame b b1"
    "bset b1 = spec_next (view b) c (bset b)" "spec_obs (view b) c (bset b) ob"
    using exec_cmd_refines [of b c] by auto
  have "EXT2FS_IS_64_BITMAP (bm_magic b1)" "\<forall>c \<in> set cs. valid_cmd (view b1) c"
    using Cons.prems view_frame [OF c(3)] same_frame_sel(1) [OF c(3)] by simp_all
  from Cons.IH [OF c(2) this] obtain obs b' where
    r: "exec_run ops cs (Some (B64 b1)) = Some (obs, Some (B64 b'))" "inv b'" "same_frame b1 b'"
    "spec_run (view b) (bset b1) cs obs (bset b')" unfolding view_frame [OF c(3)] by blast
  have "spec_run (view b) (bset b) (c # cs) (ob # obs) (bset b')"
    using c(5) r(4) unfolding c(4) by (rule spec_run_Cons)
  then show ?case using c(1,3) r(1,2,3) same_frame_trans by fastforce
qed

end

section \<open>Both back ends\<close>

text \<open>A sequence of calls on the small bitmap, to apply the theorems to.\<close>

definition small_env :: bm_env where
  "small_env = \<lparr>env_fresh = (\<lambda>_. 0), env_base = 0, env_shape = (\<lambda>_ _. False)\<rparr>"

definition small_calls :: "bm_cmd list" where
  "small_calls = [CFindZero 2 20, CMarkRange 3 4, CTest 5, CUnmark 5, CUnmark 5, CTestRange 5 1, CFindSet 1 20, CFindZero 3 20, CMark 99, CClear]"

lemma small_inv: "ba_inv (small_bmap [0, 0, 0])" "rb_inv (small_bmap rb_empty_private)"
  by (simp_all add: small_bmap_def ba_inv_def rb_inv_def rb_ok_def rb_wf_def rb_cur_def rb_empty_private_def)

lemma small_set: "ba_set (small_bmap [0, 0, 0]) = {}" "rb_set (small_bmap rb_empty_private) = {}"
proof -
  have "n \<notin> bits [0, 0, 0]" for n by (auto simp: bits_iff nth_Cons split: nat.splits)
  then show "ba_set (small_bmap [0, 0, 0]) = {}" by (simp add: ba_set_def small_bmap_def)
  show "rb_set (small_bmap rb_empty_private) = {}"
    by (simp add: rb_set_def rb_bits_def small_bmap_def rb_empty_private_def)
qed

lemma small_view: "EXT2FS_IS_64_BITMAP (bm_magic (small_bmap p))"
  "view (small_bmap p) = \<lparr>v_start = 1, v_end = 20, v_bits = 0\<rparr>"
  by (simp_all add: small_bmap_def view_def EXT2FS_IS_64_BITMAP_def)

lemma small_bits: "bm_cluster_bits (small_bmap p) < 31"
  by (simp add: small_bmap_def)

lemma small_calls_valid: "\<forall>c \<in> set small_calls. valid_cmd (view (small_bmap p)) c"
  by (simp add: small_calls_def good_range_def small_bmap_def)

lemma small_views: "view (small_bmap p) = view (small_bmap q)"
  by (simp only: small_view(2))

text \<open>C3. Every sequence of test, mark, unmark, clear, range and search calls through \<^verbatim>\<open>gen_bitmap64.c\<close> on a well-formed
  64-bit bitmap of either back end, with a cluster shift below 31 and with ranges that are not empty and do not wrap at 64 bits, runs to
  its end without a memory error, keeps the invariant, the bounds and the magic, and gives results and a final set
  that the abstract bitmap allows. The abstract bitmap determines every result but two: unmarking a clear number may report it as
  marked, and the search for a clear number in an empty bitmap may answer \<^verbatim>\<open>ENOENT\<close>.\<close>

theorem bmap_session_refines:
  assumes "bm_inv b" "EXT2FS_IS_64_BITMAP (bm_magic b)" "bm_cluster_bits b < 31" "\<forall>c \<in> set cs. valid_cmd (view b) c"
  shows "\<exists>obs b'. exec_run (bmap_ops env) cs (Some (B64 b)) = Some (obs, Some (B64 b')) \<and> bm_inv b' \<and> same_frame b b' \<and>
    spec_run (view b) (bm_set b) cs obs (bm_set b')"
  using assms(1,2,4) by (rule bm.exec_run_refines)

text \<open>C5. The bit array and the red-black tree are interchangeable but for two results: on two bitmaps with the same bounds, contents and
  cluster shift below 31, every sequence of calls with ranges that are not empty and do not wrap gives the same results and ends
  with the same contents, where only the result of unmarking a clear number and of searching for a clear number
  in an empty bitmap may differ.\<close>

theorem backends_equivalent:
  assumes "ba_inv x" "rb_inv y" "EXT2FS_IS_64_BITMAP (bm_magic x)" "EXT2FS_IS_64_BITMAP (bm_magic y)"
    "view x = view y" "ba_set x = rb_set y" "bm_cluster_bits x < 31" "\<forall>c \<in> set cs. valid_cmd (view x) c"
  shows "\<exists>obs x' obs' y'. exec_run (env_ba env) cs (Some (B64 x)) = Some (obs, Some (B64 x')) \<and>
    exec_run (env_rb env) cs (Some (B64 y)) = Some (obs', Some (B64 y')) \<and> agree (view x) (ba_set x) cs obs obs' \<and> ba_set x' = rb_set y'"
proof -
  obtain obs1 x' where x: "exec_run (env_ba env) cs (Some (B64 x)) = Some (obs1, Some (B64 x'))"
    "spec_run (view x) (ba_set x) cs obs1 (ba_set x')"
    using ba.exec_run_refines [OF assms(1,3,8)] by blast
  have "\<forall>c \<in> set cs. valid_cmd (view y) c" using assms(5,8) by simp
  from rb.exec_run_refines [OF assms(2,4) this] obtain obs2 y' where
    y: "exec_run (env_rb env) cs (Some (B64 y)) = Some (obs2, Some (B64 y'))"
    "spec_run (view y) (rb_set y) cs obs2 (rb_set y')" by blast
  have "agree (view x) (ba_set x) cs obs1 obs2 \<and> ba_set x' = rb_set y'"
    using x(2) y(2) unfolding assms(5,6) by (rule spec_run_unique)
  then show ?thesis using x(1) y(1) by blast
qed

lemma from_ba_frame: "bm_magic (from_ba x) = bm_magic x" "view (from_ba x) = view x" "bm_cluster_bits (from_ba x) = bm_cluster_bits x"
  by (simp_all add: from_ba_def view_def)

theorem bmap_session_refines_witness:
  "\<exists>obs b'. exec_run (bmap_ops small_env) small_calls (Some (B64 (from_ba (small_bmap [0, 0, 0])))) =
      Some (obs, Some (B64 b')) \<and> bm_inv b' \<and> same_frame (from_ba (small_bmap [0, 0, 0])) b' \<and>
      spec_run (view (from_ba (small_bmap [0, 0, 0]))) (bm_set (from_ba (small_bmap [0, 0, 0]))) small_calls obs (bm_set b')"
  by (rule bmap_session_refines)
    (use small_inv small_view(1) small_calls_valid small_bits in \<open>simp_all only: from_ba_frame bm_inv_from\<close>)

theorem backends_equivalent_witness:
  "\<exists>obs x' obs' y'. exec_run (env_ba small_env) small_calls (Some (B64 (small_bmap [0, 0, 0]))) = Some (obs, Some (B64 x')) \<and>
    exec_run (env_rb small_env) small_calls (Some (B64 (small_bmap rb_empty_private))) = Some (obs', Some (B64 y')) \<and>
    agree (view (small_bmap [0, 0, 0 :: u8])) (ba_set (small_bmap [0, 0, 0])) small_calls obs obs' \<and> ba_set x' = rb_set y'"
  by (rule backends_equivalent [OF small_inv small_view(1) small_view(1) small_views _ small_bits small_calls_valid])
    (simp only: small_set)

end
