(* ===== verification/Inode_Bitmap.thy ===== *)
theory Inode_Bitmap
  imports Gen_Bitmap64_Correct
begin

text \<open>
  Inode bitmaps: 64-bit bitmaps of the generic layer without clusters, over the inodes \<open>1..n\<close>. Their operations on a set of inodes.
\<close>

definition inode_bits_ok :: "nat \<Rightarrow> bmap64 \<Rightarrow> bool" where
  "inode_bits_ok n b \<longleftrightarrow>
     bm_inv b \<and> EXT2FS_IS_64_BITMAP (bm_magic b) \<and> bm_cluster_bits b = 0 \<and> bm_start b = 1 \<and> bm_end b = n \<and> n < 2 ^ 32"

lemma inode_bits_ops:
  assumes "inode_bits_ok n b"
  shows "\<exists>r b'. ext2fs_unmark_generic_bmap (bmap_ops env) (Some (B64 b)) k = Some (r, Some (B64 b')) \<and> inode_bits_ok n b' \<and>
      bm_set b' = (if 1 \<le> k \<and> k \<le> n then bm_set b - {k} else bm_set b)"
    "\<exists>r b'. ext2fs_mark_generic_bmap (bmap_ops env) (Some (B64 b)) k = Some (r, Some (B64 b')) \<and> inode_bits_ok n b' \<and>
      bm_set b' = (if 1 \<le> k \<and> k \<le> n then insert k (bm_set b) else bm_set b)"
    "\<exists>r b'. ext2fs_test_generic_bmap (bmap_ops env) (Some (B64 b)) k = Some (r, Some (B64 b')) \<and> inode_bits_ok n b' \<and> bm_set b' = bm_set b \<and>
      (r \<noteq> 0 \<longleftrightarrow> 1 \<le> k \<and> k \<le> n \<and> k \<in> bm_set b)"
    "1 \<le> s \<Longrightarrow> s \<le> e \<Longrightarrow> e \<le> n \<Longrightarrow> bm_set b \<noteq> {} \<Longrightarrow>
      \<exists>r. ext2fs_find_first_zero_generic_bmap (bmap_ops env) (Some (B64 b)) s e = Some r \<and> first_in (\<lambda>k. k \<notin> bm_set b) s e r"
proof -
  have b: "bm_inv b" "EXT2FS_IS_64_BITMAP (bm_magic b)" "bm_cluster_bits b = 0" "bm_start b = 1" "bm_end b = n" "n < 2 ^ 32"
    using assms by (simp_all add: inode_bits_ok_def)
  have cl: "cluster_of (view b) k = k" for k by (simp add: cluster_of_def b)
  have ac: "accepts (view b) k \<longleftrightarrow> 1 \<le> k \<and> k \<le> n" for k by (simp add: accepts_def b)
  have keep: "inode_bits_ok n b'" if "bm_inv b'" "same_frame b b'" for b' using that b by (simp add: inode_bits_ok_def same_frame_sel)
  show "\<exists>r b'. ext2fs_unmark_generic_bmap (bmap_ops env) (Some (B64 b)) k = Some (r, Some (B64 b')) \<and> inode_bits_ok n b' \<and>
      bm_set b' = (if 1 \<le> k \<and> k \<le> n then bm_set b - {k} else bm_set b)"
    using bm.gen_unmark [OF b(1,2), of env k] keep unfolding cl ac by blast
  show "\<exists>r b'. ext2fs_mark_generic_bmap (bmap_ops env) (Some (B64 b)) k = Some (r, Some (B64 b')) \<and> inode_bits_ok n b' \<and>
      bm_set b' = (if 1 \<le> k \<and> k \<le> n then insert k (bm_set b) else bm_set b)"
    using bm.gen_mark [OF b(1,2), of env k] keep unfolding cl ac by blast
  show "\<exists>r b'. ext2fs_test_generic_bmap (bmap_ops env) (Some (B64 b)) k = Some (r, Some (B64 b')) \<and> inode_bits_ok n b' \<and> bm_set b' = bm_set b \<and>
      (r \<noteq> 0 \<longleftrightarrow> 1 \<le> k \<and> k \<le> n \<and> k \<in> bm_set b)"
    using bm.gen_test [OF b(1,2), of env k] keep unfolding cl ac by blast
  show "\<exists>r. ext2fs_find_first_zero_generic_bmap (bmap_ops env) (Some (B64 b)) s e = Some r \<and> first_in (\<lambda>k. k \<notin> bm_set b) s e r"
    if "1 \<le> s" "s \<le> e" "e \<le> n" "bm_set b \<noteq> {}"
  proof -
    have "e < W64" using that(3) b(6) by simp
    from bm.gen_find_zero [OF b(1,2) this that(4), of env s] show ?thesis using that(1-3) unfolding cl ac by simp
  qed
qed

section \<open>A new bitmap\<close>

lemma alloc_bmap_new:
  assumes "\<forall>n. mem n" "type \<le> 3" "start \<le> end" "end \<le> real_end" "real_end < W64 - 1"
  shows "\<exists>b. ext2fs_alloc_generic_bmap env mem fs num_dirs magic type start end real_end descr = Some (Inr b) \<and>
    bm_inv b \<and> bm_set b = {} \<and> bm_magic b = magic \<and> bm_start b = start \<and> bm_end b = end \<and> bm_real_end b = real_end \<and>
    bm_cluster_bits b = (if magic = EXT2_ET_MAGIC_BLOCK_BITMAP64 then fs_cluster_ratio_bits fs else 0)"
proof -
  have "type = 0 \<or> type = 1 \<or> type = 2 \<or> type = 3" using assms(2) by linarith
  then obtain t where t: "choose_backend fs num_dirs type = Inr t"
    by (fastforce simp: choose_backend_def Let_def split: sum.splits)
  define b0 where "b0 = \<lparr>bm_magic = magic, bm_start = start, bm_end = end, bm_real_end = real_end,
      bm_cluster_bits = (if magic = EXT2_ET_MAGIC_BLOCK_BITMAP64 then fs_cluster_ratio_bits fs else 0),
      bm_description = descr, bm_base_error_code = base_error_code64 magic,
      bm_private = (if t = 1 then PBA [] else PRB rb_empty_private)\<rparr>"
  have "bm_start b0 \<le> bm_end b0" "bm_end b0 \<le> bm_real_end b0" "bm_real_end b0 < W64 - 1"
    using assms(3-5) by (simp_all add: b0_def)
  from bm_alloc.new [OF assms(1) this, of env] obtain b where
    b: "new_bmap (bmap_ops env) mem b0 = Some (0, b)" "bm_inv b" "same_frame b0 b" "bm_set b = {}" by blast
  have "ext2fs_alloc_generic_bmap env mem fs num_dirs magic type start end real_end descr = Some (Inr b)"
    unfolding ext2fs_alloc_generic_bmap_def t sum.case Let_def b0_def [symmetric] using assms(1) by (simp add: b(1))
  then show ?thesis using b(2,4) same_frame_sel [OF b(3)] by (simp add: b0_def)
qed

lemma allocate_inode_bits:
  assumes "\<forall>n. mem n" "fs_default_bitmap_type fs \<le> 3" "fs_flag_64bits fs" "1 \<le> fs_inodes_count fs" "fs_inodes_count fs < 2 ^ 32"
    "fs_inodes_count fs \<le> fs_inodes_per_group fs * fs_group_desc_count fs" "fs_inodes_per_group fs * fs_group_desc_count fs < 2 ^ 32"
  shows "\<exists>b. ext2fs_allocate_inode_bitmap env mem fs num_dirs descr = Some (Inr (B64 b)) \<and> inode_bits_ok (fs_inodes_count fs) b \<and> bm_set b = {}"
proof -
  obtain b where "ext2fs_alloc_generic_bmap env mem fs num_dirs EXT2_ET_MAGIC_INODE_BITMAP64 (fs_default_bitmap_type fs) 1 (fs_inodes_count fs)
      (fs_inodes_per_group fs * fs_group_desc_count fs) descr = Some (Inr b)" "bm_inv b" "bm_set b = {}" "bm_magic b = EXT2_ET_MAGIC_INODE_BITMAP64"
      "bm_start b = 1" "bm_end b = fs_inodes_count fs" "bm_cluster_bits b = 0"
    using alloc_bmap_new [OF assms(1,2,4,6), of env fs num_dirs EXT2_ET_MAGIC_INODE_BITMAP64 descr] assms(7) by auto
  then show ?thesis using assms(3,5,7) by (auto simp: ext2fs_allocate_inode_bitmap_def inode_bits_ok_def EXT2FS_IS_64_BITMAP_def)
qed

text \<open>Without memory a bitmap is not made, and otherwise it does not depend on the allocator.\<close>

lemma new_bmap_memory:
  "new_bmap (bmap_ops env) mem b = new_bmap (bmap_ops env) (\<lambda>_. True) b \<or>
   (\<exists>n. \<not> mem n) \<and> (\<exists>b'. new_bmap (bmap_ops env) mem b = Some (EXT2_ET_NO_MEMORY, b'))"
proof (cases b rule: bm_cases)
  case (ba x)
  have "ba_new_bmap f mem x = ba_new_bmap f (\<lambda>_. True) x \<or> (\<exists>n. \<not> mem n) \<and> (\<exists>b'. ba_new_bmap f mem x = Some (EXT2_ET_NO_MEMORY, b'))" for f
    by (auto simp: ba_new_bmap_def ba_alloc_private_data_def)
  then have "new_bmap (env_ba env) mem x = new_bmap (env_ba env) (\<lambda>_. True) x \<or>
      (\<exists>n. \<not> mem n) \<and> (\<exists>b'. new_bmap (env_ba env) mem x = Some (EXT2_ET_NO_MEMORY, b'))"
    by (simp add: ext2fs_blkmap64_bitarray_def)
  then show ?thesis unfolding ba bmap_ops_ba by auto
next
  case (rb x)
  have "rb_new_bmap mem x = rb_new_bmap (\<lambda>_. True) x \<or> (\<exists>n. \<not> mem n) \<and> (\<exists>b'. rb_new_bmap mem x = Some (EXT2_ET_NO_MEMORY, b'))"
    by (auto simp: rb_new_bmap_def rb_alloc_private_data_def)
  then have "new_bmap (env_rb env) mem x = new_bmap (env_rb env) (\<lambda>_. True) x \<or>
      (\<exists>n. \<not> mem n) \<and> (\<exists>b'. new_bmap (env_rb env) mem x = Some (EXT2_ET_NO_MEMORY, b'))"
    by (simp add: ext2fs_blkmap64_rbtree_def)
  then show ?thesis unfolding rb bmap_ops_rb by auto
qed

lemma alloc_bmap_memory:
  "ext2fs_alloc_generic_bmap env mem fs num_dirs magic type start end real_end descr =
     ext2fs_alloc_generic_bmap env (\<lambda>_. True) fs num_dirs magic type start end real_end descr \<or>
   (\<exists>n. \<not> mem n) \<and> ext2fs_alloc_generic_bmap env mem fs num_dirs magic type start end real_end descr = Some (Inl EXT2_ET_NO_MEMORY)"
proof (cases "choose_backend fs num_dirs type")
  case (Inr t)
  then show ?thesis
    using new_bmap_memory [of env mem "\<lparr>bm_magic = magic, bm_start = start, bm_end = end, bm_real_end = real_end,
        bm_cluster_bits = (if magic = EXT2_ET_MAGIC_BLOCK_BITMAP64 then fs_cluster_ratio_bits fs else 0),
        bm_description = descr, bm_base_error_code = base_error_code64 magic,
        bm_private = (if t = 1 then PBA [] else PRB rb_empty_private)\<rparr>"]
    unfolding ext2fs_alloc_generic_bmap_def Inr sum.case Let_def by auto
qed (simp add: ext2fs_alloc_generic_bmap_def)

lemma allocate_inode_memory:
  assumes "fs_flag_64bits fs"
  shows "ext2fs_allocate_inode_bitmap env mem fs num_dirs descr = ext2fs_allocate_inode_bitmap env (\<lambda>_. True) fs num_dirs descr \<or>
    (\<exists>n. \<not> mem n) \<and> ext2fs_allocate_inode_bitmap env mem fs num_dirs descr = Some (Inl EXT2_ET_NO_MEMORY)"
  using assms alloc_bmap_memory [of env mem fs num_dirs EXT2_ET_MAGIC_INODE_BITMAP64 "fs_default_bitmap_type fs" 1 "fs_inodes_count fs"
      "(fs_inodes_per_group fs * fs_group_desc_count fs) mod W32" descr]
  by (auto simp: ext2fs_allocate_inode_bitmap_def Let_def)

end
