(* ===== verification/Bitmap_Properties.thy ===== *)
theory Bitmap_Properties
  imports Bmap_Session Inode_Bitmap
begin

text \<open>
  What the bitmap code guarantees function by function: the extent tree under insertion, removal, testing, resizing
  and transfer of bit images, the generic layer's search, padding, creation and copy, and the legacy 32-bit bitmaps.
\<close>

section \<open>Examples the theorems are applied to\<close>

definition small_tree :: rb_private where
  "small_tree = rb_empty_private\<lparr>root := [\<lparr>x_addr = 0, x_start = 2, x_count = 3\<rparr>], next_addr := 1\<rparr>"

definition small_rb :: rb_bmap where
  "small_rb = small_bmap small_tree"

lemma small_tree_ok: "rb_ok 20 small_tree"
  by (simp add: small_tree_def rb_empty_private_def rb_ok_def rb_wf_def rb_cur_def)

lemma small_tree_bits: "rb_bits (root small_tree) = {2..<5}"
  by (simp add: small_tree_def rb_bits_def)

lemma small_rb_inv: "rb_inv small_rb"
  using small_tree_ok by (simp add: small_rb_def small_bmap_def rb_inv_def)

section \<open>The extent tree\<close>

text \<open>C6. \<^verbatim>\<open>rb_insert_extent\<close> on a well-formed tree adds exactly the inserted interval, whatever extents it
  touches, swallows or joins; the extents stay sorted, separated by gaps and inside the bitmap, every search cursor still points
  to a live extent or is empty, and the result says whether the first number was already marked.\<close>

theorem rb_insert_extent_correct:
  assumes "rb_ok M bp" "M < W64" "0 < c" "s + c \<le> M"
  shows "\<exists>r bp'. rb_insert_extent s c bp = Some (r, bp') \<and> rb_ok M bp' \<and>
    rb_bits (root bp') = rb_bits (root bp) \<union> {s..<s + c} \<and> (r \<noteq> 0 \<longleftrightarrow> s \<in> rb_bits (root bp))"
  using assms by (rule rb_insert_extent_spec)

theorem rb_insert_extent_correct_witness:
  "\<exists>r bp'. rb_insert_extent 4 6 small_tree = Some (r, bp') \<and> rb_ok 20 bp' \<and>
    rb_bits (root bp') = rb_bits (root small_tree) \<union> {4..<4 + 6} \<and> (r \<noteq> 0 \<longleftrightarrow> 4 \<in> rb_bits (root small_tree))"
  by (rule rb_insert_extent_correct [OF small_tree_ok]) simp_all

text \<open>C7. \<^verbatim>\<open>rb_remove_extent\<close> removes exactly the given interval, splitting, shortening or freeing the
  extents it meets, keeps the tree well-formed and its cursors valid, and returns nonzero whenever a number of the interval
  was marked, for every shape of the tree.\<close>

theorem rb_remove_extent_correct:
  assumes "rb_ok M bp" "M < W64" "0 < c" "s + c \<le> M"
  shows "\<exists>r bp'. rb_remove_extent shape s c bp = Some (r, bp') \<and> rb_ok M bp' \<and>
    rb_bits (root bp') = rb_bits (root bp) - {s..<s + c} \<and> (rb_bits (root bp) \<inter> {s..<s + c} \<noteq> {} \<longrightarrow> r \<noteq> 0)"
  using assms by (rule rb_remove_extent_spec)

theorem rb_remove_extent_correct_witness:
  "\<exists>r bp'. rb_remove_extent (\<lambda>_ _. False) 3 1 small_tree = Some (r, bp') \<and> rb_ok 20 bp' \<and>
    rb_bits (root bp') = rb_bits (root small_tree) - {3..<3 + 1} \<and>
    (rb_bits (root small_tree) \<inter> {3..<3 + 1} \<noteq> {} \<longrightarrow> r \<noteq> 0)"
  by (rule rb_remove_extent_correct [OF small_tree_ok]) simp_all

text \<open>C17. Resizing a tree bitmap keeps the marks up to the smaller of the old and new end, drops the rest, and marks
  exactly the padding between the new end and the new real end.\<close>

theorem rb_resize_correct:
  assumes "rb_inv b" "bm_start b \<le> new_end" "new_end \<le> new_real_end" "new_real_end < W64 - 1"
  shows "\<exists>b'. rb_resize_bmap mem fresh b new_end new_real_end = Some (0, b') \<and> rb_inv b' \<and>
    bm_start b' = bm_start b \<and> bm_end b' = new_end \<and> bm_real_end b' = new_real_end \<and>
    rb_set b' = (rb_set b \<inter> {..min new_end (bm_end b)}) \<union> {new_end<..new_real_end}"
  using assms by (rule rb_resize_spec)

theorem rb_resize_correct_witness:
  "\<exists>b'. rb_resize_bmap (\<lambda>_. True) (\<lambda>_. 0) small_rb 4 9 = Some (0, b') \<and> rb_inv b' \<and>
    bm_start b' = bm_start small_rb \<and> bm_end b' = 4 \<and> bm_real_end b' = 9 \<and>
    rb_set b' = (rb_set small_rb \<inter> {..min 4 (bm_end small_rb)}) \<union> {4<..9}"
  by (rule rb_resize_correct [OF small_rb_inv]) (simp_all add: small_rb_def small_bmap_def)

text \<open>C16. Storing a bit image in an empty tree bitmap with \<^verbatim>\<open>rb_set_bmap_range\<close> and reading the same numbers back, fewer than
  \<open>2\<^sup>3\<^sup>1\<close> of them, with \<^verbatim>\<open>rb_get_bmap_range\<close>: an image with a bit set is returned, since the run-length scan that skips whole
  bytes and words finds every bit, with the bits of the last byte beyond the range clear; for an image without a bit the tree stays empty
  and the buffer of the reader is left as it was.\<close>

theorem rb_range_roundtrip:
  assumes "rb_inv b" "rb_set b = {}" "bm_start b \<le> start" "num < 2147483648" "num \<le> 8 * length inp" "0 < num"
    and "start + num - 1 \<le> bm_real_end b" "(num + 7) div 8 \<le> length out"
  shows "\<exists>b' out'. rb_set_bmap_range b start num inp = Some (0, b') \<and> rb_inv b' \<and>
    rb_get_bmap_range shape b' start num out = Some (0, out') \<and> length out' = length out \<and>
    (if \<exists>k < num. k \<in> bits inp
     then \<forall>k < 8 * ((num + 7) div 8). k \<in> bits out' \<longleftrightarrow> k < num \<and> k \<in> bits inp else out' = out)"
proof -
  obtain b' where b': "rb_set_bmap_range b start num inp = Some (0, b')" "rb_inv b'" "same_frame b b'"
    "rb_set b' = {start + k |k. k < num \<and> k \<in> bits inp}"
    using rb_set_range_spec [OF assms(1,3,4,5,7)] assms(2) by auto
  note f = same_frame_sel [OF b'(3)]
  show ?thesis
  proof (cases "\<exists>k < num. k \<in> bits inp")
    case True
    then have "rb_set b' \<noteq> {}" using b'(4) by auto
    moreover have "bm_start b' \<le> start" "start + num - 1 \<le> bm_real_end b'" using f assms(3,7) by simp_all
    ultimately obtain out' where o: "rb_get_bmap_range shape b' start num out = Some (0, out')" "length out' = length out"
      "\<forall>k < 8 * ((num + 7) div 8). k \<in> bits out' \<longleftrightarrow> k < num \<and> start + k \<in> rb_set b'"
      using rb_get_range_spec [OF b'(2) _ assms(4) _ assms(6,8)] by blast
    have "start + k \<in> rb_set b' \<longleftrightarrow> k \<in> bits inp" if "k < num" for k unfolding b'(4) using that by simp
    then have "\<forall>k < 8 * ((num + 7) div 8). k \<in> bits out' \<longleftrightarrow> k < num \<and> k \<in> bits inp" using o(3) by blast
    then show ?thesis using b'(1,2) o(1,2) True by (simp only: if_True) blast
  next
    case False
    then have "rb_set b' = {}" using b'(4) by auto
    from rb_root_empty [OF b'(2) this] have "rb_get_bmap_range shape b' start num out = Some (0, out)" by (simp add: rb_get_bmap_range_def)
    then show ?thesis using b'(1,2) False by (simp only: if_False) blast
  qed
qed

theorem rb_range_roundtrip_witness:
  "\<exists>b' out'. rb_set_bmap_range (small_bmap rb_empty_private) 1 16 [1, 0] = Some (0, b') \<and> rb_inv b' \<and>
    rb_get_bmap_range (\<lambda>_ _. False) b' 1 16 [7, 7] = Some (0, out') \<and> length out' = length [7, 7 :: u8] \<and>
    (if \<exists>k < 16. k \<in> bits [1, 0]
     then \<forall>k < 8 * ((16 + 7) div 8). k \<in> bits out' \<longleftrightarrow> k < 16 \<and> k \<in> bits [1, 0] else out' = [7, 7])"
  by (rule rb_range_roundtrip [OF small_inv(2) small_set(2)]) (simp_all add: small_bmap_def)

section \<open>The generic layer\<close>

text \<open>C18. Searching for a clear block, with a cluster shift below 31: the first block of the range whose cluster is not
  marked, or \<^verbatim>\<open>ENOENT\<close> when every cluster is; \<^verbatim>\<open>EINVAL\<close> for a range that is empty or leaves the bitmap. Only on an empty bitmap
  the answer may be \<^verbatim>\<open>ENOENT\<close> as well.\<close>

theorem find_first_zero_correct:
  assumes "bm_inv b" "EXT2FS_IS_64_BITMAP (bm_magic b)" "bm_cluster_bits b < 31" "e < W64"
  shows "\<exists>r. ext2fs_find_first_zero_generic_bmap (bmap_ops env) (Some (B64 b)) s e = Some r \<and>
    (if s \<le> e \<and> accepts (view b) (cluster_of (view b) s) \<and> accepts (view b) (cluster_of (view b) e)
     then first_in (\<lambda>k. cluster_of (view b) k \<notin> bm_set b) s e r \<or> bm_set b = {} \<and> r = Inl ENOENT else r = Inl EINVAL)"
  using assms(1,2,4) by (rule bm.gen_find_zero_any)

lemma from_rb_frame: "bm_magic (from_rb x) = bm_magic x" "view (from_rb x) = view x" "bm_cluster_bits (from_rb x) = bm_cluster_bits x"
  by (simp_all add: from_rb_def view_def)

lemma small_rb_magic: "EXT2FS_IS_64_BITMAP (bm_magic small_rb)"
  by (simp only: small_rb_def small_view(1))

lemma small_rb_bits: "bm_cluster_bits small_rb < 31"
  by (simp only: small_rb_def small_bits)

theorem find_first_zero_correct_witness:
  "\<exists>r. ext2fs_find_first_zero_generic_bmap (bmap_ops small_env) (Some (B64 (from_rb small_rb))) 3 20 = Some r \<and>
    (if 3 \<le> (20::nat) \<and> accepts (view (from_rb small_rb)) (cluster_of (view (from_rb small_rb)) 3) \<and>
        accepts (view (from_rb small_rb)) (cluster_of (view (from_rb small_rb)) 20)
     then first_in (\<lambda>k. cluster_of (view (from_rb small_rb)) k \<notin> bm_set (from_rb small_rb)) 3 20 r \<or>
       bm_set (from_rb small_rb) = {} \<and> r = Inl ENOENT else r = Inl EINVAL)"
  by (rule find_first_zero_correct) (simp_all add: small_rb_inv from_rb_frame small_rb_magic small_rb_bits)

text \<open>\<^verbatim>\<open>ext2fs_alloc_generic_bmap\<close>: with memory available and a known back-end type, a well-formed empty bitmap
  with the requested bounds and magic, of either back end.\<close>

theorem alloc_generic_bmap_correct:
  assumes "\<forall>n. mem n" "type \<le> 3" "start \<le> end" "end \<le> real_end" "real_end < W64 - 1"
  shows "\<exists>b. ext2fs_alloc_generic_bmap env mem fs num_dirs magic type start end real_end descr = Some (Inr b) \<and>
    bm_inv b \<and> bm_set b = {} \<and> bm_magic b = magic \<and> bm_start b = start \<and> bm_end b = end \<and> bm_real_end b = real_end \<and>
    bm_cluster_bits b = (if magic = EXT2_ET_MAGIC_BLOCK_BITMAP64 then fs_cluster_ratio_bits fs else 0)"
  using assms by (rule alloc_bmap_new)

definition small_fs :: fs_view where
  "small_fs = \<lparr>fs_cluster_ratio_bits = 4, fs_inodes_count = 3200, fs_first_data_block = 0, fs_blocks_count = 65536,
     fs_clusters_per_group = 2048, fs_blocks_per_group = 32768, fs_inodes_per_group = 1600, fs_group_desc_count = 2,
     fs_flag_64bits = True, fs_default_bitmap_type = 3\<rparr>"

theorem alloc_generic_bmap_correct_witness:
  "\<exists>b. ext2fs_alloc_generic_bmap small_env (\<lambda>_. True) small_fs (Inr 5) EXT2_ET_MAGIC_BLOCK_BITMAP64 3 0 4095 4095
      (Some ''map'') = Some (Inr b) \<and>
    bm_inv b \<and> bm_set b = {} \<and> bm_magic b = EXT2_ET_MAGIC_BLOCK_BITMAP64 \<and> bm_start b = 0 \<and> bm_end b = 4095 \<and>
    bm_real_end b = 4095 \<and>
    bm_cluster_bits b = (if EXT2_ET_MAGIC_BLOCK_BITMAP64 = EXT2_ET_MAGIC_BLOCK_BITMAP64 then fs_cluster_ratio_bits small_fs else 0)"
  by (rule alloc_generic_bmap_correct) simp_all

text \<open>\<^verbatim>\<open>ext2fs_copy_generic_bmap\<close>: with memory available the copy has the bounds and the marks of the source, which keeps
  its own, and both are well-formed; the copy's description is prefixed.\<close>

theorem copy_generic_bmap_correct:
  assumes "\<forall>n. mem n" "bm_inv b" "EXT2FS_IS_64_BITMAP (bm_magic b)"
  shows "\<exists>b' c. ext2fs_copy_generic_bmap (bmap_ops env) mem (Some (B64 b)) = Some (Inr (B64 b', B64 c)) \<and>
    bm_inv b' \<and> same_frame b b' \<and> bm_set b' = bm_set b \<and> bm_inv c \<and> bm_set c = bm_set b \<and>
    same_frame (b\<lparr>bm_description := map_option (\<lambda>d. ''copy of '' @ d) (bm_description b)\<rparr>) c"
proof -
  define d where "d = b\<lparr>bm_description := map_option (\<lambda>d. ''copy of '' @ d) (bm_description b)\<rparr>"
  have "bm_start d = bm_start b" "bm_end d = bm_end b" "bm_real_end d = bm_real_end b" by (simp_all add: d_def)
  from bm_alloc.copy [OF assms(1,2) this, of env] obtain b' c where
    c: "copy_bmap (bmap_ops env) mem b d = Some (0, b', c)" "bm_inv b'" "same_frame b b'" "bm_set b' = bm_set b"
    "bm_inv c" "same_frame d c" "bm_set c = bm_set b" by blast
  have "ext2fs_copy_generic_bmap (bmap_ops env) mem (Some (B64 b)) = Some (Inr (B64 b', B64 c))"
    unfolding ext2fs_copy_generic_bmap_def option.case any_bmap.case Let_def d_def [symmetric]
    using assms(1,3) bm.is64_not_32 [OF assms(3)] by (simp add: c(1))
  then show ?thesis using c(2-7) unfolding d_def by blast
qed

theorem copy_generic_bmap_correct_witness:
  "\<exists>b' c. ext2fs_copy_generic_bmap (bmap_ops small_env) (\<lambda>_. True) (Some (B64 (from_rb small_rb))) =
      Some (Inr (B64 b', B64 c)) \<and>
    bm_inv b' \<and> same_frame (from_rb small_rb) b' \<and> bm_set b' = bm_set (from_rb small_rb) \<and> bm_inv c \<and>
    bm_set c = bm_set (from_rb small_rb) \<and>
    same_frame ((from_rb small_rb)\<lparr>bm_description := map_option (\<lambda>d. ''copy of '' @ d) (bm_description (from_rb small_rb))\<rparr>) c"
  by (rule copy_generic_bmap_correct) (simp_all add: small_rb_inv from_rb_frame small_rb_magic)

text \<open>A block is marked if its cluster is accepted and in the set. The result of a test in a bit array is the mask of the bit.\<close>

definition blk_marked :: "ba_bmap \<Rightarrow> u64 \<Rightarrow> bool" where
  "blk_marked b n \<longleftrightarrow> accepts (view b) (cluster_of (view b) n) \<and> cluster_of (view b) n \<in> ba_set b"

lemma test_generic_ba:
  assumes "ba_inv b" "EXT2FS_IS_64_BITMAP (bm_magic b)"
  shows "ext2fs_test_generic_bmap (env_ba env) (Some (B64 b)) n =
    Some (if blk_marked b n then uint (bit_mask (cluster_of (view b) n - bm_start b)) else 0, Some (B64 b))"
proof (cases "accepts (view b) (cluster_of (view b) n)")
  case True
  let ?c = "cluster_of (view b) n" and ?p = "bm_private b"
  have c: "bm_start b \<le> ?c" "?c \<le> bm_real_end b" using ba.accepts_real [OF assms(1) True] by simp_all
  note r = ba_rel [OF assms(1) c]
  have "bit_mask k AND ?p ! (k div 8) = (if bit (?p ! (k div 8)) (k mod 8) then bit_mask k else 0)" for k
    by (rule bit_eqI) (auto simp: bit_and_iff bit_bit_mask)
  then have "ba_test_bmap b ?c = Some (if ?c \<in> ba_set b then uint (bit_mask (?c - bm_start b)) else 0, b)"
    using r c by (simp add: ba_test_bmap_def test_bit64_spec ba_set_iff bits_iff)
  then show ?thesis using True assms(2) bm.is64_not_32 [OF assms(2)]
    by (simp add: ext2fs_test_generic_bmap_def ext2fs_blkmap64_bitarray_def blk_marked_def accepts_def cluster_of_def)
next
  case False
  then show ?thesis using assms(2) bm.is64_not_32 [OF assms(2)]
    by (auto simp: ext2fs_test_generic_bmap_def blk_marked_def accepts_def cluster_of_def Let_def)
qed

lemma compare_tail64_ba:
  assumes "ba_inv x" "ba_inv y" "EXT2FS_IS_64_BITMAP (bm_magic x)" "EXT2FS_IS_64_BITMAP (bm_magic y)" "view x = view y"
    and "end < W64 - 1" "i \<le> end + 1"
  shows "compare_tail64 (env_ba env) neq (Some (B64 x)) (Some (B64 y)) end i =
    Some (if \<forall>k \<in> {i..end}. blk_marked x k \<longleftrightarrow> blk_marked y k then 0 else neq, Some (B64 x), Some (B64 y))"
  using assms(7)
proof (induction "end + 1 - i" arbitrary: i)
  case 0
  then show ?case by (simp add: compare_tail64.simps)
next
  case (Suc d)
  have le: "i \<le> end" and n: "add64 i 1 = i + 1" using Suc.hyps(2) assms(6) by (simp_all add: add64_def)
  have s: "bm_start x = bm_start y" using arg_cong [OF assms(5), of v_start] by simp
  have "uint (bit_mask k) \<noteq> 0" for k using bit_bit_mask [of k "k mod 8"] by (auto simp: uint_0_iff)
  then have eq: "fst (if blk_marked x i then uint (bit_mask (cluster_of (view x) i - bm_start x)) else 0, Some (B64 x)) =
      fst (if blk_marked y i then uint (bit_mask (cluster_of (view y) i - bm_start y)) else 0, Some (B64 y)) \<longleftrightarrow> (blk_marked x i \<longleftrightarrow> blk_marked y i)"
    by (simp add: assms(5) s)
  have "{i..end} = insert i {i + 1..end}" using le by auto
  moreover have "end + 1 - (i + 1) = d" "i + 1 \<le> end + 1" using Suc.hyps(2) le by simp_all
  note Suc.hyps(1) [OF this(1) [symmetric] this(2)]
  ultimately show ?case
    by (subst compare_tail64.simps) (simp add: le n [simplified] test_generic_ba [OF assms(1,3)] test_generic_ba [OF assms(2,4)] eq del: fst_conv)
qed

text \<open>C20. \<^verbatim>\<open>ext2fs_compare_generic_bmap\<close> on two bit arrays with the same bounds and cluster shift, below 31, looks only at the last numbers: with
  \<open>m\<close> the remainder of \<open>end - start\<close> by eight, it returns 0, equal, exactly when the blocks from \<open>end - m\<close> to \<open>end\<close> agree, whatever the rest.
  Two bitmaps that differ before \<open>end - m\<close> only are reported as equal.\<close>

theorem compare_generic_bmap_misses_difference:
  assumes "ba_inv x" "ba_inv y" "EXT2FS_IS_64_BITMAP (bm_magic x)" "bm_magic y = bm_magic x" "view x = view y" "bm_cluster_bits x < 31" "neq \<noteq> 0"
  shows "\<exists>r. ext2fs_compare_generic_bmap (env_ba env) neq (Some (B64 x)) (Some (B64 y)) = Some (r, Some (B64 x), Some (B64 y)) \<and>
    (r = 0 \<longleftrightarrow> (\<forall>k \<in> {bm_end x - (bm_end x - bm_start x) mod 8..bm_end x}. blk_marked x k \<longleftrightarrow> blk_marked y k))"
proof -
  have v: "bm_start x = bm_start y" "bm_end x = bm_end y" using arg_cong [OF assms(5), of v_start] arg_cong [OF assms(5), of v_end] by simp_all
  have f: "bm_start x \<le> bm_end x" "bm_end x < W64 - 1" using assms(1) by (simp_all add: ba_inv_def)
  let ?i = "bm_end x - (bm_end x - bm_start x) mod 8"
  have sub: "sub64 (bm_end x) (bm_start x) = bm_end x - bm_start x" using f by (intro sub64_nowrap) simp_all
  have m: "(bm_end x - bm_start x) mod 8 \<le> bm_end x" by (meson diff_le_self le_trans mod_less_eq_dividend)
  then have i: "sub64 (bm_end x) ((bm_end x - bm_start x) mod 8) = ?i" using f by (intro sub64_nowrap) simp_all
  have "compare_tail64 (env_ba env) neq (Some (B64 x)) (Some (B64 y)) (bm_end x) ?i =
      Some (if \<forall>k \<in> {?i..bm_end x}. blk_marked x k \<longleftrightarrow> blk_marked y k then 0 else neq, Some (B64 x), Some (B64 y))"
    using assms(3,4) f by (intro compare_tail64_ba [OF assms(1,2)]) (simp_all add: assms(5))
  then have "ext2fs_compare_generic_bmap (env_ba env) neq (Some (B64 x)) (Some (B64 y)) =
      Some (if \<forall>k \<in> {?i..bm_end x}. blk_marked x k \<longleftrightarrow> blk_marked y k then 0 else neq, Some (B64 x), Some (B64 y))"
    using assms(3,4) bm.is64_not_32 [OF assms(3)] by (simp add: ext2fs_compare_generic_bmap_def any_magic_def sub i v [symmetric])
  then show ?thesis using assms(7) by auto
qed

theorem compare_generic_bmap_misses_difference_witness:
  "\<exists>r. ext2fs_compare_generic_bmap (env_ba small_env) 77 (Some (B64 (small_bmap [0, 0, 0]))) (Some (B64 (small_bmap [1, 0, 0]))) =
     Some (r, Some (B64 (small_bmap [0, 0, 0])), Some (B64 (small_bmap [1, 0, 0]))) \<and>
   (r = 0 \<longleftrightarrow> (\<forall>k \<in> {bm_end (small_bmap [0, 0, 0 :: u8]) - (bm_end (small_bmap [0, 0, 0 :: u8]) - bm_start (small_bmap [0, 0, 0 :: u8])) mod 8..
     bm_end (small_bmap [0, 0, 0 :: u8])}. blk_marked (small_bmap [0, 0, 0]) k \<longleftrightarrow> blk_marked (small_bmap [1, 0, 0]) k))"
proof -
  have "ba_inv (small_bmap [1, 0, 0])" by (simp add: small_bmap_def ba_inv_def)
  then show ?thesis
    by (intro compare_generic_bmap_misses_difference small_inv(1) small_view(1) small_views small_bits) (simp_all add: small_bmap_def)
qed

section \<open>Legacy 32-bit bitmaps\<close>

definition small_32 :: "u8 list \<Rightarrow> bitmap32" where
  "small_32 arr = \<lparr>g_magic = EXT2_ET_MAGIC_BLOCK_BITMAP, g_start = 1, g_end = 20, g_real_end = 24, g_description = None,
     g_bitmap = arr, g_base_error_code = EXT2_ET_BAD_BLOCK_MARK\<rparr>"

lemma small_32_inv: "length arr = 3 \<Longrightarrow> g_inv (small_32 arr)"
  by (simp add: small_32_def g_inv_def EXT2FS_IS_32_BITMAP_def)

text \<open>C19. \<^verbatim>\<open>ext2fs_compare_generic_bitmap\<close>: two 32-bit bitmaps compare equal exactly when they have the same bounds and mark the
  same numbers between them, though whole bytes are compared first and only the last numbers one by one. This needs a last number
  below \<^verbatim>\<open>0xffffffff\<close>, for which the loop ends.\<close>

theorem compare_generic_bitmap_correct:
  assumes "g_inv b1" "g_inv b2" "g_end b1 < W32 - 1" "neq \<noteq> 0" "g_magic b1 = magic" "g_magic b2 = magic"
  shows "\<exists>r. ext2fs_compare_generic_bitmap magic neq (Some b1) (Some b2) = Some r \<and>
    (r = 0 \<longleftrightarrow> g_start b1 = g_start b2 \<and> g_end b1 = g_end b2 \<and>
      g_set b1 \<inter> {g_start b1..g_end b1} = g_set b2 \<inter> {g_start b1..g_end b1})"
  using assms by (rule compare_bitmap32_spec)

theorem compare_generic_bitmap_correct_witness:
  "\<exists>r. ext2fs_compare_generic_bitmap EXT2_ET_MAGIC_BLOCK_BITMAP 77 (Some (small_32 [1, 2, 3])) (Some (small_32 [1, 2, 19])) = Some r \<and>
    (r = 0 \<longleftrightarrow> g_start (small_32 [1, 2, 3]) = g_start (small_32 [1, 2, 19]) \<and> g_end (small_32 [1, 2, 3]) = g_end (small_32 [1, 2, 19]) \<and>
      g_set (small_32 [1, 2, 3]) \<inter> {g_start (small_32 [1, 2, 3])..g_end (small_32 [1, 2, 3])} =
      g_set (small_32 [1, 2, 19]) \<inter> {g_start (small_32 [1, 2, 3])..g_end (small_32 [1, 2, 3])})"
  by (rule compare_generic_bitmap_correct [OF small_32_inv small_32_inv]) (simp_all add: small_32_def)

text \<open>\<^verbatim>\<open>ext2fs_test_clear_generic_bitmap_range\<close>: for a range inside the bitmap, nonzero exactly when no number of the range is
  marked; the masks for the partial first and last byte and the word-wise comparison of the middle miss nothing and add nothing.\<close>

theorem test_clear_generic_bitmap_range_correct:
  assumes "g_inv b" "g_start b \<le> n" "0 < num" "n + num - 1 \<le> g_real_end b"
  shows "\<exists>r. ext2fs_test_clear_generic_bitmap_range b n num = Some r \<and> (r \<noteq> 0 \<longleftrightarrow> g_set b \<inter> {n..<n + num} = {})"
  using assms by (rule test_clear32_spec)

theorem test_clear_generic_bitmap_range_correct_witness:
  "\<exists>r. ext2fs_test_clear_generic_bitmap_range (small_32 [1, 0, 3]) 3 11 = Some r \<and>
    (r \<noteq> 0 \<longleftrightarrow> g_set (small_32 [1, 0, 3]) \<inter> {3..<3 + 11} = {})"
  by (rule test_clear_generic_bitmap_range_correct [OF small_32_inv]) (simp_all add: small_32_def)

text \<open>\<^verbatim>\<open>ext2fs_mark_block_bitmap_range\<close> then \<^verbatim>\<open>ext2fs_unmark_block_bitmap_range\<close> on a range of a 32-bit bitmap: the
  first adds exactly the range, the second removes exactly it.\<close>

theorem mark_unmark_range32_correct:
  assumes "g_inv b" "g_start b \<le> block" "0 < num" "block + nat num - 1 \<le> g_end b"
  shows "(\<exists>b'. ext2fs_mark_block_bitmap_range b block num = Some b' \<and> g_inv b' \<and>
      g_set b' = g_set b \<union> {block..<block + nat num}) \<and>
    (\<exists>b'. ext2fs_unmark_block_bitmap_range b block num = Some b' \<and> g_inv b' \<and>
      g_set b' = g_set b - {block..<block + nat num})"
  using mark_range32_spec [OF assms] unmark_range32_spec [OF assms] by blast

theorem mark_unmark_range32_correct_witness:
  "(\<exists>b'. ext2fs_mark_block_bitmap_range (small_32 [1, 0, 3]) 2 9 = Some b' \<and> g_inv b' \<and>
      g_set b' = g_set (small_32 [1, 0, 3]) \<union> {2..<2 + nat 9}) \<and>
    (\<exists>b'. ext2fs_unmark_block_bitmap_range (small_32 [1, 0, 3]) 2 9 = Some b' \<and> g_inv b' \<and>
      g_set b' = g_set (small_32 [1, 0, 3]) - {2..<2 + nat 9})"
  by (rule mark_unmark_range32_correct [OF small_32_inv]) (simp_all add: small_32_def)

end
