(* ===== verification/Arg_Fuzz.thy ===== *)
theory Arg_Fuzz
  imports Prelude
begin

text \<open>
  The argument fuzzer, \<^verbatim>\<open>src/arg_fuzz.c\<close>: it reads a tree of command-line arguments from a JSON
  description, switches every argument on or off at random, repairs the choice (mutual exclusion, arguments that must
  be present, dependencies) and prints a command line.

  \<^item> json-c is not part of the repository: the accessors the code calls are the fields of \<open>json_api\<close>, and the
    sequence of callbacks \<^verbatim>\<open>json_c_visit\<close> makes is one of them. A JSON null is \<open>None\<close>, as the library returns NULL for it.
  \<^item> \<^verbatim>\<open>rand\<close> and \<^verbatim>\<open>random\<close> draw from one stream of numbers, as they do in the C library.
  \<^item> Memory from \<^verbatim>\<open>malloc\<close> is not initialised: the initial contents are arguments. A read or write outside an array,
    a string that does not fit its buffer, a division by zero, an overflow of a signed \<^verbatim>\<open>int\<close> and a floating-point number too
    large for its integer are \<open>None\<close>.
  \<^item> Arrays keep the length field of the code beside their contents.
\<close>

section \<open>Data\<close>

record arg_node =
  a_arg :: "string option"
  value_type :: int
  value_int :: "u64 list"
  value_char :: string
  value_char_array :: "string list"
  char_array_len :: int
  operator_value :: string
  operator_sibling :: string
  operator_child :: string
  mutex :: "int list option"
  mutex_len :: int
  must_have :: bool
  weight :: int
  must_child :: bool
  child_id :: "int list"
  child_id_len :: int
  dependency_id :: "int list"
  dependency_id_len :: int

record ir =
  enable :: int
  ir_value_int :: u64
  ir_value_char :: string

abbreviation MAX_CMD_LEN :: nat where "MAX_CMD_LEN \<equiv> 1024"
abbreviation MAX_BRANCH_LEN :: nat where "MAX_BRANCH_LEN \<equiv> 1024"

text \<open>Access with a signed index.\<close>

definition rdi :: "'a list \<Rightarrow> int \<Rightarrow> 'a option" where
  "rdi xs i = (if i < 0 then None else rd xs (nat i))"

definition updi :: "'a list \<Rightarrow> int \<Rightarrow> ('a \<Rightarrow> 'a) \<Rightarrow> 'a list option" where
  "updi xs i f = do { v \<leftarrow> rdi xs i; wr xs (nat i) (f v) }"

section \<open>Reading the JSON description\<close>

record 'j json_api =
  is_object :: "'j \<Rightarrow> bool"
  members :: "'j \<Rightarrow> (string \<times> 'j option) list"
  get_int :: "'j option \<Rightarrow> int"
  get_boolean :: "'j option \<Rightarrow> bool"
  get_string :: "'j option \<Rightarrow> string"
  array_length :: "'j \<Rightarrow> nat"
  array_get_idx :: "'j \<Rightarrow> nat \<Rightarrow> 'j option"
  visits :: "'j \<Rightarrow> ('j \<times> nat \<times> string option) list"

definition JSON_C_VISIT_SECOND :: nat where "JSON_C_VISIT_SECOND = 2"

definition jso_count :: "'j json_api \<Rightarrow> 'j \<times> nat \<times> string option \<Rightarrow> nat \<Rightarrow> nat" where
  "jso_count api v count =
     (case v of (jso, flags, _) \<Rightarrow> if is_object api jso \<and> flags \<noteq> JSON_C_VISIT_SECOND then count + 1 else count)"

text \<open>A 32-bit \<^verbatim>\<open>int\<close> stored in an \<^verbatim>\<open>unsigned long\<close>.\<close>

definition to_ulong :: "int \<Rightarrow> u64" where
  "to_ulong i = nat (i mod int W64)"

definition ints_of :: "'j json_api \<Rightarrow> 'j \<Rightarrow> int list" where
  "ints_of api jobj = map (\<lambda>i. get_int api (array_get_idx api jobj i)) [0..<array_length api jobj]"

definition ct_value :: "'j json_api \<Rightarrow> 'j option \<Rightarrow> arg_node \<Rightarrow> arg_node" where
  "ct_value api v n =
     (case v of
        None \<Rightarrow> n\<lparr>char_array_len := 0\<rparr>
      | Some jobj \<Rightarrow>
          if value_type n = 1 \<or> value_type n = 2 then n\<lparr>value_int := map to_ulong (ints_of api jobj)\<rparr>
          else if value_type n = 3 then n\<lparr>value_char := get_string api v\<rparr>
          else if value_type n = 4
          then n\<lparr>char_array_len := int (array_length api jobj),
                 value_char_array := map (\<lambda>i. get_string api (array_get_idx api jobj i)) [0..<array_length api jobj]\<rparr>
          else n)"

definition ct_field :: "'j json_api \<Rightarrow> string \<times> 'j option \<Rightarrow> arg_node \<Rightarrow> arg_node" where
  "ct_field api kv n =
     (case kv of (key, v) \<Rightarrow>
        if key = ''value_type'' then n\<lparr>value_type := (case v of None \<Rightarrow> 0 | Some _ \<Rightarrow> get_int api v)\<rparr>
        else if key = ''value'' then ct_value api v n
        else if key = ''operator_value''
        then n\<lparr>operator_value := (case v of None \<Rightarrow> ''NULL'' | Some _ \<Rightarrow> get_string api v)\<rparr>
        else if key = ''operator_sibling''
        then n\<lparr>operator_sibling := (case v of None \<Rightarrow> ''NULL'' | Some _ \<Rightarrow> get_string api v)\<rparr>
        else if key = ''operator_child''
        then n\<lparr>operator_child := (case v of None \<Rightarrow> ''NULL'' | Some _ \<Rightarrow> get_string api v)\<rparr>
        else if key = ''mutex'' then
          (case v of None \<Rightarrow> n\<lparr>mutex_len := 0\<rparr>
           | Some jobj \<Rightarrow> n\<lparr>mutex_len := int (array_length api jobj), mutex := Some (ints_of api jobj)\<rparr>)
        else if key = ''must_have''
        then n\<lparr>must_have := (case v of None \<Rightarrow> False | Some _ \<Rightarrow> get_boolean api v)\<rparr>
        else if key = ''weight'' then n\<lparr>weight := (case v of None \<Rightarrow> 1 | Some _ \<Rightarrow> get_int api v)\<rparr>
        else if key = ''dependency_id'' then
          (case v of None \<Rightarrow> n\<lparr>dependency_id_len := 0\<rparr>
           | Some jobj \<Rightarrow> n\<lparr>dependency_id_len := int (array_length api jobj), dependency_id := ints_of api jobj\<rparr>)
        else if key = ''must_child'' then
          (case v of None \<Rightarrow> n\<lparr>must_have := False\<rparr> | Some _ \<Rightarrow> n\<lparr>must_child := get_boolean api v\<rparr>)
        else if key = ''child_id'' then
          (case v of None \<Rightarrow> n\<lparr>child_id_len := 0\<rparr>
           | Some jobj \<Rightarrow> n\<lparr>child_id_len := int (array_length api jobj), child_id := ints_of api jobj\<rparr>)
        else n)"

text \<open>The first loop over the members: find the index and store the name.\<close>

fun ct_find_id :: "'j json_api \<Rightarrow> string option \<Rightarrow> (string \<times> 'j option) list \<Rightarrow> int \<times> bool \<Rightarrow> arg_node list \<Rightarrow>
    ((int \<times> bool) \<times> arg_node list) option" where
  "ct_find_id api jso_key [] s arr = Some (s, arr)"
| "ct_find_id api jso_key ((key, v) # ms) s arr =
     (if key = ''id'' then
        do { arr' \<leftarrow> updi arr (get_int api v) (\<lambda>n. n\<lparr>a_arg := jso_key\<rparr>);
             ct_find_id api jso_key ms (get_int api v, True) arr' }
      else ct_find_id api jso_key ms s arr)"

fun ct_fields :: "'j json_api \<Rightarrow> int \<Rightarrow> (string \<times> 'j option) list \<Rightarrow> arg_node list \<Rightarrow> arg_node list option" where
  "ct_fields api nid [] arr = Some arr"
| "ct_fields api nid (m # ms) arr = do { arr' \<leftarrow> updi arr nid (ct_field api m); ct_fields api nid ms arr' }"

definition ct_builder :: "'j json_api \<Rightarrow> 'j \<times> nat \<times> string option \<Rightarrow> arg_node list \<Rightarrow> arg_node list option" where
  "ct_builder api v arg_array =
     (case v of (jso, flags, jso_key) \<Rightarrow>
        if is_object api jso \<and> flags \<noteq> JSON_C_VISIT_SECOND then
          do { ((nid, id_loaded), arr) \<leftarrow> ct_find_id api jso_key (members api jso) (0, False) arg_array;
               if id_loaded then ct_fields api nid (members api jso) arr else Some arr }
        else Some arg_array)"

fun ct_visit :: "'j json_api \<Rightarrow> ('j \<times> nat \<times> string option) list \<Rightarrow> arg_node list \<Rightarrow> arg_node list option" where
  "ct_visit api [] arr = Some arr"
| "ct_visit api (v # vs) arr = do { arr' \<leftarrow> ct_builder api v arr; ct_visit api vs arr' }"

definition json_tree_parse :: "'j json_api \<Rightarrow> 'j \<Rightarrow> arg_node list \<Rightarrow> arg_node list option" where
  "json_tree_parse api tree arg_array = ct_visit api (visits api tree) arg_array"

fun sum_weights :: "arg_node list \<Rightarrow> nat \<Rightarrow> nat \<Rightarrow> int \<Rightarrow> int option" where
  "sum_weights arr i 0 acc = Some acc"
| "sum_weights arr i (Suc n) acc = do { a \<leftarrow> rd arr i; sum_weights arr (Suc i) n (acc + weight a) }"

definition bitmap_len :: "arg_node list \<Rightarrow> nat \<Rightarrow> int option" where
  "bitmap_len arg_array arg_count = sum_weights arg_array 0 arg_count 0"

section \<open>Random numbers\<close>

type_synonym rng = "nat \<Rightarrow> nat"

definition skip_rng :: "nat \<Rightarrow> rng \<Rightarrow> rng" where
  "skip_rng k r = (\<lambda>n. r (k + n))"

fun fuzz_bytes :: "nat \<Rightarrow> nat \<Rightarrow> rng \<Rightarrow> nat list \<Rightarrow> nat list option" where
  "fuzz_bytes i 0 r bm = Some bm"
| "fuzz_bytes i (Suc n) r bm = do { bm' \<leftarrow> wr bm i (r 0 mod 255 + 1); fuzz_bytes (Suc i) n (skip_rng 1 r) bm' }"

definition bitmap_fuzz :: "nat list \<Rightarrow> nat \<Rightarrow> rng \<Rightarrow> (nat list \<times> rng) option" where
  "bitmap_fuzz arg_bitmap arg_count r =
     do { bm \<leftarrow> fuzz_bytes 0 arg_count r arg_bitmap; Some (bm, skip_rng arg_count r) }"

text \<open>A natural number as a \<^verbatim>\<open>double\<close>: rounded to 53 significant bits, to the nearest, ties to even.\<close>

fun bit_length :: "nat \<Rightarrow> nat" where
  "bit_length n = (if n = 0 then 0 else Suc (bit_length (n div 2)))"

definition round_at :: "nat \<Rightarrow> nat \<Rightarrow> nat" where
  "round_at e n =
     (let q = n div 2 ^ e; rem = n mod 2 ^ e in
      (if 2 * rem > 2 ^ e \<or> (2 * rem = 2 ^ e \<and> odd q) then q + 1 else q) * 2 ^ e)"

definition to_double :: "nat \<Rightarrow> nat" where
  "to_double n = (if n < 2 ^ 53 then n else round_at (bit_length n - 53) n)"

fun rng_bytes :: "nat \<Rightarrow> rng \<Rightarrow> nat" where
  "rng_bytes 0 r = 0"
| "rng_bytes (Suc n) r = r 0 mod 256 + 256 * rng_bytes n (skip_rng 1 r)"

text \<open>The quotient by \<open>2 ^ 64\<close> is exact, so rounding the product and dividing commute.\<close>

definition scale_num :: "nat \<Rightarrow> nat \<Rightarrow> nat" where
  "scale_num width x = to_double (to_double width * to_double x) div W64"

definition rand_num :: "u64 \<Rightarrow> u64 \<Rightarrow> rng \<Rightarrow> (u64 \<times> rng) option" where
  "rand_num lo hi r =
     (let t = scale_num (sub64 hi lo) (rng_bytes 8 r) in
      if t < W64 then Some (add64 lo t, skip_rng 8 r) else None)"

section \<open>Repairing a choice\<close>

definition set_enable :: "int \<Rightarrow> ir \<Rightarrow> ir" where
  "set_enable v s = s\<lparr>enable := v\<rparr>"

text \<open>The first listed node that is switched off; \<open>Some None\<close> when there is none.\<close>

fun first_disabled :: "ir list \<Rightarrow> int list \<Rightarrow> nat \<Rightarrow> nat \<Rightarrow> int option option" where
  "first_disabled irs ids i 0 = Some None"
| "first_disabled irs ids i (Suc n) =
     do { parent_id \<leftarrow> rd ids i;
          s \<leftarrow> rdi irs parent_id;
          if enable s = 0 then Some (Some parent_id) else first_disabled irs ids (Suc i) n }"

definition count_ir :: "(int \<Rightarrow> bool) \<Rightarrow> ir list \<Rightarrow> nat" where
  "count_ir P irs = length (filter (\<lambda>s. P (enable s)) irs)"

lemma count_ir_update:
  assumes "i < length irs" "P (enable (irs ! i))" "\<not> P v"
  shows "count_ir P (irs[i := set_enable v (irs ! i)]) < count_ir P irs"
proof -
  have "irs = take i irs @ irs ! i # drop (Suc i) irs" using assms(1) by (rule id_take_nth_drop)
  then have "count_ir P irs = count_ir P (take i irs) + Suc (count_ir P (drop (Suc i) irs))"
    using assms(2) unfolding count_ir_def by (metis filter.simps(2) filter_append length_Cons length_append)
  moreover have "count_ir P (irs[i := set_enable v (irs ! i)]) = count_ir P (take i irs) + count_ir P (drop (Suc i) irs)"
    using assms(1,3) by (simp add: count_ir_def upd_conv_take_nth_drop set_enable_def)
  ultimately show ?thesis by simp
qed

lemma first_disabled_SomeD:
  "first_disabled irs ids i n = Some (Some p) \<Longrightarrow> 0 \<le> p \<and> nat p < length irs \<and> enable (irs ! nat p) = 0"
  by (induction irs ids i n rule: first_disabled.induct)
    (auto simp: rdi_def rd_eq_Some_iff Option.bind_eq_Some_conv split: if_splits)

function enable_dependency :: "arg_node list \<Rightarrow> ir list \<Rightarrow> int \<Rightarrow> ir list option" where
  "enable_dependency arg_array irs nid =
     do { a \<leftarrow> rdi arg_array nid;
          s \<leftarrow> rdi irs nid;
          if enable s = 1 \<and> dependency_id_len a \<noteq> 0 then
            (case first_disabled irs (dependency_id a) 0 (nat (dependency_id_len a)) of
               None \<Rightarrow> None
             | Some None \<Rightarrow> Some irs
             | Some (Some parent_id) \<Rightarrow>
                 enable_dependency arg_array (irs[nat parent_id := set_enable 1 (irs ! nat parent_id)]) parent_id)
          else Some irs }"
  by pat_completeness auto
termination
  by (relation "measure (\<lambda>(arr, irs, nid). count_ir (\<lambda>e. e = 0) irs)")
    (auto dest!: first_disabled_SomeD intro!: count_ir_update)

text \<open>Whether a listed child is switched on.\<close>

fun has_enabled :: "ir list \<Rightarrow> int list \<Rightarrow> nat \<Rightarrow> nat \<Rightarrow> bool option" where
  "has_enabled irs ids i 0 = Some False"
| "has_enabled irs ids i (Suc n) =
     do { c \<leftarrow> rd ids i; s \<leftarrow> rdi irs c;
          if enable s = 1 then Some True else has_enabled irs ids (Suc i) n }"

partial_function (option) enable_dependant :: "arg_node list \<Rightarrow> ir list \<Rightarrow> rng \<Rightarrow> int \<Rightarrow> (ir list \<times> rng) option" where
  "enable_dependant arg_array irs r nid =
     do { a \<leftarrow> rdi arg_array nid;
          s \<leftarrow> rdi irs nid;
          if enable s = 1 \<and> child_id_len a \<noteq> 0 \<and> must_child a then
            do { found \<leftarrow> has_enabled irs (child_id a) 0 (nat (child_id_len a));
                 if found then Some (irs, r)
                 else do { kr \<leftarrow> rand_num 0 (to_ulong (child_id_len a)) r;
                           c \<leftarrow> rd (child_id a) (fst kr);
                           irs' \<leftarrow> updi irs c (set_enable 1);
                           enable_dependant arg_array irs' (snd kr) c } }
          else Some (irs, r) }"

section \<open>Printing a branch\<close>

text \<open>\<^verbatim>\<open>strcat\<close> and \<^verbatim>\<open>strcpy\<close> into a buffer: the terminating zero must fit.\<close>

definition c_strcat :: "nat \<Rightarrow> string \<Rightarrow> string \<Rightarrow> string option" where
  "c_strcat lim buf s = (if length buf + length s < lim then Some (buf @ s) else None)"

definition c_strcpy :: "nat \<Rightarrow> string \<Rightarrow> string option" where
  "c_strcpy lim s = (if length s < lim then Some s else None)"

text \<open>\<^verbatim>\<open>%lu\<close>\<close>

fun print_ulong :: "nat \<Rightarrow> string" where
  "print_ulong n = (if n < 10 then [char_of (48 + n)] else print_ulong (n div 10) @ [char_of (48 + n mod 10)])"

declare print_ulong.simps [simp del]

fun last_enabled :: "ir list \<Rightarrow> int list \<Rightarrow> nat \<Rightarrow> nat \<Rightarrow> int option \<Rightarrow> int option option" where
  "last_enabled irs ids i 0 acc = Some acc"
| "last_enabled irs ids i (Suc n) acc =
     do { c \<leftarrow> rd ids i; s \<leftarrow> rdi irs c;
          last_enabled irs ids (Suc i) n (if enable s = 1 then Some c else acc) }"

definition close_sibling :: "arg_node \<Rightarrow> bool \<Rightarrow> string \<Rightarrow> string option" where
  "close_sibling a last_sibling branch =
     (if last_sibling then Some branch
      else c_strcat MAX_BRANCH_LEN branch (if operator_sibling a \<noteq> ''NULL'' then operator_sibling a else '' ''))"

definition branch_value :: "arg_node \<Rightarrow> ir \<Rightarrow> string \<Rightarrow> string option" where
  "branch_value a s branch =
     do { b1 \<leftarrow> (if operator_value a \<noteq> ''NULL'' then c_strcat MAX_BRANCH_LEN branch (operator_value a) else Some branch);
          if value_type a = 1 \<or> value_type a = 2 then c_strcat MAX_BRANCH_LEN b1 (print_ulong (ir_value_int s))
          else if value_type a = 3 \<or> value_type a = 4 then c_strcat MAX_BRANCH_LEN b1 (ir_value_char s)
          else Some b1 }"

text \<open>The recursion over the children. A node is printed when it is switched on, and is switched to 2 first, so the depth is at most the
  number of nodes that are on; \<open>fuel\<close> counts the depth. When no child is on, \<^verbatim>\<open>last_enabled_child_id\<close> is not
  initialised, and every child returns without looking at \<^verbatim>\<open>last_sibling\<close>; the model compares with no child then.\<close>

fun branch_generate :: "nat \<Rightarrow> arg_node list \<Rightarrow> ir list \<Rightarrow> string \<Rightarrow> int \<Rightarrow> bool \<Rightarrow> (int \<times> ir list \<times> string) option"
and branch_children :: "nat \<Rightarrow> arg_node list \<Rightarrow> ir list \<Rightarrow> string \<Rightarrow> int list \<Rightarrow> nat \<Rightarrow> nat \<Rightarrow> int option \<Rightarrow> (ir list \<times> string) option"
where
  "branch_generate fuel arg_array irs branch nid last_sibling =
     (case fuel of
        0 \<Rightarrow> None
      | Suc fuel' \<Rightarrow>
         do { s \<leftarrow> rdi irs nid;
              if enable s = 1 then
                do { a \<leftarrow> rdi arg_array nid;
                     irs1 \<leftarrow> updi irs nid (set_enable 2);
                     name \<leftarrow> a_arg a;
                     b1 \<leftarrow> (if dependency_id_len a = 0 then c_strcpy MAX_BRANCH_LEN name
                            else c_strcat MAX_BRANCH_LEN branch name);
                     if child_id_len a \<noteq> 0 then
                       do { b2 \<leftarrow> (if operator_child a \<noteq> ''NULL'' then c_strcat MAX_BRANCH_LEN b1 (operator_child a)
                                   else Some b1);
                            lst \<leftarrow> last_enabled irs1 (child_id a) 0 (nat (child_id_len a)) None;
                            (irs2, b3) \<leftarrow> branch_children fuel' arg_array irs1 b2 (child_id a) 0 (nat (child_id_len a)) lst;
                            b4 \<leftarrow> close_sibling a last_sibling b3;
                            Some (0, irs2, b4) }
                     else
                       do { b2 \<leftarrow> branch_value a s b1;
                            b3 \<leftarrow> close_sibling a last_sibling b2;
                            Some (0, irs1, b3) } }
              else Some (1, irs, branch) })"
| "branch_children fuel arg_array irs branch ids i 0 lst = Some (irs, branch)"
| "branch_children fuel arg_array irs branch ids i (Suc n) lst =
     do { c \<leftarrow> rd ids i;
          (_, irs', branch') \<leftarrow> branch_generate fuel arg_array irs branch c (lst = Some c);
          branch_children fuel arg_array irs' branch' ids (Suc i) n lst }"

section \<open>One fuzzing round\<close>

definition int_of_ulong :: "u64 \<Rightarrow> int" where
  "int_of_ulong n = (let m = int (n mod W32) in if m < int W32 div 2 then m else m - int W32)"

text \<open>\<^verbatim>\<open>pow\<close> of integers as a correctly rounded \<^verbatim>\<open>double\<close>; a negative exponent is outside the model.\<close>

definition c_pow :: "nat \<Rightarrow> int \<Rightarrow> nat option" where
  "c_pow b e = (if e < 0 then None else Some (to_double (to_double b ^ nat e)))"

definition fuzz_value :: "arg_node \<Rightarrow> rng \<Rightarrow> ir \<Rightarrow> (ir \<times> rng) option" where
  "fuzz_value a r s =
     (if value_type a = 1 then
        do { v0 \<leftarrow> rd (value_int a) 0; v1 \<leftarrow> rd (value_int a) 1; v2 \<leftarrow> rd (value_int a) 2;
             if v2 = 0 then None
             else do {
               let tmp = int_of_ulong (sub64 v1 v0 div v2);
               (if tmp = 2 ^ 31 - 1 then None
                else do {
                  (k, r') \<leftarrow> rand_num 0 (to_ulong (tmp + 1)) r;
                  Some (s\<lparr>ir_value_int := add64 v0 (k * v2 mod W64)\<rparr>, r') }) } }
      else if value_type a = 2 then
        do { v0 \<leftarrow> rd (value_int a) 0; v1 \<leftarrow> rd (value_int a) 1; v2 \<leftarrow> rd (value_int a) 2; v3 \<leftarrow> rd (value_int a) 3;
             (k, r') \<leftarrow> rand_num v1 (add64 v2 1) r;
             p \<leftarrow> c_pow v0 (int_of_ulong k);
             let d = to_double (p * to_double v3);
             if d < W64 then Some (s\<lparr>ir_value_int := d\<rparr>, r') else None }
      else if value_type a = 3 then Some (s\<lparr>ir_value_char := value_char a\<rparr>, r)
      else if value_type a = 4 then
        do { (k, r') \<leftarrow> rand_num 0 (to_ulong (char_array_len a)) r;
             v \<leftarrow> rd (value_char_array a) k;
             Some (s\<lparr>ir_value_char := v\<rparr>, r') }
      else Some (s, r))"

fun fuzz_nodes :: "arg_node list \<Rightarrow> nat list \<Rightarrow> nat \<Rightarrow> nat \<Rightarrow> rng \<Rightarrow> ir list \<Rightarrow> (ir list \<times> rng) option" where
  "fuzz_nodes arg_array bm i 0 r irs = Some (irs, r)"
| "fuzz_nodes arg_array bm i (Suc n) r irs =
     do { b \<leftarrow> rd bm i; a \<leftarrow> rd arg_array i; s \<leftarrow> rd irs i;
          (s', r') \<leftarrow> fuzz_value a r (if b mod 2 = 0 then set_enable 1 s else s);
          irs' \<leftarrow> wr irs i s';
          fuzz_nodes arg_array bm (Suc i) n r' irs' }"

text \<open>Mutual exclusion. The scratch array has room for the node and the rivals that are on; its cells are not initialised.\<close>

fun count_rivals :: "ir list \<Rightarrow> int list \<Rightarrow> nat \<Rightarrow> nat \<Rightarrow> nat \<Rightarrow> nat option" where
  "count_rivals irs ids j 0 tmp = Some tmp"
| "count_rivals irs ids j (Suc n) tmp =
     do { c \<leftarrow> rd ids j; s \<leftarrow> rdi irs c; count_rivals irs ids (Suc j) n (if enable s = 1 then tmp + 1 else tmp) }"

fun collect_rivals :: "ir list \<Rightarrow> int list \<Rightarrow> nat \<Rightarrow> nat \<Rightarrow> int option list \<Rightarrow> int option list option" where
  "collect_rivals irs ids j 0 arr = Some arr"
| "collect_rivals irs ids j (Suc n) arr =
     do { c \<leftarrow> rd ids j; s \<leftarrow> rdi irs c;
          arr' \<leftarrow> (if enable s = 1 then wr arr (j + 1) (Some c) else Some arr);
          collect_rivals irs ids (Suc j) n arr' }"

fun keep_one :: "int option list \<Rightarrow> nat \<Rightarrow> nat \<Rightarrow> int \<Rightarrow> ir list \<Rightarrow> ir list option" where
  "keep_one arr j 0 k irs = Some irs"
| "keep_one arr j (Suc n) k irs =
     do { cell \<leftarrow> rd arr j; c \<leftarrow> cell;
          irs' \<leftarrow> updi irs c (set_enable (if int j = k then 1 else 2));
          keep_one arr (Suc j) n k irs' }"

definition prune_mutex :: "arg_node \<Rightarrow> int list \<Rightarrow> nat \<Rightarrow> rng \<Rightarrow> ir list \<Rightarrow> (ir list \<times> rng) option" where
  "prune_mutex a ms i r irs =
     do { tmp \<leftarrow> count_rivals irs ms 0 (nat (mutex_len a)) 1;
          arr \<leftarrow> collect_rivals irs ms 0 (nat (mutex_len a)) ((replicate tmp None)[0 := Some (int i)]);
          (k, r') \<leftarrow> rand_num 0 tmp r;
          irs' \<leftarrow> keep_one arr 0 tmp (int_of_ulong k) irs;
          Some (irs', r') }"

definition mutex_step :: "arg_node list \<Rightarrow> nat \<Rightarrow> rng \<Rightarrow> ir list \<Rightarrow> (ir list \<times> rng) option" where
  "mutex_step arg_array i r irs =
     do { s \<leftarrow> rd irs i; a \<leftarrow> rd arg_array i;
          if enable s = 0 then
            (if must_have a then do { irs' \<leftarrow> wr irs i (set_enable 1 s); Some (irs', r) } else Some (irs, r))
          else if enable s = 1 then (case mutex a of None \<Rightarrow> Some (irs, r) | Some ms \<Rightarrow> prune_mutex a ms i r irs)
          else Some (irs, r) }"

fun mutex_pass :: "arg_node list \<Rightarrow> nat \<Rightarrow> nat \<Rightarrow> rng \<Rightarrow> ir list \<Rightarrow> (ir list \<times> rng) option" where
  "mutex_pass arg_array i 0 r irs = Some (irs, r)"
| "mutex_pass arg_array i (Suc n) r irs =
     do { (irs', r') \<leftarrow> mutex_step arg_array i r irs; mutex_pass arg_array (Suc i) n r' irs' }"

fun depend_pass :: "arg_node list \<Rightarrow> nat \<Rightarrow> nat \<Rightarrow> rng \<Rightarrow> ir list \<Rightarrow> (ir list \<times> rng) option" where
  "depend_pass arg_array i 0 r irs = Some (irs, r)"
| "depend_pass arg_array i (Suc n) r irs =
     do { irs1 \<leftarrow> enable_dependency arg_array irs (int i);
          (irs2, r') \<leftarrow> enable_dependant arg_array irs1 r (int i);
          depend_pass arg_array (Suc i) n r' irs2 }"

fun print_pass :: "arg_node list \<Rightarrow> nat \<Rightarrow> nat \<Rightarrow> ir list \<Rightarrow> string \<Rightarrow> string \<Rightarrow> (ir list \<times> string) option" where
  "print_pass arg_array i 0 irs branch cmd = Some (irs, cmd)"
| "print_pass arg_array i (Suc n) irs branch cmd =
     do { (ret, irs', branch') \<leftarrow> branch_generate (length irs + 1) arg_array irs branch (int i) False;
          if ret = 0
          then do { cmd' \<leftarrow> c_strcat MAX_CMD_LEN cmd branch'; print_pass arg_array (Suc i) n irs' [] cmd' }
          else print_pass arg_array (Suc i) n irs' branch' cmd }"

fun reset_enable :: "nat \<Rightarrow> nat \<Rightarrow> ir list \<Rightarrow> ir list option" where
  "reset_enable i 0 irs = Some irs"
| "reset_enable i (Suc n) irs = do { irs' \<leftarrow> updi irs (int i) (set_enable 0); reset_enable (Suc i) n irs' }"

text \<open>\<open>junk\<close> is what the uninitialised local buffer \<^verbatim>\<open>branch\<close> holds.\<close>

definition arg_fuzz ::
  "arg_node list \<Rightarrow> nat \<Rightarrow> nat list \<Rightarrow> int \<Rightarrow> rng \<Rightarrow> string \<Rightarrow> ir list \<Rightarrow> (ir list \<times> string) option" where
  "arg_fuzz arg_array arg_count arg_bitmap fuzz_level r junk irs =
     do { (bm, r1) \<leftarrow> bitmap_fuzz arg_bitmap arg_count r;
          (irs1, r2) \<leftarrow> fuzz_nodes arg_array bm 0 arg_count r1 irs;
          irs2 \<leftarrow> (if fuzz_level = 0 then
                    do { (irs', r3) \<leftarrow> mutex_pass arg_array 0 arg_count r2 irs1;
                         (irs'', _) \<leftarrow> depend_pass arg_array 0 arg_count r3 irs';
                         Some irs'' }
                  else Some irs1);
          (irs3, cmd) \<leftarrow> print_pass arg_array 0 arg_count irs2 junk '' '';
          irs4 \<leftarrow> reset_enable 0 arg_count irs3;
          Some (irs4, cmd) }"

text \<open>\<^verbatim>\<open>main\<close> after the file is read and parsed: the number of nodes is the number of JSON objects less the root;
  \<open>junk_arr\<close>, \<open>junk_ir\<close>, \<open>junk_bm\<close> and \<open>junk\<close> are the contents of the fresh memory.\<close>

definition confuzz_main :: "'j json_api \<Rightarrow> 'j \<Rightarrow> (nat \<Rightarrow> arg_node) \<Rightarrow> (nat \<Rightarrow> ir) \<Rightarrow> (nat \<Rightarrow> nat) \<Rightarrow> string \<Rightarrow> rng \<Rightarrow> string option" where
  "confuzz_main api tree junk_arr junk_ir junk_bm junk r =
     (let node_count = fold (jso_count api) (visits api tree) 0 - 1 in
      do { arg_array \<leftarrow> json_tree_parse api tree (map junk_arr [0..<node_count]);
           bmap_len \<leftarrow> bitmap_len arg_array node_count;
           (_, cmd) \<leftarrow> arg_fuzz arg_array node_count (map junk_bm [0..<nat bmap_len]) 0 r junk (map junk_ir [0..<node_count]);
           Some cmd })"

end
