(* ===== verification/Arg_Fuzz_Correct.thy ===== *)
theory Arg_Fuzz_Correct
  imports Arg_Fuzz
begin

text \<open>
  What the argument fuzzer guarantees: the range of its random numbers, including the last value the rounding of
  \<^verbatim>\<open>double\<close> adds; the repair of dependencies and of nodes that need a child; mutual exclusion; the printing of branches.
\<close>

section \<open>Rounding to a double\<close>

declare bit_length.simps [simp del]

lemma bit_length_0 [simp]: "bit_length 0 = 0"
  by (simp add: bit_length.simps)

lemma bit_length_bounds: "0 < n \<Longrightarrow> 2 ^ (bit_length n - 1) \<le> n \<and> n < 2 ^ bit_length n"
proof (induction n rule: less_induct)
  case (less n)
  show ?case
  proof (cases "n div 2 = 0")
    case True
    then have "n = 1" using less.prems by linarith
    moreover have "bit_length 1 = 1" by (simp add: bit_length.simps [of "Suc 0"])
    ultimately show ?thesis by simp
  next
    case False
    have l: "bit_length n = Suc (bit_length (n div 2))" using less.prems by (simp add: bit_length.simps [of n])
    have ih: "2 ^ (bit_length (n div 2) - 1) \<le> n div 2 \<and> n div 2 < 2 ^ bit_length (n div 2)"
      using less.IH [of "n div 2"] less.prems False by simp
    have pos: "bit_length (n div 2) = Suc (bit_length (n div 2) - 1)"
      using False by (simp add: bit_length.simps [of "n div 2"])
    have "(2::nat) ^ bit_length (n div 2) = 2 * 2 ^ (bit_length (n div 2) - 1)" by (subst pos) simp
    moreover have "2 * 2 ^ (bit_length (n div 2) - 1) \<le> n" "n < 2 * 2 ^ bit_length (n div 2)" using ih by linarith+
    ultimately show ?thesis unfolding l by simp
  qed
qed

lemma bit_length_le: "n < 2 ^ k \<Longrightarrow> bit_length n \<le> k"
proof (rule ccontr)
  assume "n < 2 ^ k" "\<not> bit_length n \<le> k"
  then have "0 < n" by (cases n) auto
  then have "2 ^ (bit_length n - 1) \<le> n" using bit_length_bounds by blast
  moreover have "(2 :: nat) ^ k \<le> 2 ^ (bit_length n - 1)" using \<open>\<not> bit_length n \<le> k\<close> by (intro power_increasing) auto
  ultimately have "2 ^ k \<le> n" by (rule order_trans [rotated])
  then show False using \<open>n < 2 ^ k\<close> by linarith
qed

lemma bit_length_eqI: "2 ^ k \<le> n \<Longrightarrow> n < 2 ^ Suc k \<Longrightarrow> bit_length n = Suc k"
proof -
  assume a: "2 ^ k \<le> n" "n < 2 ^ Suc k"
  have "0 < (2::nat) ^ k" by simp
  then have "0 < n" using a(1) by linarith
  then have "n < 2 ^ bit_length n" by (simp add: bit_length_bounds)
  then have "(2::nat) ^ k < 2 ^ bit_length n" using a(1) by linarith
  then have "k < bit_length n" by simp
  then show ?thesis using bit_length_le [OF a(2)] by simp
qed

lemma round_at_le: "n \<le> c * 2 ^ e \<Longrightarrow> round_at e n \<le> c * 2 ^ e"
proof -
  assume a: "n \<le> c * 2 ^ e"
  have q: "n div 2 ^ e \<le> c" using a by (metis div_le_mono nonzero_mult_div_cancel_right power_not_zero zero_neq_numeral)
  show ?thesis
  proof (cases "n div 2 ^ e = c")
    case True
    then have "n mod 2 ^ e = 0" using a
      by (metis add.right_neutral add_le_cancel_left div_mult_mod_eq le_zero_eq)
    then show ?thesis by (simp add: round_at_def True)
  next
    case False
    then have "n div 2 ^ e + 1 \<le> c" using q by simp
    then show ?thesis unfolding round_at_def Let_def by (intro mult_right_mono) (auto split: if_splits)
  qed
qed

lemma round_at_exact: "round_at e (c * 2 ^ e) = c * 2 ^ e"
  by (simp add: round_at_def)

lemma round_at_ge: "c * 2 ^ e \<le> n \<Longrightarrow> c * 2 ^ e \<le> round_at e n"
proof -
  assume "c * 2 ^ e \<le> n"
  then have "c \<le> n div 2 ^ e" by (simp add: less_eq_div_iff_mult_less_eq)
  then show ?thesis unfolding round_at_def Let_def by (intro mult_right_mono) (auto split: if_splits)
qed

text \<open>Below the half-way point the rounding goes down.\<close>

lemma round_at_down:
  assumes "n < Suc c * 2 ^ e" "2 ^ e < 2 * (Suc c * 2 ^ e - n)"
  shows "round_at e n \<le> c * 2 ^ e"
proof (cases "n \<le> c * 2 ^ e")
  case True
  then show ?thesis by (rule round_at_le)
next
  case False
  then have "n div 2 ^ e = c"
    using assms(1) by (metis div_less_iff_less_mult less_Suc_eq_le less_eq_div_iff_mult_less_eq linorder_not_le nat_le_linear order_antisym zero_less_numeral zero_less_power)
  then have "n = c * 2 ^ e + n mod 2 ^ e" by (metis div_mult_mod_eq)
  moreover have "Suc c * 2 ^ e = c * 2 ^ e + 2 ^ e" by simp
  ultimately have "2 * (n mod 2 ^ e) < 2 ^ e" using assms(2) by linarith
  then show ?thesis using \<open>n div 2 ^ e = c\<close> by (simp add: round_at_def)
qed

section \<open>Random numbers\<close>

lemma rng_bytes_lt: "rng_bytes n r < 256 ^ n"
proof (induction n r rule: rng_bytes.induct)
  case (2 n r)
  have "r 0 mod 256 < 256" by simp
  then have "r 0 mod 256 + 256 * rng_bytes n (skip_rng 1 r) < 256 * (1 + rng_bytes n (skip_rng 1 r))" by simp
  also have "\<dots> \<le> 256 * 256 ^ n" using 2 by (intro mult_left_mono) simp_all
  finally show ?case by simp
qed simp

text \<open>Eight random bytes as a \<^verbatim>\<open>double\<close>: the largest 1024 values round up to \<open>2 ^ 64\<close>, all others stay
  at least 2048 below.\<close>

lemma to_double_ulong:
  assumes "x < W64"
  shows "if x < W64 - 1024 then to_double x \<le> W64 - 2048 else to_double x = W64"
proof (cases "x < 2 ^ 63")
  case True
  have "to_double x \<le> 2 ^ 63"
  proof (cases "x < 2 ^ 53")
    case True
    have "(2::nat) ^ 53 \<le> 2 ^ 63" by (intro power_increasing) simp_all
    then show ?thesis using True by (simp add: to_double_def)
  next
    case False
    let ?e = "bit_length x - 53"
    have "bit_length x \<le> 63" using True by (rule bit_length_le)
    then have "(2::nat) ^ 63 = 2 ^ (63 - ?e) * 2 ^ ?e" by (simp add: power_add [symmetric])
    then have "round_at ?e x \<le> 2 ^ 63" using True round_at_le [of x "2 ^ (63 - ?e)" ?e] by simp
    then show ?thesis using False by (simp add: to_double_def)
  qed
  then show ?thesis using True by simp
next
  case False
  then have "bit_length x = 64" using assms by (intro bit_length_eqI [of 63, simplified]) simp_all
  then have d: "to_double x = round_at 11 x" using False by (simp add: to_double_def)
  show ?thesis
  proof (cases "x < W64 - 1024")
    case True
    have "round_at 11 x \<le> 9007199254740991 * 2 ^ 11" using True by (intro round_at_down) simp_all
    then show ?thesis using True by (simp add: d)
  next
    case False
    have q: "x div 2048 = 9007199254740991" using False assms by linarith
    have "x mod 2048 = x - 2048 * 9007199254740991" using q by (metis minus_mod_eq_mult_div [symmetric] minus_mult_div_eq_mod)
    then have "2 * (x mod 2048) \<ge> 2048" using False by linarith
    then have "round_at 11 x = W64" using q by (auto simp: round_at_def Let_def)
    then show ?thesis using False by (simp add: d)
  qed
qed

lemma to_double_shift:
  assumes "0 < m" "m \<le> 2 ^ 53"
  shows "to_double (m * W64) = m * W64"
proof (cases "m * W64 < 2 ^ 53")
  case True
  then show ?thesis by (simp add: to_double_def)
next
  case False
  let ?e = "bit_length (m * W64) - 53"
  have "m * W64 < 2 ^ 118" using assms(2) by simp
  then have "?e \<le> 65" using bit_length_le by fastforce
  show ?thesis
  proof (cases "?e \<le> 64")
    case True
    then have "m * W64 = (m * 2 ^ (64 - ?e)) * 2 ^ ?e" by (simp add: power_add [symmetric])
    then have "round_at ?e (m * W64) = m * W64" using round_at_exact [of ?e "m * 2 ^ (64 - ?e)"] by metis
    then show ?thesis using False by (simp add: to_double_def)
  next
    case e: False
    have "m = 2 ^ 53"
    proof (rule ccontr)
      assume "m \<noteq> 2 ^ 53"
      then have "m < 2 ^ 53" using assms(2) by simp
      then have "m * W64 < 2 ^ 117" by simp
      then show False using bit_length_le [of "m * W64" 117] e by simp
    qed
    then have "m * W64 = 2 ^ 52 * 2 ^ 65" by simp
    then have "round_at 65 (m * W64) = m * W64" using round_at_exact [of 65 "2 ^ 52"] by metis
    moreover have "?e = 65" using e \<open>?e \<le> 65\<close> by linarith
    ultimately show ?thesis using False unfolding to_double_def by (simp only: if_False)
  qed
qed

text \<open>A product with a factor below \<open>2 ^ 64\<close> does not round up to the full range.\<close>

lemma to_double_product:
  assumes "0 < m" "m \<le> 2 ^ 53" "x \<le> W64 - 2048"
  shows "to_double (m * x) < m * W64"
proof (cases "m * x < 2 ^ 53")
  case True
  have "m * x \<le> m * (W64 - 2048)" using assms(3) by (rule mult_left_mono) simp
  also have "\<dots> < m * W64" using assms(1) by simp
  finally show ?thesis using True by (simp add: to_double_def)
next
  case False
  define k where "k = bit_length m - 1"
  define e where "e = bit_length (m * x) - 53"
  have k: "2 ^ k \<le> m" "m < 2 ^ Suc k"
  proof -
    have "bit_length m \<noteq> 0" using assms(1) by (simp add: bit_length.simps [of m])
    then show "2 ^ k \<le> m" "m < 2 ^ Suc k" using bit_length_bounds [OF assms(1)] by (simp_all add: k_def)
  qed
  have gap: "m * x + m * 2048 \<le> m * W64"
  proof -
    have "m * (x + 2048) \<le> m * W64" using assms(3) by (intro mult_left_mono) simp_all
    then show ?thesis by (simp add: distrib_left)
  qed
  have "m * x < 2 ^ Suc k * W64"
    using gap assms(1) k(2) by (meson le_add1 less_le_trans mult_le_mono1 order.strict_implies_order order.strict_trans1 mult_less_mono1 zero_less_numeral)
  then have "m * x < 2 ^ (Suc k + 64)" by (simp add: power_add)
  then have "bit_length (m * x) \<le> Suc k + 64" by (rule bit_length_le)
  then have e: "e \<le> k + 12" by (simp add: e_def)
  have kl: "k \<le> 53"
  proof (rule ccontr)
    assume "\<not> k \<le> 53"
    then have "(2::nat) ^ 54 \<le> 2 ^ k" by (intro power_increasing) simp_all
    then show False using k(1) assms(2) by simp
  qed
  have d: "to_double (m * x) = round_at e (m * x)" using False by (simp add: to_double_def e_def)
  show ?thesis
  proof (cases "e \<le> k + 11")
    case True
    have me: "m * W64 = m * 2 ^ (64 - e) * 2 ^ e"
    proof -
      have "(2::nat) ^ (64 - e) * 2 ^ e = W64" using True kl by (simp add: power_add [symmetric])
      then show ?thesis by (simp only: mult.assoc)
    qed
    have "(2::nat) ^ e \<le> 2 ^ (k + 11)" using True by (intro power_increasing) simp_all
    also have "\<dots> \<le> m * 2048" using k(1) by (simp add: power_add)
    finally have "m * x \<le> (m * 2 ^ (64 - e) - 1) * 2 ^ e" using gap unfolding me diff_mult_distrib by linarith
    then have "round_at e (m * x) \<le> (m * 2 ^ (64 - e) - 1) * 2 ^ e" by (rule round_at_le)
    also have "\<dots> < m * W64" unfolding me diff_mult_distrib using assms(1) by simp
    finally show ?thesis by (simp only: d)
  next
    case e2: False
    then have ee: "e = k + 12" using e by simp
    have km: "k \<noteq> 53 \<and> m \<noteq> 2 ^ k"
    proof (rule ccontr)
      assume "\<not> ?thesis"
      then have m: "m = 2 ^ k" using k(1) assms(2) by auto
      have "m * x < 2 ^ (k + 64)" using gap assms(1) unfolding m by (simp add: power_add)
      then have "bit_length (m * x) \<le> k + 64" by (rule bit_length_le)
      then show False using ee by (simp add: e_def)
    qed
    then have k52: "k \<le> 52" using kl by simp
    define c where "c = m * 2 ^ (52 - k) - 1"
    have c: "m * W64 = Suc c * 2 ^ e"
    proof -
      have "(2::nat) ^ (52 - k) * 2 ^ e = W64" using k52 by (simp add: ee power_add [symmetric])
      moreover have "Suc c = m * 2 ^ (52 - k)" using assms(1) by (simp add: c_def)
      ultimately show ?thesis by (simp only: mult.assoc)
    qed
    have "2 ^ k < m" using k(1) km by simp
    then have "2 ^ e < 2 * (m * 2048)" by (simp add: ee power_add)
    also have "\<dots> \<le> 2 * (m * W64 - m * x)" using gap by linarith
    finally have "2 ^ e < 2 * (Suc c * 2 ^ e - m * x)" unfolding c .
    moreover have "m * x < Suc c * 2 ^ e" using gap assms(1) unfolding c [symmetric] by linarith
    ultimately have "round_at e (m * x) \<le> c * 2 ^ e" by (intro round_at_down)
    then show ?thesis unfolding d c by (rule le_less_trans) simp
  qed
qed

lemma scale_num_spec:
  assumes "0 < m" "m \<le> 2 ^ 53" "x < W64"
  shows "if x < W64 - 1024 then scale_num m x < m else scale_num m x = m"
proof -
  have dm: "to_double m = m"
  proof (cases "m = 2 ^ 53")
    case True
    have "bit_length (2 ^ 53) = 54" using bit_length_eqI [of 53 "2 ^ 53"] by simp
    then show ?thesis using round_at_exact [of 1 "2 ^ 52"] by (simp add: True to_double_def)
  qed (use assms(2) in \<open>simp add: to_double_def\<close>)
  show ?thesis
  proof (cases "x < W64 - 1024")
    case True
    then have "to_double x \<le> W64 - 2048" using to_double_ulong [OF assms(3)] by simp
    from to_double_product [OF assms(1,2) this] show ?thesis
      using True by (simp add: scale_num_def dm div_less_iff_less_mult)
  next
    case False
    then have "to_double x = W64" using to_double_ulong [OF assms(3)] by simp
    then show ?thesis using False to_double_shift [OF assms(1,2)] by (simp add: scale_num_def dm)
  qed
qed

lemma rand_num_spec:
  assumes "lo < hi" "hi < W64" "hi - lo \<le> 2 ^ 53"
  shows "\<exists>k. rand_num lo hi r = Some (k, skip_rng 8 r) \<and> lo \<le> k \<and> k \<le> hi \<and> (k < hi \<longleftrightarrow> rng_bytes 8 r < W64 - 1024)"
proof -
  let ?x = "rng_bytes 8 r" and ?t = "scale_num (hi - lo) (rng_bytes 8 r)"
  have x: "?x < W64" using rng_bytes_lt [of 8 r] by simp
  have s: "if ?x < W64 - 1024 then ?t < hi - lo else ?t = hi - lo" using scale_num_spec [OF _ assms(3) x] assms(1) by simp
  then have le: "?t \<le> hi - lo" by (auto split: if_splits)
  have "rand_num lo hi r = Some (lo + ?t, skip_rng 8 r)"
    using assms(1,2) le by (simp add: rand_num_def Let_def u64_simps)
  moreover have "lo + ?t < hi \<longleftrightarrow> ?x < W64 - 1024" using s assms(1) by (auto split: if_splits)
  ultimately show ?thesis using le assms(1) by (intro exI [of _ "lo + ?t"]) simp
qed

section \<open>A well-formed tree\<close>

text \<open>Every list of node numbers has the length the code recorded and points into the array, which is what a description
  with ids \<open>0\<close> to \<open>n - 1\<close> gives.\<close>

definition ids_ok :: "nat \<Rightarrow> int list \<Rightarrow> int \<Rightarrow> bool" where
  "ids_ok n ids len \<longleftrightarrow> int (length ids) = len \<and> (\<forall>c \<in> set ids. 0 \<le> c \<and> c < int n)"

definition tree_ok :: "arg_node list \<Rightarrow> bool" where
  "tree_ok arr \<longleftrightarrow> length arr < 2 ^ 31 \<and> (\<forall>a \<in> set arr. ids_ok (length arr) (dependency_id a) (dependency_id_len a) \<and>
     ids_ok (length arr) (child_id a) (child_id_len a) \<and> length (child_id a) < 2 ^ 31)"

lemma ids_ok_nth: "ids_ok n ids len \<Longrightarrow> i < length ids \<Longrightarrow> 0 \<le> ids ! i \<and> nat (ids ! i) < n"
  unfolding ids_ok_def by (metis nat_less_iff nth_mem)

lemma rdi_ok: "0 \<le> c \<Longrightarrow> nat c < length xs \<Longrightarrow> rdi xs c = Some (xs ! nat c)"
  by (simp add: rdi_def rd_Some)

lemma updi_ok: "0 \<le> c \<Longrightarrow> nat c < length xs \<Longrightarrow> updi xs c f = Some (xs[nat c := f (xs ! nat c)])"
  by (simp add: updi_def rdi_ok wr_Some)

text \<open>The nodes whose state changed were off before and are on now.\<close>

definition switched_on :: "ir list \<Rightarrow> ir list \<Rightarrow> bool" where
  "switched_on irs irs' \<longleftrightarrow> length irs' = length irs \<and>
     (\<forall>i < length irs. irs' ! i = irs ! i \<or> (enable (irs ! i) \<noteq> 1 \<and> irs' ! i = set_enable 1 (irs ! i)))"

lemma switched_on_refl [simp]: "switched_on irs irs"
  by (simp add: switched_on_def)

lemma switched_on_trans: "switched_on a b \<Longrightarrow> switched_on b c \<Longrightarrow> switched_on a c"
  unfolding switched_on_def by (metis (no_types, lifting) ir.select_convs(1) ir.surjective ir.update_convs(1) set_enable_def)

lemma switched_on_update: "enable (irs ! c) \<noteq> 1 \<Longrightarrow> switched_on irs (irs[c := set_enable 1 (irs ! c)])"
  unfolding switched_on_def by (metis length_list_update nth_list_update_eq nth_list_update_neq)

lemma switched_on_stays: "switched_on irs irs' \<Longrightarrow> i < length irs \<Longrightarrow> enable (irs ! i) = 1 \<Longrightarrow> enable (irs' ! i) = 1"
  by (auto simp: switched_on_def)

section \<open>Dependencies\<close>

lemma first_disabled_total:
  assumes "ids_ok (length irs) ids len" "i + n \<le> length ids"
  shows "\<exists>p. first_disabled irs ids i n = Some p \<and>
    (case p of
       None \<Rightarrow> \<forall>j. i \<le> j \<and> j < i + n \<longrightarrow> enable (irs ! nat (ids ! j)) \<noteq> 0
     | Some c \<Rightarrow> \<exists>j. i \<le> j \<and> j < i + n \<and> c = ids ! j \<and> enable (irs ! nat c) = 0)"
  using assms(2)
proof (induction n arbitrary: i)
  case 0
  then show ?case by simp
next
  case (Suc n)
  have i: "0 \<le> ids ! i" "nat (ids ! i) < length irs" using ids_ok_nth [OF assms(1), of i] Suc.prems by auto
  show ?case
  proof (cases "enable (irs ! nat (ids ! i)) = 0")
    case True
    then show ?thesis using i Suc.prems by (auto simp: rd_Some rdi_ok intro!: exI [of _ i])
  next
    case False
    have eq: "first_disabled irs ids i (Suc n) = first_disabled irs ids (Suc i) n"
      using False i Suc.prems by (simp add: rd_Some rdi_ok)
    obtain p where p: "first_disabled irs ids (Suc i) n = Some p"
      "case p of None \<Rightarrow> \<forall>j. Suc i \<le> j \<and> j < Suc i + n \<longrightarrow> enable (irs ! nat (ids ! j)) \<noteq> 0
       | Some c \<Rightarrow> \<exists>j. Suc i \<le> j \<and> j < Suc i + n \<and> c = ids ! j \<and> enable (irs ! nat c) = 0"
      using Suc.IH [of "Suc i"] Suc.prems by auto
    have "j = i \<or> Suc i \<le> j" if "i \<le> j" for j using that by linarith
    then show ?thesis unfolding eq using p False
      by (intro exI [of _ p] conjI) (auto split: option.splits, metis Suc_leD add_Suc_right add_Suc)
  qed
qed

text \<open>A node that is on and whose dependency is off.\<close>

definition unmet :: "arg_node list \<Rightarrow> ir list \<Rightarrow> nat set" where
  "unmet arr irs = {i. i < length arr \<and> enable (irs ! i) = 1 \<and>
     (\<exists>p \<in> set (dependency_id (arr ! i)). enable (irs ! nat p) = 0)}"

declare enable_dependency.simps [simp del]

lemma enable_dependency_spec:
  assumes "tree_ok arr" "length irs = length arr" "0 \<le> nid" "nat nid < length arr"
    and single: "\<forall>a \<in> set arr. length (dependency_id a) \<le> 1"
  shows "\<exists>irs'. enable_dependency arr irs nid = Some irs' \<and> switched_on irs irs' \<and> unmet arr irs' \<subseteq> unmet arr irs - {nat nid}"
  using assms(2-4)
proof (induction "count_ir (\<lambda>e. e = 0) irs" arbitrary: irs nid rule: less_induct)
  case less
  let ?a = "arr ! nat nid" and ?s = "irs ! nat nid"
  note eq = enable_dependency.simps [of arr irs nid]
  have ok: "ids_ok (length irs) (dependency_id ?a) (dependency_id_len ?a)"
    using assms(1) less.prems by (simp add: tree_ok_def)
  then have len: "dependency_id_len ?a = int (length (dependency_id ?a))" by (simp add: ids_ok_def)
  have rds: "rdi arr nid = Some ?a" "rdi irs nid = Some ?s" using less.prems by (simp_all add: rdi_ok)
  show ?case
  proof (cases "enable ?s = 1 \<and> dependency_id_len ?a \<noteq> 0")
    case False
    then have "nat nid \<notin> unmet arr irs" using len by (auto simp: unmet_def)
    moreover have "enable_dependency arr irs nid = Some irs" unfolding eq using False rds by simp
    ultimately show ?thesis by auto
  next
    case True
    obtain p where p: "first_disabled irs (dependency_id ?a) 0 (length (dependency_id ?a)) = Some p"
      "case p of None \<Rightarrow> \<forall>j. 0 \<le> j \<and> j < 0 + length (dependency_id ?a) \<longrightarrow> enable (irs ! nat (dependency_id ?a ! j)) \<noteq> 0
       | Some c \<Rightarrow> \<exists>j. 0 \<le> j \<and> j < 0 + length (dependency_id ?a) \<and> c = dependency_id ?a ! j \<and> enable (irs ! nat c) = 0"
      using first_disabled_total [OF ok, of 0 "length (dependency_id ?a)"] by auto
    show ?thesis
    proof (cases p)
      case None
      then have "nat nid \<notin> unmet arr irs" using p(2) by (auto simp: unmet_def in_set_conv_nth)
      moreover have "enable_dependency arr irs nid = Some irs" unfolding eq using True rds p(1) None len by simp
      ultimately show ?thesis by auto
    next
      case (Some c)
      then obtain j where j: "j < length (dependency_id ?a)" "c = dependency_id ?a ! j" "enable (irs ! nat c) = 0"
        using p(2) by auto
      have "length (dependency_id ?a) \<le> 1" using single less.prems by simp
      then have deps: "dependency_id ?a = [c]" using j(1,2) by (cases "dependency_id ?a") auto
      have c: "0 \<le> c" "nat c < length irs" using ids_ok_nth [OF ok j(1)] j(2) by simp_all
      let ?irs1 = "irs[nat c := set_enable 1 (irs ! nat c)]"
      have dec: "count_ir (\<lambda>e. e = 0) ?irs1 < count_ir (\<lambda>e. e = 0) irs" using c(2) j(3) by (intro count_ir_update) simp_all
      have "length ?irs1 = length arr" "nat c < length arr" using less.prems c by simp_all
      from less.hyps [OF dec this(1) c(1) this(2)] obtain irs' where
        r: "enable_dependency arr ?irs1 c = Some irs'" "switched_on ?irs1 irs'" "unmet arr irs' \<subseteq> unmet arr ?irs1 - {nat c}" by blast
      have "enable_dependency arr irs nid = Some irs'" unfolding eq using True rds p(1) Some len r(1) by simp
      moreover have "switched_on irs irs'" using switched_on_trans [OF switched_on_update r(2)] j(3) by simp
      moreover have "unmet arr ?irs1 - {nat c} \<subseteq> unmet arr irs - {nat nid}"
      proof
        fix i assume i: "i \<in> unmet arr ?irs1 - {nat c}"
        then obtain q where q: "i < length arr" "enable (irs ! i) = 1" "q \<in> set (dependency_id (arr ! i))" "enable (?irs1 ! nat q) = 0"
          by (auto simp: unmet_def)
        have "nat q \<noteq> nat c" using q(4) c(2) by (auto simp: set_enable_def)
        then have "enable (irs ! nat q) = 0" using q(4) by simp
        moreover have "i \<noteq> nat nid" using q(3) deps \<open>nat q \<noteq> nat c\<close> by auto
        ultimately show "i \<in> unmet arr irs - {nat nid}" using q by (auto simp: unmet_def)
      qed
      ultimately show ?thesis using r(3) by blast
    qed
  qed
qed

section \<open>Children\<close>

lemma has_enabled_total:
  assumes "ids_ok (length irs) ids len" "i + n \<le> length ids"
  shows "has_enabled irs ids i n = Some (\<exists>c \<in> set (take n (drop i ids)). enable (irs ! nat c) = 1)"
  using assms(2)
proof (induction n arbitrary: i)
  case 0
  then show ?case by simp
next
  case (Suc n)
  have i: "0 \<le> ids ! i" "nat (ids ! i) < length irs" using ids_ok_nth [OF assms(1), of i] Suc.prems by auto
  have "drop i ids = ids ! i # drop (Suc i) ids" using Suc.prems by (simp add: Cons_nth_drop_Suc)
  then show ?case using i Suc.prems Suc.IH [of "Suc i"] by (simp add: rd_Some rdi_ok)
qed

text \<open>A node that is on, needs a child and has none.\<close>

definition childless :: "arg_node list \<Rightarrow> ir list \<Rightarrow> nat set" where
  "childless arr irs = {i. i < length arr \<and> enable (irs ! i) = 1 \<and> must_child (arr ! i) \<and> child_id (arr ! i) \<noteq> [] \<and>
     (\<forall>c \<in> set (child_id (arr ! i)). enable (irs ! nat c) \<noteq> 1)}"

text \<open>A random number that rounds up: the eight bytes are among the 1024 largest values. The streams after each draw.\<close>

definition rounds_up :: "rng \<Rightarrow> bool" where
  "rounds_up r \<longleftrightarrow> W64 - 1024 \<le> rng_bytes 8 r"

definition after_draws :: "nat \<Rightarrow> rng \<Rightarrow> rng" where
  "after_draws m r = skip_rng (8 * m) r"

lemma skip_rng_skip: "skip_rng j (skip_rng k r) = skip_rng (k + j) r"
  by (simp add: skip_rng_def fun_eq_iff add.assoc)

lemma skip_rng_0: "skip_rng 0 r = r"
  by (simp add: skip_rng_def)

lemma after_draws_simps [simp]: "after_draws 0 r = r" "after_draws (Suc m) r = after_draws m (skip_rng 8 r)"
  by (simp_all add: after_draws_def skip_rng_0 skip_rng_skip)

lemma rand_num_below:
  assumes "0 < n" "n < 2 ^ 31"
  shows "\<exists>k. rand_num 0 n r = Some (k, skip_rng 8 r) \<and> k \<le> n \<and> (k = n \<longleftrightarrow> rounds_up r)"
proof -
  have "n < W64" "n - 0 \<le> 2 ^ 53" using assms(2) by simp_all
  from rand_num_spec [OF assms(1) this, of r] obtain k where
    k: "rand_num 0 n r = Some (k, skip_rng 8 r)" "k \<le> n" "k < n \<longleftrightarrow> rng_bytes 8 r < W64 - 1024" by blast
  have "k = n \<longleftrightarrow> rounds_up r" using k(2,3) unfolding rounds_up_def by linarith
  then show ?thesis using k(1,2) by blast
qed

lemma to_ulong_nat: "n < W64 \<Longrightarrow> to_ulong (int n) = n"
  by (simp add: to_ulong_def)

text \<open>What the choice of a child changes: the chosen one is switched on, so its parent has a child, and only it can lack one now.\<close>

lemma childless_switch:
  assumes "0 \<le> c" "nat c < length irs" "c \<in> set (child_id (arr ! n))"
  shows "childless arr (irs[nat c := set_enable 1 (irs ! nat c)]) - {nat c} \<subseteq> childless arr irs - {n}"
    (is "childless arr ?irs1 - _ \<subseteq> _")
proof
  fix i assume i: "i \<in> childless arr ?irs1 - {nat c}"
  then have q: "i < length arr" "enable (irs ! i) = 1" "must_child (arr ! i)" "child_id (arr ! i) \<noteq> []"
    "\<forall>d \<in> set (child_id (arr ! i)). enable (?irs1 ! nat d) \<noteq> 1" by (auto simp: childless_def)
  have "enable (?irs1 ! nat c) = 1" using assms(2) by (simp add: set_enable_def)
  then have ne: "nat d \<noteq> nat c" if "d \<in> set (child_id (arr ! i))" for d using q(5) that by metis
  then have "\<forall>d \<in> set (child_id (arr ! i)). enable (irs ! nat d) \<noteq> 1" using q(5) by (metis nth_list_update_neq)
  moreover have "i \<noteq> n" using ne assms(3) by auto
  ultimately show "i \<in> childless arr irs - {n}" using q by (auto simp: childless_def)
qed

text \<open>The call returns after \<open>m\<close> draws, or arrives at a node without a child where the draw rounds up.\<close>

definition dependant_done :: "arg_node list \<Rightarrow> ir list \<Rightarrow> rng \<Rightarrow> int \<Rightarrow> nat \<Rightarrow> bool" where
  "dependant_done arr irs r nid m \<longleftrightarrow>
     (\<exists>irs'. enable_dependant arr irs r nid = Some (irs', after_draws m r) \<and> switched_on irs irs' \<and>
        childless arr irs' \<subseteq> childless arr irs - {nat nid})"

definition dependant_overrun :: "arg_node list \<Rightarrow> ir list \<Rightarrow> rng \<Rightarrow> int \<Rightarrow> nat \<Rightarrow> bool" where
  "dependant_overrun arr irs r nid m \<longleftrightarrow> rounds_up (after_draws m r) \<and>
     (\<exists>irs' c. switched_on irs irs' \<and> c \<in> childless arr irs' \<and>
        enable_dependant arr irs r nid = enable_dependant arr irs' (after_draws m r) (int c) \<and>
        rand_num 0 (to_ulong (child_id_len (arr ! c))) (after_draws m r) =
          Some (length (child_id (arr ! c)), after_draws (Suc m) r)) \<and>
     enable_dependant arr irs r nid = None"

lemma dependant_step:
  assumes eq: "enable_dependant arr irs r nid = enable_dependant arr (irs[nat c := set_enable 1 (irs ! nat c)]) (skip_rng 8 r) c"
    and c: "0 \<le> c" "nat c < length irs" "c \<in> set (child_id (arr ! nat nid))" and off: "enable (irs ! nat c) \<noteq> 1"
  shows "dependant_done arr (irs[nat c := set_enable 1 (irs ! nat c)]) (skip_rng 8 r) c m \<Longrightarrow> dependant_done arr irs r nid (Suc m)"
    and "dependant_overrun arr (irs[nat c := set_enable 1 (irs ! nat c)]) (skip_rng 8 r) c m \<Longrightarrow> dependant_overrun arr irs r nid (Suc m)"
proof -
  let ?irs1 = "irs[nat c := set_enable 1 (irs ! nat c)]"
  note on = switched_on_trans [OF switched_on_update [OF off]]
  show "dependant_done arr irs r nid (Suc m)" if "dependant_done arr ?irs1 (skip_rng 8 r) c m"
    using that on childless_switch [OF c] unfolding dependant_done_def eq after_draws_simps by blast
  show "dependant_overrun arr irs r nid (Suc m)" if "dependant_overrun arr ?irs1 (skip_rng 8 r) c m"
    using that on unfolding dependant_overrun_def eq after_draws_simps by blast
qed

lemma enable_dependant_spec:
  assumes "tree_ok arr" "length irs = length arr" "0 \<le> nid" "nat nid < length arr"
  shows "\<exists>m \<le> count_ir (\<lambda>e. e \<noteq> 1) irs. (\<forall>j < m. \<not> rounds_up (after_draws j r)) \<and>
    (dependant_done arr irs r nid m \<or> dependant_overrun arr irs r nid m)"
  using assms(2-4)
proof (induction "count_ir (\<lambda>e. e \<noteq> 1) irs" arbitrary: irs nid r rule: less_induct)
  case less
  let ?a = "arr ! nat nid" and ?s = "irs ! nat nid"
  note eq = enable_dependant.simps [of arr irs r nid]
  have ok: "ids_ok (length irs) (child_id ?a) (child_id_len ?a)" "length (child_id ?a) < 2 ^ 31"
    using assms(1) less.prems by (simp_all add: tree_ok_def)
  then have len: "child_id_len ?a = int (length (child_id ?a))" by (simp add: ids_ok_def)
  have rds: "rdi arr nid = Some ?a" "rdi irs nid = Some ?s" using less.prems by (simp_all add: rdi_ok)
  have he: "has_enabled irs (child_id ?a) 0 (length (child_id ?a)) = Some (\<exists>c \<in> set (child_id ?a). enable (irs ! nat c) = 1)"
    using has_enabled_total [OF ok(1), of 0 "length (child_id ?a)"] by simp
  show ?case
  proof (cases "enable ?s = 1 \<and> child_id_len ?a \<noteq> 0 \<and> must_child ?a \<and> \<not> (\<exists>c \<in> set (child_id ?a). enable (irs ! nat c) = 1)")
    case False
    then have "nat nid \<notin> childless arr irs" using len by (auto simp: childless_def)
    moreover have "enable_dependant arr irs r nid = Some (irs, r)"
      unfolding eq using False rds he len by (auto simp: Option.bind_eq_Some_conv)
    ultimately have "dependant_done arr irs r nid 0" by (auto simp: dependant_done_def)
    then show ?thesis by (intro exI [of _ 0]) simp
  next
    case True
    have "0 < length (child_id ?a)" using True len by simp
    from rand_num_below [OF this ok(2), of r] obtain k where
      k: "rand_num 0 (length (child_id ?a)) r = Some (k, skip_rng 8 r)" "k \<le> length (child_id ?a)"
        "k = length (child_id ?a) \<longleftrightarrow> rounds_up r" by blast
    have ul: "to_ulong (child_id_len ?a) = length (child_id ?a)" unfolding len using ok(2) by (intro to_ulong_nat) simp
    note step = True rds he len k(1) ul
    show ?thesis
    proof (cases "rounds_up r")
      case up: True
      then have "enable_dependant arr irs r nid = None" unfolding eq using step k(3) by (simp add: rd_def)
      moreover have "nat nid \<in> childless arr irs" using True less.prems len by (auto simp: childless_def)
      moreover have "rand_num 0 (to_ulong (child_id_len ?a)) r = Some (length (child_id ?a), after_draws (Suc 0) r)"
        using k(1,3) ul up by simp
      ultimately have "dependant_overrun arr irs r nid 0"
        using up less.prems(2) unfolding dependant_overrun_def after_draws_simps
        by (intro conjI exI [of _ irs] exI [of _ "nat nid"]) simp_all
      then show ?thesis by (intro exI [of _ 0]) simp
    next
      case down: False
      then have kl: "k < length (child_id ?a)" using k(2,3) by linarith
      define c where "c = child_id ?a ! k"
      have c: "0 \<le> c" "nat c < length irs" "c \<in> set (child_id ?a)" using ids_ok_nth [OF ok(1) kl] kl by (simp_all add: c_def)
      have off: "enable (irs ! nat c) \<noteq> 1" using True c(3) by blast
      let ?irs1 = "irs[nat c := set_enable 1 (irs ! nat c)]"
      have dec: "count_ir (\<lambda>e. e \<noteq> 1) ?irs1 < count_ir (\<lambda>e. e \<noteq> 1) irs" using c(2) off by (intro count_ir_update) simp_all
      have "length ?irs1 = length arr" "nat c < length arr" using less.prems c by simp_all
      from less.hyps [OF dec this(1) c(1) this(2), of "skip_rng 8 r"] obtain m where
        m: "m \<le> count_ir (\<lambda>e. e \<noteq> 1) ?irs1" "\<forall>j < m. \<not> rounds_up (after_draws j (skip_rng 8 r))"
          "dependant_done arr ?irs1 (skip_rng 8 r) c m \<or> dependant_overrun arr ?irs1 (skip_rng 8 r) c m" by blast
      have "enable_dependant arr irs r nid = enable_dependant arr ?irs1 (skip_rng 8 r) c"
        unfolding eq using step kl c(1,2) by (simp add: rd_Some updi_ok c_def [symmetric])
      from dependant_step [OF this c off] m(3)
      have "dependant_done arr irs r nid (Suc m) \<or> dependant_overrun arr irs r nid (Suc m)" by blast
      moreover have "\<not> rounds_up (after_draws j r)" if "j < Suc m" for j using that m(2) down by (cases j) simp_all
      moreover have "Suc m \<le> count_ir (\<lambda>e. e \<noteq> 1) irs" using m(1) dec by simp
      ultimately show ?thesis by blast
    qed
  qed
qed

end
