(* ===== verification/Arg_Fuzz_Properties.thy ===== *)
theory Arg_Fuzz_Properties
  imports Arg_Fuzz_Correct
begin

text \<open>
  Printing a branch ends and stays inside its buffer, mutual exclusion keeps one node when all rivals are on, and the
  properties of the argument fuzzer.
\<close>

section \<open>Printing\<close>

declare branch_generate.simps [simp del]

text \<open>Printing only switches nodes from 1 to 2.\<close>

definition printed :: "ir list \<Rightarrow> ir list \<Rightarrow> bool" where
  "printed irs irs' \<longleftrightarrow> list_all2 (\<lambda>s s'. s' = s \<or> (enable s = 1 \<and> s' = set_enable 2 s)) irs irs'"

abbreviation on_count :: "ir list \<Rightarrow> nat" where
  "on_count irs \<equiv> count_ir (\<lambda>e. e = 1) irs"

lemma printed_refl [simp]: "printed irs irs"
  by (simp add: printed_def list_all2_same)

lemma printed_trans:
  assumes "printed a b" "printed b c"
  shows "printed a c"
  using assms unfolding printed_def by (rule list_all2_trans [rotated]) (auto simp: set_enable_def)

lemma printed_update: "i < length irs \<Longrightarrow> enable (irs ! i) = 1 \<Longrightarrow> printed irs (irs[i := set_enable 2 (irs ! i)])"
  by (auto simp: printed_def list_all2_conv_all_nth nth_list_update)

lemma printed_length: "printed irs irs' \<Longrightarrow> length irs' = length irs"
  by (simp add: printed_def list_all2_lengthD)

lemma printed_count: "printed irs irs' \<Longrightarrow> on_count irs' \<le> on_count irs"
  unfolding printed_def by (induction rule: list_all2_induct) (auto simp: count_ir_def set_enable_def)

text \<open>One step of the recursion with the loop over the children as an argument.\<close>

definition branch_step ::
  "(ir list \<Rightarrow> string \<Rightarrow> int list \<Rightarrow> nat \<Rightarrow> nat \<Rightarrow> int option \<Rightarrow> (ir list \<times> string) option) \<Rightarrow>
   arg_node list \<Rightarrow> ir list \<Rightarrow> string \<Rightarrow> int \<Rightarrow> bool \<Rightarrow> (int \<times> ir list \<times> string) option" where
  "branch_step kids arg_array irs branch nid last_sibling =
     do { s \<leftarrow> rdi irs nid;
          if enable s = 1 then
            do { a \<leftarrow> rdi arg_array nid;
                 irs1 \<leftarrow> updi irs nid (set_enable 2);
                 name \<leftarrow> a_arg a;
                 b1 \<leftarrow> (if dependency_id_len a = 0 then c_strcpy MAX_BRANCH_LEN name
                        else c_strcat MAX_BRANCH_LEN branch name);
                 if child_id_len a \<noteq> 0 then
                   do { b2 \<leftarrow> (if operator_child a \<noteq> ''NULL'' then c_strcat MAX_BRANCH_LEN b1 (operator_child a)
                               else Some b1);
                        lst \<leftarrow> last_enabled irs1 (child_id a) 0 (nat (child_id_len a)) None;
                        (irs2, b3) \<leftarrow> kids irs1 b2 (child_id a) 0 (nat (child_id_len a)) lst;
                        b4 \<leftarrow> close_sibling a last_sibling b3;
                        Some (0, irs2, b4) }
                 else
                   do { b2 \<leftarrow> branch_value a s b1;
                        b3 \<leftarrow> close_sibling a last_sibling b2;
                        Some (0, irs1, b3) } }
          else Some (1, irs, branch) }"

lemma branch_generate_Suc: "branch_generate (Suc fuel) arr irs b nid ls = branch_step (branch_children fuel arr) arr irs b nid ls"
  by (simp add: branch_generate.simps branch_step_def)

lemma updi_SomeD: "updi xs c f = Some ys \<Longrightarrow> 0 \<le> c \<and> nat c < length xs \<and> ys = xs[nat c := f (xs ! nat c)]"
  by (auto simp: updi_def rdi_def rd_eq_Some_iff wr_eq_Some_iff Option.bind_eq_Some_conv split: if_splits)

lemma rdi_SomeD: "rdi xs c = Some v \<Longrightarrow> 0 \<le> c \<and> nat c < length xs \<and> v = xs ! nat c"
  by (auto simp: rdi_def rd_eq_Some_iff split: if_splits)

lemma branch_step_printed:
  assumes "branch_step kids arr irs b nid ls = Some (ret, irs', b')"
    and "\<And>irs1 b1 ids n lst irs2 b2. kids irs1 b1 ids 0 n lst = Some (irs2, b2) \<Longrightarrow> printed irs1 irs2"
  shows "printed irs irs'"
proof -
  obtain s where s: "rdi irs nid = Some s" using assms(1) by (auto simp: branch_step_def Option.bind_eq_Some_conv)
  show ?thesis
  proof (cases "enable s = 1")
    case False
    then show ?thesis using assms(1) s by (simp add: branch_step_def)
  next
    case True
    obtain irs1 where u: "updi irs nid (set_enable 2) = Some irs1"
      using assms(1) s True by (auto simp: branch_step_def Option.bind_eq_Some_conv)
    have p1: "printed irs irs1" using updi_SomeD [OF u] rdi_SomeD [OF s] True printed_update by blast
    have "irs' = irs1 \<or> (\<exists>b1 ids n lst b2. kids irs1 b1 ids 0 n lst = Some (irs', b2))"
      using assms(1) s True u by (fastforce simp: branch_step_def Option.bind_eq_Some_conv split: if_splits)
    then show ?thesis using p1 assms(2) printed_trans by blast
  qed
qed

lemma branch_children_printed:
  assumes "\<And>irs b nid ls ret irs' b'. branch_generate fuel arr irs b nid ls = Some (ret, irs', b') \<Longrightarrow> printed irs irs'"
  shows "branch_children fuel arr irs b ids i n lst = Some (irs', b') \<Longrightarrow> printed irs irs'"
proof (induction n arbitrary: irs b i)
  case (Suc n)
  then obtain c r irs1 b1 where "branch_generate fuel arr irs b c (lst = Some c) = Some (r, irs1, b1)"
    "branch_children fuel arr irs1 b1 ids (Suc i) n lst = Some (irs', b')" by (auto simp: Option.bind_eq_Some_conv)
  then show ?case using assms Suc.IH printed_trans by blast
qed simp

lemma branch_printed: "branch_generate fuel arr irs b nid ls = Some (ret, irs', b') \<Longrightarrow> printed irs irs'"
proof (induction fuel arbitrary: irs b nid ls ret irs' b')
  case 0
  then show ?case by (simp add: branch_generate.simps)
next
  case (Suc fuel)
  show ?case
    using Suc.prems unfolding branch_generate_Suc
  proof (rule branch_step_printed)
    fix irs1 b1 ids n lst irs2 b2
    assume "branch_children fuel arr irs1 b1 ids 0 n lst = Some (irs2, b2)"
    with Suc.IH show "printed irs1 irs2" by (rule branch_children_printed)
  qed
qed

text \<open>The depth counter never runs out when it exceeds the number of nodes that are on.\<close>

lemma branch_step_cong:
  assumes "\<And>irs1 b1 ids n lst. on_count irs1 < on_count irs \<Longrightarrow> kids irs1 b1 ids 0 n lst = kids' irs1 b1 ids 0 n lst"
  shows "branch_step kids arr irs b nid ls = branch_step kids' arr irs b nid ls"
proof (cases "rdi irs nid")
  case (Some s)
  show ?thesis
  proof (cases "enable s = 1")
    case True
    have "0 \<le> nid" "nat nid < length irs" "s = irs ! nat nid" using rdi_SomeD [OF Some] by auto
    then have u: "updi irs nid (set_enable 2) = Some (irs[nat nid := set_enable 2 s])"
      "on_count (irs[nat nid := set_enable 2 s]) < on_count irs"
      using True by (simp_all add: updi_ok count_ir_update)
    have "kids (irs[nat nid := set_enable 2 s]) b1 ids 0 n lst = kids' (irs[nat nid := set_enable 2 s]) b1 ids 0 n lst"
      for b1 ids n lst using u(2) by (rule assms)
    then show ?thesis unfolding branch_step_def Some u(1) by (simp only: True bind.bind_lunit simp_thms if_True)
  qed (simp add: branch_step_def Some)
qed (simp add: branch_step_def)

lemma branch_children_fuel:
  assumes "\<And>irs b nid ls. on_count irs < k \<Longrightarrow> branch_generate f arr irs b nid ls = branch_generate g arr irs b nid ls"
    and "on_count irs < k"
  shows "branch_children f arr irs b ids i n lst = branch_children g arr irs b ids i n lst"
  using assms(2)
proof (induction n arbitrary: irs b i)
  case (Suc n)
  show ?case
  proof (cases "rd ids i")
    case (Some c)
    show ?thesis
    proof (cases "branch_generate g arr irs b c (lst = Some c)")
      case None
      then show ?thesis using assms(1) [OF Suc.prems] Some by simp
    next
      case r: (Some res)
      obtain ret irs1 b1 where res: "res = (ret, irs1, b1)" by (cases res)
      have "on_count irs1 \<le> on_count irs" by (rule printed_count [OF branch_printed]) (rule r [unfolded res])
      then have "branch_children f arr irs1 b1 ids (Suc i) n lst = branch_children g arr irs1 b1 ids (Suc i) n lst"
        using Suc.prems by (intro Suc.IH) simp
      then show ?thesis using assms(1) [OF Suc.prems, of b c "lst = Some c"] Some r res by simp
    qed
  qed simp
qed simp

lemma branch_fuel:
  "on_count irs < f \<Longrightarrow> on_count irs < g \<Longrightarrow> branch_generate f arr irs b nid ls = branch_generate g arr irs b nid ls"
proof (induction f arbitrary: g irs b nid ls)
  case (Suc f)
  obtain g' where g: "g = Suc g'" using Suc.prems(2) by (cases g) auto
  have "branch_children f arr irs1 b1 ids 0 n lst = branch_children g' arr irs1 b1 ids 0 n lst"
    if "on_count irs1 < on_count irs" for irs1 b1 ids n lst
  proof (rule branch_children_fuel [where k = "on_count irs"])
    fix irs2 b2 nid2 ls2 assume "on_count irs2 < on_count irs"
    then show "branch_generate f arr irs2 b2 nid2 ls2 = branch_generate g' arr irs2 b2 nid2 ls2"
      using Suc.prems g by (intro Suc.IH) simp_all
  qed (rule that)
  then show ?case unfolding g branch_generate_Suc by (rule branch_step_cong)
qed simp

section \<open>The text fits the buffer\<close>

text \<open>The text a node may add, and the text all nodes that are on may add.\<close>

definition node_size :: "arg_node \<Rightarrow> ir \<Rightarrow> nat" where
  "node_size a s = length (the (a_arg a)) + length (operator_child a) + length (operator_value a) +
     length (print_ulong (ir_value_int s)) + length (ir_value_char s) + length (operator_sibling a) + 1"

definition room :: "arg_node list \<Rightarrow> ir list \<Rightarrow> nat" where
  "room arr irs = (\<Sum>i < length irs. if enable (irs ! i) = 1 then node_size (arr ! i) (irs ! i) else 0)"

lemma room_update:
  assumes "i < length irs" "enable (irs ! i) = 1"
  shows "room arr irs = node_size (arr ! i) (irs ! i) + room arr (irs[i := set_enable 2 (irs ! i)])"
proof -
  let ?irs = "irs[i := set_enable 2 (irs ! i)]"
  let ?f = "\<lambda>irs i. if enable (irs ! i) = 1 then node_size (arr ! i) (irs ! i) else 0"
  have r: "(\<Sum>j < length irs. h j) = h i + (\<Sum>j \<in> {..<length irs} - {i}. h j)" for h :: "nat \<Rightarrow> nat"
    using assms(1) by (intro sum.remove) simp_all
  have "(\<Sum>j \<in> {..<length irs} - {i}. ?f ?irs j) = (\<Sum>j \<in> {..<length irs} - {i}. ?f irs j)" by (rule sum.cong) auto
  moreover have "?f irs i = node_size (arr ! i) (irs ! i)" "?f ?irs i = 0" using assms by (simp_all add: set_enable_def)
  moreover note r [of "?f irs"] r [of "?f ?irs"]
  ultimately show ?thesis unfolding room_def length_list_update by linarith
qed

lemma last_enabled_total:
  assumes "ids_ok (length irs) ids len" "i + n \<le> length ids"
  shows "\<exists>r. last_enabled irs ids i n acc = Some r"
  using assms(2)
proof (induction n arbitrary: i acc)
  case (Suc n)
  have "0 \<le> ids ! i" "nat (ids ! i) < length irs" using ids_ok_nth [OF assms(1), of i] Suc.prems by auto
  then show ?case using Suc.prems Suc.IH [of "Suc i"] by (simp add: rd_Some rdi_ok)
qed simp

lemma close_sibling_fits:
  assumes "length b + length (operator_sibling a) + 1 < MAX_BRANCH_LEN"
  shows "\<exists>b'. close_sibling a ls b = Some b' \<and> length b' \<le> length b + length (operator_sibling a) + 1"
  using assms by (simp add: close_sibling_def c_strcat_def)

lemma branch_value_fits:
  assumes "length b + length (operator_value a) + length (print_ulong (ir_value_int s)) + length (ir_value_char s) < MAX_BRANCH_LEN"
  shows "\<exists>b'. branch_value a s b = Some b' \<and>
    length b' \<le> length b + length (operator_value a) + length (print_ulong (ir_value_int s)) + length (ir_value_char s)"
  using assms by (simp add: branch_value_def c_strcat_def)

lemma branch_start_fits:
  assumes "length b + length name < MAX_BRANCH_LEN"
  shows "\<exists>b'. (if d = (0::int) then c_strcpy MAX_BRANCH_LEN name else c_strcat MAX_BRANCH_LEN b name) = Some b' \<and>
    length b' \<le> length b + length name"
  using assms by (simp add: c_strcpy_def c_strcat_def)

lemma operator_fits:
  assumes "length b + length op < MAX_BRANCH_LEN"
  shows "\<exists>b'. (if op \<noteq> ''NULL'' then c_strcat MAX_BRANCH_LEN b op else Some b) = Some b' \<and> length b' \<le> length b + length op"
  using assms by (simp add: c_strcat_def)

definition named :: "arg_node list \<Rightarrow> bool" where
  "named arr \<longleftrightarrow> (\<forall>a \<in> set arr. a_arg a \<noteq> None)"

lemma branch_step_returns:
  assumes tree: "tree_ok arr" "named arr" and len: "length irs = length arr" and nid: "0 \<le> nid" "nat nid < length arr"
    and fits: "length branch + room arr irs < MAX_BRANCH_LEN"
    and kids: "\<And>irs1 b1 ids lst. \<lbrakk>length irs1 = length arr; on_count irs1 < on_count irs;
      ids_ok (length arr) ids (int (length ids)); length b1 + room arr irs1 < MAX_BRANCH_LEN\<rbrakk> \<Longrightarrow>
      \<exists>irs2 b2. kids irs1 b1 ids 0 (length ids) lst = Some (irs2, b2) \<and> length b2 + room arr irs2 \<le> length b1 + room arr irs1"
  shows "\<exists>ret irs' b'. branch_step kids arr irs branch nid ls = Some (ret, irs', b') \<and>
    length b' + room arr irs' \<le> length branch + room arr irs \<and> (ret = 0 \<longleftrightarrow> enable (irs ! nat nid) = 1)"
proof (cases "enable (irs ! nat nid) = 1")
  case False
  then show ?thesis using len nid by (simp add: branch_step_def rdi_ok)
next
  case on: True
  let ?a = "arr ! nat nid" and ?s = "irs ! nat nid"
  let ?irs1 = "irs[nat nid := set_enable 2 ?s]"
  have u: "rdi irs nid = Some ?s" "rdi arr nid = Some ?a" "updi irs nid (set_enable 2) = Some ?irs1"
    using len nid by (simp_all add: rdi_ok updi_ok)
  have rm: "room arr irs = node_size ?a ?s + room arr ?irs1" using on len nid by (intro room_update) simp_all
  have less: "on_count ?irs1 < on_count irs" using on len nid by (intro count_ir_update) simp_all
  have "?a \<in> set arr" using nid by simp
  then obtain name where nm: "a_arg ?a = Some name" using tree(2) unfolding named_def by blast
  have ok: "ids_ok (length arr) (child_id ?a) (child_id_len ?a)" using tree(1) nid by (simp add: tree_ok_def)
  then have cl: "child_id_len ?a = int (length (child_id ?a))" by (simp add: ids_ok_def)
  note sz = fits [unfolded rm node_size_def nm option.sel]
  obtain b1 where b1: "(if dependency_id_len ?a = 0 then c_strcpy MAX_BRANCH_LEN name else c_strcat MAX_BRANCH_LEN branch name) = Some b1"
    "length b1 \<le> length branch + length name" using branch_start_fits [of branch name "dependency_id_len ?a"] sz by auto
  show ?thesis
  proof (cases "child_id_len ?a = 0")
    case True
    obtain b2 where b2: "branch_value ?a ?s b1 = Some b2"
      "length b2 \<le> length b1 + length (operator_value ?a) + length (print_ulong (ir_value_int ?s)) + length (ir_value_char ?s)"
      using branch_value_fits [of b1 ?a ?s] b1(2) sz by auto
    obtain b3 where b3: "close_sibling ?a ls b2 = Some b3" "length b3 \<le> length b2 + length (operator_sibling ?a) + 1"
      using close_sibling_fits [of b2 ?a ls] b2(2) b1(2) sz by auto
    have "branch_step kids arr irs branch nid ls = Some (0, ?irs1, b3)"
      unfolding branch_step_def u using on True b2(1) b3(1) by (simp add: nm b1(1))
    moreover have "length b3 + room arr ?irs1 \<le> length branch + room arr irs"
      unfolding rm node_size_def nm option.sel using b1(2) b2(2) b3(2) by linarith
    ultimately show ?thesis using on by blast
  next
    case False
    obtain b2 where b2: "(if operator_child ?a \<noteq> ''NULL'' then c_strcat MAX_BRANCH_LEN b1 (operator_child ?a) else Some b1) = Some b2"
      "length b2 \<le> length b1 + length (operator_child ?a)" using operator_fits [of b1 "operator_child ?a"] sz b1(2) by auto
    obtain lst where lst: "last_enabled ?irs1 (child_id ?a) 0 (length (child_id ?a)) None = Some lst"
      using last_enabled_total [of ?irs1 "child_id ?a" "child_id_len ?a" 0] ok len by auto
    obtain irs2 b3 where k: "kids ?irs1 b2 (child_id ?a) 0 (length (child_id ?a)) lst = Some (irs2, b3)"
      "length b3 + room arr irs2 \<le> length b2 + room arr ?irs1"
      using kids [of ?irs1 "child_id ?a" b2 lst] less ok cl len b1(2) b2(2) sz by auto
    obtain b4 where b4: "close_sibling ?a ls b3 = Some b4" "length b4 \<le> length b3 + length (operator_sibling ?a) + 1"
      using close_sibling_fits [of b3 ?a ls] k(2) b2(2) b1(2) sz by auto
    have "branch_step kids arr irs branch nid ls = Some (0, irs2, b4)"
      unfolding branch_step_def u using on False lst k(1) b4(1) cl by (simp add: nm b1(1) b2(1))
    moreover have "length b4 + room arr irs2 \<le> length branch + room arr irs"
      unfolding rm node_size_def nm option.sel using b1(2) b2(2) k(2) b4(2) by linarith
    ultimately show ?thesis using on by blast
  qed
qed

lemma branch_children_returns:
  assumes bg: "\<And>irs b nid ls. \<lbrakk>length irs = length arr; on_count irs < k; 0 \<le> nid; nat nid < length arr;
      length b + room arr irs < MAX_BRANCH_LEN\<rbrakk> \<Longrightarrow>
      \<exists>ret irs' b'. branch_generate fuel arr irs b nid ls = Some (ret, irs', b') \<and>
        length b' + room arr irs' \<le> length b + room arr irs"
    and ids: "ids_ok (length arr) ids len"
  shows "\<lbrakk>length irs = length arr; on_count irs < k; length b + room arr irs < MAX_BRANCH_LEN; i + n \<le> length ids\<rbrakk> \<Longrightarrow>
    \<exists>irs' b'. branch_children fuel arr irs b ids i n lst = Some (irs', b') \<and>
      length b' + room arr irs' \<le> length b + room arr irs"
proof (induction n arbitrary: irs b i)
  case (Suc n)
  have c: "0 \<le> ids ! i" "nat (ids ! i) < length arr" using ids_ok_nth [OF ids, of i] Suc.prems(4) by auto
  from bg [OF Suc.prems(1,2) c Suc.prems(3)] obtain ret irs1 b1 where
    r: "branch_generate fuel arr irs b (ids ! i) (lst = Some (ids ! i)) = Some (ret, irs1, b1)"
      "length b1 + room arr irs1 \<le> length b + room arr irs" by blast
  have "printed irs irs1" using r(1) by (rule branch_printed)
  then have "length irs1 = length arr" "on_count irs1 < k"
    using Suc.prems(1,2) printed_count printed_length by (simp, meson le_less_trans)
  from Suc.IH [OF this, of b1 "Suc i"] r(2) Suc.prems(3,4) obtain irs' b' where
    "branch_children fuel arr irs1 b1 ids (Suc i) n lst = Some (irs', b')"
    "length b' + room arr irs' \<le> length b1 + room arr irs1" by auto
  then show ?case using r Suc.prems(4) by (simp add: rd_Some)
qed simp

lemma branch_returns:
  assumes "tree_ok arr" "named arr"
  shows "\<lbrakk>length irs = length arr; 0 \<le> nid; nat nid < length arr; length b + room arr irs < MAX_BRANCH_LEN; on_count irs < fuel\<rbrakk> \<Longrightarrow>
    \<exists>ret irs' b'. branch_generate fuel arr irs b nid ls = Some (ret, irs', b') \<and>
      length b' + room arr irs' \<le> length b + room arr irs \<and> (ret = 0 \<longleftrightarrow> enable (irs ! nat nid) = 1)"
proof (induction fuel arbitrary: irs b nid ls)
  case (Suc fuel)
  show ?case
    unfolding branch_generate_Suc
  proof (rule branch_step_returns [OF assms Suc.prems(1-4)])
    fix irs1 and b1 :: string and ids lst
    assume a: "length irs1 = length arr" "on_count irs1 < on_count irs" "ids_ok (length arr) ids (int (length ids))"
      "length b1 + room arr irs1 < MAX_BRANCH_LEN"
    show "\<exists>irs2 b2. branch_children fuel arr irs1 b1 ids 0 (length ids) lst = Some (irs2, b2) \<and>
      length b2 + room arr irs2 \<le> length b1 + room arr irs1"
    proof (rule branch_children_returns [OF _ a(3,1,2,4)])
      fix irs2 and b2 :: string and nid2 ls2
      assume h: "length irs2 = length arr" "on_count irs2 < on_count irs" "0 \<le> nid2" "nat nid2 < length arr"
        "length b2 + room arr irs2 < MAX_BRANCH_LEN"
      then have "on_count irs2 < fuel" using Suc.prems(5) by simp
      from Suc.IH [OF h(1,3,4,5) this] show "\<exists>ret irs' b'. branch_generate fuel arr irs2 b2 nid2 ls2 = Some (ret, irs', b') \<and>
        length b' + room arr irs' \<le> length b2 + room arr irs2" by blast
    qed simp
  qed
qed simp

section \<open>Mutual exclusion\<close>

lemma collect_rivals_all:
  assumes "ids_ok (length irs) ids len" "\<forall>c \<in> set ids. enable (irs ! nat c) = 1"
  shows "\<lbrakk>j + n = length ids; length arr = Suc (length ids); take (Suc j) arr = map Some (x # take j ids)\<rbrakk> \<Longrightarrow>
    collect_rivals irs ids j n arr = Some (map Some (x # ids))"
proof (induction n arbitrary: j arr)
  case 0
  then show ?case by (metis add.right_neutral collect_rivals.simps(1) order_refl take_all)
next
  case (Suc n)
  have c: "0 \<le> ids ! j" "nat (ids ! j) < length irs" "ids ! j \<in> set ids" "j < length ids"
    using ids_ok_nth [OF assms(1), of j] Suc.prems(1) by auto
  let ?arr = "arr[Suc j := Some (ids ! j)]"
  have "take (Suc (Suc j)) ?arr = take (Suc j) arr @ [Some (ids ! j)]"
    using Suc.prems(2) c(4) by (simp add: take_Suc_conv_app_nth)
  also have "\<dots> = map Some (x # take (Suc j) ids)" using Suc.prems(3) c(4) by (simp add: take_Suc_conv_app_nth)
  finally have "collect_rivals irs ids (Suc j) n ?arr = Some (map Some (x # ids))" using Suc.IH Suc.prems by simp
  then show ?case using c assms(2) Suc.prems(2) by (simp add: rd_Some rdi_ok wr_Some)
qed

lemma keep_one_spec:
  assumes "\<forall>c \<in> set xs. 0 \<le> c"
  shows "\<lbrakk>j + n = length xs; distinct xs; \<forall>c \<in> set xs. nat c < length irs\<rbrakk> \<Longrightarrow>
    \<exists>irs'. keep_one (map Some xs) j n k irs = Some irs' \<and> length irs' = length irs \<and>
      (\<forall>p. j \<le> p \<and> p < length xs \<longrightarrow> enable (irs' ! nat (xs ! p)) = (if int p = k then 1 else 2)) \<and>
      (\<forall>c < length irs. int c \<notin> set (drop j xs) \<longrightarrow> irs' ! c = irs ! c)"
proof (induction n arbitrary: j irs)
  case 0
  then show ?case by simp
next
  case (Suc n)
  let ?c = "xs ! j"
  have j: "j < length xs" using Suc.prems(1) by simp
  then have c: "0 \<le> ?c" "nat ?c < length irs" using assms Suc.prems(3) by simp_all
  let ?irs = "irs[nat ?c := set_enable (if int j = k then 1 else 2) (irs ! nat ?c)]"
  have "Suc j + n = length xs" "\<forall>c \<in> set xs. nat c < length ?irs" using Suc.prems by simp_all
  from Suc.IH [OF this(1) Suc.prems(2) this(2)] obtain irs' where
    r: "keep_one (map Some xs) (Suc j) n k ?irs = Some irs'" "length irs' = length ?irs"
      "\<And>p. Suc j \<le> p \<Longrightarrow> p < length xs \<Longrightarrow> enable (irs' ! nat (xs ! p)) = (if int p = k then 1 else 2)"
      "\<And>c. c < length ?irs \<Longrightarrow> int c \<notin> set (drop (Suc j) xs) \<Longrightarrow> irs' ! c = ?irs ! c" by blast
  have dj: "drop j xs = ?c # drop (Suc j) xs" using j by (simp add: Cons_nth_drop_Suc)
  have nin: "?c \<notin> set (drop (Suc j) xs)" using distinct_drop [OF Suc.prems(2), of j] unfolding dj by simp
  have here: "enable (irs' ! nat ?c) = (if int j = k then 1 else 2)"
    using r(4) [of "nat ?c"] c nin by (simp add: set_enable_def)
  have "enable (irs' ! nat (xs ! p)) = (if int p = k then 1 else 2)" if "j \<le> p" "p < length xs" for p
    using that here r(3) [of p] by (cases "p = j") auto
  moreover have "irs' ! d = irs ! d" if "d < length irs" "int d \<notin> set (drop j xs)" for d
    using that r(4) [of d] c(1) unfolding dj by (auto simp: nth_list_update)
  moreover have "keep_one (map Some xs) j (Suc n) k irs = Some irs'" using j c r(1) by (simp add: rd_Some updi_ok)
  ultimately show ?case using r(2) by auto
qed

lemma int_of_ulong_small: "n < 2 ^ 31 \<Longrightarrow> int_of_ulong n = int n"
  by (simp add: int_of_ulong_def Let_def)

text \<open>The rivals of a node that are on, all of them.\<close>

definition rivals_on :: "ir list \<Rightarrow> int list \<Rightarrow> nat" where
  "rivals_on irs ids = length (filter (\<lambda>c. enable (irs ! nat c) = 1) ids)"

lemma rivals_on_Cons: "rivals_on irs (c # ids) = (if enable (irs ! nat c) = 1 then Suc (rivals_on irs ids) else rivals_on irs ids)"
  by (simp add: rivals_on_def)

lemma count_rivals_eq:
  assumes "ids_ok (length irs) ids len"
  shows "j + n = length ids \<Longrightarrow> count_rivals irs ids j n t = Some (t + rivals_on irs (drop j ids))"
proof (induction n arbitrary: j t)
  case (Suc n)
  then have j: "j < length ids" by simp
  have c: "0 \<le> ids ! j" "nat (ids ! j) < length irs" using ids_ok_nth [OF assms j] by auto
  have "drop j ids = ids ! j # drop (Suc j) ids" using j by (simp add: Cons_nth_drop_Suc)
  then show ?case using c j Suc.prems Suc.IH [of "Suc j"] by (simp add: rd_Some rdi_ok rivals_on_Cons)
qed (simp add: rivals_on_def)

lemma collect_rivals_outside:
  assumes "ids_ok (length irs) ids len"
  shows "\<lbrakk>j + n = length ids; j \<le> q; q < length ids; enable (irs ! nat (ids ! q)) = 1; length arr \<le> Suc q\<rbrakk> \<Longrightarrow>
    collect_rivals irs ids j n arr = None"
proof (induction n arbitrary: j arr)
  case (Suc n)
  then have j: "j < length ids" by simp
  have c: "rd ids j = Some (ids ! j)" "rdi irs (ids ! j) = Some (irs ! nat (ids ! j))"
    using ids_ok_nth [OF assms j] j by (simp_all add: rd_Some rdi_ok)
  have next_j: "collect_rivals irs ids (Suc j) n arr' = None" if "j \<noteq> q" "length arr' = length arr" for arr'
    using that Suc.prems by (intro Suc.IH) simp_all
  have wr_length: "length arr' = length arr" if "wr arr i v = Some arr'" for i v arr' using that by (auto simp: wr_eq_Some_iff)
  show ?case
  proof (cases "j = q")
    case True
    then show ?thesis using c Suc.prems(4,5) by (simp add: wr_def)
  next
    case False
    then show ?thesis using c next_j wr_length by (cases "wr arr (j + 1) (Some (ids ! j))") auto
  qed
qed simp

text \<open>A rival that is off before one that is on leaves the number of those that are on behind the position of the last.\<close>

lemma rivals_on_gap:
  assumes "p < q" "q < length ids" "enable (irs ! nat (ids ! p)) \<noteq> 1" "enable (irs ! nat (ids ! q)) = 1"
  shows "\<exists>q'. q' < length ids \<and> enable (irs ! nat (ids ! q')) = 1 \<and> rivals_on irs ids \<le> q'"
proof -
  let ?on = "{i. i < length ids \<and> enable (irs ! nat (ids ! i)) = 1}"
  have fin: "finite ?on" and q: "q \<in> ?on" using assms by auto
  have mx: "Max ?on \<in> ?on" using Max_in [OF fin] q by blast
  have le: "i \<le> Max ?on" if "i \<in> ?on" for i using Max_ge [OF fin that] .
  have "p \<noteq> i" "i \<in> {..Max ?on}" if "i \<in> ?on" for i using that assms(3) le by auto
  then have "?on \<subseteq> {..Max ?on} - {p}" by blast
  then have "card ?on \<le> card ({..Max ?on} - {p})" by (intro card_mono) simp_all
  moreover have "p \<in> {..Max ?on}" using le [OF q] assms(1) by simp
  then have "card ({..Max ?on} - {p}) = Max ?on" by simp
  moreover have "rivals_on irs ids = card ?on" by (simp add: rivals_on_def length_filter_conv_card)
  ultimately show ?thesis using mx by (intro exI [of _ "Max ?on"]) simp
qed

lemma distinct_ids_length:
  assumes "ids_ok n ids len" "distinct ids"
  shows "length ids \<le> n"
proof -
  have pos: "\<forall>c \<in> set ids. 0 \<le> c \<and> c < int n" using assms(1) by (simp add: ids_ok_def)
  then have "card (set ids) \<le> card {0..<int n}" by (intro card_mono) auto
  then show ?thesis using assms(2) by (simp add: distinct_card)
qed

lemma prune_mutex_spec:
  assumes "ids_ok (length irs) ms (mutex_len a)" "i < length irs" "distinct (int i # ms)"
    "\<forall>c \<in> set (int i # ms). enable (irs ! nat c) = 1" "length irs < 2 ^ 31 - 1"
  shows "\<exists>irs' k. prune_mutex a ms i r irs = Some (irs', skip_rng 8 r) \<and>
    k \<le> Suc (length ms) \<and> (k = Suc (length ms) \<longleftrightarrow> rounds_up r) \<and> length irs' = length irs \<and>
    (\<forall>p < Suc (length ms). enable (irs' ! nat ((int i # ms) ! p)) = (if p = k then 1 else 2)) \<and>
    (\<forall>c < length irs. int c \<notin> set (int i # ms) \<longrightarrow> irs' ! c = irs ! c)"
proof -
  let ?xs = "int i # ms" and ?n = "length ms"
  have len: "nat (mutex_len a) = ?n" using assms(1) unfolding ids_ok_def by (metis nat_int)
  have in_range: "\<forall>c \<in> set ?xs. 0 \<le> c" "\<forall>c \<in> set ?xs. nat c < length irs"
    using assms(1,2) by (auto simp: ids_ok_def)
  have on: "\<forall>c \<in> set ms. enable (irs ! nat c) = 1" using assms(4) by simp
  have small: "Suc ?n < 2 ^ 31" using distinct_ids_length [OF assms(1)] assms(3,5) by simp
  have "rivals_on irs ms = ?n" using on by (simp add: rivals_on_def)
  then have cr: "count_rivals irs ms 0 ?n 1 = Some (Suc ?n)" using count_rivals_eq [OF assms(1), of 0 ?n 1] by simp
  have co: "collect_rivals irs ms 0 ?n ((replicate (Suc ?n) None)[0 := Some (int i)]) = Some (map Some ?xs)"
    by (rule collect_rivals_all [OF assms(1) on]) simp_all
  from rand_num_below [OF zero_less_Suc small, of r] obtain k where
    k: "rand_num 0 (Suc ?n) r = Some (k, skip_rng 8 r)" "k \<le> Suc ?n" "k = Suc ?n \<longleftrightarrow> rounds_up r" by blast
  have "k < 2 ^ 31" using k(2) small by linarith
  then have ki: "int_of_ulong k = int k" by (rule int_of_ulong_small)
  have "0 + Suc ?n = length ?xs" by simp
  from keep_one_spec [OF in_range(1) this assms(3) in_range(2), of "int k"] obtain irs' where
    ko: "keep_one (map Some ?xs) 0 (Suc ?n) (int k) irs = Some irs'" "length irs' = length irs"
      "\<forall>p. 0 \<le> p \<and> p < length ?xs \<longrightarrow> enable (irs' ! nat (?xs ! p)) = (if int p = int k then 1 else 2)"
      "\<forall>c < length irs. int c \<notin> set (drop 0 ?xs) \<longrightarrow> irs' ! c = irs ! c" by blast
  have "prune_mutex a ms i r irs = Some (irs', skip_rng 8 r)"
    unfolding prune_mutex_def len cr bind.bind_lunit co k(1) by (simp only: prod.case bind.bind_lunit ki ko(1))
  then show ?thesis using k(2,3) ko(2-4) by (intro exI [of _ irs'] exI [of _ k]) simp
qed

section \<open>Random values\<close>

lemma progression_in_range: "(v0::nat) \<le> v1 \<Longrightarrow> k \<le> (v1 - v0) div v2 \<Longrightarrow> v0 + k * v2 \<le> v1"
  using div_times_less_eq_dividend [of "v1 - v0" v2] mult_le_mono1 [of k "(v1 - v0) div v2" v2] by linarith

lemma progression_beyond: "0 < v2 \<Longrightarrow> (v0::nat) \<le> v1 \<Longrightarrow> v1 < v0 + Suc ((v1 - v0) div v2) * v2"
  using dividend_less_div_times [of v2 "v1 - v0"] by simp

text \<open>The cell of the value array is looked up; the steps of an arithmetic progression are counted.\<close>

lemma fuzz_value_int:
  assumes "value_type a = 1" "value_int a = v0 # v1 # v2 # vs" "v0 \<le> v1" "v1 < W64" "0 < v2" "(v1 - v0) div v2 < 2 ^ 31 - 1"
  shows "\<exists>k. fuzz_value a r s = Some (s\<lparr>ir_value_int := (v0 + k * v2) mod W64\<rparr>, skip_rng 8 r) \<and>
    k \<le> Suc ((v1 - v0) div v2) \<and> (k = Suc ((v1 - v0) div v2) \<longleftrightarrow> rounds_up r)"
proof -
  let ?t = "(v1 - v0) div v2"
  have d: "sub64 v1 v0 = v1 - v0" using assms(3,4) by (simp add: u64_simps)
  have t: "int_of_ulong ?t = int ?t" using assms(6) by (intro int_of_ulong_small) linarith
  have "Suc ?t < 2 ^ 31" using assms(6) by linarith
  from rand_num_below [OF zero_less_Suc this, of r] obtain k where
    k: "rand_num 0 (Suc ?t) r = Some (k, skip_rng 8 r)" "k \<le> Suc ?t" "k = Suc ?t \<longleftrightarrow> rounds_up r" by blast
  have "to_ulong (int ?t + 1) = Suc ?t" using to_ulong_nat [of "Suc ?t"] assms(6) by (simp add: add.commute)
  moreover have "int ?t < int (2 ^ 31 - 1)" using assms(6) by (simp only: of_nat_less_iff)
  then have "int ?t \<noteq> 2 ^ 31 - 1" by simp
  moreover have "add64 v0 (k * v2 mod W64) = (v0 + k * v2) mod W64" by (simp add: add64_def mod_simps)
  ultimately have "fuzz_value a r s = Some (s\<lparr>ir_value_int := (v0 + k * v2) mod W64\<rparr>, skip_rng 8 r)"
    using assms(1,2,5) k(1) t by (simp add: fuzz_value_def rd_def d)
  then show ?thesis using k(2,3) by blast
qed

section \<open>Properties\<close>

text \<open>A tree of three arguments: the second and third depend on the first, which needs one of them.\<close>

definition demo_node :: "string \<Rightarrow> int list \<Rightarrow> int list \<Rightarrow> arg_node" where
  "demo_node name deps kids = \<lparr>a_arg = Some name, value_type = 0, value_int = [], value_char = [], value_char_array = [],
     char_array_len = 0, operator_value = ''NULL'', operator_sibling = '','', operator_child = '' '', mutex = None, mutex_len = 0,
     must_have = False, weight = 1, must_child = True, child_id = kids, child_id_len = int (length kids),
     dependency_id = deps, dependency_id_len = int (length deps)\<rparr>"

definition demo_tree :: "arg_node list" where
  "demo_tree = [demo_node ''-O'' [] [1, 2], demo_node ''extent'' [0] [], demo_node ''64bit'' [0] []]"

definition demo_ir :: "int \<Rightarrow> ir" where
  "demo_ir e = \<lparr>enable = e, ir_value_int = 7, ir_value_char = ''x''\<rparr>"

lemma demo_tree_ok: "tree_ok demo_tree" "named demo_tree" "\<forall>a \<in> set demo_tree. length (dependency_id a) \<le> 1" "length demo_tree = 3"
  by (simp_all add: demo_tree_def demo_node_def tree_ok_def ids_ok_def named_def)

lemma rounds_up_const: "\<not> rounds_up (\<lambda>_. 0)" "rounds_up (\<lambda>_. 255)"
proof -
  have "rng_bytes n (\<lambda>_. 0) = 0" for n by (induction n) (simp_all add: skip_rng_def)
  then show "\<not> rounds_up (\<lambda>_. 0)" by (simp add: rounds_up_def)
  have "Suc (rng_bytes n (\<lambda>_. 255)) = 256 ^ n" for n by (induction n) (simp_all add: skip_rng_def)
  from this [of 8] show "rounds_up (\<lambda>_. 255)" by (simp add: rounds_up_def)
qed

lemma demo_room: "room demo_tree [demo_ir 1, demo_ir 1, demo_ir 1] = 40"
proof -
  have "length (print_ulong 7) = 1" by (simp add: print_ulong.simps)
  then have "node_size (demo_node n d k) (demo_ir e) = length n + 9" for n d k e
    by (simp add: node_size_def demo_node_def demo_ir_def)
  moreover have "enable (demo_ir 1) = 1" by (simp add: demo_ir_def)
  ultimately show ?thesis by (simp add: room_def demo_tree_def numeral_eq_Suc)
qed



text \<open>C22. \<^verbatim>\<open>enable_dependency\<close> on a tree whose nodes have at most one dependency: the recursion ends, stays inside the
  arrays, only switches nodes from off to on, and afterwards neither the node nor any node switched on for it has a dependency that is off.\<close>

theorem enable_dependency_correct:
  assumes "tree_ok arr" "length irs = length arr" "0 \<le> nid" "nat nid < length arr"
    and "\<forall>a \<in> set arr. length (dependency_id a) \<le> 1"
  shows "\<exists>irs'. enable_dependency arr irs nid = Some irs' \<and> switched_on irs irs' \<and> unmet arr irs' \<subseteq> unmet arr irs - {nat nid}"
  using assms by (rule enable_dependency_spec)

theorem enable_dependency_correct_witness:
  "\<exists>irs'. enable_dependency demo_tree [demo_ir 0, demo_ir 1, demo_ir 0] 1 = Some irs' \<and>
    switched_on [demo_ir 0, demo_ir 1, demo_ir 0] irs' \<and>
    unmet demo_tree irs' \<subseteq> unmet demo_tree [demo_ir 0, demo_ir 1, demo_ir 0] - {nat 1}"
  by (rule enable_dependency_correct) (use demo_tree_ok in simp_all)

text \<open>With two missing dependencies only the first is switched on: after the call the node still depends on a node that is off.\<close>

theorem enable_dependency_first_only:
  "enable_dependency [demo_node ''a'' [1, 2] [], demo_node ''b'' [] [], demo_node ''c'' [] []] [demo_ir 1, demo_ir 0, demo_ir 0] 0 =
     Some [demo_ir 1, demo_ir 1, demo_ir 0] \<and>
   0 \<in> unmet [demo_node ''a'' [1, 2] [], demo_node ''b'' [] [], demo_node ''c'' [] []] [demo_ir 1, demo_ir 1, demo_ir 0]"
  by (simp add: enable_dependency.simps rdi_def rd_def demo_node_def demo_ir_def set_enable_def unmet_def numeral_eq_Suc)

text \<open>C23. \<^verbatim>\<open>enable_dependant\<close> on a well-formed tree, for every stream of random numbers: after at most as many draws as there
  are nodes that are off, none of which rounds up, the recursion has returned, inside the arrays, has only switched nodes on, and neither
  the node nor any node switched on for it lacks a child it must have; or the next draw rounds up, and then the index into the
  children of a node that still lacks a child is their number, outside the array.\<close>

theorem enable_dependant_correct:
  assumes "tree_ok arr" "length irs = length arr" "0 \<le> nid" "nat nid < length arr"
  shows "\<exists>m \<le> count_ir (\<lambda>e. e \<noteq> 1) irs. (\<forall>j < m. \<not> rounds_up (after_draws j r)) \<and>
    ((\<exists>irs'. enable_dependant arr irs r nid = Some (irs', after_draws m r) \<and> switched_on irs irs' \<and>
        childless arr irs' \<subseteq> childless arr irs - {nat nid}) \<or>
     rounds_up (after_draws m r) \<and> enable_dependant arr irs r nid = None \<and>
     (\<exists>irs' c. switched_on irs irs' \<and> c \<in> childless arr irs' \<and>
        enable_dependant arr irs r nid = enable_dependant arr irs' (after_draws m r) (int c) \<and>
        rand_num 0 (to_ulong (child_id_len (arr ! c))) (after_draws m r) =
          Some (length (child_id (arr ! c)), after_draws (Suc m) r)))"
  using enable_dependant_spec [OF assms, of r] unfolding dependant_done_def dependant_overrun_def by blast

text \<open>With zero bytes the first child of the example is switched on.\<close>

theorem enable_dependant_correct_witness:
  "\<exists>irs' m. enable_dependant demo_tree [demo_ir 1, demo_ir 0, demo_ir 2] (\<lambda>_. 0) 0 = Some (irs', after_draws m (\<lambda>_. 0)) \<and>
    m \<le> 2 \<and> switched_on [demo_ir 1, demo_ir 0, demo_ir 2] irs' \<and> 0 \<notin> childless demo_tree irs'"
proof -
  have "count_ir (\<lambda>e. e \<noteq> 1) [demo_ir 1, demo_ir 0, demo_ir 2] = 2" by (simp add: count_ir_def demo_ir_def)
  moreover have "\<not> rounds_up (after_draws m (\<lambda>_. 0))" for m using rounds_up_const(1) by (simp add: after_draws_def skip_rng_def)
  ultimately show ?thesis
    using enable_dependant_correct [OF demo_tree_ok(1), of "[demo_ir 1, demo_ir 0, demo_ir 2]" 0 "\<lambda>_. 0"] demo_tree_ok(4) by auto
qed

text \<open>C25. Mutual exclusion when a node and all its rivals, which are distinct, are on, with fewer than \<open>2 ^ 31 - 1\<close> nodes: exactly one
  of them stays on, the others are switched to 2, and no other node changes. The draw that rounds up is the exception: then all of them
  are switched to 2 and none is kept.\<close>

theorem prune_mutex_keeps_one:
  assumes "ids_ok (length irs) ms (mutex_len a)" "i < length irs" "distinct (int i # ms)"
    "\<forall>c \<in> set (int i # ms). enable (irs ! nat c) = 1" "length irs < 2 ^ 31 - 1"
  shows "\<exists>irs' k. prune_mutex a ms i r irs = Some (irs', skip_rng 8 r) \<and>
    k \<le> Suc (length ms) \<and> (k = Suc (length ms) \<longleftrightarrow> rounds_up r) \<and> length irs' = length irs \<and>
    (\<forall>p < Suc (length ms). enable (irs' ! nat ((int i # ms) ! p)) = (if p = k then 1 else 2)) \<and>
    (\<forall>c < length irs. int c \<notin> set (int i # ms) \<longrightarrow> irs' ! c = irs ! c)"
  using assms by (rule prune_mutex_spec)

text \<open>One stream that keeps a node and one that keeps none.\<close>

theorem prune_mutex_keeps_one_witness:
  "(\<exists>irs' k. prune_mutex ((demo_node ''a'' [] [])\<lparr>mutex_len := 2\<rparr>) [1, 2] 0 (\<lambda>_. 0) [demo_ir 1, demo_ir 1, demo_ir 1] =
      Some (irs', skip_rng 8 (\<lambda>_. 0)) \<and> k < 3 \<and> (\<forall>p < 3. enable (irs' ! nat ((int 0 # [1, 2]) ! p)) = (if p = k then 1 else 2))) \<and>
   (\<exists>irs'. prune_mutex ((demo_node ''a'' [] [])\<lparr>mutex_len := 2\<rparr>) [1, 2] 0 (\<lambda>_. 255) [demo_ir 1, demo_ir 1, demo_ir 1] =
      Some (irs', skip_rng 8 (\<lambda>_. 255)) \<and> (\<forall>p < 3. enable (irs' ! nat ((int 0 # [1, 2]) ! p)) = 2))"
proof -
  let ?irs = "[demo_ir 1, demo_ir 1, demo_ir 1]" and ?a = "(demo_node ''a'' [] [])\<lparr>mutex_len := 2\<rparr>"
  have h: "ids_ok (length ?irs) [1, 2] (mutex_len ?a)" "0 < length ?irs" "distinct (int 0 # [1, 2])"
    "\<forall>c \<in> set (int 0 # [1, 2]). enable (?irs ! nat c) = 1" "length ?irs < 2 ^ 31 - 1"
    by (simp_all add: ids_ok_def demo_ir_def)
  have l: "Suc (length [1, 2 :: int]) = 3" by simp
  note p = prune_mutex_keeps_one [OF h, unfolded l]
  obtain irs1 k where 1: "prune_mutex ?a [1, 2] 0 (\<lambda>_. 0) ?irs = Some (irs1, skip_rng 8 (\<lambda>_. 0))" "k \<le> 3" "k \<noteq> 3"
    "\<forall>p < 3. enable (irs1 ! nat ((int 0 # [1, 2]) ! p)) = (if p = k then 1 else 2)"
    using p [of "\<lambda>_. 0"] rounds_up_const(1) by blast
  obtain irs2 where 2: "prune_mutex ?a [1, 2] 0 (\<lambda>_. 255) ?irs = Some (irs2, skip_rng 8 (\<lambda>_. 255))"
    "\<forall>p < 3. enable (irs2 ! nat ((int 0 # [1, 2]) ! p)) = (if p = 3 then 1 else 2)"
    using p [of "\<lambda>_. 255"] rounds_up_const(2) by blast
  have "k < 3" using 1(2,3) by simp
  then show ?thesis using 1 2 by (intro conjI exI [of _ irs1] exI [of _ k] exI [of _ irs2]) simp_all
qed

text \<open>C26. Mutual exclusion when a rival that is off stands before one that is on in the list, whatever the node, the other rivals and
  the random numbers: the scratch array has one cell for the node and one for each rival that is on, and collecting the rivals writes
  outside of it.\<close>

theorem prune_mutex_overflows:
  assumes "ids_ok (length irs) ms (mutex_len a)" "p < q" "q < length ms"
    "enable (irs ! nat (ms ! p)) \<noteq> 1" "enable (irs ! nat (ms ! q)) = 1"
  shows "count_rivals irs ms 0 (length ms) 1 = Some (1 + rivals_on irs ms) \<and>
    collect_rivals irs ms 0 (length ms) ((replicate (1 + rivals_on irs ms) None)[0 := Some (int i)]) = None \<and>
    prune_mutex a ms i r irs = None"
proof -
  have cr: "count_rivals irs ms 0 (length ms) 1 = Some (1 + rivals_on irs ms)" using count_rivals_eq [OF assms(1), of 0] by simp
  obtain q' where q': "q' < length ms" "enable (irs ! nat (ms ! q')) = 1" "rivals_on irs ms \<le> q'"
    using rivals_on_gap [OF assms(2-5)] by blast
  have co: "collect_rivals irs ms 0 (length ms) ((replicate (1 + rivals_on irs ms) None)[0 := Some (int i)]) = None"
    using q' by (intro collect_rivals_outside [OF assms(1), of _ _ q']) simp_all
  have "nat (mutex_len a) = length ms" using assms(1) unfolding ids_ok_def by (metis nat_int)
  then show ?thesis using cr co by (simp add: prune_mutex_def)
qed

theorem prune_mutex_overflows_witness:
  "prune_mutex ((demo_node ''a'' [] [])\<lparr>mutex_len := 2\<rparr>) [1, 2] 0 (\<lambda>_. 0) [demo_ir 1, demo_ir 0, demo_ir 1] = None"
  using prune_mutex_overflows [of "[demo_ir 1, demo_ir 0, demo_ir 1]" "[1, 2]" "(demo_node ''a'' [] [])\<lparr>mutex_len := 2\<rparr>" 0 1]
  by (simp add: ids_ok_def demo_ir_def)

text \<open>C21. \<^verbatim>\<open>branch_generate\<close> on a tree of named nodes whose text fits the buffer: the recursion ends, whatever cycles the child lists have, the text
  stays inside the buffer, nodes only change from 1 to 2, and the result is 0 exactly when the node was on.\<close>

theorem branch_generate_correct:
  assumes "tree_ok arr" "named arr" "length irs = length arr" "0 \<le> nid" "nat nid < length arr"
    and "length b + room arr irs < MAX_BRANCH_LEN"
  shows "\<exists>ret irs' b'. (\<forall>fuel > on_count irs. branch_generate fuel arr irs b nid ls = Some (ret, irs', b')) \<and>
    length b' < MAX_BRANCH_LEN \<and> printed irs irs' \<and> (ret = 0 \<longleftrightarrow> enable (irs ! nat nid) = 1)"
proof -
  let ?f = "Suc (on_count irs)"
  obtain ret irs' b' where r: "branch_generate ?f arr irs b nid ls = Some (ret, irs', b')"
    "length b' + room arr irs' \<le> length b + room arr irs" "ret = 0 \<longleftrightarrow> enable (irs ! nat nid) = 1"
    using branch_returns [OF assms(1-6), of ?f ls] by auto
  have "branch_generate fuel arr irs b nid ls = Some (ret, irs', b')" if "on_count irs < fuel" for fuel
    using branch_fuel [OF _ that, of ?f arr b nid ls] r(1) by simp
  moreover have "length b' < MAX_BRANCH_LEN" using r(2) assms(6) by linarith
  ultimately show ?thesis using branch_printed [OF r(1)] r(3) by blast
qed

theorem branch_generate_correct_witness:
  "\<exists>ret irs' b'. (\<forall>fuel > on_count [demo_ir 1, demo_ir 1, demo_ir 1].
      branch_generate fuel demo_tree [demo_ir 1, demo_ir 1, demo_ir 1] [] 0 False = Some (ret, irs', b')) \<and>
    length b' < MAX_BRANCH_LEN \<and> printed [demo_ir 1, demo_ir 1, demo_ir 1] irs' \<and>
    (ret = 0 \<longleftrightarrow> enable ([demo_ir 1, demo_ir 1, demo_ir 1] ! nat 0) = 1)"
  by (rule branch_generate_correct [OF demo_tree_ok(1,2)]) (simp_all add: demo_tree_ok(4) demo_room)

text \<open>C27. The random value of an argument with a range \<open>v0\<close> to \<open>v1\<close> and a step \<open>v2\<close>, when the range is in order, the step is not 0 and
  there are fewer than \<open>2 ^ 31 - 1\<close> steps: the value is one of \<open>v0\<close>, \<open>v0 + v2\<close>, ... and does not exceed \<open>v1\<close>, and only the value
  changes. When the draw rounds up it is the first of the progression beyond \<open>v1\<close>, modulo \<open>2 ^ 64\<close>.\<close>

theorem fuzz_value_in_range:
  assumes "value_type a = 1" "value_int a = v0 # v1 # v2 # vs" "v0 \<le> v1" "v1 < W64" "0 < v2" "(v1 - v0) div v2 < 2 ^ 31 - 1"
  shows "\<exists>k v. fuzz_value a r s = Some (s\<lparr>ir_value_int := v mod W64\<rparr>, skip_rng 8 r) \<and> v = v0 + k * v2 \<and>
    (if rounds_up r then v1 < v \<and> v \<le> v1 + v2 else v \<le> v1)"
proof -
  let ?t = "(v1 - v0) div v2"
  obtain k where k: "fuzz_value a r s = Some (s\<lparr>ir_value_int := (v0 + k * v2) mod W64\<rparr>, skip_rng 8 r)"
    "k \<le> Suc ?t" "k = Suc ?t \<longleftrightarrow> rounds_up r" using fuzz_value_int [OF assms] by blast
  have "v0 + Suc ?t * v2 \<le> v1 + v2" using progression_in_range [OF assms(3) order_refl, of v2] by simp
  then have "if rounds_up r then v1 < v0 + k * v2 \<and> v0 + k * v2 \<le> v1 + v2 else v0 + k * v2 \<le> v1"
    using k(2,3) progression_beyond [OF assms(5,3)] progression_in_range [OF assms(3), of k v2] by auto
  then show ?thesis using k(1) by blast
qed

theorem fuzz_value_in_range_witness:
  "\<exists>k v. fuzz_value ((demo_node ''-b'' [] [])\<lparr>value_type := 1, value_int := [1024, 4096, 1024]\<rparr>) (\<lambda>_. 255) (demo_ir 1) =
      Some ((demo_ir 1)\<lparr>ir_value_int := v mod W64\<rparr>, skip_rng 8 (\<lambda>_. 255)) \<and> v = 1024 + k * 1024 \<and> 4096 < v \<and> v \<le> 5120"
  using fuzz_value_in_range [of "(demo_node ''-b'' [] [])\<lparr>value_type := 1, value_int := [1024, 4096, 1024]\<rparr>" 1024 4096 1024 "[]"
      "\<lambda>_. 255" "demo_ir 1"] rounds_up_const(2)
  by simp

end
