(* ===== verification/Region.thy ===== *)
theory Region
  imports Prelude
begin

text \<open>
  The region allocator of the checker, \<^verbatim>\<open>e2fsck/region.c\<close>: intervals of an address range are claimed one
  after the other, and a claim that overlaps an earlier one is refused. The code keeps a linked list of disjoint intervals and a pointer
  to its last element. Here the chain of \<^verbatim>\<open>next\<close> pointers is a list of elements with addresses, and \<^verbatim>\<open>last\<close> is an
  address; a pointer to an element that is not in the list is \<open>None\<close> when it is used.
\<close>

section \<open>Model\<close>

record region_el =
  el_addr :: nat
  el_start :: u64
  el_end :: u64

record region =
  rg_min :: u64
  rg_max :: u64
  rg_allocated :: "region_el list"
  rg_last :: "nat option"
  rg_next_addr :: nat

definition region_create :: "allocator \<Rightarrow> u64 \<Rightarrow> u64 \<Rightarrow> region option" where
  "region_create mem lo hi =
     (if mem 32 then Some \<lparr>rg_min = lo, rg_max = hi, rg_allocated = [], rg_last = None, rg_next_addr = 0\<rparr> else None)"

text \<open>The position of the element a pointer refers to.\<close>

fun el_index :: "nat \<Rightarrow> region_el list \<Rightarrow> nat option" where
  "el_index a [] = None"
| "el_index a (e # es) = (if el_addr e = a then Some 0 else map_option Suc (el_index a es))"

text \<open>The effect of the search: the list is left alone (conflict), has an element changed, has two elements merged
  (with the address of the merged one), or a new element goes to the position.\<close>

datatype search = Conflict | Grown "region_el list" | Merged nat "region_el list" | Place nat

definition region_conflict :: "u64 \<Rightarrow> u64 \<Rightarrow> region_el \<Rightarrow> bool" where
  "region_conflict start end r \<longleftrightarrow>
     (start \<ge> el_start r \<and> start < el_end r) \<or> (end > el_start r \<and> end \<le> el_end r) \<or>
     (start \<le> el_start r \<and> end \<ge> el_end r)"

fun region_search :: "u64 \<Rightarrow> u64 \<Rightarrow> region_el list \<Rightarrow> region_el list \<Rightarrow> search" where
  "region_search start end prev [] = Place (length prev)"
| "region_search start end prev (r # rs) =
     (if region_conflict start end r then Conflict
      else if end = el_start r then Grown (prev @ r\<lparr>el_start := start\<rparr> # rs)
      else if start = el_end r then
        (case rs of
           next # rest \<Rightarrow>
             if end > el_start next then Conflict
             else if end = el_start next then Merged (el_addr r) (prev @ r\<lparr>el_end := el_end next\<rparr> # rest)
             else Grown (prev @ r\<lparr>el_end := end\<rparr> # rs)
         | [] \<Rightarrow> Grown (prev @ r\<lparr>el_end := end\<rparr> # rs))
      else if start < el_start r then Place (length prev)
      else region_search start end (prev @ [r]) rs)"

definition region_append :: "allocator \<Rightarrow> nat \<Rightarrow> u64 \<Rightarrow> u64 \<Rightarrow> region \<Rightarrow> int \<times> region" where
  "region_append mem pos start end rg =
     (if mem 24 then
        let el = \<lparr>el_addr = rg_next_addr rg, el_start = start, el_end = end\<rparr>;
            es = rg_allocated rg
        in (0, rg\<lparr>rg_allocated := take pos es @ el # drop pos es,
                  rg_last := (if pos = length es then Some (el_addr el) else rg_last rg),
                  rg_next_addr := Suc (rg_next_addr rg)\<rparr>)
      else (-1, rg))"

definition region_scan :: "allocator \<Rightarrow> u64 \<Rightarrow> u64 \<Rightarrow> region \<Rightarrow> int \<times> region" where
  "region_scan mem start end rg =
     (case region_search start end [] (rg_allocated rg) of
        Conflict \<Rightarrow> (1, rg)
      | Grown es \<Rightarrow> (0, rg\<lparr>rg_allocated := es\<rparr>)
      | Merged a es \<Rightarrow> (0, rg\<lparr>rg_allocated := es, rg_last := (if el_addr (last es) = a then Some a else rg_last rg)\<rparr>)
      | Place pos \<Rightarrow> region_append mem pos start end rg)"

definition region_allocate :: "allocator \<Rightarrow> region \<Rightarrow> u64 \<Rightarrow> int \<Rightarrow> (int \<times> region) option" where
  "region_allocate mem rg start n =
     (let end = nat ((int start + n) mod int W64) in
      if start < rg_min rg \<or> end > rg_max rg then Some (-1, rg)
      else if n = 0 then Some (1, rg)
      else case rg_last rg of
        None \<Rightarrow> Some (region_scan mem start end rg)
      | Some a \<Rightarrow> do {
          i \<leftarrow> el_index a (rg_allocated rg);
          let l = rg_allocated rg ! i;
          let no_next = (Suc i = length (rg_allocated rg));
          if el_end l = start \<and> no_next
          then Some (0, rg\<lparr>rg_allocated := (rg_allocated rg)[i := l\<lparr>el_end := end\<rparr>]\<rparr>)
          else if start > el_end l \<and> no_next then Some (region_append mem (Suc i) start end rg)
          else Some (region_scan mem start end rg) })"

section \<open>Invariant and abstraction\<close>

definition el_before :: "region_el \<Rightarrow> region_el \<Rightarrow> bool" where
  "el_before a b \<longleftrightarrow> el_end a < el_start b"

definition region_ok :: "region \<Rightarrow> bool" where
  "region_ok rg \<longleftrightarrow>
     sorted_wrt el_before (rg_allocated rg) \<and>
     (\<forall>e \<in> set (rg_allocated rg). rg_min rg \<le> el_start e \<and> el_start e < el_end e \<and> el_end e \<le> rg_max rg \<and>
        el_addr e < rg_next_addr rg) \<and>
     distinct (map el_addr (rg_allocated rg)) \<and>
     rg_last rg = (if rg_allocated rg = [] then None else Some (el_addr (last (rg_allocated rg)))) \<and>
     rg_max rg < W64"

definition claimed :: "region_el list \<Rightarrow> nat set" where
  "claimed es = (\<Union>e \<in> set es. {el_start e..<el_end e})"

lemma claimed_simps [simp]:
  "claimed [] = {}" "claimed (e # es) = {el_start e..<el_end e} \<union> claimed es" "claimed (es @ fs) = claimed es \<union> claimed fs"
  by (auto simp: claimed_def)

text \<open>What a search may answer on a sorted list with gaps; \<open>prev\<close> is the part already passed.\<close>

definition els_ok :: "region_el list \<Rightarrow> bool" where
  "els_ok es \<longleftrightarrow> sorted_wrt el_before es \<and> (\<forall>e \<in> set es. el_start e < el_end e)"

lemma conflict_iff:
  assumes "start < end" "el_start r < el_end r"
  shows "region_conflict start end r \<longleftrightarrow> {el_start r..<el_end r} \<inter> {start..<end} \<noteq> {}"
proof -
  have "region_conflict start end r \<longleftrightarrow> start < el_end r \<and> el_start r < end"
    using assms unfolding region_conflict_def by linarith
  also have "\<dots> \<longleftrightarrow> {el_start r..<el_end r} \<inter> {start..<end} \<noteq> {}"
  proof
    assume a: "start < el_end r \<and> el_start r < end"
    then have "max start (el_start r) \<in> {el_start r..<el_end r} \<inter> {start..<end}" using assms by auto
    then show "{el_start r..<el_end r} \<inter> {start..<end} \<noteq> {}" by blast
  next
    assume "{el_start r..<el_end r} \<inter> {start..<end} \<noteq> {}"
    then obtain x where "x \<in> {el_start r..<el_end r} \<inter> {start..<end}" by blast
    then have "el_start r \<le> x" "x < el_end r" "start \<le> x" "x < end" by simp_all
    then show "start < el_end r \<and> el_start r < end" by linarith
  qed
  finally show ?thesis .
qed

lemma claimed_disjoint:
  assumes "\<forall>e \<in> set es. el_end e \<le> start \<or> end \<le> el_start e"
  shows "claimed es \<inter> {start..<end} = {}"
proof -
  have False if x: "x \<in> claimed es" "start \<le> x" "x < end" for x
  proof -
    obtain e where "e \<in> set es" "el_start e \<le> x" "x < el_end e" using x(1) by (auto simp: claimed_def)
    then show False using assms x(2,3) by fastforce
  qed
  then show ?thesis by auto
qed

lemma els_ok_mid: "els_ok (prev @ r # rs) \<longleftrightarrow> els_ok prev \<and> els_ok rs \<and> el_start r < el_end r \<and>
    (\<forall>p \<in> set prev. el_end p < el_start r) \<and> (\<forall>e \<in> set rs. el_end r < el_start e) \<and>
    (\<forall>p \<in> set prev. \<forall>e \<in> set rs. el_end p < el_start e)"
  by (auto simp: els_ok_def sorted_wrt_append el_before_def)

lemma ivl_join: "(a::nat) \<le> b \<Longrightarrow> b \<le> c \<Longrightarrow> {a..<b} \<union> {b..<c} = {a..<c}"
  by (rule ivl_disj_un)

lemma region_search_spec:
  assumes "els_ok (prev @ rs)" "start < end" "\<forall>e \<in> set prev. el_end e < start"
  shows "case region_search start end prev rs of
      Conflict \<Rightarrow> claimed (prev @ rs) \<inter> {start..<end} \<noteq> {}
    | Grown es \<Rightarrow> claimed (prev @ rs) \<inter> {start..<end} = {} \<and> els_ok es \<and> claimed es = claimed (prev @ rs) \<union> {start..<end} \<and>
        map el_addr es = map el_addr (prev @ rs)
    | Merged a es \<Rightarrow> claimed (prev @ rs) \<inter> {start..<end} = {} \<and> els_ok es \<and> claimed es = claimed (prev @ rs) \<union> {start..<end} \<and>
        (\<exists>ps x qs. map el_addr (prev @ rs) = ps @ [a, x] @ qs \<and> map el_addr es = ps @ [a] @ qs)
    | Place pos \<Rightarrow> claimed (prev @ rs) \<inter> {start..<end} = {} \<and> pos \<le> length (prev @ rs) \<and>
        (\<forall>e \<in> set (take pos (prev @ rs)). el_end e < start) \<and> (\<forall>e \<in> set (drop pos (prev @ rs)). end < el_start e)"
  using assms
proof (induction start "end" prev rs rule: region_search.induct)
  case (1 start "end" prev)
  have "claimed prev \<inter> {start..<end} = {}" using 1(3) by (fastforce simp: claimed_def)
  then show ?case using 1 by simp
next
  case (2 start "end" prev r rs)
  have ok: "els_ok prev" "els_ok rs" "el_start r < el_end r" "\<forall>p \<in> set prev. el_end p < el_start r"
    "\<forall>e \<in> set rs. el_end r < el_start e" "\<forall>p \<in> set prev. \<forall>e \<in> set rs. el_end p < el_start e"
    using 2(2) unfolding els_ok_mid by blast+
  have pr: "claimed prev \<inter> {start..<end} = {}" using 2(4) by (intro claimed_disjoint) (auto intro: less_imp_le)
  show ?case
  proof (cases "region_conflict start end r")
    case True
    then have "{el_start r..<el_end r} \<inter> {start..<end} \<noteq> {}" using conflict_iff [OF 2(3) ok(3)] by simp
    then have "claimed (prev @ r # rs) \<inter> {start..<end} \<noteq> {}" unfolding claimed_simps by blast
    then show ?thesis using True by simp
  next
    case nc: False
    then have rr: "{el_start r..<el_end r} \<inter> {start..<end} = {}" using conflict_iff [OF 2(3) ok(3)] by simp
    have sep: "el_end r \<le> start \<or> end \<le> el_start r" using nc 2(3) ok(3) unfolding region_conflict_def by linarith
    consider (front) "end = el_start r" | (behind) "end \<noteq> el_start r" "start = el_end r"
      | (before) "end \<noteq> el_start r" "start \<noteq> el_end r" "start < el_start r"
      | (after) "end \<noteq> el_start r" "start \<noteq> el_end r" "\<not> start < el_start r" by blast
    then show ?thesis
    proof cases
      case front
      have "claimed rs \<inter> {start..<end} = {}" using ok(3,5) front by (intro claimed_disjoint) fastforce
      then have d: "claimed (prev @ r # rs) \<inter> {start..<end} = {}" using pr rr by auto
      let ?r = "r\<lparr>el_start := start\<rparr>"
      have "els_ok (prev @ ?r # rs)" unfolding els_ok_mid using ok 2(3,4) front by simp
      moreover have "claimed (prev @ ?r # rs) = claimed (prev @ r # rs) \<union> {start..<end}"
        using ivl_join [of start "el_start r" "el_end r"] 2(3) ok(3) front by auto
      ultimately show ?thesis using nc front d by simp
    next
      case behind
      show ?thesis
      proof (cases rs)
        case Nil
        let ?r = "r\<lparr>el_end := end\<rparr>"
        have "els_ok (prev @ ?r # rs)" unfolding els_ok_mid using ok 2(3) behind Nil by simp
        moreover have "claimed (prev @ ?r # rs) = claimed (prev @ r # rs) \<union> {start..<end}"
          using ivl_join [of "el_start r" "el_end r" "end"] 2(3) ok(3) behind Nil by auto
        moreover have "claimed (prev @ r # rs) \<inter> {start..<end} = {}" using pr rr Nil by auto
        ultimately show ?thesis using nc behind Nil by simp
      next
        case (Cons nx rest)
        have nx: "el_end r < el_start nx" "el_start nx < el_end nx" "els_ok rest" "\<forall>e \<in> set rest. el_end nx < el_start e"
          using ok(2,5) els_ok_mid [of "[]" nx rest] unfolding Cons by auto
        show ?thesis
        proof (cases "end > el_start nx")
          case True
          have "el_start nx \<in> {el_start nx..<el_end nx} \<inter> {start..<end}" using True nx behind by simp
          then show ?thesis using nc behind Cons True by auto
        next
          case False
          have "claimed rs \<inter> {start..<end} = {}"
            unfolding Cons using False nx(2,4) by (intro claimed_disjoint) fastforce
          then have d: "claimed (prev @ r # rs) \<inter> {start..<end} = {}" using pr rr by auto
          show ?thesis
          proof (cases "end = el_start nx")
            case True
            let ?r = "r\<lparr>el_end := el_end nx\<rparr>"
            have "els_ok (prev @ ?r # rest)" unfolding els_ok_mid using ok nx Cons by auto
            moreover have "claimed (prev @ ?r # rest) = claimed (prev @ r # rs) \<union> {start..<end}"
              using ivl_join [of "el_start r" "el_end r" "end"] ivl_join [of "el_start r" "end" "el_end nx"] 2(3) ok(3) nx behind True
              unfolding Cons by auto
            ultimately show ?thesis using nc behind d True Cons by (auto intro!: exI [of _ "map el_addr prev"])
          next
            case ne: False
            let ?r = "r\<lparr>el_end := end\<rparr>"
            have lt: "end < el_start nx" using ne False by simp
            have "els_ok (prev @ ?r # rs)" unfolding els_ok_mid using ok 2(3) behind lt nx Cons by fastforce
            moreover have "claimed (prev @ ?r # rs) = claimed (prev @ r # rs) \<union> {start..<end}"
              using ivl_join [of "el_start r" "el_end r" "end"] 2(3) ok(3) behind by auto
            ultimately show ?thesis using nc behind d lt Cons by simp
          qed
        qed
      qed
    next
      case before
      have lt: "end < el_start r" using sep before ok(3) by linarith
      then have "claimed rs \<inter> {start..<end} = {}" using ok(3,5) by (intro claimed_disjoint) fastforce
      then have "claimed (prev @ r # rs) \<inter> {start..<end} = {}" using pr rr by auto
      moreover have "\<forall>e \<in> set (r # rs). end < el_start e" using lt ok(3,5) by fastforce
      ultimately show ?thesis using nc before 2(4) by simp
    next
      case after
      then have "el_end r < start" using sep 2(3) by linarith
      then have "case region_search start end (prev @ [r]) rs of
          Conflict \<Rightarrow> claimed ((prev @ [r]) @ rs) \<inter> {start..<end} \<noteq> {}
        | Grown es \<Rightarrow> claimed ((prev @ [r]) @ rs) \<inter> {start..<end} = {} \<and> els_ok es \<and>
            claimed es = claimed ((prev @ [r]) @ rs) \<union> {start..<end} \<and> map el_addr es = map el_addr ((prev @ [r]) @ rs)
        | Merged a es \<Rightarrow> claimed ((prev @ [r]) @ rs) \<inter> {start..<end} = {} \<and> els_ok es \<and>
            claimed es = claimed ((prev @ [r]) @ rs) \<union> {start..<end} \<and>
            (\<exists>ps x qs. map el_addr ((prev @ [r]) @ rs) = ps @ [a, x] @ qs \<and> map el_addr es = ps @ [a] @ qs)
        | Place pos \<Rightarrow> claimed ((prev @ [r]) @ rs) \<inter> {start..<end} = {} \<and> pos \<le> length ((prev @ [r]) @ rs) \<and>
            (\<forall>e \<in> set (take pos ((prev @ [r]) @ rs)). el_end e < start) \<and>
            (\<forall>e \<in> set (drop pos ((prev @ [r]) @ rs)). end < el_start e)"
        using nc after 2(2-4) by (intro 2(1)) auto
      moreover have "region_search start end prev (r # rs) = region_search start end (prev @ [r]) rs"
        using nc after by simp
      moreover have "(prev @ [r]) @ rs = prev @ r # rs" by simp
      ultimately show ?thesis by (simp only:)
    qed
  qed
qed

section \<open>Correctness\<close>

lemma el_index_last: "distinct (map el_addr es) \<Longrightarrow> es \<noteq> [] \<Longrightarrow> el_index (el_addr (last es)) es = Some (length es - 1)"
proof (induction es)
  case (Cons e es)
  show ?case
  proof (cases es)
    case Nil
    then show ?thesis by simp
  next
    case (Cons f fs)
    then have "el_addr e \<noteq> el_addr (last es)" using Cons.prems by (metis distinct.simps(2) last_in_set list.discI list.set_map list.simps(9) rev_image_eqI)
    then show ?thesis using Cons Cons.IH Cons.prems by auto
  qed
qed simp

text \<open>What every successful claim establishes.\<close>

definition claims :: "region \<Rightarrow> u64 \<Rightarrow> u64 \<Rightarrow> region \<Rightarrow> bool" where
  "claims rg start end rg' \<longleftrightarrow> region_ok rg' \<and> rg_min rg' = rg_min rg \<and> rg_max rg' = rg_max rg \<and>
     claimed (rg_allocated rg') = claimed (rg_allocated rg) \<union> {start..<end} \<and>
     claimed (rg_allocated rg) \<inter> {start..<end} = {}"

lemma region_ok_els: "region_ok rg \<Longrightarrow> els_ok (rg_allocated rg)"
  by (auto simp: region_ok_def els_ok_def)

text \<open>A changed list keeps the bounds when it claims nothing outside them.\<close>

lemma els_in_bounds:
  assumes "els_ok es" "claimed es \<subseteq> {lo..<hi}" "e \<in> set es"
  shows "lo \<le> el_start e \<and> el_start e < el_end e \<and> el_end e \<le> hi"
proof -
  have lt: "el_start e < el_end e" using assms(1,3) by (simp add: els_ok_def)
  have "el_start e \<in> {el_start e..<el_end e}" "el_end e - 1 \<in> {el_start e..<el_end e}" using lt by auto
  then have "el_start e \<in> claimed es" "el_end e - 1 \<in> claimed es" using assms(3) unfolding claimed_def by blast+
  then have "el_start e \<in> {lo..<hi}" "el_end e - 1 \<in> {lo..<hi}" using assms(2) by blast+
  then show ?thesis using lt by auto
qed

lemma claimed_bounds: "region_ok rg \<Longrightarrow> claimed (rg_allocated rg) \<subseteq> {rg_min rg..<rg_max rg}"
  by (fastforce simp: region_ok_def claimed_def)

lemma region_okI:
  assumes "region_ok rg" "els_ok es" "claimed es = claimed (rg_allocated rg) \<union> {start..<end}" "rg_min rg \<le> start" "end \<le> rg_max rg"
    "set (map el_addr es) \<subseteq> {..<k}" "distinct (map el_addr es)" "l = (if es = [] then None else Some (el_addr (last es)))"
  shows "region_ok (rg\<lparr>rg_allocated := es, rg_last := l, rg_next_addr := k\<rparr>)"
proof -
  have "claimed es \<subseteq> {rg_min rg..<rg_max rg}" using claimed_bounds [OF assms(1)] assms(3-5) by auto
  note b = els_in_bounds [OF assms(2) this]
  then have "\<forall>e \<in> set es. rg_min rg \<le> el_start e \<and> el_start e < el_end e \<and> el_end e \<le> rg_max rg \<and> el_addr e < k"
    using assms(6) by auto
  then show ?thesis using assms(1,2,7,8) by (simp add: region_ok_def els_ok_def)
qed

lemma distinct_middle: "distinct (xs @ ys) \<Longrightarrow> a \<notin> set (xs @ ys) \<Longrightarrow> distinct (xs @ a # ys)"
  by auto

lemma region_append_spec:
  assumes "region_ok rg" "start < end" "rg_min rg \<le> start" "end \<le> rg_max rg" "pos \<le> length (rg_allocated rg)"
    "\<forall>e \<in> set (take pos (rg_allocated rg)). el_end e < start" "\<forall>e \<in> set (drop pos (rg_allocated rg)). end < el_start e"
  shows "if mem 24 then \<exists>rg'. region_append mem pos start end rg = (0, rg') \<and> claims rg start end rg'
    else region_append mem pos start end rg = (-1, rg)"
proof (cases "mem 24")
  case True
  let ?es = "rg_allocated rg" and ?el = "\<lparr>el_addr = rg_next_addr rg, el_start = start, el_end = end\<rparr>"
  let ?new = "take pos ?es @ ?el # drop pos ?es"
  have split: "take pos ?es @ drop pos ?es = ?es" by simp
  have ok: "els_ok (take pos ?es @ drop pos ?es)" unfolding split using assms(1) by (rule region_ok_els)
  have "els_ok (take pos ?es)" "els_ok (drop pos ?es)" "\<forall>p \<in> set (take pos ?es). \<forall>e \<in> set (drop pos ?es). el_end p < el_start e"
    using ok unfolding els_ok_def sorted_wrt_append set_append el_before_def by blast+
  then have els: "els_ok ?new" unfolding els_ok_mid using assms(2,6,7) by simp
  have cl: "claimed ?new = claimed ?es \<union> {start..<end}"
    using claimed_simps(3) [of "take pos ?es" "drop pos ?es"] unfolding split by auto
  have dj: "claimed ?es \<inter> {start..<end} = {}"
  proof (rule claimed_disjoint, rule ballI)
    fix e assume "e \<in> set ?es"
    then have "e \<in> set (take pos ?es) \<or> e \<in> set (drop pos ?es)" by (metis Un_iff set_append split)
    then show "el_end e \<le> start \<or> end \<le> el_start e" using assms(6,7) by fastforce
  qed
  have ad: "\<forall>e \<in> set ?es. el_addr e < rg_next_addr rg" "distinct (map el_addr ?es)" using assms(1) by (auto simp: region_ok_def)
  have sub: "set (map el_addr ?new) \<subseteq> {..<Suc (rg_next_addr rg)}"
    using ad(1) by (auto dest!: in_set_takeD in_set_dropD)
  have "distinct (map el_addr (take pos ?es) @ map el_addr (drop pos ?es))" unfolding map_append [symmetric] split by (rule ad(2))
  moreover have "rg_next_addr rg \<notin> set (map el_addr (take pos ?es) @ map el_addr (drop pos ?es))"
    unfolding map_append [symmetric] split using ad(1) by auto
  ultimately have di: "distinct (map el_addr ?new)" using distinct_middle by (simp only: map_append list.map region_el.simps)
  have la: "(if pos = length ?es then Some (el_addr ?el) else rg_last rg) = (if ?new = [] then None else Some (el_addr (last ?new)))"
    using assms(1,5) by (auto simp: region_ok_def last_append split: if_splits)
  have "region_ok (rg\<lparr>rg_allocated := ?new, rg_last := (if pos = length ?es then Some (el_addr ?el) else rg_last rg),
      rg_next_addr := Suc (rg_next_addr rg)\<rparr>)"
    by (rule region_okI [OF assms(1) els cl assms(3,4) sub di la])
  then show ?thesis using True cl dj by (simp add: region_append_def claims_def Let_def)
qed (simp add: region_append_def)

lemma rg_update_id: "rg\<lparr>rg_allocated := es, rg_last := l, rg_next_addr := rg_next_addr rg\<rparr> = rg\<lparr>rg_allocated := es, rg_last := l\<rparr>"
  by simp

lemma region_scan_spec:
  assumes "region_ok rg" "start < end" "rg_min rg \<le> start" "end \<le> rg_max rg"
  shows "\<exists>r rg'. region_scan mem start end rg = (r, rg') \<and>
    (r = 1 \<and> rg' = rg \<and> claimed (rg_allocated rg) \<inter> {start..<end} \<noteq> {} \<or>
     r = 0 \<and> claims rg start end rg' \<or>
     r = -1 \<and> rg' = rg \<and> \<not> mem 24 \<and> claimed (rg_allocated rg) \<inter> {start..<end} = {})"
proof -
  let ?es = "rg_allocated rg"
  have s: "case region_search start end [] ?es of
      Conflict \<Rightarrow> claimed ?es \<inter> {start..<end} \<noteq> {}
    | Grown es \<Rightarrow> claimed ?es \<inter> {start..<end} = {} \<and> els_ok es \<and> claimed es = claimed ?es \<union> {start..<end} \<and>
        map el_addr es = map el_addr ?es
    | Merged a es \<Rightarrow> claimed ?es \<inter> {start..<end} = {} \<and> els_ok es \<and> claimed es = claimed ?es \<union> {start..<end} \<and>
        (\<exists>ps x qs. map el_addr ?es = ps @ [a, x] @ qs \<and> map el_addr es = ps @ [a] @ qs)
    | Place pos \<Rightarrow> claimed ?es \<inter> {start..<end} = {} \<and> pos \<le> length ?es \<and>
        (\<forall>e \<in> set (take pos ?es). el_end e < start) \<and> (\<forall>e \<in> set (drop pos ?es). end < el_start e)"
    using region_search_spec [of "[]" ?es start "end", unfolded append_Nil] region_ok_els [OF assms(1)] assms(2) by simp
  have ad: "set (map el_addr ?es) \<subseteq> {..<rg_next_addr rg}" "distinct (map el_addr ?es)"
    "rg_last rg = (if ?es = [] then None else Some (el_addr (last ?es)))" using assms(1) by (auto simp: region_ok_def)
  show ?thesis
  proof (cases "region_search start end [] ?es")
    case Conflict
    then show ?thesis using s by (simp add: region_scan_def)
  next
    case (Grown es)
    then have g: "claimed ?es \<inter> {start..<end} = {}" "els_ok es" "claimed es = claimed ?es \<union> {start..<end}"
      "map el_addr es = map el_addr ?es" using s by simp_all
    then have ne: "es = [] \<longleftrightarrow> ?es = []" by (metis map_is_Nil_conv)
    have "el_addr (last es) = el_addr (last ?es)" if "es \<noteq> []" using g(4) ne that by (metis last_map)
    then have l: "rg_last rg = (if es = [] then None else Some (el_addr (last es)))" using ad(3) ne by simp
    have "region_ok (rg\<lparr>rg_allocated := es, rg_last := rg_last rg, rg_next_addr := rg_next_addr rg\<rparr>)"
      by (rule region_okI [OF assms(1) g(2,3) assms(3,4)]) (use ad g(4) l in simp_all)
    then show ?thesis using g Grown by (simp add: region_scan_def claims_def)
  next
    case (Merged a es)
    then obtain ps x qs where g: "claimed ?es \<inter> {start..<end} = {}" "els_ok es" "claimed es = claimed ?es \<union> {start..<end}"
      "map el_addr ?es = ps @ [a, x] @ qs" "map el_addr es = ps @ [a] @ qs" using s by auto
    have ne: "es \<noteq> []" "?es \<noteq> []" using g(4,5) by auto
    have las: "el_addr (last es) = last (ps @ [a] @ qs)" "el_addr (last ?es) = last (ps @ [a, x] @ qs)"
      using g(4,5) ne by (metis last_map)+
    have d: "distinct (ps @ [a, x] @ qs)" using ad(2) g(4) by simp
    let ?l = "if el_addr (last es) = a then Some a else rg_last rg"
    have l: "?l = (if es = [] then None else Some (el_addr (last es)))"
      using ad(3) ne las d by (cases "qs = []") auto
    have "region_ok (rg\<lparr>rg_allocated := es, rg_last := ?l, rg_next_addr := rg_next_addr rg\<rparr>)"
      by (rule region_okI [OF assms(1) g(2,3) assms(3,4) _ _ l]) (use ad g(4,5) d in auto)
    then show ?thesis using g(1,3) Merged unfolding rg_update_id by (simp add: region_scan_def claims_def)
  next
    case (Place pos)
    then have p: "claimed ?es \<inter> {start..<end} = {}" "pos \<le> length ?es" "\<forall>e \<in> set (take pos ?es). el_end e < start"
      "\<forall>e \<in> set (drop pos ?es). end < el_start e" using s by simp_all
    have "region_scan mem start end rg = region_append mem pos start end rg" by (simp add: region_scan_def Place)
    then show ?thesis using region_append_spec [OF assms p(2-4), of mem] p(1) by (cases "mem 24") auto
  qed
qed

lemma last_in_list: "es \<noteq> [] \<Longrightarrow> es ! (length es - 1) = last es"
  by (simp add: last_conv_nth)

text \<open>The shortcut through the pointer to the last element.\<close>

lemma region_last_spec:
  assumes "region_ok rg" "start < end" "rg_min rg \<le> start" "end \<le> rg_max rg" "rg_allocated rg \<noteq> []"
    "el_end (last (rg_allocated rg)) = start"
  shows "claims rg start end (rg\<lparr>rg_allocated := butlast (rg_allocated rg) @ [(last (rg_allocated rg))\<lparr>el_end := end\<rparr>]\<rparr>)"
proof -
  let ?es = "rg_allocated rg" and ?l = "last (rg_allocated rg)"
  let ?new = "butlast ?es @ [?l\<lparr>el_end := end\<rparr>]"
  have es: "?es = butlast ?es @ [?l]" using assms(5) by simp
  have ok: "els_ok (butlast ?es @ [?l])" using region_ok_els [OF assms(1)] es by simp
  then have "els_ok ?new" using assms(2,6) unfolding els_ok_mid by auto
  moreover have lt: "el_start ?l < el_end ?l" using ok unfolding els_ok_mid by simp
  then have cl: "claimed ?new = claimed ?es \<union> {start..<end}"
    using ivl_join [of "el_start ?l" "el_end ?l" "end"] assms(2,6) claimed_simps(3) [of "butlast ?es" "[?l]"] unfolding es [symmetric] by auto
  moreover have "claimed ?es \<inter> {start..<end} = {}"
  proof (rule claimed_disjoint, rule ballI)
    fix e assume "e \<in> set ?es"
    then have "e = ?l \<or> e \<in> set (butlast ?es)" using es by (metis UnE empty_iff insert_iff list.set(2) set_append list.set(1))
    then show "el_end e \<le> start \<or> end \<le> el_start e" using ok lt assms(6) unfolding els_ok_mid by fastforce
  qed
  moreover have addr: "map el_addr ?new = map el_addr ?es" by (subst (3) es) simp
  then have ad: "set (map el_addr ?new) \<subseteq> {..<rg_next_addr rg}" "distinct (map el_addr ?new)"
    using assms(1) unfolding addr by (auto simp: region_ok_def)
  have "rg_last rg = (if ?new = [] then None else Some (el_addr (last ?new)))" using assms(1,5) by (simp add: region_ok_def)
  moreover have "rg\<lparr>rg_allocated := ?new, rg_last := rg_last rg, rg_next_addr := rg_next_addr rg\<rparr> = rg\<lparr>rg_allocated := ?new\<rparr>" by simp
  ultimately have "region_ok (rg\<lparr>rg_allocated := ?new\<rparr>)"
    using region_okI [OF assms(1) _ cl assms(3,4) ad, of "rg_last rg"] by (simp only:)
  with \<open>claimed ?es \<inter> {start..<end} = {}\<close> show ?thesis using cl by (simp add: claims_def del: claimed_simps)
qed

lemma region_allocate_spec:
  assumes "region_ok rg" "int start + n < int W64" "0 \<le> n"
  shows "\<exists>r rg'. region_allocate mem rg start n = Some (r, rg') \<and>
    (r = 0 \<and> 0 < n \<and> rg_min rg \<le> start \<and> start + nat n \<le> rg_max rg \<and> claims rg start (start + nat n) rg' \<or>
     r = 1 \<and> rg' = rg \<and> (n = 0 \<or> claimed (rg_allocated rg) \<inter> {start..<start + nat n} \<noteq> {}) \<or>
     r = -1 \<and> rg' = rg \<and> (start < rg_min rg \<or> start + nat n > rg_max rg \<or> \<not> mem 24))"
proof -
  let ?stop = "start + nat n" and ?es = "rg_allocated rg"
  have e: "nat ((int start + n) mod int W64) = ?stop" using assms(2,3) by (simp add: nat_add_distrib)
  note al = region_allocate_def [of mem rg start n, unfolded e Let_def]
  consider (outside) "start < rg_min rg \<or> ?stop > rg_max rg" | (empty) "\<not> (start < rg_min rg \<or> ?stop > rg_max rg)" "n = 0"
    | (inside) "rg_min rg \<le> start" "?stop \<le> rg_max rg" "0 < n" using assms(3) by linarith
  then show ?thesis
  proof cases
    case outside
    then show ?thesis by (auto simp: al)
  next
    case empty
    have "region_allocate mem rg start n = Some (1, rg)" unfolding al using empty by (simp only: if_False if_True simp_thms)
    then show ?thesis using empty(2) by blast
  next
    case inside
    have lt: "start < ?stop" using inside(3) by simp
    obtain r rg' where sc: "region_scan mem start ?stop rg = (r, rg')"
      "r = 1 \<and> rg' = rg \<and> claimed ?es \<inter> {start..<?stop} \<noteq> {} \<or> r = 0 \<and> claims rg start ?stop rg' \<or>
       r = -1 \<and> rg' = rg \<and> \<not> mem 24 \<and> claimed ?es \<inter> {start..<?stop} = {}"
      using region_scan_spec [OF assms(1) lt inside(1,2), of mem] by blast
    have nb: "\<not> (start < rg_min rg \<or> ?stop > rg_max rg)" "n \<noteq> 0" using inside by auto
    show ?thesis
    proof (cases "?es = []")
      case True
      then have "rg_last rg = None" using assms(1) by (simp add: region_ok_def)
      then have "region_allocate mem rg start n = Some (r, rg')"
        using nb sc(1) by (simp add: al)
      then show ?thesis using sc(2) inside by blast
    next
      case ne: False
      have la: "rg_last rg = Some (el_addr (last ?es))" "el_index (el_addr (last ?es)) ?es = Some (length ?es - 1)"
        using assms(1) ne el_index_last by (simp_all add: region_ok_def)
      have lu: "?es[length ?es - 1 := v] = butlast ?es @ [v]" for v using ne by (metis append_butlast_last_id length_butlast list_update_length)
      consider (grow) "el_end (last ?es) = start" | (append) "start > el_end (last ?es)" | (scan) "start < el_end (last ?es)" by linarith
      then show ?thesis
      proof cases
        case grow
        have "region_allocate mem rg start n = Some (0, rg\<lparr>rg_allocated := butlast ?es @ [(last ?es)\<lparr>el_end := ?stop\<rparr>]\<rparr>)"
          using nb la ne grow by (simp add: al last_in_list [OF ne, simplified] lu [simplified])
        then show ?thesis using region_last_spec [OF assms(1) lt inside(1,2) ne grow] inside by blast
      next
        case append
        have "\<forall>e \<in> set (take (length ?es) ?es). el_end e < start"
        proof
          fix e assume "e \<in> set (take (length ?es) ?es)"
          then have "e \<in> set (butlast ?es @ [last ?es])" using ne by simp
          moreover have "els_ok (butlast ?es @ [last ?es])" using region_ok_els [OF assms(1)] ne by simp
          ultimately show "el_end e < start" using append unfolding els_ok_mid by fastforce
        qed
        then have a: "if mem 24 then \<exists>rg'. region_append mem (length ?es) start ?stop rg = (0, rg') \<and> claims rg start ?stop rg'
            else region_append mem (length ?es) start ?stop rg = (-1, rg)"
          by (intro region_append_spec [OF assms(1) lt inside(1,2)]) simp_all
        have "region_allocate mem rg start n = Some (region_append mem (length ?es) start ?stop rg)"
          using nb la ne append by (simp add: al last_in_list [OF ne, simplified])
        then show ?thesis using a inside by (cases "mem 24") auto
      next
        case scan
        have "region_allocate mem rg start n = Some (r, rg')"
          using nb la ne scan sc(1) by (simp add: al last_in_list [OF ne, simplified])
        then show ?thesis using sc(2) inside by blast
      qed
    qed
  qed
qed

section \<open>Properties\<close>

text \<open>C28. \<^verbatim>\<open>region_allocate\<close> on a well-formed region, through the shortcut of the last element or the search of the list: the answer 0
  means the interval lay inside the region, was free, and is now claimed and nothing else changed; 1 means it was empty or overlaps an
  earlier claim; -1 means it leaves the region or memory ran out. The list stays sorted with gaps, so touching intervals are joined, and the
  pointer to the last element stays valid.\<close>

theorem region_allocate_correct:
  assumes "region_ok rg" "int start + n < int W64" "0 \<le> n"
  shows "\<exists>r rg'. region_allocate mem rg start n = Some (r, rg') \<and>
    (r = 0 \<and> 0 < n \<and> rg_min rg \<le> start \<and> start + nat n \<le> rg_max rg \<and> claims rg start (start + nat n) rg' \<or>
     r = 1 \<and> rg' = rg \<and> (n = 0 \<or> claimed (rg_allocated rg) \<inter> {start..<start + nat n} \<noteq> {}) \<or>
     r = -1 \<and> rg' = rg \<and> (start < rg_min rg \<or> start + nat n > rg_max rg \<or> \<not> mem 24))"
  using assms by (rule region_allocate_spec)

definition demo_region :: region where
  "demo_region = \<lparr>rg_min = 1, rg_max = 1001, rg_allocated = [\<lparr>el_addr = 0, el_start = 10, el_end = 20\<rparr>,
     \<lparr>el_addr = 1, el_start = 30, el_end = 40\<rparr>], rg_last = Some 1, rg_next_addr = 2\<rparr>"

theorem region_allocate_correct_witness:
  "\<exists>r rg'. region_allocate (\<lambda>_. True) demo_region 20 10 = Some (r, rg') \<and>
    (r = 0 \<and> 0 < (10::int) \<and> rg_min demo_region \<le> 20 \<and> 20 + nat 10 \<le> rg_max demo_region \<and> claims demo_region 20 (20 + nat 10) rg' \<or>
     r = 1 \<and> rg' = demo_region \<and> ((10::int) = 0 \<or> claimed (rg_allocated demo_region) \<inter> {20..<20 + nat 10} \<noteq> {}) \<or>
     r = -1 \<and> rg' = demo_region \<and> (20 < rg_min demo_region \<or> 20 + nat 10 > rg_max demo_region \<or> \<not> True))"
  by (rule region_allocate_correct) (simp_all add: demo_region_def region_ok_def el_before_def)

end
