(* ===== verification/Refcount.thy ===== *)
theory Refcount
  imports Prelude
begin

text \<open>
  Reference counts of extended-attribute blocks, \<^verbatim>\<open>e2fsck/ea_refcount.c\<close>: a sorted array of keys and counts with a
  cursor for sequential access. An entry whose count drops to zero stays until the array is full; then the array is collapsed before it
  grows. A pointer to an element is its index; \<open>None\<close> for the whole result is an access outside the array. The array pointer of an object
  made by \<^verbatim>\<open>ea_refcount_create\<close> is never NULL. Sizes in bytes wrap at 64 bits, and an array has as many cells as its bytes hold. With
  more than \<open>2\<^sup>3\<^sup>0\<close> entries the sum of two \<^verbatim>\<open>int\<close> indices can overflow, which is \<open>None\<close> too.
\<close>

section \<open>Model\<close>

record ea_refcount_el =
  ea_key :: u64
  ea_value :: u64

record ea_refcount =
  rc_count :: nat
  rc_size :: nat
  rc_cursor :: nat
  rc_list :: "ea_refcount_el list"

definition ea_refcount_create :: "allocator \<Rightarrow> nat \<Rightarrow> errcode + ea_refcount" where
  "ea_refcount_create mem sz =
     (if \<not> mem 32 then Inl EXT2_ET_NO_MEMORY
      else
        let n = (if sz = 0 then 500 else sz) in
        if \<not> mem (n * 16 mod W64) then Inl EXT2_ET_NO_MEMORY
        else Inr \<lparr>rc_count = 0, rc_size = n, rc_cursor = 0, rc_list = replicate (n * 16 mod W64 div 16) \<lparr>ea_key = 0, ea_value = 0\<rparr>\<rparr>)"

text \<open>The loop of \<^verbatim>\<open>refcount_collapse\<close>; \<open>n\<close> rounds are left.\<close>

fun collapse_loop :: "ea_refcount_el list \<Rightarrow> nat \<Rightarrow> nat \<Rightarrow> nat \<Rightarrow> (nat \<times> ea_refcount_el list) option" where
  "collapse_loop l i j 0 = Some (j, l)"
| "collapse_loop l i j (Suc n) =
     do { e \<leftarrow> rd l i;
          if ea_value e \<noteq> 0
          then do { l' \<leftarrow> (if i \<noteq> j then wr l j e else Some l); collapse_loop l' (Suc i) (Suc j) n }
          else collapse_loop l (Suc i) j n }"

definition refcount_collapse :: "ea_refcount \<Rightarrow> ea_refcount option" where
  "refcount_collapse rc =
     do { (j, l) \<leftarrow> collapse_loop (rc_list rc) 0 0 (rc_count rc); Some (rc\<lparr>rc_count := j, rc_list := l\<rparr>) }"

definition memmove_up :: "'a list \<Rightarrow> nat \<Rightarrow> nat \<Rightarrow> 'a list option" where
  "memmove_up l pos num =
     (if pos + num + 1 \<le> length l then Some (take (pos + 1) l @ take num (drop pos l) @ drop (pos + 1 + num) l) else None)"

definition insert_refcount_el ::
  "allocator \<Rightarrow> (nat \<Rightarrow> ea_refcount_el) \<Rightarrow> ea_refcount \<Rightarrow> u64 \<Rightarrow> nat \<Rightarrow> (nat option \<times> ea_refcount) option" where
  "insert_refcount_el mem fresh rc key pos =
     (let new_size = add64 (rc_size rc) 100; bytes = new_size * 16 mod W64 in
      if rc_count rc \<ge> rc_size rc \<and> \<not> mem bytes then Some (None, rc)
      else
        let rc1 = (if rc_count rc \<ge> rc_size rc
                   then rc\<lparr>rc_size := new_size, rc_list := resize_array fresh (bytes div 16) (rc_list rc)\<rparr> else rc)
        in if rc_count rc < pos then Some (None, rc1)
           else do {
             l1 \<leftarrow> (if rc_count rc \<noteq> pos then memmove_up (rc_list rc1) pos (rc_count rc - pos) else Some (rc_list rc1));
             l2 \<leftarrow> wr l1 pos \<lparr>ea_key = key, ea_value = 0\<rparr>;
             Some (Some pos, rc1\<lparr>rc_count := rc_count rc + 1, rc_list := l2\<rparr>) })"

text \<open>The bisection: the index of the key, or the place where it belongs.\<close>

function rc_bisect :: "ea_refcount_el list \<Rightarrow> u64 \<Rightarrow> int \<Rightarrow> int \<Rightarrow> (nat + int) option" where
  "rc_bisect l key low high =
     (if low \<le> high then
        let mid = (low + high) div 2 in
        if mid < 0 then None
        else do { e \<leftarrow> rd l (nat mid);
                  if key = ea_key e then Some (Inl (nat mid))
                  else if key < ea_key e then rc_bisect l key low (mid - 1)
                  else rc_bisect l key (mid + 1) high }
      else Some (Inr low))"
  by pat_completeness auto
termination by (relation "measure (\<lambda>(l, key, low, high). nat (high + 1 - low))") auto

function get_refcount_el ::
  "allocator \<Rightarrow> (nat \<Rightarrow> ea_refcount_el) \<Rightarrow> ea_refcount \<Rightarrow> u64 \<Rightarrow> bool \<Rightarrow> (nat option \<times> ea_refcount) option" where
  "get_refcount_el mem fresh rc key create =
     (if rc_count rc > 2 ^ 30 then None else
     do { append \<leftarrow> (if create
                      then if rc_count rc = 0 then Some True
                           else do { e \<leftarrow> rd (rc_list rc) (rc_count rc - 1); Some (key > ea_key e) }
                      else Some False);
          if append then
            do { rc1 \<leftarrow> (if rc_count rc \<ge> rc_size rc then refcount_collapse rc else Some rc);
                 insert_refcount_el mem fresh rc1 key (rc_count rc1) }
          else if rc_count rc = 0 then Some (None, rc)
          else
            let rc1 = (if rc_cursor rc \<ge> rc_count rc then rc\<lparr>rc_cursor := 0\<rparr> else rc) in
            do { e \<leftarrow> rd (rc_list rc1) (rc_cursor rc1);
                 if key = ea_key e then Some (Some (rc_cursor rc1), rc1\<lparr>rc_cursor := rc_cursor rc1 + 1\<rparr>)
                 else do {
                   s \<leftarrow> rc_bisect (rc_list rc1) key 0 (int (rc_count rc1) - 1);
                   (case s of
                      Inl mid \<Rightarrow> Some (Some mid, rc1\<lparr>rc_cursor := mid + 1\<rparr>)
                    | Inr low \<Rightarrow>
                        if create then
                          (if rc_count rc1 \<ge> rc_size rc1 then
                             (case refcount_collapse rc1 of
                                None \<Rightarrow> None
                              | Some rc2 \<Rightarrow>
                                  if rc_count rc2 < rc_size rc2 then get_refcount_el mem fresh rc2 key create
                                  else insert_refcount_el mem fresh rc2 key (nat low))
                           else insert_refcount_el mem fresh rc1 key (nat low))
                        else Some (None, rc1)) } } })"
  by pat_completeness auto
termination
  by (relation "measure (\<lambda>(mem, fresh, rc, key, create). if rc_count rc \<ge> rc_size rc then 1 else 0)")
    (auto simp: Let_def split: if_splits)

text \<open>The element functions, on an index into the array.\<close>

definition el_value :: "ea_refcount \<Rightarrow> nat \<Rightarrow> u64 option" where
  "el_value rc i = map_option ea_value (rd (rc_list rc) i)"

definition el_set :: "ea_refcount \<Rightarrow> nat \<Rightarrow> u64 \<Rightarrow> ea_refcount option" where
  "el_set rc i v = do { e \<leftarrow> rd (rc_list rc) i; l \<leftarrow> wr (rc_list rc) i (e\<lparr>ea_value := v\<rparr>); Some (rc\<lparr>rc_list := l\<rparr>) }"

definition ea_refcount_fetch ::
  "allocator \<Rightarrow> (nat \<Rightarrow> ea_refcount_el) \<Rightarrow> ea_refcount \<Rightarrow> u64 \<Rightarrow> (errcode \<times> u64 \<times> ea_refcount) option" where
  "ea_refcount_fetch mem fresh rc key =
     do { (el, rc') \<leftarrow> get_refcount_el mem fresh rc key False;
          (case el of None \<Rightarrow> Some (0, 0, rc') | Some i \<Rightarrow> do { v \<leftarrow> el_value rc' i; Some (0, v, rc') }) }"

definition ea_refcount_increment ::
  "allocator \<Rightarrow> (nat \<Rightarrow> ea_refcount_el) \<Rightarrow> ea_refcount \<Rightarrow> u64 \<Rightarrow> (errcode \<times> u64 option \<times> ea_refcount) option" where
  "ea_refcount_increment mem fresh rc key =
     do { (el, rc') \<leftarrow> get_refcount_el mem fresh rc key True;
          (case el of
             None \<Rightarrow> Some (EXT2_ET_NO_MEMORY, None, rc')
           | Some i \<Rightarrow> do { v \<leftarrow> el_value rc' i; rc2 \<leftarrow> el_set rc' i (add64 v 1); Some (0, Some (add64 v 1), rc2) }) }"

definition ea_refcount_decrement ::
  "allocator \<Rightarrow> (nat \<Rightarrow> ea_refcount_el) \<Rightarrow> ea_refcount \<Rightarrow> u64 \<Rightarrow> (errcode \<times> u64 option \<times> ea_refcount) option" where
  "ea_refcount_decrement mem fresh rc key =
     do { (el, rc') \<leftarrow> get_refcount_el mem fresh rc key False;
          (case el of
             None \<Rightarrow> Some (EXT2_ET_INVALID_ARGUMENT, None, rc')
           | Some i \<Rightarrow> do { v \<leftarrow> el_value rc' i;
                            if v = 0 then Some (EXT2_ET_INVALID_ARGUMENT, None, rc')
                            else do { rc2 \<leftarrow> el_set rc' i (v - 1); Some (0, Some (v - 1), rc2) } }) }"

definition ea_refcount_store ::
  "allocator \<Rightarrow> (nat \<Rightarrow> ea_refcount_el) \<Rightarrow> ea_refcount \<Rightarrow> u64 \<Rightarrow> u64 \<Rightarrow> (errcode \<times> ea_refcount) option" where
  "ea_refcount_store mem fresh rc key v =
     do { (el, rc') \<leftarrow> get_refcount_el mem fresh rc key (v \<noteq> 0);
          (case el of
             None \<Rightarrow> Some (if v \<noteq> 0 then EXT2_ET_NO_MEMORY else 0, rc')
           | Some i \<Rightarrow> do { rc2 \<leftarrow> el_set rc' i v; Some (0, rc2) }) }"

definition ext2fs_get_refcount_size :: "ea_refcount option \<Rightarrow> nat" where
  "ext2fs_get_refcount_size rc = (case rc of None \<Rightarrow> 0 | Some r \<Rightarrow> rc_size r)"

definition ea_refcount_intr_begin :: "ea_refcount \<Rightarrow> ea_refcount" where
  "ea_refcount_intr_begin rc = rc\<lparr>rc_cursor := 0\<rparr>"

text \<open>The next entry with a count, and 0 at the end.\<close>

function ea_refcount_intr_next :: "ea_refcount \<Rightarrow> (u64 \<times> u64 option \<times> ea_refcount) option" where
  "ea_refcount_intr_next rc =
     (if rc_cursor rc \<ge> rc_count rc then Some (0, None, rc)
      else do { e \<leftarrow> rd (rc_list rc) (rc_cursor rc);
                if ea_value e \<noteq> 0
                then Some (ea_key e, Some (ea_value e), rc\<lparr>rc_cursor := rc_cursor rc + 1\<rparr>)
                else ea_refcount_intr_next (rc\<lparr>rc_cursor := rc_cursor rc + 1\<rparr>) })"
  by pat_completeness auto
termination by (relation "measure (\<lambda>rc. rc_count rc - rc_cursor rc)") auto

declare rc_bisect.simps [simp del] get_refcount_el.simps [simp del] ea_refcount_intr_next.simps [simp del]

section \<open>Invariant and abstraction\<close>

abbreviation nz :: "ea_refcount_el \<Rightarrow> bool" where "nz e \<equiv> 0 < ea_value e"

definition live :: "ea_refcount \<Rightarrow> ea_refcount_el list" where
  "live rc = take (rc_count rc) (rc_list rc)"

definition keys_sorted :: "ea_refcount_el list \<Rightarrow> bool" where
  "keys_sorted es \<longleftrightarrow> sorted_wrt (\<lambda>a b. ea_key a < ea_key b) es"

definition rc_ok :: "ea_refcount \<Rightarrow> bool" where
  "rc_ok rc \<longleftrightarrow> rc_count rc \<le> rc_size rc \<and> length (rc_list rc) = rc_size rc \<and> keys_sorted (live rc)"

text \<open>The count of a key: zero unless an entry says otherwise.\<close>

definition cnt :: "ea_refcount_el list \<Rightarrow> u64 \<Rightarrow> u64" where
  "cnt es k = sum_list (map ea_value (filter (\<lambda>e. ea_key e = k) es))"

lemma cnt_simps [simp]:
  "cnt [] k = 0" "cnt (e # es) k = (if ea_key e = k then ea_value e else 0) + cnt es k" "cnt (es @ fs) k = cnt es k + cnt fs k"
  by (simp_all add: cnt_def)

lemma cnt_filter_nz [simp]: "cnt (filter nz es) = cnt es"
proof
  show "cnt (filter nz es) k = cnt es k" for k by (induction es) auto
qed

lemma cnt_absent: "k \<notin> ea_key ` set es \<Longrightarrow> cnt es k = 0"
  by (induction es) auto

lemma keys_sorted_simps [simp]:
  "keys_sorted []" "keys_sorted (e # es) \<longleftrightarrow> (\<forall>f \<in> set es. ea_key e < ea_key f) \<and> keys_sorted es"
  "keys_sorted (es @ fs) \<longleftrightarrow> keys_sorted es \<and> keys_sorted fs \<and> (\<forall>e \<in> set es. \<forall>f \<in> set fs. ea_key e < ea_key f)"
  by (auto simp: keys_sorted_def sorted_wrt_append)

lemma keys_sorted_filter: "keys_sorted es \<Longrightarrow> keys_sorted (filter P es)"
  by (simp add: keys_sorted_def sorted_wrt_filter)

lemma keys_sorted_take_drop: "keys_sorted es \<Longrightarrow> keys_sorted (take n es) \<and> keys_sorted (drop n es)"
  by (simp add: keys_sorted_def sorted_wrt_take sorted_wrt_drop)

lemma cnt_nth: "keys_sorted es \<Longrightarrow> i < length es \<Longrightarrow> cnt es (ea_key (es ! i)) = ea_value (es ! i)"
proof (induction es arbitrary: i)
  case (Cons e es)
  then show ?case by (cases i) (auto intro!: cnt_absent)
qed simp

lemma cnt_update:
  "keys_sorted es \<Longrightarrow> i < length es \<Longrightarrow>
   cnt (es[i := (es ! i)\<lparr>ea_value := v\<rparr>]) = (cnt es)(ea_key (es ! i) := v)"
proof (induction es arbitrary: i)
  case (Cons e es)
  show ?case
  proof (cases i)
    case 0
    moreover have "cnt es (ea_key e) = 0" using Cons.prems by (intro cnt_absent) auto
    ultimately show ?thesis by (auto simp: fun_eq_iff)
  next
    case (Suc j)
    then show ?thesis using Cons by (auto simp: fun_eq_iff)
  qed
qed simp

lemma keys_sorted_update:
  assumes "keys_sorted es" "i < length es"
  shows "keys_sorted (es[i := (es ! i)\<lparr>ea_value := v\<rparr>])"
proof -
  have "map ea_key (es[i := (es ! i)\<lparr>ea_value := v\<rparr>]) = map ea_key es"
    using assms(2) by (auto simp: map_update list_eq_iff_nth_eq nth_list_update)
  moreover have "keys_sorted fs \<longleftrightarrow> sorted_wrt (<) (map ea_key fs)" for fs
    by (simp add: keys_sorted_def sorted_wrt_map)
  ultimately show ?thesis using assms(1) by simp
qed

section \<open>Collapsing and inserting\<close>

lemma collapse_loop_spec:
  assumes "j \<le> i" "i + n \<le> length l"
  shows "\<exists>j' l'. collapse_loop l i j n = Some (j', l') \<and> length l' = length l \<and> j' \<le> i + n \<and>
           take j' l' = take j l @ filter nz (take n (drop i l))"
  using assms
proof (induction n arbitrary: l i j)
  case (Suc n)
  let ?l = "if i \<noteq> j \<and> nz (l ! i) then l[j := l ! i] else l"
  let ?j = "if nz (l ! i) then Suc j else j"
  have i: "i < length l" using Suc.prems by simp
  have d: "take (Suc n) (drop i l) = l ! i # take n (drop (Suc i) l)"
    using i by (simp add: Cons_nth_drop_Suc [symmetric])
  have tl: "take ?j ?l = take j l @ (if nz (l ! i) then [l ! i] else [])"
    using Suc.prems i by (auto simp: take_Suc_conv_app_nth)
  have dl: "drop (Suc i) ?l = drop (Suc i) l" using Suc.prems by auto
  have b: "?j \<le> Suc i" "Suc i + n \<le> length ?l" using Suc.prems by auto
  obtain j' l' where r: "collapse_loop ?l (Suc i) ?j n = Some (j', l')" "length l' = length ?l" "j' \<le> Suc i + n"
      "take j' l' = take ?j ?l @ filter nz (take n (drop (Suc i) ?l))"
    using Suc.IH [OF b] by blast
  have "collapse_loop l i j (Suc n) = collapse_loop ?l (Suc i) ?j n"
    using i Suc.prems by (auto simp: mem_simps)
  then show ?case using r d tl dl by auto
qed simp

lemma refcount_collapse_spec:
  assumes "rc_ok rc"
  shows "\<exists>rc'. refcount_collapse rc = Some rc' \<and> rc_ok rc' \<and> live rc' = filter nz (live rc) \<and> rc_size rc' = rc_size rc \<and>
           rc_cursor rc' = rc_cursor rc"
proof -
  obtain j l where r: "collapse_loop (rc_list rc) 0 0 (rc_count rc) = Some (j, l)" "length l = length (rc_list rc)"
      "j \<le> rc_count rc" "take j l = filter nz (live rc)"
    using collapse_loop_spec [of 0 0 "rc_count rc" "rc_list rc"] assms by (auto simp: rc_ok_def live_def)
  let ?rc = "rc\<lparr>rc_count := j, rc_list := l\<rparr>"
  have "live ?rc = filter nz (live rc)" using r by (simp add: live_def)
  moreover from this have "rc_ok ?rc" using assms r by (simp add: rc_ok_def keys_sorted_filter)
  ultimately show ?thesis using r(1) by (auto simp: refcount_collapse_def)
qed

lemma memmove_insert:
  assumes "pos \<le> c" "c < length l"
  shows "\<exists>l'. do { l2 \<leftarrow> (if c \<noteq> pos then memmove_up l pos (c - pos) else Some l); wr l2 pos x } = Some l' \<and> length l' = length l \<and>
    take (c + 1) l' = take pos (take c l) @ x # drop pos (take c l)"
proof -
  define l1 where "l1 = (if c \<noteq> pos then take (pos + 1) l @ take (c - pos) (drop pos l) @ drop (pos + 1 + (c - pos)) l else l)"
  have mv: "(if c \<noteq> pos then memmove_up l pos (c - pos) else Some l) = Some l1" using assms by (simp add: memmove_up_def l1_def)
  have len: "length l1 = length l" using assms by (auto simp: l1_def)
  have tp: "take pos l1 = take pos (take c l)" using assms by (auto simp: l1_def)
  have dp: "take (c - pos) (drop (pos + 1) l1) = drop pos (take c l)" using assms by (auto simp: l1_def drop_take)
  have "l1[pos := x] = take pos l1 @ x # drop (pos + 1) l1" using assms len by (simp add: upd_conv_take_nth_drop)
  moreover have "length (take pos l1) = pos" using assms len by simp
  ultimately have "take (c + 1) (l1[pos := x]) = take pos (take c l) @ x # drop pos (take c l)" using assms tp dp by (simp add: Suc_diff_le)
  then show ?thesis unfolding mv using assms len by (auto simp: wr_def)
qed

lemma new_size_small:
  assumes "n + 100 \<le> 2 ^ 30"
  shows "add64 n 100 = n + 100" "(n + 100) * 16 mod W64 = (n + 100) * 16" "(n + 100) * 16 div 16 = n + 100"
  using assms by (simp_all add: add64_def)

lemma insert_refcount_el_spec:
  assumes ok: "rc_ok rc" and pos: "pos \<le> rc_count rc"
    and lo: "\<forall>e \<in> set (take pos (live rc)). ea_key e < key" and hi: "\<forall>e \<in> set (drop pos (live rc)). key < ea_key e"
    and room: "rc_count rc < rc_size rc \<or> mem ((rc_size rc + 100) * 16)" and small: "rc_size rc + 100 \<le> 2 ^ 30"
  shows "\<exists>rc'. insert_refcount_el mem fresh rc key pos = Some (Some pos, rc') \<and> rc_ok rc' \<and> rc_size rc' \<le> rc_size rc + 100 \<and>
           live rc' = take pos (live rc) @ \<lparr>ea_key = key, ea_value = 0\<rparr> # drop pos (live rc)"
proof -
  let ?el = "\<lparr>ea_key = key, ea_value = 0\<rparr>" and ?c = "rc_count rc"
  define rc1 where "rc1 = (if rc_count rc \<ge> rc_size rc
                   then rc\<lparr>rc_size := rc_size rc + 100, rc_list := resize_array fresh (rc_size rc + 100) (rc_list rc)\<rparr> else rc)"
  let ?l = "rc_list rc1"
  have len: "length ?l = rc_size rc1" "?c < rc_size rc1" using ok by (auto simp: rc1_def rc_ok_def)
  have live: "take ?c ?l = live rc" using ok by (auto simp: rc1_def rc_ok_def live_def)
  from memmove_insert [OF pos, of ?l ?el] obtain l2 where l2: "do { l1 \<leftarrow> (if ?c \<noteq> pos then memmove_up ?l pos (?c - pos) else Some ?l); wr l1 pos ?el } = Some l2"
      "length l2 = rc_size rc1" "take (?c + 1) l2 = take pos (live rc) @ ?el # drop pos (live rc)"
    using len live by auto
  let ?rc = "rc1\<lparr>rc_count := ?c + 1, rc_list := l2\<rparr>"
  have lv: "live ?rc = take pos (live rc) @ ?el # drop pos (live rc)" using l2(3) by (simp add: live_def)
  moreover have "rc_ok ?rc"
    unfolding rc_ok_def lv using ok len l2(2) lo hi keys_sorted_take_drop [of "live rc" pos]
    by (auto simp: rc_ok_def intro: less_trans)
  moreover have "insert_refcount_el mem fresh rc key pos = Some (Some pos, ?rc)"
    unfolding insert_refcount_el_def Let_def new_size_small [OF small] rc1_def [symmetric]
    using room pos l2(1) by (auto simp: bind_eq_Some_conv)
  moreover have "rc_size ?rc \<le> rc_size rc + 100" by (simp add: rc1_def)
  ultimately show ?thesis by blast
qed

section \<open>Searching\<close>

definition placed :: "ea_refcount_el list \<Rightarrow> u64 \<Rightarrow> nat + int \<Rightarrow> bool" where
  "placed es key r \<longleftrightarrow>
     (case r of Inl m \<Rightarrow> m < length es \<and> ea_key (es ! m) = key
      | Inr p \<Rightarrow> 0 \<le> p \<and> p \<le> int (length es) \<and> (\<forall>i < length es. if int i < p then ea_key (es ! i) < key else key < ea_key (es ! i)))"

lemma rc_bisect_spec:
  assumes "keys_sorted (take n l)" "n \<le> length l" "0 \<le> low" "low \<le> high + 1" "high < int n"
    and "\<forall>i < n. int i < low \<longrightarrow> ea_key (l ! i) < key" "\<forall>i < n. high < int i \<longrightarrow> key < ea_key (l ! i)"
  shows "\<exists>r. rc_bisect l key low high = Some r \<and> placed (take n l) key r"
  using assms
proof (induction l key low high rule: rc_bisect.induct)
  case (1 l key low high)
  show ?case
  proof (cases "low \<le> high")
    case False
    then have "rc_bisect l key low high = Some (Inr low)" by (simp add: rc_bisect.simps)
    moreover have "placed (take n l) key (Inr low)" using "1.prems" False by (auto simp: placed_def)
    ultimately show ?thesis by blast
  next
    case True
    let ?m = "(low + high) div 2"
    have m: "low \<le> ?m" "?m \<le> high" "0 \<le> ?m" "nat ?m < n" using True "1.prems"(3,5) by auto
    have ml: "nat ?m < length l" using m "1.prems"(2) by simp
    have mono: "ea_key (l ! i) < ea_key (l ! j)" if "i < j" "j < n" for i j
      using "1.prems"(1,2) that by (auto simp: keys_sorted_def sorted_wrt_iff_nth_less)
    have step: "rc_bisect l key low high =
       (if key = ea_key (l ! nat ?m) then Some (Inl (nat ?m)) else if key < ea_key (l ! nat ?m) then rc_bisect l key low (?m - 1)
        else rc_bisect l key (?m + 1) high)"
      using True m ml by (subst rc_bisect.simps) (simp add: rd_def Let_def)
    consider (hit) "key = ea_key (l ! nat ?m)" | (lo) "key < ea_key (l ! nat ?m)" | (hi) "ea_key (l ! nat ?m) < key" by linarith
    then show ?thesis
    proof cases
      case hit
      then have "placed (take n l) key (Inl (nat ?m))" using m "1.prems"(2) by (simp add: placed_def)
      then show ?thesis using hit step by auto
    next
      case lo
      have "\<forall>i < n. ?m - 1 < int i \<longrightarrow> key < ea_key (l ! i)"
      proof (intro allI impI)
        fix i assume i: "i < n" "?m - 1 < int i"
        then have "i = nat ?m \<or> nat ?m < i" using m by linarith
        then show "key < ea_key (l ! i)" using lo mono [of "nat ?m" i] i by auto
      qed
      then have "\<exists>r. rc_bisect l key low (?m - 1) = Some r \<and> placed (take n l) key r"
        using "1.IH"(1) [OF True refl] "1.prems" m lo ml by (auto simp: rd_def)
      then show ?thesis using lo step by auto
    next
      case hi
      have "\<forall>i < n. int i < ?m + 1 \<longrightarrow> ea_key (l ! i) < key"
      proof (intro allI impI)
        fix i assume i: "i < n" "int i < ?m + 1"
        then have "i = nat ?m \<or> i < nat ?m" using m by linarith
        then show "ea_key (l ! i) < key" using hi mono [of i "nat ?m"] m(4) by auto
      qed
      then have "\<exists>r. rc_bisect l key (?m + 1) high = Some r \<and> placed (take n l) key r"
        using "1.IH"(2) [OF True refl] "1.prems" m hi ml by (auto simp: rd_def)
      then show ?thesis using hi step by auto
    qed
  qed
qed

lemma live_length: "rc_ok rc \<Longrightarrow> length (live rc) = rc_count rc"
  by (simp add: rc_ok_def live_def)

lemma live_nth: "rc_ok rc \<Longrightarrow> i < rc_count rc \<Longrightarrow> rd (rc_list rc) i = Some (live rc ! i)"
  by (simp add: rc_ok_def live_def rd_def)

lemma live_cursor [simp]: "live (rc\<lparr>rc_cursor := c\<rparr>) = live rc" "rc_ok (rc\<lparr>rc_cursor := c\<rparr>) = rc_ok rc"
  by (simp_all add: live_def rc_ok_def)

text \<open>The answer of a lookup: every count is kept; the entry has the key, or there is none for a stated reason.\<close>

definition got :: "allocator \<Rightarrow> ea_refcount \<Rightarrow> u64 \<Rightarrow> bool \<Rightarrow> nat option \<Rightarrow> ea_refcount \<Rightarrow> bool" where
  "got mem rc key create r rc' \<longleftrightarrow>
     rc_ok rc' \<and> cnt (live rc') = cnt (live rc) \<and> rc_size rc' \<le> rc_size rc + 100 \<and>
     (case r of Some i \<Rightarrow> i < rc_count rc' \<and> ea_key (live rc' ! i) = key
      | None \<Rightarrow> if create then \<not> mem ((rc_size rc + 100) * 16) else key \<notin> ea_key ` set (live rc))"

lemma got_inserted:
  assumes "rc_ok rc" "rc_ok rc1" "cnt (live rc1) = cnt (live rc)" "rc_size rc1 = rc_size rc" "pos \<le> rc_count rc1"
    "\<forall>e \<in> set (take pos (live rc1)). ea_key e < key" "\<forall>e \<in> set (drop pos (live rc1)). key < ea_key e" "rc_size rc + 100 \<le> 2 ^ 30"
  shows "\<exists>r rc'. insert_refcount_el mem fresh rc1 key pos = Some (r, rc') \<and> got mem rc key True r rc'"
proof (cases "rc_count rc1 < rc_size rc1 \<or> mem ((rc_size rc1 + 100) * 16)")
  case True
  have small: "rc_size rc1 + 100 \<le> 2 ^ 30" using assms(4,8) by simp
  obtain rc' where r: "insert_refcount_el mem fresh rc1 key pos = Some (Some pos, rc')" "rc_ok rc'"
      "live rc' = take pos (live rc1) @ \<lparr>ea_key = key, ea_value = 0\<rparr> # drop pos (live rc1)" "rc_size rc' \<le> rc_size rc + 100"
    using insert_refcount_el_spec [where mem = mem, OF assms(2,5,6,7) True small] assms(4) by auto
  have "cnt (live rc') = cnt (live rc1)"
  proof
    show "cnt (live rc') k = cnt (live rc1) k" for k
      unfolding r(3) using cnt_simps(3) [of "take pos (live rc1)" "drop pos (live rc1)" k] by simp
  qed
  moreover have "length (take pos (live rc1)) = pos" using assms(2,5) by (simp add: live_length)
  then have "pos < length (live rc')" "live rc' ! pos = \<lparr>ea_key = key, ea_value = 0\<rparr>"
    unfolding r(3) by (auto simp: nth_append)
  ultimately have "got mem rc key True (Some pos) rc'" using r(2,4) assms(3) by (simp add: got_def live_length)
  then show ?thesis using r(1) by blast
next
  case False
  then have "insert_refcount_el mem fresh rc1 key pos = Some (None, rc1)"
    using new_size_small [of "rc_size rc1"] assms(4,8) by (simp add: insert_refcount_el_def)
  moreover have "got mem rc key True None rc1" using False assms by (simp add: got_def)
  ultimately show ?thesis by blast
qed

lemma keys_sorted_last:
  assumes "keys_sorted es" "es \<noteq> []" "ea_key (last es) < key"
  shows "\<forall>e \<in> set es. ea_key e < key"
proof -
  have "keys_sorted (butlast es @ [last es])" using assms(1,2) by simp
  then have "\<forall>e \<in> set (butlast es). ea_key e < ea_key (last es)" by (simp only: keys_sorted_simps) auto
  moreover have "set es = insert (last es) (set (butlast es))"
    by (metis append_butlast_last_id assms(2) insert_is_Un list.simps(15) set_append sup_commute empty_set)
  ultimately show ?thesis using assms(3) by auto
qed

lemma got_appended:
  assumes ok: "rc_ok rc" and above: "\<forall>e \<in> set (live rc). ea_key e < key" and small: "rc_size rc + 100 \<le> 2 ^ 30"
  shows "\<exists>r rc'. do { rc1 \<leftarrow> (if rc_count rc \<ge> rc_size rc then refcount_collapse rc else Some rc);
                      insert_refcount_el mem fresh rc1 key (rc_count rc1) } = Some (r, rc') \<and> got mem rc key True r rc'"
proof -
  obtain rc1 where c: "(if rc_count rc \<ge> rc_size rc then refcount_collapse rc else Some rc) = Some rc1" "rc_ok rc1"
      "cnt (live rc1) = cnt (live rc)" "rc_size rc1 = rc_size rc" "set (live rc1) \<subseteq> set (live rc)"
    using refcount_collapse_spec [OF ok] ok by (cases "rc_count rc \<ge> rc_size rc") auto
  show ?thesis
    unfolding c(1) using got_inserted [OF ok c(2,3,4) order_refl, of key mem fresh] above small c(2,5)
    by (auto simp: live_length [symmetric])
qed

lemma placed_insert:
  assumes "placed es key (Inr p)"
  shows "nat p \<le> length es" "\<forall>e \<in> set (take (nat p) es). ea_key e < key" "\<forall>e \<in> set (drop (nat p) es). key < ea_key e"
    "key \<notin> ea_key ` set es"
proof -
  have p: "0 \<le> p" "p \<le> int (length es)"
      "\<forall>i < length es. if int i < p then ea_key (es ! i) < key else key < ea_key (es ! i)"
    using assms by (simp_all add: placed_def)
  show "nat p \<le> length es" using p by simp
  show l: "\<forall>e \<in> set (take (nat p) es). ea_key e < key"
    using p by (auto simp: in_set_conv_nth)
  show h: "\<forall>e \<in> set (drop (nat p) es). key < ea_key e"
  proof
    fix e assume "e \<in> set (drop (nat p) es)"
    then obtain i where "i < length es - nat p" "e = es ! (nat p + i)" by (auto simp: in_set_conv_nth)
    moreover have "\<not> int (nat p + i) < p" by simp
    ultimately show "key < ea_key e" using p(3) [rule_format, of "nat p + i"] by auto
  qed
  show "key \<notin> ea_key ` set es"
    using l h by (metis append_take_drop_id image_iff less_irrefl Un_iff set_append)
qed

definition got_in :: "allocator \<Rightarrow> ea_refcount \<Rightarrow> u64 \<Rightarrow> bool \<Rightarrow> (nat option \<times> ea_refcount) option \<Rightarrow> bool" where
  "got_in mem rc key create res \<longleftrightarrow> (\<exists>r rc'. res = Some (r, rc') \<and> got mem rc key create r rc')"

lemma get_refcount_el_spec: "rc_ok rc \<Longrightarrow> rc_size rc + 100 \<le> 2 ^ 30 \<Longrightarrow> got_in mem rc key create (get_refcount_el mem fresh rc key create)"
proof (induction "if rc_count rc \<ge> rc_size rc then Suc 0 else 0" arbitrary: rc rule: less_induct)
  case less
  note ok = less.prems(1) and small = less.prems(2)
  let ?es = "live rc" and ?c = "rc_count rc"
  have few: "(?c > 2 ^ 30) = False" using ok small by (simp add: rc_ok_def)
  define rc1 where "rc1 = (if rc_cursor rc \<ge> ?c then rc\<lparr>rc_cursor := 0\<rparr> else rc)"
  have rc1: "rc_ok rc1" "live rc1 = ?es" "rc_count rc1 = ?c" "rc_size rc1 = rc_size rc" "rc_list rc1 = rc_list rc"
    using ok by (simp_all add: rc1_def)
  have ne: "?c \<noteq> 0 \<Longrightarrow> ?es \<noteq> []" using live_length [OF ok] by auto
  have lastq: "?c \<noteq> 0 \<Longrightarrow> rd (rc_list rc) (?c - 1) = Some (last ?es)"
    using ok live_length [OF ok] last_conv_nth [of ?es] ne by (simp add: live_nth)
  have cnd: "(if create then if ?c = 0 then Some True else do { e \<leftarrow> rd (rc_list rc) (?c - 1); Some (key > ea_key e) }
              else Some False) = Some (create \<and> (?c = 0 \<or> ea_key (last ?es) < key))"
    using lastq by simp
  consider (app) "create" "?c = 0 \<or> ea_key (last ?es) < key" | (empty) "\<not> (create \<and> (?c = 0 \<or> ea_key (last ?es) < key))" "?c = 0"
    | (search) "\<not> (create \<and> (?c = 0 \<or> ea_key (last ?es) < key))" "?c \<noteq> 0" by blast
  then show ?case
  proof cases
    case app
    have ab: "\<forall>e \<in> set ?es. ea_key e < key"
      using app(2) keys_sorted_last [of ?es key] ok ne by (cases "?c = 0") (auto simp: rc_ok_def live_def)
    have "create \<and> (?c = 0 \<or> ea_key (last ?es) < key) \<longleftrightarrow> True" using app by simp
    then show ?thesis
      unfolding got_in_def get_refcount_el.simps [of mem fresh rc] few if_False cnd using got_appended [OF ok ab small, of mem fresh] app(1) by simp
  next
    case empty
    then have "get_refcount_el mem fresh rc key create = Some (None, rc)" "\<not> create"
      unfolding get_refcount_el.simps [of mem fresh rc] few if_False cnd by auto
    then show ?thesis using ok empty(2) by (simp add: got_in_def got_def live_def)
  next
    case search
    have ap: "(create \<and> (?c = 0 \<or> ea_key (last ?es) < key)) = False" using search(1) by simp
    have cur: "rc_cursor rc1 < ?c" using search(2) by (simp add: rc1_def)
    obtain s where s: "rc_bisect (rc_list rc) key 0 (int ?c - 1) = Some s" "placed ?es key s"
      using rc_bisect_spec [of ?c "rc_list rc" 0 "int ?c - 1" key] ok by (auto simp: rc_ok_def live_def)
    let ?cur = "rc_cursor rc1"
    have eq: "get_refcount_el mem fresh rc key create =
      (if key = ea_key (?es ! ?cur) then Some (Some ?cur, rc1\<lparr>rc_cursor := ?cur + 1\<rparr>)
       else case s of
          Inl mid \<Rightarrow> Some (Some mid, rc1\<lparr>rc_cursor := mid + 1\<rparr>)
        | Inr low \<Rightarrow>
            if create then
              (if ?c \<ge> rc_size rc then
                 (case refcount_collapse rc1 of
                    None \<Rightarrow> None
                  | Some rc2 \<Rightarrow>
                      if rc_count rc2 < rc_size rc2 then get_refcount_el mem fresh rc2 key create
                      else insert_refcount_el mem fresh rc2 key (nat low))
               else insert_refcount_el mem fresh rc1 key (nat low))
            else Some (None, rc1))"
      using search(2) s(1) live_nth [OF ok cur] rc1(3,4,5) 
      unfolding get_refcount_el.simps [of mem fresh rc] few if_False cnd ap Let_def rc1_def [symmetric] bind.bind_lunit
      by (cases s) simp_all
    show ?thesis
    proof (cases "key = ea_key (?es ! ?cur)")
      case True
      have "got mem rc key create (Some ?cur) (rc1\<lparr>rc_cursor := ?cur + 1\<rparr>)"
        using rc1 cur True by (simp add: got_def)
      then show ?thesis using eq True by (simp add: got_in_def)
    next
      case miss: False
      show ?thesis
      proof (cases s)
        case (Inl mid)
        have "got mem rc key create (Some mid) (rc1\<lparr>rc_cursor := mid + 1\<rparr>)"
          using rc1 s(2) Inl live_length [OF ok] by (simp add: got_def placed_def)
        then show ?thesis using eq miss Inl by (simp add: got_in_def)
      next
        case (Inr low)
        note pl = placed_insert [OF s(2) [unfolded Inr]]
        have p: "nat low \<le> ?c" using pl(1) live_length [OF ok] by simp
        consider (absent) "\<not> create" | (room) "create" "?c < rc_size rc" | (full) "create" "\<not> ?c < rc_size rc" by blast
        then show ?thesis
        proof cases
          case absent
          then have "got mem rc key create None rc1" using rc1 pl(4) by (simp add: got_def)
          then show ?thesis using eq miss Inr absent by (simp add: got_in_def)
        next
          case room
          then show ?thesis
            using eq miss Inr got_inserted [OF ok rc1(1), of "nat low" key mem fresh] rc1 p pl small by (simp add: got_in_def)
        next
          case full
          obtain rc2 where rc2: "refcount_collapse rc1 = Some rc2" "rc_ok rc2" "live rc2 = filter nz ?es" "rc_size rc2 = rc_size rc"
            using refcount_collapse_spec [OF rc1(1)] rc1 by auto
          show ?thesis
          proof (cases "rc_count rc2 < rc_size rc2")
            case True
            have "got_in mem rc2 key create (get_refcount_el mem fresh rc2 key create)"
              using less.hyps [OF _ rc2(2)] True full(2) small rc2(4) by simp
            moreover have "got mem rc key create r rc'" if "got mem rc2 key create r rc'" for r rc'
              using that full(1) rc2(3,4) by (cases r) (simp_all add: got_def)
            ultimately have "got_in mem rc key create (get_refcount_el mem fresh rc2 key create)"
              unfolding got_in_def by blast
            then show ?thesis using eq miss Inr full True rc2(1) by simp
          next
            case False
            have "length (filter nz ?es) \<ge> length ?es"
              using False rc2 full(2) live_length [OF ok] live_length [OF rc2(2)] ok by (simp add: rc_ok_def)
            then have "\<forall>e \<in> set ?es. nz e"
              by (metis filter_empty_conv le_zero_eq length_filter_le length_filter_less not_le)
            then have l2: "live rc2 = ?es" using rc2(3) by simp
            then have "rc_count rc2 = ?c" using live_length [OF rc2(2)] live_length [OF ok] by simp
            then show ?thesis
              using eq miss Inr full False rc2 got_inserted [OF ok rc2(2), of "nat low" key mem fresh] l2 p pl small
              by (simp add: got_in_def)
          qed
        qed
      qed
    qed
  qed
qed

section \<open>The operations on the counts\<close>

lemma el_value_spec: "rc_ok rc \<Longrightarrow> i < rc_count rc \<Longrightarrow> el_value rc i = Some (cnt (live rc) (ea_key (live rc ! i)))"
  by (simp add: el_value_def live_nth cnt_nth live_length rc_ok_def [of rc])

lemma el_set_spec:
  assumes "rc_ok rc" "i < rc_count rc"
  shows "\<exists>rc'. el_set rc i v = Some rc' \<and> rc_ok rc' \<and> rc_size rc' = rc_size rc \<and> cnt (live rc') = (cnt (live rc))(ea_key (live rc ! i) := v)"
proof -
  let ?l = "(rc_list rc)[i := (live rc ! i)\<lparr>ea_value := v\<rparr>]"
  let ?rc = "rc\<lparr>rc_list := ?l\<rparr>"
  have lv: "live ?rc = (live rc)[i := (live rc ! i)\<lparr>ea_value := v\<rparr>]" by (simp add: live_def take_update_swap)
  have i: "i < length (live rc)" "i < length (rc_list rc)" using assms by (auto simp: live_length rc_ok_def)
  have "rc_ok ?rc" using assms keys_sorted_update [of "live rc" i v] i lv by (simp add: rc_ok_def)
  moreover have "cnt (live ?rc) = (cnt (live rc))(ea_key (live rc ! i) := v)"
    using cnt_update [of "live rc" i v] assms i lv by (simp add: rc_ok_def)
  moreover have "rc_size ?rc = rc_size rc" by simp
  moreover have "el_set rc i v = Some ?rc" using assms i by (simp add: el_set_def live_nth wr_def)
  ultimately show ?thesis by blast
qed

lemma get_refcount_el_cases:
  assumes "rc_ok rc" "rc_size rc + 100 \<le> 2 ^ 30"
  obtains (hit) i rc' where "get_refcount_el mem fresh rc key create = Some (Some i, rc')" "rc_ok rc'" "i < rc_count rc'"
      "cnt (live rc') = cnt (live rc)" "ea_key (live rc' ! i) = key" "rc_size rc' \<le> rc_size rc + 100"
  | (miss) rc' where "get_refcount_el mem fresh rc key create = Some (None, rc')" "rc_ok rc'" "\<not> create"
      "cnt (live rc') = cnt (live rc)" "cnt (live rc) key = 0" "rc_size rc' \<le> rc_size rc + 100"
  | (memory) rc' where "get_refcount_el mem fresh rc key create = Some (None, rc')" "rc_ok rc'" "create"
      "cnt (live rc') = cnt (live rc)" "\<not> mem ((rc_size rc + 100) * 16)" "rc_size rc' \<le> rc_size rc + 100"
proof -
  obtain r rc' where g: "get_refcount_el mem fresh rc key create = Some (r, rc')" "got mem rc key create r rc'"
    using get_refcount_el_spec [OF assms, of mem key create fresh] by (auto simp: got_in_def)
  show thesis
  proof (cases r)
    case (Some i)
    then show thesis using g hit by (auto simp: got_def)
  next
    case None
    then show thesis using g miss memory cnt_absent [of key "live rc"] by (cases create) (auto simp: got_def)
  qed
qed

text \<open>An abstract store of counts. Only an operation that may need a new entry can run out of memory, and then nothing changes.\<close>

datatype rc_cmd = Fetch u64 | Increment u64 | Decrement u64 | Store u64 u64

type_synonym rc_answer = "errcode \<times> u64 option"

definition rc_exec ::
  "allocator \<Rightarrow> (nat \<Rightarrow> ea_refcount_el) \<Rightarrow> rc_cmd \<Rightarrow> ea_refcount \<Rightarrow> (rc_answer \<times> ea_refcount) option" where
  "rc_exec mem fresh c rc =
     (case c of
        Fetch k \<Rightarrow> map_option (\<lambda>(e, v, rc'). ((e, Some v), rc')) (ea_refcount_fetch mem fresh rc k)
      | Increment k \<Rightarrow> map_option (\<lambda>(e, v, rc'). ((e, v), rc')) (ea_refcount_increment mem fresh rc k)
      | Decrement k \<Rightarrow> map_option (\<lambda>(e, v, rc'). ((e, v), rc')) (ea_refcount_decrement mem fresh rc k)
      | Store k v \<Rightarrow> map_option (\<lambda>(e, rc'). ((e, None), rc')) (ea_refcount_store mem fresh rc k v))"

inductive counts_step :: "allocator \<Rightarrow> rc_cmd \<Rightarrow> (u64 \<Rightarrow> u64) \<Rightarrow> rc_answer \<Rightarrow> (u64 \<Rightarrow> u64) \<Rightarrow> bool" for mem where
  fetch: "counts_step mem (Fetch k) m (0, Some (m k)) m"
| increment: "v = add64 (m k) 1 \<Longrightarrow> counts_step mem (Increment k) m (0, Some v) (m(k := v))"
| decrement: "m k \<noteq> 0 \<Longrightarrow> counts_step mem (Decrement k) m (0, Some (m k - 1)) (m(k := m k - 1))"
| decrement_none: "m k = 0 \<Longrightarrow> counts_step mem (Decrement k) m (EXT2_ET_INVALID_ARGUMENT, None) m"
| store: "counts_step mem (Store k v) m (0, None) (m(k := v))"
| increment_memory: "\<not> mem n \<Longrightarrow> counts_step mem (Increment k) m (EXT2_ET_NO_MEMORY, None) m"
| store_memory: "\<not> mem n \<Longrightarrow> v \<noteq> 0 \<Longrightarrow> counts_step mem (Store k v) m (EXT2_ET_NO_MEMORY, None) m"

inductive_simps counts_step_simps:
  "counts_step mem (Fetch k) m a m'" "counts_step mem (Increment k) m a m'" "counts_step mem (Decrement k) m a m'"
  "counts_step mem (Store k v) m a m'"

lemma rc_exec_refines:
  assumes ok: "rc_ok rc" and small: "rc_size rc + 100 \<le> 2 ^ 30"
  shows "\<exists>a rc'. rc_exec mem fresh c rc = Some (a, rc') \<and> rc_ok rc' \<and> rc_size rc' \<le> rc_size rc + 100 \<and> counts_step mem c (cnt (live rc)) a (cnt (live rc'))"
proof (cases c)
  case (Fetch k)
  show ?thesis
    using ok Fetch
    by (cases rule: get_refcount_el_cases [OF ok small, where mem = mem and fresh = fresh and key = k and create = False])
      (auto simp: rc_exec_def ea_refcount_fetch_def counts_step_simps el_value_spec)
next
  case (Increment k)
  from ok small show ?thesis
  proof (cases rule: get_refcount_el_cases [where mem = mem and fresh = fresh and key = k and create = True])
    case (hit i rc')
    then show ?thesis
      using el_set_spec [OF hit(2,3), of "add64 (cnt (live rc) k) 1"] Increment
      by (auto simp: rc_exec_def ea_refcount_increment_def counts_step_simps el_value_spec)
  qed (auto simp: rc_exec_def ea_refcount_increment_def counts_step_simps Increment)
next
  case (Decrement k)
  from ok small show ?thesis
  proof (cases rule: get_refcount_el_cases [where mem = mem and fresh = fresh and key = k and create = False])
    case (hit i rc')
    then show ?thesis
      using el_set_spec [OF hit(2,3), of "cnt (live rc) k - 1"] Decrement
      by (cases "cnt (live rc) k = 0") (auto simp: rc_exec_def ea_refcount_decrement_def counts_step_simps el_value_spec)
  qed (auto simp: rc_exec_def ea_refcount_decrement_def counts_step_simps Decrement)
next
  case (Store k v)
  from ok small show ?thesis
  proof (cases rule: get_refcount_el_cases [where mem = mem and fresh = fresh and key = k and create = "v \<noteq> 0"])
    case (hit i rc')
    then show ?thesis
      using el_set_spec [OF hit(2,3), of v] Store by (auto simp: rc_exec_def ea_refcount_store_def counts_step_simps)
  next
    case (miss rc')
    then have "(cnt (live rc))(k := v) = cnt (live rc)" by auto
    then show ?thesis using miss Store by (auto simp: rc_exec_def ea_refcount_store_def counts_step_simps)
  next
    case (memory rc')
    then show ?thesis using Store by (auto simp: rc_exec_def ea_refcount_store_def counts_step_simps)
  qed
qed

text \<open>A session: each command runs with the memory of its moment.\<close>

fun rc_run :: "(nat \<Rightarrow> ea_refcount_el) \<Rightarrow> (allocator \<times> rc_cmd) list \<Rightarrow> ea_refcount \<Rightarrow> (rc_answer list \<times> ea_refcount) option" where
  "rc_run fresh [] rc = Some ([], rc)"
| "rc_run fresh ((mem, c) # cs) rc =
     do { (a, rc1) \<leftarrow> rc_exec mem fresh c rc; (as, rc2) \<leftarrow> rc_run fresh cs rc1; Some (a # as, rc2) }"

inductive counts_run :: "(allocator \<times> rc_cmd) list \<Rightarrow> (u64 \<Rightarrow> u64) \<Rightarrow> rc_answer list \<Rightarrow> (u64 \<Rightarrow> u64) \<Rightarrow> bool" where
  nil: "counts_run [] m [] m"
| cons: "counts_step mem c m a m1 \<Longrightarrow> counts_run cs m1 as m2 \<Longrightarrow> counts_run ((mem, c) # cs) m (a # as) m2"

lemma rc_run_refines:
  "rc_ok rc \<Longrightarrow> rc_size rc + 100 * length cs \<le> 2 ^ 30 \<Longrightarrow>
   \<exists>as rc'. rc_run fresh cs rc = Some (as, rc') \<and> rc_ok rc' \<and> counts_run cs (cnt (live rc)) as (cnt (live rc'))"
proof (induction cs arbitrary: rc)
  case Nil
  then show ?case by (auto intro: counts_run.intros)
next
  case (Cons mc cs)
  obtain mem c where mc: "mc = (mem, c)" by force
  have "rc_size rc + 100 \<le> 2 ^ 30" using Cons.prems(2) by simp
  from rc_exec_refines [OF Cons.prems(1) this] obtain a rc1 where s: "rc_exec mem fresh c rc = Some (a, rc1)" "rc_ok rc1"
      "counts_step mem c (cnt (live rc)) a (cnt (live rc1))" "rc_size rc1 \<le> rc_size rc + 100"
    by blast
  then show ?case using Cons.IH [OF s(2)] Cons.prems(2) mc by (auto intro!: counts_run.cons [OF s(3)])
qed

lemma ea_refcount_create_spec:
  "ea_refcount_create mem sz = Inr rc \<Longrightarrow> sz \<le> 2 ^ 30 \<Longrightarrow> rc_ok rc \<and> live rc = [] \<and> rc_size rc = (if sz = 0 then 500 else sz)"
  by (auto simp: ea_refcount_create_def Let_def rc_ok_def live_def split: if_splits)

section \<open>Iteration\<close>

lemma ea_refcount_intr_next_spec:
  assumes "rc_ok rc"
  shows "case filter nz (drop (rc_cursor rc) (live rc)) of
           [] \<Rightarrow> \<exists>c. ea_refcount_intr_next rc = Some (0, None, rc\<lparr>rc_cursor := c\<rparr>)
         | e # es \<Rightarrow> \<exists>c. ea_refcount_intr_next rc = Some (ea_key e, Some (ea_value e), rc\<lparr>rc_cursor := c\<rparr>) \<and>
                      filter nz (drop c (live rc)) = es"
  using assms
proof (induction rc rule: ea_refcount_intr_next.induct)
  case (1 rc)
  let ?c = "rc_cursor rc"
  show ?case
  proof (cases "rc_count rc \<le> ?c")
    case True
    then have "ea_refcount_intr_next rc = Some (0, None, rc\<lparr>rc_cursor := ?c\<rparr>)" by (subst ea_refcount_intr_next.simps) simp
    then have "\<exists>c. ea_refcount_intr_next rc = Some (0, None, rc\<lparr>rc_cursor := c\<rparr>)" ..
    then show ?thesis using True live_length [OF "1.prems"] by simp
  next
    case False
    then have d: "drop ?c (live rc) = live rc ! ?c # drop (Suc ?c) (live rc)" and r: "rd (rc_list rc) ?c = Some (live rc ! ?c)"
      using live_length [OF "1.prems"] live_nth [OF "1.prems"] by (simp_all add: Cons_nth_drop_Suc)
    show ?thesis
    proof (cases "nz (live rc ! ?c)")
      case True
      then have "ea_refcount_intr_next rc =
          Some (ea_key (live rc ! ?c), Some (ea_value (live rc ! ?c)), rc\<lparr>rc_cursor := Suc ?c\<rparr>)"
        using False r by (subst ea_refcount_intr_next.simps) simp
      then show ?thesis using True d by auto
    next
      case z: False
      then have "ea_refcount_intr_next rc = ea_refcount_intr_next (rc\<lparr>rc_cursor := ?c + 1\<rparr>)"
        using False r by (subst ea_refcount_intr_next.simps) simp
      then show ?thesis
        using "1.IH" [OF False r] z d "1.prems" by (cases "filter nz (drop (Suc ?c) (live rc))") simp_all
    qed
  qed
qed

text \<open>\<open>n\<close> calls in a row.\<close>

fun rc_nexts :: "nat \<Rightarrow> ea_refcount \<Rightarrow> ((u64 \<times> u64 option) list \<times> ea_refcount) option" where
  "rc_nexts 0 rc = Some ([], rc)"
| "rc_nexts (Suc n) rc =
     do { (k, v, rc1) \<leftarrow> ea_refcount_intr_next rc; (rs, rc2) \<leftarrow> rc_nexts n rc1; Some ((k, v) # rs, rc2) }"

lemma rc_nexts_spec:
  assumes "rc_ok rc" "filter nz (drop (rc_cursor rc) (live rc)) = es"
  shows "\<exists>c. rc_nexts (Suc (length es)) rc =
           Some (map (\<lambda>e. (ea_key e, Some (ea_value e))) es @ [(0, None)], rc\<lparr>rc_cursor := c\<rparr>)"
  using assms
proof (induction es arbitrary: rc)
  case Nil
  then show ?case using ea_refcount_intr_next_spec [OF Nil.prems(1)] by auto
next
  case (Cons e es)
  obtain c where c: "ea_refcount_intr_next rc = Some (ea_key e, Some (ea_value e), rc\<lparr>rc_cursor := c\<rparr>)"
      "filter nz (drop c (live rc)) = es"
    using ea_refcount_intr_next_spec [OF Cons.prems(1)] Cons.prems(2) by auto
  have "\<exists>c'. rc_nexts (Suc (length es)) (rc\<lparr>rc_cursor := c\<rparr>) =
           Some (map (\<lambda>e. (ea_key e, Some (ea_value e))) es @ [(0, None)], rc\<lparr>rc_cursor := c\<rparr>\<lparr>rc_cursor := c'\<rparr>)"
    using Cons.prems(1) c(2) by (intro Cons.IH) simp_all
  then show ?case using c(1) by (auto simp del: rc_nexts.simps simp: rc_nexts.simps(2) [of "Suc (length es)"])
qed

section \<open>Properties\<close>

text \<open>C29. Every session of fetch, increment, decrement and store on a fresh object ends without touching memory outside the array, keeps
  the entries sorted and within the array, and answers, as long as its size and the 100 entries each command may add stay
  within \<open>2\<^sup>3\<^sup>0\<close> entries, as an abstract map of counts that starts at zero does: a failed allocation
  is the only reason for \<^verbatim>\<open>EXT2_ET_NO_MEMORY\<close>, a count of zero the only reason for \<^verbatim>\<open>EXT2_ET_INVALID_ARGUMENT\<close>.\<close>

theorem refcount_session_refines:
  assumes "ea_refcount_create mem sz = Inr rc" "(if sz = 0 then 500 else sz) + 100 * length cs \<le> 2 ^ 30"
  shows "\<exists>as rc'. rc_run fresh cs rc = Some (as, rc') \<and> rc_ok rc' \<and> counts_run cs (\<lambda>k. 0) as (cnt (live rc'))"
proof -
  have "sz \<le> 2 ^ 30" using assms(2) by (simp split: if_splits)
  then have "rc_ok rc" "cnt (live rc) = (\<lambda>k. 0)" "rc_size rc + 100 * length cs \<le> 2 ^ 30"
    using ea_refcount_create_spec [OF assms(1)] assms(2) by (auto simp: fun_eq_iff)
  then show ?thesis using rc_run_refines [of rc cs fresh] by simp
qed

theorem refcount_session_refines_witness:
  "\<exists>as rc'. rc_run (\<lambda>i. \<lparr>ea_key = 7, ea_value = 7\<rparr>)
        [(\<lambda>n. True, Increment 30), (\<lambda>n. True, Increment 10), (\<lambda>n. False, Increment 20), (\<lambda>n. True, Decrement 10), (\<lambda>n. True, Store 20 4)]
        \<lparr>rc_count = 0, rc_size = 2, rc_cursor = 0, rc_list = replicate 2 \<lparr>ea_key = 0, ea_value = 0\<rparr>\<rparr> = Some (as, rc') \<and> rc_ok rc' \<and>
      counts_run [(\<lambda>n. True, Increment 30), (\<lambda>n. True, Increment 10), (\<lambda>n. False, Increment 20), (\<lambda>n. True, Decrement 10), (\<lambda>n. True, Store 20 4)]
        (\<lambda>k. 0) as (cnt (live rc'))"
  by (rule refcount_session_refines [of "\<lambda>n. True" 2]) (simp_all add: ea_refcount_create_def)

text \<open>An iteration returns every key with a count that is not zero once, in increasing order and with its count, and then 0;
  it changes nothing but the cursor.\<close>

theorem refcount_iteration_complete:
  assumes "rc_ok rc"
  shows "\<exists>(es :: ea_refcount_el list) c. rc_nexts (Suc (length es)) (ea_refcount_intr_begin rc) =
           Some (map (\<lambda>e. (ea_key e, Some (ea_value e))) es @ [(0, None)], rc\<lparr>rc_cursor := c\<rparr>) \<and>
         sorted_wrt (<) (map ea_key es) \<and> ea_key ` set es = {k. cnt (live rc) k \<noteq> 0} \<and>
         (\<forall>e \<in> set es. ea_value e = cnt (live rc) (ea_key e))"
proof -
  let ?es = "filter nz (live rc)"
  have ks: "keys_sorted (live rc)" using assms by (simp add: rc_ok_def)
  have "\<exists>c. rc_nexts (Suc (length ?es)) (rc\<lparr>rc_cursor := 0\<rparr>) =
      Some (map (\<lambda>e. (ea_key e, Some (ea_value e))) ?es @ [(0, None)], rc\<lparr>rc_cursor := 0\<rparr>\<lparr>rc_cursor := c\<rparr>)"
    using assms by (intro rc_nexts_spec) simp_all
  then obtain c where "rc_nexts (Suc (length ?es)) (ea_refcount_intr_begin rc) =
      Some (map (\<lambda>e. (ea_key e, Some (ea_value e))) ?es @ [(0, None)], rc\<lparr>rc_cursor := c\<rparr>)"
    unfolding ea_refcount_intr_begin_def by auto
  moreover have "sorted_wrt (<) (map ea_key ?es)"
    using keys_sorted_filter [OF ks] by (simp add: keys_sorted_def sorted_wrt_map)
  moreover have val: "ea_value e = cnt (live rc) (ea_key e)" if "e \<in> set (live rc)" for e
    using that cnt_nth [OF ks] by (metis in_set_conv_nth)
  moreover have "ea_key ` set ?es = {k. cnt (live rc) k \<noteq> 0}"
    using val cnt_absent [of _ "live rc"] by (force simp: image_iff)
  moreover have "\<forall>e \<in> set ?es. ea_value e = cnt (live rc) (ea_key e)" using val by simp
  ultimately show ?thesis by (intro exI [of _ ?es] exI [of _ c] conjI)
qed

theorem refcount_iteration_complete_witness:
  "let rc = \<lparr>rc_count = 2, rc_size = 2, rc_cursor = 1, rc_list = [\<lparr>ea_key = 3, ea_value = 0\<rparr>, \<lparr>ea_key = 5, ea_value = 2\<rparr>]\<rparr> in
   \<exists>(es :: ea_refcount_el list) c. rc_nexts (Suc (length es)) (ea_refcount_intr_begin rc) =
           Some (map (\<lambda>e. (ea_key e, Some (ea_value e))) es @ [(0, None)], rc\<lparr>rc_cursor := c\<rparr>) \<and>
         sorted_wrt (<) (map ea_key es) \<and> ea_key ` set es = {k. cnt (live rc) k \<noteq> 0} \<and>
         (\<forall>e \<in> set es. ea_value e = cnt (live rc) (ea_key e))"
  unfolding Let_def by (rule refcount_iteration_complete) (simp add: rc_ok_def live_def)

end
