(* ===== verification/Fs_Struct.thy ===== *)
theory Fs_Struct
  imports Prelude
begin

unbundle bit_operations_syntax

text \<open>
  The structures of a file system in memory: the superblock and the inode of \<^verbatim>\<open>lib/ext2fs/ext2_fs.h\<close>, and the handle of
  \<^verbatim>\<open>lib/ext2fs/ext2fs.h\<close>, with the fields the modelled functions use, at their width. Group descriptors stay the byte array they
  are in memory, since their size is a field of the superblock; fields are read and written at byte offsets, in the order of a
  little-endian host.
\<close>

type_synonym u16 = "16 word"
type_synonym w64 = "64 word"

abbreviation EXT2_ET_FILE_TOO_BIG :: errcode where "EXT2_ET_FILE_TOO_BIG \<equiv> 2133571410"
abbreviation EOVERFLOW :: errcode where "EOVERFLOW \<equiv> 75"

section \<open>Superblock\<close>

record ext2_super_block =
  s_inodes_count :: u32
  s_blocks_count :: u32
  s_r_blocks_count :: u32
  s_free_blocks_count :: u32
  s_free_inodes_count :: u32
  s_first_data_block :: u32
  s_log_block_size :: u32
  s_log_cluster_size :: u32
  s_blocks_per_group :: u32
  s_inodes_per_group :: u32
  s_rev_level :: u32
  s_first_ino :: u32
  s_inode_size :: u16
  s_feature_compat :: u32
  s_feature_incompat :: u32
  s_feature_ro_compat :: u32
  s_uuid :: "u8 list"
  s_reserved_gdt_blocks :: u16
  s_desc_size :: u16
  s_first_meta_bg :: u32
  s_blocks_count_hi :: u32
  s_r_blocks_count_hi :: u32
  s_free_blocks_hi :: u32
  s_checksum_type :: u8
  s_backup_bgs :: "u32 \<times> u32"
  s_checksum_seed :: u32

definition ext2fs_has_feature_64bit :: "ext2_super_block \<Rightarrow> bool" where
  "ext2fs_has_feature_64bit sb \<longleftrightarrow> s_feature_incompat sb AND 0x80 \<noteq> 0"

definition ext2fs_has_feature_meta_bg :: "ext2_super_block \<Rightarrow> bool" where
  "ext2fs_has_feature_meta_bg sb \<longleftrightarrow> s_feature_incompat sb AND 0x10 \<noteq> 0"

definition ext2fs_has_feature_huge_file :: "ext2_super_block \<Rightarrow> bool" where
  "ext2fs_has_feature_huge_file sb \<longleftrightarrow> s_feature_ro_compat sb AND 0x8 \<noteq> 0"

definition ext2fs_has_feature_large_file :: "ext2_super_block \<Rightarrow> bool" where
  "ext2fs_has_feature_large_file sb \<longleftrightarrow> s_feature_ro_compat sb AND 0x2 \<noteq> 0"

definition ext2fs_set_feature_large_file :: "ext2_super_block \<Rightarrow> ext2_super_block" where
  "ext2fs_set_feature_large_file sb = sb\<lparr>s_feature_ro_compat := s_feature_ro_compat sb OR 0x2\<rparr>"

definition ext2fs_has_feature_sparse_super :: "ext2_super_block \<Rightarrow> bool" where
  "ext2fs_has_feature_sparse_super sb \<longleftrightarrow> s_feature_ro_compat sb AND 0x1 \<noteq> 0"

definition ext2fs_has_feature_sparse_super2 :: "ext2_super_block \<Rightarrow> bool" where
  "ext2fs_has_feature_sparse_super2 sb \<longleftrightarrow> s_feature_compat sb AND 0x200 \<noteq> 0"

text \<open>The shifts \<^verbatim>\<open>1024 << n\<close> are on \<^verbatim>\<open>int\<close>: they are undefined when the result does not fit.\<close>

definition EXT2_BLOCK_SIZE :: "ext2_super_block \<Rightarrow> nat option" where
  "EXT2_BLOCK_SIZE sb = (if s_log_block_size sb \<le> 20 then Some (1024 * 2 ^ unat (s_log_block_size sb)) else None)"

definition EXT2_CLUSTER_SIZE :: "ext2_super_block \<Rightarrow> nat option" where
  "EXT2_CLUSTER_SIZE sb = (if s_log_cluster_size sb \<le> 20 then Some (1024 * 2 ^ unat (s_log_cluster_size sb)) else None)"

definition EXT2_DESC_SIZE :: "ext2_super_block \<Rightarrow> nat" where
  "EXT2_DESC_SIZE sb = (if s_feature_incompat sb AND 0x80 \<noteq> 0 then unat (s_desc_size sb) else 32)"

definition EXT2_DESC_PER_BLOCK :: "ext2_super_block \<Rightarrow> nat option" where
  "EXT2_DESC_PER_BLOCK sb =
     do { bs \<leftarrow> EXT2_BLOCK_SIZE sb; if EXT2_DESC_SIZE sb = 0 then None else Some (bs div EXT2_DESC_SIZE sb) }"

section \<open>Inode\<close>

record ext2_inode =
  i_mode :: u16
  i_size :: u32
  i_blocks :: u32
  i_flags :: u32
  i_block :: "u32 list"
  i_file_acl :: u32
  i_size_high :: u32
  l_i_blocks_hi :: u16
  l_i_file_acl_high :: u16

abbreviation (input) LINUX_S_IFMT :: u16 where "LINUX_S_IFMT \<equiv> 0xF000"

definition LINUX_S_ISLNK :: "u16 \<Rightarrow> bool" where "LINUX_S_ISLNK m \<longleftrightarrow> m AND LINUX_S_IFMT = 0xA000"
definition LINUX_S_ISREG :: "u16 \<Rightarrow> bool" where "LINUX_S_ISREG m \<longleftrightarrow> m AND LINUX_S_IFMT = 0x8000"
definition LINUX_S_ISDIR :: "u16 \<Rightarrow> bool" where "LINUX_S_ISDIR m \<longleftrightarrow> m AND LINUX_S_IFMT = 0x4000"

definition ext2fs_needs_large_file_feature :: "w64 \<Rightarrow> bool" where
  "ext2fs_needs_large_file_feature sz \<longleftrightarrow> sz \<ge> 0x80000000"

section \<open>The handle\<close>

record ext2_filsys =
  fs_super :: ext2_super_block
  fs_flags :: u32
  fs_blocksize :: u32
  fs_group_desc_count :: u32
  fs_desc_blocks :: w64
  fs_group_desc :: "u8 list"
  fs_inode_blocks_per_group :: u32
  fs_cluster_ratio_bits :: nat
  fs_csum_seed :: u32

definition EXT2FS_CLUSTER_RATIO :: "ext2_filsys \<Rightarrow> nat option" where
  "EXT2FS_CLUSTER_RATIO fs = (if fs_cluster_ratio_bits fs < 31 then Some (2 ^ fs_cluster_ratio_bits fs) else None)"

definition ext2fs_mark_super_dirty :: "ext2_filsys \<Rightarrow> ext2_filsys" where
  "ext2fs_mark_super_dirty fs = fs\<lparr>fs_flags := fs_flags fs OR 0x06\<rparr>"

section \<open>Fields in a byte array\<close>

definition rd16 :: "u8 list \<Rightarrow> nat \<Rightarrow> u16 option" where
  "rd16 m p = do { a \<leftarrow> rd m p; b \<leftarrow> rd m (p + 1); Some (ucast a OR push_bit 8 (ucast b)) }"

definition wr16 :: "u8 list \<Rightarrow> nat \<Rightarrow> u16 \<Rightarrow> u8 list option" where
  "wr16 m p v = do { m1 \<leftarrow> wr m p (ucast v); wr m1 (p + 1) (ucast (drop_bit 8 v)) }"

definition rd32 :: "u8 list \<Rightarrow> nat \<Rightarrow> u32 option" where
  "rd32 m p = do { a \<leftarrow> rd16 m p; b \<leftarrow> rd16 m (p + 2); Some (ucast a OR push_bit 16 (ucast b)) }"

definition wr32 :: "u8 list \<Rightarrow> nat \<Rightarrow> u32 \<Rightarrow> u8 list option" where
  "wr32 m p v = do { m1 \<leftarrow> wr16 m p (ucast v); wr16 m1 (p + 2) (ucast (drop_bit 16 v)) }"

text \<open>Joining and splitting words.\<close>

lemma join_split_16: "(ucast (ucast v :: u8) :: u16) OR push_bit 8 (ucast (ucast (drop_bit 8 v) :: u8)) = v" for v :: u16
  by (rule bit_word_eqI) (auto simp: bit_simps not_less)

lemma join_split_32: "(ucast (ucast v :: u16) :: u32) OR push_bit 16 (ucast (ucast (drop_bit 16 v) :: u16)) = v" for v :: u32
  by (rule bit_word_eqI) (auto simp: bit_simps not_less)

lemma join_split_64: "(ucast (ucast v :: u32) :: w64) OR push_bit 32 (ucast (ucast (drop_bit 32 v) :: u32)) = v" for v :: w64
  by (rule bit_word_eqI) (auto simp: bit_simps not_less)

lemma low_half_64: "(ucast (ucast v :: u32) :: w64) = v AND mask 32" for v :: w64
  by (rule bit_word_eqI) (auto simp: bit_simps)

lemma low_half_32: "(ucast (ucast v :: u16) :: u32) = v AND mask 16" for v :: u32
  by (rule bit_word_eqI) (auto simp: bit_simps)

text \<open>What a write leaves alone: everything but the cells of a set.\<close>

definition same_except :: "nat set \<Rightarrow> 'a list \<Rightarrow> 'a list \<Rightarrow> bool" where
  "same_except S m m' \<longleftrightarrow> length m' = length m \<and> (\<forall>q. q \<notin> S \<longrightarrow> m' ! q = m ! q)"

lemma same_except_trans: "same_except S m m1 \<Longrightarrow> same_except T m1 m2 \<Longrightarrow> same_except (S \<union> T) m m2"
  by (auto simp: same_except_def)

lemma same_except_mono: "same_except S m m' \<Longrightarrow> S \<subseteq> T \<Longrightarrow> same_except T m m'"
  by (auto simp: same_except_def)

lemma rd16_frame: "same_except S m m' \<Longrightarrow> S \<inter> {p..<p + 2} = {} \<Longrightarrow> rd16 m' p = rd16 m p"
proof -
  assume s: "same_except S m m'" and d: "S \<inter> {p..<p + 2} = {}"
  have "p \<in> {p..<p + 2}" "p + 1 \<in> {p..<p + 2}" by simp_all
  then have "p \<notin> S" "p + 1 \<notin> S" using d by blast+
  then show ?thesis using s by (simp add: rd16_def rd_def same_except_def)
qed

lemma rd32_frame: "same_except S m m' \<Longrightarrow> S \<inter> {p..<p + 4} = {} \<Longrightarrow> rd32 m' p = rd32 m p"
proof -
  assume s: "same_except S m m'" and d: "S \<inter> {p..<p + 4} = {}"
  have "{p..<p + 2} \<subseteq> {p..<p + 4}" "{p + 2..<p + 2 + 2} \<subseteq> {p..<p + 4}" by auto
  then have "S \<inter> {p..<p + 2} = {}" "S \<inter> {p + 2..<p + 2 + 2} = {}" using d by blast+
  then show ?thesis using s unfolding rd32_def by (simp add: rd16_frame)
qed

lemma wr16_spec:
  assumes "p + 2 \<le> length m"
  obtains m' where "wr16 m p v = Some m'" "rd16 m' p = Some v" "same_except {p..<p + 2} m m'"
  using assms join_split_16 [of v] by (auto simp: wr16_def rd16_def rd_def wr_def same_except_def nth_list_update)

lemma wr32_spec:
  assumes "p + 4 \<le> length m"
  obtains m' where "wr32 m p v = Some m'" "rd32 m' p = Some v" "same_except {p..<p + 4} m m'"
proof -
  obtain m1 where 1: "wr16 m p (ucast v) = Some m1" "rd16 m1 p = Some (ucast v)" "same_except {p..<p + 2} m m1"
    using assms wr16_spec [of p m "ucast v"] by auto
  then have l: "p + 2 + 2 \<le> length m1" using assms by (simp add: same_except_def)
  obtain m2 where 2: "wr16 m1 (p + 2) (ucast (drop_bit 16 v)) = Some m2" "rd16 m2 (p + 2) = Some (ucast (drop_bit 16 v))"
      "same_except {p + 2..<p + 2 + 2} m1 m2"
    using wr16_spec [OF l, of "ucast (drop_bit 16 v)"] by auto
  have "rd16 m2 p = Some (ucast v)" using rd16_frame [OF 2(3), of p] 1(2) by auto
  then have "rd32 m2 p = Some v" using 2(2) join_split_32 [of v] by (simp add: rd32_def)
  moreover have "{p..<p + 2} \<union> {p + 2..<p + 2 + 2} \<subseteq> {p..<p + 4}" by auto
  then have "same_except {p..<p + 4} m m2" using same_except_mono [OF same_except_trans [OF 1(3) 2(3)]] by blast
  ultimately show thesis using that 1(1) 2(1) by (simp add: wr32_def)
qed

end
