(* ===== verification/Blknum.thy ===== *)
theory Blknum
  imports Fs_Struct
begin

text \<open>
  Block numbers and counts, \<^verbatim>\<open>lib/ext2fs/blknum.c\<close>: the geometry of the block groups, the 64-bit counts of the superblock, the
  fields of the grp descriptors, and the block and size fields of an inode. A division by a zero field of the superblock and an access
  outside the array of descriptors are \<open>None\<close>.
\<close>

section \<open>Group geometry\<close>

definition ext2fs_blocks_count :: "ext2_super_block \<Rightarrow> w64" where
  "ext2fs_blocks_count sb =
     ucast (s_blocks_count sb) OR (if ext2fs_has_feature_64bit sb then push_bit 32 (ucast (s_blocks_count_hi sb)) else 0)"

definition ext2fs_group_of_blk2 :: "ext2_filsys \<Rightarrow> w64 \<Rightarrow> u32 option" where
  "ext2fs_group_of_blk2 fs blk =
     (if s_blocks_per_group (fs_super fs) = 0 then None
      else Some (ucast ((blk - ucast (s_first_data_block (fs_super fs))) div ucast (s_blocks_per_group (fs_super fs)))))"

definition ext2fs_group_first_block2 :: "ext2_filsys \<Rightarrow> u32 \<Rightarrow> w64" where
  "ext2fs_group_first_block2 fs grp =
     ucast (s_first_data_block (fs_super fs)) + ucast (s_blocks_per_group (fs_super fs)) * ucast grp"

definition ext2fs_group_last_block2 :: "ext2_filsys \<Rightarrow> u32 \<Rightarrow> w64" where
  "ext2fs_group_last_block2 fs grp =
     (if grp = fs_group_desc_count fs - 1 then ext2fs_blocks_count (fs_super fs) - 1
      else ext2fs_group_first_block2 fs grp + ucast (s_blocks_per_group (fs_super fs) - 1))"

definition ext2fs_group_blocks_count :: "ext2_filsys \<Rightarrow> u32 \<Rightarrow> u32 option" where
  "ext2fs_group_blocks_count fs grp =
     (let sb = fs_super fs in
      if grp = fs_group_desc_count fs - 1 then
        (if s_blocks_per_group sb = 0 then None
         else let num_blocks = ucast ((ext2fs_blocks_count sb - ucast (s_first_data_block sb)) mod ucast (s_blocks_per_group sb))
              in Some (if num_blocks = 0 then s_blocks_per_group sb else num_blocks))
      else Some (s_blocks_per_group sb))"

section \<open>Counts of the superblock and block counts of an inode\<close>

definition ext2fs_inode_i_blocks :: "ext2_filsys \<Rightarrow> ext2_inode \<Rightarrow> w64" where
  "ext2fs_inode_i_blocks fs inode =
     ucast (i_blocks inode) OR (if ext2fs_has_feature_huge_file (fs_super fs) then push_bit 32 (ucast (l_i_blocks_hi inode)) else 0)"

definition ext2fs_inode_data_blocks2 :: "ext2_filsys \<Rightarrow> ext2_inode \<Rightarrow> w64 option" where
  "ext2fs_inode_data_blocks2 fs inode =
     do { acl \<leftarrow> (if i_file_acl inode \<noteq> 0 then map_option (\<lambda>c. c div 2 ^ 9) (EXT2_CLUSTER_SIZE (fs_super fs)) else Some 0);
          Some ((ucast (i_blocks inode) OR
                 (if ext2fs_has_feature_huge_file (fs_super fs) then push_bit 32 (ucast (l_i_blocks_hi inode)) else 0))
                - of_nat acl) }"

definition ext2fs_blocks_count_set :: "ext2_super_block \<Rightarrow> w64 \<Rightarrow> ext2_super_block" where
  "ext2fs_blocks_count_set sb blk =
     (let sb1 = sb\<lparr>s_blocks_count := ucast blk\<rparr> in
      if ext2fs_has_feature_64bit sb1 then sb1\<lparr>s_blocks_count_hi := ucast (drop_bit 32 blk)\<rparr> else sb1)"

definition ext2fs_blocks_count_add :: "ext2_super_block \<Rightarrow> w64 \<Rightarrow> ext2_super_block" where
  "ext2fs_blocks_count_add sb blk = ext2fs_blocks_count_set sb (ext2fs_blocks_count sb + blk)"

definition ext2fs_r_blocks_count :: "ext2_super_block \<Rightarrow> w64" where
  "ext2fs_r_blocks_count sb =
     ucast (s_r_blocks_count sb) OR (if ext2fs_has_feature_64bit sb then push_bit 32 (ucast (s_r_blocks_count_hi sb)) else 0)"

definition ext2fs_r_blocks_count_set :: "ext2_super_block \<Rightarrow> w64 \<Rightarrow> ext2_super_block" where
  "ext2fs_r_blocks_count_set sb blk =
     (let sb1 = sb\<lparr>s_r_blocks_count := ucast blk\<rparr> in
      if ext2fs_has_feature_64bit sb1 then sb1\<lparr>s_r_blocks_count_hi := ucast (drop_bit 32 blk)\<rparr> else sb1)"

definition ext2fs_r_blocks_count_add :: "ext2_super_block \<Rightarrow> w64 \<Rightarrow> ext2_super_block" where
  "ext2fs_r_blocks_count_add sb blk = ext2fs_r_blocks_count_set sb (ext2fs_r_blocks_count sb + blk)"

definition ext2fs_free_blocks_count :: "ext2_super_block \<Rightarrow> w64" where
  "ext2fs_free_blocks_count sb =
     ucast (s_free_blocks_count sb) OR (if ext2fs_has_feature_64bit sb then push_bit 32 (ucast (s_free_blocks_hi sb)) else 0)"

definition ext2fs_free_blocks_count_set :: "ext2_super_block \<Rightarrow> w64 \<Rightarrow> ext2_super_block" where
  "ext2fs_free_blocks_count_set sb blk =
     (let sb1 = sb\<lparr>s_free_blocks_count := ucast blk\<rparr> in
      if ext2fs_has_feature_64bit sb1 then sb1\<lparr>s_free_blocks_hi := ucast (drop_bit 32 blk)\<rparr> else sb1)"

definition ext2fs_free_blocks_count_add :: "ext2_super_block \<Rightarrow> w64 \<Rightarrow> ext2_super_block" where
  "ext2fs_free_blocks_count_add sb blk = ext2fs_free_blocks_count_set sb (ext2fs_free_blocks_count sb + blk)"

section \<open>Group descriptors\<close>

text \<open>The pointer to a descriptor is its byte offset; \<^verbatim>\<open>group * desc_size\<close> is a 32-bit product.\<close>

definition ext2fs_group_desc :: "ext2_filsys \<Rightarrow> u32 \<Rightarrow> nat" where
  "ext2fs_group_desc fs grp =
     (let desc_size = EXT2_DESC_SIZE (fs_super fs) - EXT2_DESC_SIZE (fs_super fs) mod 8 in (unat grp * desc_size) mod 2 ^ 32)"

text \<open>
  A field in two halves, at byte offsets \<open>lo\<close> and \<open>hi\<close> of a descriptor: the high half exists on a 64-bit file system only. The getters
  and setters of the code differ in the fields and in the width of the halves.
\<close>

definition get_halves32 :: "ext2_filsys \<Rightarrow> u32 \<Rightarrow> nat \<Rightarrow> nat \<Rightarrow> w64 option" where
  "get_halves32 fs grp lo hi =
     (let gdp = ext2fs_group_desc fs grp in
      do { l \<leftarrow> rd32 (fs_group_desc fs) (gdp + lo);
           h \<leftarrow> (if ext2fs_has_feature_64bit (fs_super fs)
                  then map_option (\<lambda>v. push_bit 32 (ucast v)) (rd32 (fs_group_desc fs) (gdp + hi)) else Some 0);
           Some (ucast l OR h) })"

definition set_halves32 :: "ext2_filsys \<Rightarrow> u32 \<Rightarrow> nat \<Rightarrow> nat \<Rightarrow> w64 \<Rightarrow> ext2_filsys option" where
  "set_halves32 fs grp lo hi v =
     (let gdp = ext2fs_group_desc fs grp in
      do { m \<leftarrow> wr32 (fs_group_desc fs) (gdp + lo) (ucast v);
           m' \<leftarrow> (if ext2fs_has_feature_64bit (fs_super fs) then wr32 m (gdp + hi) (ucast (drop_bit 32 v)) else Some m);
           Some (fs\<lparr>fs_group_desc := m'\<rparr>) })"

definition get_halves16 :: "ext2_filsys \<Rightarrow> u32 \<Rightarrow> nat \<Rightarrow> nat \<Rightarrow> u32 option" where
  "get_halves16 fs grp lo hi =
     (let gdp = ext2fs_group_desc fs grp in
      do { l \<leftarrow> rd16 (fs_group_desc fs) (gdp + lo);
           h \<leftarrow> (if ext2fs_has_feature_64bit (fs_super fs)
                  then map_option (\<lambda>v. push_bit 16 (ucast v)) (rd16 (fs_group_desc fs) (gdp + hi)) else Some 0);
           Some (ucast l OR h) })"

definition set_halves16 :: "ext2_filsys \<Rightarrow> u32 \<Rightarrow> nat \<Rightarrow> nat \<Rightarrow> u32 \<Rightarrow> ext2_filsys option" where
  "set_halves16 fs grp lo hi v =
     (let gdp = ext2fs_group_desc fs grp in
      do { m \<leftarrow> wr16 (fs_group_desc fs) (gdp + lo) (ucast v);
           m' \<leftarrow> (if ext2fs_has_feature_64bit (fs_super fs) then wr16 m (gdp + hi) (ucast (drop_bit 16 v)) else Some m);
           Some (fs\<lparr>fs_group_desc := m'\<rparr>) })"

text \<open>The offsets of \<^verbatim>\<open>struct ext4_group_desc\<close>.\<close>

abbreviation (input) "bg_block_bitmap \<equiv> 0 :: nat"
abbreviation (input) "bg_inode_bitmap \<equiv> 4 :: nat"
abbreviation (input) "bg_inode_table \<equiv> 8 :: nat"
abbreviation (input) "bg_free_blocks_count \<equiv> 12 :: nat"
abbreviation (input) "bg_free_inodes_count \<equiv> 14 :: nat"
abbreviation (input) "bg_used_dirs_count \<equiv> 16 :: nat"
abbreviation (input) "bg_flags \<equiv> 18 :: nat"
abbreviation (input) "bg_block_bitmap_csum_lo \<equiv> 24 :: nat"
abbreviation (input) "bg_inode_bitmap_csum_lo \<equiv> 26 :: nat"
abbreviation (input) "bg_itable_unused \<equiv> 28 :: nat"
abbreviation (input) "bg_checksum \<equiv> 30 :: nat"
abbreviation (input) "bg_block_bitmap_hi \<equiv> 32 :: nat"
abbreviation (input) "bg_inode_bitmap_hi \<equiv> 36 :: nat"
abbreviation (input) "bg_inode_table_hi \<equiv> 40 :: nat"
abbreviation (input) "bg_free_blocks_count_hi \<equiv> 44 :: nat"
abbreviation (input) "bg_free_inodes_count_hi \<equiv> 46 :: nat"
abbreviation (input) "bg_used_dirs_count_hi \<equiv> 48 :: nat"
abbreviation (input) "bg_itable_unused_hi \<equiv> 50 :: nat"
abbreviation (input) "bg_block_bitmap_csum_hi \<equiv> 56 :: nat"
abbreviation (input) "bg_inode_bitmap_csum_hi \<equiv> 58 :: nat"

text \<open>The checksums take their high half when the descriptor size of the superblock says there is one.\<close>

definition ext2fs_block_bitmap_checksum :: "ext2_filsys \<Rightarrow> u32 \<Rightarrow> u32 option" where
  "ext2fs_block_bitmap_checksum fs grp =
     (let gdp = ext2fs_group_desc fs grp in
      do { csum \<leftarrow> rd16 (fs_group_desc fs) (gdp + bg_block_bitmap_csum_lo);
           if s_desc_size (fs_super fs) \<ge> of_nat (bg_block_bitmap_csum_hi + 2)
           then do { h \<leftarrow> rd16 (fs_group_desc fs) (gdp + bg_block_bitmap_csum_hi); Some (ucast csum OR push_bit 16 (ucast h)) }
           else Some (ucast csum) })"

definition ext2fs_block_bitmap_loc :: "ext2_filsys \<Rightarrow> u32 \<Rightarrow> w64 option" where
  "ext2fs_block_bitmap_loc fs grp = get_halves32 fs grp bg_block_bitmap bg_block_bitmap_hi"

definition ext2fs_block_bitmap_loc_set :: "ext2_filsys \<Rightarrow> u32 \<Rightarrow> w64 \<Rightarrow> ext2_filsys option" where
  "ext2fs_block_bitmap_loc_set fs grp blk = set_halves32 fs grp bg_block_bitmap bg_block_bitmap_hi blk"

definition ext2fs_inode_bitmap_checksum :: "ext2_filsys \<Rightarrow> u32 \<Rightarrow> u32 option" where
  "ext2fs_inode_bitmap_checksum fs grp =
     (let gdp = ext2fs_group_desc fs grp in
      do { csum \<leftarrow> rd16 (fs_group_desc fs) (gdp + bg_inode_bitmap_csum_lo);
           if s_desc_size (fs_super fs) \<ge> of_nat (bg_inode_bitmap_csum_hi + 2)
           then do { h \<leftarrow> rd16 (fs_group_desc fs) (gdp + bg_inode_bitmap_csum_hi); Some (ucast csum OR push_bit 16 (ucast h)) }
           else Some (ucast csum) })"

definition ext2fs_inode_bitmap_loc :: "ext2_filsys \<Rightarrow> u32 \<Rightarrow> w64 option" where
  "ext2fs_inode_bitmap_loc fs grp = get_halves32 fs grp bg_inode_bitmap bg_inode_bitmap_hi"

definition ext2fs_inode_bitmap_loc_set :: "ext2_filsys \<Rightarrow> u32 \<Rightarrow> w64 \<Rightarrow> ext2_filsys option" where
  "ext2fs_inode_bitmap_loc_set fs grp blk = set_halves32 fs grp bg_inode_bitmap bg_inode_bitmap_hi blk"

definition ext2fs_inode_table_loc :: "ext2_filsys \<Rightarrow> u32 \<Rightarrow> w64 option" where
  "ext2fs_inode_table_loc fs grp = get_halves32 fs grp bg_inode_table bg_inode_table_hi"

definition ext2fs_inode_table_loc_set :: "ext2_filsys \<Rightarrow> u32 \<Rightarrow> w64 \<Rightarrow> ext2_filsys option" where
  "ext2fs_inode_table_loc_set fs grp blk = set_halves32 fs grp bg_inode_table bg_inode_table_hi blk"

definition ext2fs_bg_free_blocks_count :: "ext2_filsys \<Rightarrow> u32 \<Rightarrow> u32 option" where
  "ext2fs_bg_free_blocks_count fs grp = get_halves16 fs grp bg_free_blocks_count bg_free_blocks_count_hi"

definition ext2fs_bg_free_blocks_count_set :: "ext2_filsys \<Rightarrow> u32 \<Rightarrow> u32 \<Rightarrow> ext2_filsys option" where
  "ext2fs_bg_free_blocks_count_set fs grp n = set_halves16 fs grp bg_free_blocks_count bg_free_blocks_count_hi n"

definition ext2fs_bg_free_inodes_count :: "ext2_filsys \<Rightarrow> u32 \<Rightarrow> u32 option" where
  "ext2fs_bg_free_inodes_count fs grp = get_halves16 fs grp bg_free_inodes_count bg_free_inodes_count_hi"

definition ext2fs_bg_free_inodes_count_set :: "ext2_filsys \<Rightarrow> u32 \<Rightarrow> u32 \<Rightarrow> ext2_filsys option" where
  "ext2fs_bg_free_inodes_count_set fs grp n = set_halves16 fs grp bg_free_inodes_count bg_free_inodes_count_hi n"

definition ext2fs_bg_used_dirs_count :: "ext2_filsys \<Rightarrow> u32 \<Rightarrow> u32 option" where
  "ext2fs_bg_used_dirs_count fs grp = get_halves16 fs grp bg_used_dirs_count bg_used_dirs_count_hi"

definition ext2fs_bg_used_dirs_count_set :: "ext2_filsys \<Rightarrow> u32 \<Rightarrow> u32 \<Rightarrow> ext2_filsys option" where
  "ext2fs_bg_used_dirs_count_set fs grp n = set_halves16 fs grp bg_used_dirs_count bg_used_dirs_count_hi n"

definition ext2fs_bg_itable_unused :: "ext2_filsys \<Rightarrow> u32 \<Rightarrow> u32 option" where
  "ext2fs_bg_itable_unused fs grp = get_halves16 fs grp bg_itable_unused bg_itable_unused_hi"

definition ext2fs_bg_itable_unused_set :: "ext2_filsys \<Rightarrow> u32 \<Rightarrow> u32 \<Rightarrow> ext2_filsys option" where
  "ext2fs_bg_itable_unused_set fs grp n = set_halves16 fs grp bg_itable_unused bg_itable_unused_hi n"

definition ext2fs_bg_flags :: "ext2_filsys \<Rightarrow> u32 \<Rightarrow> u16 option" where
  "ext2fs_bg_flags fs grp = rd16 (fs_group_desc fs) (ext2fs_group_desc fs grp + bg_flags)"

definition put_field16 :: "ext2_filsys \<Rightarrow> nat \<Rightarrow> u16 \<Rightarrow> ext2_filsys option" where
  "put_field16 fs p v = map_option (\<lambda>m. fs\<lparr>fs_group_desc := m\<rparr>) (wr16 (fs_group_desc fs) p v)"

definition ext2fs_bg_flags_zap :: "ext2_filsys \<Rightarrow> u32 \<Rightarrow> ext2_filsys option" where
  "ext2fs_bg_flags_zap fs grp = put_field16 fs (ext2fs_group_desc fs grp + bg_flags) 0"

definition ext2fs_bg_flags_test :: "ext2_filsys \<Rightarrow> u32 \<Rightarrow> u16 \<Rightarrow> u16 option" where
  "ext2fs_bg_flags_test fs grp bg_flag =
     map_option (\<lambda>v. v AND bg_flag) (rd16 (fs_group_desc fs) (ext2fs_group_desc fs grp + bg_flags))"

definition ext2fs_bg_flags_set :: "ext2_filsys \<Rightarrow> u32 \<Rightarrow> u16 \<Rightarrow> ext2_filsys option" where
  "ext2fs_bg_flags_set fs grp flags =
     (let p = ext2fs_group_desc fs grp + bg_flags in
      do { v \<leftarrow> rd16 (fs_group_desc fs) p; put_field16 fs p (v OR flags) })"

definition ext2fs_bg_flags_clear :: "ext2_filsys \<Rightarrow> u32 \<Rightarrow> u16 \<Rightarrow> ext2_filsys option" where
  "ext2fs_bg_flags_clear fs grp flags =
     (let p = ext2fs_group_desc fs grp + bg_flags in
      do { v \<leftarrow> rd16 (fs_group_desc fs) p; put_field16 fs p (v AND NOT flags) })"

definition ext2fs_bg_checksum :: "ext2_filsys \<Rightarrow> u32 \<Rightarrow> u16 option" where
  "ext2fs_bg_checksum fs grp = rd16 (fs_group_desc fs) (ext2fs_group_desc fs grp + bg_checksum)"

definition ext2fs_bg_checksum_set :: "ext2_filsys \<Rightarrow> u32 \<Rightarrow> u16 \<Rightarrow> ext2_filsys option" where
  "ext2fs_bg_checksum_set fs grp checksum = put_field16 fs (ext2fs_group_desc fs grp + bg_checksum) checksum"

section \<open>Inode fields\<close>

text \<open>The file system may be missing.\<close>

definition ext2fs_file_acl_block :: "ext2_filsys option \<Rightarrow> ext2_inode \<Rightarrow> w64" where
  "ext2fs_file_acl_block fs inode =
     (case fs of
        Some f \<Rightarrow> if ext2fs_has_feature_64bit (fs_super f)
                  then ucast (i_file_acl inode) OR push_bit 32 (ucast (l_i_file_acl_high inode)) else ucast (i_file_acl inode)
      | None \<Rightarrow> ucast (i_file_acl inode))"

definition ext2fs_file_acl_block_set :: "ext2_filsys option \<Rightarrow> ext2_inode \<Rightarrow> w64 \<Rightarrow> ext2_inode" where
  "ext2fs_file_acl_block_set fs inode blk =
     (let inode1 = inode\<lparr>i_file_acl := ucast blk\<rparr> in
      case fs of
        Some f \<Rightarrow> if ext2fs_has_feature_64bit (fs_super f) then inode1\<lparr>l_i_file_acl_high := ucast (drop_bit 32 blk)\<rparr> else inode1
      | None \<Rightarrow> inode1)"

definition ext2fs_update_dynamic_rev :: "ext2_filsys \<Rightarrow> ext2_filsys" where
  "ext2fs_update_dynamic_rev fs =
     (if s_rev_level (fs_super fs) > 0 then fs
      else fs\<lparr>fs_super := (fs_super fs)\<lparr>s_rev_level := 1, s_first_ino := 11, s_inode_size := 128\<rparr>\<rparr>)"

definition ext2fs_inode_size_set :: "ext2_filsys \<Rightarrow> ext2_inode \<Rightarrow> w64 \<Rightarrow> errcode \<times> ext2_filsys \<times> ext2_inode" where
  "ext2fs_inode_size_set fs inode sz =
     (if \<not> LINUX_S_ISREG (i_mode inode) \<and> drop_bit 32 sz \<noteq> 0 then (EXT2_ET_FILE_TOO_BIG, fs, inode)
      else
        let fs1 = (if LINUX_S_ISREG (i_mode inode) \<and> ext2fs_needs_large_file_feature sz \<and>
                      (\<not> ext2fs_has_feature_large_file (fs_super fs) \<or> s_rev_level (fs_super fs) = 0)
                   then ext2fs_mark_super_dirty
                          (ext2fs_update_dynamic_rev (fs\<lparr>fs_super := ext2fs_set_feature_large_file (fs_super fs)\<rparr>))
                   else fs)
        in (0, fs1, inode\<lparr>i_size := ucast (sz AND 0xffffffff), i_size_high := ucast (drop_bit 32 sz)\<rparr>))"

end
