(* ===== verification/Blknum_Geometry.thy ===== *)
theory Blknum_Geometry
  imports Blknum
begin

text \<open>
  The geometry functions of \<^verbatim>\<open>lib/ext2fs/blknum.c\<close> describe one partition of the data blocks into groups, and the 64-bit counts
  of the superblock and the fields of an inode come back as they were stored.
\<close>

section \<open>Words\<close>

lemma unat_up_32 [simp]: "unat (ucast x :: w64) = unat x" for x :: u32
  by (simp add: unsigned_ucast_eq take_bit_nat_eq_self_iff) (use unsigned_less [of x, where 'a = nat] in simp)

lemma unat_down_32: "unat (ucast x :: u32) = unat x mod 2 ^ 32" for x :: w64
  by (simp add: unsigned_ucast_eq take_bit_eq_mod)

lemma unat_lt_32: "unat x < 2 ^ 32" for x :: u32
  using unsigned_less [of x, where 'a = nat] by simp

lemma unat_lt_64: "unat x < 2 ^ 64" for x :: w64
  using unsigned_less [of x, where 'a = nat] by simp

section \<open>Groups\<close>

definition first_data :: "ext2_filsys \<Rightarrow> nat" where "first_data fs = unat (s_first_data_block (fs_super fs))"
definition per_group :: "ext2_filsys \<Rightarrow> nat" where "per_group fs = unat (s_blocks_per_group (fs_super fs))"
definition n_blocks :: "ext2_filsys \<Rightarrow> nat" where "n_blocks fs = unat (ext2fs_blocks_count (fs_super fs))"
definition n_groups :: "ext2_filsys \<Rightarrow> nat" where "n_groups fs = unat (fs_group_desc_count fs)"

text \<open>The handle of an open file system: the number of groups is the number of blocks after the first data block, rounded up.\<close>

definition geometry_ok :: "ext2_filsys \<Rightarrow> bool" where
  "geometry_ok fs \<longleftrightarrow>
     0 < per_group fs \<and> first_data fs < n_blocks fs \<and>
     n_groups fs = (n_blocks fs - first_data fs + per_group fs - 1) div per_group fs"

lemma ceil_div_bounds:
  assumes "0 < (b::nat)" "0 < n" "g = (n + b - 1) div b"
  shows "0 < g" "b * (g - 1) < n" "n \<le> b * g"
proof -
  have m: "g * b + (n + b - 1) mod b = n + b - 1" using assms(3) by (metis div_mult_mod_eq)
  have l: "(n + b - 1) mod b < b" using assms(1) by simp
  show g: "0 < g" using m l assms(1,2) by (cases g) auto
  have "b * (g - 1) = g * b - b" by (simp add: algebra_simps diff_mult_distrib2)
  then show "b * (g - 1) < n" using m assms(1,2) by linarith
  show "n \<le> b * g" using m l assms(1) by (simp only: mult.commute [of b])
qed

lemma geometryD:
  assumes "geometry_ok fs"
  shows "0 < n_groups fs" "first_data fs + per_group fs * (n_groups fs - 1) < n_blocks fs"
    "n_blocks fs \<le> first_data fs + per_group fs * n_groups fs" "n_blocks fs < 2 ^ 64"
  using ceil_div_bounds [of "per_group fs" "n_blocks fs - first_data fs" "n_groups fs"] assms unat_lt_64
  unfolding geometry_ok_def n_blocks_def by fastforce+

lemma last_group: "geometry_ok fs \<Longrightarrow> unat (fs_group_desc_count fs - 1) = n_groups fs - 1"
  using geometryD(1) [of fs] by (simp add: n_groups_def unat_sub word_le_nat_alt)

lemma first_block2_unat:
  assumes "geometry_ok fs" "unat g < n_groups fs"
  shows "unat (ext2fs_group_first_block2 fs g) = first_data fs + per_group fs * unat g"
proof -
  have "per_group fs * unat g \<le> per_group fs * (n_groups fs - 1)" using assms(2) by (intro mult_le_mono2) simp
  then have "first_data fs + per_group fs * unat g < 2 ^ 64" using geometryD [OF assms(1)] by linarith
  then show ?thesis
    by (simp add: ext2fs_group_first_block2_def first_data_def per_group_def unat_word_ariths mod_add_right_eq)
qed

lemma last_block2_unat:
  assumes "geometry_ok fs" "unat g < n_groups fs"
  shows "unat (ext2fs_group_last_block2 fs g) =
           (if unat g = n_groups fs - 1 then n_blocks fs - 1 else first_data fs + per_group fs * unat g + (per_group fs - 1))"
proof (cases "unat g = n_groups fs - 1")
  case True
  then have "g = fs_group_desc_count fs - 1" using last_group [OF assms(1)] by (metis unsigned_word_eqI)
  moreover have "1 \<le> ext2fs_blocks_count (fs_super fs)"
    using assms(1) by (simp add: geometry_ok_def n_blocks_def word_le_nat_alt)
  ultimately show ?thesis using True by (simp add: ext2fs_group_last_block2_def n_blocks_def unat_sub)
next
  case False
  then have ne: "g \<noteq> fs_group_desc_count fs - 1" using last_group [OF assms(1)] by metis
  have "1 \<le> s_blocks_per_group (fs_super fs)" using assms(1) by (simp add: geometry_ok_def per_group_def word_le_nat_alt)
  then have p: "unat (s_blocks_per_group (fs_super fs) - 1) = per_group fs - 1" by (simp add: unat_sub per_group_def)
  have "Suc (unat g) \<le> n_groups fs - 1" using False assms(2) by linarith
  then have "per_group fs * Suc (unat g) \<le> per_group fs * (n_groups fs - 1)" by (rule mult_le_mono2)
  then have "first_data fs + per_group fs * unat g + (per_group fs - 1) < 2 ^ 64"
    using geometryD [OF assms(1)] by (simp add: algebra_simps)
  then show ?thesis
    using False ne p first_block2_unat [OF assms] by (simp add: ext2fs_group_last_block2_def unat_word_ariths)
qed

lemma group_of_blk2_spec:
  assumes "geometry_ok fs" "first_data fs \<le> unat blk" "unat blk < n_blocks fs"
  obtains g where "ext2fs_group_of_blk2 fs blk = Some g" "unat g = (unat blk - first_data fs) div per_group fs" "unat g < n_groups fs"
proof -
  let ?q = "(unat blk - first_data fs) div per_group fs"
  have b: "0 < per_group fs" using assms(1) by (simp add: geometry_ok_def)
  have lt: "?q < n_groups fs"
    using geometryD(3) [OF assms(1)] assms(2,3) b by (simp add: div_less_iff_less_mult mult.commute)
  have "ucast (s_first_data_block (fs_super fs)) \<le> blk" using assms(2) by (simp add: word_le_nat_alt first_data_def)
  then have "unat ((blk - ucast (s_first_data_block (fs_super fs))) div ucast (s_blocks_per_group (fs_super fs))) = ?q"
    by (simp add: unat_div unat_sub first_data_def per_group_def)
  moreover have "?q < 2 ^ 32" using lt unat_lt_32 [of "fs_group_desc_count fs"] unfolding n_groups_def by linarith
  moreover have "s_blocks_per_group (fs_super fs) \<noteq> 0" using b by (auto simp: per_group_def)
  ultimately show thesis using that lt by (simp add: ext2fs_group_of_blk2_def unat_down_32)
qed

lemma div_eq_interval:
  assumes "0 < (b::nat)"
  shows "n div b = q \<longleftrightarrow> b * q \<le> n \<and> n \<le> b * q + (b - 1)"
proof
  assume "n div b = q"
  moreover have "b * (n div b) + n mod b = n" "n mod b < b" using assms by simp_all
  ultimately show "b * q \<le> n \<and> n \<le> b * q + (b - 1)" by auto
next
  assume "b * q \<le> n \<and> n \<le> b * q + (b - 1)"
  then show "n div b = q" using assms by (intro div_nat_eqI) auto
qed

lemma group_size_last:
  assumes "0 < (b::nat)" "b * (g - 1) < n" "n \<le> b * g" "0 < g"
  shows "(if n mod b = 0 then b else n mod b) = n - b * (g - 1)"
proof (cases "n = b * g")
  case True
  then show ?thesis using assms(4) by (simp add: diff_mult_distrib2)
next
  case False
  define r where "r = n - b * (g - 1)"
  have "b * g = b * (g - 1) + b" using assms(4) by (cases g) auto
  then have "n = b * (g - 1) + r" "0 < r" "r < b" using assms(2,3) False by (auto simp: r_def)
  then show ?thesis by simp
qed

lemma group_blocks_count_spec:
  assumes "geometry_ok fs" "unat g < n_groups fs"
  obtains n where "ext2fs_group_blocks_count fs g = Some n"
    "unat n = (if unat g = n_groups fs - 1 then n_blocks fs - (first_data fs + per_group fs * unat g) else per_group fs)"
proof (cases "unat g = n_groups fs - 1")
  case True
  let ?sb = "fs_super fs"
  let ?n = "n_blocks fs - first_data fs"
  have b: "0 < per_group fs" "first_data fs < n_blocks fs" using assms(1) by (auto simp: geometry_ok_def)
  have gl: "g = fs_group_desc_count fs - 1" using True last_group [OF assms(1)] by (metis unsigned_word_eqI)
  have "ucast (s_first_data_block ?sb) \<le> ext2fs_blocks_count ?sb"
    using b(2) by (simp add: word_le_nat_alt first_data_def n_blocks_def)
  then have u: "unat ((ext2fs_blocks_count ?sb - ucast (s_first_data_block ?sb)) mod ucast (s_blocks_per_group ?sb)) = ?n mod per_group fs"
    by (simp add: unat_mod unat_sub first_data_def n_blocks_def per_group_def)
  have "?n mod per_group fs < 2 ^ 32" using b(1) unat_lt_32 [of "s_blocks_per_group ?sb"]
    by (metis mod_less_divisor order.strict_trans per_group_def)
  then have m: "unat (ucast ((ext2fs_blocks_count ?sb - ucast (s_first_data_block ?sb)) mod ucast (s_blocks_per_group ?sb)) :: u32) =
      ?n mod per_group fs"
    unfolding unat_down_32 u by simp
  let ?m = "ucast ((ext2fs_blocks_count ?sb - ucast (s_first_data_block ?sb)) mod ucast (s_blocks_per_group ?sb)) :: u32"
  have "unat (if ?m = 0 then s_blocks_per_group ?sb else ?m) = (if ?n mod per_group fs = 0 then per_group fs else ?n mod per_group fs)"
    using m by (auto simp: per_group_def unat_eq_zero)
  also have "\<dots> = ?n - per_group fs * (n_groups fs - 1)"
    using geometryD [OF assms(1)] b by (intro group_size_last) auto
  finally have "unat (if ?m = 0 then s_blocks_per_group ?sb else ?m) = n_blocks fs - (first_data fs + per_group fs * unat g)"
    using True by simp
  moreover have "s_blocks_per_group ?sb \<noteq> 0" using b by (auto simp: per_group_def)
  ultimately show thesis using that True gl by (simp add: ext2fs_group_blocks_count_def Let_def)
next
  case False
  then have "g \<noteq> fs_group_desc_count fs - 1" using last_group [OF assms(1)] by metis
  then show thesis using that False by (simp add: ext2fs_group_blocks_count_def per_group_def)
qed

section \<open>Counts and sizes\<close>

text \<open>What a 64-bit number becomes when a file system stores it.\<close>

definition stored :: "ext2_super_block \<Rightarrow> w64 \<Rightarrow> w64" where
  "stored sb v = (if ext2fs_has_feature_64bit sb then v else v AND mask 32)"

lemma stored_join:
  "(ucast (ucast v :: u32) :: w64) OR (if ext2fs_has_feature_64bit sb then push_bit 32 (ucast (ucast (drop_bit 32 v) :: u32)) else 0) =
   stored sb v"
  using join_split_64 [of v] low_half_64 [of v] by (auto simp: stored_def)

lemma has_64bit_upd [simp]:
  "ext2fs_has_feature_64bit (sb\<lparr>s_blocks_count := x\<rparr>) = ext2fs_has_feature_64bit sb"
  "ext2fs_has_feature_64bit (sb\<lparr>s_r_blocks_count := x\<rparr>) = ext2fs_has_feature_64bit sb"
  "ext2fs_has_feature_64bit (sb\<lparr>s_free_blocks_count := x\<rparr>) = ext2fs_has_feature_64bit sb"
  "ext2fs_has_feature_64bit (sb\<lparr>s_blocks_count_hi := x\<rparr>) = ext2fs_has_feature_64bit sb"
  "ext2fs_has_feature_64bit (sb\<lparr>s_r_blocks_count_hi := x\<rparr>) = ext2fs_has_feature_64bit sb"
  "ext2fs_has_feature_64bit (sb\<lparr>s_free_blocks_hi := x\<rparr>) = ext2fs_has_feature_64bit sb"
  by (simp_all add: ext2fs_has_feature_64bit_def)

lemmas count_defs = ext2fs_blocks_count_def ext2fs_r_blocks_count_def ext2fs_free_blocks_count_def ext2fs_blocks_count_set_def
  ext2fs_r_blocks_count_set_def ext2fs_free_blocks_count_set_def

lemma blocks_count_set_get:
  "ext2fs_blocks_count (ext2fs_blocks_count_set sb v) = stored sb v"
  "ext2fs_r_blocks_count (ext2fs_blocks_count_set sb v) = ext2fs_r_blocks_count sb"
  "ext2fs_free_blocks_count (ext2fs_blocks_count_set sb v) = ext2fs_free_blocks_count sb"
  using stored_join [of v sb] by (auto simp: count_defs Let_def)

lemma r_blocks_count_set_get:
  "ext2fs_r_blocks_count (ext2fs_r_blocks_count_set sb v) = stored sb v"
  "ext2fs_blocks_count (ext2fs_r_blocks_count_set sb v) = ext2fs_blocks_count sb"
  "ext2fs_free_blocks_count (ext2fs_r_blocks_count_set sb v) = ext2fs_free_blocks_count sb"
  using stored_join [of v sb] by (auto simp: count_defs Let_def)

lemma free_blocks_count_set_get:
  "ext2fs_free_blocks_count (ext2fs_free_blocks_count_set sb v) = stored sb v"
  "ext2fs_blocks_count (ext2fs_free_blocks_count_set sb v) = ext2fs_blocks_count sb"
  "ext2fs_r_blocks_count (ext2fs_free_blocks_count_set sb v) = ext2fs_r_blocks_count sb"
  using stored_join [of v sb] by (auto simp: count_defs Let_def)

text \<open>The block of the extended attributes of a file has 48 bits.\<close>

lemma file_acl_block_set_get:
  "ext2fs_file_acl_block (Some fs) (ext2fs_file_acl_block_set (Some fs) inode v) =
     (if ext2fs_has_feature_64bit (fs_super fs) then v AND mask 48 else v AND mask 32)"
proof -
  have "(ucast (ucast v :: u32) :: w64) OR push_bit 32 (ucast (ucast (drop_bit 32 v) :: u16)) = v AND mask 48"
    by (rule bit_word_eqI) (auto simp: bit_simps not_less)
  then show ?thesis by (simp add: ext2fs_file_acl_block_def ext2fs_file_acl_block_set_def Let_def low_half_64)
qed

definition inode_size :: "ext2_inode \<Rightarrow> w64" where
  "inode_size inode = ucast (i_size inode) OR push_bit 32 (ucast (i_size_high inode))"

section \<open>Properties\<close>

text \<open>C30. On a file system whose number of groups matches its number of blocks, the group of a data block is the one whose first and last
  block enclose it, it is one of the groups, and the number of blocks of a group is the distance from its first to its last block.\<close>

theorem group_geometry_correct:
  assumes "geometry_ok fs" "first_data fs \<le> unat blk" "unat blk < n_blocks fs" "unat g < n_groups fs"
  shows "(ext2fs_group_of_blk2 fs blk = Some g \<longleftrightarrow> ext2fs_group_first_block2 fs g \<le> blk \<and> blk \<le> ext2fs_group_last_block2 fs g) \<and>
         (\<exists>g'. ext2fs_group_of_blk2 fs blk = Some g' \<and> unat g' < n_groups fs) \<and>
         (\<exists>n. ext2fs_group_blocks_count fs g = Some n \<and>
            unat n = unat (ext2fs_group_last_block2 fs g) + 1 - unat (ext2fs_group_first_block2 fs g))"
proof -
  note geo = geometryD [OF assms(1)]
  have b: "0 < per_group fs" using assms(1) by (simp add: geometry_ok_def)
  obtain g' where g': "ext2fs_group_of_blk2 fs blk = Some g'" "unat g' = (unat blk - first_data fs) div per_group fs" "unat g' < n_groups fs"
    using group_of_blk2_spec [OF assms(1-3)] .
  have gq: "n_groups fs = Suc (n_groups fs - 1)" using geo(1) by simp
  have top: "per_group fs * n_groups fs = per_group fs * (n_groups fs - 1) + per_group fs" by (subst gq) simp
  have "g' = g \<longleftrightarrow> unat g' = unat g" by (simp add: word_unat_eq_iff)
  also have "\<dots> \<longleftrightarrow> per_group fs * unat g \<le> unat blk - first_data fs \<and> unat blk - first_data fs \<le> per_group fs * unat g + (per_group fs - 1)"
    unfolding g'(2) using b by (rule div_eq_interval)
  also have "\<dots> \<longleftrightarrow> ext2fs_group_first_block2 fs g \<le> blk \<and> blk \<le> ext2fs_group_last_block2 fs g"
    unfolding word_le_nat_alt first_block2_unat [OF assms(1,4)] last_block2_unat [OF assms(1,4)]
    using assms(2,3) geo top b by (cases "unat g = n_groups fs - 1"; simp; linarith)
  finally have 1: "g' = g \<longleftrightarrow> ext2fs_group_first_block2 fs g \<le> blk \<and> blk \<le> ext2fs_group_last_block2 fs g" .
  obtain n where n: "ext2fs_group_blocks_count fs g = Some n"
    "unat n = (if unat g = n_groups fs - 1 then n_blocks fs - (first_data fs + per_group fs * unat g) else per_group fs)"
    using group_blocks_count_spec [OF assms(1,4)] .
  have "unat n = unat (ext2fs_group_last_block2 fs g) + 1 - unat (ext2fs_group_first_block2 fs g)"
    unfolding first_block2_unat [OF assms(1,4)] last_block2_unat [OF assms(1,4)] n(2) using geo b by auto
  then show ?thesis using 1 g' n(1) by auto
qed

definition small_super :: ext2_super_block where
  "small_super = \<lparr>s_inodes_count = 64, s_blocks_count = 20, s_r_blocks_count = 0, s_free_blocks_count = 0,
     s_free_inodes_count = 0, s_first_data_block = 1,
     s_log_block_size = 0, s_log_cluster_size = 0, s_blocks_per_group = 8, s_inodes_per_group = 16, s_rev_level = 0, s_first_ino = 11,
     s_inode_size = 128, s_feature_compat = 0, s_feature_incompat = 0x80, s_feature_ro_compat = 0x9,
     s_uuid = replicate 16 7, s_reserved_gdt_blocks = 0,
     s_desc_size = 64, s_first_meta_bg = 0, s_blocks_count_hi = 0, s_r_blocks_count_hi = 0, s_free_blocks_hi = 0, s_checksum_type = 1,
     s_backup_bgs = (0, 0), s_checksum_seed = 0\<rparr>"

definition small_fs :: ext2_filsys where
  "small_fs = \<lparr>fs_super = small_super, fs_flags = 0, fs_blocksize = 1024, fs_group_desc_count = 3, fs_desc_blocks = 1,
     fs_group_desc = replicate 192 0, fs_inode_blocks_per_group = 2, fs_cluster_ratio_bits = 0, fs_csum_seed = 5\<rparr>"

lemma small_64bit [simp]: "ext2fs_has_feature_64bit small_super"
  by (simp add: ext2fs_has_feature_64bit_def small_super_def)

lemma small_counts [simp]: "first_data small_fs = 1" "per_group small_fs = 8" "n_blocks small_fs = 20" "n_groups small_fs = 3"
  by (simp_all add: first_data_def per_group_def n_blocks_def n_groups_def small_fs_def ext2fs_blocks_count_def)
    (simp_all add: small_super_def)

theorem group_geometry_correct_witness:
  "(ext2fs_group_of_blk2 small_fs 17 = Some 2 \<longleftrightarrow>
      ext2fs_group_first_block2 small_fs 2 \<le> 17 \<and> 17 \<le> ext2fs_group_last_block2 small_fs 2) \<and>
   (\<exists>g'. ext2fs_group_of_blk2 small_fs 17 = Some g' \<and> unat g' < n_groups small_fs) \<and>
   (\<exists>n. ext2fs_group_blocks_count small_fs 2 = Some n \<and>
      unat n = unat (ext2fs_group_last_block2 small_fs 2) + 1 - unat (ext2fs_group_first_block2 small_fs 2))"
  by (rule group_geometry_correct) (simp_all add: geometry_ok_def)

text \<open>Setting the size of a file refuses a size of 4 GiB or more unless the file is regular, and then changes nothing. Otherwise the
  two halves of the size give back the number, and a regular file of 2 GiB or more leaves the file system marked with the large-file
  feature and a dynamic revision.\<close>

theorem inode_size_set_correct:
  assumes "ext2fs_inode_size_set fs inode sz = (err, fs', inode')"
  shows "if \<not> LINUX_S_ISREG (i_mode inode) \<and> sz \<ge> 0x100000000 then err = EXT2_ET_FILE_TOO_BIG \<and> fs' = fs \<and> inode' = inode
         else err = 0 \<and> inode_size inode' = sz \<and> ext2fs_inode_i_blocks fs' inode' = ext2fs_inode_i_blocks fs inode \<and>
           (if LINUX_S_ISREG (i_mode inode) \<and> sz \<ge> 0x80000000
            then ext2fs_has_feature_large_file (fs_super fs') \<and> s_rev_level (fs_super fs') \<noteq> 0 else fs' = fs)"
proof -
  have hi: "drop_bit 32 sz \<noteq> 0 \<longleftrightarrow> sz \<ge> 0x100000000"
  proof -
    have "unat (drop_bit 32 sz) = unat sz div 2 ^ 32" by (simp add: drop_bit_eq_div unat_div)
    moreover have "unat sz div 2 ^ 32 = 0 \<longleftrightarrow> unat sz < 2 ^ 32" by (simp add: div_eq_0_iff)
    moreover have "sz \<ge> 0x100000000 \<longleftrightarrow> 2 ^ 32 \<le> unat sz" by (simp add: word_le_nat_alt)
    ultimately show ?thesis by (metis not_less unat_eq_zero)
  qed
  have "(ucast (ucast (sz AND 0xffffffff) :: u32) :: w64) = ucast (ucast sz :: u32)"
    using low_half_64 [of "sz AND 0xffffffff"] low_half_64 [of sz] by (simp add: mask_eq_exp_minus_1)
  then have js: "(ucast (ucast (sz AND 0xffffffff) :: u32) :: w64) OR push_bit 32 (ucast (ucast (drop_bit 32 sz) :: u32)) = sz"
    using join_split_64 [of sz] by simp
  have lf: "(x OR 2) AND 2 \<noteq> (0 :: u32)" for x by (simp add: bit.conj_disj_distrib2)
  show ?thesis
    using assms js lf unfolding ext2fs_inode_size_set_def hi
    by (auto simp: Let_def inode_size_def ext2fs_inode_i_blocks_def ext2fs_needs_large_file_feature_def ext2fs_mark_super_dirty_def
        ext2fs_update_dynamic_rev_def ext2fs_set_feature_large_file_def ext2fs_has_feature_large_file_def
        ext2fs_has_feature_huge_file_def word_gt_0 bit.conj_disj_distrib2 split: if_splits)
qed

definition small_inode :: ext2_inode where
  "small_inode = \<lparr>i_mode = 0x81A4, i_size = 0, i_blocks = 10, i_flags = 0, i_block = replicate 15 0, i_file_acl = 0, i_size_high = 0,
     l_i_blocks_hi = 0, l_i_file_acl_high = 0\<rparr>"

theorem inode_size_set_correct_witness:
  "case ext2fs_inode_size_set small_fs small_inode 0x1C0000000 of (err, fs', inode') \<Rightarrow>
     err = 0 \<and> inode_size inode' = 0x1C0000000 \<and> ext2fs_has_feature_large_file (fs_super fs') \<and> s_rev_level (fs_super fs') \<noteq> 0"
proof -
  obtain err fs' inode' where r: "ext2fs_inode_size_set small_fs small_inode 0x1C0000000 = (err, fs', inode')"
    by (metis prod_cases3)
  have "LINUX_S_ISREG (i_mode small_inode)" by (simp add: small_inode_def LINUX_S_ISREG_def)
  then show ?thesis using inode_size_set_correct [OF r] r by simp
qed

end
