(* ===== verification/Blknum_Fields.thy ===== *)
theory Blknum_Fields
  imports Blknum_Geometry
begin

text \<open>
  The accessors of the group descriptors, \<^verbatim>\<open>lib/ext2fs/blknum.c\<close>: the bytes of the fields of one descriptor do not overlap, nor do
  those of two descriptors, so the array behaves as a table of independent fields.
\<close>

section \<open>The fields as a table\<close>

datatype bg_field = Block_Bitmap | Inode_Bitmap | Inode_Table | Free_Blocks | Free_Inodes | Used_Dirs | Itable_Unused | Flags | Checksum

fun bg_get :: "bg_field \<Rightarrow> ext2_filsys \<Rightarrow> u32 \<Rightarrow> w64 option" where
  "bg_get Block_Bitmap fs g = ext2fs_block_bitmap_loc fs g"
| "bg_get Inode_Bitmap fs g = ext2fs_inode_bitmap_loc fs g"
| "bg_get Inode_Table fs g = ext2fs_inode_table_loc fs g"
| "bg_get Free_Blocks fs g = map_option ucast (ext2fs_bg_free_blocks_count fs g)"
| "bg_get Free_Inodes fs g = map_option ucast (ext2fs_bg_free_inodes_count fs g)"
| "bg_get Used_Dirs fs g = map_option ucast (ext2fs_bg_used_dirs_count fs g)"
| "bg_get Itable_Unused fs g = map_option ucast (ext2fs_bg_itable_unused fs g)"
| "bg_get Flags fs g = map_option ucast (ext2fs_bg_flags fs g)"
| "bg_get Checksum fs g = map_option ucast (ext2fs_bg_checksum fs g)"

text \<open>Flags are stored by clearing all of them and setting the new ones.\<close>

fun bg_set :: "bg_field \<Rightarrow> ext2_filsys \<Rightarrow> u32 \<Rightarrow> w64 \<Rightarrow> ext2_filsys option" where
  "bg_set Block_Bitmap fs g v = ext2fs_block_bitmap_loc_set fs g v"
| "bg_set Inode_Bitmap fs g v = ext2fs_inode_bitmap_loc_set fs g v"
| "bg_set Inode_Table fs g v = ext2fs_inode_table_loc_set fs g v"
| "bg_set Free_Blocks fs g v = ext2fs_bg_free_blocks_count_set fs g (ucast v)"
| "bg_set Free_Inodes fs g v = ext2fs_bg_free_inodes_count_set fs g (ucast v)"
| "bg_set Used_Dirs fs g v = ext2fs_bg_used_dirs_count_set fs g (ucast v)"
| "bg_set Itable_Unused fs g v = ext2fs_bg_itable_unused_set fs g (ucast v)"
| "bg_set Flags fs g v = do { fs1 \<leftarrow> ext2fs_bg_flags_zap fs g; ext2fs_bg_flags_set fs1 g (ucast v) }"
| "bg_set Checksum fs g v = ext2fs_bg_checksum_set fs g (ucast v)"

text \<open>The width of a field: that of its halves, or of its low half where there is no high one.\<close>

fun bg_bits :: "bool \<Rightarrow> bg_field \<Rightarrow> nat" where
  "bg_bits b Flags = 16"
| "bg_bits b Checksum = 16"
| "bg_bits b f = (if f \<in> {Block_Bitmap, Inode_Bitmap, Inode_Table} then (if b then 64 else 32) else (if b then 32 else 16))"

section \<open>Bytes of a field\<close>

fun low_off :: "bg_field \<Rightarrow> nat" where
  "low_off Block_Bitmap = 0" | "low_off Inode_Bitmap = 4" | "low_off Inode_Table = 8" | "low_off Free_Blocks = 12"
| "low_off Free_Inodes = 14" | "low_off Used_Dirs = 16" | "low_off Itable_Unused = 28" | "low_off Flags = 18" | "low_off Checksum = 30"

fun high_off :: "bg_field \<Rightarrow> nat option" where
  "high_off Block_Bitmap = Some 32" | "high_off Inode_Bitmap = Some 36" | "high_off Inode_Table = Some 40" | "high_off Free_Blocks = Some 44"
| "high_off Free_Inodes = Some 46" | "high_off Used_Dirs = Some 48" | "high_off Itable_Unused = Some 50" | "high_off Flags = None"
| "high_off Checksum = None"

fun half :: "bg_field \<Rightarrow> nat" where
  "half Block_Bitmap = 4" | "half Inode_Bitmap = 4" | "half Inode_Table = 4" | "half f = 2"

definition foot :: "bool \<Rightarrow> bg_field \<Rightarrow> nat \<Rightarrow> nat set" where
  "foot b f p = {p + low_off f..<p + low_off f + half f} \<union>
     (if b then case high_off f of Some h \<Rightarrow> {p + h..<p + h + half f} | None \<Rightarrow> {} else {})"

lemma foot_disjoint: "f \<noteq> f' \<Longrightarrow> foot b f p \<inter> foot b f' p = {}"
  by (cases f; cases f'; cases b; simp add: foot_def Int_Un_distrib Int_Un_distrib2)

lemma foot_bounds: "foot b f p \<subseteq> {p..<p + (if b then 64 else 32)}"
  by (cases f; cases b; auto simp: foot_def)

text \<open>An array of descriptors with room for every group, of a size that holds the fields in use.\<close>

definition desc_stride :: "ext2_filsys \<Rightarrow> nat" where
  "desc_stride fs = EXT2_DESC_SIZE (fs_super fs) - EXT2_DESC_SIZE (fs_super fs) mod 8"

definition descs_ok :: "ext2_filsys \<Rightarrow> bool" where
  "descs_ok fs \<longleftrightarrow>
     (if ext2fs_has_feature_64bit (fs_super fs) then 64 else 32) \<le> desc_stride fs \<and>
     n_groups fs * desc_stride fs \<le> length (fs_group_desc fs) \<and> n_groups fs * desc_stride fs < 2 ^ 32"

lemma group_desc_offset:
  assumes "descs_ok fs" "unat g < n_groups fs"
  shows "ext2fs_group_desc fs g = unat g * desc_stride fs"
    "ext2fs_group_desc fs g + (if ext2fs_has_feature_64bit (fs_super fs) then 64 else 32) \<le> length (fs_group_desc fs)"
proof -
  have "Suc (unat g) * desc_stride fs \<le> n_groups fs * desc_stride fs" using assms(2) by (intro mult_le_mono1) simp
  moreover from this have "unat g * desc_stride fs < 2 ^ 32" using assms(1) unfolding descs_ok_def by simp
  then show "ext2fs_group_desc fs g = unat g * desc_stride fs"
    by (simp add: ext2fs_group_desc_def desc_stride_def Let_def)
  ultimately show "ext2fs_group_desc fs g + (if ext2fs_has_feature_64bit (fs_super fs) then 64 else 32) \<le> length (fs_group_desc fs)"
    using assms(1) unfolding descs_ok_def by (simp split: if_splits)
qed

lemma desc_windows_disjoint:
  assumes "descs_ok fs" "unat g < n_groups fs" "unat g' < n_groups fs" "g \<noteq> g'"
  defines "n \<equiv> if ext2fs_has_feature_64bit (fs_super fs) then 64 else 32"
  shows "{ext2fs_group_desc fs g..<ext2fs_group_desc fs g + n} \<inter> {ext2fs_group_desc fs g'..<ext2fs_group_desc fs g' + n} = {}"
proof -
  let ?d = "desc_stride fs"
  have "unat g \<noteq> unat g'" using assms(4) by (simp add: word_unat_eq_iff)
  then have "Suc (unat g) \<le> unat g' \<or> Suc (unat g') \<le> unat g" by linarith
  then have "Suc (unat g) * ?d \<le> unat g' * ?d \<or> Suc (unat g') * ?d \<le> unat g * ?d"
    by (metis mult_le_mono1)
  moreover have "n \<le> ?d" using assms(1) unfolding descs_ok_def n_def by blast
  ultimately have "unat g * ?d + n \<le> unat g' * ?d \<or> unat g' * ?d + n \<le> unat g * ?d" by auto
  then show ?thesis
    unfolding group_desc_offset(1) [OF assms(1,2)] group_desc_offset(1) [OF assms(1,3)] by auto
qed

lemma foot_other_group:
  assumes "descs_ok fs" "unat g < n_groups fs" "unat g' < n_groups fs" "g \<noteq> g'"
  defines "b \<equiv> ext2fs_has_feature_64bit (fs_super fs)"
  shows "foot b f (ext2fs_group_desc fs g) \<inter> foot b f' (ext2fs_group_desc fs g') = {}"
  using desc_windows_disjoint [OF assms(1-4), folded b_def] foot_bounds [of b f "ext2fs_group_desc fs g"]
    foot_bounds [of b f' "ext2fs_group_desc fs g'"] by blast

section \<open>Reading and writing halves\<close>

definition only_descs :: "nat set \<Rightarrow> ext2_filsys \<Rightarrow> ext2_filsys \<Rightarrow> bool" where
  "only_descs S fs fs' \<longleftrightarrow> (\<exists>m. fs' = fs\<lparr>fs_group_desc := m\<rparr> \<and> same_except S (fs_group_desc fs) m)"

lemma only_descsD:
  assumes "only_descs S fs fs'"
  shows "fs_super fs' = fs_super fs" "ext2fs_group_desc fs' = ext2fs_group_desc fs" "n_groups fs' = n_groups fs"
    "same_except S (fs_group_desc fs) (fs_group_desc fs')" "descs_ok fs' = descs_ok fs"
  using assms
  by (auto simp: only_descs_def ext2fs_group_desc_def n_groups_def descs_ok_def desc_stride_def same_except_def fun_eq_iff)

lemma put_field16_spec:
  assumes "p + 2 \<le> length (fs_group_desc fs)"
  obtains fs' where "put_field16 fs p v = Some fs'" "only_descs {p..<p + 2} fs fs'" "rd16 (fs_group_desc fs') p = Some v"
  using wr16_spec [OF assms, of v] by (force simp: put_field16_def only_descs_def)

lemma set_halves32_spec:
  fixes fs g lo hi v
  defines "p \<equiv> ext2fs_group_desc fs g" and "b \<equiv> ext2fs_has_feature_64bit (fs_super fs)"
  assumes "p + lo + 4 \<le> length (fs_group_desc fs)" "b \<longrightarrow> p + hi + 4 \<le> length (fs_group_desc fs)" "lo + 4 \<le> hi"
  obtains fs' where "set_halves32 fs g lo hi v = Some fs'" "get_halves32 fs' g lo hi = Some (if b then v else v AND mask 32)"
    "only_descs ({p + lo..<p + lo + 4} \<union> (if b then {p + hi..<p + hi + 4} else {})) fs fs'"
proof -
  let ?m = "fs_group_desc fs"
  obtain m1 where 1: "wr32 ?m (p + lo) (ucast v) = Some m1" "rd32 m1 (p + lo) = Some (ucast v)" "same_except {p + lo..<p + lo + 4} ?m m1"
    using wr32_spec [OF assms(3), of "ucast v"] .
  show thesis
  proof (cases b)
    case True
    then have "p + hi + 4 \<le> length m1" using assms(4) 1(3) by (simp add: same_except_def)
    from wr32_spec [OF this, of "ucast (drop_bit 32 v)"]
    obtain m2 where 2: "wr32 m1 (p + hi) (ucast (drop_bit 32 v)) = Some m2" "rd32 m2 (p + hi) = Some (ucast (drop_bit 32 v))"
      "same_except {p + hi..<p + hi + 4} m1 m2" .
    have "rd32 m2 (p + lo) = Some (ucast v)" using rd32_frame [OF 2(3), of "p + lo"] 1(2) assms(5) by auto
    then show thesis
      using that [of "fs\<lparr>fs_group_desc := m2\<rparr>"] True 1 2 same_except_trans [OF 1(3) 2(3)] join_split_64 [of v]
      by (auto simp: set_halves32_def get_halves32_def only_descs_def Let_def p_def b_def ext2fs_group_desc_def)
  next
    case False
    then show thesis
      using that [of "fs\<lparr>fs_group_desc := m1\<rparr>"] 1 low_half_64 [of v]
      by (auto simp: set_halves32_def get_halves32_def only_descs_def Let_def p_def b_def ext2fs_group_desc_def)
  qed
qed

lemma set_halves16_spec:
  fixes fs g lo hi v
  defines "p \<equiv> ext2fs_group_desc fs g" and "b \<equiv> ext2fs_has_feature_64bit (fs_super fs)"
  assumes "p + lo + 2 \<le> length (fs_group_desc fs)" "b \<longrightarrow> p + hi + 2 \<le> length (fs_group_desc fs)" "lo + 2 \<le> hi"
  obtains fs' where "set_halves16 fs g lo hi v = Some fs'" "get_halves16 fs' g lo hi = Some (if b then v else v AND mask 16)"
    "only_descs ({p + lo..<p + lo + 2} \<union> (if b then {p + hi..<p + hi + 2} else {})) fs fs'"
proof -
  let ?m = "fs_group_desc fs"
  obtain m1 where 1: "wr16 ?m (p + lo) (ucast v) = Some m1" "rd16 m1 (p + lo) = Some (ucast v)" "same_except {p + lo..<p + lo + 2} ?m m1"
    using wr16_spec [OF assms(3), of "ucast v"] .
  show thesis
  proof (cases b)
    case True
    then have "p + hi + 2 \<le> length m1" using assms(4) 1(3) by (simp add: same_except_def)
    from wr16_spec [OF this, of "ucast (drop_bit 16 v)"]
    obtain m2 where 2: "wr16 m1 (p + hi) (ucast (drop_bit 16 v)) = Some m2" "rd16 m2 (p + hi) = Some (ucast (drop_bit 16 v))"
      "same_except {p + hi..<p + hi + 2} m1 m2" .
    have "rd16 m2 (p + lo) = Some (ucast v)" using rd16_frame [OF 2(3), of "p + lo"] 1(2) assms(5) by auto
    then show thesis
      using that [of "fs\<lparr>fs_group_desc := m2\<rparr>"] True 1 2 same_except_trans [OF 1(3) 2(3)] join_split_32 [of v]
      by (auto simp: set_halves16_def get_halves16_def only_descs_def Let_def p_def b_def ext2fs_group_desc_def)
  next
    case False
    then show thesis
      using that [of "fs\<lparr>fs_group_desc := m1\<rparr>"] 1 low_half_32 [of v]
      by (auto simp: set_halves16_def get_halves16_def only_descs_def Let_def p_def b_def ext2fs_group_desc_def)
  qed
qed

section \<open>Fields\<close>

lemmas bg_defs = ext2fs_block_bitmap_loc_def ext2fs_inode_bitmap_loc_def ext2fs_inode_table_loc_def ext2fs_bg_free_blocks_count_def
  ext2fs_bg_free_inodes_count_def ext2fs_bg_used_dirs_count_def ext2fs_bg_itable_unused_def ext2fs_bg_flags_def ext2fs_bg_checksum_def

lemmas bg_set_defs = ext2fs_block_bitmap_loc_set_def ext2fs_inode_bitmap_loc_set_def ext2fs_inode_table_loc_set_def
  ext2fs_bg_free_blocks_count_set_def ext2fs_bg_free_inodes_count_set_def ext2fs_bg_used_dirs_count_set_def
  ext2fs_bg_itable_unused_set_def ext2fs_bg_checksum_set_def

lemma get_halves_frame:
  fixes g lo hi
  assumes "only_descs S fs fs'"
  defines "p \<equiv> ext2fs_group_desc fs g" and "b \<equiv> ext2fs_has_feature_64bit (fs_super fs)"
  shows "S \<inter> ({p + lo..<p + lo + 4} \<union> (if b then {p + hi..<p + hi + 4} else {})) = {} \<Longrightarrow>
           get_halves32 fs' g lo hi = get_halves32 fs g lo hi"
    and "S \<inter> ({p + lo..<p + lo + 2} \<union> (if b then {p + hi..<p + hi + 2} else {})) = {} \<Longrightarrow>
           get_halves16 fs' g lo hi = get_halves16 fs g lo hi"
  using rd32_frame [OF only_descsD(4) [OF assms(1)], of "p + lo"] rd32_frame [OF only_descsD(4) [OF assms(1)], of "p + hi"]
    rd16_frame [OF only_descsD(4) [OF assms(1)], of "p + lo"] rd16_frame [OF only_descsD(4) [OF assms(1)], of "p + hi"]
  unfolding get_halves32_def get_halves16_def only_descsD(1,2) [OF assms(1)] p_def [symmetric] b_def [symmetric] Let_def
  by (auto simp: Int_Un_distrib)

lemma bg_get_frame:
  assumes "only_descs S fs fs'" "S \<inter> foot (ext2fs_has_feature_64bit (fs_super fs)) f (ext2fs_group_desc fs g) = {}"
  shows "bg_get f fs' g = bg_get f fs g"
  using get_halves_frame [OF assms(1), of g "low_off f" "the (high_off f)"] assms(2)
    rd16_frame [OF only_descsD(4) [OF assms(1)], of "ext2fs_group_desc fs g + low_off f"] only_descsD(2) [OF assms(1)]
  by (cases f; cases "ext2fs_has_feature_64bit (fs_super fs)") (simp_all add: bg_defs foot_def Int_Un_distrib)

lemma ucast_masks:
  "(ucast (ucast v AND mask 16 :: u32) :: w64) = v AND mask 16" "(ucast (ucast v :: u32) :: w64) = v AND mask 32"
  "(ucast (ucast v :: u16) :: w64) = v AND mask 16" "v AND mask 64 = v" for v :: w64
  by (rule bit_word_eqI; auto simp: bit_simps)+

lemma bg_set_spec:
  assumes ok: "descs_ok fs" "unat g < n_groups fs"
  defines "b \<equiv> ext2fs_has_feature_64bit (fs_super fs)" and "p \<equiv> ext2fs_group_desc fs g"
  shows "\<exists>fs'. bg_set f fs g v = Some fs' \<and> bg_get f fs' g = Some (v AND mask (bg_bits b f)) \<and> only_descs (foot b f p) fs fs'"
proof -
  have len: "p + (if b then 64 else 32) \<le> length (fs_group_desc fs)" using group_desc_offset(2) [OF ok] by (simp add: p_def b_def)
  have h32: "\<exists>fs'. set_halves32 fs g lo hi v = Some fs' \<and> get_halves32 fs' g lo hi = Some (if b then v else v AND mask 32) \<and>
      only_descs ({p + lo..<p + lo + 4} \<union> (if b then {p + hi..<p + hi + 4} else {})) fs fs'"
    if "lo + 4 \<le> 32" "32 \<le> hi" "hi + 4 \<le> 64" for lo hi
    using set_halves32_spec [of fs g lo hi v] that len unfolding p_def b_def by fastforce
  have h16: "\<exists>fs'. set_halves16 fs g lo hi (ucast v) = Some fs' \<and>
      get_halves16 fs' g lo hi = Some (if b then ucast v else ucast v AND mask 16) \<and>
      only_descs ({p + lo..<p + lo + 2} \<union> (if b then {p + hi..<p + hi + 2} else {})) fs fs'"
    if "lo + 2 \<le> 32" "32 \<le> hi" "hi + 2 \<le> 64" for lo hi
    using set_halves16_spec [of fs g lo hi "ucast v"] that len unfolding p_def b_def by fastforce
  show ?thesis
  proof (cases f)
    case Flags
    obtain fs1 where 1: "put_field16 fs (p + 18) 0 = Some fs1" "only_descs {p + 18..<p + 18 + 2} fs fs1" "rd16 (fs_group_desc fs1) (p + 18) = Some 0"
      using put_field16_spec [of "p + 18" fs 0] len by (auto split: if_splits)
    note d = only_descsD [OF 1(2)]
    obtain fs2 where 2: "put_field16 fs1 (p + 18) (ucast v) = Some fs2" "only_descs {p + 18..<p + 18 + 2} fs1 fs2"
        "rd16 (fs_group_desc fs2) (p + 18) = Some (ucast v)"
      using put_field16_spec [of "p + 18" fs1 "ucast v"] len d(4) by (auto simp: same_except_def split: if_splits)
    have "only_descs {p + 18..<p + 18 + 2} fs fs2"
      using 1(2) 2(2) by (auto simp: only_descs_def same_except_def)
    moreover have "ext2fs_group_desc fs2 g = p" "ext2fs_group_desc fs1 g = p" using d(2) only_descsD(2) [OF 2(2)] by (simp_all add: p_def)
    ultimately show ?thesis
      using Flags 1 2 ucast_masks(3) [of v]
      by (auto simp: ext2fs_bg_flags_zap_def ext2fs_bg_flags_set_def ext2fs_bg_flags_def p_def foot_def Let_def)
  next
    case Checksum
    obtain fs1 where 1: "put_field16 fs (p + 30) (ucast v) = Some fs1" "only_descs {p + 30..<p + 30 + 2} fs fs1"
        "rd16 (fs_group_desc fs1) (p + 30) = Some (ucast v)"
      using put_field16_spec [of "p + 30" fs "ucast v"] len by (auto split: if_splits)
    then show ?thesis
      using Checksum only_descsD(2) [OF 1(2)] ucast_masks(3) [of v]
      by (auto simp: ext2fs_bg_checksum_set_def ext2fs_bg_checksum_def p_def foot_def)
  next
    case Block_Bitmap
    then show ?thesis using h32 [of 0 32] ucast_masks(4) [of v] by (auto simp: bg_defs bg_set_defs foot_def)
  next
    case Inode_Bitmap
    then show ?thesis using h32 [of 4 36] ucast_masks(4) [of v] by (auto simp: bg_defs bg_set_defs foot_def)
  next
    case Inode_Table
    then show ?thesis using h32 [of 8 40] ucast_masks(4) [of v] by (auto simp: bg_defs bg_set_defs foot_def)
  next
    case Free_Blocks
    then show ?thesis using h16 [of 12 44] ucast_masks [of v] by (auto simp: bg_defs bg_set_defs foot_def)
  next
    case Free_Inodes
    then show ?thesis using h16 [of 14 46] ucast_masks [of v] by (auto simp: bg_defs bg_set_defs foot_def)
  next
    case Used_Dirs
    then show ?thesis using h16 [of 16 48] ucast_masks [of v] by (auto simp: bg_defs bg_set_defs foot_def)
  next
    case Itable_Unused
    then show ?thesis using h16 [of 28 50] ucast_masks [of v] by (auto simp: bg_defs bg_set_defs foot_def)
  qed
qed

section \<open>Property\<close>

text \<open>C31. Setting a field of the descriptor of one group stays inside the array of descriptors, the getter then returns the number
  cut to the width of the field, and no getter of another field or of another group returns anything else than before, whether the file
  system is 64-bit or not.\<close>

theorem bg_fields_independent:
  assumes "descs_ok fs" "unat g < n_groups fs"
  shows "\<exists>fs'. bg_set f fs g v = Some fs' \<and> descs_ok fs' \<and> fs_super fs' = fs_super fs \<and>
           (\<forall>f' g'. unat g' < n_groups fs \<longrightarrow>
              bg_get f' fs' g' =
                (if f' = f \<and> g' = g then Some (v AND mask (bg_bits (ext2fs_has_feature_64bit (fs_super fs)) f)) else bg_get f' fs g'))"
proof -
  let ?b = "ext2fs_has_feature_64bit (fs_super fs)" and ?p = "ext2fs_group_desc fs"
  obtain fs' where s: "bg_set f fs g v = Some fs'" "bg_get f fs' g = Some (v AND mask (bg_bits ?b f))" "only_descs (foot ?b f (?p g)) fs fs'"
    using bg_set_spec [OF assms] by blast
  have "bg_get f' fs' g' = bg_get f' fs g'" if "unat g' < n_groups fs" "\<not> (f' = f \<and> g' = g)" for f' g'
  proof (rule bg_get_frame [OF s(3)])
    show "foot ?b f (?p g) \<inter> foot ?b f' (?p g') = {}"
      using that foot_disjoint [of f f' ?b "?p g"] foot_other_group [OF assms that(1), of f f'] by (cases "g = g'") auto
  qed
  then show ?thesis using s only_descsD [OF s(3)] assms(1) by auto
qed

lemma small_descs_ok: "descs_ok small_fs"
  unfolding descs_ok_def small_counts desc_stride_def EXT2_DESC_SIZE_def by (simp add: small_fs_def) (simp add: small_super_def)

theorem bg_fields_independent_witness:
  "\<exists>fs'. bg_set Inode_Table small_fs 1 0x123456789 = Some fs' \<and> descs_ok fs' \<and> fs_super fs' = fs_super small_fs \<and>
     (\<forall>f' g'. unat g' < n_groups small_fs \<longrightarrow>
        bg_get f' fs' g' =
          (if f' = Inode_Table \<and> g' = 1 then Some (0x123456789 AND mask (bg_bits (ext2fs_has_feature_64bit (fs_super small_fs)) Inode_Table))
           else bg_get f' small_fs g'))"
  by (rule bg_fields_independent [OF small_descs_ok]) simp

end
