(* ===== verification/I_Block.thy ===== *)
theory I_Block
  imports Blknum_Geometry
begin

text \<open>
  The block count of an inode, \<^verbatim>\<open>lib/ext2fs/i_block.c\<close>, and the test whether an inode has blocks at all,
  \<^verbatim>\<open>lib/ext2fs/valid_blk.c\<close>. The count is kept in sectors of 512 bytes, or in blocks for a huge file.
\<close>

section \<open>Model\<close>

definition iblk_units :: "ext2_filsys \<Rightarrow> ext2_inode \<Rightarrow> w64 \<Rightarrow> w64 option" where
  "iblk_units fs inode num_blocks =
     (let n = (if \<not> ext2fs_has_feature_huge_file (fs_super fs) \<or> i_flags inode AND 0x40000 = 0
               then num_blocks * ucast (fs_blocksize fs div 512) else num_blocks)
      in map_option (\<lambda>r. n * of_nat r) (EXT2FS_CLUSTER_RATIO fs))"

definition iblk_count :: "ext2_filsys \<Rightarrow> ext2_inode \<Rightarrow> w64" where
  "iblk_count fs inode =
     ucast (i_blocks inode) + (if ext2fs_has_feature_huge_file (fs_super fs) then push_bit 32 (ucast (l_i_blocks_hi inode)) else 0)"

definition ext2fs_iblk_add_blocks :: "ext2_filsys \<Rightarrow> ext2_inode \<Rightarrow> w64 \<Rightarrow> (errcode \<times> ext2_inode) option" where
  "ext2fs_iblk_add_blocks fs inode num_blocks =
     do { n \<leftarrow> iblk_units fs inode num_blocks;
          let b = iblk_count fs inode + n;
          if ext2fs_has_feature_huge_file (fs_super fs)
          then Some (0, inode\<lparr>l_i_blocks_hi := ucast (drop_bit 32 b), i_blocks := ucast (b AND 0xFFFFFFFF)\<rparr>)
          else if b > 0xFFFFFFFF then Some (EOVERFLOW, inode)
          else Some (0, inode\<lparr>i_blocks := ucast (b AND 0xFFFFFFFF)\<rparr>) }"

definition ext2fs_iblk_sub_blocks :: "ext2_filsys \<Rightarrow> ext2_inode \<Rightarrow> w64 \<Rightarrow> (errcode \<times> ext2_inode) option" where
  "ext2fs_iblk_sub_blocks fs inode num_blocks =
     do { n \<leftarrow> iblk_units fs inode num_blocks;
          let b = iblk_count fs inode;
          if n > b then Some (EOVERFLOW, inode)
          else
            let b' = b - n;
                inode1 = (if ext2fs_has_feature_huge_file (fs_super fs) then inode\<lparr>l_i_blocks_hi := ucast (drop_bit 32 b')\<rparr> else inode)
            in Some (0, inode1\<lparr>i_blocks := ucast (b' AND 0xFFFFFFFF)\<rparr>) }"

definition ext2fs_iblk_set :: "ext2_filsys \<Rightarrow> ext2_inode \<Rightarrow> w64 \<Rightarrow> (errcode \<times> ext2_inode) option" where
  "ext2fs_iblk_set fs inode num =
     do { b \<leftarrow> iblk_units fs inode num;
          let inode1 = inode\<lparr>i_blocks := ucast (b AND 0xFFFFFFFF)\<rparr>;
          if ext2fs_has_feature_huge_file (fs_super fs) then Some (0, inode1\<lparr>l_i_blocks_hi := ucast (drop_bit 32 b)\<rparr>)
          else if drop_bit 32 b \<noteq> 0 then Some (EOVERFLOW, inode1) else Some (0, inode1) }"

definition ext2fs_inode_has_valid_blocks2 :: "ext2_filsys option \<Rightarrow> ext2_inode \<Rightarrow> bool option" where
  "ext2fs_inode_has_valid_blocks2 fs inode =
     (let inline_free = Some (i_flags inode AND 0x10000000 = 0) in
      if \<not> LINUX_S_ISDIR (i_mode inode) \<and> \<not> LINUX_S_ISREG (i_mode inode) \<and> \<not> LINUX_S_ISLNK (i_mode inode) then Some False
      else if LINUX_S_ISLNK (i_mode inode) then
        (if ext2fs_file_acl_block fs inode = 0 then (if i_blocks inode = 0 then Some False else inline_free)
         else if i_size inode \<ge> 60 then Some True
         else if i_size inode > 4 then do { b \<leftarrow> rd (i_block inode) 1; Some (b = 0) }
         else Some False)
      else inline_free)"

definition ext2fs_inode_has_valid_blocks :: "ext2_inode \<Rightarrow> bool option" where
  "ext2fs_inode_has_valid_blocks inode = ext2fs_inode_has_valid_blocks2 None inode"

section \<open>Adding and taking away\<close>

lemma low_32: "(ucast (v AND 0xFFFFFFFF) :: u32) = ucast v" for v :: w64
proof -
  have m: "(0xFFFFFFFF :: w64) = mask 32" by (simp add: mask_eq_exp_minus_1)
  have "(ucast (v AND mask 32) :: u32) = ucast v" by (rule bit_word_eqI) (auto simp: bit_simps)
  then show ?thesis unfolding m .
qed

lemma unat_halves: "unat ((ucast a :: w64) + push_bit 32 (ucast h)) = unat a + 2 ^ 32 * unat h" for a :: u32 and h :: u16
proof -
  have h: "unat h < 2 ^ 16" using unsigned_less [of h, where 'a = nat] by simp
  then have u: "unat (ucast h :: w64) = unat h"
    by (simp add: unsigned_ucast_eq take_bit_nat_eq_self_iff)
  have "unat (push_bit 32 (ucast h) :: w64) = 2 ^ 32 * unat h"
    using h u by (simp add: push_bit_eq_mult unat_word_ariths mult.commute)
  then show ?thesis using h unat_lt_32 [of a] by (simp add: unat_word_ariths)
qed

lemma halves_of:
  fixes b :: w64
  shows "unat (ucast b :: u32) + 2 ^ 32 * unat (ucast (drop_bit 32 b) :: u16) = unat b mod 2 ^ 48"
proof -
  have "unat (ucast (drop_bit 32 b) :: u16) = unat b div 2 ^ 32 mod 2 ^ 16"
    by (simp add: unsigned_ucast_eq drop_bit_eq_div unat_div take_bit_eq_mod)
  moreover have "unat b mod 2 ^ 48 = unat b mod 2 ^ 32 + 2 ^ 32 * (unat b div 2 ^ 32 mod 2 ^ 16)"
    using mod_mult2_eq [of "unat b" "2 ^ 32" "2 ^ 16"] by (simp add: add.commute)
  ultimately show ?thesis by (simp add: unat_down_32)
qed

text \<open>The count as a number.\<close>

definition sectors :: "ext2_filsys \<Rightarrow> ext2_inode \<Rightarrow> nat" where
  "sectors fs inode =
     unat (i_blocks inode) + (if ext2fs_has_feature_huge_file (fs_super fs) then 2 ^ 32 * unat (l_i_blocks_hi inode) else 0)"

lemma iblk_count_unat: "unat (iblk_count fs inode) = sectors fs inode"
  using unat_halves [of "i_blocks inode" "l_i_blocks_hi inode"] by (simp add: iblk_count_def sectors_def)

text \<open>Storing a count.\<close>

definition put_count :: "ext2_filsys \<Rightarrow> ext2_inode \<Rightarrow> w64 \<Rightarrow> ext2_inode" where
  "put_count fs inode b =
     (if ext2fs_has_feature_huge_file (fs_super fs) then inode\<lparr>l_i_blocks_hi := ucast (drop_bit 32 b)\<rparr> else inode)\<lparr>i_blocks := ucast b\<rparr>"

definition count_limit :: "ext2_filsys \<Rightarrow> nat" where
  "count_limit fs = (if ext2fs_has_feature_huge_file (fs_super fs) then 2 ^ 48 else 2 ^ 32)"

lemma sectors_put: "sectors fs (put_count fs inode b) = unat b mod count_limit fs"
  using halves_of [of b] by (auto simp: sectors_def put_count_def count_limit_def unat_down_32 split: if_splits)

lemma sectors_limit: "sectors fs inode < count_limit fs"
proof -
  have "unat (l_i_blocks_hi inode) < 2 ^ 16" using unsigned_less [of "l_i_blocks_hi inode", where 'a = nat] by simp
  then show ?thesis using unat_lt_32 [of "i_blocks inode"] by (simp add: sectors_def count_limit_def)
qed

lemma put_count_same:
  assumes "unat b = sectors fs inode"
  shows "put_count fs inode b = inode"
proof -
  let ?lo = "ucast b :: u32" and ?hi = "ucast (drop_bit 32 b) :: u16" and ?h = "ext2fs_has_feature_huge_file (fs_super fs)"
  have e: "unat ?lo + (if ?h then 2 ^ 32 * unat ?hi else 0) = unat (i_blocks inode) + (if ?h then 2 ^ 32 * unat (l_i_blocks_hi inode) else 0)"
    using sectors_put [of fs inode b] sectors_limit [of fs inode] assms by (auto simp: sectors_def put_count_def)
  have "unat x = (unat x + (if ?h then 2 ^ 32 * k else 0)) mod 2 ^ 32" for x :: u32 and k using unat_lt_32 [of x] by simp
  then have "unat ?lo = unat (i_blocks inode)" using e by metis
  then have lo: "?lo = i_blocks inode" by (rule unsigned_word_eqI)
  then have "?hi = l_i_blocks_hi inode" if ?h using e that by (simp add: word_unat_eq_iff)
  then show ?thesis using lo by (simp add: put_count_def)
qed

lemma put_count_again [simp]: "put_count fs (put_count fs inode b) c = put_count fs inode c"
  by (simp add: put_count_def)

lemma iblk_units_put [simp]: "iblk_units fs (put_count fs inode b) = iblk_units fs inode"
  by (simp add: iblk_units_def put_count_def fun_eq_iff)

lemma iblk_add_eq:
  assumes "iblk_units fs inode num = Some n"
  shows "ext2fs_iblk_add_blocks fs inode num =
    (let b = iblk_count fs inode + n in
     if \<not> ext2fs_has_feature_huge_file (fs_super fs) \<and> unat b \<ge> 2 ^ 32 then Some (EOVERFLOW, inode) else Some (0, put_count fs inode b))"
  using assms by (simp add: ext2fs_iblk_add_blocks_def put_count_def Let_def low_32 word_less_nat_alt Suc_le_eq)

lemma iblk_sub_eq:
  assumes "iblk_units fs inode num = Some n"
  shows "ext2fs_iblk_sub_blocks fs inode num =
    (if unat n > sectors fs inode then Some (EOVERFLOW, inode) else Some (0, put_count fs inode (iblk_count fs inode - n)))"
  using assms by (simp add: ext2fs_iblk_sub_blocks_def put_count_def Let_def low_32 word_less_nat_alt iblk_count_unat)

text \<open>The small file system without the huge-file feature.\<close>

definition plain_fs :: ext2_filsys where
  "plain_fs = small_fs\<lparr>fs_super := (fs_super small_fs)\<lparr>s_feature_ro_compat := 0\<rparr>\<rparr>"

section \<open>Property\<close>

text \<open>C32. Adding blocks to the count of an inode, in units of the count as a 64-bit product. Without the huge-file feature a sum,
  taken at 64 bits, of \<open>2 ^ 32\<close> or more is refused and the inode is kept. Otherwise the call succeeds and stores the sum modulo
  \<open>2 ^ 32\<close> or, with the feature, modulo \<open>2 ^ 48\<close>, where a larger sum is cut without an error; a sum that fits the field is stored as it
  is, and taking the same number of blocks away then gives back the inode. Taking away more than there is is refused, with the inode
  kept; otherwise the difference is stored.\<close>

theorem iblk_add_sub_roundtrip:
  assumes units: "iblk_units fs inode num = Some n"
  shows "(if \<not> ext2fs_has_feature_huge_file (fs_super fs) \<and> (sectors fs inode + unat n) mod 2 ^ 64 \<ge> 2 ^ 32
          then ext2fs_iblk_add_blocks fs inode num = Some (EOVERFLOW, inode)
          else \<exists>inode'. ext2fs_iblk_add_blocks fs inode num = Some (0, inode') \<and>
                 sectors fs inode' = (sectors fs inode + unat n) mod 2 ^ 64 mod count_limit fs \<and>
                 (sectors fs inode + unat n < count_limit fs \<longrightarrow> ext2fs_iblk_sub_blocks fs inode' num = Some (0, inode))) \<and>
         (if sectors fs inode < unat n then ext2fs_iblk_sub_blocks fs inode num = Some (EOVERFLOW, inode)
          else \<exists>inode'. ext2fs_iblk_sub_blocks fs inode num = Some (0, inode') \<and> sectors fs inode' = sectors fs inode - unat n)"
    (is "?adding \<and> ?taking")
proof
  let ?b = "iblk_count fs inode + n"
  have b: "unat ?b = (sectors fs inode + unat n) mod 2 ^ 64" by (simp add: unat_word_ariths iblk_count_unat)
  have back_to: "ext2fs_iblk_sub_blocks fs (put_count fs inode ?b) num = Some (0, inode)"
    if l: "sectors fs inode + unat n < count_limit fs"
  proof -
    have e: "unat ?b = sectors fs inode + unat n" using l b by (simp add: count_limit_def split: if_splits)
    then have p: "sectors fs (put_count fs inode ?b) = unat ?b" using l by (simp add: sectors_put)
    then have "unat (iblk_count fs (put_count fs inode ?b)) = unat ?b" by (simp add: iblk_count_unat)
    then have "iblk_count fs (put_count fs inode ?b) = ?b" by (rule unsigned_word_eqI)
    then have "unat (iblk_count fs (put_count fs inode ?b) - n) = sectors fs inode" by (simp add: iblk_count_unat)
    then show ?thesis using units p e by (simp add: iblk_sub_eq put_count_same)
  qed
  show ?adding
    unfolding iblk_add_eq [OF units] Let_def b using back_to by (auto simp: sectors_put b)
  have "unat (iblk_count fs inode - n) = sectors fs inode - unat n" if "\<not> sectors fs inode < unat n"
    using that unat_sub [of n "iblk_count fs inode"] by (simp add: word_le_nat_alt iblk_count_unat)
  then show ?taking
    using sectors_limit [of fs inode] by (simp add: iblk_sub_eq [OF units] sectors_put)
qed

text \<open>The example fits; with the high half full the sum is cut; without the feature it is refused.\<close>

theorem iblk_add_sub_roundtrip_witness:
  "(\<exists>inode'. ext2fs_iblk_add_blocks small_fs small_inode 3 = Some (0, inode') \<and> sectors small_fs inode' = 16 \<and>
      ext2fs_iblk_sub_blocks small_fs inode' 3 = Some (0, small_inode)) \<and>
   ext2fs_iblk_sub_blocks small_fs (small_inode\<lparr>i_blocks := 2\<rparr>) 3 = Some (EOVERFLOW, small_inode\<lparr>i_blocks := 2\<rparr>) \<and>
   (\<exists>inode'. ext2fs_iblk_add_blocks small_fs (small_inode\<lparr>i_blocks := 0xFFFFFFFF, l_i_blocks_hi := 0xFFFF\<rparr>) 3 = Some (0, inode') \<and>
      sectors small_fs inode' = 5) \<and>
   ext2fs_iblk_add_blocks plain_fs (small_inode\<lparr>i_blocks := 0xFFFFFFFE\<rparr>) 3 = Some (EOVERFLOW, small_inode\<lparr>i_blocks := 0xFFFFFFFE\<rparr>)"
proof -
  have h: "ext2fs_has_feature_huge_file (fs_super small_fs)" "\<not> ext2fs_has_feature_huge_file (fs_super plain_fs)"
    by (simp_all add: ext2fs_has_feature_huge_file_def plain_fs_def small_fs_def small_super_def)
  have u: "iblk_units small_fs i 3 = Some 6" "iblk_units plain_fs i 3 = Some 6" if "i_flags i = 0" for i
    using that by (simp_all add: iblk_units_def plain_fs_def small_fs_def EXT2FS_CLUSTER_RATIO_def)
  have f: "i_flags small_inode = 0" by (simp add: small_inode_def)
  have s: "sectors small_fs small_inode = 10" "sectors small_fs (small_inode\<lparr>i_blocks := 2\<rparr>) = 2"
    "sectors small_fs (small_inode\<lparr>i_blocks := 0xFFFFFFFF, l_i_blocks_hi := 0xFFFF\<rparr>) = 2 ^ 48 - 1"
    "sectors plain_fs (small_inode\<lparr>i_blocks := 0xFFFFFFFE\<rparr>) = 2 ^ 32 - 2"
    using h by (simp_all add: sectors_def small_inode_def)
  have l: "count_limit small_fs = 2 ^ 48" using h by (simp add: count_limit_def)
  show ?thesis
    using iblk_add_sub_roundtrip [OF u(1), of small_inode] iblk_add_sub_roundtrip [OF u(1), of "small_inode\<lparr>i_blocks := 2\<rparr>"]
      iblk_add_sub_roundtrip [OF u(1), of "small_inode\<lparr>i_blocks := 0xFFFFFFFF, l_i_blocks_hi := 0xFFFF\<rparr>"]
      iblk_add_sub_roundtrip [OF u(2), of "small_inode\<lparr>i_blocks := 0xFFFFFFFE\<rparr>"] h s l f by simp
qed

end
