(* ===== verification/Closefs.thy ===== *)
theory Closefs
  imports Blknum_Geometry
begin

text \<open>
  Backups of the superblock, \<^verbatim>\<open>lib/ext2fs/closefs.c\<close>: which groups hold a copy, and where the copy and the group descriptors are.
  A division by zero is \<open>None\<close>; \<open>test_root\<close> may run forever, which is the value \<open>None\<close>, too.
\<close>

section \<open>Model\<close>

partial_function (option) test_root :: "nat \<Rightarrow> nat \<Rightarrow> bool option" where
  "test_root a b =
     (if a < b then Some False
      else if a = b then Some True
      else if b = 0 then None
      else if a mod b \<noteq> 0 then Some False
      else test_root (a div b) b)"

definition ext2fs_bg_has_super :: "ext2_filsys \<Rightarrow> u32 \<Rightarrow> bool option" where
  "ext2fs_bg_has_super fs grp =
     (if grp = 0 then Some True
      else if ext2fs_has_feature_sparse_super2 (fs_super fs)
      then Some (grp = fst (s_backup_bgs (fs_super fs)) \<or> grp = snd (s_backup_bgs (fs_super fs)))
      else if grp \<le> 1 \<or> \<not> ext2fs_has_feature_sparse_super (fs_super fs) then Some True
      else if grp AND 1 = 0 then Some False
      else do { a \<leftarrow> test_root (unat grp) 3;
                if a then Some True
                else do { b \<leftarrow> test_root (unat grp) 5;
                          if b then Some True else test_root (unat grp) 7 } })"

record bgd_loc =
  super_blk :: w64
  old_desc_blk :: w64
  new_desc_blk :: w64
  used_blks :: u32

definition ext2fs_super_and_bgd_loc2 :: "ext2_filsys \<Rightarrow> u32 \<Rightarrow> bgd_loc option" where
  "ext2fs_super_and_bgd_loc2 fs grp =
     (let first = ext2fs_group_first_block2 fs grp;
          group_block = (if first = 0 \<and> fs_blocksize fs = 1024 then 1 else first);
          meta = ext2fs_has_feature_meta_bg (fs_super fs);
          old_desc_blocks = (if meta then ucast (s_first_meta_bg (fs_super fs))
                             else fs_desc_blocks fs + ucast (s_reserved_gdt_blocks (fs_super fs)) :: w64)
      in do {
        has_super \<leftarrow> ext2fs_bg_has_super fs grp;
        let super = (if has_super then group_block else 0);
        let num = (if has_super then 1 else 0 :: u32);
        meta_bg_size \<leftarrow> EXT2_DESC_PER_BLOCK (fs_super fs);
        if meta_bg_size = 0 then None
        else
          let meta_bg = unat grp div meta_bg_size; k = unat grp mod meta_bg_size in
          if \<not> meta \<or> meta_bg < unat (s_first_meta_bg (fs_super fs))
          then Some \<lparr>super_blk = super, old_desc_blk = (if has_super then group_block + 1 else 0), new_desc_blk = 0,
                     used_blks = (if has_super then num + ucast old_desc_blocks else num)\<rparr>
          else if k = 0 \<or> k = 1 \<or> k = meta_bg_size - 1
          then Some \<lparr>super_blk = super, old_desc_blk = 0, new_desc_blk = group_block + (if has_super then 1 else 0), used_blks = num + 1\<rparr>
          else Some \<lparr>super_blk = super, old_desc_blk = 0, new_desc_blk = 0, used_blks = num\<rparr> })"

text \<open>The 32-bit results, the meta group and the number of free blocks; the code returns the number as \<^verbatim>\<open>int\<close>.\<close>

definition ext2fs_super_and_bgd_loc :: "ext2_filsys \<Rightarrow> u32 \<Rightarrow> (u32 \<times> u32 \<times> u32 \<times> nat \<times> u32) option" where
  "ext2fs_super_and_bgd_loc fs grp =
     do { l \<leftarrow> ext2fs_super_and_bgd_loc2 fs grp;
          n \<leftarrow> ext2fs_group_blocks_count fs grp;
          m \<leftarrow> EXT2_DESC_PER_BLOCK (fs_super fs);
          if m = 0 then None
          else Some (ucast (super_blk l), ucast (old_desc_blk l), ucast (new_desc_blk l), unat grp div m,
                     n - (2 + fs_inode_blocks_per_group fs + used_blks l)) }"

section \<open>Powers\<close>

lemma test_root_spec:
  assumes "2 \<le> b" "0 < a"
  shows "test_root a b = Some (\<exists>k>0. a = b ^ k)"
  using assms(2)
proof (induction a rule: less_induct)
  case (less a)
  consider (small) "a < b" | (eq) "a = b" | (off) "b < a" "a mod b \<noteq> 0" | (down) "b < a" "a mod b = 0" by linarith
  then show ?case
  proof cases
    case small
    moreover have "b \<le> b ^ k" if "0 < k" for k using self_le_power [of b k] assms(1) that by simp
    ultimately have "\<not> (\<exists>k>0. a = b ^ k)" by (metis not_less)
    then show ?thesis using small by (subst test_root.simps) simp
  next
    case eq
    then have "\<exists>k>0. a = b ^ k" by (intro exI [of _ 1]) simp
    then show ?thesis using eq by (subst test_root.simps) simp
  next
    case off
    then have "\<not> (\<exists>k>0. a = b ^ k)" by (auto simp: dvd_eq_mod_eq_0 [symmetric])
    then show ?thesis using off assms(1) by (subst test_root.simps) simp
  next
    case down
    then obtain c where c: "a = b * c" by auto
    have d: "a div b = c" "c < a" "0 < c" using c assms(1) less.prems by auto
    have "test_root a b = test_root c b" using down assms(1) d by (subst test_root.simps) simp
    also have "\<dots> = Some (\<exists>k>0. c = b ^ k)" using less.IH d by blast
    also have "(\<exists>k>0. c = b ^ k) \<longleftrightarrow> (\<exists>k>0. a = b ^ k)"
    proof
      assume "\<exists>k>0. c = b ^ k"
      then show "\<exists>k>0. a = b ^ k" using c by (metis power_Suc zero_less_Suc)
    next
      assume "\<exists>k>0. a = b ^ k"
      then obtain k where "0 < k" "a = b ^ k" by (elim exE conjE)
      then have k: "0 < k" "b * c = b ^ k" using c by simp_all
      obtain j where j: "k = Suc j" using k(1) gr0_implies_Suc by blast
      then have cj: "c = b ^ j" using k(2) assms(1) by simp
      have "j \<noteq> 0"
      proof
        assume "j = 0"
        then have "a = b" using cj c by simp
        then show False using down(1) by simp
      qed
      then show "\<exists>k>0. c = b ^ k" using cj by blast
    qed
    finally show ?thesis .
  qed
qed

lemma odd_iff_and_1: "x AND 1 = 0 \<longleftrightarrow> even (unat x)" for x :: u32
proof -
  have "unat (x AND 1) = unat x mod 2" by (simp add: and_one_eq unat_mod)
  then show ?thesis by (metis even_iff_mod_2_eq_zero unat_eq_zero)
qed

section \<open>Property\<close>

text \<open>C33. The search for backups of the superblock always ends. Group 0 has the superblock; with two listed backup groups exactly these
  hold copies; without sparse superblocks every group does; with sparse superblocks exactly groups 0 and 1 and the powers of 3, 5 and 7.\<close>

theorem bg_has_super_correct:
  "ext2fs_bg_has_super fs grp = Some
     (grp = 0 \<or>
      (if ext2fs_has_feature_sparse_super2 (fs_super fs)
       then grp = fst (s_backup_bgs (fs_super fs)) \<or> grp = snd (s_backup_bgs (fs_super fs))
       else ext2fs_has_feature_sparse_super (fs_super fs) \<longrightarrow> (\<exists>k. unat grp \<in> {3 ^ k, 5 ^ k, 7 ^ k})))"
proof -
  have roots: "test_root (unat grp) b = Some (\<exists>k>0. unat grp = b ^ k)" if "grp \<noteq> 0" "2 \<le> b" for b
    using test_root_spec [of b "unat grp"] that by (simp add: unat_gt_0)
  have one: "grp \<le> 1 \<longleftrightarrow> unat grp = 0 \<or> unat grp = 1" by (simp add: word_le_nat_alt) linarith
  have pos: "(\<exists>k. unat grp = b ^ k) \<longleftrightarrow> unat grp = 1 \<or> (\<exists>k>0. unat grp = b ^ k)" for b
    by (metis gr0I power_0)
  have odd: "\<not> (\<exists>k. unat grp \<in> {3 ^ k, 5 ^ k, 7 ^ k})" if "grp AND 1 = 0"
    using that unfolding odd_iff_and_1 by auto
  have p1: "\<exists>k. Suc 0 = 3 ^ k \<or> Suc 0 = 5 ^ k \<or> Suc 0 = 7 ^ k" by (rule exI [of _ 0]) simp
  show ?thesis
  proof (cases "grp = 0 \<or> ext2fs_has_feature_sparse_super2 (fs_super fs) \<or> \<not> ext2fs_has_feature_sparse_super (fs_super fs) \<or> grp \<le> 1 \<or> grp AND 1 = 0")
    case True
    then show ?thesis
      using odd pos [of 3] one p1 by (auto simp: ext2fs_bg_has_super_def unat_eq_zero)
  next
    case False
    then have g: "grp \<noteq> 0" "\<not> grp \<le> 1" "grp AND 1 \<noteq> 0" by auto
    have "(\<exists>k. unat grp \<in> {3 ^ k, 5 ^ k, 7 ^ k}) \<longleftrightarrow>
        (\<exists>k>0. unat grp = 3 ^ k) \<or> (\<exists>k>0. unat grp = 5 ^ k) \<or> (\<exists>k>0. unat grp = 7 ^ k)"
      using pos [of 3] pos [of 5] pos [of 7] g(2) one by auto
    moreover define p3 where "p3 \<longleftrightarrow> (\<exists>k>0. unat grp = 3 ^ k)"
    moreover define p5 where "p5 \<longleftrightarrow> (\<exists>k>0. unat grp = 5 ^ k)"
    moreover define p7 where "p7 \<longleftrightarrow> (\<exists>k>0. unat grp = 7 ^ k)"
    ultimately have "(\<exists>k. unat grp \<in> {3 ^ k, 5 ^ k, 7 ^ k}) \<longleftrightarrow> p3 \<or> p5 \<or> p7" by simp
    moreover have "test_root (unat grp) 3 = Some p3" "test_root (unat grp) 5 = Some p5" "test_root (unat grp) 7 = Some p7"
      unfolding p3_def p5_def p7_def using roots [OF g(1)] by simp_all
    ultimately show ?thesis using False by (simp only: ext2fs_bg_has_super_def) simp
  qed
qed

theorem bg_has_super_correct_witness:
  "ext2fs_bg_has_super small_fs 49 = Some True \<and> ext2fs_bg_has_super small_fs 6 = Some False"
proof -
  have f: "\<not> ext2fs_has_feature_sparse_super2 (fs_super small_fs)" "ext2fs_has_feature_sparse_super (fs_super small_fs)"
    by (simp_all add: ext2fs_has_feature_sparse_super2_def ext2fs_has_feature_sparse_super_def small_fs_def small_super_def)
  have "\<exists>k. unat (49 :: u32) \<in> {3 ^ k, 5 ^ k, 7 ^ k}" by (rule exI [of _ 2]) simp
  moreover have "odd n" if "n \<in> {3 ^ k, 5 ^ k, 7 ^ k}" for n k :: nat using that by auto
  from this [of "unat (6 :: u32)"] have "\<not> (\<exists>k. unat (6 :: u32) \<in> {3 ^ k, 5 ^ k, 7 ^ k})" by auto
  ultimately show ?thesis
    using bg_has_super_correct [of small_fs 49] bg_has_super_correct [of small_fs 6] f by simp
qed

end
