(* ===== verification/Crc16.thy ===== *)
theory Crc16
  imports Fs_Struct
begin

text \<open>
  The CRC-16 of group descriptors, \<^verbatim>\<open>lib/ext2fs/crc16.c\<close>: a loop over bytes with a table of 256 entries. The reference is the
  division by the reflected polynomial \<open>0xA001\<close> bit by bit; the table is its effect on one byte.
\<close>

section \<open>Model\<close>

definition crc16_table :: "u16 list" where
  "crc16_table =
    [0x0, 0xC0C1, 0xC181, 0x140, 0xC301, 0x3C0, 0x280, 0xC241, 0xC601, 0x6C0, 0x780, 0xC741, 0x500, 0xC5C1, 0xC481, 0x440,
     0xCC01, 0xCC0, 0xD80, 0xCD41, 0xF00, 0xCFC1, 0xCE81, 0xE40, 0xA00, 0xCAC1, 0xCB81, 0xB40, 0xC901, 0x9C0, 0x880, 0xC841,
     0xD801, 0x18C0, 0x1980, 0xD941, 0x1B00, 0xDBC1, 0xDA81, 0x1A40, 0x1E00, 0xDEC1, 0xDF81, 0x1F40, 0xDD01, 0x1DC0, 0x1C80, 0xDC41,
     0x1400, 0xD4C1, 0xD581, 0x1540, 0xD701, 0x17C0, 0x1680, 0xD641, 0xD201, 0x12C0, 0x1380, 0xD341, 0x1100, 0xD1C1, 0xD081, 0x1040,
     0xF001, 0x30C0, 0x3180, 0xF141, 0x3300, 0xF3C1, 0xF281, 0x3240, 0x3600, 0xF6C1, 0xF781, 0x3740, 0xF501, 0x35C0, 0x3480, 0xF441,
     0x3C00, 0xFCC1, 0xFD81, 0x3D40, 0xFF01, 0x3FC0, 0x3E80, 0xFE41, 0xFA01, 0x3AC0, 0x3B80, 0xFB41, 0x3900, 0xF9C1, 0xF881, 0x3840,
     0x2800, 0xE8C1, 0xE981, 0x2940, 0xEB01, 0x2BC0, 0x2A80, 0xEA41, 0xEE01, 0x2EC0, 0x2F80, 0xEF41, 0x2D00, 0xEDC1, 0xEC81, 0x2C40,
     0xE401, 0x24C0, 0x2580, 0xE541, 0x2700, 0xE7C1, 0xE681, 0x2640, 0x2200, 0xE2C1, 0xE381, 0x2340, 0xE101, 0x21C0, 0x2080, 0xE041,
     0xA001, 0x60C0, 0x6180, 0xA141, 0x6300, 0xA3C1, 0xA281, 0x6240, 0x6600, 0xA6C1, 0xA781, 0x6740, 0xA501, 0x65C0, 0x6480, 0xA441,
     0x6C00, 0xACC1, 0xAD81, 0x6D40, 0xAF01, 0x6FC0, 0x6E80, 0xAE41, 0xAA01, 0x6AC0, 0x6B80, 0xAB41, 0x6900, 0xA9C1, 0xA881, 0x6840,
     0x7800, 0xB8C1, 0xB981, 0x7940, 0xBB01, 0x7BC0, 0x7A80, 0xBA41, 0xBE01, 0x7EC0, 0x7F80, 0xBF41, 0x7D00, 0xBDC1, 0xBC81, 0x7C40,
     0xB401, 0x74C0, 0x7580, 0xB541, 0x7700, 0xB7C1, 0xB681, 0x7640, 0x7200, 0xB2C1, 0xB381, 0x7340, 0xB101, 0x71C0, 0x7080, 0xB041,
     0x5000, 0x90C1, 0x9181, 0x5140, 0x9301, 0x53C0, 0x5280, 0x9241, 0x9601, 0x56C0, 0x5780, 0x9741, 0x5500, 0x95C1, 0x9481, 0x5440,
     0x9C01, 0x5CC0, 0x5D80, 0x9D41, 0x5F00, 0x9FC1, 0x9E81, 0x5E40, 0x5A00, 0x9AC1, 0x9B81, 0x5B40, 0x9901, 0x59C0, 0x5880, 0x9841,
     0x8801, 0x48C0, 0x4980, 0x8941, 0x4B00, 0x8BC1, 0x8A81, 0x4A40, 0x4E00, 0x8EC1, 0x8F81, 0x4F40, 0x8D01, 0x4DC0, 0x4C80, 0x8C41,
     0x4400, 0x84C1, 0x8581, 0x4540, 0x8701, 0x47C0, 0x4680, 0x8641, 0x8201, 0x42C0, 0x4380, 0x8341, 0x4100, 0x81C1, 0x8081, 0x4040]"

text \<open>The code keeps the value in an \<^verbatim>\<open>unsigned int\<close> and cuts it to 16 bits in every round.\<close>

fun ext2fs_crc16 :: "u16 \<Rightarrow> u8 list \<Rightarrow> nat \<Rightarrow> u16 option" where
  "ext2fs_crc16 crc buffer 0 = Some crc"
| "ext2fs_crc16 crc [] (Suc len) = None"
| "ext2fs_crc16 crc (b # buffer) (Suc len) =
     do { t \<leftarrow> rd crc16_table (unat ((crc XOR ucast b) AND 0xff));
          ext2fs_crc16 ((drop_bit 8 crc AND 0xff) XOR t) buffer len }"

section \<open>Reference: one bit at a time\<close>

definition crc_bit :: "u16 \<Rightarrow> u16" where
  "crc_bit c = (if bit c 0 then drop_bit 1 c XOR 0xA001 else drop_bit 1 c)"

definition crc_byte :: "u16 \<Rightarrow> u8 \<Rightarrow> u16" where
  "crc_byte c b = (crc_bit ^^ 8) (c XOR ucast b)"

text \<open>The reference is linear.\<close>

lemma crc_bit_xor: "crc_bit (a XOR b) = crc_bit a XOR crc_bit b"
  by (simp add: crc_bit_def bit_simps drop_bit_xor xor.assoc xor.left_commute xor.commute)

lemma crc_bits_xor: "(crc_bit ^^ n) (a XOR b) = (crc_bit ^^ n) a XOR (crc_bit ^^ n) b"
  by (induction n arbitrary: a b) (simp_all add: crc_bit_xor funpow_swap1)

lemma crc_bits_high: "\<forall>i<n. \<not> bit x i \<Longrightarrow> (crc_bit ^^ n) x = drop_bit n x"
proof (induction n)
  case (Suc n)
  then have "(crc_bit ^^ Suc n) x = crc_bit (drop_bit n x)" by simp
  also have "\<dots> = drop_bit 1 (drop_bit n x)" using Suc.prems by (simp add: crc_bit_def bit_drop_bit_eq)
  finally show ?case by (simp add: drop_bit_drop_bit)
qed simp

text \<open>The table doubles: the entry of an index with one more high bit is the entry of the rest and that of the bit.\<close>

definition crc_entry :: "nat \<Rightarrow> u16" where
  "crc_entry i = (crc_bit ^^ 8) (of_nat i)"

lemma of_nat_add_high:
  assumes "j < 2 ^ k"
  shows "(of_nat (2 ^ k + j) :: u16) = of_nat (2 ^ k) XOR of_nat j"
proof -
  have "\<not> bit j n" if "k \<le> n" for n
    using assms that take_bit_nat_eq_self [OF assms] by (metis bit_take_bit_iff not_less)
  then have "(of_nat (2 ^ k) :: u16) AND of_nat j = 0"
    by (intro bit_word_eqI) (auto simp: bit_simps bit_of_nat_iff_bit)
  then show ?thesis by (simp add: disjunctive_add_eq_xor)
qed

lemma crc_entry_high: "j < 2 ^ k \<Longrightarrow> crc_entry (2 ^ k + j) = crc_entry j XOR crc_entry (2 ^ k)"
  unfolding crc_entry_def of_nat_add_high crc_bits_xor by (simp add: xor.commute)

lemma crc_entries_double:
  "map crc_entry [0..<2 ^ Suc k] = map crc_entry [0..<2 ^ k] @ map (\<lambda>x. x XOR crc_entry (2 ^ k)) (map crc_entry [0..<2 ^ k])"
proof -
  have "[0..<2 ^ Suc k] = [0..<2 ^ k] @ map (\<lambda>j. 2 ^ k + j) [0..<2 ^ k]"
  proof (rule nth_equalityI)
    fix i assume "i < length [0..<2 ^ Suc k]"
    then show "[0..<2 ^ Suc k] ! i = ([0..<2 ^ k] @ map (\<lambda>j. 2 ^ k + j) [0..<2 ^ k]) ! i"
      by (cases "i < 2 ^ k") (simp_all add: nth_append)
  qed simp
  then show ?thesis by (simp add: crc_entry_high del: upt_Suc)
qed

lemma crc_entry_powers:
  "crc_entry 0 = 0" "crc_entry (Suc 0) = 0xC0C1" "crc_entry 2 = 0xC181" "crc_entry 4 = 0xC301" "crc_entry 8 = 0xC601"
  "crc_entry 16 = 0xCC01" "crc_entry 32 = 0xD801" "crc_entry 64 = 0xF001" "crc_entry 128 = 0xA001"
  by (code_simp)+

lemma crc16_table_ref: "crc16_table = map crc_entry [0..<256]"
proof -
  have "map crc_entry [0..<1] = [0]" by (simp add: crc_entry_powers)
  note e = this crc_entries_double [of 0] crc_entries_double [of 1] crc_entries_double [of 2] crc_entries_double [of 3]
    crc_entries_double [of 4] crc_entries_double [of 5] crc_entries_double [of 6] crc_entries_double [of 7]
  show ?thesis
    using e by (simp add: crc_entry_powers crc16_table_def del: upt_rec_numeral)
qed

lemma crc_byte_table:
  "rd crc16_table (unat ((c XOR ucast b) AND 0xff)) = Some t \<longleftrightarrow> t = (crc_bit ^^ 8) ((c XOR ucast b) AND 0xff)"
proof -
  let ?x = "(c XOR ucast b) AND 0xff"
  have "?x \<le> 0xff" by (rule word_and_le1)
  then have "unat ?x < 256" by (simp add: word_le_nat_alt)
  then show ?thesis unfolding crc16_table_ref by (auto simp: rd_def crc_entry_def)
qed

lemma crc_byte_split: "crc_byte c b = (drop_bit 8 c AND 0xff) XOR (crc_bit ^^ 8) ((c XOR ucast b) AND 0xff)"
proof -
  let ?x = "c XOR ucast b"
  have m: "(0xff :: u16) = mask 8" by (simp add: mask_eq_exp_minus_1)
  have "?x = (?x AND NOT (mask 8)) XOR (?x AND mask 8)" by (rule bit_word_eqI) (auto simp: bit_simps)
  then have "crc_byte c b = (crc_bit ^^ 8) (?x AND NOT (mask 8)) XOR (crc_bit ^^ 8) (?x AND mask 8)"
    unfolding crc_byte_def using crc_bits_xor [of 8] by metis
  moreover have "(crc_bit ^^ 8) (?x AND NOT (mask 8)) = drop_bit 8 (?x AND NOT (mask 8))"
    by (rule crc_bits_high) (auto simp: bit_simps)
  moreover have "drop_bit 8 (?x AND NOT (mask 8)) = drop_bit 8 c AND mask 8"
    by (rule bit_word_eqI) (auto simp: bit_simps dest: bit_imp_le_length)
  ultimately show ?thesis unfolding m by simp
qed

lemma crc16_spec: "len \<le> length buffer \<Longrightarrow> ext2fs_crc16 crc buffer len = Some (fold (\<lambda>b c. crc_byte c b) (take len buffer) crc)"
proof (induction crc buffer len rule: ext2fs_crc16.induct)
  case (3 crc b buffer len)
  then show ?case
    using crc_byte_table [of crc b] crc_byte_split [of crc b] by (auto simp: bind_eq_Some_conv)
qed simp_all

section \<open>Property\<close>

text \<open>On a buffer of at least the given length the table-driven CRC reads only the buffer and the table and equals the
  reference that divides bit by bit, so that the CRC of two parts is the CRC of the second part started with that of the first.\<close>

theorem crc16_matches_reference:
  assumes "len \<le> length buffer"
  shows "ext2fs_crc16 crc buffer len = Some (fold (\<lambda>b c. crc_byte c b) (take len buffer) crc) \<and>
         ext2fs_crc16 crc buffer (length buffer) = do { c \<leftarrow> ext2fs_crc16 crc buffer len; ext2fs_crc16 c (drop len buffer) (length buffer - len) }"
proof -
  have "fold (\<lambda>b c. crc_byte c b) buffer crc =
      fold (\<lambda>b c. crc_byte c b) (drop len buffer) (fold (\<lambda>b c. crc_byte c b) (take len buffer) crc)"
    by (metis append_take_drop_id comp_apply fold_append)
  then show ?thesis using assms by (simp add: crc16_spec)
qed

theorem crc16_matches_reference_witness:
  "ext2fs_crc16 0xffff [0x31, 0x32, 0x33] 2 = Some (fold (\<lambda>b c. crc_byte c b) (take 2 [0x31, 0x32, 0x33]) 0xffff) \<and>
   ext2fs_crc16 0xffff [0x31, 0x32, 0x33] (length [0x31, 0x32, 0x33 :: u8]) =
     do { c \<leftarrow> ext2fs_crc16 0xffff [0x31, 0x32, 0x33] 2; ext2fs_crc16 c (drop 2 [0x31, 0x32, 0x33]) (length [0x31, 0x32, 0x33 :: u8] - 2) }"
  by (rule crc16_matches_reference) simp

end
