(* ===== verification/Uuid.thy ===== *)
theory Uuid
  imports Fs_Struct
begin

text \<open>
  Universally unique identifiers, \<^verbatim>\<open>lib/uuid\<close>: the packed form of 16 bytes (\<^verbatim>\<open>pack.c\<close>, \<^verbatim>\<open>unpack.c\<close>), the text form
  (\<^verbatim>\<open>parse.c\<close>, \<^verbatim>\<open>unparse.c\<close>), comparison, copy and the null identifier. A C string is the list of its characters before the
  terminating zero. Of the C library the code uses \<^verbatim>\<open>strtoul\<close> in base 16 and the conversions \<^verbatim>\<open>%0nx\<close> and \<^verbatim>\<open>%0nX\<close>;
  both are written out.
\<close>

section \<open>Packed form\<close>

record uuid =
  time_low :: u32
  time_mid :: u16
  time_hi_and_version :: u16
  clock_seq :: u16
  node :: "u8 list"

definition uuid_pack :: "uuid \<Rightarrow> u8 list" where
  "uuid_pack uu =
     [ucast (drop_bit 24 (time_low uu)), ucast (drop_bit 16 (time_low uu)), ucast (drop_bit 8 (time_low uu)), ucast (time_low uu),
      ucast (drop_bit 8 (time_mid uu)), ucast (time_mid uu),
      ucast (drop_bit 8 (time_hi_and_version uu)), ucast (time_hi_and_version uu),
      ucast (drop_bit 8 (clock_seq uu)), ucast (clock_seq uu)] @ take 6 (node uu)"

text \<open>The bytes are read one after the other.\<close>

definition be16 :: "u8 \<Rightarrow> u8 \<Rightarrow> u16" where
  "be16 a b = push_bit 8 (ucast a) OR ucast b"

definition be32 :: "u8 \<Rightarrow> u8 \<Rightarrow> u8 \<Rightarrow> u8 \<Rightarrow> u32" where
  "be32 a b c d = push_bit 8 (push_bit 8 (push_bit 8 (ucast a) OR ucast b) OR ucast c) OR ucast d"

fun uuid_unpack :: "u8 list \<Rightarrow> uuid option" where
  "uuid_unpack (a # b # c # d # e # f # g # h # i # j # n) =
     (if length n < 6 then None
      else Some \<lparr>time_low = be32 a b c d, time_mid = be16 e f, time_hi_and_version = be16 g h, clock_seq = be16 i j, node = take 6 n\<rparr>)"
| "uuid_unpack _ = None"

section \<open>Text form\<close>

definition hexval :: "char \<Rightarrow> nat option" where
  "hexval c =
     (let n = of_char c :: nat in
      if 48 \<le> n \<and> n \<le> 57 then Some (n - 48)
      else if 65 \<le> n \<and> n \<le> 70 then Some (n - 55)
      else if 97 \<le> n \<and> n \<le> 102 then Some (n - 87)
      else None)"

definition isxdigit :: "char \<Rightarrow> bool" where "isxdigit c \<longleftrightarrow> hexval c \<noteq> None"

definition isspace :: "char \<Rightarrow> bool" where
  "isspace c \<longleftrightarrow> (let n = of_char c :: nat in n = 32 \<or> 9 \<le> n \<and> n \<le> 13)"

fun hexnum :: "nat \<Rightarrow> string \<Rightarrow> nat" where
  "hexnum acc [] = acc"
| "hexnum acc (c # s) = (case hexval c of None \<Rightarrow> acc | Some d \<Rightarrow> hexnum (16 * acc + d) s)"

text \<open>\<^verbatim>\<open>strtoul(s, NULL, 16)\<close>: white space, a sign, the prefix 0x before a digit, digits; a number that is too large is the largest one.\<close>

definition strtoul16 :: "string \<Rightarrow> nat" where
  "strtoul16 s =
     (let s1 = dropWhile isspace s;
          neg = (s1 \<noteq> [] \<and> hd s1 = CHR ''-'');
          s2 = (if s1 \<noteq> [] \<and> (hd s1 = CHR ''-'' \<or> hd s1 = CHR ''+'') then tl s1 else s1);
          s3 = (case s2 of a # b # c # r \<Rightarrow> if a = CHR ''0'' \<and> (b = CHR ''x'' \<or> b = CHR ''X'') \<and> isxdigit c then c # r else s2 | _ \<Rightarrow> s2);
          n = hexnum 0 s3
      in if n \<ge> W64 then W64 - 1 else if neg \<and> n \<noteq> 0 then W64 - n else n)"

text \<open>The characters from position \<open>i\<close> on; the list ends at the terminating zero.\<close>

fun uuid_chars_ok :: "nat \<Rightarrow> string \<Rightarrow> bool" where
  "uuid_chars_ok i [] \<longleftrightarrow> i = 36"
| "uuid_chars_ok i (c # s) \<longleftrightarrow>
     (if i = 8 \<or> i = 13 \<or> i = 18 \<or> i = 23 then c = CHR ''-'' else isxdigit c) \<and> uuid_chars_ok (Suc i) s"

fun parse_node :: "nat \<Rightarrow> string \<Rightarrow> u8 list option" where
  "parse_node 0 s = Some []"
| "parse_node (Suc n) (a # b # s) = map_option (\<lambda>ns. of_nat (strtoul16 [a, b]) # ns) (parse_node n s)"
| "parse_node (Suc n) _ = None"

definition uuid_parse :: "string \<Rightarrow> (int \<times> u8 list option) option" where
  "uuid_parse s =
     (if length s \<noteq> 36 \<or> \<not> uuid_chars_ok 0 s then Some (-1, None)
      else do { n \<leftarrow> parse_node 6 (drop 24 s);
                Some (0, Some (uuid_pack \<lparr>time_low = of_nat (strtoul16 s), time_mid = of_nat (strtoul16 (drop 9 s)),
                                          time_hi_and_version = of_nat (strtoul16 (drop 14 s)), clock_seq = of_nat (strtoul16 (drop 19 s)),
                                          node = n\<rparr>)) })"

definition hexdigit :: "bool \<Rightarrow> nat \<Rightarrow> char" where
  "hexdigit upper d = char_of (if d < 10 then 48 + d else if upper then 55 + d else 87 + d)"

fun to_hex :: "bool \<Rightarrow> nat \<Rightarrow> string" where
  "to_hex upper n = (if n < 16 then [hexdigit upper n] else to_hex upper (n div 16) @ [hexdigit upper (n mod 16)])"

declare to_hex.simps [simp del]

definition fmt_hex :: "bool \<Rightarrow> nat \<Rightarrow> nat \<Rightarrow> string" where
  "fmt_hex upper width n = (let s = to_hex upper n in replicate (width - length s) CHR ''0'' @ s)"

definition uuid_unparse_x :: "bool \<Rightarrow> u8 list \<Rightarrow> string option" where
  "uuid_unparse_x upper uu =
     do { u \<leftarrow> uuid_unpack uu;
          Some (fmt_hex upper 8 (unat (time_low u)) @ ''-'' @ fmt_hex upper 4 (unat (time_mid u)) @ ''-'' @
                fmt_hex upper 4 (unat (time_hi_and_version u)) @ ''-'' @
                fmt_hex upper 2 (unat (drop_bit 8 (clock_seq u))) @ fmt_hex upper 2 (unat (clock_seq u AND 0xFF)) @ ''-'' @
                concat (map (\<lambda>b. fmt_hex upper 2 (unat b)) (take 6 (node u)))) }"

definition uuid_unparse_lower :: "u8 list \<Rightarrow> string option" where "uuid_unparse_lower = uuid_unparse_x False"
definition uuid_unparse_upper :: "u8 list \<Rightarrow> string option" where "uuid_unparse_upper = uuid_unparse_x True"
definition uuid_unparse :: "u8 list \<Rightarrow> string option" where "uuid_unparse = uuid_unparse_x False"

section \<open>Comparison, copy, null\<close>

fun memcmp :: "u8 list \<Rightarrow> u8 list \<Rightarrow> nat \<Rightarrow> int option" where
  "memcmp a b 0 = Some 0"
| "memcmp (x # a) (y # b) (Suc n) = (if x = y then memcmp a b n else Some (if x < y then -1 else 1))"
| "memcmp _ _ (Suc n) = None"

definition uucmp :: "'a::linorder \<Rightarrow> 'a \<Rightarrow> int option \<Rightarrow> int option" where
  "uucmp a b rest = (if a \<noteq> b then Some (if a < b then -1 else 1) else rest)"

definition uuid_compare :: "u8 list \<Rightarrow> u8 list \<Rightarrow> int option" where
  "uuid_compare uu1 uu2 =
     do { u \<leftarrow> uuid_unpack uu1; v \<leftarrow> uuid_unpack uu2;
          uucmp (time_low u) (time_low v) (uucmp (time_mid u) (time_mid v)
            (uucmp (time_hi_and_version u) (time_hi_and_version v) (uucmp (clock_seq u) (clock_seq v) (memcmp (node u) (node v) 6)))) }"

fun null_from :: "u8 list \<Rightarrow> nat \<Rightarrow> bool option" where
  "null_from uu 0 = Some True"
| "null_from (b # uu) (Suc n) = (if b \<noteq> 0 then Some False else null_from uu n)"
| "null_from [] (Suc n) = None"

definition uuid_is_null :: "u8 list \<Rightarrow> bool option" where "uuid_is_null uu = null_from uu 16"

definition uuid_clear :: "u8 list \<Rightarrow> u8 list option" where
  "uuid_clear uu = (if length uu < 16 then None else Some (replicate 16 0 @ drop 16 uu))"

definition uuid_copy :: "u8 list \<Rightarrow> u8 list \<Rightarrow> u8 list option" where
  "uuid_copy dst src = (if length dst < 16 \<or> length src < 16 then None else Some (take 16 src @ drop 16 dst))"

section \<open>Packing and unpacking\<close>

lemma be16_split: "be16 (ucast (drop_bit 8 v)) (ucast v) = v"
  unfolding be16_def by (rule bit_word_eqI) (auto simp: bit_simps not_less)

lemma be32_split: "be32 (ucast (drop_bit 24 w)) (ucast (drop_bit 16 w)) (ucast (drop_bit 8 w)) (ucast w) = w"
proof (rule bit_word_eqI)
  fix n assume n: "n < LENGTH(32)"
  consider "n < 8" | "8 \<le> n" "n < 16" | "16 \<le> n" "n < 24" | "24 \<le> n" by linarith
  then show "bit (be32 (ucast (drop_bit 24 w)) (ucast (drop_bit 16 w)) (ucast (drop_bit 8 w)) (ucast w)) n = bit w n"
    using n by cases (auto simp: be32_def bit_simps)
qed

lemmas be_split = be16_split be32_split

lemma be_join:
  "ucast (drop_bit 8 (be16 a b)) = a" "ucast (be16 a b) = b"
  "ucast (drop_bit 24 (be32 a b c d)) = a" "ucast (drop_bit 16 (be32 a b c d)) = b"
  "ucast (drop_bit 8 (be32 a b c d)) = c" "ucast (be32 a b c d) = d"
  unfolding be16_def be32_def by (rule bit_word_eqI; auto simp: bit_simps dest: bit_imp_le_length)+

lemma unpack_pack: "length (node u) = 6 \<Longrightarrow> uuid_unpack (uuid_pack u) = Some u"
  by (simp add: uuid_pack_def be_split)

lemma length_16_cases:
  assumes "length (uu :: 'a list) = 16"
  obtains a b c d e f g h i j n where "uu = a # b # c # d # e # f # g # h # i # j # n" "length n = 6"
  using assms by (auto simp: length_Suc_conv numeral_eq_Suc)

lemma pack_unpack:
  assumes "length uu = 16"
  obtains u where "uuid_unpack uu = Some u" "uuid_pack u = uu" "length (node u) = 6"
  using assms by (rule length_16_cases) (auto simp: uuid_pack_def be_join intro: that)

section \<open>Numbers as text\<close>

lemma hexval_digit: "d < 16 \<Longrightarrow> hexval (hexdigit upper d) = Some d"
  by (auto simp: hexval_def hexdigit_def Let_def)

lemma to_hex_length: "n < 16 ^ Suc w \<Longrightarrow> length (to_hex upper n) \<le> Suc w"
proof (induction w arbitrary: n)
  case (Suc w)
  show ?case
  proof (cases "n < 16")
    case False
    have "n div 16 < 16 ^ Suc w" using Suc.prems by (simp add: less_mult_imp_div_less mult.commute)
    then show ?thesis using Suc.IH [of "n div 16"] False by (subst to_hex.simps) simp
  qed (subst to_hex.simps, simp)
qed (subst to_hex.simps, simp)

lemma hexnum_to_hex: "hexnum acc (to_hex upper n @ s) = hexnum (acc * 16 ^ length (to_hex upper n) + n) s"
proof (induction upper n arbitrary: s rule: to_hex.induct)
  case (1 upper n)
  show ?case
  proof (cases "n < 16")
    case True
    then show ?thesis by (subst (1 2) to_hex.simps) (simp add: hexval_digit mult.commute)
  next
    case False
    let ?l = "length (to_hex upper (n div 16))"
    have "hexnum acc (to_hex upper n @ s) = hexnum acc (to_hex upper (n div 16) @ (hexdigit upper (n mod 16) # s))"
      using False by (subst to_hex.simps) simp
    also have "\<dots> = hexnum (16 * (acc * 16 ^ ?l + n div 16) + n mod 16) s"
      using "1.IH" [OF False] by (simp add: hexval_digit)
    also have "16 * (acc * 16 ^ ?l + n div 16) + n mod 16 = acc * 16 ^ Suc ?l + n" by (simp add: algebra_simps)
    finally show ?thesis using False by (subst (2) to_hex.simps) simp
  qed
qed

lemma hexnum_zeros: "hexnum acc (replicate k CHR ''0'' @ s) = hexnum (acc * 16 ^ k) s"
  by (induction k arbitrary: acc) (simp_all add: hexval_def algebra_simps)

lemma fmt_hex_spec:
  assumes "n < 16 ^ Suc w"
  shows "length (fmt_hex upper (Suc w) n) = Suc w"
    and "hexnum acc (fmt_hex upper (Suc w) n @ s) = hexnum (acc * 16 ^ Suc w + n) s"
proof -
  let ?l = "length (to_hex upper n)"
  have l: "?l \<le> Suc w" using to_hex_length [OF assms] .
  then show "length (fmt_hex upper (Suc w) n) = Suc w" by (simp add: fmt_hex_def Let_def)
  have "(16::nat) ^ (Suc w - ?l) * 16 ^ ?l = 16 ^ Suc w" using l by (simp flip: power_add)
  then show "hexnum acc (fmt_hex upper (Suc w) n @ s) = hexnum (acc * 16 ^ Suc w + n) s"
    by (simp add: fmt_hex_def Let_def hexnum_zeros hexnum_to_hex mult.assoc)
qed

lemma to_hex_digits: "list_all isxdigit (to_hex upper n)"
proof (induction upper n rule: to_hex.induct)
  case (1 upper n)
  moreover have "isxdigit (hexdigit upper d)" if "d < 16" for d using that by (simp add: isxdigit_def hexval_digit)
  ultimately show ?case by (subst to_hex.simps) simp
qed

lemma fmt_hex_digits: "list_all isxdigit (fmt_hex upper w n)"
  using to_hex_digits [of upper n] by (simp add: fmt_hex_def Let_def list_all_iff) (auto simp: isxdigit_def hexval_def)

text \<open>A number that starts with a digit and is followed by a dash, a digit too many for it, or nothing.\<close>

lemma isxdigit_no_prefix: "isxdigit c \<Longrightarrow> \<not> isspace c \<and> c \<noteq> CHR ''-'' \<and> c \<noteq> CHR ''+'' \<and> c \<noteq> CHR ''x'' \<and> c \<noteq> CHR ''X''"
  by (auto simp: isxdigit_def hexval_def isspace_def Let_def split: if_splits)

lemma strtoul16_digits:
  assumes "isxdigit c" "isxdigit d" "hexnum 0 (c # d # s) < W64"
  shows "strtoul16 (c # d # s) = hexnum 0 (c # d # s)"
  using assms(3) isxdigit_no_prefix [OF assms(1)] isxdigit_no_prefix [OF assms(2)]
  by (auto simp: strtoul16_def Let_def simp del: hexnum.simps split: list.splits)

lemma strtoul16_hex:
  assumes "list_all isxdigit t" "2 \<le> length t" "hexnum 0 (t @ s) < W64"
  shows "strtoul16 (t @ s) = hexnum 0 (t @ s)"
proof -
  obtain c d r where "t = c # d # r" using assms(2) by (cases t; cases "tl t") auto
  then show ?thesis using assms strtoul16_digits [of c d "r @ s"] by simp
qed

lemma strtoul16_fmt:
  assumes "n < 16 ^ Suc (Suc w)" "n < W64"
  shows "strtoul16 (fmt_hex upper (Suc (Suc w)) n @ CHR ''-'' # s) = n" "strtoul16 (fmt_hex upper (Suc (Suc w)) n) = n"
proof -
  let ?t = "fmt_hex upper (Suc (Suc w)) n"
  have 1: "hexnum 0 (?t @ CHR ''-'' # s) = n" "hexnum 0 (?t @ []) = n"
    using fmt_hex_spec(2) [OF assms(1), of 0 upper "CHR ''-'' # s"] fmt_hex_spec(2) [OF assms(1), of 0 upper "[]"]
    by (simp_all add: hexval_def)
  have 2: "list_all isxdigit ?t" "2 \<le> length ?t" using fmt_hex_digits fmt_hex_spec(1) [OF assms(1)] by simp_all
  show "strtoul16 (?t @ CHR ''-'' # s) = n" using strtoul16_hex [OF 2] 1(1) assms(2) by metis
  show "strtoul16 ?t = n" using strtoul16_hex [OF 2, of "[]"] 1(2) assms(2) by simp
qed

section \<open>The text of an identifier\<close>

lemma uuid_chars_digits:
  assumes "list_all isxdigit t" "\<forall>k \<in> {8, 13, 18, 23}. k < i \<or> i + length t \<le> k"
  shows "uuid_chars_ok i (t @ s) \<longleftrightarrow> uuid_chars_ok (i + length t) s"
  using assms
proof (induction t arbitrary: i)
  case (Cons c t)
  then show ?case by auto
qed simp

lemma uuid_chars_dash: "i \<in> {8, 13, 18, 23} \<Longrightarrow> uuid_chars_ok i (CHR ''-'' # s) \<longleftrightarrow> uuid_chars_ok (Suc i) s"
  by auto

lemma parse_node_text:
  "parse_node (length ns) (concat (map (\<lambda>b. fmt_hex upper 2 (unat b)) ns)) = Some ns" for ns :: "u8 list"
proof (induction ns)
  case (Cons b ns)
  have b: "unat b < 16 ^ Suc (Suc 0)" using unsigned_less [of b, where 'a = nat] by simp
  note l = fmt_hex_spec(1) [OF b, of upper] and n = strtoul16_fmt(2) [OF b, of upper]
  obtain x y where t: "fmt_hex upper 2 (unat b) = [x, y]"
    using l by (auto simp: numeral_2_eq_2 length_Suc_conv)
  have "strtoul16 [x, y] = unat b" using n b t by (simp add: numeral_2_eq_2)
  then show ?case using Cons t by simp
qed simp

lemma strtoul16_clock:
  fixes cs :: u16
  shows "strtoul16 (fmt_hex upper 2 (unat (drop_bit 8 cs)) @ fmt_hex upper 2 (unat (cs AND 0xFF)) @ CHR ''-'' # s) = unat cs"
proof -
  let ?h = "unat (drop_bit 8 cs)" and ?l = "unat (cs AND 0xFF)"
  have m: "(0xFF :: u16) = mask 8" by (simp add: mask_eq_exp_minus_1)
  have cs: "unat cs < 2 ^ 16" using unsigned_less [of cs, where 'a = nat] by simp
  have h: "?h = unat cs div 2 ^ 8" by (simp add: drop_bit_eq_div unat_div)
  have "?l = unat cs mod 2 ^ 8"
    unfolding m by (simp add: take_bit_eq_mask [symmetric] take_bit_eq_mod unat_mod)
  then have v: "?h * 256 + ?l = unat cs" using h by simp
  have b: "?h < 16 ^ Suc (Suc 0)" "?l < 16 ^ Suc (Suc 0)" using cs v h \<open>?l = unat cs mod 2 ^ 8\<close> by simp_all
  note f = fmt_hex_spec(2) [OF b(1)] fmt_hex_spec(2) [OF b(2)] and l = fmt_hex_spec(1) [OF b(1), of upper]
  let ?t = "fmt_hex upper (Suc (Suc 0)) ?h @ fmt_hex upper (Suc (Suc 0)) ?l"
  have 1: "hexnum 0 (?t @ CHR ''-'' # s) = unat cs" using v by (simp add: f hexval_def)
  have "list_all isxdigit ?t" "2 \<le> length ?t" using fmt_hex_digits l by simp_all
  then have "strtoul16 (?t @ CHR ''-'' # s) = unat cs" using strtoul16_hex [of ?t "CHR ''-'' # s"] 1 cs by simp
  then show ?thesis by (simp add: numeral_2_eq_2)
qed

lemma uuid_text_parses:
  assumes n: "length (node u) = 6"
  shows "uuid_parse (fmt_hex upper 8 (unat (time_low u)) @ ''-'' @ fmt_hex upper 4 (unat (time_mid u)) @ ''-'' @
           fmt_hex upper 4 (unat (time_hi_and_version u)) @ ''-'' @
           fmt_hex upper 2 (unat (drop_bit 8 (clock_seq u))) @ fmt_hex upper 2 (unat (clock_seq u AND 0xFF)) @ ''-'' @
           concat (map (\<lambda>b. fmt_hex upper 2 (unat b)) (node u))) = Some (0, Some (uuid_pack u))"
proof -
  define A where "A = fmt_hex upper 8 (unat (time_low u))"
  define B where "B = fmt_hex upper 4 (unat (time_mid u))"
  define C where "C = fmt_hex upper 4 (unat (time_hi_and_version u))"
  define D where "D = fmt_hex upper 2 (unat (drop_bit 8 (clock_seq u))) @ fmt_hex upper 2 (unat (clock_seq u AND 0xFF))"
  define N where "N = concat (map (\<lambda>b. fmt_hex upper 2 (unat b)) (node u))"
  let ?d = "CHR ''-''"
  let ?T = "A @ ?d # B @ ?d # C @ ?d # D @ ?d # N"
  have lt: "unat (time_low u) < 16 ^ Suc (Suc 6)" "unat (time_mid u) < 16 ^ Suc (Suc 2)" "unat (time_hi_and_version u) < 16 ^ Suc (Suc 2)"
    using unsigned_less [of "time_low u", where 'a = nat] unsigned_less [of "time_mid u", where 'a = nat]
      unsigned_less [of "time_hi_and_version u", where 'a = nat] by simp_all
  have big: "unat (time_low u) < W64" "unat (time_mid u) < W64" "unat (time_hi_and_version u) < W64" using lt by simp_all
  have b2: "length (fmt_hex upper 2 k) = 2" if "k < 256" for k
    using fmt_hex_spec(1) [of k "Suc 0" upper] that by (simp add: numeral_2_eq_2)
  have hl: "unat (drop_bit 8 (clock_seq u)) < 256" "unat (clock_seq u AND 0xFF) < 256"
    using unsigned_less [of "clock_seq u", where 'a = nat] word_and_le1 [of "clock_seq u" "0xFF"]
    by (simp_all add: drop_bit_eq_div unat_div word_le_nat_alt)
  have len: "length A = 8" "length B = 4" "length C = 4" "length D = 4"
    using fmt_hex_spec(1) [OF lt(1), of upper] fmt_hex_spec(1) [OF lt(2), of upper] fmt_hex_spec(1) [OF lt(3), of upper] b2 hl
    by (simp_all add: A_def B_def C_def D_def eval_nat_numeral)
  have lN: "length N = 12"
  proof -
    have "length (concat (map (\<lambda>b. fmt_hex upper 2 (unat b)) ns)) = 2 * length ns" for ns :: "u8 list"
    proof (induction ns)
      case (Cons b ns)
      then show ?case using b2 [of "unat b"] unsigned_less [of b, where 'a = nat] by simp
    qed simp
    then show ?thesis using n by (simp add: N_def)
  qed
  have dig: "list_all isxdigit A" "list_all isxdigit B" "list_all isxdigit C" "list_all isxdigit D" "list_all isxdigit N"
    using fmt_hex_digits by (auto simp: A_def B_def C_def D_def N_def list_all_iff)
  have ok: "uuid_chars_ok 0 ?T"
    using uuid_chars_digits [OF dig(1), of 0] uuid_chars_digits [OF dig(2), of 9] uuid_chars_digits [OF dig(3), of 14]
      uuid_chars_digits [OF dig(4), of 19] uuid_chars_digits [OF dig(5), of 24 "[]"] uuid_chars_dash len lN by simp
  have w: "8 = Suc (Suc 6)" "4 = Suc (Suc 2)" by simp_all
  have s: "strtoul16 ?T = unat (time_low u)" "strtoul16 (B @ ?d # C @ ?d # D @ ?d # N) = unat (time_mid u)"
      "strtoul16 (C @ ?d # D @ ?d # N) = unat (time_hi_and_version u)" "strtoul16 (D @ ?d # N) = unat (clock_seq u)"
    unfolding A_def B_def C_def w
    using strtoul16_fmt(1) [OF lt(1)] strtoul16_fmt(1) [OF lt(2)] strtoul16_fmt(1) [OF lt(3)] big
      strtoul16_clock [of upper "clock_seq u" N] by (simp_all add: D_def)
  have d: "drop 9 ?T = B @ ?d # C @ ?d # D @ ?d # N" "drop 14 ?T = C @ ?d # D @ ?d # N" "drop 19 ?T = D @ ?d # N" "drop 24 ?T = N"
    using len by simp_all
  have "parse_node 6 N = Some (node u)" using parse_node_text [of "node u" upper] n by (simp add: N_def)
  moreover have "length ?T = 36" using len lN by simp
  ultimately have "uuid_parse ?T = Some (0, Some (uuid_pack u))"
    unfolding uuid_parse_def d s using ok by (simp add: uuid_pack_def)
  then show ?thesis by (simp add: A_def B_def C_def D_def N_def)
qed

section \<open>Property\<close>

text \<open>C34. Printing an identifier in lower or upper case and parsing the text gives back its 16 bytes, and unpacking the bytes
  and packing the fields gives back the bytes.\<close>

theorem uuid_text_roundtrip:
  assumes "length uu = 16"
  shows "(\<exists>s. uuid_unparse_x upper uu = Some s \<and> length s = 36 \<and> uuid_parse s = Some (0, Some uu)) \<and>
         (\<exists>u. uuid_unpack uu = Some u \<and> uuid_pack u = uu)"
proof -
  obtain u where u: "uuid_unpack uu = Some u" "uuid_pack u = uu" "length (node u) = 6" using pack_unpack [OF assms] .
  obtain s where s: "uuid_unparse_x upper uu = Some s" "uuid_parse s = Some (0, Some uu)"
    using uuid_text_parses [OF u(3), of upper] u by (simp add: uuid_unparse_x_def)
  then have "length s = 36" by (auto simp: uuid_parse_def split: if_splits)
  then show ?thesis using s u by blast
qed

theorem uuid_text_roundtrip_witness:
  "(\<exists>s. uuid_unparse_x True (replicate 16 0xAB) = Some s \<and> length s = 36 \<and> uuid_parse s = Some (0, Some (replicate 16 0xAB))) \<and>
   (\<exists>u. uuid_unpack (replicate 16 0xAB) = Some u \<and> uuid_pack u = replicate 16 0xAB)"
  by (rule uuid_text_roundtrip) simp

end
