(* ===== verification/Single.thy ===== *)
theory Single
  imports Complex_Main Arg_Fuzz_Correct
begin

text \<open>
  The arithmetic of \<^verbatim>\<open>float\<close> on rationals: every result is rounded to 24 significant bits, to the nearest, ties to even. Overflow and
  subnormal numbers do not occur in the code that uses it.
\<close>

section \<open>Single precision\<close>

definition pow2 :: "int \<Rightarrow> rat" where
  "pow2 k = (if 0 \<le> k then 2 ^ nat k else 1 / 2 ^ nat (- k))"

definition rne :: "rat \<Rightarrow> int" where
  "rne q = (let f = \<lfloor>q\<rfloor>; r = q - of_int f in if r > 1 / 2 \<or> (r = 1 / 2 \<and> odd f) then f + 1 else f)"

text \<open>The exponent of a positive number.\<close>

definition flog2 :: "rat \<Rightarrow> int" where
  "flog2 q =
     (let (n, d) = quotient_of q; k = int (bit_length (nat n)) - int (bit_length (nat d))
      in if pow2 k \<le> q then k else k - 1)"

definition f32 :: "rat \<Rightarrow> rat" where
  "f32 q = (if q \<le> 0 then 0 else let e = flog2 q - 23 in of_int (rne (q / pow2 e)) * pow2 e)"

section \<open>Rounding\<close>

lemma pow2_pos [simp]: "0 < pow2 k" by (simp add: pow2_def)

lemma pow2_add: "pow2 (a + b) = pow2 a * pow2 b"
proof -
  have "pow2 k = 2 powi k" for k by (simp add: pow2_def power_int_def inverse_eq_divide power_one_over)
  then show ?thesis by (simp add: power_int_add)
qed

lemma rne_le: "q \<le> of_int m \<Longrightarrow> rne q \<le> m"
proof -
  assume q: "q \<le> of_int m"
  then have f: "\<lfloor>q\<rfloor> \<le> m" by (simp add: floor_le_iff)
  show ?thesis
  proof (cases "\<lfloor>q\<rfloor> = m")
    case True
    then have "q = of_int m" using q by (metis floor_unique of_int_floor_le order_antisym)
    then show ?thesis by (simp add: rne_def Let_def)
  next
    case False
    then show ?thesis using f by (simp add: rne_def Let_def)
  qed
qed

lemma rne_ge: "0 \<le> q \<Longrightarrow> 0 \<le> rne q"
  by (simp add: rne_def Let_def)

lemma flog2_le:
  assumes "0 < q"
  shows "pow2 (flog2 q) \<le> q"
proof -
  obtain n d where nd: "quotient_of q = (n, d)" by force
  have q: "q = of_int n / of_int d" "0 < d" using quotient_of_div [OF nd] quotient_of_denom_pos [OF nd] by auto
  then have n: "0 < n" using assms by (simp add: zero_less_divide_iff)
  let ?a = "bit_length (nat n)" and ?b = "bit_length (nat d)"
  have a: "2 ^ (?a - 1) \<le> nat n" "0 < ?a" using bit_length_bounds [of "nat n"] n by (auto intro: gr0I)
  have b: "nat d < 2 ^ ?b" using bit_length_bounds [of "nat d"] q(2) by simp
  have "(2 :: rat) ^ (?a - 1) \<le> of_nat (nat n)" using a(1) by (metis of_nat_le_iff of_nat_numeral of_nat_power)
  then have 1: "(2 :: rat) ^ (?a - 1) \<le> of_int n" using n by simp
  have "(of_nat (nat d) :: rat) < 2 ^ ?b" using b by (metis of_nat_less_iff of_nat_numeral of_nat_power)
  then have 2: "(of_int d :: rat) \<le> 2 ^ ?b" using q(2) by simp
  have e: "int ?a - int ?b - 1 = int (?a - 1) + - int ?b" using a(2) by simp
  have "pow2 (int ?a - int ?b - 1) = 2 ^ (?a - 1) / 2 ^ ?b" unfolding e pow2_add by (auto simp: pow2_def)
  also have "\<dots> \<le> of_int n / of_int d" using 1 2 q(2) n by (intro frac_le) auto
  finally have "pow2 (int ?a - int ?b - 1) \<le> q" using q(1) by simp
  then show ?thesis using nd by (simp add: flog2_def Let_def)
qed

lemma pow2_25: "25 \<le> k \<Longrightarrow> 2 ^ 25 \<le> pow2 k"
proof -
  assume "25 \<le> k"
  then have "pow2 k = pow2 25 * pow2 (k - 25)" "1 \<le> pow2 (k - 25)" by (simp_all flip: pow2_add) (simp add: pow2_def)
  moreover have "pow2 25 = 2 ^ 25" by (simp add: pow2_def)
  ultimately show ?thesis by simp
qed

lemma f32_bounds:
  assumes "0 \<le> q" "q \<le> of_nat n" "n \<le> 2 ^ 24"
  shows "0 \<le> f32 q" "f32 q \<le> of_nat n"
proof -
  show "0 \<le> f32 q"
    using assms(1) by (auto simp: f32_def Let_def intro!: mult_nonneg_nonneg rne_ge divide_nonneg_pos less_imp_le [OF pow2_pos])
  show "f32 q \<le> of_nat n"
  proof (cases "q \<le> 0")
    case False
    let ?e = "flog2 q - 23"
    have fl: "pow2 (flog2 q) \<le> of_nat n" using flog2_le [of q] False assms(2) by simp
    have n24: "(of_nat n :: rat) \<le> 2 ^ 24" using assms(3) by (metis of_nat_le_iff of_nat_numeral of_nat_power)
    have "flog2 q < 25"
    proof (rule ccontr)
      assume "\<not> flog2 q < 25"
      then have "(2 :: rat) ^ 25 \<le> 2 ^ 24" using pow2_25 [of "flog2 q"] fl n24 by linarith
      then show False by simp
    qed
    then consider (small) "?e \<le> 0" | (top) "flog2 q = 24" by linarith
    then obtain m where m: "(of_nat n :: rat) = of_int m * pow2 ?e"
    proof cases
      case small
      have "(of_nat n :: rat) = of_int (int n * 2 ^ nat (- ?e)) * pow2 ?e" using small by (simp add: pow2_def)
      then show thesis by (rule that)
    next
      case top
      then have "(2 :: rat) ^ 24 \<le> of_nat n" using fl by (simp add: pow2_def)
      then have "(of_nat n :: rat) = of_int (2 ^ 23) * pow2 ?e" using n24 top by (simp add: pow2_def)
      then show thesis by (rule that)
    qed
    then have "q / pow2 ?e \<le> of_int m" using assms(2) by (simp add: pos_divide_le_eq)
    then have "of_int (rne (q / pow2 ?e)) * pow2 ?e \<le> of_int m * pow2 ?e"
      using rne_le less_imp_le [OF pow2_pos] by (intro mult_right_mono) simp_all
    then show ?thesis using False m by (simp add: f32_def Let_def)
  qed (use assms in \<open>simp add: f32_def\<close>)
qed

lemma rne_near: "x - 1 / 2 \<le> of_int (rne x)" "of_int (rne x) \<le> x + 1 / 2"
proof -
  define f where "f = \<lfloor>x\<rfloor>"
  have f: "of_int f \<le> x" "x < of_int f + 1" unfolding f_def by linarith+
  have "rne x = f \<and> x - of_int f \<le> 1 / 2 \<or> rne x = f + 1 \<and> 1 / 2 \<le> x - of_int f"
    unfolding rne_def Let_def f_def [symmetric] by auto
  then show "x - 1 / 2 \<le> of_int (rne x)" "of_int (rne x) \<le> x + 1 / 2" using f by auto
qed

text \<open>The relative error of rounding is far below one eighth.\<close>

lemma f32_error:
  assumes "0 < q"
  shows "f32 q \<le> 9 / 8 * q" "7 / 8 * q \<le> f32 q"
proof -
  let ?e = "flog2 q - 23"
  let ?x = "q / pow2 ?e"
  have "pow2 23 * pow2 ?e \<le> q" using flog2_le [OF assms] by (simp flip: pow2_add)
  then have x: "2 ^ 23 \<le> ?x" by (simp add: pos_le_divide_eq) (simp add: pow2_def)
  have "7 / 8 * y \<le> of_int (rne y) \<and> of_int (rne y) \<le> 9 / 8 * y" if "2 ^ 23 \<le> y" for y
    using rne_near [of y] that by simp
  then have r: "7 / 8 * ?x \<le> of_int (rne ?x)" "of_int (rne ?x) \<le> 9 / 8 * ?x" using x by blast+
  have f: "f32 q = of_int (rne ?x) * pow2 ?e" using assms by (simp add: f32_def Let_def)
  have m: "0 \<le> pow2 ?e" "pow2 ?e \<noteq> 0" using pow2_pos [of ?e] by linarith+
  show "f32 q \<le> 9 / 8 * q" "7 / 8 * q \<le> f32 q"
    using mult_right_mono [OF r(2) m(1)] mult_right_mono [OF r(1) m(1)] m(2) unfolding f by simp_all
qed

end
