(* ===== verification/Resize_Extent.thy ===== *)
theory Resize_Extent
  imports "HOL-Library.Multiset" Badblocks Single
begin

text \<open>
  The translation table of the resizer, \<^verbatim>\<open>resize/extent.c\<close>: pairs of an old and a new location are added one by one and
  coalesced into runs, and an old location is looked up by interpolation search after the runs have been sorted if need be. The C
  library's \<^verbatim>\<open>qsort\<close> is an insertion sort by the comparison function, which gives the result of every sorting algorithm when the
  comparison orders the keys and no two are equal; two entries it only has to compare with each other. The arithmetic of \<^verbatim>\<open>float\<close> is that of Single.
\<close>

section \<open>Model\<close>

text \<open>An array is resized to the whole entries that its number of bytes, computed at 64 bits, has room for.\<close>

record ext2_extent_entry =
  old_loc :: u64
  new_loc :: u64
  ent_size :: u64

record ext2_extent =
  ext_list :: "ext2_extent_entry list"
  ext_cursor :: u64
  ext_size :: u64
  ext_num :: u64
  ext_sorted :: bool

definition ext2fs_create_extent_table :: "allocator \<Rightarrow> u64 \<Rightarrow> errcode + ext2_extent" where
  "ext2fs_create_extent_table mem sz =
     (if \<not> mem 40 then Inl EXT2_ET_NO_MEMORY
      else
        let n = (if sz \<noteq> 0 then sz else 50) in
        if \<not> ext2fs_get_array mem 24 n then Inl EXT2_ET_NO_MEMORY
        else Inr \<lparr>ext_list = replicate n \<lparr>old_loc = 0, new_loc = 0, ent_size = 0\<rparr>, ext_cursor = 0, ext_size = n, ext_num = 0,
                  ext_sorted = True\<rparr>)"

definition append_entry :: "ext2_extent \<Rightarrow> u64 \<Rightarrow> u64 \<Rightarrow> ext2_extent option" where
  "append_entry t old new =
     do { l \<leftarrow> wr (ext_list t) (ext_num t) \<lparr>old_loc = old, new_loc = new, ent_size = 1\<rparr>;
          Some (t\<lparr>ext_list := l, ext_num := ext_num t + 1\<rparr>) }"

definition ext2fs_add_extent_entry ::
  "allocator \<Rightarrow> (nat \<Rightarrow> ext2_extent_entry) \<Rightarrow> ext2_extent \<Rightarrow> u64 \<Rightarrow> u64 \<Rightarrow> (errcode \<times> ext2_extent) option" where
  "ext2fs_add_extent_entry mem fresh t old new =
     (let newsize = add64 (ext_size t) 100; bytes = 24 * newsize mod W64 in
      if ext_num t \<ge> ext_size t \<and> \<not> mem bytes then Some (EXT2_ET_NO_MEMORY, t)
      else
        let t1 = (if ext_num t \<ge> ext_size t
                  then t\<lparr>ext_size := newsize, ext_list := resize_array fresh (bytes div 24) (ext_list t)\<rparr> else t)
        in if ext_num t1 \<noteq> 0 then
             do { ent \<leftarrow> rd (ext_list t1) (ext_num t1 - 1);
                  if add64 (old_loc ent) (ent_size ent) = old \<and> add64 (new_loc ent) (ent_size ent) = new
                  then do { l \<leftarrow> wr (ext_list t1) (ext_num t1 - 1) (ent\<lparr>ent_size := add64 (ent_size ent) 1\<rparr>);
                            Some (0, t1\<lparr>ext_list := l\<rparr>) }
                  else
                    let t2 = (if add64 (old_loc ent) (ent_size ent) > old then t1\<lparr>ext_sorted := False\<rparr> else t1)
                    in map_option (\<lambda>t'. (0, t')) (append_entry t2 old new) }
           else map_option (\<lambda>t'. (0, t')) (append_entry t1 old new))"

text \<open>The difference of two 64-bit numbers, returned as a 32-bit \<^verbatim>\<open>int\<close>.\<close>

definition extent_cmp :: "ext2_extent_entry \<Rightarrow> ext2_extent_entry \<Rightarrow> int" where
  "extent_cmp a b = sint (of_nat (sub64 (old_loc a) (old_loc b)) :: 32 word)"

fun insort_cmp :: "('a \<Rightarrow> 'a \<Rightarrow> int) \<Rightarrow> 'a \<Rightarrow> 'a list \<Rightarrow> 'a list" where
  "insort_cmp cmp x [] = [x]"
| "insort_cmp cmp x (y # ys) = (if cmp x y \<le> 0 then x # y # ys else y # insort_cmp cmp x ys)"

definition qsort :: "('a \<Rightarrow> 'a \<Rightarrow> int) \<Rightarrow> 'a list \<Rightarrow> 'a list" where
  "qsort cmp xs = foldr (insort_cmp cmp) xs []"

text \<open>
  The place to probe between \<open>low\<close> and \<open>high\<close>. The constants are the values of 0.9 and 0.1 as \<^verbatim>\<open>double\<close>, with which the code compares,
  and as \<^verbatim>\<open>float\<close>, which it stores. \<^verbatim>\<open>0.0 / 0.0\<close> has no integer value.
\<close>

definition interp_range :: "u64 \<Rightarrow> u64 \<Rightarrow> u64 \<Rightarrow> rat option" where
  "interp_range old lowval highval =
     (if old < lowval then Some 0
      else if old > highval then Some 1
      else if highval = lowval then None
      else
        let r = f32 (f32 (of_nat (old - lowval)) / f32 (of_nat (highval - lowval)));
            r1 = (if r > 8106479329266893 / 2 ^ 53 then 15099494 / 2 ^ 24 else r);
            r2 = (if r1 < 3602879701896397 / 2 ^ 55 then 13421773 / 2 ^ 27 else r1)
        in Some r2)"

definition probe :: "ext2_extent_entry list \<Rightarrow> u64 \<Rightarrow> int \<Rightarrow> int \<Rightarrow> int option" where
  "probe l old low high =
     (if low = high then Some low
      else do { a \<leftarrow> rd l (nat low); b \<leftarrow> rd l (nat high);
                range \<leftarrow> interp_range old (old_loc a) (old_loc b);
                Some (low + \<lfloor>f32 (range * f32 (of_int (high - low)))\<rfloor>) })"

partial_function (option) translate_loop :: "ext2_extent_entry list \<Rightarrow> u64 \<Rightarrow> int \<Rightarrow> int \<Rightarrow> u64 option" where
  "translate_loop l old low high =
     (if low \<le> high then
        do { mid \<leftarrow> probe l old low high;
             e \<leftarrow> (if mid < 0 then None else rd l (nat mid));
             if old \<ge> old_loc e \<and> old < add64 (old_loc e) (ent_size e) then Some (add64 (new_loc e) (sub64 old (old_loc e)))
             else if old < old_loc e then translate_loop l old low (mid - 1)
             else translate_loop l old (mid + 1) high }
      else Some 0)"

definition ext2fs_extent_translate :: "ext2_extent \<Rightarrow> u64 \<Rightarrow> (u64 \<times> ext2_extent) option" where
  "ext2fs_extent_translate t old =
     (let t1 = (if \<not> ext_sorted t
                then t\<lparr>ext_list := qsort extent_cmp (take (ext_num t) (ext_list t)) @ drop (ext_num t) (ext_list t), ext_sorted := True\<rparr>
                else t)
      in map_option (\<lambda>r. (r, t1)) (translate_loop (ext_list t1) old 0 (int (ext_num t1) - 1)))"

text \<open>A missing pointer resets the iteration.\<close>

definition ext2fs_iterate_extent :: "ext2_extent \<Rightarrow> bool \<Rightarrow> (errcode \<times> (u64 \<times> u64 \<times> u64) option \<times> ext2_extent) option" where
  "ext2fs_iterate_extent t want =
     (if \<not> want then Some (0, None, t\<lparr>ext_cursor := 0\<rparr>)
      else if ext_cursor t \<ge> ext_num t then Some (0, Some (0, 0, 0), t)
      else do { ent \<leftarrow> rd (ext_list t) (ext_cursor t);
                Some (0, Some (old_loc ent, new_loc ent, ent_size ent), t\<lparr>ext_cursor := ext_cursor t + 1\<rparr>) })"

section \<open>The probe\<close>

lemma interp_range_bounds:
  assumes "interp_range old a b = Some r"
  shows "0 \<le> r" "r \<le> 1"
  using assms by (auto simp: interp_range_def Let_def split: if_splits)

lemma probe_bounds:
  assumes "low \<le> high" "0 \<le> low" "high < int (length l)" "high - low \<le> 2 ^ 24" "low < high \<longrightarrow> old_loc (l ! nat low) < old_loc (l ! nat high)"
  obtains mid where "probe l old low high = Some mid" "low \<le> mid" "mid \<le> high"
proof (cases "low = high")
  case False
  let ?n = "nat (high - low)"
  have n: "(of_int (high - low) :: rat) = of_nat ?n" "?n \<le> 2 ^ 24" using assms(1,4) by (simp_all add: nat_le_iff)
  have lh: "old_loc (l ! nat low) < old_loc (l ! nat high)" using assms(1,5) False by simp
  have "interp_range old (old_loc (l ! nat low)) (old_loc (l ! nat high)) \<noteq> None"
    using lh by (simp add: interp_range_def Let_def)
  then obtain r where r: "interp_range old (old_loc (l ! nat low)) (old_loc (l ! nat high)) = Some r" by blast
  let ?h = "f32 (of_int (high - low))"
  have h: "0 \<le> ?h" "?h \<le> of_nat ?n" unfolding n(1) by (rule f32_bounds [OF of_nat_0_le_iff order_refl n(2)])+
  have "0 \<le> r * ?h" "r * ?h \<le> of_nat ?n"
    using interp_range_bounds [OF r] h mult_left_le_one_le [of ?h r] by (simp, linarith)
  then have f: "0 \<le> f32 (r * ?h)" "f32 (r * ?h) \<le> of_nat ?n" using f32_bounds n(2) by blast+
  have "f32 (r * ?h) \<le> of_int (high - low)" using f(2) unfolding n(1) .
  then have "0 \<le> \<lfloor>f32 (r * ?h)\<rfloor>" "\<lfloor>f32 (r * ?h)\<rfloor> \<le> high - low" using f(1) by linarith+
  moreover have "nat low < length l" "nat high < length l" using assms(1-3) by linarith+
  then have "probe l old low high = Some (low + \<lfloor>f32 (r * ?h)\<rfloor>)"
    using False r by (simp add: probe_def rd_def)
  ultimately show thesis using that by simp
qed (use assms that in \<open>simp add: probe_def\<close>)

section \<open>Looking up\<close>

definition ent_has :: "u64 \<Rightarrow> ext2_extent_entry \<Rightarrow> bool" where
  "ent_has x e \<longleftrightarrow> old_loc e \<le> x \<and> x < old_loc e + ent_size e"

definition ent_before :: "ext2_extent_entry \<Rightarrow> ext2_extent_entry \<Rightarrow> bool" where
  "ent_before a b \<longleftrightarrow> old_loc a + ent_size a \<le> old_loc b"

definition ent_ok :: "ext2_extent_entry \<Rightarrow> bool" where
  "ent_ok e \<longleftrightarrow> 0 < ent_size e \<and> old_loc e + ent_size e < W64 \<and> new_loc e + ent_size e < W64"

text \<open>What a table says about an old location.\<close>

definition moved_to :: "ext2_extent_entry list \<Rightarrow> u64 \<Rightarrow> u64" where
  "moved_to es x = (case find (ent_has x) es of None \<Rightarrow> 0 | Some e \<Rightarrow> new_loc e + (x - old_loc e))"

lemma moved_to_hit:
  assumes "sorted_wrt ent_before es" "i < length es" "ent_has x (es ! i)"
  shows "moved_to es x = new_loc (es ! i) + (x - old_loc (es ! i))"
proof -
  have "\<not> ent_has x (es ! j)" if "j < i" for j
    using sorted_wrt_nth_less [OF assms(1) that assms(2)] assms(3) by (auto simp: ent_has_def ent_before_def)
  then have "find (ent_has x) es = Some (es ! i)" using assms(2,3) by (auto simp: find_Some_iff)
  then show ?thesis by (simp add: moved_to_def)
qed

lemma moved_to_miss: "\<forall>e \<in> set es. \<not> ent_has x e \<Longrightarrow> moved_to es x = 0"
  by (auto simp: moved_to_def find_Some_iff split: option.splits)

lemma translate_loop_spec:
  assumes srt: "sorted_wrt ent_before es" and ok: "\<forall>e \<in> set es. ent_ok e" and few: "length es \<le> 2 ^ 24"
    and "0 \<le> low" "low \<le> high + 1" "high < int (length es)"
    and lo: "\<forall>i < length es. int i < low \<longrightarrow> old_loc (es ! i) + ent_size (es ! i) \<le> x"
    and hi: "\<forall>i < length es. high < int i \<longrightarrow> x < old_loc (es ! i)"
  shows "translate_loop (es @ rest) x low high = Some (moved_to es x)"
  using assms(4-)
proof (induction "nat (high + 1 - low)" arbitrary: low high rule: less_induct)
  case less
  show ?case
  proof (cases "low \<le> high")
    case False
    have "\<not> ent_has x e" if e: "e \<in> set es" for e
    proof -
      obtain i where i: "i < length es" "e = es ! i" using e by (auto simp: in_set_conv_nth)
      then have "old_loc e + ent_size e \<le> x \<or> x < old_loc e" using False less.prems(4,5) by (cases "int i < low") auto
      then show ?thesis by (auto simp: ent_has_def)
    qed
    then show ?thesis using False by (subst translate_loop.simps) (simp add: moved_to_miss)
  next
    case True
    have mono: "old_loc (es ! i) < old_loc (es ! j)" if "i < j" "j < length es" for i j
    proof -
      have "0 < ent_size (es ! i)" using ok that by (simp add: ent_ok_def)
      then show ?thesis using sorted_wrt_nth_less [OF srt that] unfolding ent_before_def by linarith
    qed
    have "low < high \<longrightarrow> old_loc ((es @ rest) ! nat low) < old_loc ((es @ rest) ! nat high)"
      using mono [of "nat low" "nat high"] less.prems(1,3) by (simp add: nth_append nat_less_iff)
    moreover have "high < int (length (es @ rest))" "high - low \<le> 2 ^ 24" using less.prems(1,3) few by auto
    ultimately obtain mid where mid: "probe (es @ rest) x low high = Some mid" "low \<le> mid" "mid \<le> high"
      using probe_bounds [OF True less.prems(1)] by blast
    let ?e = "es ! nat mid"
    have m: "0 \<le> mid" "nat mid < length es" using mid less.prems(1,3) by simp_all
    have e: "ent_ok ?e" using ok m by simp
    have r: "rd (es @ rest) (nat mid) = Some ?e" using m by (simp add: rd_def nth_append)
    have nw: "add64 (old_loc ?e) (ent_size ?e) = old_loc ?e + ent_size ?e" using e by (simp add: ent_ok_def add64_nowrap)
    have step: "translate_loop (es @ rest) x low high =
       (if ent_has x ?e then Some (add64 (new_loc ?e) (sub64 x (old_loc ?e)))
        else if x < old_loc ?e then translate_loop (es @ rest) x low (mid - 1) else translate_loop (es @ rest) x (mid + 1) high)"
      using True mid(1) m(1) r nw by (subst translate_loop.simps) (simp add: ent_has_def)
    consider (hit) "ent_has x ?e" | (lo) "\<not> ent_has x ?e" "x < old_loc ?e" | (hi) "\<not> ent_has x ?e" "\<not> x < old_loc ?e" by blast
    then show ?thesis
    proof cases
      case hit
      then have "old_loc ?e \<le> x" "x < W64" "new_loc ?e + (x - old_loc ?e) < W64"
        using e unfolding ent_has_def ent_ok_def by linarith+
      then have "add64 (new_loc ?e) (sub64 x (old_loc ?e)) = new_loc ?e + (x - old_loc ?e)"
        by (simp only: sub64_nowrap add64_nowrap)
      then show ?thesis using step hit moved_to_hit [OF srt m(2) hit] by simp
    next
      case lo
      have "x < old_loc (es ! i)" if "i < length es" "mid - 1 < int i" for i
      proof -
        have "i = nat mid \<or> nat mid < i" using that m by linarith
        then show ?thesis using lo(2) mono [of "nat mid" i] that(1) by auto
      qed
      then have "translate_loop (es @ rest) x low (mid - 1) = Some (moved_to es x)"
        using mid m less.prems by (intro less.hyps) auto
      then show ?thesis using step lo by simp
    next
      case hi
      have x: "old_loc ?e + ent_size ?e \<le> x" using hi by (simp add: ent_has_def)
      have "old_loc (es ! i) + ent_size (es ! i) \<le> x" if "i < length es" "int i < mid + 1" for i
      proof (cases "i = nat mid")
        case False
        then have "ent_before (es ! i) ?e" using that m by (intro sorted_wrt_nth_less [OF srt]) auto
        then show ?thesis using x by (simp add: ent_before_def)
      qed (use x in simp)
      then have "translate_loop (es @ rest) x (mid + 1) high = Some (moved_to es x)"
        using mid m less.prems by (intro less.hyps) auto
      then show ?thesis using step hi by simp
    qed
  qed
qed

section \<open>Sorting\<close>

lemma mset_insort_cmp [simp]: "mset (insort_cmp cmp x ys) = add_mset x (mset ys)"
  by (induction ys) auto

lemma mset_qsort [simp]: "mset (qsort cmp xs) = mset xs"
  by (induction xs) (auto simp: qsort_def)

lemma sorted_insort_cmp:
  assumes "sorted_wrt (\<lambda>a b. k a \<le> (k b :: nat)) ys" "\<forall>y \<in> set ys. cmp x y \<le> 0 \<longleftrightarrow> k x \<le> k y"
  shows "sorted_wrt (\<lambda>a b. k a \<le> k b) (insort_cmp cmp x ys)"
  using assms
proof (induction ys)
  case (Cons y ys)
  have "set (insort_cmp cmp x ys) = insert x (set ys)" using mset_insort_cmp by (metis set_mset_add_mset_insert set_mset_mset)
  then show ?case using Cons by auto
qed simp

lemma sorted_qsort:
  assumes "\<forall>x \<in> set xs. \<forall>y \<in> set xs. cmp x y \<le> 0 \<longleftrightarrow> k x \<le> (k y :: nat)"
  shows "sorted_wrt (\<lambda>a b. k a \<le> k b) (qsort cmp xs)"
  using assms
proof (induction xs)
  case (Cons x xs)
  have "set (qsort cmp xs) = set xs" by (metis mset_qsort set_mset_mset)
  then show ?case using Cons by (auto simp: qsort_def intro!: sorted_insort_cmp)
qed (simp add: qsort_def)

text \<open>The comparison is right when the keys are less than \<open>2\<^sup>3\<^sup>1\<close> apart.\<close>

lemma word_of_int_mod_64: "(word_of_int (d mod 2 ^ 64) :: 32 word) = word_of_int d"
  by (simp only: word_of_int_eq_iff) (simp add: take_bit_eq_mod mod_mod_cancel)

lemma sint_small: "\<bar>d\<bar> < 2 ^ 31 \<Longrightarrow> sint (word_of_int d :: 32 word) = d"
  by (simp add: signed_of_int signed_take_bit_int_eq_self)

lemma extent_cmp_le:
  assumes "old_loc a < W64" "old_loc b < W64" "\<bar>int (old_loc a) - int (old_loc b)\<bar> < 2 ^ 31"
  shows "extent_cmp a b \<le> 0 \<longleftrightarrow> old_loc a \<le> old_loc b"
proof -
  let ?d = "int (old_loc a) - int (old_loc b)"
  have "int (sub64 (old_loc a) (old_loc b)) = ?d mod 2 ^ 64" by (simp add: sub64_def)
  then have "extent_cmp a b = sint (word_of_int (?d mod 2 ^ 64) :: 32 word)"
    unfolding extent_cmp_def by (metis of_int_of_nat_eq)
  also have "(word_of_int (?d mod 2 ^ 64) :: 32 word) = word_of_int ?d"
    by (rule word_of_int_mod_64)
  also have "sint (word_of_int ?d :: 32 word) = ?d"
    by (rule sint_small [OF assms(3)])
  finally show ?thesis by simp
qed

section \<open>The table as a list of pairs\<close>

definition ent_pairs :: "ext2_extent_entry \<Rightarrow> (u64 \<times> u64) list" where
  "ent_pairs e = map (\<lambda>i. (old_loc e + i, new_loc e + i)) [0..<ent_size e]"

definition pairs :: "ext2_extent_entry list \<Rightarrow> (u64 \<times> u64) list" where
  "pairs es = concat (map ent_pairs es)"

lemma pairs_simps [simp]: "pairs [] = []" "pairs (e # es) = ent_pairs e @ pairs es" "pairs (es @ fs) = pairs es @ pairs fs"
  by (simp_all add: pairs_def)

lemma ent_pairs_iff: "(x, y) \<in> set (ent_pairs e) \<longleftrightarrow> ent_has x e \<and> y = new_loc e + (x - old_loc e)"
proof
  assume "ent_has x e \<and> y = new_loc e + (x - old_loc e)"
  then show "(x, y) \<in> set (ent_pairs e)"
    by (auto simp: ent_pairs_def ent_has_def image_iff intro!: bexI [of _ "x - old_loc e"])
qed (auto simp: ent_pairs_def ent_has_def)

lemma ent_pairs_grow: "ent_pairs (e\<lparr>ent_size := ent_size e + 1\<rparr>) = ent_pairs e @ [(old_loc e + ent_size e, new_loc e + ent_size e)]"
  by (simp add: ent_pairs_def)

definition entries :: "ext2_extent \<Rightarrow> ext2_extent_entry list" where
  "entries t = take (ext_num t) (ext_list t)"

definition table_ok :: "ext2_extent \<Rightarrow> bool" where
  "table_ok t \<longleftrightarrow>
     ext_num t \<le> ext_size t \<and> length (ext_list t) = ext_size t \<and> (\<forall>e \<in> set (entries t). ent_ok e) \<and>
     (ext_sorted t \<longrightarrow> sorted_wrt ent_before (entries t))"

lemma length_entries: "table_ok t \<Longrightarrow> length (entries t) = ext_num t"
  by (simp add: table_ok_def entries_def)

lemma entries_last:
  assumes "table_ok t" "ext_num t \<noteq> 0"
  shows "rd (ext_list t) (ext_num t - 1) = Some (last (entries t))" "entries t = butlast (entries t) @ [last (entries t)]"
proof -
  have "entries t \<noteq> []" using length_entries [OF assms(1)] assms(2) by auto
  then show "entries t = butlast (entries t) @ [last (entries t)]" by simp
  have "last (entries t) = entries t ! (ext_num t - 1)"
    using \<open>entries t \<noteq> []\<close> length_entries [OF assms(1)] by (simp add: last_conv_nth)
  then show "rd (ext_list t) (ext_num t - 1) = Some (last (entries t))"
    using assms by (auto simp: rd_def table_ok_def entries_def)
qed

lemma append_entry_spec:
  assumes ok: "table_ok t" and room: "ext_num t < ext_size t" and v: "old + 1 < W64" "new + 1 < W64"
    and after: "ext_sorted t \<Longrightarrow> entries t = [] \<or> old_loc (last (entries t)) + ent_size (last (entries t)) \<le> old"
  obtains t' where "append_entry t old new = Some t'" "table_ok t'" "pairs (entries t') = pairs (entries t) @ [(old, new)]"
    "ext_num t' = ext_num t + 1"
proof -
  let ?e = "\<lparr>old_loc = old, new_loc = new, ent_size = 1\<rparr>"
  let ?t = "t\<lparr>ext_list := (ext_list t)[ext_num t := ?e], ext_num := ext_num t + 1\<rparr>"
  have len: "length (ext_list t) = ext_size t" using ok by (simp add: table_ok_def)
  have es: "entries ?t = entries t @ [?e]" using room len by (simp add: entries_def take_Suc_conv_app_nth)
  have "ent_before a ?e" if a: "a \<in> set (entries t)" and s: "ext_sorted t" for a
  proof -
    have ne: "entries t \<noteq> []" using a by auto
    have split: "entries t = butlast (entries t) @ [last (entries t)]" using ne by simp
    have srt: "sorted_wrt ent_before (butlast (entries t) @ [last (entries t)])"
      using ok s ne by (simp add: table_ok_def)
    have "a \<in> set (butlast (entries t) @ [last (entries t)])" using a split by metis
    then have "a = last (entries t) \<or> a \<in> set (butlast (entries t))" by auto
    then have "old_loc a + ent_size a \<le> old_loc (last (entries t)) + ent_size (last (entries t))"
      using srt by (auto simp: sorted_wrt_append ent_before_def)
    then show ?thesis using after [OF s] ne by (simp add: ent_before_def)
  qed
  then have "table_ok ?t"
    using ok room v unfolding table_ok_def es by (auto simp: sorted_wrt_append ent_ok_def)
  moreover have "pairs (entries ?t) = pairs (entries t) @ [(old, new)]" unfolding es by (simp add: ent_pairs_def)
  moreover have "append_entry t old new = Some ?t" using room len by (simp add: append_entry_def wr_def)
  ultimately show thesis using that by simp
qed

lemma grow_last_spec:
  assumes ok: "table_ok t" and ne: "ext_num t \<noteq> 0" and v: "old + 1 < W64" "new + 1 < W64"
  defines "e \<equiv> last (entries t)"
  assumes at: "old_loc e + ent_size e = old" "new_loc e + ent_size e = new"
  obtains l where "wr (ext_list t) (ext_num t - 1) (e\<lparr>ent_size := add64 (ent_size e) 1\<rparr>) = Some l"
    "table_ok (t\<lparr>ext_list := l\<rparr>)" "pairs (entries (t\<lparr>ext_list := l\<rparr>)) = pairs (entries t) @ [(old, new)]"
proof -
  let ?e = "e\<lparr>ent_size := ent_size e + 1\<rparr>"
  let ?l = "(ext_list t)[ext_num t - 1 := ?e]"
  note el = entries_last [OF ok ne]
  have lt: "ext_num t - 1 < length (ext_list t)" using ok ne by (auto simp: table_ok_def)
  have nw: "add64 (ent_size e) 1 = ent_size e + 1" using v(1) at(1) by (intro add64_nowrap) simp
  define bl where "bl = butlast (entries t)"
  have sp: "entries t = bl @ [e]" using el(2) by (simp add: e_def bl_def)
  have "length bl = ext_num t - 1" using sp length_entries [OF ok] ne by (metis length_append_singleton diff_Suc_1)
  then have es: "entries (t\<lparr>ext_list := ?l\<rparr>) = bl @ [?e]"
    using sp by (simp add: entries_def take_update_swap) (metis list_update_length)
  have oks: "\<forall>e \<in> set bl. ent_ok e" "ext_sorted t \<longrightarrow> sorted_wrt ent_before (bl @ [e])"
    using ok unfolding table_ok_def sp by auto
  have "table_ok (t\<lparr>ext_list := ?l\<rparr>)"
    using ok oks v at unfolding table_ok_def es by (auto simp: sorted_wrt_append ent_before_def ent_ok_def)
  moreover have "pairs (entries (t\<lparr>ext_list := ?l\<rparr>)) = pairs (entries t) @ [(old, new)]"
    unfolding es sp using at ent_pairs_grow [of e] by simp
  ultimately show thesis using that [of ?l] lt nw by (simp add: wr_def)
qed

lemma add_extent_entry_spec:
  assumes ok: "table_ok t" and few: "ext_num t < 2 ^ 32" and v: "old + 1 < W64" "new + 1 < W64"
  obtains (added) t' where "ext2fs_add_extent_entry mem fresh t old new = Some (0, t')" "table_ok t'"
      "pairs (entries t') = pairs (entries t) @ [(old, new)]" "ext_num t' \<le> ext_num t + 1"
  | (memory) "ext2fs_add_extent_entry mem fresh t old new = Some (EXT2_ET_NO_MEMORY, t)" "\<exists>n. \<not> mem n"
proof (cases "ext_num t \<ge> ext_size t \<and> \<not> mem (24 * add64 (ext_size t) 100 mod W64)")
  case True
  then show thesis using memory by (auto simp: ext2fs_add_extent_entry_def Let_def)
next
  case False
  define t1 where "t1 = (if ext_num t \<ge> ext_size t
      then t\<lparr>ext_size := add64 (ext_size t) 100, ext_list := resize_array fresh (24 * add64 (ext_size t) 100 mod W64 div 24) (ext_list t)\<rparr>
      else t)"
  have grown: "add64 (ext_size t) 100 = ext_size t + 100" "24 * add64 (ext_size t) 100 mod W64 div 24 = ext_size t + 100"
    if "ext_num t \<ge> ext_size t" using that few by (simp_all add: add64_nowrap)
  have es: "entries t1 = entries t" "ext_num t1 = ext_num t" "ext_sorted t1 = ext_sorted t"
    using ok grown by (auto simp: t1_def entries_def table_ok_def)
  have ok1: "table_ok t1" "ext_num t1 < ext_size t1"
    using ok es grown unfolding table_ok_def by (auto simp: t1_def)
  note body = ext2fs_add_extent_entry_def [of mem fresh t old new, unfolded Let_def if_not_P [OF False] t1_def [symmetric]]
  show thesis
  proof (cases "ext_num t1 = 0")
    case True
    then have "entries t1 = []" by (simp add: entries_def)
    then obtain t' where "append_entry t1 old new = Some t'" "table_ok t'" "pairs (entries t') = pairs (entries t1) @ [(old, new)]"
        "ext_num t' = ext_num t1 + 1"
      using append_entry_spec [OF ok1 v] by blast
    then show thesis using added True body es by simp
  next
    case ne: False
    define e where "e = last (entries t1)"
    have rd: "rd (ext_list t1) (ext_num t1 - 1) = Some e" using entries_last(1) [OF ok1(1) ne] by (simp add: e_def)
    have "e \<in> set (entries t1)" using entries_last(2) [OF ok1(1) ne] unfolding e_def by (metis in_set_conv_decomp)
    then have eok: "ent_ok e" using ok1(1) by (simp add: table_ok_def)
    then have nw: "add64 (old_loc e) (ent_size e) = old_loc e + ent_size e" "add64 (new_loc e) (ent_size e) = new_loc e + ent_size e"
      by (simp_all add: ent_ok_def add64_nowrap)
    show thesis
    proof (cases "old_loc e + ent_size e = old \<and> new_loc e + ent_size e = new")
      case True
      obtain l where "wr (ext_list t1) (ext_num t1 - 1) (e\<lparr>ent_size := add64 (ent_size e) 1\<rparr>) = Some l"
          "table_ok (t1\<lparr>ext_list := l\<rparr>)" "pairs (entries (t1\<lparr>ext_list := l\<rparr>)) = pairs (entries t1) @ [(old, new)]"
        using grow_last_spec [OF ok1(1) ne v] True unfolding e_def by blast
      then show thesis using added [of "t1\<lparr>ext_list := l\<rparr>"] body rd nw True ne es by simp
    next
      case False
      define t2 where "t2 = (if old_loc e + ent_size e > old then t1\<lparr>ext_sorted := False\<rparr> else t1)"
      have es2: "entries t2 = entries t1" "ext_num t2 = ext_num t1" by (simp_all add: t2_def entries_def)
      have ok2: "table_ok t2" "ext_num t2 < ext_size t2"
        using ok1 es2 unfolding table_ok_def by (auto simp: t2_def)
      have "ext_sorted t2 \<Longrightarrow> old_loc (last (entries t2)) + ent_size (last (entries t2)) \<le> old"
        by (auto simp: t2_def e_def entries_def split: if_splits)
      then obtain t' where "append_entry t2 old new = Some t'" "table_ok t'" "pairs (entries t') = pairs (entries t2) @ [(old, new)]"
          "ext_num t' = ext_num t2 + 1"
        using append_entry_spec [OF ok2 v] by blast
      moreover have "ext2fs_add_extent_entry mem fresh t old new = map_option (\<lambda>t'. (0, t')) (append_entry t2 old new)"
        unfolding body using rd nw False ne by (auto simp: t2_def)
      ultimately show thesis using added [of t'] es es2 by simp
    qed
  qed
qed

section \<open>A whole table\<close>

text \<open>The calls a client makes: all the additions up to the first error, and the iteration from the start until a run of size 0 comes.\<close>

fun add_extents :: "allocator \<Rightarrow> (nat \<Rightarrow> ext2_extent_entry) \<Rightarrow> ext2_extent \<Rightarrow> (u64 \<times> u64) list \<Rightarrow> (errcode \<times> ext2_extent) option" where
  "add_extents mem fresh t [] = Some (0, t)"
| "add_extents mem fresh t ((old, new) # ps) =
     do { (r, t') \<leftarrow> ext2fs_add_extent_entry mem fresh t old new;
          if r \<noteq> 0 then Some (r, t') else add_extents mem fresh t' ps }"

fun iterate_from :: "nat \<Rightarrow> ext2_extent \<Rightarrow> (u64 \<times> u64 \<times> u64) list option" where
  "iterate_from 0 t = None"
| "iterate_from (Suc fuel) t =
     (case ext2fs_iterate_extent t True of
        Some (_, Some (old, new, sz), t') \<Rightarrow>
          if sz = 0 then Some [] else map_option (\<lambda>rest. (old, new, sz) # rest) (iterate_from fuel t')
      | _ \<Rightarrow> None)"

definition iterate_all :: "ext2_extent \<Rightarrow> (u64 \<times> u64 \<times> u64) list option" where
  "iterate_all t =
     (case ext2fs_iterate_extent t False of Some (_, _, t') \<Rightarrow> iterate_from (ext_num t' + 1) t' | None \<Rightarrow> None)"

lemma create_extent_table_ok:
  assumes "ext2fs_create_extent_table mem sz = Inr t"
  shows "table_ok t" "entries t = []" "ext_num t = 0"
  using assms by (auto simp: ext2fs_create_extent_table_def table_ok_def entries_def Let_def split: if_splits)

lemma add_extents_spec:
  assumes "table_ok t" "ext_num t + length ps \<le> 2 ^ 32" "\<forall>(old, new) \<in> set ps. old + 1 < W64 \<and> new + 1 < W64"
  obtains (added) t' where "add_extents mem fresh t ps = Some (0, t')" "table_ok t'" "pairs (entries t') = pairs (entries t) @ ps"
      "ext_num t' \<le> ext_num t + length ps"
  | (memory) t' where "add_extents mem fresh t ps = Some (EXT2_ET_NO_MEMORY, t')" "\<exists>n. \<not> mem n"
  using assms
proof (induction ps arbitrary: t thesis)
  case (Cons p ps)
  obtain old new where p: "p = (old, new)" by force
  have v: "old + 1 < W64" "new + 1 < W64" and vs: "\<forall>(old, new) \<in> set ps. old + 1 < W64 \<and> new + 1 < W64"
    using Cons.prems(5) p by auto
  have few: "ext_num t < 2 ^ 32" using Cons.prems(4) by simp
  show ?case
  proof (rule add_extent_entry_spec [OF Cons.prems(3) few v, of mem fresh])
    fix u assume u: "ext2fs_add_extent_entry mem fresh t old new = Some (0, u)" "table_ok u"
      "pairs (entries u) = pairs (entries t) @ [(old, new)]" "ext_num u \<le> ext_num t + 1"
    show ?case
      by (rule Cons.IH [OF _ _ u(2) _ vs]) (use u p Cons.prems(1,2,4) in auto)
  next
    assume "ext2fs_add_extent_entry mem fresh t old new = Some (EXT2_ET_NO_MEMORY, t)" "\<exists>n. \<not> mem n"
    then show ?case using Cons.prems(2) p by simp
  qed
qed simp

lemma iterate_from_spec:
  assumes "table_ok t" "ext_cursor t \<le> ext_num t" "ext_num t - ext_cursor t < fuel"
  shows "iterate_from fuel t = Some (map (\<lambda>e. (old_loc e, new_loc e, ent_size e)) (drop (ext_cursor t) (entries t)))"
  using assms
proof (induction fuel arbitrary: t)
  case (Suc fuel)
  show ?case
  proof (cases "ext_cursor t < ext_num t")
    case True
    let ?c = "ext_cursor t" and ?t = "t\<lparr>ext_cursor := ext_cursor t + 1\<rparr>"
    have len: "length (entries t) = ext_num t" by (rule length_entries [OF Suc.prems(1)])
    have e: "rd (ext_list t) ?c = Some (entries t ! ?c)"
      using True Suc.prems(1) by (simp add: rd_def entries_def table_ok_def)
    have "entries t ! ?c \<in> set (entries t)" using True len by simp
    then have sz: "0 < ent_size (entries t ! ?c)" using Suc.prems(1) by (simp add: table_ok_def ent_ok_def)
    have "table_ok ?t" "entries ?t = entries t" using Suc.prems(1) by (simp_all add: table_ok_def entries_def)
    then have "iterate_from fuel ?t = Some (map (\<lambda>e. (old_loc e, new_loc e, ent_size e)) (drop (?c + 1) (entries t)))"
      using Suc.IH [of ?t] Suc.prems True by simp
    then show ?thesis using True e sz len by (simp add: ext2fs_iterate_extent_def Cons_nth_drop_Suc [symmetric])
  next
    case False
    then show ?thesis using length_entries [OF Suc.prems(1)] by (simp add: ext2fs_iterate_extent_def)
  qed
qed simp

lemma iterate_all_spec:
  assumes "table_ok t"
  shows "iterate_all t = Some (map (\<lambda>e. (old_loc e, new_loc e, ent_size e)) (entries t))"
proof -
  have "table_ok (t\<lparr>ext_cursor := 0\<rparr>)" "entries (t\<lparr>ext_cursor := 0\<rparr>) = entries t"
    using assms by (simp_all add: table_ok_def entries_def)
  then show ?thesis
    using iterate_from_spec [of "t\<lparr>ext_cursor := 0\<rparr>" "ext_num t + 1"]
    by (simp add: iterate_all_def ext2fs_iterate_extent_def del: iterate_from.simps)
qed

section \<open>Pairs in any order\<close>

lemma mset_pairs: "mset (pairs es) = (\<Sum>e \<in># mset es. mset (ent_pairs e))"
  by (induction es) auto

lemma ent_in_pairs: "e \<in> set es \<Longrightarrow> ent_ok e \<Longrightarrow> (old_loc e, new_loc e) \<in> set (pairs es)"
  by (auto simp: pairs_def ent_pairs_iff ent_has_def ent_ok_def intro!: bexI [of _ e])

lemma sorted_runs_disjoint:
  assumes "sorted_wrt (\<lambda>a b. old_loc a \<le> old_loc b) es" "\<forall>e \<in> set es. ent_ok e" "distinct (map fst (pairs es))"
  shows "sorted_wrt ent_before es"
  using assms
proof (induction es)
  case (Cons e es)
  have "ent_before e f" if f: "f \<in> set es" for f
  proof (rule ccontr)
    assume "\<not> ent_before e f"
    then have "(old_loc f, new_loc e + (old_loc f - old_loc e)) \<in> set (ent_pairs e)"
      using Cons.prems(1) f by (simp add: ent_pairs_iff ent_has_def ent_before_def)
    moreover have "(old_loc f, new_loc f) \<in> set (pairs es)" using ent_in_pairs [OF f] Cons.prems(2) f by simp
    ultimately have "fst ` set (ent_pairs e) \<inter> fst ` set (pairs es) \<noteq> {}" by force
    then show False using Cons.prems(3) by simp
  qed
  then show ?case using Cons by simp
qed simp

lemma moved_to_map_of:
  assumes "distinct (map fst (pairs es))"
  shows "moved_to es x = (case map_of (pairs es) x of None \<Rightarrow> 0 | Some y \<Rightarrow> y)"
proof (cases "find (ent_has x) es")
  case None
  then have "x \<notin> fst ` set (pairs es)" by (auto simp: pairs_def find_None_iff ent_pairs_iff)
  then show ?thesis using None by (simp add: moved_to_def map_of_eq_None_iff [symmetric])
next
  case (Some e)
  then have "e \<in> set es" "ent_has x e" by (auto simp: find_Some_iff)
  then have "(x, new_loc e + (x - old_loc e)) \<in> set (pairs es)" by (auto simp: pairs_def ent_pairs_iff)
  then show ?thesis using assms Some by (simp add: moved_to_def map_of_is_SomeI)
qed

lemma extent_translate_spec:
  assumes ok: "table_ok t" and few: "ext_num t \<le> 2 ^ 24" and dist: "distinct (map fst (pairs (entries t)))"
    and near: "\<forall>p \<in> set (pairs (entries t)). \<forall>q \<in> set (pairs (entries t)). \<bar>int (fst p) - int (fst q)\<bar> < 2 ^ 31"
  shows "\<exists>t'. ext2fs_extent_translate t x = Some (case map_of (pairs (entries t)) x of None \<Rightarrow> 0 | Some y \<Rightarrow> y, t') \<and> table_ok t'"
proof -
  define es where "es = (if ext_sorted t then entries t else qsort extent_cmp (entries t))"
  define t1 where "t1 = (if \<not> ext_sorted t
    then t\<lparr>ext_list := qsort extent_cmp (take (ext_num t) (ext_list t)) @ drop (ext_num t) (ext_list t), ext_sorted := True\<rparr> else t)"
  have ms: "mset es = mset (entries t)" by (simp add: es_def)
  then have len: "length es = ext_num t" using length_entries [OF ok] by (metis size_mset)
  have oks: "\<forall>e \<in> set es. ent_ok e" using ok mset_eq_setD [OF ms] by (simp add: table_ok_def)
  have mp: "mset (pairs es) = mset (pairs (entries t))" by (simp add: mset_pairs ms)
  then have d: "distinct (map fst (pairs es))" using dist by (metis mset_eq_imp_distinct_iff mset_map)
  have le: "extent_cmp a b \<le> 0 \<longleftrightarrow> old_loc a \<le> old_loc b" if ab: "a \<in> set (entries t)" "b \<in> set (entries t)" for a b
  proof -
    have ab': "ent_ok a" "ent_ok b" using ab ok by (simp_all add: table_ok_def)
    then have "(old_loc a, new_loc a) \<in> set (pairs (entries t))" "(old_loc b, new_loc b) \<in> set (pairs (entries t))"
      using ab by (simp_all add: ent_in_pairs)
    from near [rule_format, OF this] have "\<bar>int (old_loc a) - int (old_loc b)\<bar> < 2 ^ 31" by simp
    then show ?thesis using ab' by (intro extent_cmp_le) (simp_all add: ent_ok_def)
  qed
  have srt: "sorted_wrt ent_before es"
  proof (cases "ext_sorted t")
    case False
    then have "sorted_wrt (\<lambda>a b. old_loc a \<le> old_loc b) es" using sorted_qsort [of "entries t" extent_cmp old_loc] le by (simp add: es_def)
    then show ?thesis by (rule sorted_runs_disjoint [OF _ oks d])
  qed (use ok in \<open>simp add: table_ok_def es_def\<close>)
  have l1: "ext_list t1 = es @ drop (ext_num t) (ext_list t)" "ext_num t1 = ext_num t"
    by (auto simp: t1_def es_def entries_def)
  have "translate_loop (ext_list t1) x 0 (int (ext_num t1) - 1) = Some (moved_to es x)"
    unfolding l1 using len few by (intro translate_loop_spec [OF srt oks]) auto
  moreover have "moved_to es x = (case map_of (pairs (entries t)) x of None \<Rightarrow> 0 | Some y \<Rightarrow> y)"
    using moved_to_map_of [OF d] map_of_inject_set [OF d dist] mset_eq_setD [OF mp] by simp
  moreover have "table_ok t1"
  proof -
    have "entries t1 = es" using l1 len by (simp add: entries_def)
    then show ?thesis using ok oks srt len l1 by (simp add: table_ok_def t1_def)
  qed
  ultimately show ?thesis unfolding ext2fs_extent_translate_def Let_def t1_def [symmetric] by simp
qed

section \<open>Two entries in the wrong order\<close>

lemma two_entries:
  assumes "ext2fs_create_extent_table mem sz = Inr t0" "add_extents mem fresh t0 [(x, nx), (y, ny)] = Some (0, t)"
    and "x + 1 < W64" "y < x"
  shows "entries t = [\<lparr>old_loc = x, new_loc = nx, ent_size = 1\<rparr>, \<lparr>old_loc = y, new_loc = ny, ent_size = 1\<rparr>]"
    and "ext_num t = 2" and "\<not> ext_sorted t" and "length (ext_list t) = ext_size t" and "2 \<le> ext_size t"
proof -
  let ?a = "\<lparr>old_loc = x, new_loc = nx, ent_size = 1\<rparr>"
  define n where "n = (if sz \<noteq> 0 then sz else 50)"
  define l where "l = (replicate n \<lparr>old_loc = 0, new_loc = 0, ent_size = 0\<rparr>)[0 := ?a]"
  define t1 where "t1 = \<lparr>ext_list = l, ext_cursor = 0, ext_size = n, ext_num = 1, ext_sorted = True\<rparr>"
  have n: "length l = n" "0 < n" "l ! 0 = ?a" by (simp_all add: l_def n_def)
  have "t0 = \<lparr>ext_list = replicate n \<lparr>old_loc = 0, new_loc = 0, ent_size = 0\<rparr>, ext_cursor = 0, ext_size = n, ext_num = 0, ext_sorted = True\<rparr>"
    using assms(1) by (simp add: ext2fs_create_extent_table_def Let_def n_def split: if_splits)
  then have "ext2fs_add_extent_entry mem fresh t0 x nx = Some (0, t1)"
    using n(2) by (simp add: Let_def ext2fs_add_extent_entry_def append_entry_def wr_def t1_def l_def)
  then have two: "ext2fs_add_extent_entry mem fresh t1 y ny = Some (0, t)"
    using assms(2) by (auto simp: Option.bind_eq_Some_conv split: if_splits)
  have x: "add64 x 1 = x + 1" "x + 1 \<noteq> y" "y < x + 1" using assms(3,4) by (simp_all add: add64_nowrap)
  define t2 where "t2 = (if n \<le> 1 then t1\<lparr>ext_size := 101, ext_list := resize_array fresh 101 l\<rparr> else t1)"
  have t2: "rd (ext_list t2) 0 = Some ?a" "ext_num t2 = 1" "length (ext_list t2) = ext_size t2" "2 \<le> ext_size t2"
    using n by (auto simp: t2_def t1_def rd_def resize_array_def nth_append)
  then have "take (Suc 0) (ext_list t2) = [?a]" by (auto simp: take_Suc_conv_app_nth rd_eq_Some_iff)
  have "add64 1 100 = 101" by (simp add: add64_nowrap)
  then have "ext2fs_add_extent_entry mem fresh t1 y ny = map_option (\<lambda>t'. (0, t')) (append_entry (t2\<lparr>ext_sorted := False\<rparr>) y ny)
      \<or> (\<exists>t'. ext2fs_add_extent_entry mem fresh t1 y ny = Some (EXT2_ET_NO_MEMORY, t'))"
    using n t2(1) x by (cases "n = 1") (auto simp: ext2fs_add_extent_entry_def Let_def t2_def t1_def)
  then have t: "t = t2\<lparr>ext_sorted := False, ext_list := (ext_list t2)[1 := \<lparr>old_loc = y, new_loc = ny, ent_size = 1\<rparr>], ext_num := 2\<rparr>"
    using two t2 by (auto simp: append_entry_def wr_def)
  show "ext_num t = 2" "\<not> ext_sorted t" "length (ext_list t) = ext_size t" "2 \<le> ext_size t" using t2 by (simp_all add: t)
  show "entries t = [?a, \<lparr>old_loc = y, new_loc = ny, ent_size = 1\<rparr>]"
    using t2 \<open>take (Suc 0) (ext_list t2) = [?a]\<close> by (simp add: t entries_def numeral_2_eq_2 take_Suc_conv_app_nth)
qed

lemma extent_cmp_wraps:
  assumes "old_loc b < old_loc a" "2 ^ 31 < (old_loc a - old_loc b) mod 2 ^ 32" "old_loc a + 1 < W64"
  shows "extent_cmp a b < 0"
proof -
  define d where "d = old_loc a - old_loc b"
  have "sub64 (old_loc a) (old_loc b) = d" using assms(1,3) unfolding d_def by (intro sub64_nowrap) simp_all
  then have "extent_cmp a b = sint (word_of_int (int d) :: 32 word)" by (simp add: extent_cmp_def)
  also have "\<dots> = (int d + 2 ^ 31) mod 2 ^ 32 - 2 ^ 31" using int_word_sint [of "int d", where 'a = 32] by simp
  also have "\<dots> = (int d mod 2 ^ 32 + 2 ^ 31) mod 2 ^ 32 - 2 ^ 31" by (simp only: mod_add_left_eq)
  also have "\<dots> = int d mod 2 ^ 32 - 2 ^ 32"
  proof -
    have "int (d mod 2 ^ 32) = int d mod 2 ^ 32" by (simp add: zmod_int)
    moreover have "int (2 ^ 31) < int (d mod 2 ^ 32)" using assms(2) unfolding d_def by (simp only: of_nat_less_iff)
    moreover define m where "m = int d mod 2 ^ 32"
    ultimately have "2 ^ 31 < m" by simp
    moreover have "m < 2 ^ 32" unfolding m_def by simp
    ultimately have "(m - 2 ^ 31 + 2 ^ 32) mod 2 ^ 32 = m - 2 ^ 31"
      unfolding mod_add_self2 by (intro mod_pos_pos_trivial) simp_all
    then show ?thesis unfolding m_def [symmetric] by (simp add: add.commute)
  qed
  finally show ?thesis using pos_mod_bound [of "2 ^ 32" "int d"] by simp
qed

lemma search_reversed:
  assumes "z \<in> {x, y}" "y < x" "x + 1 < W64"
  shows "translate_loop ([\<lparr>old_loc = x, new_loc = nx, ent_size = 1\<rparr>, \<lparr>old_loc = y, new_loc = ny, ent_size = 1\<rparr>] @ rest) z 0 1 = Some 0"
proof -
  let ?l = "[\<lparr>old_loc = x, new_loc = nx, ent_size = 1\<rparr>, \<lparr>old_loc = y, new_loc = ny, ent_size = 1\<rparr>] @ rest"
  have one: "f32 1 = 1" "f32 0 = 0" by (simp_all add: f32_def flog2_def pow2_def rne_def Let_def)
  have "probe ?l y 0 1 = Some 0" "probe ?l x 0 1 = Some 1"
    using assms(2) one by (simp_all add: probe_def rd_def interp_range_def)
  moreover have "translate_loop ?l z 0 (- 1) = Some 0" "translate_loop ?l z 2 1 = Some 0" for z
    by (subst translate_loop.simps, simp)+
  moreover have "add64 x 1 = x + 1" "add64 y 1 = y + 1" using assms(2,3) by (simp_all add: add64_nowrap)
  ultimately show ?thesis
    using assms by (subst translate_loop.simps) (auto simp: rd_def)
qed

section \<open>Properties\<close>

text \<open>C35. Building a table of the resizer and asking it. After the table has been created, adding the pairs \<open>ps\<close> one by one ends, without an
error unless an allocation failed, whatever order they come in. Iterating then lists runs that spell out exactly \<open>ps\<close>, in the order of
the additions. And translating any location ends and returns the new location of its pair, and 0 when there is none: the
interpolation search always stays within the table and always makes progress. It is needed that no old location is added twice, that
locations and their successors fit 64 bits, that the old locations span less than \<open>2\<^sup>3\<^sup>1\<close> (the comparison returns an \<^verbatim>\<open>int\<close>), and
that there are at most \<open>2\<^sup>2\<^sup>4\<close> pairs (the probe is computed in single precision).
\<close>
theorem extent_table_translates:
  assumes "ext2fs_create_extent_table mem sz = Inr t0" "distinct (map fst ps)" "length ps \<le> 2 ^ 24"
    and "\<forall>(old, new) \<in> set ps. old + 1 < W64 \<and> new + 1 < W64"
    and "\<forall>p \<in> set ps. \<forall>q \<in> set ps. \<bar>int (fst p) - int (fst q)\<bar> < 2 ^ 31"
  shows "\<exists>r t. add_extents mem fresh t0 ps = Some (r, t) \<and> (r \<noteq> 0 \<longrightarrow> r = EXT2_ET_NO_MEMORY \<and> (\<exists>n. \<not> mem n)) \<and>
           (r = 0 \<longrightarrow>
              (\<exists>runs. iterate_all t = Some runs \<and> concat (map (\<lambda>(old, new, n). map (\<lambda>i. (old + i, new + i)) [0..<n]) runs) = ps) \<and>
              (\<forall>x. \<exists>t'. ext2fs_extent_translate t x = Some (case map_of ps x of None \<Rightarrow> 0 | Some y \<Rightarrow> y, t')))"
proof -
  note t0 = create_extent_table_ok [OF assms(1)]
  have few: "ext_num t0 + length ps \<le> 2 ^ 32" using t0(3) assms(3) by simp
  show ?thesis
  proof (rule add_extents_spec [OF t0(1) few assms(4), of mem fresh])
    fix t assume t: "add_extents mem fresh t0 ps = Some (0, t)" "table_ok t" "pairs (entries t) = pairs (entries t0) @ ps"
      "ext_num t \<le> ext_num t0 + length ps"
    have ps: "pairs (entries t) = ps" using t(3) t0(2) by simp
    have tr: "\<forall>x. \<exists>t'. ext2fs_extent_translate t x = Some (case map_of ps x of None \<Rightarrow> 0 | Some y \<Rightarrow> y, t')"
      using extent_translate_spec [OF t(2)] t(4) t0(3) assms(2,3,5) unfolding ps by fastforce
    have "concat (map ((\<lambda>(old, new, n). map (\<lambda>i. (old + i, new + i)) [0..<n]) \<circ> (\<lambda>e. (old_loc e, new_loc e, ent_size e))) (entries t)) = ps"
      unfolding ps [symmetric] by (simp add: pairs_def ent_pairs_def [abs_def] comp_def)
    then show ?thesis using t(1) iterate_all_spec [OF t(2)] tr by (auto simp del: map_map simp: map_map [symmetric])
  qed simp
qed

theorem extent_table_translates_witness:
  "\<exists>t0 r t. ext2fs_create_extent_table (\<lambda>_. True) 2 = Inr t0 \<and> add_extents (\<lambda>_. True) undefined t0 [(10, 3), (11, 4), (7, 9)] = Some (r, t) \<and>
     r = 0 \<and> (\<exists>t'. ext2fs_extent_translate t 11 = Some (4, t'))"
proof -
  have c: "\<exists>t0. ext2fs_create_extent_table (\<lambda>_. True) 2 = Inr t0"
    by (simp add: ext2fs_create_extent_table_def ext2fs_get_array_def)
  then obtain t0 where t0: "ext2fs_create_extent_table (\<lambda>_. True) 2 = Inr t0" ..
  from extent_table_translates [OF t0, of "[(10, 3), (11, 4), (7, 9)]" undefined] obtain r t where
    rt: "add_extents (\<lambda>_. True) undefined t0 [(10, 3), (11, 4), (7, 9)] = Some (r, t)" "r = 0"
      "\<forall>x. \<exists>t'. ext2fs_extent_translate t x = Some (case map_of [(10, 3), (11, 4), (7, 9)] x of None \<Rightarrow> 0 | Some y \<Rightarrow> y, t')"
    by auto
  from rt(3) [rule_format, of 11] show ?thesis using t0 rt(1,2) by auto
qed

text \<open>C36. Why the span matters. Two old locations \<open>x > y\<close> whose difference leaves a remainder of more than \<open>2\<^sup>3\<^sup>1\<close> modulo \<open>2\<^sup>3\<^sup>2\<close>, as all
differences between \<open>2\<^sup>3\<^sup>1 + 1\<close> and \<open>2\<^sup>3\<^sup>2 - 1\<close> do, are added with the larger one first, to a new table of any size. Both pairs are in the
table, which has to be sorted; the comparison truncates the difference to an \<^verbatim>\<open>int\<close> and takes the larger for the smaller, so the sort
leaves the runs in the wrong order, and the search finds neither of the two: the answer is 0, the one for a location that is not there.
\<close>
theorem extent_translate_loses_entry:
  assumes "ext2fs_create_extent_table mem sz = Inr t0" "add_extents mem fresh t0 [(x, nx), (y, ny)] = Some (0, t)"
    and "y < x" "2 ^ 31 < (x - y) mod 2 ^ 32" "x + 1 < W64" "nx + 1 < W64" "ny + 1 < W64"
  shows "iterate_all t = Some [(x, nx, 1), (y, ny, 1)] \<and>
    (\<exists>t'. ext2fs_extent_translate t x = Some (0, t')) \<and> (\<exists>t'. ext2fs_extent_translate t y = Some (0, t'))"
proof -
  let ?es = "[\<lparr>old_loc = x, new_loc = nx, ent_size = 1\<rparr>, \<lparr>old_loc = y, new_loc = ny, ent_size = 1\<rparr>]"
  note es = two_entries [OF assms(1,2,5,3)]
  have ok: "table_ok t" using es assms(3-7) by (simp add: table_ok_def ent_ok_def)
  have l: "ext_list t = ?es @ drop 2 (ext_list t)" using es(1,2) by (metis append_take_drop_id entries_def)
  have "extent_cmp (?es ! 0) (?es ! 1) < 0" using assms(3-5) by (intro extent_cmp_wraps) simp_all
  then have q: "qsort extent_cmp ?es = ?es" by (simp add: qsort_def)
  have "take (ext_num t) (ext_list t) = ?es" using es(1) by (simp add: entries_def)
  then have tr: "ext2fs_extent_translate t z = map_option (\<lambda>r. (r, t\<lparr>ext_sorted := True\<rparr>)) (translate_loop (ext_list t) z 0 1)" for z
    using es(2,3) q l by (simp add: ext2fs_extent_translate_def)
  have "translate_loop (ext_list t) z 0 1 = Some 0" if "z \<in> {x, y}" for z
    using search_reversed [OF that assms(3,5)] l by metis
  then show ?thesis using iterate_all_spec [OF ok] es(1) by (simp add: tr)
qed

theorem extent_translate_loses_entry_witness:
  "\<exists>t0 t t'. ext2fs_create_extent_table (\<lambda>_. True) 1 = Inr t0 \<and>
     add_extents (\<lambda>_. True) undefined t0 [(2147483650, 7), (1, 9)] = Some (0, t) \<and>
     iterate_all t = Some [(2147483650, 7, 1), (1, 9, 1)] \<and> ext2fs_extent_translate t 1 = Some (0, t')"
proof -
  obtain t0 where t0: "ext2fs_create_extent_table (\<lambda>_. True) 1 = Inr t0"
    by (simp add: ext2fs_create_extent_table_def ext2fs_get_array_def)
  obtain t where t: "add_extents (\<lambda>_. True) undefined t0 [(2147483650, 7), (1, 9)] = Some (0, t)"
    using add_extents_spec [OF create_extent_table_ok(1) [OF t0], of "[(2147483650, 7), (1, 9)]" "\<lambda>_. True" undefined]
      create_extent_table_ok(3) [OF t0] by auto
  from extent_translate_loses_entry [OF t0 t] show ?thesis using t0 t by auto
qed

end
