(* ===== verification/Crc32c.thy ===== *)
theory Crc32c
  imports Fs_Struct
begin

unbundle bit_operations_syntax

text \<open>
  The 32-bit checksums of metadata and journal, \<^verbatim>\<open>lib/ext2fs/crc32c.c\<close>, eight bytes at a time over eight tables, and the program that
  generates the tables at build time, \<^verbatim>\<open>lib/ext2fs/gen_crc32ctable.c\<close>. The host is little-endian. The configuration
  is the default one, 64 bits at a time; the variant of the same function for one bit at a time is the reference.
\<close>

section \<open>The table generator\<close>

abbreviation (input) CRCPOLY_BE :: u32 where "CRCPOLY_BE \<equiv> 0x04c11db7"
abbreviation (input) CRC32C_POLY_LE :: u32 where "CRC32C_POLY_LE \<equiv> 0x82F63B78"

definition crc_shift_le :: "u32 \<Rightarrow> u32 \<Rightarrow> u32" where
  "crc_shift_le poly crc = drop_bit 1 crc XOR (if crc AND 1 \<noteq> 0 then poly else 0)"

definition crc_shift_be :: "u32 \<Rightarrow> u32 \<Rightarrow> u32" where
  "crc_shift_be poly crc = push_bit 1 crc XOR (if crc AND 0x80000000 \<noteq> 0 then poly else 0)"

text \<open>The inner loops over \<open>j\<close>; the outer loops never pass \<open>i = 0\<close>.\<close>

function fill_le :: "nat \<Rightarrow> u32 \<Rightarrow> nat \<Rightarrow> u32 list \<Rightarrow> u32 list option" where
  "fill_le i crc j row =
     (if j < 256 \<and> i \<noteq> 0 then do { v \<leftarrow> rd row j; row' \<leftarrow> wr row (i + j) (crc XOR v); fill_le i crc (j + 2 * i) row' }
      else Some row)"
  by pat_completeness auto
termination by (relation "measure (\<lambda>(i, _, j, _). 256 - j)") auto

declare fill_le.simps [simp del]

fun row_le :: "nat \<Rightarrow> u32 \<Rightarrow> u32 list \<Rightarrow> u32 list option" where
  "row_le i crc row =
     (if i = 0 then Some row
      else let crc' = crc_shift_le CRC32C_POLY_LE crc in
           do { row' \<leftarrow> fill_le i crc' 0 row; row_le (i div 2) crc' row' })"

declare row_le.simps [simp del]

function fill_be :: "nat \<Rightarrow> u32 \<Rightarrow> nat \<Rightarrow> u32 list \<Rightarrow> u32 list option" where
  "fill_be i crc j row =
     (if j < i then do { v \<leftarrow> rd row j; row' \<leftarrow> wr row (i + j) (crc XOR v); fill_be i crc (j + 1) row' } else Some row)"
  by pat_completeness auto
termination by (relation "measure (\<lambda>(i, _, j, _). i - j)") auto

declare fill_be.simps [simp del]

function row_be :: "nat \<Rightarrow> u32 \<Rightarrow> u32 list \<Rightarrow> u32 list option" where
  "row_be i crc row =
     (if i < 256 \<and> i \<noteq> 0 then
        let crc' = crc_shift_be CRCPOLY_BE crc in do { row' \<leftarrow> fill_be i crc' 0 row; row_be (2 * i) crc' row' }
      else Some row)"
  by pat_completeness auto
termination by (relation "measure (\<lambda>(i, _, _). 256 - i)") auto

declare row_be.simps [simp del]

definition next_le :: "u32 list \<Rightarrow> u32 \<Rightarrow> u32 option" where
  "next_le row crc = do { t \<leftarrow> rd row (unat (crc AND 0xff)); Some (t XOR drop_bit 8 crc) }"

definition next_be :: "u32 list \<Rightarrow> u32 \<Rightarrow> u32 option" where
  "next_be row crc = do { t \<leftarrow> rd row (unat (drop_bit 24 crc AND 0xff)); Some (t XOR push_bit 8 crc) }"

text \<open>The remaining rows, column by column, with the step of either byte order.\<close>

function fill_col :: "(u32 list \<Rightarrow> u32 \<Rightarrow> u32 option) \<Rightarrow> nat \<Rightarrow> nat \<Rightarrow> u32 \<Rightarrow> u32 list list \<Rightarrow> u32 list list option" where
  "fill_col nxt i j crc tab =
     (if j < 8 then
        do { row0 \<leftarrow> rd tab 0; crc' \<leftarrow> nxt row0 crc; row \<leftarrow> rd tab j; row' \<leftarrow> wr row i crc'; tab' \<leftarrow> wr tab j row';
             fill_col nxt i (j + 1) crc' tab' }
      else Some tab)"
  by pat_completeness auto
termination by (relation "measure (\<lambda>(_, _, j, _, _). 8 - j)") auto

declare fill_col.simps [simp del]

function fill_cols :: "(u32 list \<Rightarrow> u32 \<Rightarrow> u32 option) \<Rightarrow> nat \<Rightarrow> u32 list list \<Rightarrow> u32 list list option" where
  "fill_cols nxt i tab =
     (if i < 256 then
        do { row0 \<leftarrow> rd tab 0; crc \<leftarrow> rd row0 i; tab' \<leftarrow> fill_col nxt i 1 crc tab; fill_cols nxt (i + 1) tab' }
      else Some tab)"
  by pat_completeness auto
termination by (relation "measure (\<lambda>(_, i, _). 256 - i)") auto

declare fill_cols.simps [simp del]

definition zero_tab :: "u32 list list" where "zero_tab = replicate 8 (replicate 256 0)"

definition crc32cinit_le :: "u32 list list option" where
  "crc32cinit_le =
     do { r \<leftarrow> rd zero_tab 0; r0 \<leftarrow> wr r 0 0; row \<leftarrow> row_le 128 1 r0; tab \<leftarrow> wr zero_tab 0 row; fill_cols next_le 0 tab }"

definition crc32init_be :: "u32 list list option" where
  "crc32init_be =
     do { r \<leftarrow> rd zero_tab 0; r0 \<leftarrow> wr r 0 0; row \<leftarrow> row_be 1 0x80000000 r0; tab \<leftarrow> wr zero_tab 0 row; fill_cols next_be 0 tab }"

section \<open>The checksum\<close>

definition swab32 :: "u32 \<Rightarrow> u32" where
  "swab32 x = push_bit 24 (x AND 0xff) OR push_bit 8 (x AND 0xff00) OR drop_bit 8 (x AND 0xff0000) OR drop_bit 24 (x AND 0xff000000)"

definition tab_at :: "u32 list list \<Rightarrow> nat \<Rightarrow> u32 \<Rightarrow> u32 option" where
  "tab_at tab j i = do { row \<leftarrow> rd tab j; rd row (unat (i AND 255)) }"

definition DO_CRC :: "u32 list list \<Rightarrow> u32 \<Rightarrow> u8 \<Rightarrow> u32 option" where
  "DO_CRC tab crc x = map_option (\<lambda>t. t XOR drop_bit 8 crc) (tab_at tab 0 (crc XOR ucast x))"

definition DO_CRC4 :: "u32 list list \<Rightarrow> u32 \<Rightarrow> u32 option" where
  "DO_CRC4 tab q =
     do { a \<leftarrow> tab_at tab 3 q; b \<leftarrow> tab_at tab 2 (drop_bit 8 q); c \<leftarrow> tab_at tab 1 (drop_bit 16 q); d \<leftarrow> tab_at tab 0 (drop_bit 24 q);
          Some (a XOR b XOR c XOR d) }"

definition DO_CRC8 :: "u32 list list \<Rightarrow> u32 \<Rightarrow> u32 option" where
  "DO_CRC8 tab q =
     do { a \<leftarrow> tab_at tab 7 q; b \<leftarrow> tab_at tab 6 (drop_bit 8 q); c \<leftarrow> tab_at tab 5 (drop_bit 16 q); d \<leftarrow> tab_at tab 4 (drop_bit 24 q);
          Some (a XOR b XOR c XOR d) }"

text \<open>Bytes up to an address that is a multiple of 4.\<close>

fun align_it :: "u32 list list \<Rightarrow> nat \<Rightarrow> u32 \<Rightarrow> u8 list \<Rightarrow> nat \<Rightarrow> (u32 \<times> u8 list \<times> nat) option" where
  "align_it tab addr crc buf 0 = Some (crc, buf, 0)"
| "align_it tab addr crc buf (Suc len) =
     (if addr AND 3 = 0 then Some (crc, buf, Suc len)
      else case buf of
        [] \<Rightarrow> None
      | x # buf' \<Rightarrow> do { crc' \<leftarrow> DO_CRC tab crc x; align_it tab (addr + 1) crc' buf' len })"

definition le32 :: "u8 \<Rightarrow> u8 \<Rightarrow> u8 \<Rightarrow> u8 \<Rightarrow> u32" where
  "le32 a b c d = ucast a OR push_bit 8 (ucast b) OR push_bit 16 (ucast c) OR push_bit 24 (ucast d)"

fun slice8 :: "u32 list list \<Rightarrow> u32 \<Rightarrow> u8 list \<Rightarrow> nat \<Rightarrow> (u32 \<times> u8 list) option" where
  "slice8 tab crc buf 0 = Some (crc, buf)"
| "slice8 tab crc (a # b # c # d # e # f # g # h # buf) (Suc len) =
     do { crc1 \<leftarrow> DO_CRC8 tab (crc XOR le32 a b c d); crc2 \<leftarrow> DO_CRC4 tab (le32 e f g h); slice8 tab (crc1 XOR crc2) buf len }"
| "slice8 tab crc _ (Suc len) = None"

fun last_bytes :: "u32 list list \<Rightarrow> u32 \<Rightarrow> u8 list \<Rightarrow> nat \<Rightarrow> u32 option" where
  "last_bytes tab crc buf 0 = Some crc"
| "last_bytes tab crc [] (Suc len) = None"
| "last_bytes tab crc (x # buf) (Suc len) = do { crc' \<leftarrow> DO_CRC tab crc x; last_bytes tab crc' buf len }"

definition crc32_body :: "nat \<Rightarrow> u32 \<Rightarrow> u8 list \<Rightarrow> nat \<Rightarrow> u32 list list \<Rightarrow> u32 option" where
  "crc32_body addr crc buf len tab =
     do { (crc1, buf1, len1) \<leftarrow> align_it tab addr crc buf len;
          (crc2, buf2) \<leftarrow> slice8 tab crc1 buf1 (len1 div 8);
          last_bytes tab crc2 buf2 (len1 mod 8) }"

text \<open>The tables are printed through \<^verbatim>\<open>tole\<close>, which changes nothing on this host, and \<^verbatim>\<open>tobe\<close>.\<close>

definition ext2fs_crc32c_le :: "nat \<Rightarrow> u32 \<Rightarrow> u8 list \<Rightarrow> nat \<Rightarrow> u32 option" where
  "ext2fs_crc32c_le addr crc p len = do { tab \<leftarrow> crc32cinit_le; crc32_body addr crc p len tab }"

definition ext2fs_crc32_be :: "nat \<Rightarrow> u32 \<Rightarrow> u8 list \<Rightarrow> nat \<Rightarrow> u32 option" where
  "ext2fs_crc32_be addr crc p len =
     do { tab \<leftarrow> crc32init_be; map_option swab32 (crc32_body addr (swab32 crc) p len (map (map swab32) tab)) }"

text \<open>The variants for one bit at a time.\<close>

definition crc32_le_bits :: "u32 \<Rightarrow> u8 \<Rightarrow> u32 \<Rightarrow> u32" where
  "crc32_le_bits poly x crc = (crc_shift_le poly ^^ 8) (crc XOR ucast x)"

definition crc32_be_bits :: "u32 \<Rightarrow> u8 \<Rightarrow> u32 \<Rightarrow> u32" where
  "crc32_be_bits poly x crc = (crc_shift_be poly ^^ 8) (crc XOR push_bit 24 (ucast x))"

section \<open>Eight bytes at a time\<close>

text \<open>
  What the body of the checksum relies on: a linear function \<open>step\<close> that shifts a byte out, and tables whose row \<open>j\<close> holds its
  \<open>j + 1\<close>-fold value at every byte.
\<close>

lemma and_255: "x AND 255 = x AND mask 8" for x :: u32
  by (simp add: mask_eq_exp_minus_1)

locale slicing_tables =
  fixes tab :: "u32 list list" and step :: "u32 \<Rightarrow> u32"
  assumes linear: "step (a XOR b) = step a XOR step b"
    and shift: "step x = step (x AND 255) XOR drop_bit 8 x"
    and rows: "j < 8 \<Longrightarrow> tab_at tab j i = Some ((step ^^ Suc j) (i AND 255))"
begin

lemma step_0: "step 0 = 0"
  using linear [of 0 0] by simp

lemma steps_linear: "(step ^^ n) (a XOR b) = (step ^^ n) a XOR (step ^^ n) b"
  by (induction n) (simp_all add: linear)

lemma step_high: "x AND 255 = 0 \<Longrightarrow> step x = drop_bit 8 x"
  using shift [of x] by (simp add: step_0)

lemma steps_split: "(step ^^ Suc n) x = (step ^^ Suc n) (x AND 255) XOR (step ^^ n) (drop_bit 8 x)"
proof -
  have "x = (x AND 255) XOR (x AND NOT 255)" by (rule bit_word_eqI) (auto simp: bit_simps)
  then have "(step ^^ Suc n) x = (step ^^ Suc n) (x AND 255) XOR (step ^^ Suc n) (x AND NOT 255)"
    using steps_linear by metis
  moreover have "(x AND NOT 255) AND 255 = 0" by (rule bit_word_eqI) (auto simp: bit_simps)
  then have "step (x AND NOT 255) = drop_bit 8 (x AND NOT 255)" by (rule step_high)
  moreover have "drop_bit 8 (x AND NOT 255) = drop_bit 8 x"
    unfolding mask_eq_exp_minus_1 [of 8, where 'a = "32 word", simplified, symmetric]
    by (rule bit_word_eqI) (auto simp: bit_simps dest: bit_imp_le_length)
  ultimately show ?thesis by (simp add: funpow_swap1 del: funpow.simps) (simp add: funpow_Suc_right del: funpow.simps)
qed

text \<open>Four tables apply the step four times.\<close>

lemma steps_word:
  "(step ^^ (4 + n)) x = (step ^^ (4 + n)) (x AND 255) XOR (step ^^ (3 + n)) (drop_bit 8 x AND 255) XOR
     (step ^^ (2 + n)) (drop_bit 16 x AND 255) XOR (step ^^ (1 + n)) (drop_bit 24 x AND 255)"
proof -
  have "drop_bit 32 x = 0" by (rule bit_word_eqI) (auto simp: bit_simps dest: bit_imp_le_length)
  moreover have "(step ^^ k) 0 = 0" for k by (induction k) (simp_all add: step_0)
  ultimately show ?thesis
    using steps_split [of "3 + n" x] steps_split [of "2 + n" "drop_bit 8 x"] steps_split [of "1 + n" "drop_bit 16 x"]
      steps_split [of n "drop_bit 24 x"]
    by (simp add: drop_bit_drop_bit xor.assoc eval_nat_numeral del: funpow.simps)
qed

lemma do_crc: "DO_CRC tab crc x = Some (step (crc XOR ucast x))"
proof -
  have "drop_bit 8 (crc XOR ucast x) = drop_bit 8 crc" by (rule bit_word_eqI) (auto simp: bit_simps dest: bit_imp_le_length)
  then show ?thesis using rows [of 0] shift [of "crc XOR ucast x"] by (simp add: DO_CRC_def)
qed

lemma do_crc4: "DO_CRC4 tab q = Some ((step ^^ 4) q)"
  using steps_word [of 0 q] rows [of 0] rows [of 1] rows [of 2] rows [of 3]
  by (simp add: DO_CRC4_def eval_nat_numeral del: funpow.simps)

lemma do_crc8: "DO_CRC8 tab q = Some ((step ^^ 8) q)"
  using steps_word [of 4 q] rows [of 4] rows [of 5] rows [of 6] rows [of 7]
  by (simp add: DO_CRC8_def eval_nat_numeral del: funpow.simps)

abbreviation (input) "byte_step \<equiv> \<lambda>x crc. step (crc XOR ucast x)"

lemma four_bytes: "fold byte_step [a, b, c, d] crc = (step ^^ 4) (crc XOR le32 a b c d)"
proof -
  let ?w = "\<lambda>x :: u8. ucast x :: u32"
  have low: "(le32 a b c d) AND 255 = ?w a" "drop_bit 8 (le32 a b c d) AND 255 = ?w b" "drop_bit 16 (le32 a b c d) AND 255 = ?w c"
    "drop_bit 24 (le32 a b c d) AND 255 = ?w d"
    unfolding and_255 le32_def by (rule bit_word_eqI; auto simp: bit_simps dest: bit_imp_le_length)+
  have "(step ^^ 4) (crc XOR le32 a b c d) = (step ^^ 4) crc XOR ((step ^^ 4) (?w a) XOR (step ^^ 3) (?w b) XOR (step ^^ 2) (?w c) XOR step (?w d))"
    using steps_linear [of 4 crc "le32 a b c d"] steps_word [of 0 "le32 a b c d"] low by simp
  then show ?thesis by (simp add: linear eval_nat_numeral xor.assoc)
qed

lemma slice8_spec:
  "8 * n \<le> length buf \<Longrightarrow> slice8 tab crc buf n = Some (fold byte_step (take (8 * n) buf) crc, drop (8 * n) buf)"
proof (induction n arbitrary: crc buf)
  case (Suc n)
  then have "8 \<le> length buf" by simp
  then obtain a b c d e f g h buf' where buf: "buf = a # b # c # d # e # f # g # h # buf'"
    by (auto simp: eval_nat_numeral Suc_le_length_iff)
  let ?c = "(step ^^ 8) (crc XOR le32 a b c d) XOR (step ^^ 4) (le32 e f g h)"
  have "fold byte_step [a, b, c, d, e, f, g, h] crc = fold byte_step [e, f, g, h] (fold byte_step [a, b, c, d] crc)" by simp
  also have "\<dots> = (step ^^ 4) ((step ^^ 4) (crc XOR le32 a b c d) XOR le32 e f g h)" by (simp only: four_bytes)
  also have "\<dots> = ?c" using funpow_add [of 4 4 step] by (simp add: steps_linear)
  finally have "fold byte_step [a, b, c, d, e, f, g, h] crc = ?c" .
  moreover have "take (8 * Suc n) buf = [a, b, c, d, e, f, g, h] @ take (8 * n) buf'"
    using take_append [of "8 * Suc n" "[a, b, c, d, e, f, g, h]" buf'] by (simp add: buf)
  ultimately have "fold byte_step (take (8 * Suc n) buf) crc = fold byte_step (take (8 * n) buf') ?c" by simp
  moreover have "drop (8 * Suc n) buf = drop (8 * n) buf'"
    using drop_append [of "8 * Suc n" "[a, b, c, d, e, f, g, h]" buf'] by (simp add: buf)
  ultimately show ?case using Suc.IH [of buf' ?c] Suc.prems by (simp add: buf do_crc8 do_crc4)
qed simp

lemma align_it_spec:
  "len \<le> length buf \<Longrightarrow> \<exists>k \<le> len. align_it tab addr crc buf len = Some (fold byte_step (take k buf) crc, drop k buf, len - k)"
proof (induction len arbitrary: addr crc buf)
  case (Suc len)
  then obtain x buf' where buf: "buf = x # buf'" "len \<le> length buf'" by (cases buf) auto
  show ?case
  proof (cases "addr AND 3 = 0")
    case False
    obtain k where "k \<le> len"
      "align_it tab (addr + 1) (byte_step x crc) buf' len = Some (fold byte_step (take k buf') (byte_step x crc), drop k buf', len - k)"
      using Suc.IH [OF buf(2)] by blast
    then show ?thesis using False by (auto simp: buf(1) do_crc intro!: exI [of _ "Suc k"])
  qed (auto intro: exI [of _ 0])
qed simp

lemma last_bytes_spec: "len \<le> length buf \<Longrightarrow> last_bytes tab crc buf len = Some (fold byte_step (take len buf) crc)"
proof (induction len arbitrary: crc buf)
  case (Suc len)
  then show ?case by (cases buf) (auto simp: do_crc)
qed simp

lemma crc32_body_spec:
  assumes "len \<le> length buf"
  shows "crc32_body addr crc buf len tab = Some (fold byte_step (take len buf) crc)"
proof -
  obtain k where k: "k \<le> len" "align_it tab addr crc buf len = Some (fold byte_step (take k buf) crc, drop k buf, len - k)"
    using align_it_spec [OF assms] by blast
  let ?n = "8 * ((len - k) div 8)" and ?r = "(len - k) mod 8"
  have n: "?n + ?r = len - k" by simp
  then have "?n \<le> length (drop k buf)" "?r \<le> length (drop ?n (drop k buf))"
    using assms k(1) unfolding length_drop by linarith+
  then have "crc32_body addr crc buf len tab = Some (fold byte_step (take k buf @ take ?n (drop k buf) @ take ?r (drop ?n (drop k buf))) crc)"
    using k(2) slice8_spec last_bytes_spec by (simp add: crc32_body_def)
  also have "take ?n (drop k buf) @ take ?r (drop ?n (drop k buf)) = take (len - k) (drop k buf)"
    using take_add [of ?n ?r "drop k buf"] n by simp
  also have "take k buf @ take (len - k) (drop k buf) = take len buf" using take_add [of k "len - k" buf] k(1) by simp
  finally show ?thesis .
qed

end

section \<open>The tables are right\<close>

text \<open>The remaining rows.\<close>

definition rows_ok :: "u32 list list \<Rightarrow> bool" where
  "rows_ok tab \<longleftrightarrow> length tab = 8 \<and> (\<forall>j < 8. length (tab ! j) = 256)"

lemma fill_col_spec:
  assumes nxt: "\<And>c. nxt (tab ! 0) c = Some (f c)" and "rows_ok tab" "i < 256" "1 \<le> j"
  shows "\<exists>tab'. fill_col nxt i j crc tab = Some tab' \<and> rows_ok tab' \<and>
    (\<forall>j' < 8. \<forall>i' < 256. tab' ! j' ! i' = (if i' = i \<and> j \<le> j' then (f ^^ (j' - j + 1)) crc else tab ! j' ! i')) \<and> tab' ! 0 = tab ! 0"
  using assms
proof (induction nxt i j crc tab rule: fill_col.induct)
  case (1 nxt i j crc tab)
  show ?case
  proof (cases "j < 8")
    case True
    let ?tab = "tab[j := (tab ! j)[i := f crc]]"
    have len: "length tab = 8" "length (tab ! j) = 256" using 1(3) True by (auto simp: rows_ok_def)
    have r0: "?tab ! 0 = tab ! 0" using 1(5) by simp
    have ok: "rows_ok ?tab" using 1(3) len True by (auto simp: rows_ok_def nth_list_update)
    have run: "fill_col nxt i j crc tab = fill_col nxt i (j + 1) (f crc) ?tab"
      using True len 1(2,4) by (subst fill_col.simps) (simp add: rd_def wr_def)
    have "\<exists>tab'. fill_col nxt i (j + 1) (f crc) ?tab = Some tab' \<and> rows_ok tab' \<and>
      (\<forall>j' < 8. \<forall>i' < 256. tab' ! j' ! i' = (if i' = i \<and> j + 1 \<le> j' then (f ^^ (j' - (j + 1) + 1)) (f crc) else ?tab ! j' ! i')) \<and>
      tab' ! 0 = ?tab ! 0"
      by (rule 1(1)) (use True len 1(2,4) r0 ok in \<open>auto simp: rd_def wr_def\<close>)
    then obtain tab' where t: "fill_col nxt i (j + 1) (f crc) ?tab = Some tab'" "rows_ok tab'"
      "\<forall>j' < 8. \<forall>i' < 256. tab' ! j' ! i' = (if i' = i \<and> j + 1 \<le> j' then (f ^^ (j' - (j + 1) + 1)) (f crc) else ?tab ! j' ! i')"
      "tab' ! 0 = ?tab ! 0" by blast
    have "tab' ! j' ! i' = (if i' = i \<and> j \<le> j' then (f ^^ (j' - j + 1)) crc else tab ! j' ! i')" if j': "j' < 8" "i' < 256" for j' i'
    proof -
      consider "j' < j" | "j' = j" | "j < j'" by linarith
      then show ?thesis
      proof cases
        case 3
        then have "j' - j + 1 = Suc (j' - (j + 1) + 1)" by simp
        then show ?thesis using t(3) j' 3 len by (auto simp: funpow_swap1 nth_list_update)
      qed (use t(3) j' len in \<open>auto simp: nth_list_update\<close>)
    qed
    then show ?thesis using run t r0 by auto
  qed (use 1 in \<open>auto simp: fill_col.simps\<close>)
qed

lemma fill_cols_spec:
  assumes nxt: "\<And>c. nxt (tab ! 0) c = Some (f c)" and "rows_ok tab" "i \<le> 256"
    and "\<forall>j < 8. \<forall>i' < i. tab ! j ! i' = (f ^^ j) (tab ! 0 ! i')"
  shows "\<exists>tab'. fill_cols nxt i tab = Some tab' \<and> rows_ok tab' \<and> (\<forall>j < 8. \<forall>i < 256. tab' ! j ! i = (f ^^ j) (tab ! 0 ! i))"
  using assms
proof (induction nxt i tab rule: fill_cols.induct)
  case (1 nxt i tab)
  show ?case
  proof (cases "i < 256")
    case True
    have len: "length tab = 8" "length (tab ! 0) = 256" using 1(3) by (auto simp: rows_ok_def)
    obtain tab1 where t: "fill_col nxt i 1 (tab ! 0 ! i) tab = Some tab1" "rows_ok tab1"
      "\<forall>j' < 8. \<forall>i' < 256. tab1 ! j' ! i' = (if i' = i \<and> 1 \<le> j' then (f ^^ (j' - 1 + 1)) (tab ! 0 ! i) else tab ! j' ! i')"
      "tab1 ! 0 = tab ! 0"
      using fill_col_spec [of nxt tab f, OF 1(2,3) True order_refl] by blast
    have run: "fill_cols nxt i tab = fill_cols nxt (i + 1) tab1"
      using True len t(1) by (subst fill_cols.simps) (simp add: rd_def)
    have done': "tab1 ! j ! i' = (f ^^ j) (tab1 ! 0 ! i')" if "j < 8" "i' < i + 1" for j i'
    proof -
      have "i' < 256" using that(2) True by simp
      note e = t(3) [rule_format, OF that(1) this]
      show ?thesis
      proof (cases "i' = i \<and> 1 \<le> j")
        case True
        then show ?thesis using e t(4) by simp
      next
        case False
        then have "i' < i \<or> j = 0" using that(2) by auto
        then show ?thesis using False e t(4) 1(5) [rule_format, OF that(1)] by auto
      qed
    qed
    have "\<exists>tab'. fill_cols nxt (i + 1) tab1 = Some tab' \<and> rows_ok tab' \<and> (\<forall>j < 8. \<forall>i < 256. tab' ! j ! i = (f ^^ j) (tab1 ! 0 ! i))"
      by (rule 1(1)) (use True len 1(2) t done' in \<open>auto simp: rd_def\<close>)
    then show ?thesis using run t(4) by simp
  next
    case False
    then have "i = 256" using 1(4) by simp
    then have "fill_cols nxt i tab = Some tab" by (subst fill_cols.simps) simp
    then show ?thesis using 1(3,5) \<open>i = 256\<close> by blast
  qed
qed

text \<open>The bit steps are linear.\<close>

lemma and_bottom: "c AND 1 \<noteq> 0 \<longleftrightarrow> bit c 0" for c :: u32
  using and_exp_eq_0_iff_not_bit [of c 0] by simp

lemma crc_shift_le_xor: "crc_shift_le p (a XOR b) = crc_shift_le p a XOR crc_shift_le p b"
  unfolding crc_shift_le_def and_bottom bit_xor_iff drop_bit_xor
  by (cases "bit a 0"; cases "bit b 0") (simp_all add: xor.assoc xor.left_commute xor.commute)

lemma and_top: "c AND 0x80000000 \<noteq> 0 \<longleftrightarrow> bit c 31" for c :: u32
proof -
  have "(0x80000000 :: u32) = push_bit 31 1" by simp
  then show ?thesis by (simp only: and_exp_eq_0_iff_not_bit push_bit_of_1) simp
qed

lemma crc_shift_be_xor: "crc_shift_be p (a XOR b) = crc_shift_be p a XOR crc_shift_be p b"
  by (simp add: crc_shift_be_def and_top bit_simps push_bit_xor xor.assoc xor.left_commute xor.commute)

lemma funpow_xor:
  fixes f :: "u32 \<Rightarrow> u32"
  assumes "\<And>a b. f (a XOR b) = f a XOR f b"
  shows "(f ^^ n) (a XOR b) = (f ^^ n) a XOR (f ^^ n) b"
  by (induction n) (simp_all add: assms)

lemma crc_shift_le_high: "\<forall>i < n. \<not> bit x i \<Longrightarrow> (crc_shift_le p ^^ n) x = drop_bit n x"
proof (induction n)
  case (Suc n)
  then have "(crc_shift_le p ^^ Suc n) x = crc_shift_le p (drop_bit n x)" by simp
  also have "\<dots> = drop_bit 1 (drop_bit n x)"
    using Suc.prems unfolding crc_shift_le_def and_bottom by (simp add: bit_drop_bit_eq)
  finally show ?case by (simp add: drop_bit_drop_bit)
qed simp

lemma crc_shift_be_low: "\<forall>i < n. \<not> bit x (31 - i) \<Longrightarrow> n \<le> 32 \<Longrightarrow> (crc_shift_be p ^^ n) x = push_bit n x"
proof (induction n)
  case (Suc n)
  then have "(crc_shift_be p ^^ Suc n) x = crc_shift_be p (push_bit n x)" by simp
  also have "\<dots> = push_bit 1 (push_bit n x)"
    using Suc.prems unfolding crc_shift_be_def and_top by (simp add: bit_simps)
  finally show ?case by (simp add: push_bit_push_bit)
qed simp

lemma of_nat_high:
  assumes "\<not> bit j k"
  shows "(of_nat (2 ^ k + j) :: u32) = of_nat (2 ^ k) XOR of_nat j"
proof -
  have "(of_nat (2 ^ k) :: u32) AND of_nat j = 0"
    using assms by (intro bit_word_eqI) (auto simp: bit_simps bit_of_nat_iff_bit)
  then show ?thesis by (simp add: disjunctive_add_eq_xor)
qed

text \<open>The first row of either table, for a linear entry function.\<close>

definition right_at :: "(nat \<Rightarrow> u32) \<Rightarrow> u32 list \<Rightarrow> nat \<Rightarrow> bool" where
  "right_at entry row m \<longleftrightarrow> row ! m = entry m"

lemma fill_le_spec:
  assumes lin: "\<And>j. 2 ^ Suc k dvd j \<Longrightarrow> entry (2 ^ k + j) = entry (2 ^ k) XOR entry j" and k: "k < 8"
    and "length row = 256" "2 ^ Suc k dvd j" "\<forall>m < 256. 2 ^ Suc k dvd m \<or> 2 ^ k dvd m \<and> m < j \<longrightarrow> right_at entry row m"
  shows "\<exists>row'. fill_le (2 ^ k) (entry (2 ^ k)) j row = Some row' \<and> length row' = 256 \<and> (\<forall>m < 256. 2 ^ k dvd m \<longrightarrow> right_at entry row' m)"
  using assms(3-)
proof (induction "256 - j" arbitrary: j row rule: less_induct)
  case less
  let ?i = "2 ^ k :: nat"
  show ?case
  proof (cases "j < 256")
    case True
    have "(2 :: nat) ^ Suc k dvd 2 ^ 8" using k by (intro le_imp_power_dvd) simp
    then have "2 ^ Suc k dvd 256 - j" using less.prems(2) by (simp add: dvd_diff_nat)
    then have le: "j + 2 * ?i \<le> 256" using True dvd_imp_le [of "2 ^ Suc k" "256 - j"] by simp
    let ?row = "row[?i + j := entry ?i XOR row ! j]"
    have "right_at entry row j" using less.prems(2,3) True by blast
    then have new: "entry ?i XOR row ! j = entry (?i + j)" using lin [OF less.prems(2)] by (simp add: right_at_def)
    have pos: "0 < ?i" by simp
    then have "?i + j < 256" using le by linarith
    then have run: "fill_le ?i (entry ?i) j row = fill_le ?i (entry ?i) (j + 2 * ?i) ?row"
      using True less.prems(1) pos by (subst fill_le.simps) (simp add: rd_def wr_def)
    have "right_at entry ?row m" if m: "m < 256" "2 ^ Suc k dvd m \<or> ?i dvd m \<and> m < j + 2 * ?i" for m
    proof (cases "m = ?i + j")
      case True
      then show ?thesis using new m(1) less.prems(1) by (simp add: right_at_def)
    next
      case False
      have "2 ^ Suc k dvd m \<or> ?i dvd m \<and> m < j"
      proof (rule ccontr)
        assume n: "\<not> ?thesis"
        then have "?i dvd m - j" "j \<le> m" using m(2) less.prems(2) dvd_mult_right [of 2 ?i j] by (auto intro: dvd_diff_nat)
        then obtain c where c: "m = j + ?i * c" by (metis dvd_def le_add_diff_inverse)
        then have "?i * c < 2 * ?i" using n m(2) by auto
        then have "c < 2" by simp
        then have "c = 0 \<or> c = 1" by linarith
        then show False using c False n less.prems(2) by auto
      qed
      then show ?thesis using less.prems(3) m(1) False by (auto simp: right_at_def)
    qed
    moreover have "2 ^ Suc k dvd j + 2 * ?i" "256 - (j + 2 * ?i) < 256 - j" using less.prems(2) True pos by (simp, linarith)
    ultimately have "\<exists>row'. fill_le ?i (entry ?i) (j + 2 * ?i) ?row = Some row' \<and> length row' = 256 \<and>
        (\<forall>m < 256. ?i dvd m \<longrightarrow> right_at entry row' m)"
      using less.prems(1) True by (intro less.hyps) auto
    then show ?thesis using run by simp
  next
    case False
    then have "fill_le ?i (entry ?i) j row = Some row" by (subst fill_le.simps) simp
    then show ?thesis using less.prems False by auto
  qed
qed

definition entry_le :: "nat \<Rightarrow> u32" where
  "entry_le m = (crc_shift_le CRC32C_POLY_LE ^^ 8) (of_nat m)"

lemma entry_le_high: "2 ^ Suc k dvd j \<Longrightarrow> entry_le (2 ^ k + j) = entry_le (2 ^ k) XOR entry_le j"
proof -
  assume "2 ^ Suc k dvd j"
  then have "\<not> bit j k" by (auto simp: bit_iff_odd elim!: dvdE)
  from of_nat_high [OF this] show ?thesis unfolding entry_le_def by (simp only: funpow_xor [of "crc_shift_le p" for p, OF crc_shift_le_xor])
qed

lemma entry_le_half: "k < 8 \<Longrightarrow> crc_shift_le CRC32C_POLY_LE (entry_le (2 ^ Suc k)) = entry_le (2 ^ k)"
proof -
  assume "k < 8"
  have "\<not> bit (2 ^ Suc k :: u32) 0" by (simp add: bit_exp_iff del: power_Suc)
  moreover have "drop_bit 1 (2 ^ Suc k :: u32) = 2 ^ k"
    using \<open>k < 8\<close> by (intro bit_word_eqI) (auto simp: bit_simps bit_exp_iff)
  ultimately have "crc_shift_le CRC32C_POLY_LE (2 ^ Suc k) = 2 ^ k"
    unfolding crc_shift_le_def and_bottom by (simp only: if_False) simp
  then show ?thesis unfolding entry_le_def of_nat_power of_nat_numeral by (simp only: funpow_swap1)
qed

lemma row_le_spec:
  assumes "k \<le> 8" "length row = 256" "\<forall>m < 256. 2 ^ k dvd m \<longrightarrow> right_at entry_le row m"
  shows "\<exists>row'. row_le (2 ^ k div 2) (entry_le (2 ^ k)) row = Some row' \<and> length row' = 256 \<and> (\<forall>m < 256. right_at entry_le row' m)"
  using assms
proof (induction k arbitrary: row)
  case 0
  then show ?case by (simp add: row_le.simps)
next
  case (Suc k)
  have k: "k < 8" using Suc.prems(1) by simp
  obtain row1 where r: "fill_le (2 ^ k) (entry_le (2 ^ k)) 0 row = Some row1" "length row1 = 256"
    "\<forall>m < 256. 2 ^ k dvd m \<longrightarrow> right_at entry_le row1 m"
    using fill_le_spec [of k entry_le row 0, OF entry_le_high k Suc.prems(2)] Suc.prems(3) by auto
  have "row_le (2 ^ Suc k div 2) (entry_le (2 ^ Suc k)) row = row_le (2 ^ k div 2) (entry_le (2 ^ k)) row1"
    using r(1) entry_le_half [OF k] by (subst row_le.simps) (simp add: Let_def)
  then show ?case using Suc.IH [OF _ r(2,3)] k by simp
qed

lemma fill_be_spec:
  assumes lin: "\<And>j. j < 2 ^ k \<Longrightarrow> entry (2 ^ k + j) = entry (2 ^ k) XOR entry j" and k: "k < 8"
    and "length row = 256" "j \<le> 2 ^ k" "\<forall>m < 2 ^ k + j. right_at entry row m"
  shows "\<exists>row'. fill_be (2 ^ k) (entry (2 ^ k)) j row = Some row' \<and> length row' = 256 \<and> (\<forall>m < 2 ^ Suc k. right_at entry row' m)"
  using assms(3-)
proof (induction "2 ^ k - j" arbitrary: j row rule: less_induct)
  case less
  let ?i = "2 ^ k :: nat"
  show ?case
  proof (cases "j < ?i")
    case True
    let ?row = "row[?i + j := entry ?i XOR row ! j]"
    have "right_at entry row j" using less.prems(3) by simp
    then have new: "entry ?i XOR row ! j = entry (?i + j)" using lin [OF True] by (simp add: right_at_def)
    have "(2 :: nat) ^ Suc k \<le> 2 ^ 8" using k by (intro power_increasing) simp_all
    then have lt: "?i + j < 256" using True by simp
    then have run: "fill_be ?i (entry ?i) j row = fill_be ?i (entry ?i) (j + 1) ?row"
      using True less.prems(1) by (subst fill_be.simps) (simp add: rd_def wr_def)
    have "right_at entry ?row m" if "m < ?i + (j + 1)" for m
      using that less.prems(1,3) new lt by (cases "m = ?i + j") (auto simp: right_at_def)
    then have "\<exists>row'. fill_be ?i (entry ?i) (j + 1) ?row = Some row' \<and> length row' = 256 \<and> (\<forall>m < 2 ^ Suc k. right_at entry row' m)"
      using less.prems(1) True by (intro less.hyps) auto
    then show ?thesis using run by simp
  next
    case False
    then have "fill_be ?i (entry ?i) j row = Some row" by (subst fill_be.simps) simp
    then show ?thesis using less.prems False by auto
  qed
qed

definition entry_be :: "nat \<Rightarrow> u32" where
  "entry_be m = (crc_shift_be CRCPOLY_BE ^^ 8) (push_bit 24 (of_nat m))"

lemma entry_be_high: "j < 2 ^ k \<Longrightarrow> entry_be (2 ^ k + j) = entry_be (2 ^ k) XOR entry_be j"
proof -
  assume "j < 2 ^ k"
  then have "\<not> bit j k" by (simp add: bit_iff_odd)
  from of_nat_high [OF this] show ?thesis
    unfolding entry_be_def by (simp only: push_bit_xor funpow_xor [of "crc_shift_be p" for p, OF crc_shift_be_xor])
qed

lemma push_bit_power: "push_bit n (2 ^ k :: u32) = 2 ^ (n + k)"
  by (simp add: push_bit_eq_mult power_add)

lemma crc_shift_be_power: "n < 31 \<Longrightarrow> crc_shift_be p (2 ^ n) = 2 ^ Suc n"
  using push_bit_power [of 1 n] unfolding crc_shift_be_def and_top by (simp add: bit_exp_iff)

lemma entry_be_double: "k < 7 \<Longrightarrow> crc_shift_be CRCPOLY_BE (entry_be (2 ^ k)) = entry_be (2 ^ Suc k)"
proof -
  assume "k < 7"
  then have "crc_shift_be CRCPOLY_BE (2 ^ (24 + k)) = 2 ^ (24 + Suc k)" using crc_shift_be_power [of "24 + k"] by simp
  then show ?thesis
    unfolding entry_be_def of_nat_power of_nat_numeral push_bit_power by (simp only: funpow_swap1)
qed

lemma row_be_spec:
  assumes "k \<le> 8" "length row = 256" "\<forall>m < 2 ^ k. right_at entry_be row m" "k < 8 \<longrightarrow> crc_shift_be CRCPOLY_BE crc = entry_be (2 ^ k)"
  shows "\<exists>row'. row_be (2 ^ k) crc row = Some row' \<and> length row' = 256 \<and> (\<forall>m < 256. right_at entry_be row' m)"
  using assms
proof (induction "8 - k" arbitrary: k crc row)
  case 0
  then have "k = 8" by simp
  then have "row_be (2 ^ k) crc row = Some row" by (subst row_be.simps) simp
  then show ?case using 0 \<open>k = 8\<close> by simp
next
  case (Suc d)
  then have k: "k < 8" by simp
  obtain row1 where r: "fill_be (2 ^ k) (entry_be (2 ^ k)) 0 row = Some row1" "length row1 = 256" "\<forall>m < 2 ^ Suc k. right_at entry_be row1 m"
    using fill_be_spec [of k entry_be row 0, OF entry_be_high k Suc.prems(2)] Suc.prems(3) by auto
  have "(2 :: nat) ^ k < 2 ^ 8" using k by (rule power_strict_increasing) simp
  then have "row_be (2 ^ k) crc row = row_be (2 ^ Suc k) (entry_be (2 ^ k)) row1"
    using r(1) Suc.prems(4) k by (subst row_be.simps) (simp add: Let_def)
  moreover have "\<exists>row'. row_be (2 ^ Suc k) (entry_be (2 ^ k)) row1 = Some row' \<and> length row' = 256 \<and> (\<forall>m < 256. right_at entry_be row' m)"
    by (rule Suc.hyps(1)) (use Suc.hyps(2) k r(2,3) entry_be_double in auto)
  ultimately show ?case by simp
qed

section \<open>The two checksums\<close>

abbreviation (input) "step_le \<equiv> crc_shift_le CRC32C_POLY_LE ^^ 8"
abbreviation (input) "shift_be8 \<equiv> crc_shift_be CRCPOLY_BE ^^ 8"

lemma step_le_split: "step_le c = step_le (c AND 255) XOR drop_bit 8 c"
proof -
  have "c = (c AND mask 8) XOR (c AND NOT (mask 8))" by (rule bit_word_eqI) (auto simp: bit_simps)
  then have "step_le c = step_le (c AND mask 8) XOR step_le (c AND NOT (mask 8))"
    using funpow_xor [of "crc_shift_le CRC32C_POLY_LE", OF crc_shift_le_xor] by metis
  also have "step_le (c AND NOT (mask 8)) = drop_bit 8 (c AND NOT (mask 8))"
    by (rule crc_shift_le_high) (auto simp: bit_simps)
  also have "drop_bit 8 (c AND NOT (mask 8)) = drop_bit 8 c"
    by (rule bit_word_eqI) (auto simp: bit_simps dest: bit_imp_le_length)
  finally show ?thesis unfolding and_255 .
qed

lemma shift_be8_split: "shift_be8 c = shift_be8 (push_bit 24 (drop_bit 24 c)) XOR push_bit 8 c"
proof -
  have "c = push_bit 24 (drop_bit 24 c) XOR (c AND mask 24)" by (rule bit_word_eqI) (auto simp: bit_simps)
  then have "shift_be8 c = shift_be8 (push_bit 24 (drop_bit 24 c)) XOR shift_be8 (c AND mask 24)"
    using funpow_xor [of "crc_shift_be CRCPOLY_BE", OF crc_shift_be_xor] by metis
  also have "shift_be8 (c AND mask 24) = push_bit 8 (c AND mask 24)"
    by (rule crc_shift_be_low) (auto simp: bit_simps)
  also have "push_bit 8 (c AND mask 24) = push_bit 8 c"
    by (rule bit_word_eqI) (auto simp: bit_simps)
  finally show ?thesis .
qed

lemma unat_and_255: "unat (x AND 255) < 256" for x :: u32
proof -
  have "x AND 255 \<le> 255" by (rule word_and_le1)
  then show ?thesis by (simp add: word_le_nat_alt)
qed

lemma next_le_spec:
  assumes "length row = 256" "\<forall>m < 256. right_at entry_le row m"
  shows "next_le row c = Some (step_le c)"
  using assms unat_and_255 [of c] step_le_split [of c] by (simp add: next_le_def rd_def right_at_def entry_le_def)

lemma next_be_spec:
  assumes "length row = 256" "\<forall>m < 256. right_at entry_be row m"
  shows "next_be row c = Some (shift_be8 c)"
proof -
  have "drop_bit 24 c AND 255 = drop_bit 24 c"
    unfolding and_255 by (rule bit_word_eqI) (auto simp: bit_simps dest: bit_imp_le_length)
  then show ?thesis
    using assms unat_and_255 [of "drop_bit 24 c"] shift_be8_split [of c] by (simp add: next_be_def rd_def right_at_def entry_be_def)
qed

lemma zero_tab_simps: "length zero_tab = 8" "j < 8 \<Longrightarrow> zero_tab ! j = replicate 256 0"
  by (simp_all add: zero_tab_def)

lemma with_row:
  assumes "length row = 256"
  shows "rows_ok (zero_tab[0 := row])" "zero_tab[0 := row] ! 0 = row"
  using assms by (auto simp: rows_ok_def zero_tab_simps nth_list_update)

lemma crc32cinit_le_spec:
  obtains tab where "crc32cinit_le = Some tab" "rows_ok tab" "\<And>j i. j < 8 \<Longrightarrow> i < 256 \<Longrightarrow> tab ! j ! i = (step_le ^^ Suc j) (of_nat i)"
proof -
  let ?r = "replicate 256 (0 :: u32)"
  have "right_at entry_le ?r m" if "m < 256" "2 ^ 8 dvd m" for m
  proof -
    have "m = 0" using that by (auto dest: dvd_imp_le)
    then show ?thesis using funpow_xor [of "crc_shift_le CRC32C_POLY_LE", OF crc_shift_le_xor, of 8 0 0] by (simp add: right_at_def entry_le_def)
  qed
  then obtain row where row: "row_le 128 (entry_le 256) ?r = Some row" "length row = 256" "\<forall>m < 256. right_at entry_le row m"
    using row_le_spec [of 8 ?r] by auto
  have "\<forall>i < 8. \<not> bit (2 ^ 8 :: u32) i" by (simp add: bit_exp_iff del: power_numeral)
  from crc_shift_le_high [OF this] have one: "entry_le 256 = 1" by (simp add: entry_le_def)
  obtain tab where tab: "fill_cols next_le 0 (zero_tab[0 := row]) = Some tab" "rows_ok tab"
    "\<forall>j < 8. \<forall>i < 256. tab ! j ! i = (step_le ^^ j) (zero_tab[0 := row] ! 0 ! i)"
    using fill_cols_spec [of next_le "zero_tab[0 := row]" step_le 0] with_row [OF row(2)] next_le_spec [OF row(2,3)] by auto
  have "?r[0 := 0] = ?r" by (rule list_update_same_conv [THEN iffD2]) simp_all
  then have "crc32cinit_le = Some tab"
    using row(1,2) tab(1) one by (simp add: crc32cinit_le_def rd_def wr_def zero_tab_simps)
  moreover have "tab ! j ! i = (step_le ^^ Suc j) (of_nat i)" if "j < 8" "i < 256" for j i
  proof -
    have "row ! i = step_le (of_nat i)" using row(3) that(2) by (simp add: right_at_def entry_le_def)
    then show ?thesis using tab(3) that with_row(2) [OF row(2)] by (simp only: funpow_Suc_right comp_apply)
  qed
  ultimately show thesis using that tab(2) by blast
qed

lemma crc32init_be_spec:
  obtains tab where "crc32init_be = Some tab" "rows_ok tab"
    "\<And>j i. j < 8 \<Longrightarrow> i < 256 \<Longrightarrow> tab ! j ! i = (shift_be8 ^^ Suc j) (push_bit 24 (of_nat i))"
proof -
  let ?r = "replicate 256 (0 :: u32)"
  have "right_at entry_be ?r 0"
    using funpow_xor [of "crc_shift_be CRCPOLY_BE", OF crc_shift_be_xor, of 8 0 0] by (simp add: right_at_def entry_be_def)
  moreover have "crc_shift_be CRCPOLY_BE 0x80000000 = entry_be 1"
  proof -
    have "\<forall>i < 7. \<not> bit (2 ^ 24 :: u32) (31 - i)" by (auto simp: bit_exp_iff simp del: power_numeral)
    from crc_shift_be_low [OF this, of CRCPOLY_BE] have "(crc_shift_be CRCPOLY_BE ^^ 7) (2 ^ 24) = 0x80000000" by simp
    moreover have "8 = Suc 7" by simp
    ultimately have "(crc_shift_be CRCPOLY_BE ^^ 8) (2 ^ 24) = crc_shift_be CRCPOLY_BE 0x80000000" by (simp only: funpow.simps comp_apply)
    then show ?thesis by (simp add: entry_be_def)
  qed
  ultimately obtain row where row: "row_be 1 0x80000000 ?r = Some row" "length row = 256" "\<forall>m < 256. right_at entry_be row m"
    using row_be_spec [of 0 ?r "0x80000000"] by auto
  obtain tab where tab: "fill_cols next_be 0 (zero_tab[0 := row]) = Some tab" "rows_ok tab"
    "\<forall>j < 8. \<forall>i < 256. tab ! j ! i = (shift_be8 ^^ j) (zero_tab[0 := row] ! 0 ! i)"
    using fill_cols_spec [of next_be "zero_tab[0 := row]" shift_be8 0] with_row [OF row(2)] next_be_spec [OF row(2,3)] by auto
  have "?r[0 := 0] = ?r" by (rule list_update_same_conv [THEN iffD2]) simp_all
  then have "crc32init_be = Some tab"
    using row(1,2) tab(1) by (simp add: crc32init_be_def rd_def wr_def zero_tab_simps)
  moreover have "tab ! j ! i = (shift_be8 ^^ Suc j) (push_bit 24 (of_nat i))" if "j < 8" "i < 256" for j i
  proof -
    have "row ! i = shift_be8 (push_bit 24 (of_nat i))" using row(3) that(2) by (simp add: right_at_def entry_be_def)
    then show ?thesis using tab(3) that with_row(2) [OF row(2)] by (simp only: funpow_Suc_right comp_apply)
  qed
  ultimately show thesis using that tab(2) by blast
qed

text \<open>Byte swapping.\<close>

lemma swab_masks: "(0xff :: u32) = mask 8" "(0xff00 :: u32) = push_bit 8 (mask 8)" "(0xff0000 :: u32) = push_bit 16 (mask 8)"
  "(0xff000000 :: u32) = push_bit 24 (mask 8)"
  by (simp_all add: mask_eq_exp_minus_1 push_bit_eq_mult)

definition swab_pos :: "nat \<Rightarrow> nat" where
  "swab_pos n = (if n < 8 then 24 + n else if n < 16 then 8 + n else if n < 24 then n - 8 else n - 24)"

lemma bit_swab32: "bit (swab32 x) n \<longleftrightarrow> n < 32 \<and> bit x (swab_pos n)"
proof -
  consider "n < 8" | "8 \<le> n" "n < 16" | "16 \<le> n" "n < 24" | "24 \<le> n" "n < 32" | "32 \<le> n" by linarith
  then show ?thesis
    unfolding swab32_def swab_masks by cases (auto simp: bit_simps swab_pos_def dest: bit_imp_le_length)
qed

lemma swab32_xor: "swab32 (a XOR b) = swab32 a XOR swab32 b"
  by (rule bit_word_eqI) (simp add: bit_swab32 bit_xor_iff)

lemma swab32_swab32 [simp]: "swab32 (swab32 x) = x"
proof (rule bit_word_eqI)
  fix n assume "n < LENGTH(32)"
  then have "swab_pos n < 32" "swab_pos (swab_pos n) = n" by (auto simp: swab_pos_def)
  then show "bit (swab32 (swab32 x)) n = bit x n" using \<open>n < LENGTH(32)\<close> by (simp add: bit_swab32)
qed

lemma swab32_small:
  assumes "\<And>n. 8 \<le> n \<Longrightarrow> \<not> bit x n"
  shows "swab32 x = push_bit 24 x"
proof (rule bit_word_eqI)
  fix n assume "n < LENGTH(32)"
  moreover have "n < 24 \<Longrightarrow> 8 \<le> swab_pos n" unfolding swab_pos_def by simp linarith
  ultimately show "bit (swab32 x) n = bit (push_bit 24 x) n"
    using assms [of "swab_pos n"] by (cases "n < 24") (auto simp: bit_swab32 bit_push_bit_iff, auto simp: swab_pos_def)
qed

lemma swab32_byte: "swab32 (x AND 255) = push_bit 24 (x AND 255)" "swab32 (ucast y) = push_bit 24 (ucast y)" for y :: u8
  unfolding and_255 by (rule swab32_small; auto simp: bit_simps dest: bit_imp_le_length)+

abbreviation (input) "step_be \<equiv> \<lambda>x. swab32 (shift_be8 (swab32 x))"

lemma steps_be: "(step_be ^^ n) x = swab32 ((shift_be8 ^^ n) (swab32 x))"
  by (induction n) simp_all

lemma step_be_split: "step_be x = step_be (x AND 255) XOR drop_bit 8 x"
proof -
  have "push_bit 24 (drop_bit 24 (swab32 x)) = swab32 (x AND 255)"
    unfolding swab32_byte(1) unfolding and_255 by (rule bit_word_eqI) (auto simp: bit_swab32 bit_simps swab_pos_def)
  moreover have "swab32 (push_bit 8 (swab32 x)) = drop_bit 8 x"
  proof (rule bit_word_eqI)
    fix n assume n: "n < LENGTH(32)"
    consider "n < 8" | "8 \<le> n" "n < 16" | "16 \<le> n" "n < 24" | "24 \<le> n" by linarith
    then show "bit (swab32 (push_bit 8 (swab32 x))) n = bit (drop_bit 8 x) n"
      using n by cases (auto simp: bit_swab32 bit_simps swab_pos_def dest: bit_imp_le_length)
  qed
  ultimately show ?thesis using shift_be8_split [of "swab32 x"] by (simp add: swab32_xor)
qed

lemma tab_at_rows:
  assumes "rows_ok tab" "j < 8"
  shows "tab_at tab j i = Some (tab ! j ! unat (i AND 255))"
    "tab_at (map (map f) tab) j i = Some (f (tab ! j ! unat (i AND 255)))"
  using assms unat_and_255 [of i] by (simp_all add: tab_at_def rd_def rows_ok_def)

definition crc32ctable_le :: "u32 list list" where "crc32ctable_le = the crc32cinit_le"
definition crc32table_be :: "u32 list list" where "crc32table_be = map (map swab32) (the crc32init_be)"

interpretation le: slicing_tables crc32ctable_le step_le
proof (unfold_locales, goal_cases)
  case (3 j i)
  obtain tab where t: "crc32cinit_le = Some tab" "rows_ok tab" "\<And>j i. j < 8 \<Longrightarrow> i < 256 \<Longrightarrow> tab ! j ! i = (step_le ^^ Suc j) (of_nat i)"
    using crc32cinit_le_spec by blast
  then show ?case
    using tab_at_rows(1) [OF t(2) 3, of i] t(3) [OF 3 unat_and_255 [of i]] unfolding crc32ctable_le_def t(1) by (simp del: funpow.simps)
qed (rule funpow_xor [OF crc_shift_le_xor], rule step_le_split)

interpretation be: slicing_tables crc32table_be step_be
proof (unfold_locales, goal_cases)
  case (1 a b)
  show ?case by (simp add: swab32_xor funpow_xor [of "crc_shift_be p" for p, OF crc_shift_be_xor])
next
  case (3 j i)
  obtain tab where t: "crc32init_be = Some tab" "rows_ok tab"
    "\<And>j i. j < 8 \<Longrightarrow> i < 256 \<Longrightarrow> tab ! j ! i = (shift_be8 ^^ Suc j) (push_bit 24 (of_nat i))"
    using crc32init_be_spec by blast
  have "tab_at crc32table_be j i = Some (swab32 (tab ! j ! unat (i AND 255)))"
    using tab_at_rows(2) [OF t(2) 3] unfolding crc32table_be_def t(1) by simp
  also have "tab ! j ! unat (i AND 255) = (shift_be8 ^^ Suc j) (swab32 (i AND 255))"
    using t(3) [OF 3 unat_and_255 [of i]] unfolding swab32_byte(1) by (simp del: funpow.simps)
  finally show ?case unfolding steps_be .
qed (rule step_be_split)

lemma crc32c_le_spec:
  "len \<le> length p \<Longrightarrow> ext2fs_crc32c_le addr crc p len = Some (fold (crc32_le_bits CRC32C_POLY_LE) (take len p) crc)"
proof -
  assume len: "len \<le> length p"
  have t: "crc32cinit_le = Some crc32ctable_le" using crc32cinit_le_spec by (metis crc32ctable_le_def option.sel)
  have "fold (\<lambda>x crc. step_le (crc XOR ucast x)) = fold (crc32_le_bits CRC32C_POLY_LE)"
    by (simp add: crc32_le_bits_def [abs_def])
  then show ?thesis using le.crc32_body_spec [OF len] unfolding ext2fs_crc32c_le_def t by simp
qed

lemma crc32_be_spec:
  "len \<le> length p \<Longrightarrow> ext2fs_crc32_be addr crc p len = Some (fold (crc32_be_bits CRCPOLY_BE) (take len p) crc)"
proof -
  assume len: "len \<le> length p"
  obtain tab where t: "crc32init_be = Some tab" using crc32init_be_spec by blast
  have tab: "crc32table_be = map (map swab32) tab" unfolding crc32table_be_def t by simp
  have "swab32 (fold (\<lambda>x crc. step_be (crc XOR ucast x)) xs (swab32 c)) = fold (crc32_be_bits CRCPOLY_BE) xs c" for xs :: "u8 list" and c
  proof (induction xs arbitrary: c)
    case (Cons x xs)
    have "step_be (swab32 c XOR ucast x) = swab32 (crc32_be_bits CRCPOLY_BE x c)"
      by (simp add: swab32_xor swab32_byte(2) crc32_be_bits_def)
    then show ?case using Cons.IH by simp
  qed simp
  then show ?thesis using be.crc32_body_spec [OF len] unfolding ext2fs_crc32_be_def t tab by simp
qed

section \<open>Property\<close>

text \<open>C37. The two 32-bit checksums. The table generator ends inside its arrays; on a buffer of at least the given length, at any
  address, both checksums read only the buffer and the tables and give the value of the variant that shifts one bit at a time, for the
  Castagnoli polynomial lowest bit first and for the Ethernet polynomial highest bit first. The fast code aligns the pointer, takes
  eight bytes at a time through eight generated tables, and for the second checksum works on byte-swapped values.\<close>

theorem crc32_matches_bitwise:
  assumes "len \<le> length p"
  shows "ext2fs_crc32c_le addr crc p len = Some (fold (crc32_le_bits CRC32C_POLY_LE) (take len p) crc) \<and>
         ext2fs_crc32_be addr crc p len = Some (fold (crc32_be_bits CRCPOLY_BE) (take len p) crc)"
  using assms by (simp add: crc32c_le_spec crc32_be_spec)

theorem crc32_matches_bitwise_witness:
  "ext2fs_crc32c_le 2 0xffffffff [0x31, 0x32] 1 = Some 0x6f0a661c \<and>
   ext2fs_crc32_be 1 0 [0x31] 1 = Some (crc32_be_bits CRCPOLY_BE 0x31 0)"
proof -
  have "crc32_le_bits CRC32C_POLY_LE 0x31 0xffffffff = 0x6f0a661c"
    by code_simp
  then show ?thesis using crc32_matches_bitwise [of 1 "[0x31, 0x32]" 2 "0xffffffff"] crc32_matches_bitwise [of 1 "[0x31]" 1 0] by simp
qed

end
