(* ===== verification/Csum.thy ===== *)
theory Csum
  imports Blknum_Fields Crc16 Crc32c
begin

unbundle bit_operations_syntax

text \<open>
  Checksums of metadata, \<^verbatim>\<open>lib/ext2fs/csum.c\<close>. A block, an inode, or a copy of the superblock is the byte array the code casts to its
  structure; the fields are at their byte offsets, on a little-endian host, where the conversions of byte order do nothing. Reading an
  inode from disk is a parameter that returns its generation number or an error.
\<close>

abbreviation EXT2_ET_DB_NOT_FOUND :: errcode where "EXT2_ET_DB_NOT_FOUND \<equiv> 2133571406"
abbreviation EXT2_ET_DIR_NO_SPACE_FOR_CSUM :: errcode where "EXT2_ET_DIR_NO_SPACE_FOR_CSUM \<equiv> 2133571477"

type_synonym read_inode = "u32 \<Rightarrow> errcode + u32"

section \<open>Features\<close>

definition ext2fs_has_feature_gdt_csum :: "ext2_super_block \<Rightarrow> bool" where
  "ext2fs_has_feature_gdt_csum sb \<longleftrightarrow> s_feature_ro_compat sb AND 0x10 \<noteq> 0"

definition ext2fs_has_feature_metadata_csum :: "ext2_super_block \<Rightarrow> bool" where
  "ext2fs_has_feature_metadata_csum sb \<longleftrightarrow> s_feature_ro_compat sb AND 0x400 \<noteq> 0"

definition ext2fs_has_feature_csum_seed :: "ext2_super_block \<Rightarrow> bool" where
  "ext2fs_has_feature_csum_seed sb \<longleftrightarrow> s_feature_incompat sb AND 0x2000 \<noteq> 0"

definition ext2fs_has_feature_ea_inode :: "ext2_super_block \<Rightarrow> bool" where
  "ext2fs_has_feature_ea_inode sb \<longleftrightarrow> s_feature_incompat sb AND 0x400 \<noteq> 0"

definition ext2fs_has_group_desc_csum :: "ext2_filsys \<Rightarrow> bool" where
  "ext2fs_has_group_desc_csum fs \<longleftrightarrow> ext2fs_has_feature_metadata_csum (fs_super fs) \<or> ext2fs_has_feature_gdt_csum (fs_super fs)"

section \<open>Bytes\<close>

text \<open>The checksum of a buffer; its address does not matter.\<close>

definition crc32c :: "u32 \<Rightarrow> u8 list \<Rightarrow> nat \<Rightarrow> u32 option" where
  "crc32c = ext2fs_crc32c_le 0"

definition bytes32 :: "u32 \<Rightarrow> u8 list" where
  "bytes32 v = [ucast v, ucast (drop_bit 8 v), ucast (drop_bit 16 v), ucast (drop_bit 24 v)]"

definition bytes64 :: "w64 \<Rightarrow> u8 list" where
  "bytes64 v = bytes32 (ucast v) @ bytes32 (ucast (drop_bit 32 v))"

definition ext2fs_init_csum_seed :: "ext2_filsys \<Rightarrow> ext2_filsys option" where
  "ext2fs_init_csum_seed fs =
     (if ext2fs_has_feature_csum_seed (fs_super fs) then Some (fs\<lparr>fs_csum_seed := s_checksum_seed (fs_super fs)\<rparr>)
      else if ext2fs_has_feature_metadata_csum (fs_super fs) \<or> ext2fs_has_feature_ea_inode (fs_super fs)
      then map_option (\<lambda>c. fs\<lparr>fs_csum_seed := c\<rparr>) (crc32c 0xffffffff (s_uuid (fs_super fs)) 16)
      else Some fs)"

section \<open>Multi-mount protection block and superblock\<close>

definition ext2fs_mmp_csum :: "ext2_filsys \<Rightarrow> u8 list \<Rightarrow> u32 option" where
  "ext2fs_mmp_csum fs mmp = crc32c (fs_csum_seed fs) mmp 1020"

definition ext2fs_mmp_csum_verify :: "ext2_filsys \<Rightarrow> u8 list \<Rightarrow> bool option" where
  "ext2fs_mmp_csum_verify fs mmp =
     (if \<not> ext2fs_has_feature_metadata_csum (fs_super fs) then Some True
      else do { calculated \<leftarrow> ext2fs_mmp_csum fs mmp; c \<leftarrow> rd32 mmp 1020; Some (c = calculated) })"

definition ext2fs_mmp_csum_set :: "ext2_filsys \<Rightarrow> u8 list \<Rightarrow> (errcode \<times> u8 list) option" where
  "ext2fs_mmp_csum_set fs mmp =
     (if \<not> ext2fs_has_feature_metadata_csum (fs_super fs) then Some (0, mmp)
      else do { crc \<leftarrow> ext2fs_mmp_csum fs mmp; mmp' \<leftarrow> wr32 mmp 1020 crc; Some (0, mmp') })"

definition ext2fs_verify_csum_type :: "ext2_filsys \<Rightarrow> ext2_super_block \<Rightarrow> bool" where
  "ext2fs_verify_csum_type fs sb \<longleftrightarrow> (if \<not> ext2fs_has_feature_metadata_csum (fs_super fs) then True else s_checksum_type sb = 1)"

definition ext2fs_superblock_csum :: "u8 list \<Rightarrow> u32 option" where
  "ext2fs_superblock_csum sb = crc32c 0xffffffff sb 1020"

definition ext2fs_superblock_csum_verify :: "ext2_filsys \<Rightarrow> u8 list \<Rightarrow> bool option" where
  "ext2fs_superblock_csum_verify fs sb =
     (if \<not> ext2fs_has_feature_metadata_csum (fs_super fs) then Some True
      else do { calculated \<leftarrow> ext2fs_superblock_csum sb; c \<leftarrow> rd32 sb 1020; Some (c = calculated) })"

definition ext2fs_superblock_csum_set :: "ext2_filsys \<Rightarrow> u8 list \<Rightarrow> (errcode \<times> u8 list) option" where
  "ext2fs_superblock_csum_set fs sb =
     (if \<not> ext2fs_has_feature_metadata_csum (fs_super fs) then Some (0, sb)
      else do { crc \<leftarrow> ext2fs_superblock_csum sb; sb' \<leftarrow> wr32 sb 1020 crc; Some (0, sb') })"

section \<open>Extended attribute blocks\<close>

text \<open>The checksum field is cleared for the computation and then restored; the result has the block after that.\<close>

definition ext2fs_ext_attr_block_csum :: "ext2_filsys \<Rightarrow> w64 \<Rightarrow> u8 list \<Rightarrow> (u32 \<times> u8 list) option" where
  "ext2fs_ext_attr_block_csum fs block hdr =
     do { old_crc \<leftarrow> rd32 hdr 16; hdr0 \<leftarrow> wr32 hdr 16 0;
          crc0 \<leftarrow> crc32c (fs_csum_seed fs) (bytes64 block) 8;
          crc \<leftarrow> crc32c crc0 hdr0 (unat (fs_blocksize fs));
          hdr1 \<leftarrow> wr32 hdr0 16 old_crc;
          Some (crc, hdr1) }"

definition ext2fs_ext_attr_block_csum_verify :: "ext2_filsys \<Rightarrow> w64 \<Rightarrow> u8 list \<Rightarrow> (bool \<times> u8 list) option" where
  "ext2fs_ext_attr_block_csum_verify fs block hdr =
     (if \<not> ext2fs_has_feature_metadata_csum (fs_super fs) then Some (True, hdr)
      else do { (calculated, hdr1) \<leftarrow> ext2fs_ext_attr_block_csum fs block hdr; c \<leftarrow> rd32 hdr1 16; Some (c = calculated, hdr1) })"

definition ext2fs_ext_attr_block_csum_set :: "ext2_filsys \<Rightarrow> w64 \<Rightarrow> u8 list \<Rightarrow> (errcode \<times> u8 list) option" where
  "ext2fs_ext_attr_block_csum_set fs block hdr =
     (if \<not> ext2fs_has_feature_metadata_csum (fs_super fs) then Some (0, hdr)
      else do { (crc, hdr1) \<leftarrow> ext2fs_ext_attr_block_csum fs block hdr; hdr2 \<leftarrow> wr32 hdr1 16 crc; Some (0, hdr2) })"

section \<open>Directory blocks\<close>

text \<open>The offset of the count and limit of an index block. Entries have the inode at 0, the record length at 4 and the name length at 6.\<close>

definition dx_count_offset :: "ext2_filsys \<Rightarrow> u8 list \<Rightarrow> (errcode + nat) option" where
  "dx_count_offset fs dirent =
     do { rec_len \<leftarrow> rd16 dirent 4; name_len \<leftarrow> rd16 dirent 6;
          if ucast rec_len = fs_blocksize fs \<and> name_len = 0 then Some (Inr 8)
          else if rec_len = 12 then
            do { rec_len1 \<leftarrow> rd16 dirent 16;
                 if ucast rec_len1 \<noteq> fs_blocksize fs - 12 then Some (Inl EXT2_ET_DB_NOT_FOUND)
                 else do { reserved_zero \<leftarrow> rd32 dirent 24; info_length \<leftarrow> rd dirent 29;
                           if reserved_zero \<noteq> 0 \<or> info_length \<noteq> 8 then Some (Inl EXT2_ET_DB_NOT_FOUND) else Some (Inr 32) } }
          else Some (Inl EXT2_ET_DB_NOT_FOUND) }"

definition get_dx_countlimit :: "ext2_filsys \<Rightarrow> u8 list \<Rightarrow> (errcode + nat) option" where
  "get_dx_countlimit fs dirent =
     do { r \<leftarrow> dx_count_offset fs dirent;
          case r of
            Inl e \<Rightarrow> Some (Inl e)
          | Inr count_offset \<Rightarrow>
              do { limit \<leftarrow> rd16 dirent count_offset; count \<leftarrow> rd16 dirent (count_offset + 2);
                   let max_sane_entries = unat (fs_blocksize fs - of_nat count_offset) div 8;
                   if unat limit > max_sane_entries \<or> unat count > max_sane_entries then Some (Inl EXT2_ET_DIR_NO_SPACE_FOR_CSUM)
                   else Some (Inr count_offset) } }"

text \<open>The entries up to the place of the tail.\<close>

function find_tail :: "u8 list \<Rightarrow> nat \<Rightarrow> nat \<Rightarrow> nat option" where
  "find_tail dirent tail d =
     (case rd16 dirent (d + 4) of
        None \<Rightarrow> None
      | Some rec_len \<Rightarrow>
          if rec_len = 0 \<or> rec_len AND 3 \<noteq> 0 then Some d
          else if d + unat rec_len \<ge> tail then Some (d + unat rec_len)
          else find_tail dirent tail (d + unat rec_len))"
  by pat_completeness auto
termination by (relation "measure (\<lambda>(_, tail, d). tail - d)") (auto simp: unat_gt_0 intro!: diff_less_mono2)

declare find_tail.simps [simp del]

definition get_dirent_tail :: "ext2_filsys \<Rightarrow> u8 list \<Rightarrow> (errcode + nat) option" where
  "get_dirent_tail fs dirent =
     (let tail = sub64 (unat (fs_blocksize fs)) 12 in
      do { d \<leftarrow> find_tail dirent tail 0;
           if d \<noteq> tail then Some (Inl EXT2_ET_DIR_NO_SPACE_FOR_CSUM)
           else do { zero1 \<leftarrow> rd32 dirent d; rec_len \<leftarrow> rd16 dirent (d + 4); name_len \<leftarrow> rd16 dirent (d + 6);
                     if zero1 \<noteq> 0 \<or> rec_len \<noteq> 12 \<or> name_len \<noteq> 0xDE00 then Some (Inl EXT2_ET_DIR_NO_SPACE_FOR_CSUM)
                     else Some (Inr d) } })"

definition ext2fs_dirent_has_tail :: "ext2_filsys \<Rightarrow> u8 list \<Rightarrow> bool option" where
  "ext2fs_dirent_has_tail fs dirent = map_option (\<lambda>r. \<not> isl r) (get_dirent_tail fs dirent)"

definition ext2fs_dirent_csum :: "read_inode \<Rightarrow> ext2_filsys \<Rightarrow> u32 \<Rightarrow> u8 list \<Rightarrow> nat \<Rightarrow> (errcode + u32) option" where
  "ext2fs_dirent_csum ri fs inum dirent nbytes =
     (case ri inum of
        Inl e \<Rightarrow> Some (Inl e)
      | Inr gen \<Rightarrow>
          do { crc \<leftarrow> crc32c (fs_csum_seed fs) (bytes32 inum) 4; crc \<leftarrow> crc32c crc (bytes32 gen) 4;
               map_option Inr (crc32c crc dirent nbytes) })"

definition ext2fs_dirent_csum_verify :: "read_inode \<Rightarrow> ext2_filsys \<Rightarrow> u32 \<Rightarrow> u8 list \<Rightarrow> bool option" where
  "ext2fs_dirent_csum_verify ri fs inum dirent =
     do { r \<leftarrow> get_dirent_tail fs dirent;
          case r of
            Inl _ \<Rightarrow> Some True
          | Inr t \<Rightarrow>
              do { c \<leftarrow> ext2fs_dirent_csum ri fs inum dirent t;
                   case c of Inl _ \<Rightarrow> Some False | Inr calculated \<Rightarrow> map_option (\<lambda>v. v = calculated) (rd32 dirent (t + 8)) } }"

definition ext2fs_dirent_csum_set :: "read_inode \<Rightarrow> ext2_filsys \<Rightarrow> u32 \<Rightarrow> u8 list \<Rightarrow> (errcode \<times> u8 list) option" where
  "ext2fs_dirent_csum_set ri fs inum dirent =
     do { r \<leftarrow> get_dirent_tail fs dirent;
          case r of
            Inl e \<Rightarrow> Some (e, dirent)
          | Inr t \<Rightarrow>
              do { c \<leftarrow> ext2fs_dirent_csum ri fs inum dirent t;
                   case c of Inl e \<Rightarrow> Some (e, dirent) | Inr crc \<Rightarrow> map_option (Pair 0) (wr32 dirent (t + 8) crc) } }"

text \<open>When the inode cannot be read, the checksum field stays cleared.\<close>

definition ext2fs_dx_csum :: "read_inode \<Rightarrow> ext2_filsys \<Rightarrow> u32 \<Rightarrow> u8 list \<Rightarrow> nat \<Rightarrow> nat \<Rightarrow> nat \<Rightarrow> ((errcode + u32) \<times> u8 list) option" where
  "ext2fs_dx_csum ri fs inum dirent count_offset count t =
     (let nbytes = count_offset + count * 8 in
      do { old_csum \<leftarrow> rd32 dirent (t + 4); dirent0 \<leftarrow> wr32 dirent (t + 4) 0;
           case ri inum of
             Inl e \<Rightarrow> Some (Inl e, dirent0)
           | Inr gen \<Rightarrow>
               do { crc \<leftarrow> crc32c (fs_csum_seed fs) (bytes32 inum) 4; crc \<leftarrow> crc32c crc (bytes32 gen) 4;
                    crc \<leftarrow> crc32c crc dirent0 nbytes; crc \<leftarrow> crc32c crc (drop t dirent0) 8;
                    dirent1 \<leftarrow> wr32 dirent0 (t + 4) old_csum;
                    Some (Inr crc, dirent1) } })"

definition dx_tail :: "ext2_filsys \<Rightarrow> nat \<Rightarrow> u16 \<Rightarrow> nat option" where
  "dx_tail fs count_offset limit =
     (let t = count_offset + unat limit * 8 in if t > sub64 (unat (fs_blocksize fs)) 8 then None else Some t)"

definition ext2fs_dx_csum_verify :: "read_inode \<Rightarrow> ext2_filsys \<Rightarrow> u32 \<Rightarrow> u8 list \<Rightarrow> (bool \<times> u8 list) option" where
  "ext2fs_dx_csum_verify ri fs inum dirent =
     do { r \<leftarrow> get_dx_countlimit fs dirent;
          case r of
            Inl _ \<Rightarrow> Some (True, dirent)
          | Inr count_offset \<Rightarrow>
              do { limit \<leftarrow> rd16 dirent count_offset; count \<leftarrow> rd16 dirent (count_offset + 2);
                   case dx_tail fs count_offset limit of
                     None \<Rightarrow> Some (False, dirent)
                   | Some t \<Rightarrow>
                       do { (c, dirent1) \<leftarrow> ext2fs_dx_csum ri fs inum dirent count_offset (unat count) t;
                            case c of
                              Inl _ \<Rightarrow> Some (False, dirent1)
                            | Inr calculated \<Rightarrow> map_option (\<lambda>v. (v = calculated, dirent1)) (rd32 dirent1 (t + 4)) } } }"

definition ext2fs_dx_csum_set :: "read_inode \<Rightarrow> ext2_filsys \<Rightarrow> u32 \<Rightarrow> u8 list \<Rightarrow> (errcode \<times> u8 list) option" where
  "ext2fs_dx_csum_set ri fs inum dirent =
     do { r \<leftarrow> get_dx_countlimit fs dirent;
          case r of
            Inl e \<Rightarrow> Some (e, dirent)
          | Inr count_offset \<Rightarrow>
              do { limit \<leftarrow> rd16 dirent count_offset; count \<leftarrow> rd16 dirent (count_offset + 2);
                   case dx_tail fs count_offset limit of
                     None \<Rightarrow> Some (EXT2_ET_DIR_NO_SPACE_FOR_CSUM, dirent)
                   | Some t \<Rightarrow>
                       do { (c, dirent1) \<leftarrow> ext2fs_dx_csum ri fs inum dirent count_offset (unat count) t;
                            case c of
                              Inl e \<Rightarrow> Some (e, dirent1)
                            | Inr crc \<Rightarrow> map_option (Pair 0) (wr32 dirent1 (t + 4) crc) } } }"

definition ext2fs_dir_block_csum_verify :: "read_inode \<Rightarrow> ext2_filsys \<Rightarrow> u32 \<Rightarrow> u8 list \<Rightarrow> (bool \<times> u8 list) option" where
  "ext2fs_dir_block_csum_verify ri fs inum dirent =
     (if \<not> ext2fs_has_feature_metadata_csum (fs_super fs) then Some (True, dirent)
      else do { t \<leftarrow> get_dirent_tail fs dirent;
                if \<not> isl t then map_option (\<lambda>r. (r, dirent)) (ext2fs_dirent_csum_verify ri fs inum dirent)
                else do { c \<leftarrow> get_dx_countlimit fs dirent;
                          if \<not> isl c then ext2fs_dx_csum_verify ri fs inum dirent else Some (False, dirent) } })"

definition ext2fs_dir_block_csum_set :: "read_inode \<Rightarrow> ext2_filsys \<Rightarrow> u32 \<Rightarrow> u8 list \<Rightarrow> (errcode \<times> u8 list) option" where
  "ext2fs_dir_block_csum_set ri fs inum dirent =
     (if \<not> ext2fs_has_feature_metadata_csum (fs_super fs) then Some (0, dirent)
      else do { t \<leftarrow> get_dirent_tail fs dirent;
                if \<not> isl t then ext2fs_dirent_csum_set ri fs inum dirent
                else do { c \<leftarrow> get_dx_countlimit fs dirent;
                          if \<not> isl c then ext2fs_dx_csum_set ri fs inum dirent
                          else if fs_flags fs AND 0x200000 \<noteq> 0 then Some (0, dirent)
                          else Some (EXT2_ET_DIR_NO_SPACE_FOR_CSUM, dirent) } })"

section \<open>Extent blocks\<close>

definition EXT3_EXTENT_TAIL_OFFSET :: "u8 list \<Rightarrow> nat option" where
  "EXT3_EXTENT_TAIL_OFFSET eh = map_option (\<lambda>eh_max. 12 + 12 * unat eh_max) (rd16 eh 4)"

definition ext2fs_extent_block_csum :: "read_inode \<Rightarrow> ext2_filsys \<Rightarrow> u32 \<Rightarrow> u8 list \<Rightarrow> (errcode + u32) option" where
  "ext2fs_extent_block_csum ri fs inum eh =
     do { nbytes \<leftarrow> EXT3_EXTENT_TAIL_OFFSET eh;
          case ri inum of
            Inl e \<Rightarrow> Some (Inl e)
          | Inr gen \<Rightarrow>
              do { crc \<leftarrow> crc32c (fs_csum_seed fs) (bytes32 inum) 4; crc \<leftarrow> crc32c crc (bytes32 gen) 4;
                   map_option Inr (crc32c crc eh nbytes) } }"

definition ext2fs_extent_block_csum_verify :: "read_inode \<Rightarrow> ext2_filsys \<Rightarrow> u32 \<Rightarrow> u8 list \<Rightarrow> bool option" where
  "ext2fs_extent_block_csum_verify ri fs inum eh =
     do { t \<leftarrow> EXT3_EXTENT_TAIL_OFFSET eh;
          if \<not> ext2fs_has_feature_metadata_csum (fs_super fs) then Some True
          else do { provided \<leftarrow> rd32 eh t; c \<leftarrow> ext2fs_extent_block_csum ri fs inum eh;
                    case c of Inl _ \<Rightarrow> Some False | Inr calculated \<Rightarrow> Some (provided = calculated) } }"

definition ext2fs_extent_block_csum_set :: "read_inode \<Rightarrow> ext2_filsys \<Rightarrow> u32 \<Rightarrow> u8 list \<Rightarrow> (errcode \<times> u8 list) option" where
  "ext2fs_extent_block_csum_set ri fs inum eh =
     do { t \<leftarrow> EXT3_EXTENT_TAIL_OFFSET eh;
          if \<not> ext2fs_has_feature_metadata_csum (fs_super fs) then Some (0, eh)
          else do { c \<leftarrow> ext2fs_extent_block_csum ri fs inum eh;
                    case c of Inl e \<Rightarrow> Some (e, eh) | Inr crc \<Rightarrow> map_option (Pair 0) (wr32 eh t crc) } }"

section \<open>Bitmaps\<close>

text \<open>The two pairs of functions differ in the offsets of the halves in the descriptor.\<close>

definition bitmap_csum_verify :: "nat \<Rightarrow> nat \<Rightarrow> ext2_filsys \<Rightarrow> u32 \<Rightarrow> u8 list \<Rightarrow> nat \<Rightarrow> bool option" where
  "bitmap_csum_verify lo hi fs grp bitmap nbytes =
     (let gdp = ext2fs_group_desc fs grp in
      if \<not> ext2fs_has_feature_metadata_csum (fs_super fs) then Some True
      else do { provided \<leftarrow> rd16 (fs_group_desc fs) (gdp + lo); calculated \<leftarrow> crc32c (fs_csum_seed fs) bitmap nbytes;
                if s_desc_size (fs_super fs) \<ge> of_nat (hi + 2)
                then do { h \<leftarrow> rd16 (fs_group_desc fs) (gdp + hi); Some (ucast provided OR push_bit 16 (ucast h) = calculated) }
                else Some (ucast provided = calculated AND 0xFFFF) })"

definition bitmap_csum_set :: "nat \<Rightarrow> nat \<Rightarrow> ext2_filsys \<Rightarrow> u32 \<Rightarrow> u8 list \<Rightarrow> nat \<Rightarrow> (errcode \<times> ext2_filsys) option" where
  "bitmap_csum_set lo hi fs grp bitmap nbytes =
     (let gdp = ext2fs_group_desc fs grp in
      if \<not> ext2fs_has_feature_metadata_csum (fs_super fs) then Some (0, fs)
      else do { crc \<leftarrow> crc32c (fs_csum_seed fs) bitmap nbytes;
                fs1 \<leftarrow> put_field16 fs (gdp + lo) (ucast crc);
                fs2 \<leftarrow> (if s_desc_size (fs_super fs) \<ge> of_nat (hi + 2) then put_field16 fs1 (gdp + hi) (ucast (drop_bit 16 crc)) else Some fs1);
                Some (0, fs2) })"

definition ext2fs_inode_bitmap_csum_verify :: "ext2_filsys \<Rightarrow> u32 \<Rightarrow> u8 list \<Rightarrow> nat \<Rightarrow> bool option" where
  "ext2fs_inode_bitmap_csum_verify = bitmap_csum_verify bg_inode_bitmap_csum_lo bg_inode_bitmap_csum_hi"

definition ext2fs_inode_bitmap_csum_set :: "ext2_filsys \<Rightarrow> u32 \<Rightarrow> u8 list \<Rightarrow> nat \<Rightarrow> (errcode \<times> ext2_filsys) option" where
  "ext2fs_inode_bitmap_csum_set = bitmap_csum_set bg_inode_bitmap_csum_lo bg_inode_bitmap_csum_hi"

definition ext2fs_block_bitmap_csum_verify :: "ext2_filsys \<Rightarrow> u32 \<Rightarrow> u8 list \<Rightarrow> nat \<Rightarrow> bool option" where
  "ext2fs_block_bitmap_csum_verify = bitmap_csum_verify bg_block_bitmap_csum_lo bg_block_bitmap_csum_hi"

definition ext2fs_block_bitmap_csum_set :: "ext2_filsys \<Rightarrow> u32 \<Rightarrow> u8 list \<Rightarrow> nat \<Rightarrow> (errcode \<times> ext2_filsys) option" where
  "ext2fs_block_bitmap_csum_set = bitmap_csum_set bg_block_bitmap_csum_lo bg_block_bitmap_csum_hi"

section \<open>Inodes\<close>

text \<open>Generation at 100, low half of the checksum at 124, size of the extra fields at 128, high half at 130.\<close>

definition EXT2_INODE_SIZE :: "ext2_super_block \<Rightarrow> nat" where
  "EXT2_INODE_SIZE sb = (if s_rev_level sb = 0 then 128 else unat (s_inode_size sb))"

definition csum_has_hi :: "ext2_filsys \<Rightarrow> u8 list \<Rightarrow> bool option" where
  "csum_has_hi fs inode =
     (if EXT2_INODE_SIZE (fs_super fs) > 128 then map_option (\<lambda>i_extra_isize. i_extra_isize \<ge> 4) (rd16 inode 128) else Some False)"

definition ext2fs_inode_csum :: "ext2_filsys \<Rightarrow> u32 \<Rightarrow> u8 list \<Rightarrow> bool \<Rightarrow> (u32 \<times> u8 list) option" where
  "ext2fs_inode_csum fs inum inode has_hi =
     do { old_lo \<leftarrow> rd16 inode 124; inode1 \<leftarrow> wr16 inode 124 0;
          old_hi \<leftarrow> (if has_hi then rd16 inode1 130 else Some 0);
          inode2 \<leftarrow> (if has_hi then wr16 inode1 130 0 else Some inode1);
          gen \<leftarrow> rd32 inode2 100;
          crc \<leftarrow> crc32c (fs_csum_seed fs) (bytes32 inum) 4; crc \<leftarrow> crc32c crc (bytes32 gen) 4;
          crc \<leftarrow> crc32c crc inode2 (EXT2_INODE_SIZE (fs_super fs));
          inode3 \<leftarrow> wr16 inode2 124 old_lo;
          inode4 \<leftarrow> (if has_hi then wr16 inode3 130 old_hi else Some inode3);
          Some (crc, inode4) }"

definition ext2fs_inode_csum_verify :: "ext2_filsys \<Rightarrow> u32 \<Rightarrow> u8 list \<Rightarrow> (bool \<times> u8 list) option" where
  "ext2fs_inode_csum_verify fs inum inode =
     (if \<not> ext2fs_has_feature_metadata_csum (fs_super fs) then Some (True, inode)
      else do { has_hi \<leftarrow> csum_has_hi fs inode; lo \<leftarrow> rd16 inode 124;
                (calculated, inode1) \<leftarrow> ext2fs_inode_csum fs inum inode has_hi;
                ok \<leftarrow> (if has_hi then map_option (\<lambda>h. ucast lo OR push_bit 16 (ucast h) = calculated) (rd16 inode1 130)
                       else Some (ucast lo = calculated AND 0xFFFF));
                if ok then Some (True, inode1)
                else if length inode1 < 128 then None
                else Some (\<forall>b \<in> set (take 128 inode1). b = 0, inode1) })"

definition ext2fs_inode_csum_set :: "ext2_filsys \<Rightarrow> u32 \<Rightarrow> u8 list \<Rightarrow> (errcode \<times> u8 list) option" where
  "ext2fs_inode_csum_set fs inum inode =
     (if \<not> ext2fs_has_feature_metadata_csum (fs_super fs) then Some (0, inode)
      else do { has_hi \<leftarrow> csum_has_hi fs inode;
                (crc, inode1) \<leftarrow> ext2fs_inode_csum fs inum inode has_hi;
                inode2 \<leftarrow> wr16 inode1 124 (ucast crc);
                inode3 \<leftarrow> (if has_hi then wr16 inode2 130 (ucast (drop_bit 16 crc)) else Some inode2);
                Some (0, inode3) })"

section \<open>Group descriptors\<close>

text \<open>The 32-bit variant clears the checksum and restores it; the older 16-bit one skips it.\<close>

definition ext2fs_group_desc_csum :: "ext2_filsys \<Rightarrow> u32 \<Rightarrow> (u16 \<times> ext2_filsys) option" where
  "ext2fs_group_desc_csum fs grp =
     (let desc = ext2fs_group_desc fs grp; nbytes = EXT2_DESC_SIZE (fs_super fs) in
      if ext2fs_has_feature_metadata_csum (fs_super fs) then
        do { old_crc \<leftarrow> rd16 (fs_group_desc fs) (desc + bg_checksum);
             fs0 \<leftarrow> put_field16 fs (desc + bg_checksum) 0;
             crc32 \<leftarrow> crc32c (fs_csum_seed fs) (bytes32 grp) 4;
             crc32 \<leftarrow> crc32c crc32 (drop desc (fs_group_desc fs0)) nbytes;
             fs1 \<leftarrow> put_field16 fs0 (desc + bg_checksum) old_crc;
             Some (ucast crc32, fs1) }
      else
        do { crc \<leftarrow> ext2fs_crc16 0xffff (s_uuid (fs_super fs)) 16;
             crc \<leftarrow> ext2fs_crc16 crc (bytes32 grp) 4;
             crc \<leftarrow> ext2fs_crc16 crc (drop desc (fs_group_desc fs)) bg_checksum;
             crc \<leftarrow> (if bg_checksum + 2 < nbytes
                     then ext2fs_crc16 crc (drop (desc + bg_checksum + 2) (fs_group_desc fs)) (nbytes - (bg_checksum + 2)) else Some crc);
             Some (crc, fs) })"

definition ext2fs_group_desc_csum_verify :: "ext2_filsys \<Rightarrow> u32 \<Rightarrow> (bool \<times> ext2_filsys) option" where
  "ext2fs_group_desc_csum_verify fs grp =
     (if ext2fs_has_group_desc_csum fs
      then do { c \<leftarrow> ext2fs_bg_checksum fs grp; (crc, fs1) \<leftarrow> ext2fs_group_desc_csum fs grp; Some (c = crc, fs1) }
      else Some (True, fs))"

definition ext2fs_group_desc_csum_set :: "ext2_filsys \<Rightarrow> u32 \<Rightarrow> ext2_filsys option" where
  "ext2fs_group_desc_csum_set fs grp =
     (if \<not> ext2fs_has_group_desc_csum fs then Some fs
      else do { (crc, fs1) \<leftarrow> ext2fs_group_desc_csum fs grp; ext2fs_bg_checksum_set fs1 grp crc })"

end
