(* ===== verification/Alloc.thy ===== *)
theory Alloc
  imports Gen_Bitmap64 Csum
begin

unbundle bit_operations_syntax

text \<open>
  Allocation of blocks and inodes, \<^verbatim>\<open>lib/ext2fs/alloc.c\<close>, the statistics that go with it,
  \<^verbatim>\<open>lib/ext2fs/alloc_stats.c\<close>, and the last part of \<^verbatim>\<open>lib/ext2fs/csum.c\<close>, which reads the inode bitmap.
  The handle adds to the structure of Fs_Struct the two bitmaps and the callbacks of the application. A callback is
  a number, \<open>None\<close> for a null pointer, and what a call does is a parameter. A bitmap argument \<open>None\<close> is a null pointer and stands for the
  bitmap of the handle; messages only print and are left out.
\<close>

abbreviation EXT2_ET_MAGIC_EXT2FS_FILSYS :: errcode where "EXT2_ET_MAGIC_EXT2FS_FILSYS \<equiv> 2133571329"
abbreviation EXT2_ET_NO_INODE_BITMAP :: errcode where "EXT2_ET_NO_INODE_BITMAP \<equiv> 2133571367"
abbreviation EXT2_ET_NO_BLOCK_BITMAP :: errcode where "EXT2_ET_NO_BLOCK_BITMAP \<equiv> 2133571368"
abbreviation EXT2_ET_BLOCK_ALLOC_FAIL :: errcode where "EXT2_ET_BLOCK_ALLOC_FAIL \<equiv> 2133571400"
abbreviation EXT2_ET_INODE_ALLOC_FAIL :: errcode where "EXT2_ET_INODE_ALLOC_FAIL \<equiv> 2133571401"

abbreviation (input) EXT2_BG_INODE_UNINIT :: u16 where "EXT2_BG_INODE_UNINIT \<equiv> 1"
abbreviation (input) EXT2_BG_BLOCK_UNINIT :: u16 where "EXT2_BG_BLOCK_UNINIT \<equiv> 2"
abbreviation (input) EXT2_NEWRANGE_FIXED_GOAL :: u32 where "EXT2_NEWRANGE_FIXED_GOAL \<equiv> 1"
abbreviation (input) EXT2_NEWRANGE_MIN_LENGTH :: u32 where "EXT2_NEWRANGE_MIN_LENGTH \<equiv> 2"
abbreviation (input) EXT2_NEWRANGE_ALL_FLAGS :: u32 where "EXT2_NEWRANGE_ALL_FLAGS \<equiv> 3"

section \<open>The handle and its callbacks\<close>

record 'p handle =
  h_magic :: errcode
  h_fs :: ext2_filsys
  h_inode_map :: "'p any_bmap option"
  h_block_map :: "'p any_bmap option"
  h_get_alloc_block :: "nat option"
  h_get_alloc_block2 :: "nat option"
  h_block_alloc_stats :: "nat option"
  h_new_range :: "nat option"
  h_block_alloc_stats_range :: "nat option"

record 'p callbacks =
  call_gab :: "nat \<Rightarrow> 'p handle \<Rightarrow> w64 \<Rightarrow> ((errcode + w64) \<times> 'p handle) option"
  call_gab2 :: "nat \<Rightarrow> 'p handle \<Rightarrow> w64 \<Rightarrow> nat option \<Rightarrow> ((errcode + w64) \<times> 'p handle) option"
  call_nrf :: "nat \<Rightarrow> 'p handle \<Rightarrow> u32 \<Rightarrow> w64 \<Rightarrow> w64 \<Rightarrow> ((errcode + w64 \<times> w64) \<times> 'p handle) option"
  call_stats :: "nat \<Rightarrow> 'p handle \<Rightarrow> w64 \<Rightarrow> int \<Rightarrow> 'p handle option"
  call_stats_range :: "nat \<Rightarrow> 'p handle \<Rightarrow> w64 \<Rightarrow> u32 \<Rightarrow> int \<Rightarrow> 'p handle option"

definition ext2fs_mark_ib_dirty :: "ext2_filsys \<Rightarrow> ext2_filsys" where
  "ext2fs_mark_ib_dirty fs = fs\<lparr>fs_flags := fs_flags fs OR 0x12\<rparr>"

definition ext2fs_mark_bb_dirty :: "ext2_filsys \<Rightarrow> ext2_filsys" where
  "ext2fs_mark_bb_dirty fs = fs\<lparr>fs_flags := fs_flags fs OR 0x22\<rparr>"

definition EXT2_FIRST_INO :: "ext2_super_block \<Rightarrow> u32" where
  "EXT2_FIRST_INO sb = (if s_rev_level sb = 0 then 11 else s_first_ino sb)"

definition ext2fs_group_of_ino :: "ext2_filsys \<Rightarrow> u32 \<Rightarrow> u32 option" where
  "ext2fs_group_of_ino fs ino =
     (if s_inodes_per_group (fs_super fs) = 0 then None else Some ((ino - 1) div s_inodes_per_group (fs_super fs)))"

text \<open>The shift is on \<^verbatim>\<open>int\<close>, and the complement of the mask is extended to 64 bits with its sign.\<close>

definition align_down :: "nat \<Rightarrow> w64 \<Rightarrow> w64 option" where
  "align_down k b = (if k < 31 then Some (b AND NOT (mask k)) else None)"

section \<open>Uninitialised groups\<close>

definition ext2fs_clear_block_uninit :: "ext2_filsys \<Rightarrow> u32 \<Rightarrow> ext2_filsys option" where
  "ext2fs_clear_block_uninit fs grp =
     (if grp \<ge> ext2_filsys.fs_group_desc_count fs \<or> \<not> ext2fs_has_group_desc_csum fs then Some fs
      else do { t \<leftarrow> ext2fs_bg_flags_test fs grp EXT2_BG_BLOCK_UNINIT;
                if t = 0 then Some fs
                else do { fs1 \<leftarrow> ext2fs_bg_flags_clear fs grp EXT2_BG_BLOCK_UNINIT;
                          fs2 \<leftarrow> ext2fs_group_desc_csum_set fs1 grp;
                          Some (ext2fs_mark_bb_dirty (ext2fs_mark_super_dirty fs2)) } })"

fun unmark_inodes :: "'p bitmap_ops \<Rightarrow> nat \<Rightarrow> u32 \<Rightarrow> 'p any_bmap option \<Rightarrow> 'p any_bmap option option" where
  "unmark_inodes ops 0 ino bm = Some bm"
| "unmark_inodes ops (Suc n) ino bm =
     do { (r, map1) \<leftarrow> ext2fs_unmark_generic_bmap ops bm (unat ino); unmark_inodes ops n (ino + 1) map1 }"

definition check_inode_uninit ::
  "'p bitmap_ops \<Rightarrow> ext2_filsys \<Rightarrow> 'p any_bmap option \<Rightarrow> u32 \<Rightarrow> (ext2_filsys \<times> 'p any_bmap option) option" where
  "check_inode_uninit ops fs bm grp =
     (if grp \<ge> ext2_filsys.fs_group_desc_count fs \<or> \<not> ext2fs_has_group_desc_csum fs then Some (fs, bm)
      else do { t \<leftarrow> ext2fs_bg_flags_test fs grp EXT2_BG_INODE_UNINIT;
                if t = 0 then Some (fs, bm)
                else do { map1 \<leftarrow> unmark_inodes ops (unat (s_inodes_per_group (fs_super fs))) (grp * s_inodes_per_group (fs_super fs) + 1) bm;
                          fs1 \<leftarrow> ext2fs_bg_flags_clear fs grp EXT2_BG_INODE_UNINIT;
                          fs2 \<leftarrow> ext2fs_bg_flags_clear fs1 grp EXT2_BG_BLOCK_UNINIT;
                          fs3 \<leftarrow> ext2fs_group_desc_csum_set fs2 grp;
                          Some (ext2fs_mark_super_dirty (ext2fs_mark_ib_dirty fs3), map1) } })"

section \<open>A free inode\<close>

text \<open>The end of the part of a group that one round of the loop searches.\<close>

definition inode_upto :: "ext2_super_block \<Rightarrow> u32 \<Rightarrow> u32 \<Rightarrow> u32" where
  "inode_upto sb start_inode i =
     (let ipg = s_inodes_per_group sb;
          upto1 = i + (ipg - (i - 1) mod ipg);
          upto2 = (if i < start_inode \<and> upto1 \<ge> start_inode then start_inode - 1 else upto1)
      in if upto2 > s_inodes_count sb then s_inodes_count sb else upto2)"

partial_function (option) new_inode_loop ::
  "'p bitmap_ops \<Rightarrow> u32 \<Rightarrow> ext2_filsys \<Rightarrow> 'p any_bmap option \<Rightarrow> u32 \<Rightarrow>
   ((errcode + u32) \<times> ext2_filsys \<times> 'p any_bmap option) option" where
  "new_inode_loop ops start_inode fs bm i =
     do { grp \<leftarrow> ext2fs_group_of_ino fs i;
          (fs1, map1) \<leftarrow> check_inode_uninit ops fs bm grp;
          retval \<leftarrow> ext2fs_find_first_zero_generic_bmap ops map1 (unat i) (unat (inode_upto (fs_super fs1) start_inode i));
          (case retval of
             Inr first_zero \<Rightarrow> Some (Inr (of_nat first_zero), fs1, map1)
           | Inl e \<Rightarrow>
               if e \<noteq> ENOENT then Some (Inl EXT2_ET_INODE_ALLOC_FAIL, fs1, map1)
               else let j = inode_upto (fs_super fs1) start_inode i + 1;
                        j' = (if j > s_inodes_count (fs_super fs1) then EXT2_FIRST_INO (fs_super fs1) else j)
                    in if j' \<noteq> start_inode then new_inode_loop ops start_inode fs1 map1 j'
                       else Some (Inr j', fs1, map1)) }"

definition first_inode_to_try :: "ext2_super_block \<Rightarrow> u32 \<Rightarrow> u32 option" where
  "first_inode_to_try sb dir =
     (if dir > 0 \<and> s_inodes_per_group sb = 0 then None
      else let s = (if dir > 0 then (dir - 1) div s_inodes_per_group sb * s_inodes_per_group sb + 1 else 0)
           in Some (if s < EXT2_FIRST_INO sb then EXT2_FIRST_INO sb else s))"

definition put_inode_map :: "'p any_bmap option \<Rightarrow> 'p any_bmap option \<Rightarrow> 'p handle \<Rightarrow> 'p handle" where
  "put_inode_map arg bm h = (if arg = None then h\<lparr>h_inode_map := bm\<rparr> else h)"

definition ext2fs_new_inode ::
  "'p bitmap_ops \<Rightarrow> 'p handle \<Rightarrow> u32 \<Rightarrow> 'p any_bmap option \<Rightarrow> ((errcode + u32) \<times> 'p handle \<times> 'p any_bmap option) option" where
  "ext2fs_new_inode ops h dir arg =
     (let bm = (if arg = None then h_inode_map h else arg) in
      if h_magic h \<noteq> EXT2_ET_MAGIC_EXT2FS_FILSYS then Some (Inl EXT2_ET_MAGIC_EXT2FS_FILSYS, h, arg)
      else if bm = None then Some (Inl EXT2_ET_NO_INODE_BITMAP, h, arg)
      else do {
        start_inode \<leftarrow> first_inode_to_try (fs_super (h_fs h)) dir;
        if start_inode > s_inodes_count (fs_super (h_fs h)) then Some (Inl EXT2_ET_INODE_ALLOC_FAIL, h, arg)
        else do {
          (r, fs1, map1) \<leftarrow> new_inode_loop ops start_inode (h_fs h) bm start_inode;
          (case r of
             Inl e \<Rightarrow> Some (Inl e, put_inode_map arg map1 (h\<lparr>h_fs := fs1\<rparr>), if arg = None then None else map1)
           | Inr i \<Rightarrow> do {
               (t, map2) \<leftarrow> ext2fs_test_generic_bmap ops map1 (unat i);
               Some (if t \<noteq> 0 then Inl EXT2_ET_INODE_ALLOC_FAIL else Inr i, put_inode_map arg map2 (h\<lparr>h_fs := fs1\<rparr>),
                     if arg = None then None else map2) }) } })"

section \<open>A free block\<close>

text \<open>The part after the label \<^verbatim>\<open>allocated\<close>.\<close>

definition new_block_done :: "'p handle \<Rightarrow> errcode + w64 \<Rightarrow> ((errcode + w64) \<times> 'p handle) option" where
  "new_block_done h retval =
     (case retval of
        Inl e \<Rightarrow> Some (Inl (if e = ENOENT then EXT2_ET_BLOCK_ALLOC_FAIL else e), h)
      | Inr b \<Rightarrow> do { grp \<leftarrow> ext2fs_group_of_blk2 (h_fs h) b;
                       fs1 \<leftarrow> ext2fs_clear_block_uninit (h_fs h) grp;
                       Some (Inr b, h\<lparr>h_fs := fs1\<rparr>) })"

text \<open>The search from the goal to the end of the file system and, when that fails, from its start to the goal.\<close>

definition search_block :: "'p bitmap_ops \<Rightarrow> ext2_filsys \<Rightarrow> 'p any_bmap option \<Rightarrow> w64 \<Rightarrow> (errcode + w64) option" where
  "search_block ops fs bm goal0 =
     (let first = ucast (s_first_data_block (fs_super fs)); goal1 = (if goal0 = 0 \<or> goal0 \<ge> ext2fs_blocks_count (fs_super fs) then first else goal0) in
      do { goal \<leftarrow> align_down (ext2_filsys.fs_cluster_ratio_bits fs) goal1;
           retval \<leftarrow> ext2fs_find_first_zero_generic_bmap ops bm (unat goal) (unat (ext2fs_blocks_count (fs_super fs) - 1));
           retval2 \<leftarrow> (if retval = Inl ENOENT \<and> goal \<noteq> first
                       then ext2fs_find_first_zero_generic_bmap ops bm (unat first) (unat (goal - 1)) else Some retval);
           Some (map_sum id of_nat retval2) })"

definition ext2fs_new_block3 ::
  "'p bitmap_ops \<Rightarrow> 'p callbacks \<Rightarrow> 'p handle \<Rightarrow> w64 \<Rightarrow> 'p any_bmap option \<Rightarrow> nat option \<Rightarrow> ((errcode + w64) \<times> 'p handle) option" where
  "ext2fs_new_block3 ops cb h goal arg ctx =
     (if h_magic h \<noteq> EXT2_ET_MAGIC_EXT2FS_FILSYS then Some (Inl EXT2_ET_MAGIC_EXT2FS_FILSYS, h)
      else case (if arg = None then h_get_alloc_block2 h else None, if arg = None then h_get_alloc_block h else None) of
        (Some gab2, _) \<Rightarrow>
          do { (retval, h1) \<leftarrow> call_gab2 cb gab2 (h\<lparr>h_get_alloc_block2 := None\<rparr>) goal ctx;
               new_block_done (h1\<lparr>h_get_alloc_block2 := Some gab2\<rparr>) retval }
      | (None, Some gab) \<Rightarrow>
          do { (retval, h1) \<leftarrow> call_gab cb gab (h\<lparr>h_get_alloc_block := None\<rparr>) goal;
               new_block_done (h1\<lparr>h_get_alloc_block := Some gab\<rparr>) retval }
      | (None, None) \<Rightarrow>
          let bm = (if arg = None then h_block_map h else arg) in
          if bm = None then Some (Inl EXT2_ET_NO_BLOCK_BITMAP, h)
          else do { retval \<leftarrow> search_block ops (h_fs h) bm goal; new_block_done h retval })"

definition ext2fs_new_block2 ::
  "'p bitmap_ops \<Rightarrow> 'p callbacks \<Rightarrow> 'p handle \<Rightarrow> w64 \<Rightarrow> 'p any_bmap option \<Rightarrow> ((errcode + w64) \<times> 'p handle) option" where
  "ext2fs_new_block2 ops cb h goal arg = ext2fs_new_block3 ops cb h goal arg None"

definition ext2fs_new_block ::
  "'p bitmap_ops \<Rightarrow> 'p callbacks \<Rightarrow> 'p handle \<Rightarrow> u32 \<Rightarrow> 'p any_bmap option \<Rightarrow> ((errcode + u32) \<times> 'p handle) option" where
  "ext2fs_new_block ops cb h goal arg =
     do { (retval, h1) \<leftarrow> ext2fs_new_block2 ops cb h (ucast goal) arg; Some (map_sum id ucast retval, h1) }"

section \<open>A run of free blocks\<close>

text \<open>
  The loops of the two searches for a run may go on for ever, so each is a step, which ends with a result or goes on with a new
  state, and the iteration of the step.
\<close>

partial_function (option) repeat_step :: "('s \<Rightarrow> ('r + 's) option) \<Rightarrow> 's \<Rightarrow> 'r option" where
  "repeat_step step s =
     do { o1 \<leftarrow> step s;
          (case o1 of Inl r \<Rightarrow> Some r | Inr s' \<Rightarrow> repeat_step step s') }"

text \<open>\<^verbatim>\<open>num\<close> is an \<^verbatim>\<open>int\<close>, extended with its sign where it is added and \<^verbatim>\<open>unsigned\<close> as the length of a range.\<close>

definition free_blocks_step ::
  "'p bitmap_ops \<Rightarrow> ext2_filsys \<Rightarrow> w64 \<Rightarrow> w64 \<Rightarrow> u32 \<Rightarrow> w64 \<Rightarrow> w64 \<times> 'p any_bmap option \<Rightarrow>
   ((errcode + w64) \<times> 'p any_bmap option + w64 \<times> 'p any_bmap option) option" where
  "free_blocks_step ops fs start finish num c_ratio s =
     (case s of (b, bm) \<Rightarrow>
        let beyond = b + scast num - 1 \<ge> ext2fs_blocks_count (fs_super fs) in
        if beyond \<and> finish > start then Some (Inl (Inl EXT2_ET_BLOCK_ALLOC_FAIL, bm))
        else let b1 = (if beyond then ucast (s_first_data_block (fs_super fs)) else b) in
             do { (r, map1) \<leftarrow> ext2fs_test_block_bitmap_range2 ops bm (unat b1) (unat num);
                  Some (if r \<noteq> 0 then Inl (Inr b1, map1)
                        else if b1 + c_ratio \<noteq> finish then Inr (b1 + c_ratio, map1)
                        else Inl (Inl EXT2_ET_BLOCK_ALLOC_FAIL, map1)) })"

definition ext2fs_get_free_blocks2 ::
  "'p bitmap_ops \<Rightarrow> 'p handle \<Rightarrow> w64 \<Rightarrow> w64 \<Rightarrow> u32 \<Rightarrow> 'p any_bmap option \<Rightarrow> ((errcode + w64) \<times> 'p any_bmap option) option" where
  "ext2fs_get_free_blocks2 ops h start finish0 num0 arg =
     (let bm = (if arg = None then h_block_map h else arg); fs = h_fs h in
      if h_magic h \<noteq> EXT2_ET_MAGIC_EXT2FS_FILSYS then Some (Inl EXT2_ET_MAGIC_EXT2FS_FILSYS, bm)
      else case bm of
        None \<Rightarrow> Some (Inl EXT2_ET_NO_BLOCK_BITMAP, None)
      | Some bmp \<Rightarrow>
          let b0 = (if start = 0 then ucast (s_first_data_block (fs_super fs)) else start);
              finish1 = (if finish0 = 0 then start else finish0);
              num = (if num0 = 0 then 1 else num0);
              k = ext2fs_get_bitmap_granularity bmp
          in do { b \<leftarrow> align_down k b0; finish \<leftarrow> align_down k finish1;
                  repeat_step (free_blocks_step ops fs start finish num (of_nat (2 ^ k))) (b, bm) })"

definition ext2fs_get_free_blocks ::
  "'p bitmap_ops \<Rightarrow> 'p handle \<Rightarrow> u32 \<Rightarrow> u32 \<Rightarrow> u32 \<Rightarrow> 'p any_bmap option \<Rightarrow> ((errcode + u32) \<times> 'p any_bmap option) option" where
  "ext2fs_get_free_blocks ops h start finish num arg =
     do { (r, bm) \<leftarrow> ext2fs_get_free_blocks2 ops h (ucast start) (ucast finish) num arg; Some (map_sum id ucast r, bm) }"

text \<open>\<^verbatim>\<open>first_zero\<close> leaves \<^verbatim>\<open>start\<close> alone when it finds nothing. A step of the loop of \<^verbatim>\<open>ext2fs_new_range\<close>, with its state.\<close>

definition new_range_step ::
  "'p bitmap_ops \<Rightarrow> ext2_filsys \<Rightarrow> 'p any_bmap option \<Rightarrow> u32 \<Rightarrow> w64 \<Rightarrow> w64 \<Rightarrow> w64 \<times> bool \<Rightarrow> ((errcode + w64 \<times> w64) + w64 \<times> bool) option" where
  "new_range_step ops fs bm flags goal len s =
     (case s of (start, looped) \<Rightarrow>
        let max_blocks = ext2fs_blocks_count (fs_super fs); first = ucast (s_first_data_block (fs_super fs)) in
        if looped \<and> \<not> start \<le> goal then Some (Inl (Inl EXT2_ET_BLOCK_ALLOC_FAIL))
        else do {
          r \<leftarrow> ext2fs_find_first_zero_generic_bmap ops bm (unat start) (unat (max_blocks - 1));
          (case r of
             Inl e \<Rightarrow>
               if e \<noteq> ENOENT then Some (Inl (Inl e))
               else if flags AND EXT2_NEWRANGE_FIXED_GOAL \<noteq> 0 \<or> start = first then Some (Inl (Inl EXT2_ET_BLOCK_ALLOC_FAIL))
               else Some (Inr (first, looped))
           | Inr z \<Rightarrow>
               let start1 = of_nat z in
               if flags AND EXT2_NEWRANGE_FIXED_GOAL \<noteq> 0 \<and> start1 \<noteq> goal then Some (Inl (Inl EXT2_ET_BLOCK_ALLOC_FAIL))
               else
                 let b = min (start1 + len - 1) (max_blocks - 1) in do {
                 r2 \<leftarrow> ext2fs_find_first_set_generic_bmap ops bm (unat start1) (unat b);
                 (if (case r2 of Inl e \<Rightarrow> e \<noteq> ENOENT | _ \<Rightarrow> False) then Some (Inl (Inl (projl r2)))
                  else
                    let end = (case r2 of Inl _ \<Rightarrow> b + 1 | Inr y \<Rightarrow> of_nat y) in
                    Some (if flags AND EXT2_NEWRANGE_MIN_LENGTH = 0 \<or> end - start1 \<ge> len then Inl (Inr (start1, end))
                          else if flags AND EXT2_NEWRANGE_FIXED_GOAL \<noteq> 0 then Inl (Inl EXT2_ET_BLOCK_ALLOC_FAIL)
                          else if end \<ge> max_blocks then (if looped then Inl (Inl EXT2_ET_BLOCK_ALLOC_FAIL) else Inr (first, True))
                          else Inr (end, looped))) }) })"

text \<open>Clearing the flag of the groups a run lies in, one step of a group's size at a time.\<close>

partial_function (option) clear_uninit_range :: "ext2_filsys \<Rightarrow> w64 \<Rightarrow> w64 \<Rightarrow> ext2_filsys option" where
  "clear_uninit_range fs b end =
     (if b < end then
        do { grp \<leftarrow> ext2fs_group_of_blk2 fs b; fs1 \<leftarrow> ext2fs_clear_block_uninit fs grp;
             clear_uninit_range fs1 (b + ucast (s_blocks_per_group (fs_super fs1))) end }
      else Some fs)"

definition new_range_done :: "'p handle \<Rightarrow> errcode + w64 \<times> w64 \<Rightarrow> ((errcode + w64 \<times> w64) \<times> 'p handle) option" where
  "new_range_done h r =
     (case r of
        Inl e \<Rightarrow> Some (Inl e, h)
      | Inr (start, end) \<Rightarrow> do { fs1 \<leftarrow> clear_uninit_range (h_fs h) start end; Some (Inr (start, end - start), h\<lparr>h_fs := fs1\<rparr>) })"

definition ext2fs_new_range ::
  "'p bitmap_ops \<Rightarrow> 'p callbacks \<Rightarrow> 'p handle \<Rightarrow> u32 \<Rightarrow> w64 \<Rightarrow> w64 \<Rightarrow> 'p any_bmap option \<Rightarrow>
   ((errcode + w64 \<times> w64) \<times> 'p handle) option" where
  "ext2fs_new_range ops cb h flags goal0 len arg =
     (let fs = h_fs h; bm = (if arg = None then h_block_map h else arg) in
      if h_magic h \<noteq> EXT2_ET_MAGIC_EXT2FS_FILSYS then Some (Inl EXT2_ET_MAGIC_EXT2FS_FILSYS, h)
      else if len = 0 \<or> flags AND NOT EXT2_NEWRANGE_ALL_FLAGS \<noteq> 0 then Some (Inl EXT2_ET_INVALID_ARGUMENT, h)
      else case (if arg = None then h_new_range h else None) of
        Some nrf \<Rightarrow>
          do { (r, h1) \<leftarrow> call_nrf cb nrf (h\<lparr>h_new_range := None\<rparr>) flags goal0 len;
               new_range_done (h1\<lparr>h_new_range := Some nrf\<rparr>) (map_sum id (\<lambda>(pblk, plen). (pblk, pblk + plen)) r) }
      | None \<Rightarrow>
          if bm = None then Some (Inl EXT2_ET_NO_BLOCK_BITMAP, h)
          else
            let goal = (if goal0 = 0 \<or> goal0 \<ge> ext2fs_blocks_count (fs_super fs) then ucast (s_first_data_block (fs_super fs)) else goal0) in
            do { r \<leftarrow> repeat_step (new_range_step ops fs bm flags goal len) (goal, False); new_range_done h r })"

section \<open>Statistics\<close>

definition ext2fs_inode_alloc_stats2 :: "'p bitmap_ops \<Rightarrow> 'p handle \<Rightarrow> u32 \<Rightarrow> int \<Rightarrow> bool \<Rightarrow> 'p handle option" where
  "ext2fs_inode_alloc_stats2 ops h ino inuse isdir =
     (let fs = h_fs h; ipg = s_inodes_per_group (fs_super fs) in do {
        grp \<leftarrow> ext2fs_group_of_ino fs ino;
        if ino > s_inodes_count (fs_super fs) then Some h
        else do {
          (r, bm) \<leftarrow> (if inuse > 0 then ext2fs_mark_generic_bmap ops (h_inode_map h) (unat ino)
                       else ext2fs_unmark_generic_bmap ops (h_inode_map h) (unat ino));
          fc \<leftarrow> ext2fs_bg_free_inodes_count fs grp;
          fs1 \<leftarrow> ext2fs_bg_free_inodes_count_set fs grp (fc - word_of_int inuse);
          fs2 \<leftarrow> (if isdir then do { dc \<leftarrow> ext2fs_bg_used_dirs_count fs1 grp; ext2fs_bg_used_dirs_count_set fs1 grp (dc + word_of_int inuse) }
                  else Some fs1);
          fs3 \<leftarrow> ext2fs_bg_flags_clear fs2 grp EXT2_BG_INODE_UNINIT;
          fs5 \<leftarrow> (if ext2fs_has_group_desc_csum fs3
                  then do { unused \<leftarrow> ext2fs_bg_itable_unused fs3 grp;
                            fs4 \<leftarrow> (if ino \<ge> ipg - unused + grp * ipg + 1
                                    then ext2fs_bg_itable_unused_set fs3 grp (grp * ipg + ipg - ino) else Some fs3);
                            ext2fs_group_desc_csum_set fs4 grp }
                  else Some fs3);
          let fs6 = fs5\<lparr>fs_super := (fs_super fs5)\<lparr>s_free_inodes_count := s_free_inodes_count (fs_super fs5) - word_of_int inuse\<rparr>\<rparr>;
          Some (h\<lparr>h_inode_map := bm, h_fs := ext2fs_mark_ib_dirty (ext2fs_mark_super_dirty fs6)\<rparr>) } })"

definition ext2fs_inode_alloc_stats :: "'p bitmap_ops \<Rightarrow> 'p handle \<Rightarrow> u32 \<Rightarrow> int \<Rightarrow> 'p handle option" where
  "ext2fs_inode_alloc_stats ops h ino inuse = ext2fs_inode_alloc_stats2 ops h ino inuse False"

definition ext2fs_block_alloc_stats2 :: "'p bitmap_ops \<Rightarrow> 'p callbacks \<Rightarrow> 'p handle \<Rightarrow> w64 \<Rightarrow> int \<Rightarrow> 'p handle option" where
  "ext2fs_block_alloc_stats2 ops cb h blk inuse =
     (let fs = h_fs h in do {
        grp \<leftarrow> ext2fs_group_of_blk2 fs blk;
        if blk \<ge> ext2fs_blocks_count (fs_super fs) then Some h
        else do {
          (r, bm) \<leftarrow> (if inuse > 0 then ext2fs_mark_generic_bmap ops (h_block_map h) (unat blk)
                       else ext2fs_unmark_generic_bmap ops (h_block_map h) (unat blk));
          fc \<leftarrow> ext2fs_bg_free_blocks_count fs grp;
          fs1 \<leftarrow> ext2fs_bg_free_blocks_count_set fs grp (fc - word_of_int inuse);
          fs2 \<leftarrow> ext2fs_bg_flags_clear fs1 grp EXT2_BG_BLOCK_UNINIT;
          fs3 \<leftarrow> ext2fs_group_desc_csum_set fs2 grp;
          ratio \<leftarrow> EXT2FS_CLUSTER_RATIO fs3;
          let fs4 = fs3\<lparr>fs_super := ext2fs_free_blocks_count_add (fs_super fs3) (word_of_int (- inuse) * of_nat ratio)\<rparr>;
              h1 = h\<lparr>h_block_map := bm, h_fs := ext2fs_mark_bb_dirty (ext2fs_mark_super_dirty fs4)\<rparr>
          in (case h_block_alloc_stats h1 of None \<Rightarrow> Some h1 | Some f \<Rightarrow> call_stats cb f h1 blk inuse) } })"

definition ext2fs_block_alloc_stats :: "'p bitmap_ops \<Rightarrow> 'p callbacks \<Rightarrow> 'p handle \<Rightarrow> u32 \<Rightarrow> int \<Rightarrow> 'p handle option" where
  "ext2fs_block_alloc_stats ops cb h blk inuse = ext2fs_block_alloc_stats2 ops cb h (ucast blk) inuse"

text \<open>The loop over the groups of a range; \<^verbatim>\<open>inuse*n/EXT2FS_CLUSTER_RATIO(fs)\<close> is unsigned 64-bit arithmetic, cut to 32 bits by the call.\<close>

partial_function (option) stats_range_loop :: "ext2_filsys \<Rightarrow> w64 \<Rightarrow> u32 \<Rightarrow> int \<Rightarrow> (ext2_filsys \<times> w64 \<times> u32) option" where
  "stats_range_loop fs blk num inuse =
     (if num = 0 then Some (fs, blk, num)
      else do {
        grp \<leftarrow> ext2fs_group_of_blk2 fs blk;
        let last_blk = ext2fs_group_last_block2 fs grp;
        let n = (if blk + ucast num > last_blk then last_blk - blk + 1 else ucast num);
        ratio \<leftarrow> EXT2FS_CLUSTER_RATIO fs;
        fc \<leftarrow> ext2fs_bg_free_blocks_count fs grp;
        fs1 \<leftarrow> ext2fs_bg_free_blocks_count_set fs grp (ucast (ucast fc - word_of_int inuse * n div of_nat ratio));
        fs2 \<leftarrow> ext2fs_bg_flags_clear fs1 grp EXT2_BG_BLOCK_UNINIT;
        fs3 \<leftarrow> ext2fs_group_desc_csum_set fs2 grp;
        let fs4 = fs3\<lparr>fs_super := ext2fs_free_blocks_count_add (fs_super fs3) (word_of_int (- inuse) * n)\<rparr>;
        stats_range_loop fs4 (blk + n) (num - ucast n) inuse })"

definition ext2fs_block_alloc_stats_range :: "'p bitmap_ops \<Rightarrow> 'p callbacks \<Rightarrow> 'p handle \<Rightarrow> w64 \<Rightarrow> u32 \<Rightarrow> int \<Rightarrow> 'p handle option" where
  "ext2fs_block_alloc_stats_range ops cb h blk num inuse0 =
     (if blk + ucast num > ext2fs_blocks_count (fs_super (h_fs h)) then Some h
      else if inuse0 = 0 then Some h
      else do {
        bm \<leftarrow> (if inuse0 > 0 then ext2fs_mark_block_bitmap_range2 ops (h_block_map h) (unat blk) (unat num)
                else ext2fs_unmark_block_bitmap_range2 ops (h_block_map h) (unat blk) (unat num));
        let inuse = (if inuse0 > 0 then 1 else - 1);
        (fs1, blk1, num1) \<leftarrow> stats_range_loop (h_fs h) blk num inuse;
        let h1 = h\<lparr>h_block_map := bm, h_fs := ext2fs_mark_bb_dirty (ext2fs_mark_super_dirty fs1)\<rparr>;
        (case h_block_alloc_stats_range h1 of None \<Rightarrow> Some h1 | Some f \<Rightarrow> call_stats_range cb f h1 blk1 num1 inuse) })"

section \<open>A new zeroed block\<close>

text \<open>Reading the block bitmap of the file system and writing zeros to a block through the channel of the device, with
  \<^verbatim>\<open>io_channel_write_blk64\<close> or \<^verbatim>\<open>ext2fs_zero_blocks2\<close>, are I/O: parameters, with 0 or an error code as their result.\<close>

definition ext2fs_alloc_block3 ::
  "'p bitmap_ops \<Rightarrow> 'p callbacks \<Rightarrow> ('p handle \<Rightarrow> errcode \<times> 'p handle) \<Rightarrow> ('p handle \<Rightarrow> w64 \<Rightarrow> errcode) \<Rightarrow> 'p handle \<Rightarrow> w64 \<Rightarrow> nat option \<Rightarrow>
   ((errcode + w64) \<times> 'p handle) option" where
  "ext2fs_alloc_block3 ops cb read_bitmap write_zeros h goal ctx =
     do { (r, h1) \<leftarrow> (case (h_get_alloc_block2 h, h_get_alloc_block h) of
            (Some gab2, _) \<Rightarrow> call_gab2 cb gab2 h goal ctx
          | (None, Some gab) \<Rightarrow> call_gab cb gab h goal
          | (None, None) \<Rightarrow>
              (case (if h_block_map h = None then read_bitmap h else (0, h)) of (e, h0) \<Rightarrow>
                 if e \<noteq> 0 then Some (Inl e, h0) else ext2fs_new_block3 ops cb h0 goal None ctx));
          (case r of
             Inl e \<Rightarrow> Some (Inl e, h1)
           | Inr block \<Rightarrow>
               if write_zeros h1 block \<noteq> 0 then Some (Inl (write_zeros h1 block), h1)
               else do { h2 \<leftarrow> ext2fs_block_alloc_stats2 ops cb h1 block 1; Some (Inr block, h2) }) }"

definition ext2fs_alloc_block2 ::
  "'p bitmap_ops \<Rightarrow> 'p callbacks \<Rightarrow> ('p handle \<Rightarrow> errcode \<times> 'p handle) \<Rightarrow> ('p handle \<Rightarrow> w64 \<Rightarrow> errcode) \<Rightarrow> 'p handle \<Rightarrow> w64 \<Rightarrow>
   ((errcode + w64) \<times> 'p handle) option" where
  "ext2fs_alloc_block2 ops cb read_bitmap write_zeros h goal = ext2fs_alloc_block3 ops cb read_bitmap write_zeros h goal None"

definition ext2fs_alloc_block ::
  "'p bitmap_ops \<Rightarrow> 'p callbacks \<Rightarrow> ('p handle \<Rightarrow> errcode \<times> 'p handle) \<Rightarrow> ('p handle \<Rightarrow> w64 \<Rightarrow> errcode) \<Rightarrow> 'p handle \<Rightarrow> u32 \<Rightarrow>
   ((errcode + u32) \<times> 'p handle) option" where
  "ext2fs_alloc_block ops cb read_bitmap write_zeros h goal =
     do { (r, h1) \<leftarrow> ext2fs_alloc_block3 ops cb read_bitmap write_zeros h (ucast goal) None; Some (map_sum id ucast r, h1) }"

text \<open>A run of blocks with its statistics. Writing zeros to the run is I/O: a parameter.\<close>

definition ext2fs_alloc_range ::
  "'p bitmap_ops \<Rightarrow> 'p callbacks \<Rightarrow> ('p handle \<Rightarrow> w64 \<Rightarrow> u32 \<Rightarrow> errcode) \<Rightarrow> 'p handle \<Rightarrow> u32 \<Rightarrow> w64 \<Rightarrow> u32 \<Rightarrow> ((errcode + w64) \<times> 'p handle) option" where
  "ext2fs_alloc_range ops cb zero_blocks h flags goal len =
     (if h_magic h \<noteq> EXT2_ET_MAGIC_EXT2FS_FILSYS then Some (Inl EXT2_ET_MAGIC_EXT2FS_FILSYS, h)
      else if len = 0 \<or> flags AND NOT 3 \<noteq> 0 then Some (Inl EXT2_ET_INVALID_ARGUMENT, h)
      else do {
        let newr_flags = EXT2_NEWRANGE_MIN_LENGTH OR (if flags AND 1 \<noteq> 0 then EXT2_NEWRANGE_FIXED_GOAL else 0);
        (r, h1) \<leftarrow> ext2fs_new_range ops cb h newr_flags goal (ucast len) None;
        (case r of
           Inl e \<Rightarrow> Some (Inl e, h1)
         | Inr (pblk, plen) \<Rightarrow>
             if plen < ucast len then Some (Inl EXT2_ET_BLOCK_ALLOC_FAIL, h1)
             else if flags AND 2 \<noteq> 0 \<and> zero_blocks h1 pblk len \<noteq> 0 then Some (Inl (zero_blocks h1 pblk len), h1)
             else do { h2 \<leftarrow> ext2fs_block_alloc_stats_range ops cb h1 pblk len 1; Some (Inr pblk, h2) }) })"

section \<open>Setting the callbacks\<close>

text \<open>The second component is what is stored through \<^verbatim>\<open>old\<close>, \<open>None\<close> when nothing is.\<close>

definition ext2fs_set_alloc_block_callback :: "'p handle \<Rightarrow> nat option \<Rightarrow> 'p handle \<times> nat option option" where
  "ext2fs_set_alloc_block_callback h func =
     (if h_magic h \<noteq> EXT2_ET_MAGIC_EXT2FS_FILSYS then (h, None) else (h\<lparr>h_get_alloc_block := func\<rparr>, Some (h_get_alloc_block h)))"

definition ext2fs_set_new_range_callback :: "'p handle \<Rightarrow> nat option \<Rightarrow> 'p handle \<times> nat option option" where
  "ext2fs_set_new_range_callback h func =
     (if h_magic h \<noteq> EXT2_ET_MAGIC_EXT2FS_FILSYS then (h, None) else (h\<lparr>h_new_range := func\<rparr>, Some (h_new_range h)))"

definition ext2fs_set_block_alloc_stats_callback :: "'p handle \<Rightarrow> nat option \<Rightarrow> 'p handle \<times> nat option option" where
  "ext2fs_set_block_alloc_stats_callback h func =
     (if h_magic h \<noteq> EXT2_ET_MAGIC_EXT2FS_FILSYS then (h, None) else (h\<lparr>h_block_alloc_stats := func\<rparr>, Some (h_block_alloc_stats h)))"

definition ext2fs_set_block_alloc_stats_range_callback :: "'p handle \<Rightarrow> nat option \<Rightarrow> 'p handle \<times> nat option option" where
  "ext2fs_set_block_alloc_stats_range_callback h func =
     (if h_magic h \<noteq> EXT2_ET_MAGIC_EXT2FS_FILSYS then (h, None)
      else (h\<lparr>h_block_alloc_stats_range := func\<rparr>, Some (h_block_alloc_stats_range h)))"

section \<open>All group checksums\<close>

partial_function (option) last_used_down ::
  "'p bitmap_ops \<Rightarrow> u32 \<Rightarrow> 'p any_bmap option \<Rightarrow> u32 \<Rightarrow> (u32 option \<times> 'p any_bmap option) option" where
  "last_used_down ops start_ino bm i =
     (if i \<ge> start_ino
      then do { t \<leftarrow> ext2fs_test_generic_bmap ops bm (unat i);
                if fst t \<noteq> 0 then Some (Some (i - start_ino + 1), snd t) else last_used_down ops start_ino (snd t) (i - 1) }
      else Some (None, bm))"

definition find_last_inode_ingrp :: "'p bitmap_ops \<Rightarrow> 'p any_bmap option \<Rightarrow> u32 \<Rightarrow> u32 \<Rightarrow> (u32 \<times> 'p any_bmap option) option" where
  "find_last_inode_ingrp ops bitmap inodes_per_grp grp_no =
     (let start_ino = grp_no * inodes_per_grp + 1; end_ino = start_ino + inodes_per_grp - 1 in
      do { (r, bm) \<leftarrow> last_used_down ops start_ino bitmap end_ino;
           Some (case r of Some n \<Rightarrow> n | None \<Rightarrow> inodes_per_grp, bm) })"

text \<open>One round of the loop, which also says whether the descriptor changed.\<close>

definition gdt_csum_group ::
  "'p bitmap_ops \<Rightarrow> ext2_filsys \<Rightarrow> 'p any_bmap option \<Rightarrow> u32 \<Rightarrow> (ext2_filsys \<times> 'p any_bmap option \<times> bool) option" where
  "gdt_csum_group ops fs bm i =
     (let sb = fs_super fs; ipg = s_inodes_per_group sb in do {
        old_csum \<leftarrow> ext2fs_bg_checksum fs i;
        old_unused \<leftarrow> ext2fs_bg_itable_unused fs i;
        old_flags \<leftarrow> ext2fs_bg_flags fs i;
        old_free_inodes_count \<leftarrow> ext2fs_bg_free_inodes_count fs i;
        old_free_blocks_count \<leftarrow> ext2fs_bg_free_blocks_count fs i;
        fs1 \<leftarrow> (if old_free_blocks_count = s_blocks_per_group sb \<and> i \<noteq> ext2_filsys.fs_group_desc_count fs - 1
                then ext2fs_bg_flags_set fs i EXT2_BG_BLOCK_UNINIT else Some fs);
        (fs3, bm1) \<leftarrow> (if old_free_inodes_count = ipg
                then do { fs2 \<leftarrow> ext2fs_bg_flags_set fs1 i EXT2_BG_INODE_UNINIT;
                          fs3 \<leftarrow> ext2fs_bg_itable_unused_set fs2 i ipg; Some (fs3, bm) }
                else do { (l, bm1) \<leftarrow> find_last_inode_ingrp ops bm ipg i;
                          fs2 \<leftarrow> ext2fs_bg_flags_clear fs1 i EXT2_BG_INODE_UNINIT;
                          fs3 \<leftarrow> ext2fs_bg_itable_unused_set fs2 i (ipg - l); Some (fs3, bm1) });
        fs4 \<leftarrow> ext2fs_group_desc_csum_set fs3 i;
        new_flags \<leftarrow> ext2fs_bg_flags fs4 i;
        new_unused \<leftarrow> ext2fs_bg_itable_unused fs4 i;
        new_csum \<leftarrow> ext2fs_bg_checksum fs4 i;
        Some (fs4, bm1, old_flags \<noteq> new_flags \<or> old_unused \<noteq> new_unused \<or> old_csum \<noteq> new_csum) })"

fun gdt_csum_loop ::
  "'p bitmap_ops \<Rightarrow> ext2_filsys \<Rightarrow> 'p any_bmap option \<Rightarrow> bool \<Rightarrow> u32 \<Rightarrow> nat \<Rightarrow> (ext2_filsys \<times> 'p any_bmap option \<times> bool) option" where
  "gdt_csum_loop ops fs bm dirty i 0 = Some (fs, bm, dirty)"
| "gdt_csum_loop ops fs bm dirty i (Suc n) =
     do { (fs1, bm1, d) \<leftarrow> gdt_csum_group ops fs bm i; gdt_csum_loop ops fs1 bm1 (dirty \<or> d) (i + 1) n }"

definition ext2fs_set_gdt_csum :: "'p bitmap_ops \<Rightarrow> 'p handle \<Rightarrow> (errcode \<times> 'p handle) option" where
  "ext2fs_set_gdt_csum ops h =
     (if h_inode_map h = None then Some (EXT2_ET_NO_INODE_BITMAP, h)
      else if \<not> ext2fs_has_group_desc_csum (h_fs h) then Some (0, h)
      else do { (fs1, bm1, dirty) \<leftarrow>
                  gdt_csum_loop ops (h_fs h) (h_inode_map h) False 0 (unat (ext2_filsys.fs_group_desc_count (h_fs h)));
                Some (0, h\<lparr>h_fs := (if dirty then ext2fs_mark_super_dirty fs1 else fs1), h_inode_map := bm1\<rparr>) })"

end
