(* ===== verification/Csum_Correct.thy ===== *)
theory Csum_Correct
  imports Csum
begin

unbundle bit_operations_syntax

text \<open>
  Setting a checksum and verifying it: the computation clears or skips the field that holds the checksum, so its value does not depend
  on the field, and what is stored is what the verification computes again.
\<close>

section \<open>Fields\<close>

lemma wr16_eq: "wr16 m p v = (if p + 2 \<le> length m then Some (m[p := ucast v, p + 1 := ucast (drop_bit 8 v)]) else None)"
  by (auto simp: wr16_def wr_def)

lemma wr32_eq:
  "wr32 m p v = (if p + 4 \<le> length m then Some (m[p := ucast v, p + 1 := ucast (drop_bit 8 v), p + 2 := ucast (drop_bit 16 v), p + 3 := ucast (drop_bit 24 v)])
     else None)"
proof -
  have "(ucast (ucast v :: u16) :: u8) = ucast v" "(ucast (drop_bit 8 (ucast v :: u16)) :: u8) = ucast (drop_bit 8 v)"
    "(ucast (ucast (drop_bit 16 v) :: u16) :: u8) = ucast (drop_bit 16 v)"
    "(ucast (drop_bit 8 (ucast (drop_bit 16 v) :: u16)) :: u8) = ucast (drop_bit 24 v)"
    by (rule bit_word_eqI; auto simp: bit_simps add.commute)+
  then show ?thesis by (auto simp: wr32_def wr16_eq numeral_3_eq_3)
qed

lemma wr16_cong: "same_except {p..<p + 2} m m' \<Longrightarrow> wr16 m' p v = wr16 m p v"
  by (auto simp: wr16_eq same_except_def nth_list_update intro!: nth_equalityI)

lemma wr32_cong: "same_except {p..<p + 4} m m' \<Longrightarrow> wr32 m' p v = wr32 m p v"
proof -
  assume s: "same_except {p..<p + 4} m m'"
  have q: "q \<in> {p..<p + 4} \<longleftrightarrow> q = p \<or> q = p + 1 \<or> q = p + 2 \<or> q = p + 3" for q by auto
  show ?thesis using s unfolding wr32_eq same_except_def q by (auto simp: nth_list_update intro!: nth_equalityI)
qed

lemma rd16_bytes:
  assumes "rd16 m p = Some v"
  shows "p + 2 \<le> length m" "m ! p = ucast v" "m ! (p + 1) = ucast (drop_bit 8 v)"
proof -
  have v: "p + 1 < length m" "v = ucast (m ! p) OR push_bit 8 (ucast (m ! (p + 1)))"
    using assms by (auto simp: rd16_def rd_def bind_eq_Some_conv split: if_splits)
  then show "p + 2 \<le> length m" by simp
  show "m ! p = ucast v" "m ! (p + 1) = ucast (drop_bit 8 v)"
    unfolding v(2) by (rule bit_word_eqI; auto simp: bit_simps dest: bit_imp_le_length)+
qed

lemma wr16_same: "rd16 m p = Some v \<Longrightarrow> wr16 m p v = Some m"
  using rd16_bytes [of m p v] by (simp add: wr16_eq) (metis list_update_id)

lemma wr32_same: "rd32 m p = Some v \<Longrightarrow> wr32 m p v = Some m"
proof -
  assume "rd32 m p = Some v"
  then obtain a b where ab: "rd16 m p = Some a" "rd16 m (p + 2) = Some b" "v = ucast a OR push_bit 16 (ucast b)"
    by (auto simp: rd32_def bind_eq_Some_conv)
  have "ucast v = a" "ucast (drop_bit 16 v) = b"
    unfolding ab(3) by (rule bit_word_eqI; auto simp: bit_simps dest: bit_imp_le_length)+
  then show ?thesis using wr16_same ab(1,2) by (simp add: wr32_def)
qed

text \<open>Clearing a field and writing the old value back leaves the array as it was.\<close>

lemma clear_restore32:
  assumes "p + 4 \<le> length m"
  obtains old m0 where "rd32 m p = Some old" "wr32 m p 0 = Some m0" "wr32 m0 p old = Some m" "length m0 = length m"
proof -
  obtain m0 where m0: "wr32 m p 0 = Some m0" "same_except {p..<p + 4} m m0" using wr32_spec [OF assms] by blast
  obtain old where old: "rd32 m p = Some old" using assms by (auto simp: rd32_def rd16_def rd_def)
  have "wr32 m0 p old = Some m" using wr32_cong [OF m0(2)] wr32_same [OF old] by simp
  then show thesis using that [OF old m0(1)] m0(2) by (simp add: same_except_def)
qed

lemma clear_restore16:
  assumes "p + 2 \<le> length m"
  obtains old m0 where "rd16 m p = Some old" "wr16 m p 0 = Some m0" "wr16 m0 p old = Some m" "same_except {p..<p + 2} m m0"
proof -
  obtain m0 where m0: "wr16 m p 0 = Some m0" "same_except {p..<p + 2} m m0" using wr16_spec [OF assms] by blast
  obtain old where old: "rd16 m p = Some old" using assms by (auto simp: rd16_def rd_def)
  have "wr16 m0 p old = Some m" using wr16_cong [OF m0(2)] wr16_same [OF old] by simp
  then show thesis using that [OF old m0(1)] m0(2) by simp
qed

section \<open>Checksums of byte sequences\<close>

definition crc_of :: "u32 \<Rightarrow> u8 list \<Rightarrow> u32" where
  "crc_of c bs = fold (crc32_le_bits CRC32C_POLY_LE) bs c"

lemma crc_of_append: "crc_of c (a @ b) = crc_of (crc_of c a) b"
  by (simp add: crc_of_def)

lemma crc32c_some [simp]: "len \<le> length p \<Longrightarrow> crc32c c p len = Some (crc_of c (take len p))"
  by (simp add: crc32c_def crc32c_le_spec crc_of_def)

lemma length_bytes [simp]: "length (bytes32 v) = 4" "length (bytes64 w) = 8"
  by (simp_all add: bytes32_def bytes64_def)

lemma take_same_except: "same_except S m m' \<Longrightarrow> S \<inter> {..<n} = {} \<Longrightarrow> take n m' = take n m"
  by (rule nth_equalityI) (auto simp: same_except_def)

section \<open>Whole blocks\<close>

lemma tail_csum_set_verify:
  assumes "p + 4 \<le> length m"
  obtains m' where "wr32 m p (crc_of c (take p m)) = Some m'" "rd32 m' p = Some (crc_of c (take p m'))" "same_except {p..<p + 4} m m'"
    "take p m' = take p m"
proof -
  obtain m' where m': "wr32 m p (crc_of c (take p m)) = Some m'" "rd32 m' p = Some (crc_of c (take p m))" "same_except {p..<p + 4} m m'"
    using wr32_spec [OF assms] by blast
  moreover have "take p m' = take p m" by (rule take_same_except [OF m'(3)]) auto
  ultimately show thesis using that by simp
qed

lemma mmp_set_verify:
  assumes "length mmp = 1024"
  shows "\<exists>mmp'. ext2fs_mmp_csum_set fs mmp = Some (0, mmp') \<and> ext2fs_mmp_csum_verify fs mmp' = Some True \<and> same_except {1020..<1024} mmp mmp'"
proof (cases "ext2fs_has_feature_metadata_csum (fs_super fs)")
  case True
  have le: "1020 + 4 \<le> length mmp" using assms by simp
  obtain m' where "wr32 mmp 1020 (crc_of (fs_csum_seed fs) (take 1020 mmp)) = Some m'"
    "rd32 m' 1020 = Some (crc_of (fs_csum_seed fs) (take 1020 m'))" "same_except {1020..<1020 + 4} mmp m'"
    using tail_csum_set_verify [OF le, of "fs_csum_seed fs"] by blast
  moreover from this have "length m' = 1024" using assms by (simp add: same_except_def)
  ultimately show ?thesis
    using True assms by (intro exI [of _ m']) (simp add: ext2fs_mmp_csum_set_def ext2fs_mmp_csum_verify_def ext2fs_mmp_csum_def)
qed (auto simp: ext2fs_mmp_csum_set_def ext2fs_mmp_csum_verify_def same_except_def)

lemma superblock_set_verify:
  assumes "length sb = 1024"
  shows "\<exists>sb'. ext2fs_superblock_csum_set fs sb = Some (0, sb') \<and> ext2fs_superblock_csum_verify fs sb' = Some True \<and> same_except {1020..<1024} sb sb'"
proof (cases "ext2fs_has_feature_metadata_csum (fs_super fs)")
  case True
  have le: "1020 + 4 \<le> length sb" using assms by simp
  obtain m' where "wr32 sb 1020 (crc_of 0xffffffff (take 1020 sb)) = Some m'"
    "rd32 m' 1020 = Some (crc_of 0xffffffff (take 1020 m'))" "same_except {1020..<1020 + 4} sb m'"
    using tail_csum_set_verify [OF le, of "0xffffffff"] by blast
  moreover from this have "length m' = 1024" using assms by (simp add: same_except_def)
  ultimately show ?thesis
    using True assms by (intro exI [of _ m']) (simp add: ext2fs_superblock_csum_set_def ext2fs_superblock_csum_verify_def ext2fs_superblock_csum_def)
qed (auto simp: ext2fs_superblock_csum_set_def ext2fs_superblock_csum_verify_def same_except_def)

lemma xattr_csum:
  assumes "20 \<le> length hdr" "unat (fs_blocksize fs) \<le> length hdr"
  obtains crc where "ext2fs_ext_attr_block_csum fs block hdr = Some (crc, hdr)"
    "\<And>hdr'. same_except {16..<20} hdr hdr' \<Longrightarrow> ext2fs_ext_attr_block_csum fs block hdr' = Some (crc, hdr')"
proof -
  define crc where "crc = (case wr32 hdr 16 0 of Some h \<Rightarrow> crc_of (crc_of (fs_csum_seed fs) (bytes64 block)) (take (unat (fs_blocksize fs)) h) | None \<Rightarrow> 0)"
  have *: "ext2fs_ext_attr_block_csum fs block h = Some (crc, h)" if h: "same_except {16..<20} hdr h" for h
  proof -
    have "16 + 4 \<le> length h" using h assms(1) by (simp add: same_except_def)
    then obtain old h0 where o: "rd32 h 16 = Some old" "wr32 h 16 0 = Some h0" "wr32 h0 16 old = Some h" "length h0 = length h"
      by (rule clear_restore32)
    have "wr32 hdr 16 0 = Some h0" using wr32_cong [of 16 hdr h 0] h o(2) by simp
    moreover have "unat (fs_blocksize fs) \<le> length h0" using o(4) assms(2) h by (simp add: same_except_def)
    ultimately show ?thesis using o by (simp add: ext2fs_ext_attr_block_csum_def crc_def)
  qed
  show thesis by (rule that [of crc]) (use * in \<open>auto simp: same_except_def\<close>)
qed

lemma xattr_set_verify:
  assumes "20 \<le> length hdr" "unat (fs_blocksize fs) \<le> length hdr"
  shows "\<exists>hdr'. ext2fs_ext_attr_block_csum_set fs block hdr = Some (0, hdr') \<and> ext2fs_ext_attr_block_csum_verify fs block hdr' = Some (True, hdr') \<and>
    same_except {16..<20} hdr hdr'"
proof (cases "ext2fs_has_feature_metadata_csum (fs_super fs)")
  case True
  obtain crc where c: "ext2fs_ext_attr_block_csum fs block hdr = Some (crc, hdr)"
    "\<And>hdr'. same_except {16..<20} hdr hdr' \<Longrightarrow> ext2fs_ext_attr_block_csum fs block hdr' = Some (crc, hdr')"
    using xattr_csum [OF assms] by blast
  obtain h where "wr32 hdr 16 crc = Some h" "rd32 h 16 = Some crc" "same_except {16..<16 + 4} hdr h"
    using wr32_spec [of 16 hdr crc] assms(1) by auto
  then show ?thesis using True c by (auto simp: ext2fs_ext_attr_block_csum_set_def ext2fs_ext_attr_block_csum_verify_def)
qed (auto simp: ext2fs_ext_attr_block_csum_set_def ext2fs_ext_attr_block_csum_verify_def same_except_def)

section \<open>Extent blocks\<close>

lemma extent_set_verify:
  assumes "rd16 eh 4 = Some eh_max" "12 + 12 * unat eh_max + 4 \<le> length eh" "ri inum = Inr gen"
  defines "t \<equiv> 12 + 12 * unat eh_max"
  shows "\<exists>eh'. ext2fs_extent_block_csum_set ri fs inum eh = Some (0, eh') \<and> ext2fs_extent_block_csum_verify ri fs inum eh' = Some True \<and>
    same_except {t..<t + 4} eh eh'"
proof (cases "ext2fs_has_feature_metadata_csum (fs_super fs)")
  case True
  let ?c = "crc_of (crc_of (fs_csum_seed fs) (bytes32 inum)) (bytes32 gen)"
  have le: "t + 4 \<le> length eh" using assms(2) by (simp add: t_def)
  obtain m' where m: "wr32 eh t (crc_of ?c (take t eh)) = Some m'" "rd32 m' t = Some (crc_of ?c (take t m'))" "same_except {t..<t + 4} eh m'"
    using tail_csum_set_verify [OF le, of ?c] by blast
  have "rd16 m' 4 = Some eh_max" using rd16_frame [OF m(3), of 4] assms(1) by (simp add: t_def)
  moreover have "t \<le> length m'" "t \<le> length eh" using m(3) le by (simp_all add: same_except_def)
  ultimately show ?thesis
    using True assms(1,3) m
    by (intro exI [of _ m'])
      (simp add: ext2fs_extent_block_csum_set_def ext2fs_extent_block_csum_verify_def ext2fs_extent_block_csum_def EXT3_EXTENT_TAIL_OFFSET_def
        flip: t_def)
qed (use assms in \<open>auto simp: ext2fs_extent_block_csum_set_def ext2fs_extent_block_csum_verify_def EXT3_EXTENT_TAIL_OFFSET_def same_except_def\<close>)

section \<open>Inodes\<close>

definition csum_cells :: "bool \<Rightarrow> nat set" where
  "csum_cells hi = {124..<126} \<union> (if hi then {130..<132} else {})"

definition cleared :: "bool \<Rightarrow> u8 list \<Rightarrow> u8 list" where
  "cleared hi m = (if hi then m[124 := 0, 125 := 0, 130 := 0, 131 := 0] else m[124 := 0, 125 := 0])"

lemma csum_cells_iff: "q \<in> csum_cells hi \<longleftrightarrow> q = 124 \<or> q = 125 \<or> hi \<and> (q = 130 \<or> q = 131)"
  by (auto simp: csum_cells_def)

lemma cleared_cong: "same_except (csum_cells hi) m m' \<Longrightarrow> cleared hi m' = cleared hi m"
proof (rule nth_equalityI)
  assume s: "same_except (csum_cells hi) m m'"
  then show "length (cleared hi m') = length (cleared hi m)" by (simp add: same_except_def cleared_def)
  fix i assume "i < length (cleared hi m')"
  then show "cleared hi m' ! i = cleared hi m ! i"
    using s unfolding same_except_def csum_cells_iff cleared_def
    by (cases hi; cases "i = 124"; cases "i = 125"; cases "i = 130"; cases "i = 131") simp_all
qed

lemma inode_csum_computes:
  assumes "(if hi then 132 else 128) \<le> length m" "EXT2_INODE_SIZE (fs_super fs) \<le> length m" "rd32 (cleared hi m) 100 = Some gen"
  shows "ext2fs_inode_csum fs inum m hi =
    Some (crc_of (crc_of (crc_of (fs_csum_seed fs) (bytes32 inum)) (bytes32 gen)) (take (EXT2_INODE_SIZE (fs_super fs)) (cleared hi m)), m)"
proof -
  have "124 + 2 \<le> length m" using assms(1) by (cases hi) auto
  then obtain lo m1 where 1: "rd16 m 124 = Some lo" "wr16 m 124 0 = Some m1" "wr16 m1 124 lo = Some m" "same_except {124..<124 + 2} m m1"
    by (rule clear_restore16)
  have m1: "m1 = m[124 := 0, 125 := 0]" using 1(2) \<open>124 + 2 \<le> length m\<close> by (simp add: wr16_eq)
  show ?thesis
  proof (cases hi)
    case False
    then show ?thesis using 1 m1 assms(2,3) by (simp add: ext2fs_inode_csum_def cleared_def)
  next
    case True
    have "130 + 2 \<le> length m1" using assms(1) True m1 by simp
    then obtain h m2 where 2: "rd16 m1 130 = Some h" "wr16 m1 130 0 = Some m2" "wr16 m2 130 h = Some m1" "same_except {130..<130 + 2} m1 m2"
      by (rule clear_restore16)
    have m2: "m2 = cleared True m" using 2(2) \<open>130 + 2 \<le> length m1\<close> by (simp add: wr16_eq m1 cleared_def)
    have len: "length m2 = length m" by (simp add: m2 cleared_def)
    obtain m3 where 3: "wr16 m2 124 lo = Some m3" "same_except {124..<124 + 2} m2 m3"
      using wr16_spec [of 124 m2 lo] assms(1) True len by auto
    have "rd16 m3 130 = Some 0"
    proof -
      have "rd16 m2 130 = Some 0" using wr16_spec [OF \<open>130 + 2 \<le> length m1\<close>, of 0] 2(2) by auto
      then show ?thesis using rd16_frame [OF 3(2), of 130] by simp
    qed
    have "wr16 m3 130 h = Some m"
    proof -
      note b = rd16_bytes [OF 1(1)] rd16_bytes [OF 2(1)]
      have "m3 = m2[124 := ucast lo, 125 := ucast (drop_bit 8 lo)]" using 3(1) assms(1) True len by (simp add: wr16_eq)
      then have "wr16 m3 130 h = Some (m[124 := 0, 125 := 0, 130 := 0, 131 := 0, 124 := ucast lo, 125 := ucast (drop_bit 8 lo), 130 := ucast h, 131 := ucast (drop_bit 8 h)])"
        using assms(1) True len by (simp add: wr16_eq m2 cleared_def)
      moreover have "m ! 130 = ucast h" "m ! 131 = ucast (drop_bit 8 h)" using b(5,6) by (simp_all add: m1)
      moreover have "m[124 := 0, 125 := 0, 130 := 0, 131 := 0, 124 := m ! 124, 125 := m ! 125, 130 := m ! 130, 131 := m ! 131] ! i = m ! i"
        if "i < length m" for i
        using that by (cases "i = 124"; cases "i = 125"; cases "i = 130"; cases "i = 131") simp_all
      then have "m[124 := 0, 125 := 0, 130 := 0, 131 := 0, 124 := m ! 124, 125 := m ! 125, 130 := m ! 130, 131 := m ! 131] = m"
        by (intro nth_equalityI) simp_all
      ultimately show ?thesis using b(2,3) by simp
    qed
    then show ?thesis using True 1(1,2) 2(1,2) 3(1) m2 len assms(2,3) by (simp add: ext2fs_inode_csum_def)
  qed
qed

lemma inode_set_verify:
  assumes "128 \<le> length inode" "EXT2_INODE_SIZE (fs_super fs) > 128 \<longrightarrow> 132 \<le> length inode" "EXT2_INODE_SIZE (fs_super fs) \<le> length inode"
  shows "\<exists>inode'. ext2fs_inode_csum_set fs inum inode = Some (0, inode') \<and> ext2fs_inode_csum_verify fs inum inode' = Some (True, inode') \<and>
    same_except (csum_cells True) inode inode'"
proof (cases "ext2fs_has_feature_metadata_csum (fs_super fs)")
  case True
  have "csum_has_hi fs inode \<noteq> None" using assms(2) by (auto simp: csum_has_hi_def rd16_def rd_def)
  then obtain hi where hi: "csum_has_hi fs inode = Some hi" by blast
  have len: "(if hi then 132 else 128) \<le> length inode" using hi assms(1,2) by (auto simp: csum_has_hi_def split: if_splits)
  have "rd32 (cleared hi inode) 100 \<noteq> None" using assms(1) by (simp add: rd32_def rd16_def rd_def cleared_def)
  then obtain gen where gen: "rd32 (cleared hi inode) 100 = Some gen" by blast
  define crc where "crc = crc_of (crc_of (crc_of (fs_csum_seed fs) (bytes32 inum)) (bytes32 gen)) (take (EXT2_INODE_SIZE (fs_super fs)) (cleared hi inode))"
  have computes: "ext2fs_inode_csum fs inum m hi = Some (crc, m)" if m: "same_except (csum_cells hi) inode m" for m
  proof -
    have l: "length m = length inode" using m by (simp add: same_except_def)
    show ?thesis using inode_csum_computes [of hi m fs gen inum] cleared_cong [OF m] gen len assms(3) by (simp add: l crc_def)
  qed
  obtain m2 where 2: "wr16 inode 124 (ucast crc) = Some m2" "rd16 m2 124 = Some (ucast crc)" "same_except {124..<124 + 2} inode m2"
    using wr16_spec [of 124 inode "ucast crc"] assms(1) by auto
  have "\<exists>m3. (if hi then wr16 m2 130 (ucast (drop_bit 16 crc)) else Some m2) = Some m3 \<and> same_except (csum_cells hi) inode m3 \<and>
    rd16 m3 124 = Some (ucast crc) \<and> (hi \<longrightarrow> rd16 m3 130 = Some (ucast (drop_bit 16 crc)))"
  proof (cases hi)
    case True
    then have "130 + 2 \<le> length m2" using len 2(3) by (simp add: same_except_def)
    from wr16_spec [OF this, of "ucast (drop_bit 16 crc)"] obtain m3 where
      3: "wr16 m2 130 (ucast (drop_bit 16 crc)) = Some m3" "rd16 m3 130 = Some (ucast (drop_bit 16 crc))" "same_except {130..<130 + 2} m2 m3" .
    then show ?thesis
      using True 2(2) rd16_frame [OF 3(3), of 124] same_except_trans [OF 2(3) 3(3)] by (simp add: csum_cells_def)
  next
    case False
    then show ?thesis using 2 by (simp add: csum_cells_def)
  qed
  then obtain m3 where 3: "(if hi then wr16 m2 130 (ucast (drop_bit 16 crc)) else Some m2) = Some m3" "same_except (csum_cells hi) inode m3"
    "rd16 m3 124 = Some (ucast crc)" "hi \<longrightarrow> rd16 m3 130 = Some (ucast (drop_bit 16 crc))" by blast
  have "ext2fs_inode_csum_set fs inum inode = Some (0, m3)"
    using True hi computes [of inode] 2(1) 3(1) by (simp add: ext2fs_inode_csum_set_def same_except_def)
  moreover have "rd16 m3 128 = rd16 inode 128" by (rule rd16_frame [OF 3(2)]) (auto simp: csum_cells_def)
  then have "csum_has_hi fs m3 = csum_has_hi fs inode" by (simp add: csum_has_hi_def)
  then have "csum_has_hi fs m3 = Some hi" using hi by simp
  then have "ext2fs_inode_csum_verify fs inum m3 = Some (True, m3)"
    using True computes [OF 3(2)] 3(3,4) join_split_32 [of crc] low_half_32 [of crc]
    by (cases hi) (simp_all add: ext2fs_inode_csum_verify_def mask_eq_exp_minus_1)
  moreover have "same_except (csum_cells True) inode m3" by (rule same_except_mono [OF 3(2)]) (auto simp: csum_cells_def)
  ultimately show ?thesis by blast
qed (auto simp: ext2fs_inode_csum_set_def ext2fs_inode_csum_verify_def same_except_def)

section \<open>Directory blocks\<close>

lemma find_tail_total:
  assumes "d < tail" "tail + 8 \<le> length m"
  shows "\<exists>r. find_tail m tail d = Some r"
  using assms
proof (induction m tail d rule: find_tail.induct)
  case (1 m tail d)
  have "d + 4 + 2 \<le> length m" using 1(2,3) by linarith
  then obtain v where v: "rd16 m (d + 4) = Some v" by (auto simp: rd16_def rd_def)
  show ?case using 1(1) [OF v] 1(3) v by (subst find_tail.simps) auto
qed

lemma find_tail_frame:
  assumes "d < tail" "same_except {tail + 8..<tail + 12} m m'"
  shows "find_tail m' tail d = find_tail m tail d"
  using assms
proof (induction m tail d rule: find_tail.induct)
  case (1 m tail d)
  have same: "rd16 m' (d + 4) = rd16 m (d + 4)" using 1(2) by (intro rd16_frame [OF 1(3)]) auto
  show ?case
  proof (cases "rd16 m (d + 4)")
    case (Some v)
    then show ?thesis using 1(1) [OF Some] 1(3) same by (subst (1 2) find_tail.simps) auto
  qed (use same in \<open>simp add: find_tail.simps\<close>)
qed

lemma blocksize_tail:
  fixes bs :: u32
  assumes "1024 \<le> unat bs"
  shows "sub64 (unat bs) 12 = unat bs - 12" "sub64 (unat bs) 8 = unat bs - 8"
  using assms unat_lt_32 [of bs] by (intro sub64_nowrap; simp)+

lemma dirent_tail_total:
  assumes "1024 \<le> unat (fs_blocksize fs)" "length m = unat (fs_blocksize fs)"
  obtains r where "get_dirent_tail fs m = Some r" "\<And>t. r = Inr t \<Longrightarrow> t = unat (fs_blocksize fs) - 12"
proof -
  let ?t = "unat (fs_blocksize fs) - 12"
  have "0 < ?t" "?t + 8 \<le> length m" using assms by linarith+
  from find_tail_total [OF this] obtain d where d: "find_tail m ?t 0 = Some d" by blast
  have "\<exists>r. get_dirent_tail fs m = Some r \<and> (\<forall>t. r = Inr t \<longrightarrow> t = ?t)"
  proof (cases "d = ?t")
    case True
    have "rd32 m ?t \<noteq> None" "rd16 m (?t + 4) \<noteq> None" "rd16 m (?t + 6) \<noteq> None"
      using assms by (auto simp: rd32_def rd16_def rd_def)
    then show ?thesis using d True blocksize_tail [OF assms(1)] by (auto simp: get_dirent_tail_def Let_def)
  qed (use d blocksize_tail [OF assms(1)] in \<open>auto simp: get_dirent_tail_def Let_def\<close>)
  then show thesis using that by blast
qed

lemma dirent_tail_frame:
  assumes "1024 \<le> unat (fs_blocksize fs)"
  defines "t \<equiv> unat (fs_blocksize fs) - 12"
  assumes "same_except {t + 8..<t + 12} m m'"
  shows "get_dirent_tail fs m' = get_dirent_tail fs m"
proof -
  have "0 < t" using assms(1) by (simp add: t_def)
  note f = find_tail_frame [OF this assms(3)]
  have "rd32 m' t = rd32 m t" "rd16 m' (t + 4) = rd16 m (t + 4)" "rd16 m' (t + 6) = rd16 m (t + 6)"
    by (intro rd32_frame [OF assms(3)] rd16_frame [OF assms(3)]; auto)+
  then show ?thesis using f blocksize_tail [OF assms(1)] unfolding get_dirent_tail_def Let_def t_def [symmetric]
    by (cases "find_tail m t 0") auto
qed

text \<open>The layout of a leaf block: entries with sound record lengths that fill the block up to the checksum entry, which has inode 0,
  record length 12 and the type \<open>0xDE\<close> of a checksum.\<close>

fun entries_fill :: "u8 list \<Rightarrow> nat \<Rightarrow> u16 list \<Rightarrow> nat \<Rightarrow> bool" where
  "entries_fill m d [] stop \<longleftrightarrow> d = stop"
| "entries_fill m d (l # ls) stop \<longleftrightarrow> rd16 m (d + 4) = Some l \<and> l \<noteq> 0 \<and> l AND 3 = 0 \<and> entries_fill m (d + unat l) ls stop"

definition leaf_block :: "ext2_filsys \<Rightarrow> u8 list \<Rightarrow> bool" where
  "leaf_block fs m \<longleftrightarrow>
     (let t = unat (fs_blocksize fs) - 12 in
      (\<exists>lens. entries_fill m 0 lens t) \<and> rd32 m t = Some 0 \<and> rd16 m (t + 4) = Some 12 \<and> rd16 m (t + 6) = Some 0xDE00)"

lemma entries_fill_le: "entries_fill m d ls stop \<Longrightarrow> d \<le> stop"
  by (induction ls arbitrary: d) (auto dest: add_leD1)

lemma find_tail_iff: "d < tail \<Longrightarrow> find_tail m tail d = Some tail \<longleftrightarrow> (\<exists>ls. entries_fill m d ls tail)"
proof (induction m tail d rule: find_tail.induct)
  case (1 m tail d)
  have fill: "(\<exists>ls. entries_fill m d ls tail) \<longleftrightarrow>
    (\<exists>l. rd16 m (d + 4) = Some l \<and> l \<noteq> 0 \<and> l AND 3 = 0 \<and> (\<exists>ls. entries_fill m (d + unat l) ls tail))"
    using 1(2) by (metis entries_fill.elims(2) entries_fill.simps(2) less_irrefl)
  show ?case
  proof (cases "rd16 m (d + 4)")
    case (Some l)
    consider (bad) "l = 0 \<or> l AND 3 \<noteq> 0" | (last) "l \<noteq> 0" "l AND 3 = 0" "tail \<le> d + unat l" | (inner) "l \<noteq> 0" "l AND 3 = 0" "d + unat l < tail"
      by linarith
    then show ?thesis
    proof cases
      case bad
      then show ?thesis unfolding fill using Some 1(2) by (subst find_tail.simps) auto
    next
      case last
      have "(\<exists>ls. entries_fill m (d + unat l) ls tail) \<longleftrightarrow> d + unat l = tail"
        using last(3) entries_fill_le by (metis entries_fill.simps(1) order_antisym)
      then show ?thesis unfolding fill using Some last by (subst find_tail.simps) simp
    next
      case inner
      then show ?thesis unfolding fill using Some 1(1) [OF Some] by (subst find_tail.simps) simp
    qed
  qed (use fill in \<open>simp add: find_tail.simps\<close>)
qed

lemma dirent_tail_iff:
  assumes "1024 \<le> unat (fs_blocksize fs)"
  shows "get_dirent_tail fs m = Some (Inr t) \<longleftrightarrow> leaf_block fs m \<and> t = unat (fs_blocksize fs) - 12"
proof -
  let ?t = "unat (fs_blocksize fs) - 12"
  have "0 < ?t" using assms by simp
  note f = find_tail_iff [OF this, of m]
  show ?thesis
  proof (cases "find_tail m ?t 0 = Some ?t")
    case True
    then show ?thesis using f unfolding get_dirent_tail_def leaf_block_def Let_def blocksize_tail [OF assms]
      by (auto simp: bind_eq_Some_conv split: if_splits)
  next
    case False
    then show ?thesis using f unfolding get_dirent_tail_def leaf_block_def Let_def blocksize_tail [OF assms]
      by (auto simp: bind_eq_Some_conv split: if_splits)
  qed
qed

lemma dirent_set_verify:
  assumes "1024 \<le> unat (fs_blocksize fs)" "length m = unat (fs_blocksize fs)" "get_dirent_tail fs m = Some (Inr t)" "ri inum = Inr gen"
  shows "\<exists>m'. ext2fs_dirent_csum_set ri fs inum m = Some (0, m') \<and> get_dirent_tail fs m' = Some (Inr t) \<and>
    ext2fs_dirent_csum_verify ri fs inum m' = Some True \<and> same_except {t + 8..<t + 12} m m' \<and>
    rd32 m' (t + 8) = Some (crc_of (crc_of (crc_of (fs_csum_seed fs) (bytes32 inum)) (bytes32 gen)) (take t m))"
proof -
  let ?c = "crc_of (crc_of (fs_csum_seed fs) (bytes32 inum)) (bytes32 gen)"
  have t: "t = unat (fs_blocksize fs) - 12" using dirent_tail_total [OF assms(1,2)] assms(3) by (metis option.inject)
  then have len: "t + 8 + 4 \<le> length m" "t \<le> length m" using assms(1,2) by simp_all
  obtain m' where m': "wr32 m (t + 8) (crc_of ?c (take t m)) = Some m'" "rd32 m' (t + 8) = Some (crc_of ?c (take t m))"
    "same_except {t + 8..<t + 8 + 4} m m'"
    using wr32_spec [OF len(1)] by blast
  then have s: "same_except {t + 8..<t + 12} m m'" by (simp add: add.assoc)
  have "take t m' = take t m" "length m' = length m" by (rule take_same_except [OF s], auto) (use s in \<open>simp add: same_except_def\<close>)
  then show ?thesis
    using m' assms(3,4) s len dirent_tail_frame [OF assms(1), of m m'] t
    by (intro exI [of _ m']) (simp add: ext2fs_dirent_csum_set_def ext2fs_dirent_csum_verify_def ext2fs_dirent_csum_def)
qed

text \<open>What an accepted index block looks like.\<close>

lemma dx_count_offsetD:
  assumes "dx_count_offset fs m = Some (Inr off)"
  shows "(off = 8 \<and> (\<exists>v. rd16 m 4 = Some v \<and> ucast v = fs_blocksize fs)) \<or>
    (off = 32 \<and> rd16 m 4 = Some 12 \<and> (\<exists>v. rd16 m 16 = Some v \<and> ucast v = fs_blocksize fs - 12))"
  using assms unfolding dx_count_offset_def by (auto simp: bind_eq_Some_conv split: if_splits)

lemma dx_countlimitD:
  assumes "get_dx_countlimit fs m = Some (Inr off)"
  obtains limit count where "dx_count_offset fs m = Some (Inr off)" "rd16 m off = Some limit" "rd16 m (off + 2) = Some count"
    "unat limit \<le> unat (fs_blocksize fs - of_nat off) div 8" "unat count \<le> unat (fs_blocksize fs - of_nat off) div 8"
proof -
  from assms obtain r where r: "dx_count_offset fs m = Some r" by (auto simp: get_dx_countlimit_def bind_eq_Some_conv)
  show thesis
  proof (cases r)
    case (Inr off')
    then obtain limit count where lc: "rd16 m off' = Some limit" "rd16 m (off' + 2) = Some count"
      using assms r by (auto simp: get_dx_countlimit_def bind_eq_Some_conv)
    have "off' = off" "unat limit \<le> unat (fs_blocksize fs - of_nat off) div 8" "unat count \<le> unat (fs_blocksize fs - of_nat off) div 8"
      using assms r Inr lc by (auto simp: get_dx_countlimit_def Let_def split: if_splits)
    then show thesis using that r Inr lc by simp
  qed (use assms r in \<open>simp add: get_dx_countlimit_def\<close>)
qed

text \<open>The layout of an index block: the fake entries of an inner node or of the root, then the limit and the count of the index entries,
  and room for the checksum behind the last entry the limit allows.\<close>

definition index_block :: "ext2_filsys \<Rightarrow> u8 list \<Rightarrow> nat \<Rightarrow> u16 \<Rightarrow> u16 \<Rightarrow> bool" where
  "index_block fs m off limit count \<longleftrightarrow>
     (let bs = unat (fs_blocksize fs) in
      (off = 8 \<and> map_option unat (rd16 m 4) = Some bs \<and> rd16 m 6 = Some 0 \<or>
       off = 32 \<and> rd16 m 4 = Some 12 \<and> rd16 m 6 \<noteq> None \<and> map_option unat (rd16 m 16) = Some (bs - 12) \<and>
         rd32 m 24 = Some 0 \<and> rd m 29 = Some 8) \<and>
      rd16 m off = Some limit \<and> rd16 m (off + 2) = Some count \<and>
      off + 8 * unat count \<le> bs \<and> off + 8 * unat limit + 8 \<le> bs)"

lemma unat_up_16 [simp]: "unat (ucast v :: u32) = unat v" for v :: u16
  using unsigned_less [of v, where 'a = nat] by (simp add: unsigned_ucast_eq take_bit_nat_eq_self)

lemma blocksize_room:
  assumes "1024 \<le> unat (fs_blocksize fs)" "off = 8 \<or> off = 32"
  shows "unat n \<le> unat (fs_blocksize fs - of_nat off) div 8 \<longleftrightarrow> off + 8 * unat n \<le> unat (fs_blocksize fs)"
proof -
  have "(of_nat off :: u32) \<le> fs_blocksize fs" "unat (of_nat off :: u32) = off" using assms by (auto simp: word_le_nat_alt)
  then have s: "unat (fs_blocksize fs - of_nat off) = unat (fs_blocksize fs) - off" by (simp add: unat_sub)
  have "off \<le> unat (fs_blocksize fs)" using assms by auto
  then have "unat n * 8 \<le> unat (fs_blocksize fs) - off \<longleftrightarrow> off + 8 * unat n \<le> unat (fs_blocksize fs)" by linarith
  then show ?thesis unfolding s by (simp add: less_eq_div_iff_mult_less_eq)
qed

lemma dx_count_offset_iff:
  assumes "1024 \<le> unat (fs_blocksize fs)"
  shows "dx_count_offset fs m = Some (Inr off) \<longleftrightarrow>
    off = 8 \<and> map_option unat (rd16 m 4) = Some (unat (fs_blocksize fs)) \<and> rd16 m 6 = Some 0 \<or>
    off = 32 \<and> rd16 m 4 = Some 12 \<and> rd16 m 6 \<noteq> None \<and> map_option unat (rd16 m 16) = Some (unat (fs_blocksize fs) - 12) \<and>
      rd32 m 24 = Some 0 \<and> rd m 29 = Some 8"
proof -
  have "12 \<le> fs_blocksize fs" using assms by (simp add: word_le_nat_alt)
  then have m12: "unat (fs_blocksize fs - 12) = unat (fs_blocksize fs) - 12" by (simp add: unat_sub)
  have e: "(ucast v :: u32) = b \<longleftrightarrow> unat v = unat b" for v :: u16 and b by (metis unat_up_16 word_unat_eq_iff)
  have "unat (12 :: u16) \<noteq> unat (fs_blocksize fs)" using assms by simp
  then show ?thesis
    unfolding dx_count_offset_def e m12 by (cases "rd16 m 4"; cases "rd16 m 6") (auto simp: bind_eq_Some_conv split: if_splits)
qed

lemma index_block_iff:
  assumes "1024 \<le> unat (fs_blocksize fs)"
  shows "index_block fs m off limit count \<longleftrightarrow>
    get_dx_countlimit fs m = Some (Inr off) \<and> rd16 m off = Some limit \<and> rd16 m (off + 2) = Some count \<and>
    dx_tail fs off limit = Some (off + 8 * unat limit)"
proof -
  have "dx_tail fs off limit = Some (off + 8 * unat limit) \<longleftrightarrow> off + 8 * unat limit + 8 \<le> unat (fs_blocksize fs)"
    using assms by (auto simp: dx_tail_def Let_def blocksize_tail mult.commute)
  moreover have off: "off = 8 \<or> off = 32" if "dx_count_offset fs m = Some (Inr off)" using dx_count_offsetD [OF that] by blast
  moreover have "get_dx_countlimit fs m = Some (Inr off) \<longleftrightarrow> dx_count_offset fs m = Some (Inr off) \<and>
      off + 8 * unat limit \<le> unat (fs_blocksize fs) \<and> off + 8 * unat count \<le> unat (fs_blocksize fs)"
    if "rd16 m off = Some limit" "rd16 m (off + 2) = Some count"
  proof (cases "dx_count_offset fs m = Some (Inr off)")
    case True
    then show ?thesis
      using that blocksize_room [OF assms off [OF True], of limit] blocksize_room [OF assms off [OF True], of count]
      by (auto simp: get_dx_countlimit_def Let_def not_le)
  next
    case False
    then show ?thesis using dx_countlimitD [of fs m off] by metis
  qed
  ultimately show ?thesis unfolding index_block_def Let_def dx_count_offset_iff [OF assms, symmetric] by auto
qed

lemma find_tail_jump:
  assumes "rd16 m (d + 4) = Some v" "v \<noteq> 0" "d + unat v \<ge> tail" "d < tail" "d + unat v \<noteq> tail"
  shows "\<exists>r. find_tail m tail d = Some r \<and> r \<noteq> tail"
  using assms by (subst find_tail.simps) auto

lemma dx_no_tail:
  assumes "get_dx_countlimit fs m = Some (Inr off)" "1024 \<le> unat (fs_blocksize fs)"
  shows "\<exists>e. get_dirent_tail fs m = Some (Inl e)"
proof -
  let ?bs = "unat (fs_blocksize fs)"
  have "\<exists>d. find_tail m (?bs - 12) 0 = Some d \<and> d \<noteq> ?bs - 12"
  proof -
    have "dx_count_offset fs m = Some (Inr off)" using assms(1) by (rule dx_countlimitD)
    from dx_count_offsetD [OF this] consider
      (node) v where "rd16 m 4 = Some v" "ucast v = fs_blocksize fs"
    | (root) v where "rd16 m 4 = Some 12" "rd16 m 16 = Some v" "ucast v = fs_blocksize fs - 12" by blast
    then show ?thesis
    proof cases
      case node
      have v: "unat v = ?bs" using node(2) unat_up_16 [of v] by simp
      then have "v \<noteq> 0" "?bs \<noteq> ?bs - 12" using assms(2) by auto
      then show ?thesis using find_tail_jump [of m 0 v "?bs - 12"] node(1) assms(2) v by simp
    next
      case root
      have "12 \<le> fs_blocksize fs" using assms(2) by (simp add: word_le_nat_alt)
      then have v: "unat v = ?bs - 12" using root(3) unat_up_16 [of v] by (simp add: unat_sub)
      then have "v \<noteq> 0" "12 + unat v \<noteq> ?bs - 12" using assms(2) by auto
      then have "\<exists>r. find_tail m (?bs - 12) 12 = Some r \<and> r \<noteq> ?bs - 12"
        using find_tail_jump [of m 12 v "?bs - 12"] root(2) assms(2) v by simp
      moreover have "find_tail m (?bs - 12) 0 = find_tail m (?bs - 12) 12"
        using root(1) assms(2) by (subst find_tail.simps) (simp add: not_le [THEN iffD2, of 12 "?bs - 12"] less_diff_conv)
      ultimately show ?thesis by simp
    qed
  qed
  then show ?thesis using blocksize_tail [OF assms(2)] by (auto simp: get_dirent_tail_def Let_def)
qed

lemma dx_countlimit_total:
  assumes "1024 \<le> unat (fs_blocksize fs)" "length m = unat (fs_blocksize fs)"
  shows "\<exists>r. get_dx_countlimit fs m = Some r"
proof -
  have r: "rd16 m p \<noteq> None" "rd32 m p \<noteq> None" "rd m p \<noteq> None" if "p < 100" for p
    using that assms by (auto simp: rd32_def rd16_def rd_def)
  have "dx_count_offset fs m \<noteq> None"
    using r(1) [of 4] r(1) [of 6] r(1) [of 16] r(2) [of 24] r(3) [of 29] by (auto simp: dx_count_offset_def)
  then obtain c where c: "dx_count_offset fs m = Some c" by blast
  show ?thesis
  proof (cases c)
    case (Inr off)
    then have "off = 8 \<or> off = 32" using dx_count_offsetD c by blast
    then show ?thesis using c Inr r(1) [of off] r(1) [of "off + 2"] by (auto simp: get_dx_countlimit_def Let_def)
  qed (use c in \<open>simp add: get_dx_countlimit_def\<close>)
qed

lemma dx_countlimit_frame:
  assumes "get_dx_countlimit fs m = Some (Inr off)" "same_except {q..<q + 4} m m'" "off + 4 \<le> q"
  shows "get_dx_countlimit fs m' = Some (Inr off)"
proof -
  have off: "dx_count_offset fs m = Some (Inr off)" using assms(1) by (rule dx_countlimitD)
  have r16: "rd16 m' p = rd16 m p" if "p + 2 \<le> q" for p using that by (intro rd16_frame [OF assms(2)]) auto
  from dx_count_offsetD [OF off] consider "off = 8" | "off = 32" by blast
  then have "dx_count_offset fs m' = Some (Inr off)"
  proof cases
    case 1
    then have "rd16 m' 4 = rd16 m 4" "rd16 m' 6 = rd16 m 6" using assms(3) by (simp_all add: r16)
    then show ?thesis using off 1 unfolding dx_count_offset_def by (auto simp: bind_eq_Some_conv split: if_splits)
  next
    case 2
    have "rd32 m' 24 = rd32 m 24" using assms(3) 2 by (intro rd32_frame [OF assms(2)]) auto
    moreover have "rd m' 29 = rd m 29" using assms(2,3) 2 by (simp add: rd_def same_except_def)
    moreover have "rd16 m' 4 = rd16 m 4" "rd16 m' 6 = rd16 m 6" "rd16 m' 16 = rd16 m 16" using assms(3) 2 by (simp_all add: r16)
    ultimately have "dx_count_offset fs m' = dx_count_offset fs m" unfolding dx_count_offset_def by (simp only:)
    then show ?thesis using off by simp
  qed
  then show ?thesis using assms(1,3) off r16 [of off] r16 [of "off + 2"] by (simp add: get_dx_countlimit_def)
qed

text \<open>The checksum covers the seed, the inode number, its generation and the given bytes.\<close>

definition dx_crc :: "ext2_filsys \<Rightarrow> u32 \<Rightarrow> u32 \<Rightarrow> u8 list \<Rightarrow> u32" where
  "dx_crc fs inum gen bs = crc_of (crc_of (crc_of (fs_csum_seed fs) (bytes32 inum)) (bytes32 gen)) bs"

lemma dx_csum:
  assumes "t + 8 \<le> length m" "off + count * 8 \<le> length m" "ri inum = Inr gen"
  obtains m0 where "wr32 m (t + 4) 0 = Some m0"
    "\<And>m'. same_except {t + 4..<t + 8} m m' \<Longrightarrow> ext2fs_dx_csum ri fs inum m' off count t =
      Some (Inr (dx_crc fs inum gen (take (off + count * 8) m0 @ take 8 (drop t m0))), m')"
proof -
  have le: "t + 4 + 4 \<le> length m" using assms(1) by simp
  obtain m0 where m0: "wr32 m (t + 4) 0 = Some m0" "same_except {t + 4..<t + 4 + 4} m m0" using wr32_spec [OF le] by blast
  define crc where "crc = dx_crc fs inum gen (take (off + count * 8) m0 @ take 8 (drop t m0))"
  have "ext2fs_dx_csum ri fs inum m' off count t = Some (Inr crc, m')" if m': "same_except {t + 4..<t + 8} m m'" for m'
  proof -
    have s: "same_except {t + 4..<t + 4 + 4} m m'" using m' by (simp add: add.assoc)
    have l: "length m' = length m" using m' by (simp add: same_except_def)
    then obtain old m1 where o: "rd32 m' (t + 4) = Some old" "wr32 m' (t + 4) 0 = Some m1" "wr32 m1 (t + 4) old = Some m'" "length m1 = length m'"
      using clear_restore32 [of "t + 4" m'] le by auto
    have "m1 = m0" using wr32_cong [OF s, of 0] m0(1) o(2) by simp
    then show ?thesis
      using o assms l by (simp add: ext2fs_dx_csum_def Let_def crc_def dx_crc_def crc_of_append)
  qed
  then show thesis by (intro that [OF m0(1)]) (simp add: crc_def)
qed

lemma dx_set_verify:
  assumes bs: "1024 \<le> unat (fs_blocksize fs)" "length m = unat (fs_blocksize fs)" and ix: "index_block fs m off limit count"
    and ri: "ri inum = Inr gen"
  defines "t \<equiv> off + 8 * unat limit"
  shows "\<exists>m0 m'. ext2fs_dx_csum_set ri fs inum m = Some (0, m') \<and> get_dx_countlimit fs m' = Some (Inr off) \<and>
    ext2fs_dx_csum_verify ri fs inum m' = Some (True, m') \<and> same_except {t + 4..<t + 8} m m' \<and> wr32 m (t + 4) 0 = Some m0 \<and>
    rd32 m' (t + 4) = Some (dx_crc fs inum gen (take (off + unat count * 8) m0 @ take 8 (drop t m0)))"
proof -
  have i: "get_dx_countlimit fs m = Some (Inr off)" "rd16 m off = Some limit" "rd16 m (off + 2) = Some count" "dx_tail fs off limit = Some t"
    using ix unfolding index_block_iff [OF bs(1)] t_def by simp_all
  have fits: "t + 8 \<le> length m" "off + unat count * 8 \<le> length m" using ix bs(2) by (simp_all add: index_block_def Let_def t_def mult.commute)
  obtain m0 where m0: "wr32 m (t + 4) 0 = Some m0" and
    crc: "\<And>m'. same_except {t + 4..<t + 8} m m' \<Longrightarrow> ext2fs_dx_csum ri fs inum m' off (unat count) t =
      Some (Inr (dx_crc fs inum gen (take (off + unat count * 8) m0 @ take 8 (drop t m0))), m')"
    using dx_csum [of t m off "unat count" ri inum gen fs, OF fits ri] by blast
  define c where "c = dx_crc fs inum gen (take (off + unat count * 8) m0 @ take 8 (drop t m0))"
  obtain m' where m': "wr32 m (t + 4) c = Some m'" "rd32 m' (t + 4) = Some c" "same_except {t + 4..<t + 4 + 4} m m'"
    using wr32_spec [of "t + 4" m c] fits(1) by auto
  then have s: "same_except {t + 4..<t + 8} m m'" by (simp add: add.assoc)
  have "off \<le> t" by (simp add: t_def)
  then have c': "get_dx_countlimit fs m' = Some (Inr off)" by (intro dx_countlimit_frame [OF i(1) m'(3)]) simp
  have "rd16 m' off = Some limit" "rd16 m' (off + 2) = Some count"
    using rd16_frame [OF m'(3), of off] rd16_frame [OF m'(3), of "off + 2"] i(2,3) \<open>off \<le> t\<close> by auto
  then have "ext2fs_dx_csum_verify ri fs inum m' = Some (True, m')"
    using c' i(4) crc [OF s] m'(2) by (simp add: ext2fs_dx_csum_verify_def c_def)
  moreover have "ext2fs_dx_csum_set ri fs inum m = Some (0, m')"
    using i crc [of m] m'(1) by (simp add: ext2fs_dx_csum_set_def same_except_def c_def)
  ultimately show ?thesis using c' s m0 m'(2) unfolding c_def by blast
qed

text \<open>A block with neither layout has no room for a checksum.\<close>

lemma dx_set_refused:
  assumes bs: "1024 \<le> unat (fs_blocksize fs)" and c: "get_dx_countlimit fs m = Some (Inr off)" and no: "\<nexists>off limit count. index_block fs m off limit count"
  shows "ext2fs_dx_csum_set ri fs inum m = Some (EXT2_ET_DIR_NO_SPACE_FOR_CSUM, m) \<and> ext2fs_dx_csum_verify ri fs inum m = Some (False, m)"
proof -
  obtain limit count where lc: "rd16 m off = Some limit" "rd16 m (off + 2) = Some count" using dx_countlimitD [OF c] by metis
  then have "dx_tail fs off limit \<noteq> Some (off + 8 * unat limit)" using no c index_block_iff [OF bs] by blast
  then have "dx_tail fs off limit = None" by (auto simp: dx_tail_def Let_def mult.commute split: if_splits)
  then show ?thesis using c lc by (simp add: ext2fs_dx_csum_set_def ext2fs_dx_csum_verify_def)
qed

lemma dir_refused:
  assumes bs: "1024 \<le> unat (fs_blocksize fs)" "length m = unat (fs_blocksize fs)" and csum: "ext2fs_has_feature_metadata_csum (fs_super fs)"
    and no: "\<not> leaf_block fs m" "\<nexists>off limit count. index_block fs m off limit count" and strict: "fs_flags fs AND 0x200000 = 0"
  shows "ext2fs_dir_block_csum_set ri fs inum m = Some (EXT2_ET_DIR_NO_SPACE_FOR_CSUM, m) \<and> ext2fs_dir_block_csum_verify ri fs inum m = Some (False, m)"
proof -
  obtain tr where tr: "get_dirent_tail fs m = Some tr" using dirent_tail_total [OF bs] by blast
  obtain e where e: "tr = Inl e" using tr no(1) dirent_tail_iff [OF bs(1)] by (cases tr) auto
  obtain cr where cr: "get_dx_countlimit fs m = Some cr" using dx_countlimit_total [OF bs] by blast
  show ?thesis
  proof (cases cr)
    case (Inr off)
    then show ?thesis using dx_set_refused [OF bs(1) _ no(2), of off ri inum] csum tr e cr
      by (simp add: ext2fs_dir_block_csum_set_def ext2fs_dir_block_csum_verify_def)
  qed (use csum tr e cr strict in \<open>simp add: ext2fs_dir_block_csum_set_def ext2fs_dir_block_csum_verify_def\<close>)
qed

lemma leaf_set_verify:
  assumes bs: "1024 \<le> unat (fs_blocksize fs)" "length m = unat (fs_blocksize fs)" and csum: "ext2fs_has_feature_metadata_csum (fs_super fs)"
    and leaf: "leaf_block fs m" and ri: "ri inum = Inr gen"
  shows "\<exists>m'. ext2fs_dir_block_csum_set ri fs inum m = Some (0, m') \<and> ext2fs_dir_block_csum_verify ri fs inum m' = Some (True, m') \<and>
    same_except {unat (fs_blocksize fs) - 4..<unat (fs_blocksize fs)} m m' \<and>
    rd32 m' (unat (fs_blocksize fs) - 4) = Some (dx_crc fs inum gen (take (unat (fs_blocksize fs) - 12) m))"
proof -
  let ?t = "unat (fs_blocksize fs) - 12"
  have t: "get_dirent_tail fs m = Some (Inr ?t)" using leaf dirent_tail_iff [OF bs(1)] by simp
  have "?t + 8 = unat (fs_blocksize fs) - 4" "?t + 12 = unat (fs_blocksize fs)" using bs(1) by simp_all
  with dirent_set_verify [of fs m ?t ri inum gen, OF bs t ri] t csum show ?thesis
    by (auto simp: ext2fs_dir_block_csum_set_def ext2fs_dir_block_csum_verify_def dx_crc_def)
qed

lemma index_set_verify:
  assumes bs: "1024 \<le> unat (fs_blocksize fs)" "length m = unat (fs_blocksize fs)" and csum: "ext2fs_has_feature_metadata_csum (fs_super fs)"
    and ix: "index_block fs m off limit count" and ri: "ri inum = Inr gen"
  defines "t \<equiv> off + 8 * unat limit"
  shows "\<exists>m0 m'. ext2fs_dir_block_csum_set ri fs inum m = Some (0, m') \<and> ext2fs_dir_block_csum_verify ri fs inum m' = Some (True, m') \<and>
    same_except {t + 4..<t + 8} m m' \<and> wr32 m (t + 4) 0 = Some m0 \<and>
    rd32 m' (t + 4) = Some (dx_crc fs inum gen (take (off + unat count * 8) m0 @ take 8 (drop t m0)))"
proof -
  have c: "get_dx_countlimit fs m = Some (Inr off)" using ix index_block_iff [OF bs(1)] by blast
  from dx_set_verify [of fs m off limit count ri inum gen, OF bs ix ri] obtain m0 m' where
    m': "ext2fs_dx_csum_set ri fs inum m = Some (0, m')" "get_dx_countlimit fs m' = Some (Inr off)" "ext2fs_dx_csum_verify ri fs inum m' = Some (True, m')"
      "same_except {t + 4..<t + 8} m m' \<and> wr32 m (t + 4) 0 = Some m0 \<and>
        rd32 m' (t + 4) = Some (dx_crc fs inum gen (take (off + unat count * 8) m0 @ take 8 (drop t m0)))"
    unfolding t_def by blast
  obtain e e' where "get_dirent_tail fs m = Some (Inl e)" "get_dirent_tail fs m' = Some (Inl e')"
    using dx_no_tail [OF c bs(1)] dx_no_tail [OF m'(2) bs(1)] by blast
  then have "ext2fs_dir_block_csum_set ri fs inum m = Some (0, m')" "ext2fs_dir_block_csum_verify ri fs inum m' = Some (True, m')"
    using csum c m'(1-3) by (simp_all add: ext2fs_dir_block_csum_set_def ext2fs_dir_block_csum_verify_def)
  then show ?thesis using m'(4) by blast
qed

text \<open>When the inode cannot be read, setting the checksum of an index block returns the error and has cleared the old checksum.\<close>

lemma dx_csum_set_clears:
  assumes "get_dx_countlimit fs m = Some (Inr off)" "rd16 m off = Some limit" "rd16 m (off + 2) = Some count" "dx_tail fs off limit = Some t"
    "t + 8 \<le> length m" "ri inum = Inl e"
  shows "\<exists>m'. ext2fs_dx_csum_set ri fs inum m = Some (e, m') \<and> rd32 m' (t + 4) = Some 0"
proof -
  obtain old where "rd32 m (t + 4) = Some old" using assms(5) by (auto simp: rd32_def rd16_def rd_def)
  moreover obtain m' where "wr32 m (t + 4) 0 = Some m'" "rd32 m' (t + 4) = Some 0" using wr32_spec [of "t + 4" m 0] assms(5) by auto
  ultimately show ?thesis using assms by (simp add: ext2fs_dx_csum_set_def ext2fs_dx_csum_def)
qed

section \<open>Group descriptors\<close>

lemma slice_same_except:
  assumes "same_except S m m'" "S \<inter> {p..<p + n} = {}"
  shows "take n (drop p m') = take n (drop p m)"
proof (rule nth_equalityI)
  show "length (take n (drop p m')) = length (take n (drop p m))" using assms(1) by (simp add: same_except_def)
  fix i assume i: "i < length (take n (drop p m'))"
  then have "p + i \<in> {p..<p + n}" by simp
  then have "p + i \<notin> S" using assms(2) by blast
  moreover have "p \<le> length m" "p \<le> length m'" using i assms(1) by (auto simp: same_except_def)
  ultimately show "take n (drop p m') ! i = take n (drop p m) ! i" using i assms(1) by (simp add: same_except_def)
qed

text \<open>Descriptors of a size that is a multiple of 8 fill the array without gaps.\<close>

definition csum_ok :: "ext2_filsys \<Rightarrow> bool" where
  "csum_ok fs \<longleftrightarrow> descs_ok fs \<and> EXT2_DESC_SIZE (fs_super fs) mod 8 = 0 \<and> 16 \<le> length (s_uuid (fs_super fs))"

lemma csum_okD:
  assumes "csum_ok fs" "unat g < n_groups fs"
  shows "ext2fs_group_desc fs g + EXT2_DESC_SIZE (fs_super fs) \<le> length (fs_group_desc fs)" "32 \<le> EXT2_DESC_SIZE (fs_super fs)"
proof -
  have st: "desc_stride fs = EXT2_DESC_SIZE (fs_super fs)" using assms(1) by (simp add: desc_stride_def csum_ok_def)
  have "Suc (unat g) * desc_stride fs \<le> n_groups fs * desc_stride fs" using assms(2) by (intro mult_le_mono1) simp
  moreover have "n_groups fs * desc_stride fs \<le> length (fs_group_desc fs)" "(if ext2fs_has_feature_64bit (fs_super fs) then 64 else 32) \<le> desc_stride fs"
    using assms(1) by (simp_all add: csum_ok_def descs_ok_def)
  ultimately show "ext2fs_group_desc fs g + EXT2_DESC_SIZE (fs_super fs) \<le> length (fs_group_desc fs)" "32 \<le> EXT2_DESC_SIZE (fs_super fs)"
    using group_desc_offset(1) [OF _ assms(2)] assms(1) st by (auto simp: csum_ok_def split: if_splits)
qed

text \<open>The checksum of a descriptor in terms of the bytes before and after the checksum field.\<close>

definition desc_head :: "ext2_filsys \<Rightarrow> u32 \<Rightarrow> u8 list" where
  "desc_head fs g = take 30 (drop (ext2fs_group_desc fs g) (fs_group_desc fs))"

definition desc_rest :: "ext2_filsys \<Rightarrow> u32 \<Rightarrow> u8 list" where
  "desc_rest fs g = take (EXT2_DESC_SIZE (fs_super fs) - 32) (drop (32 + ext2fs_group_desc fs g) (fs_group_desc fs))"

definition desc_crc :: "ext2_super_block \<Rightarrow> u32 \<Rightarrow> u32 \<Rightarrow> u8 list \<Rightarrow> u8 list \<Rightarrow> u16" where
  "desc_crc sb seed g h r =
     (if ext2fs_has_feature_metadata_csum sb then ucast (crc_of (crc_of seed (bytes32 g)) (h @ [0, 0] @ r))
      else fold (\<lambda>b c. crc_byte c b) (take 16 (s_uuid sb) @ bytes32 g @ h @ r) 0xffff)"

lemma wr16_slice:
  assumes "wr16 m p v = Some m'" "d + 30 = p" "32 \<le> n" "d + n \<le> length m"
  shows "take n (drop d m') = take 30 (drop d m) @ [ucast v, ucast (drop_bit 8 v)] @ take (n - 32) (drop (32 + d) m)"
proof (rule nth_equalityI)
  have m': "m' = m[p := ucast v, p + 1 := ucast (drop_bit 8 v)]" using assms by (auto simp: wr16_def wr_def split: if_splits)
  show "length (take n (drop d m')) = length (take 30 (drop d m) @ [ucast v, ucast (drop_bit 8 v)] @ take (n - 32) (drop (32 + d) m))"
    using assms by (simp add: m')
  fix i assume i: "i < length (take n (drop d m'))"
  then have i': "i < n" "d + i < length m" using assms(4) by (auto simp: m')
  consider "i < 30" | "i = 30" | "i = 31" "d + 31 = Suc p" | "32 \<le> i" "32 + d + (i - 32) = d + i" "i - 32 < n - 32" using i'(1) assms(2) by linarith
  then show "take n (drop d m') ! i = (take 30 (drop d m) @ [ucast v, ucast (drop_bit 8 v)] @ take (n - 32) (drop (32 + d) m)) ! i"
    using i' assms by cases (simp_all add: m' nth_append nth_list_update)
qed

lemma group_csum_value:
  assumes ok: "csum_ok fs" "unat g < n_groups fs"
  shows "ext2fs_group_desc_csum fs g = Some (desc_crc (fs_super fs) (fs_csum_seed fs) g (desc_head fs g) (desc_rest fs g), fs)"
proof -
  let ?d = "ext2fs_group_desc fs g" and ?m = "fs_group_desc fs" and ?n = "EXT2_DESC_SIZE (fs_super fs)"
  note l = csum_okD [OF ok]
  show ?thesis
  proof (cases "ext2fs_has_feature_metadata_csum (fs_super fs)")
    case True
    have "?d + 30 + 2 \<le> length ?m" using l by simp
    then obtain old m1 where o: "rd16 ?m (?d + 30) = Some old" "wr16 ?m (?d + 30) 0 = Some m1" "wr16 m1 (?d + 30) old = Some ?m"
        "same_except {?d + 30..<?d + 30 + 2} ?m m1"
      by (rule clear_restore16)
    have "take ?n (drop ?d m1) = desc_head fs g @ [0, 0] @ desc_rest fs g"
      using wr16_slice [OF o(2) refl l(2,1)] by (simp add: desc_head_def desc_rest_def)
    moreover have "?n \<le> length (drop ?d m1)" using l(1) o(4) by (simp add: same_except_def)
    moreover have "ext2fs_group_desc (fs\<lparr>fs_group_desc := m1\<rparr>) g = ?d" by (simp add: ext2fs_group_desc_def)
    ultimately show ?thesis
      using True o by (simp add: ext2fs_group_desc_csum_def Let_def put_field16_def desc_crc_def)
  next
    case False
    have "30 \<le> length (drop ?d ?m)" "?n - 32 \<le> length (drop (32 + ?d) ?m)" "16 \<le> length (s_uuid (fs_super fs))"
      using l ok(1) by (simp_all add: csum_ok_def)
    then show ?thesis using False l(2)
      by (cases "?n = 32") (simp_all add: ext2fs_group_desc_csum_def Let_def crc16_spec desc_crc_def desc_head_def desc_rest_def add.assoc)
  qed
qed

lemma only_descs_refl: "only_descs S fs fs"
  by (auto simp: only_descs_def same_except_def intro!: exI [of _ "fs_group_desc fs"])

lemma only_descs_csum:
  assumes "only_descs S fs fs'"
  shows "csum_ok fs' = csum_ok fs" "fs_csum_seed fs' = fs_csum_seed fs" "ext2fs_has_group_desc_csum fs' = ext2fs_has_group_desc_csum fs"
    "S \<inter> {ext2fs_group_desc fs g..<ext2fs_group_desc fs g + 30} = {} \<Longrightarrow> desc_head fs' g = desc_head fs g"
    "S \<inter> {ext2fs_group_desc fs g + 32..<ext2fs_group_desc fs g + EXT2_DESC_SIZE (fs_super fs)} = {} \<Longrightarrow> desc_rest fs' g = desc_rest fs g"
proof -
  note d = only_descsD [OF assms]
  show "csum_ok fs' = csum_ok fs" "ext2fs_has_group_desc_csum fs' = ext2fs_has_group_desc_csum fs"
    using d by (simp_all add: csum_ok_def ext2fs_has_group_desc_csum_def)
  show "fs_csum_seed fs' = fs_csum_seed fs" using assms by (auto simp: only_descs_def)
  show "desc_head fs' g = desc_head fs g" if "S \<inter> {ext2fs_group_desc fs g..<ext2fs_group_desc fs g + 30} = {}"
    using slice_same_except [OF d(4) that] by (simp add: desc_head_def d(2))
  show "desc_rest fs' g = desc_rest fs g" if "S \<inter> {ext2fs_group_desc fs g + 32..<ext2fs_group_desc fs g + EXT2_DESC_SIZE (fs_super fs)} = {}"
  proof -
    have "{d + 32..<d + 32 + (n - 32)} \<subseteq> {d + 32..<d + n}" for d n :: nat by (cases "32 \<le> n") auto
    then have "S \<inter> {32 + ext2fs_group_desc fs g..<32 + ext2fs_group_desc fs g + (EXT2_DESC_SIZE (fs_super fs) - 32)} = {}"
      using that unfolding add.commute [of 32 "ext2fs_group_desc fs g"] by blast
    then show ?thesis using slice_same_except [OF d(4)] by (simp add: desc_rest_def d(1,2))
  qed
qed

lemma group_csum_set_verify:
  assumes ok: "csum_ok fs" "unat g < n_groups fs"
  defines "p \<equiv> ext2fs_group_desc fs g + 30"
  shows "\<exists>fs'. ext2fs_group_desc_csum_set fs g = Some fs' \<and> ext2fs_group_desc_csum_verify fs' g = Some (True, fs') \<and> only_descs {p..<p + 2} fs fs'"
proof (cases "ext2fs_has_group_desc_csum fs")
  case True
  define crc where "crc = desc_crc (fs_super fs) (fs_csum_seed fs) g (desc_head fs g) (desc_rest fs g)"
  have "p + 2 \<le> length (fs_group_desc fs)" using csum_okD [OF ok] by (simp add: p_def)
  then obtain fs' where f: "put_field16 fs p crc = Some fs'" "only_descs {p..<p + 2} fs fs'" "rd16 (fs_group_desc fs') p = Some crc"
    by (rule put_field16_spec)
  note c = only_descs_csum [OF f(2)] and d = only_descsD [OF f(2)]
  have "desc_head fs' g = desc_head fs g" "desc_rest fs' g = desc_rest fs g" by (rule c(4,5); auto simp: p_def)+
  then have "ext2fs_group_desc_csum fs' g = Some (crc, fs')"
    using group_csum_value [of fs' g] ok c(1,2) d(1,3) by (simp add: crc_def)
  then show ?thesis
    using True f c(3) d(2) group_csum_value [OF ok, folded crc_def]
    by (simp add: ext2fs_group_desc_csum_set_def ext2fs_group_desc_csum_verify_def ext2fs_bg_checksum_def ext2fs_bg_checksum_set_def p_def)
qed (simp add: ext2fs_group_desc_csum_set_def ext2fs_group_desc_csum_verify_def only_descs_refl)

lemma bitmap_csum_set_verify:
  assumes ok: "descs_ok fs" "unat g < n_groups fs" and hi: "s_desc_size (fs_super fs) \<ge> of_nat (hi + 2) \<longrightarrow> ext2fs_has_feature_64bit (fs_super fs)"
    and off: "lo + 2 \<le> 30" "32 \<le> hi" "hi + 2 \<le> 64" and len: "nbytes \<le> length bitmap"
  defines "p \<equiv> ext2fs_group_desc fs g"
  shows "\<exists>fs'. bitmap_csum_set lo hi fs g bitmap nbytes = Some (0, fs') \<and> bitmap_csum_verify lo hi fs' g bitmap nbytes = Some True \<and>
    only_descs ({p + lo..<p + lo + 2} \<union> (if ext2fs_has_feature_64bit (fs_super fs) then {p + hi..<p + hi + 2} else {})) fs fs'"
proof (cases "ext2fs_has_feature_metadata_csum (fs_super fs)")
  case True
  let ?big = "s_desc_size (fs_super fs) \<ge> of_nat (hi + 2)"
  define crc where "crc = crc_of (fs_csum_seed fs) (take nbytes bitmap)"
  note l = group_desc_offset(2) [OF ok, folded p_def]
  have "p + lo + 2 \<le> length (fs_group_desc fs)" using l off(1) by (simp split: if_splits)
  then obtain fs1 where f1: "put_field16 fs (p + lo) (ucast crc) = Some fs1" "only_descs {p + lo..<p + lo + 2} fs fs1"
      "rd16 (fs_group_desc fs1) (p + lo) = Some (ucast crc)"
    by (rule put_field16_spec)
  note d1 = only_descsD [OF f1(2)]
  show ?thesis
  proof (cases ?big)
    case big: True
    then have "p + hi + 2 \<le> length (fs_group_desc fs1)" using l hi off(3) d1(4) by (simp add: same_except_def)
    then obtain fs2 where f2: "put_field16 fs1 (p + hi) (ucast (drop_bit 16 crc)) = Some fs2" "only_descs {p + hi..<p + hi + 2} fs1 fs2"
        "rd16 (fs_group_desc fs2) (p + hi) = Some (ucast (drop_bit 16 crc))"
      by (rule put_field16_spec)
    note d2 = only_descsD [OF f2(2)]
    have "rd16 (fs_group_desc fs2) (p + lo) = Some (ucast crc)" using rd16_frame [OF d2(4), of "p + lo"] f1(3) off by auto
    moreover have o: "only_descs ({p + lo..<p + lo + 2} \<union> (if ext2fs_has_feature_64bit (fs_super fs) then {p + hi..<p + hi + 2} else {})) fs fs2"
      using f1(2) f2(2) same_except_trans big hi unfolding only_descs_def by fastforce
    moreover have "fs_csum_seed fs2 = fs_csum_seed fs" using o by (auto simp: only_descs_def)
    ultimately show ?thesis
      using True big f1 f2 d1 d2 len join_split_32 [of crc]
      by (intro exI [of _ fs2]) (simp add: bitmap_csum_set_def bitmap_csum_verify_def Let_def crc_def p_def)
  next
    case small: False
    have "only_descs ({p + lo..<p + lo + 2} \<union> (if ext2fs_has_feature_64bit (fs_super fs) then {p + hi..<p + hi + 2} else {})) fs fs1"
      using f1(2) unfolding only_descs_def by (auto intro: same_except_mono)
    moreover have "fs_csum_seed fs1 = fs_csum_seed fs" using f1(2) by (auto simp: only_descs_def)
    ultimately show ?thesis
      using True small f1 d1 len low_half_32 [of crc]
      by (intro exI [of _ fs1]) (simp add: bitmap_csum_set_def bitmap_csum_verify_def Let_def crc_def p_def mask_eq_exp_minus_1)
  qed
qed (auto simp: bitmap_csum_set_def bitmap_csum_verify_def Let_def only_descs_refl)

lemma bitmap_csum_frame:
  assumes ok: "descs_ok fs" "unat g < n_groups fs" "unat g' < n_groups fs" and lh: "lo = 24 \<and> hi = 56 \<or> lo = 26 \<and> hi = 58"
  defines "p \<equiv> ext2fs_group_desc fs g" and "b \<equiv> ext2fs_has_feature_64bit (fs_super fs)"
  assumes o: "only_descs ({p + lo..<p + lo + 2} \<union> (if b then {p + hi..<p + hi + 2} else {})) fs fs'"
  shows "bg_get f fs' g' = bg_get f fs g'"
proof (rule bg_get_frame [OF o, folded b_def])
  let ?S = "{p + lo..<p + lo + 2} \<union> (if b then {p + hi..<p + hi + 2} else {})"
  show "?S \<inter> foot b f (ext2fs_group_desc fs g') = {}"
  proof (cases "g = g'")
    case True
    show ?thesis unfolding True [symmetric] p_def [symmetric] using lh
      by (elim disjE conjE; cases f; cases b) (simp_all add: foot_def Int_Un_distrib Int_Un_distrib2)
  next
    case False
    have "?S \<subseteq> {p..<p + (if b then 64 else 32)}" using lh by (cases b) auto
    then show ?thesis
      using desc_windows_disjoint [OF ok False, folded b_def p_def] foot_bounds [of b f "ext2fs_group_desc fs g'"] by blast
  qed
qed

lemma group_csum_frame:
  assumes ok: "descs_ok fs" "unat g < n_groups fs" "unat g' < n_groups fs" and "(f, g') \<noteq> (Checksum, g)"
  defines "p \<equiv> ext2fs_group_desc fs g + 30"
  assumes o: "only_descs {p..<p + 2} fs fs'"
  shows "bg_get f fs' g' = bg_get f fs g'"
proof (rule bg_get_frame [OF o])
  let ?b = "ext2fs_has_feature_64bit (fs_super fs)"
  have s: "{p..<p + 2} = foot ?b Checksum (ext2fs_group_desc fs g)" by (simp add: foot_def p_def)
  show "{p..<p + 2} \<inter> foot ?b f (ext2fs_group_desc fs g') = {}"
    unfolding s using assms(4) foot_disjoint [of Checksum f ?b "ext2fs_group_desc fs g"] foot_other_group [OF ok, of Checksum f]
    by (cases "g = g'") auto
qed

section \<open>Properties\<close>

text \<open>C38. Checksums inside a block. For the multi-mount block, a copy of the superblock, an extended attribute block, an extent block whose
  inode can be read, and an inode: setting the checksum succeeds, stays inside the array, changes no byte but those of the checksum
  field, and the verification then accepts the result and leaves it as it is.\<close>

theorem block_csum_set_verify:
  "(length mmp = 1024 \<longrightarrow> (\<exists>mmp'. ext2fs_mmp_csum_set fs mmp = Some (0, mmp') \<and> ext2fs_mmp_csum_verify fs mmp' = Some True \<and>
      same_except {1020..<1024} mmp mmp')) \<and>
   (length sb = 1024 \<longrightarrow> (\<exists>sb'. ext2fs_superblock_csum_set fs sb = Some (0, sb') \<and> ext2fs_superblock_csum_verify fs sb' = Some True \<and>
      same_except {1020..<1024} sb sb')) \<and>
   (20 \<le> length hdr \<and> unat (fs_blocksize fs) \<le> length hdr \<longrightarrow>
      (\<exists>hdr'. ext2fs_ext_attr_block_csum_set fs block hdr = Some (0, hdr') \<and>
         ext2fs_ext_attr_block_csum_verify fs block hdr' = Some (True, hdr') \<and> same_except {16..<20} hdr hdr')) \<and>
   (ri inum = Inr gen \<and> rd16 eh 4 = Some eh_max \<and> 12 + 12 * unat eh_max + 4 \<le> length eh \<longrightarrow>
      (\<exists>eh'. ext2fs_extent_block_csum_set ri fs inum eh = Some (0, eh') \<and> ext2fs_extent_block_csum_verify ri fs inum eh' = Some True \<and>
         same_except {12 + 12 * unat eh_max..<12 + 12 * unat eh_max + 4} eh eh')) \<and>
   (128 \<le> length inode \<and> EXT2_INODE_SIZE (fs_super fs) \<le> length inode \<and> (EXT2_INODE_SIZE (fs_super fs) > 128 \<longrightarrow> 132 \<le> length inode) \<longrightarrow>
      (\<exists>inode'. ext2fs_inode_csum_set fs inum inode = Some (0, inode') \<and> ext2fs_inode_csum_verify fs inum inode' = Some (True, inode') \<and>
         same_except ({124..<126} \<union> {130..<132}) inode inode'))"
  using mmp_set_verify [of mmp fs] superblock_set_verify [of sb fs] xattr_set_verify [of hdr fs block] extent_set_verify [of eh eh_max ri inum gen fs]
    inode_set_verify [of inode fs inum, unfolded csum_cells_def]
  by (intro conjI impI) (blast, blast, blast, blast, simp)

definition csum_fs :: ext2_filsys where
  "csum_fs = small_fs\<lparr>fs_super := small_super\<lparr>s_feature_ro_compat := 0x410, s_rev_level := 1, s_inode_size := 256\<rparr>\<rparr>"

lemma csum_fs_ok: "csum_ok csum_fs" "n_groups csum_fs = 3" "ext2fs_has_feature_64bit (fs_super csum_fs)"
  by (simp_all add: csum_ok_def descs_ok_def desc_stride_def csum_fs_def small_fs_def small_super_def n_groups_def EXT2_DESC_SIZE_def
      ext2fs_has_feature_64bit_def)

theorem block_csum_set_verify_witness:
  "(\<exists>mmp'. ext2fs_mmp_csum_set csum_fs (replicate 1024 1) = Some (0, mmp') \<and> ext2fs_mmp_csum_verify csum_fs mmp' = Some True \<and>
      same_except {1020..<1024} (replicate 1024 1) mmp') \<and>
   (\<exists>inode'. ext2fs_inode_csum_set csum_fs 12 (replicate 256 9) = Some (0, inode') \<and>
      ext2fs_inode_csum_verify csum_fs 12 inode' = Some (True, inode') \<and> same_except ({124..<126} \<union> {130..<132}) (replicate 256 9) inode')"
  using block_csum_set_verify [of "replicate 1024 1" csum_fs "[]" "[]" 0 "\<lambda>_. Inr 0" 12 0 "[]" 0 "replicate 256 9"]
  by (simp add: EXT2_INODE_SIZE_def csum_fs_def)

text \<open>C39. Checksums of directory blocks, on a file system with the metadata checksum feature and a block of its block size, of an inode that
  can be read. For a leaf block, whose entries fill it up to the checksum entry at its end, setting the checksum succeeds, stores the
  CRC of the inode number, the generation and the bytes before the checksum entry in the last four bytes, changes no other byte, and
  the verification accepts the block and leaves it as it is. For an index block, inner node or root, with a limit and a count that fit the
  block, the same holds with the CRC of the used entries and of the checksum entry with its field cleared, stored behind the entries the
  limit allows. Every other block is refused and kept, and is not verified, unless checksum errors are ignored.\<close>

theorem dir_csum_set_verify:
  assumes "1024 \<le> unat (fs_blocksize fs)" "length dirent = unat (fs_blocksize fs)" "ext2fs_has_feature_metadata_csum (fs_super fs)"
    "ri inum = Inr gen"
  shows "(leaf_block fs dirent \<longrightarrow>
      (\<exists>dirent'. ext2fs_dir_block_csum_set ri fs inum dirent = Some (0, dirent') \<and>
         ext2fs_dir_block_csum_verify ri fs inum dirent' = Some (True, dirent') \<and>
         same_except {unat (fs_blocksize fs) - 4..<unat (fs_blocksize fs)} dirent dirent' \<and>
         rd32 dirent' (unat (fs_blocksize fs) - 4) = Some (dx_crc fs inum gen (take (unat (fs_blocksize fs) - 12) dirent)))) \<and>
    (\<forall>off limit count. index_block fs dirent off limit count \<longrightarrow>
      (\<exists>cleared dirent'. ext2fs_dir_block_csum_set ri fs inum dirent = Some (0, dirent') \<and>
         ext2fs_dir_block_csum_verify ri fs inum dirent' = Some (True, dirent') \<and>
         same_except {off + 8 * unat limit + 4..<off + 8 * unat limit + 8} dirent dirent' \<and>
         wr32 dirent (off + 8 * unat limit + 4) 0 = Some cleared \<and>
         rd32 dirent' (off + 8 * unat limit + 4) =
           Some (dx_crc fs inum gen (take (off + unat count * 8) cleared @ take 8 (drop (off + 8 * unat limit) cleared))))) \<and>
    (\<not> leaf_block fs dirent \<and> (\<nexists>off limit count. index_block fs dirent off limit count) \<and> fs_flags fs AND 0x200000 = 0 \<longrightarrow>
      ext2fs_dir_block_csum_set ri fs inum dirent = Some (EXT2_ET_DIR_NO_SPACE_FOR_CSUM, dirent) \<and>
      ext2fs_dir_block_csum_verify ri fs inum dirent = Some (False, dirent))"
  using leaf_set_verify [of fs dirent ri inum gen, OF assms(1-3) _ assms(4)]
    index_set_verify [of fs dirent _ _ _ ri inum gen, OF assms(1-3) _ assms(4)] dir_refused [OF assms(1-3), of ri inum]
  by (intro conjI allI impI) blast+

text \<open>A leaf block with one unused entry and the checksum entry, an inner node with the limit 3 and the count 2, and a block of zeros.\<close>

definition leaf_example :: "u8 list" where
  "leaf_example = [0, 0, 0, 0, 0xF4, 3] @ replicate 1006 0 @ [0, 0, 0, 0, 12, 0, 0, 0xDE, 0, 0, 0, 0]"

definition index_example :: "u8 list" where
  "index_example = [0, 0, 0, 0, 0, 4, 0, 0, 3, 0, 2, 0] @ replicate 1012 0"

lemma leaf_example_ok: "length leaf_example = 1024" "leaf_block csum_fs leaf_example"
proof -
  show "length leaf_example = 1024" by (simp add: leaf_example_def)
  have bs: "unat (fs_blocksize csum_fs) = 1024" by (simp add: csum_fs_def small_fs_def)
  have "entries_fill leaf_example 0 [0x3F4] 1012" by (simp add: leaf_example_def rd16_def rd_def)
  then have "\<exists>lens. entries_fill leaf_example 0 lens 1012" by blast
  then show "leaf_block csum_fs leaf_example"
    unfolding leaf_block_def bs Let_def by (simp add: leaf_example_def rd32_def rd16_def rd_def nth_append)
qed

lemma index_example_ok: "length index_example = 1024" "index_block csum_fs index_example 8 3 2"
proof -
  show "length index_example = 1024" by (simp add: index_example_def)
  have bs: "unat (fs_blocksize csum_fs) = 1024" by (simp add: csum_fs_def small_fs_def)
  show "index_block csum_fs index_example 8 3 2"
    unfolding index_block_def bs Let_def by (simp add: index_example_def rd16_def rd_def nth_append)
qed

theorem dir_csum_set_verify_witness:
  "(\<exists>dirent'. ext2fs_dir_block_csum_set (\<lambda>_. Inr 4) csum_fs 12 leaf_example = Some (0, dirent') \<and>
     ext2fs_dir_block_csum_verify (\<lambda>_. Inr 4) csum_fs 12 dirent' = Some (True, dirent') \<and> same_except {1020..<1024} leaf_example dirent') \<and>
   (\<exists>dirent'. ext2fs_dir_block_csum_set (\<lambda>_. Inr 4) csum_fs 12 index_example = Some (0, dirent') \<and>
     ext2fs_dir_block_csum_verify (\<lambda>_. Inr 4) csum_fs 12 dirent' = Some (True, dirent') \<and> same_except {36..<40} index_example dirent')"
proof -
  have bs: "unat (fs_blocksize csum_fs) = 1024" by (simp add: csum_fs_def small_fs_def)
  have f: "ext2fs_has_feature_metadata_csum (fs_super csum_fs)" by (simp add: csum_fs_def ext2fs_has_feature_metadata_csum_def small_super_def)
  have b: "1024 \<le> unat (fs_blocksize csum_fs)" "length leaf_example = unat (fs_blocksize csum_fs)"
    "length index_example = unat (fs_blocksize csum_fs)" using bs leaf_example_ok(1) index_example_ok(1) by simp_all
  note leaf = dir_csum_set_verify [OF b(1,2) f, of "\<lambda>_. Inr 4" 12 4, OF refl, THEN conjunct1, THEN mp, OF leaf_example_ok(2)]
  note index = dir_csum_set_verify [OF b(1,3) f, of "\<lambda>_. Inr 4" 12 4, OF refl, THEN conjunct2, THEN conjunct1, rule_format, OF index_example_ok(2)]
  have "(1024 :: nat) - 4 = 1020" "8 + 8 * unat (3 :: u16) + 4 = 36" "8 + 8 * unat (3 :: u16) + 8 = 40" by simp_all
  then show ?thesis using leaf index unfolding bs by (intro conjI) (metis, metis)
qed

text \<open>C40. Checksums in a group descriptor. Setting the checksum of a descriptor, with either algorithm, or that of a block or inode bitmap,
  stays inside the array of descriptors; the verification then accepts it; and every other field of the descriptor and of the
  other descriptors keeps its value.\<close>

theorem group_desc_csum_set_verify:
  assumes "csum_ok fs" "unat g < n_groups fs" "nbytes \<le> length bitmap" "s_desc_size (fs_super fs) \<ge> 58 \<longrightarrow> ext2fs_has_feature_64bit (fs_super fs)"
  shows "(\<exists>fs'. ext2fs_group_desc_csum_set fs g = Some fs' \<and> ext2fs_group_desc_csum_verify fs' g = Some (True, fs') \<and>
           (\<forall>f g'. unat g' < n_groups fs \<and> (f, g') \<noteq> (Checksum, g) \<longrightarrow> bg_get f fs' g' = bg_get f fs g')) \<and>
         (\<exists>fs'. ext2fs_block_bitmap_csum_set fs g bitmap nbytes = Some (0, fs') \<and> ext2fs_block_bitmap_csum_verify fs' g bitmap nbytes = Some True \<and>
           (\<forall>f g'. unat g' < n_groups fs \<longrightarrow> bg_get f fs' g' = bg_get f fs g')) \<and>
         (\<exists>fs'. ext2fs_inode_bitmap_csum_set fs g bitmap nbytes = Some (0, fs') \<and> ext2fs_inode_bitmap_csum_verify fs' g bitmap nbytes = Some True \<and>
           (\<forall>f g'. unat g' < n_groups fs \<longrightarrow> bg_get f fs' g' = bg_get f fs g'))"
proof -
  have ok: "descs_ok fs" using assms(1) by (simp add: csum_ok_def)
  have h: "of_nat (56 + 2) \<le> s_desc_size (fs_super fs) \<longrightarrow> ext2fs_has_feature_64bit (fs_super fs)"
    "of_nat (58 + 2) \<le> s_desc_size (fs_super fs) \<longrightarrow> ext2fs_has_feature_64bit (fs_super fs)"
    using assms(4) by (auto simp: word_le_nat_alt)
  show ?thesis
    unfolding ext2fs_block_bitmap_csum_set_def ext2fs_block_bitmap_csum_verify_def ext2fs_inode_bitmap_csum_set_def ext2fs_inode_bitmap_csum_verify_def
    using group_csum_set_verify [OF assms(1,2)] group_csum_frame [OF ok assms(2)]
      bitmap_csum_set_verify [OF ok assms(2) h(1) _ _ _ assms(3), of 24] bitmap_csum_frame [OF ok assms(2), of _ 24 56]
      bitmap_csum_set_verify [OF ok assms(2) h(2) _ _ _ assms(3), of 26] bitmap_csum_frame [OF ok assms(2), of _ 26 58]
    by (intro conjI) (blast, simp, meson, simp, meson)
qed

theorem group_desc_csum_set_verify_witness:
  "\<exists>fs'. ext2fs_group_desc_csum_set csum_fs 2 = Some fs' \<and> ext2fs_group_desc_csum_verify fs' 2 = Some (True, fs')"
  using group_desc_csum_set_verify [of csum_fs 2 1 "[3]"] by (auto simp: csum_fs_ok)

end
