(* ===== verification/Desc_Change.thy ===== *)
theory Desc_Change
  imports Csum_Correct
begin

unbundle bit_operations_syntax

text \<open>
  Changes of one group descriptor. The functions that allocate set a count, clear a flag and renew the checksum; each is a change of a
  few fields of one group, and such changes compose. Every other field of the group, every field of another group and the validity of the
  checksums of the other groups stay as they were.
\<close>

section \<open>Fields as numbers of 64 bits\<close>

lemma ucast_up_inj: "inj (ucast :: u16 \<Rightarrow> w64)" "inj (ucast :: u32 \<Rightarrow> w64)"
  by (rule inj_on_inverseI [where g = ucast], rule bit_word_eqI, simp add: bit_simps)+

lemma map_ucast_eq:
  "map_option (ucast :: u16 \<Rightarrow> w64) a = map_option ucast b \<longleftrightarrow> a = b"
  "map_option (ucast :: u32 \<Rightarrow> w64) c = map_option ucast d \<longleftrightarrow> c = d"
  using option.inj_map [OF ucast_up_inj(1)] option.inj_map [OF ucast_up_inj(2)] by (auto dest: injD)

lemma bg_get_eqD:
  "bg_get Flags fs g = bg_get Flags fs' g' \<Longrightarrow> ext2fs_bg_flags fs g = ext2fs_bg_flags fs' g'"
  "bg_get Checksum fs g = bg_get Checksum fs' g' \<Longrightarrow> ext2fs_bg_checksum fs g = ext2fs_bg_checksum fs' g'"
  "bg_get Free_Blocks fs g = bg_get Free_Blocks fs' g' \<Longrightarrow> ext2fs_bg_free_blocks_count fs g = ext2fs_bg_free_blocks_count fs' g'"
  "bg_get Free_Inodes fs g = bg_get Free_Inodes fs' g' \<Longrightarrow> ext2fs_bg_free_inodes_count fs g = ext2fs_bg_free_inodes_count fs' g'"
  "bg_get Used_Dirs fs g = bg_get Used_Dirs fs' g' \<Longrightarrow> ext2fs_bg_used_dirs_count fs g = ext2fs_bg_used_dirs_count fs' g'"
  "bg_get Itable_Unused fs g = bg_get Itable_Unused fs' g' \<Longrightarrow> ext2fs_bg_itable_unused fs g = ext2fs_bg_itable_unused fs' g'"
  by (simp_all only: bg_get.simps map_ucast_eq)

section \<open>Changes\<close>

definition desc_change :: "u32 \<Rightarrow> bg_field set \<Rightarrow> ext2_filsys \<Rightarrow> ext2_filsys \<Rightarrow> bool" where
  "desc_change g F fs fs' \<longleftrightarrow>
     only_descs {ext2fs_group_desc fs g..<ext2fs_group_desc fs g + EXT2_DESC_SIZE (fs_super fs)} fs fs' \<and>
     (\<forall>f. f \<notin> F \<longrightarrow> bg_get f fs' g = bg_get f fs g)"

definition csum_valid :: "ext2_filsys \<Rightarrow> u32 \<Rightarrow> bool" where
  "csum_valid fs g \<longleftrightarrow> ext2fs_group_desc_csum_verify fs g = Some (True, fs)"

lemma desc_change_refl: "desc_change g F fs fs"
  by (simp add: desc_change_def only_descs_refl)

lemma desc_changeD:
  assumes "desc_change g F fs fs'"
  shows "fs_super fs' = fs_super fs" "n_groups fs' = n_groups fs" "csum_ok fs' = csum_ok fs" "fs_flags fs' = fs_flags fs"
    "ext2fs_has_group_desc_csum fs' = ext2fs_has_group_desc_csum fs" "ext2_filsys.fs_group_desc_count fs' = ext2_filsys.fs_group_desc_count fs"
    "ext2_filsys.fs_cluster_ratio_bits fs' = ext2_filsys.fs_cluster_ratio_bits fs" "fs_csum_seed fs' = fs_csum_seed fs"
    "geometry_ok fs' = geometry_ok fs" "f \<notin> F \<Longrightarrow> bg_get f fs' g = bg_get f fs g"
    "first_data fs' = first_data fs" "per_group fs' = per_group fs" "n_blocks fs' = n_blocks fs"
proof -
  have o: "only_descs {ext2fs_group_desc fs g..<ext2fs_group_desc fs g + EXT2_DESC_SIZE (fs_super fs)} fs fs'"
    using assms by (simp add: desc_change_def)
  obtain m where m: "fs' = fs\<lparr>fs_group_desc := m\<rparr>" using o by (auto simp: only_descs_def)
  show "fs_super fs' = fs_super fs" "n_groups fs' = n_groups fs" "csum_ok fs' = csum_ok fs"
    "ext2fs_has_group_desc_csum fs' = ext2fs_has_group_desc_csum fs" "fs_csum_seed fs' = fs_csum_seed fs"
    using only_descsD [OF o] only_descs_csum [OF o] by simp_all
  show "fs_flags fs' = fs_flags fs" "ext2_filsys.fs_group_desc_count fs' = ext2_filsys.fs_group_desc_count fs"
    "ext2_filsys.fs_cluster_ratio_bits fs' = ext2_filsys.fs_cluster_ratio_bits fs"
    "first_data fs' = first_data fs" "per_group fs' = per_group fs" "n_blocks fs' = n_blocks fs" "geometry_ok fs' = geometry_ok fs"
    by (simp_all add: m first_data_def per_group_def n_blocks_def geometry_ok_def n_groups_def)
  show "f \<notin> F \<Longrightarrow> bg_get f fs' g = bg_get f fs g" using assms by (simp add: desc_change_def)
qed

lemma desc_change_trans:
  assumes "desc_change g F fs fs1" "desc_change g G fs1 fs2"
  shows "desc_change g (F \<union> G) fs fs2"
proof -
  have o: "only_descs {ext2fs_group_desc fs g..<ext2fs_group_desc fs g + EXT2_DESC_SIZE (fs_super fs)} fs fs1"
    using assms(1) by (simp add: desc_change_def)
  show ?thesis
    using assms only_descsD(1,2) [OF o] by (auto simp: desc_change_def only_descs_def same_except_def)
qed

lemma desc_change_mono: "desc_change g F fs fs' \<Longrightarrow> F \<subseteq> G \<Longrightarrow> desc_change g G fs fs'"
  by (auto simp: desc_change_def)

lemma window_disjoint:
  assumes "csum_ok fs" "unat g < n_groups fs" "unat g' < n_groups fs" "g' \<noteq> g"
  shows "{ext2fs_group_desc fs g..<ext2fs_group_desc fs g + EXT2_DESC_SIZE (fs_super fs)} \<inter>
         {ext2fs_group_desc fs g'..<ext2fs_group_desc fs g' + EXT2_DESC_SIZE (fs_super fs)} = {}"
proof -
  let ?d = "EXT2_DESC_SIZE (fs_super fs)"
  have ok: "descs_ok fs" and st: "desc_stride fs = ?d" using assms(1) by (simp_all add: csum_ok_def desc_stride_def)
  have "unat g < unat g' \<or> unat g' < unat g" using assms(4) by (metis linorder_neqE_nat word_unat_eq_iff)
  then have "unat g * ?d + ?d \<le> unat g' * ?d \<or> unat g' * ?d + ?d \<le> unat g * ?d"
    by (metis Suc_leI add.commute mult_Suc mult_le_mono1)
  then show ?thesis using group_desc_offset(1) [OF ok assms(2)] group_desc_offset(1) [OF ok assms(3)] st by auto
qed

lemma foot_in_window:
  assumes "csum_ok fs" "unat g < n_groups fs"
  shows "foot (ext2fs_has_feature_64bit (fs_super fs)) f (ext2fs_group_desc fs g) \<subseteq>
         {ext2fs_group_desc fs g..<ext2fs_group_desc fs g + EXT2_DESC_SIZE (fs_super fs)}"
proof -
  have "(if ext2fs_has_feature_64bit (fs_super fs) then 64 else 32) \<le> EXT2_DESC_SIZE (fs_super fs)"
    using assms(1) unfolding csum_ok_def descs_ok_def desc_stride_def by (metis diff_zero)
  then show ?thesis using foot_bounds [of "ext2fs_has_feature_64bit (fs_super fs)" f "ext2fs_group_desc fs g"] by (auto split: if_splits)
qed

lemma csum_valid_iff:
  assumes "csum_ok fs" "unat g < n_groups fs"
  shows "csum_valid fs g \<longleftrightarrow>
    (ext2fs_has_group_desc_csum fs \<longrightarrow>
       ext2fs_bg_checksum fs g = Some (desc_crc (fs_super fs) (fs_csum_seed fs) g (desc_head fs g) (desc_rest fs g)))"
  using group_csum_value [OF assms] by (auto simp: csum_valid_def ext2fs_group_desc_csum_verify_def bind_eq_Some_conv)

lemma desc_change_other:
  assumes ok: "csum_ok fs" "unat g < n_groups fs" "unat g' < n_groups fs" "g' \<noteq> g" and "desc_change g F fs fs'"
  shows "bg_get f fs' g' = bg_get f fs g'" "csum_valid fs' g' = csum_valid fs g'"
proof -
  let ?w = "\<lambda>g. {ext2fs_group_desc fs g..<ext2fs_group_desc fs g + EXT2_DESC_SIZE (fs_super fs)}"
  have o: "only_descs (?w g) fs fs'" using assms(5) by (simp add: desc_change_def)
  note w = window_disjoint [OF ok] and c = only_descs_csum [OF o] and d = only_descsD [OF o]
  have b: "bg_get f fs' g' = bg_get f fs g'" for f
    by (rule bg_get_frame [OF o]) (use w foot_in_window [OF ok(1,3), of f] in blast)
  then show "bg_get f fs' g' = bg_get f fs g'" .
  have sub: "{ext2fs_group_desc fs g'..<ext2fs_group_desc fs g' + 30} \<subseteq> ?w g'"
    "{ext2fs_group_desc fs g' + 32..<ext2fs_group_desc fs g' + EXT2_DESC_SIZE (fs_super fs)} \<subseteq> ?w g'"
    using csum_okD(2) [OF ok(1,3)] by auto
  have h: "desc_head fs' g' = desc_head fs g'" by (rule c(4)) (use w sub in blast)
  have r: "desc_rest fs' g' = desc_rest fs g'" by (rule c(5)) (use w sub in blast)
  have k: "ext2fs_bg_checksum fs' g' = ext2fs_bg_checksum fs g'" by (rule bg_get_eqD) (rule b)
  show "csum_valid fs' g' = csum_valid fs g'"
    using csum_valid_iff [OF ok(1,3)] csum_valid_iff [of fs' g'] ok c(1-3) d(1,3) h r k by simp
qed

section \<open>The operations\<close>

lemma desc_change_foot:
  assumes ok: "csum_ok fs" "unat g < n_groups fs" and o: "only_descs (foot (ext2fs_has_feature_64bit (fs_super fs)) f (ext2fs_group_desc fs g)) fs fs'"
  shows "desc_change g {f} fs fs'"
proof -
  have "bg_get f' fs' g = bg_get f' fs g" if "f' \<noteq> f" for f'
    by (rule bg_get_frame [OF o]) (use that foot_disjoint [of f f'] in auto)
  moreover have "only_descs {ext2fs_group_desc fs g..<ext2fs_group_desc fs g + EXT2_DESC_SIZE (fs_super fs)} fs fs'"
    using o same_except_mono foot_in_window [OF ok, of f] unfolding only_descs_def by blast
  ultimately show ?thesis by (simp add: desc_change_def)
qed

lemma bg_set_change:
  assumes ok: "csum_ok fs" "unat g < n_groups fs"
  shows "\<exists>fs'. bg_set f fs g v = Some fs' \<and> bg_get f fs' g = Some (v AND mask (bg_bits (ext2fs_has_feature_64bit (fs_super fs)) f)) \<and>
           desc_change g {f} fs fs'"
proof -
  have "descs_ok fs" using ok(1) by (simp add: csum_ok_def)
  from bg_set_spec [OF this ok(2)] show ?thesis using desc_change_foot [OF ok] by blast
qed

lemma flags_field: "foot b Flags p = {p + 18..<p + 18 + 2}"
  by (simp add: foot_def)

lemma flags_update:
  assumes ok: "csum_ok fs" "unat g < n_groups fs"
  shows "\<exists>old. ext2fs_bg_flags fs g = Some old \<and>
    (\<exists>fs'. ext2fs_bg_flags_clear fs g w = Some fs' \<and> ext2fs_bg_flags fs' g = Some (old AND NOT w) \<and> desc_change g {Flags} fs fs') \<and>
    (\<exists>fs'. ext2fs_bg_flags_set fs g w = Some fs' \<and> ext2fs_bg_flags fs' g = Some (old OR w) \<and> desc_change g {Flags} fs fs') \<and>
    ext2fs_bg_flags_test fs g w = Some (old AND w)"
proof -
  let ?p = "ext2fs_group_desc fs g + 18"
  have l: "?p + 2 \<le> length (fs_group_desc fs)" using csum_okD [OF ok] by simp
  then obtain old where old: "rd16 (fs_group_desc fs) ?p = Some old" by (auto simp: rd16_def rd_def)
  have "\<exists>fs'. put_field16 fs ?p v = Some fs' \<and> ext2fs_bg_flags fs' g = Some v \<and> desc_change g {Flags} fs fs'" for v
  proof -
    obtain fs' where f: "put_field16 fs ?p v = Some fs'" "only_descs {?p..<?p + 2} fs fs'" "rd16 (fs_group_desc fs') ?p = Some v"
      using put_field16_spec [OF l] by blast
    then show ?thesis
      using only_descsD(2) [OF f(2)] desc_change_foot [OF ok, of Flags fs'] by (simp add: flags_field ext2fs_bg_flags_def)
  qed
  then show ?thesis
    using old by (simp add: ext2fs_bg_flags_def ext2fs_bg_flags_clear_def ext2fs_bg_flags_set_def ext2fs_bg_flags_test_def Let_def)
qed

lemma csum_set_change:
  assumes ok: "csum_ok fs" "unat g < n_groups fs"
  shows "\<exists>fs'. ext2fs_group_desc_csum_set fs g = Some fs' \<and> csum_valid fs' g \<and> desc_change g {Checksum} fs fs'"
proof -
  have f: "foot b Checksum p = {p + 30..<p + 30 + 2}" for b p by (simp add: foot_def)
  show ?thesis using group_csum_set_verify [OF ok] desc_change_foot [OF ok, of Checksum] unfolding f csum_valid_def by blast
qed

section \<open>Changes of the superblock\<close>

text \<open>Counts in the superblock and the flags of the handle have no part in a checksum.\<close>

definition csum_base :: "ext2_super_block \<Rightarrow> u8 list \<times> u16 \<times> u32 \<times> u32" where
  "csum_base sb = (s_uuid sb, s_desc_size sb, s_feature_incompat sb, s_feature_ro_compat sb)"

lemma super_change:
  fixes x
  assumes "csum_base sb = csum_base (fs_super fs)"
  defines "fs' \<equiv> fs\<lparr>fs_super := sb, fs_flags := x\<rparr>"
  shows "bg_get f fs' g = bg_get f fs g" "csum_ok fs' = csum_ok fs" "n_groups fs' = n_groups fs"
    "ext2fs_has_group_desc_csum fs' = ext2fs_has_group_desc_csum fs"
    "csum_ok fs \<Longrightarrow> unat g < n_groups fs \<Longrightarrow> csum_valid fs' g = csum_valid fs g"
proof -
  have b: "s_uuid sb = s_uuid (fs_super fs)" "s_desc_size sb = s_desc_size (fs_super fs)" "s_feature_incompat sb = s_feature_incompat (fs_super fs)"
    "s_feature_ro_compat sb = s_feature_ro_compat (fs_super fs)" using assms(1) by (simp_all add: csum_base_def)
  have e: "ext2fs_has_feature_64bit sb = ext2fs_has_feature_64bit (fs_super fs)" "EXT2_DESC_SIZE sb = EXT2_DESC_SIZE (fs_super fs)"
    "ext2fs_has_feature_metadata_csum sb = ext2fs_has_feature_metadata_csum (fs_super fs)"
    "ext2fs_has_feature_gdt_csum sb = ext2fs_has_feature_gdt_csum (fs_super fs)"
    by (simp_all add: ext2fs_has_feature_64bit_def EXT2_DESC_SIZE_def ext2fs_has_feature_metadata_csum_def ext2fs_has_feature_gdt_csum_def b)
  have d: "ext2fs_group_desc fs' = ext2fs_group_desc fs" by (simp add: fs'_def ext2fs_group_desc_def fun_eq_iff e)
  have t: "fs_group_desc fs' = fs_group_desc fs" "fs_super fs' = sb" "fs_csum_seed fs' = fs_csum_seed fs" by (simp_all add: fs'_def)
  show "bg_get f fs' g = bg_get f fs g" by (cases f) (simp_all add: bg_defs get_halves32_def get_halves16_def Let_def d e t)
  show n: "n_groups fs' = n_groups fs" by (simp add: fs'_def n_groups_def)
  show ok: "csum_ok fs' = csum_ok fs"
    by (simp add: csum_ok_def descs_ok_def desc_stride_def n t e b)
  show h: "ext2fs_has_group_desc_csum fs' = ext2fs_has_group_desc_csum fs" by (simp add: ext2fs_has_group_desc_csum_def e t)
  show "csum_valid fs' g = csum_valid fs g" if "csum_ok fs" "unat g < n_groups fs"
  proof -
    have "desc_head fs' g = desc_head fs g" "desc_rest fs' g = desc_rest fs g"
      by (simp_all add: desc_head_def desc_rest_def d e t)
    moreover have "ext2fs_bg_checksum fs' g = ext2fs_bg_checksum fs g" by (simp add: ext2fs_bg_checksum_def d t)
    moreover have "desc_crc (fs_super fs') (fs_csum_seed fs') = desc_crc (fs_super fs) (fs_csum_seed fs)"
      by (simp add: desc_crc_def fun_eq_iff e b t)
    ultimately show ?thesis using csum_valid_iff [OF that] csum_valid_iff [of fs' g] that ok n h by simp
  qed
qed

end
