(* ===== verification/Alloc_Correct.thy ===== *)
theory Alloc_Correct
  imports Alloc Gen_Bitmap64_Correct Desc_Change
begin

unbundle bit_operations_syntax

text \<open>
  Correctness of the allocation of single blocks: the search finds the first free block from the goal on, going round at the end of the file
  system, and the statistics keep the free counts of the groups and of the superblock equal to what the bitmap says, and the checksums of all
  descriptors valid. A sequence of allocations and releases then implements an abstract allocator on a set of clusters.
\<close>

section \<open>Changes of a file system by allocation\<close>

text \<open>Fields of one descriptor, the free counts of the superblock, and the flags of the handle.\<close>

definition fs_change :: "u32 \<Rightarrow> bg_field set \<Rightarrow> ext2_filsys \<Rightarrow> ext2_filsys \<Rightarrow> bool" where
  "fs_change g F fs fs' \<longleftrightarrow>
     (\<exists>fs1 a b c x. desc_change g F fs fs1 \<and>
        fs' = fs1\<lparr>fs_super := (fs_super fs1)\<lparr>s_free_blocks_count := a, s_free_blocks_hi := b, s_free_inodes_count := c\<rparr>, fs_flags := x\<rparr>)"

lemma fs_change_desc: "desc_change g F fs fs' \<Longrightarrow> fs_change g F fs (fs'\<lparr>fs_flags := x\<rparr>)"
  unfolding fs_change_def
  by (rule exI [of _ fs'], rule exI [of _ "s_free_blocks_count (fs_super fs')"], rule exI [of _ "s_free_blocks_hi (fs_super fs')"],
      rule exI [of _ "s_free_inodes_count (fs_super fs')"]) auto

lemma fs_change_refl: "fs_change g F fs fs"
  using fs_change_desc [OF desc_change_refl, of g F fs "fs_flags fs"] by simp

text \<open>A file system on which blocks can be allocated: groups are made of whole clusters, and the counts fit their fields.\<close>

definition ratio :: "ext2_filsys \<Rightarrow> nat" where "ratio fs = 2 ^ ext2_filsys.fs_cluster_ratio_bits fs"

definition alloc_ok :: "ext2_filsys \<Rightarrow> bool" where
  "alloc_ok fs \<longleftrightarrow>
     geometry_ok fs \<and> csum_ok fs \<and> ext2_filsys.fs_cluster_ratio_bits fs < 31 \<and>
     ratio fs dvd first_data fs \<and> ratio fs dvd per_group fs \<and> per_group fs div ratio fs < 2 ^ 16 \<and>
     n_blocks fs + ratio fs \<le> (if ext2fs_has_feature_64bit (fs_super fs) then 2 ^ 64 else 2 ^ 32)"

lemma free_count_layout [simp]:
  "ext2fs_blocks_count (sb\<lparr>s_free_blocks_count := a, s_free_blocks_hi := b, s_free_inodes_count := c\<rparr>) = ext2fs_blocks_count sb"
  "ext2fs_has_feature_64bit (sb\<lparr>s_free_blocks_count := a, s_free_blocks_hi := b, s_free_inodes_count := c\<rparr>) = ext2fs_has_feature_64bit sb"
  "csum_base (sb\<lparr>s_free_blocks_count := a, s_free_blocks_hi := b, s_free_inodes_count := c\<rparr>) = csum_base sb"
  by (simp_all add: ext2fs_blocks_count_def ext2fs_has_feature_64bit_def csum_base_def)

lemma fs_changeD:
  assumes "fs_change g F fs fs'"
  shows "n_groups fs' = n_groups fs" "n_blocks fs' = n_blocks fs" "first_data fs' = first_data fs" "per_group fs' = per_group fs"
    "ratio fs' = ratio fs" "alloc_ok fs' = alloc_ok fs" "csum_ok fs' = csum_ok fs"
    "ext2fs_has_group_desc_csum fs' = ext2fs_has_group_desc_csum fs"
    "ext2fs_has_feature_64bit (fs_super fs') = ext2fs_has_feature_64bit (fs_super fs)"
    "f \<notin> F \<Longrightarrow> bg_get f fs' g = bg_get f fs g"
    "csum_ok fs \<Longrightarrow> unat g < n_groups fs \<Longrightarrow> unat g' < n_groups fs \<Longrightarrow> g' \<noteq> g \<Longrightarrow> bg_get f fs' g' = bg_get f fs g'"
    "csum_ok fs \<Longrightarrow> unat g < n_groups fs \<Longrightarrow> unat g' < n_groups fs \<Longrightarrow> g' \<noteq> g \<Longrightarrow> csum_valid fs' g' = csum_valid fs g'"
proof -
  obtain fs1 a b c x where d: "desc_change g F fs fs1"
    and fs': "fs' = fs1\<lparr>fs_super := (fs_super fs1)\<lparr>s_free_blocks_count := a, s_free_blocks_hi := b, s_free_inodes_count := c\<rparr>, fs_flags := x\<rparr>"
    using assms by (auto simp: fs_change_def)
  note dd = desc_changeD [OF d]
  note s = super_change [where sb = "(fs_super fs1)\<lparr>s_free_blocks_count := a, s_free_blocks_hi := b, s_free_inodes_count := c\<rparr>" and fs = fs1 and x = x,
    folded fs', OF free_count_layout(3)]
  have n: "n_blocks fs' = n_blocks fs1" "first_data fs' = first_data fs1" "per_group fs' = per_group fs1" "ratio fs' = ratio fs1"
      "n_groups fs' = n_groups fs1"
    by (simp_all add: fs' n_blocks_def first_data_def per_group_def ratio_def n_groups_def)
  show "n_groups fs' = n_groups fs" "n_blocks fs' = n_blocks fs" "first_data fs' = first_data fs" "per_group fs' = per_group fs"
    "ratio fs' = ratio fs" "csum_ok fs' = csum_ok fs" "ext2fs_has_group_desc_csum fs' = ext2fs_has_group_desc_csum fs"
    using n dd s by (simp_all add: ratio_def)
  show h: "ext2fs_has_feature_64bit (fs_super fs') = ext2fs_has_feature_64bit (fs_super fs)" using dd(1) by (simp add: fs')
  show "alloc_ok fs' = alloc_ok fs"
  proof -
    have "geometry_ok fs' = geometry_ok fs" "csum_ok fs' = csum_ok fs" "ratio fs' = ratio fs" using n dd s by (simp_all add: geometry_ok_def ratio_def)
    moreover have "ext2_filsys.fs_cluster_ratio_bits fs' = ext2_filsys.fs_cluster_ratio_bits fs" using dd by (simp add: fs')
    ultimately show ?thesis using n dd h by (simp add: alloc_ok_def)
  qed
  show "f \<notin> F \<Longrightarrow> bg_get f fs' g = bg_get f fs g" using dd s(1) by simp
  show "csum_ok fs \<Longrightarrow> unat g < n_groups fs \<Longrightarrow> unat g' < n_groups fs \<Longrightarrow> g' \<noteq> g \<Longrightarrow> bg_get f fs' g' = bg_get f fs g'"
    using desc_change_other(1) [OF _ _ _ _ d] s(1) by simp
  show "csum_ok fs \<Longrightarrow> unat g < n_groups fs \<Longrightarrow> unat g' < n_groups fs \<Longrightarrow> g' \<noteq> g \<Longrightarrow> csum_valid fs' g' = csum_valid fs g'"
    using desc_change_other(2) [OF _ _ _ _ d] s(5) dd by simp
qed

section \<open>Clearing the flag of an uninitialised group\<close>

lemma dirty_flags: "\<exists>x. ext2fs_mark_bb_dirty (ext2fs_mark_super_dirty fs) = fs\<lparr>fs_flags := x\<rparr>"
  by (rule exI [of _ "fs_flags fs OR 6 OR 0x22"]) (simp add: ext2fs_mark_bb_dirty_def ext2fs_mark_super_dirty_def or.assoc)

lemma flags_only:
  assumes "csum_ok fs" "unat g < n_groups fs"
  shows "csum_valid (fs\<lparr>fs_flags := x\<rparr>) g = csum_valid fs g" "bg_get f (fs\<lparr>fs_flags := x\<rparr>) g = bg_get f fs g"
  using super_change(1,5) [where sb = "fs_super fs" and fs = fs and x = x, OF refl] assms by simp_all

lemma clear_flag_csum:
  assumes ok: "csum_ok fs" "unat g < n_groups fs"
  shows "\<exists>old fs1 fs2. ext2fs_bg_flags fs g = Some old \<and> ext2fs_bg_flags_clear fs g w = Some fs1 \<and> ext2fs_group_desc_csum_set fs1 g = Some fs2 \<and>
    ext2fs_bg_flags fs2 g = Some (old AND NOT w) \<and> csum_valid fs2 g \<and> desc_change g {Flags, Checksum} fs fs2"
proof -
  obtain old fs1 where 1: "ext2fs_bg_flags fs g = Some old" "ext2fs_bg_flags_clear fs g w = Some fs1" "ext2fs_bg_flags fs1 g = Some (old AND NOT w)"
      "desc_change g {Flags} fs fs1"
    using flags_update [OF ok, of w] by blast
  have ok1: "csum_ok fs1" "unat g < n_groups fs1" using desc_changeD(2,3) [OF 1(4)] ok by simp_all
  obtain fs2 where 2: "ext2fs_group_desc_csum_set fs1 g = Some fs2" "csum_valid fs2 g" "desc_change g {Checksum} fs1 fs2"
    using csum_set_change [OF ok1] by blast
  have "bg_get Flags fs2 g = bg_get Flags fs1 g" by (rule desc_changeD(10) [OF 2(3)]) simp
  then have "ext2fs_bg_flags fs2 g = Some (old AND NOT w)" by (rule trans [OF bg_get_eqD(1) 1(3)])
  moreover have "desc_change g {Flags, Checksum} fs fs2" using desc_change_trans [OF 1(4) 2(3)] by (simp add: insert_commute)
  ultimately show ?thesis using 1 2 by blast
qed

lemma clear_block_uninit_spec:
  assumes ok: "csum_ok fs" "unat g < n_groups fs"
  shows "\<exists>fs'. ext2fs_clear_block_uninit fs g = Some fs' \<and> fs_change g {Flags, Checksum} fs fs' \<and>
    ext2fs_free_blocks_count (fs_super fs') = ext2fs_free_blocks_count (fs_super fs) \<and>
    (csum_valid fs g \<longrightarrow> csum_valid fs' g) \<and>
    (ext2fs_has_group_desc_csum fs \<longrightarrow> ext2fs_bg_flags_test fs' g 2 = Some 0)"
proof -
  have lt: "\<not> g \<ge> ext2_filsys.fs_group_desc_count fs" using ok(2) by (simp add: n_groups_def word_less_nat_alt not_le)
  obtain old fs1 fs2 where c: "ext2fs_bg_flags fs g = Some old" "ext2fs_bg_flags_clear fs g 2 = Some fs1" "ext2fs_group_desc_csum_set fs1 g = Some fs2"
      "ext2fs_bg_flags fs2 g = Some (old AND NOT 2)" "csum_valid fs2 g" "desc_change g {Flags, Checksum} fs fs2"
    using clear_flag_csum [OF ok] by blast
  have t: "ext2fs_bg_flags_test fs g 2 = Some (old AND 2)" using flags_update [OF ok, of 2] c(1) by auto
  show ?thesis
  proof (cases "ext2fs_has_group_desc_csum fs \<and> old AND 2 \<noteq> 0")
    case True
    obtain x where x: "ext2fs_mark_bb_dirty (ext2fs_mark_super_dirty fs2) = fs2\<lparr>fs_flags := x\<rparr>" using dirty_flags by blast
    have r: "ext2fs_clear_block_uninit fs g = Some (fs2\<lparr>fs_flags := x\<rparr>)" using True lt t c x by (simp add: ext2fs_clear_block_uninit_def)
    have ok2: "csum_ok fs2" "unat g < n_groups fs2" using desc_changeD(2,3) [OF c(6)] ok by simp_all
    have "ext2fs_bg_flags (fs2\<lparr>fs_flags := x\<rparr>) g = Some (old AND NOT 2)"
      unfolding bg_get_eqD(1) [OF flags_only(2) [OF ok2]] by (rule c(4))
    then have "ext2fs_bg_flags_test (fs2\<lparr>fs_flags := x\<rparr>) g 2 = Some 0" by (simp add: ext2fs_bg_flags_test_def ext2fs_bg_flags_def and.assoc)
    then show ?thesis
      using r fs_change_desc [OF c(6), of x] flags_only(1) [OF ok2] c(5) desc_changeD(1) [OF c(6)] by auto
  next
    case False
    then have "ext2fs_clear_block_uninit fs g = Some fs" using lt t by (auto simp: ext2fs_clear_block_uninit_def)
    then show ?thesis using fs_change_refl False t by auto
  qed
qed

section \<open>The search\<close>

lemma unat_align: "unat (b AND NOT (mask k)) = unat b div 2 ^ k * 2 ^ k" for b :: w64
proof -
  have "b - take_bit k b = b AND NOT (take_bit k b)" by (rule disjunctive_diff) (simp add: bit_take_bit_iff)
  moreover have "b AND NOT (take_bit k b) = b AND NOT (mask k)" by (rule bit_word_eqI) (auto simp: bit_simps)
  ultimately have "b AND NOT (mask k) = b - take_bit k b" by simp
  moreover have "take_bit k b \<le> b" by (simp add: word_le_nat_alt unsigned_take_bit_eq take_bit_nat_less_eq_self)
  ultimately have "unat (b AND NOT (mask k)) = unat b - unat b mod 2 ^ k"
    by (simp add: unat_sub unsigned_take_bit_eq) (simp add: take_bit_eq_mod)
  then show ?thesis by (simp add: minus_mod_eq_div_mult)
qed

lemma unat_eqD: "unat x = n \<Longrightarrow> x = of_nat n" for x :: "'a::len word"
  by auto

text \<open>The block bitmap of a file system: one bit for each cluster.\<close>

definition block_map_ok :: "ext2_filsys \<Rightarrow> bmap64 \<Rightarrow> bool" where
  "block_map_ok fs b \<longleftrightarrow>
     bm_inv b \<and> EXT2FS_IS_64_BITMAP (bm_magic b) \<and> bm_cluster_bits b = ext2_filsys.fs_cluster_ratio_bits fs \<and>
     bm_start b = first_data fs div ratio fs \<and> bm_end b = (n_blocks fs - 1) div ratio fs \<and> bm_set b \<noteq> {}"

definition aligned_goal :: "ext2_filsys \<Rightarrow> w64 \<Rightarrow> nat" where
  "aligned_goal fs goal = (if goal = 0 \<or> n_blocks fs \<le> unat goal then first_data fs else unat goal) div ratio fs * ratio fs"

definition blocks_from :: "ext2_filsys \<Rightarrow> w64 \<Rightarrow> nat list" where
  "blocks_from fs goal = [aligned_goal fs goal..<n_blocks fs] @ [first_data fs..<aligned_goal fs goal]"

lemma find_append: "find P (xs @ ys) = (case find P xs of None \<Rightarrow> find P ys | Some x \<Rightarrow> Some x)"
  by (induction xs) auto

lemma find_upt_first_in:
  assumes "first_in P s e r" "s \<le> e"
  shows "find P [s..<Suc e] = (case r of Inl _ \<Rightarrow> None | Inr n \<Rightarrow> Some n)"
proof (cases r)
  case (Inl c)
  then show ?thesis using assms by (auto simp: first_in_Inl find_None_iff simp del: upt_Suc)
next
  case (Inr n)
  then have n: "s \<le> n" "n \<le> e" "P n" "\<forall>k. s \<le> k \<and> k < n \<longrightarrow> \<not> P k" using assms by (auto simp: first_in_Inr)
  have "[s..<Suc e] ! (n - s) = n" "n - s < length [s..<Suc e]" using n by (simp_all del: upt_Suc)
  moreover have "\<forall>j < n - s. \<not> P ([s..<Suc e] ! j)" using n by (auto simp del: upt_Suc)
  ultimately show ?thesis unfolding Inr sum.case find_Some_iff using n(3) by (intro exI [of _ "n - s"]) simp
qed

lemma alloc_okD:
  assumes "alloc_ok fs"
  shows "geometry_ok fs" "csum_ok fs" "ext2_filsys.fs_cluster_ratio_bits fs < 31" "0 < ratio fs" "first_data fs < n_blocks fs" "n_blocks fs < 2 ^ 64"
    "first_data fs div ratio fs * ratio fs = first_data fs"
  using assms geometryD(4) [of fs] by (auto simp: alloc_ok_def geometry_ok_def ratio_def)

lemma aligned_goal_bounds:
  assumes "alloc_ok fs" "goal = 0 \<or> first_data fs \<le> unat goal"
  shows "first_data fs \<le> aligned_goal fs goal" "aligned_goal fs goal < n_blocks fs"
proof -
  note a = alloc_okD [OF assms(1)]
  define k where "k = (if goal = 0 \<or> n_blocks fs \<le> unat goal then first_data fs else unat goal)"
  have k: "first_data fs \<le> k" "k < n_blocks fs" using assms(2) a(5) by (auto simp: k_def)
  have "first_data fs div ratio fs * ratio fs \<le> k div ratio fs * ratio fs" using k(1) by (intro mult_le_mono1 div_le_mono)
  then show "first_data fs \<le> aligned_goal fs goal" using a(7) by (simp add: aligned_goal_def k_def)
  have "k div ratio fs * ratio fs \<le> k" by simp
  then show "aligned_goal fs goal < n_blocks fs" using k(2) unfolding aligned_goal_def k_def [symmetric] by (rule le_less_trans)
qed

text \<open>Searches between two blocks of the file system.\<close>

lemma map_find:
  assumes ok: "alloc_ok fs" "block_map_ok fs b" and r: "first_data fs \<le> s" "s \<le> e" "e < n_blocks fs"
  shows "\<exists>r. ext2fs_find_first_zero_generic_bmap (bmap_ops env) (Some (B64 b)) s e = Some r \<and> first_in (\<lambda>k. k div ratio fs \<notin> bm_set b) s e r"
    "\<exists>r. ext2fs_find_first_set_generic_bmap (bmap_ops env) (Some (B64 b)) s e = Some r \<and> first_in (\<lambda>k. k div ratio fs \<in> bm_set b) s e r"
proof -
  have b: "bm_inv b" "EXT2FS_IS_64_BITMAP (bm_magic b)" "bm_set b \<noteq> {}" "bm_cluster_bits b = ext2_filsys.fs_cluster_ratio_bits fs"
    "bm_start b = first_data fs div ratio fs" "bm_end b = (n_blocks fs - 1) div ratio fs" using ok(2) by (simp_all add: block_map_ok_def)
  have cl: "cluster_of (view b) k = k div ratio fs" for k by (simp add: cluster_of_def ratio_def b(4))
  have "accepts (view b) (cluster_of (view b) k)" if "first_data fs \<le> k" "k \<le> n_blocks fs - 1" for k
    using that unfolding cl by (simp add: accepts_def b(5,6) div_le_mono)
  from this [of s] this [of e] have acc: "accepts (view b) (cluster_of (view b) s)" "accepts (view b) (cluster_of (view b) e)" using r by simp_all
  have e: "e < W64" using r(3) alloc_okD(6) [OF ok(1)] by simp
  show "\<exists>r. ext2fs_find_first_zero_generic_bmap (bmap_ops env) (Some (B64 b)) s e = Some r \<and> first_in (\<lambda>k. k div ratio fs \<notin> bm_set b) s e r"
    using bm.gen_find_zero [OF b(1,2) e b(3), of env s] acc r(2) by (simp add: cl)
  show "\<exists>r. ext2fs_find_first_set_generic_bmap (bmap_ops env) (Some (B64 b)) s e = Some r \<and> first_in (\<lambda>k. k div ratio fs \<in> bm_set b) s e r"
    using bm.gen_find_set [OF b(1,2) e, of env s] acc r(2) by (simp add: cl)
qed

lemma search_block_spec:
  assumes ok: "alloc_ok fs" "block_map_ok fs b" and goal: "goal = 0 \<or> first_data fs \<le> unat goal"
  shows "search_block (bmap_ops env) fs (Some (B64 b)) goal =
    Some (case find (\<lambda>k. k div ratio fs \<notin> bm_set b) (blocks_from fs goal) of None \<Rightarrow> Inl ENOENT | Some k \<Rightarrow> Inr (of_nat k))"
proof -
  note a = alloc_okD [OF ok(1)]
  let ?g = "aligned_goal fs goal" and ?free = "\<lambda>k. k div ratio fs \<notin> bm_set b"
  note g = aligned_goal_bounds [OF ok(1) goal]
  note find = map_find(1) [OF ok]
  let ?goal1 = "if goal = 0 \<or> goal \<ge> ext2fs_blocks_count (fs_super fs) then ucast (s_first_data_block (fs_super fs)) else goal"
  have al: "align_down (ext2_filsys.fs_cluster_ratio_bits fs) ?goal1 = Some (of_nat ?g)"
  proof -
    have "unat (?goal1 AND NOT (mask (ext2_filsys.fs_cluster_ratio_bits fs))) = ?g"
      by (simp add: unat_align aligned_goal_def ratio_def first_data_def n_blocks_def word_le_nat_alt)
    then have "?goal1 AND NOT (mask (ext2_filsys.fs_cluster_ratio_bits fs)) = of_nat ?g" by (rule unat_eqD)
    then show ?thesis using a(3) by (simp add: align_down_def)
  qed
  have ug: "unat (of_nat ?g :: w64) = ?g" using g a(6) by (simp add: unat_of_nat)
  have last: "unat (ext2fs_blocks_count (fs_super fs) - 1) = n_blocks fs - 1"
    using a(5) by (simp add: n_blocks_def unat_sub word_le_nat_alt)
  have fd: "unat (ucast (s_first_data_block (fs_super fs)) :: w64) = first_data fs" by (simp add: first_data_def)
  have ne: "of_nat ?g \<noteq> (ucast (s_first_data_block (fs_super fs)) :: w64) \<longleftrightarrow> ?g \<noteq> first_data fs"
    using ug fd by (metis unat_eqD)
  obtain r1 where r1: "ext2fs_find_first_zero_generic_bmap (bmap_ops env) (Some (B64 b)) ?g (n_blocks fs - 1) = Some r1" "first_in ?free ?g (n_blocks fs - 1) r1"
    using find [of ?g "n_blocks fs - 1"] g by fastforce
  have f1: "find ?free [?g..<n_blocks fs] = (case r1 of Inl _ \<Rightarrow> None | Inr n \<Rightarrow> Some n)"
    using find_upt_first_in [OF r1(2)] g by simp
  have sb: "search_block (bmap_ops env) fs (Some (B64 b)) goal =
    do { retval2 \<leftarrow> (if r1 = Inl ENOENT \<and> ?g \<noteq> first_data fs
                     then ext2fs_find_first_zero_generic_bmap (bmap_ops env) (Some (B64 b)) (first_data fs) (unat (of_nat ?g - 1 :: w64)) else Some r1);
         Some (map_sum id of_nat retval2) }"
    unfolding search_block_def Let_def al by (auto simp: ug last r1(1) first_data_def [symmetric] ne simp del: One_nat_def)
  show ?thesis
  proof (cases r1)
    case (Inr n)
    then show ?thesis by (simp add: sb blocks_from_def find_append f1)
  next
    case (Inl c)
    then have c: "c = ENOENT" using r1(2) by (simp add: first_in_Inl)
    show ?thesis
    proof (cases "?g = first_data fs")
      case True
      then show ?thesis using Inl c f1 by (simp add: sb blocks_from_def)
    next
      case False
      then have lt: "first_data fs \<le> ?g - 1" "?g - 1 < n_blocks fs" "0 < ?g" using g by auto
      obtain r2 where r2: "ext2fs_find_first_zero_generic_bmap (bmap_ops env) (Some (B64 b)) (first_data fs) (?g - 1) = Some r2"
          "first_in ?free (first_data fs) (?g - 1) r2"
        using find [OF le_refl lt(1,2)] by blast
      have u: "unat (of_nat ?g - 1 :: w64) = ?g - 1" using ug lt(3) by (simp add: unat_sub word_le_nat_alt)
      have f2: "find ?free [first_data fs..<?g] = (case r2 of Inl _ \<Rightarrow> None | Inr n \<Rightarrow> Some n)"
        using find_upt_first_in [OF r2(2) lt(1)] lt(3) by simp
      have "r2 = Inl ENOENT \<or> (\<exists>n. r2 = Inr n)" using r2(2) by (cases r2) (auto simp: first_in_Inl)
      then show ?thesis using Inl c False r2(1) by (auto simp: sb u blocks_from_def find_append f1 f2)
    qed
  qed
qed

section \<open>Free counts\<close>

definition all_clusters :: "ext2_filsys \<Rightarrow> nat set" where
  "all_clusters fs = (\<lambda>k. k div ratio fs) ` {first_data fs..<n_blocks fs}"

definition group_clusters :: "ext2_filsys \<Rightarrow> nat \<Rightarrow> nat set" where
  "group_clusters fs g = (\<lambda>k. k div ratio fs) ` {k \<in> {first_data fs..<n_blocks fs}. (k - first_data fs) div per_group fs = g}"

definition counts_ok :: "ext2_filsys \<Rightarrow> nat set \<Rightarrow> bool" where
  "counts_ok fs used \<longleftrightarrow>
     (\<forall>g. unat g < n_groups fs \<longrightarrow>
        ext2fs_bg_free_blocks_count fs g = Some (of_nat (card (group_clusters fs (unat g) - used)))) \<and>
     ext2fs_free_blocks_count (fs_super fs) = of_nat (ratio fs * card (all_clusters fs - used))"

lemma div_minus_mult:
  assumes "0 < (r::nat)" "r * f \<le> k"
  shows "(k - r * f) div r = k div r - f" "f \<le> k div r"
proof -
  obtain j where "k = r * f + j" using assms(2) le_Suc_ex by blast
  then show "(k - r * f) div r = k div r - f" "f \<le> k div r" using assms(1) by simp_all
qed

lemma cluster_group:
  assumes "alloc_ok fs" "first_data fs \<le> k" "first_data fs \<le> k'" "k div ratio fs = k' div ratio fs"
  shows "(k - first_data fs) div per_group fs = (k' - first_data fs) div per_group fs"
proof -
  obtain q where q: "per_group fs = ratio fs * q" using assms(1) by (auto simp: alloc_ok_def)
  obtain f where f: "first_data fs = ratio fs * f" using assms(1) by (auto simp: alloc_ok_def)
  have r: "0 < ratio fs" by (simp add: ratio_def)
  show ?thesis using assms(2-4) unfolding q div_mult2_eq by (simp add: f div_minus_mult(1) [OF r])
qed

lemma cluster_in_group:
  assumes "alloc_ok fs" "first_data fs \<le> k" "k < n_blocks fs"
  shows "k div ratio fs \<in> group_clusters fs g \<longleftrightarrow> g = (k - first_data fs) div per_group fs" "k div ratio fs \<in> all_clusters fs"
proof -
  show "k div ratio fs \<in> all_clusters fs" using assms by (auto simp: all_clusters_def)
  show "k div ratio fs \<in> group_clusters fs g \<longleftrightarrow> g = (k - first_data fs) div per_group fs"
  proof
    assume "k div ratio fs \<in> group_clusters fs g"
    then obtain k' where "first_data fs \<le> k'" "k div ratio fs = k' div ratio fs" "(k' - first_data fs) div per_group fs = g"
      by (auto simp: group_clusters_def)
    then show "g = (k - first_data fs) div per_group fs" using cluster_group [OF assms(1,2)] by metis
  next
    assume "g = (k - first_data fs) div per_group fs"
    then show "k div ratio fs \<in> group_clusters fs g" using assms by (auto simp: group_clusters_def)
  qed
qed

lemma clusters_finite: "finite (group_clusters fs g)" "finite (all_clusters fs)"
  by (simp_all add: group_clusters_def all_clusters_def)

lemma group_clusters_card: 
  assumes "alloc_ok fs"
  shows "card (group_clusters fs g) < 2 ^ 16"
proof -
  obtain q where q: "per_group fs = ratio fs * q" using assms by (auto simp: alloc_ok_def)
  obtain f where f: "first_data fs = ratio fs * f" using assms by (auto simp: alloc_ok_def)
  have r: "0 < ratio fs" by (simp add: ratio_def)
  have pos: "0 < per_group fs" using assms by (simp add: alloc_ok_def geometry_ok_def)
  have "group_clusters fs g \<subseteq> {f + q * g..<f + q * g + q}"
  proof
    fix c assume "c \<in> group_clusters fs g"
    then obtain k where k: "c = k div ratio fs" "first_data fs \<le> k" "(k - first_data fs) div per_group fs = g" by (auto simp: group_clusters_def)
    have "(k - first_data fs) div ratio fs = c - f" "f \<le> c"
      using div_minus_mult [OF r, of f k] k(2) unfolding k(1) f by simp_all
    moreover have "(k - first_data fs) div ratio fs div q = g" using k(3) unfolding q div_mult2_eq .
    ultimately have "(c - f) div q = g" by simp
    then have "q * g \<le> c - f" "c - f < q * g + q" using pos q
      by (metis times_div_less_eq_dividend, metis add.commute dividend_less_times_div mult_0_right nat_0_less_mult_iff)
    then show "c \<in> {f + q * g..<f + q * g + q}" using \<open>f \<le> c\<close> by auto
  qed
  then have "card (group_clusters fs g) \<le> q" using card_mono [of "{f + q * g..<f + q * g + q}"] by simp
  moreover have "per_group fs div ratio fs = q" using r q by simp
  ultimately show ?thesis using assms by (simp add: alloc_ok_def)
qed

lemma all_clusters_card:
  assumes "alloc_ok fs"
  shows "ratio fs * card (all_clusters fs - used) < (if ext2fs_has_feature_64bit (fs_super fs) then 2 ^ 64 else 2 ^ 32)"
proof -
  have r: "0 < ratio fs" by (simp add: ratio_def)
  have n: "0 < n_blocks fs" using alloc_okD(5) [OF assms] by simp
  have "all_clusters fs \<subseteq> {..(n_blocks fs - 1) div ratio fs}" using n by (auto simp: all_clusters_def intro!: div_le_mono)
  then have "card (all_clusters fs - used) \<le> card {..(n_blocks fs - 1) div ratio fs}" by (intro card_mono) auto
  then have "card (all_clusters fs - used) \<le> (n_blocks fs - 1) div ratio fs + 1" by simp
  then have "ratio fs * card (all_clusters fs - used) \<le> ratio fs * ((n_blocks fs - 1) div ratio fs + 1)" by (rule mult_le_mono2)
  also have "\<dots> \<le> n_blocks fs - 1 + ratio fs" using times_div_less_eq_dividend [of "ratio fs" "n_blocks fs - 1"] by simp
  also have "\<dots> < n_blocks fs + ratio fs" using n by simp
  finally show ?thesis using assms by (simp add: alloc_ok_def split: if_splits)
qed

text \<open>Taking or releasing one cluster.\<close>

lemma card_take: "finite A \<Longrightarrow> c \<notin> used \<Longrightarrow> card (A - insert c used) = (if c \<in> A then card (A - used) - 1 else card (A - used))"
proof -
  assume "finite A" "c \<notin> used"
  moreover have "A - insert c used = (A - used) - {c}" by auto
  ultimately show ?thesis by (simp add: card_Diff_singleton_if)
qed

lemma card_take_pos: "finite A \<Longrightarrow> c \<notin> used \<Longrightarrow> c \<in> A \<Longrightarrow> 0 < card (A - used)"
  by (auto simp: card_gt_0_iff)

lemma card_release: "finite A \<Longrightarrow> c \<in> used \<Longrightarrow> card (A - (used - {c})) = (if c \<in> A then card (A - used) + 1 else card (A - used))"
proof -
  assume f: "finite A" "c \<in> used"
  show ?thesis
  proof (cases "c \<in> A")
    case True
    have "A - (used - {c}) = insert c (A - used)" using f True by auto
    then show ?thesis using f True by simp
  next
    case False
    then have "A - (used - {c}) = A - used" by auto
    then show ?thesis using False by simp
  qed
qed

section \<open>States of the allocator\<close>

definition block_state_ok :: "priv handle \<Rightarrow> nat set \<Rightarrow> bool" where
  "block_state_ok h used \<longleftrightarrow>
     h_magic h = EXT2_ET_MAGIC_EXT2FS_FILSYS \<and> h_get_alloc_block2 h = None \<and> h_get_alloc_block h = None \<and> h_block_alloc_stats h = None \<and>
     alloc_ok (h_fs h) \<and> (\<exists>b. h_block_map h = Some (B64 b) \<and> block_map_ok (h_fs h) b \<and> bm_set b = used) \<and>
     counts_ok (h_fs h) used \<and> (\<forall>g. unat g < n_groups (h_fs h) \<longrightarrow> csum_valid (h_fs h) g)"

definition same_layout :: "ext2_filsys \<Rightarrow> ext2_filsys \<Rightarrow> bool" where
  "same_layout fs fs' \<longleftrightarrow>
     n_blocks fs' = n_blocks fs \<and> first_data fs' = first_data fs \<and> per_group fs' = per_group fs \<and> ratio fs' = ratio fs \<and> n_groups fs' = n_groups fs"

lemma fs_change_layout: "fs_change g F fs fs' \<Longrightarrow> same_layout fs fs'"
  by (simp add: same_layout_def fs_changeD)

lemma layout_clusters:
  assumes "same_layout fs fs'"
  shows "group_clusters fs' = group_clusters fs" "all_clusters fs' = all_clusters fs" "blocks_from fs' = blocks_from fs"
  using assms by (simp_all add: same_layout_def group_clusters_def all_clusters_def blocks_from_def aligned_goal_def fun_eq_iff)

lemma block_map_ok_frame:
  assumes "block_map_ok fs b" "same_frame b b'" "bm_inv b'" "bm_set b' \<noteq> {}" "same_layout fs fs'"
    "ext2_filsys.fs_cluster_ratio_bits fs' = ext2_filsys.fs_cluster_ratio_bits fs"
  shows "block_map_ok fs' b'"
  using assms by (simp add: block_map_ok_def same_layout_def same_frame_sel)

lemma fs_change_bits: "fs_change g F fs fs' \<Longrightarrow> ext2_filsys.fs_cluster_ratio_bits fs' = ext2_filsys.fs_cluster_ratio_bits fs"
  using fs_changeD(5) [of g F fs fs'] by (simp add: ratio_def)

text \<open>Setting a count that fits 16 bits.\<close>

lemma ucast_down_up [simp]: "(ucast (ucast w :: w64) :: u32) = w" for w :: u32
  by (rule bit_word_eqI) (simp add: bit_simps)

lemma count_set_change:
  fixes w :: u32
  assumes ok: "csum_ok fs" "unat g < n_groups fs" and f: "f \<in> {Free_Blocks, Free_Inodes, Used_Dirs, Itable_Unused}" and w: "unat w < 2 ^ 16"
  shows "\<exists>fs'. bg_set f fs g (ucast w) = Some fs' \<and> bg_get f fs' g = Some (ucast w) \<and> desc_change g {f} fs fs'"
proof -
  have "(ucast w :: w64) AND mask n = ucast w" if "16 \<le> n" for n
  proof -
    have "unat w < 2 ^ n" using w that by (meson less_le_trans one_le_numeral power_increasing)
    then have "take_bit n (ucast w :: w64) = ucast w" by (simp add: word_unat_eq_iff unsigned_take_bit_eq take_bit_nat_eq_self_iff)
    then show ?thesis by (simp add: take_bit_eq_mask)
  qed
  moreover have "16 \<le> bg_bits b f" for b using f by (cases f) auto
  ultimately show ?thesis using bg_set_change [OF ok, of f "ucast w"] by simp
qed

text \<open>The new descriptor of a group: another free count, the flag cleared, and a checksum that fits.\<close>

lemma stats_desc:
  assumes ok: "csum_ok fs" "unat g < n_groups fs" and w: "unat w < 2 ^ 16"
  shows "\<exists>fs1 fs2 fs3. ext2fs_bg_free_blocks_count_set fs g w = Some fs1 \<and> ext2fs_bg_flags_clear fs1 g v = Some fs2 \<and>
    ext2fs_group_desc_csum_set fs2 g = Some fs3 \<and> ext2fs_bg_free_blocks_count fs3 g = Some w \<and> csum_valid fs3 g \<and>
    (\<exists>x. ext2fs_bg_flags fs3 g = Some (x AND NOT v)) \<and> desc_change g {Free_Blocks, Flags, Checksum} fs fs3"
proof -
  obtain fs1 where 1: "bg_set Free_Blocks fs g (ucast w) = Some fs1" "bg_get Free_Blocks fs1 g = Some (ucast w)" "desc_change g {Free_Blocks} fs fs1"
    using count_set_change [OF ok _ w, of Free_Blocks] by auto
  have ok1: "csum_ok fs1" "unat g < n_groups fs1" using desc_changeD(2,3) [OF 1(3)] ok by simp_all
  obtain old fs2 fs3 where 2: "ext2fs_bg_flags fs1 g = Some old" "ext2fs_bg_flags_clear fs1 g v = Some fs2" "ext2fs_group_desc_csum_set fs2 g = Some fs3"
      "ext2fs_bg_flags fs3 g = Some (old AND NOT v)" "csum_valid fs3 g" "desc_change g {Flags, Checksum} fs1 fs3"
    using clear_flag_csum [OF ok1] by blast
  have "bg_get Free_Blocks fs3 g = Some (ucast w)" using desc_changeD(10) [OF 2(6), of Free_Blocks] 1(2) by simp
  then have "ext2fs_bg_free_blocks_count fs3 g = Some w" using map_ucast_eq(2) [of "ext2fs_bg_free_blocks_count fs3 g" "Some w"] by simp
  moreover have "desc_change g {Free_Blocks, Flags, Checksum} fs fs3" by (rule desc_change_mono [OF desc_change_trans [OF 1(3) 2(6)]]) auto
  ultimately show ?thesis using 1(1) 2 by auto
qed

lemma free_count_add_layout:
  "\<exists>a b. ext2fs_free_blocks_count_add sb v = sb\<lparr>s_free_blocks_count := a, s_free_blocks_hi := b, s_free_inodes_count := s_free_inodes_count sb\<rparr>"
proof (cases "ext2fs_has_feature_64bit sb")
  case True
  then show ?thesis
    by (intro exI [of _ "ucast (ext2fs_free_blocks_count sb + v)"] exI [of _ "ucast (drop_bit 32 (ext2fs_free_blocks_count sb + v))"])
      (simp add: ext2fs_free_blocks_count_add_def ext2fs_free_blocks_count_set_def Let_def)
next
  case False
  then show ?thesis
    by (intro exI [of _ "ucast (ext2fs_free_blocks_count sb + v)"] exI [of _ "s_free_blocks_hi sb"])
      (simp add: ext2fs_free_blocks_count_add_def ext2fs_free_blocks_count_set_def Let_def)
qed

lemma stored_of_nat:
  assumes "n < (if ext2fs_has_feature_64bit sb then 2 ^ 64 else 2 ^ 32)"
  shows "stored sb (of_nat n) = of_nat n"
proof (cases "ext2fs_has_feature_64bit sb")
  case False
  have "take_bit 32 (of_nat n :: w64) = of_nat n"
    using False assms by (simp add: word_unat_eq_iff unsigned_take_bit_eq unat_of_nat take_bit_nat_eq_self_iff)
  then show ?thesis using False by (simp add: stored_def take_bit_eq_mask)
qed (simp add: stored_def)

section \<open>Steps of the allocator\<close>

lemma block_stats_step:
  assumes ok: "block_state_ok h used" and blk: "first_data (h_fs h) \<le> unat blk" "unat blk < n_blocks (h_fs h)"
  defines "c \<equiv> unat blk div ratio (h_fs h)"
  assumes iu: "(inuse = 1 \<and> c \<notin> used \<and> used' = insert c used) \<or> (inuse = - 1 \<and> c \<in> used \<and> used' = used - {c})" and ne: "used' \<noteq> {}"
  shows "\<exists>h'. ext2fs_block_alloc_stats2 (bmap_ops env) cb h blk inuse = Some h' \<and> block_state_ok h' used' \<and> same_layout (h_fs h) (h_fs h')"
proof -
  let ?fs = "h_fs h"
  have a: "alloc_ok ?fs" using ok by (simp add: block_state_ok_def)
  note ad = alloc_okD [OF a]
  obtain b where b: "h_block_map h = Some (B64 b)" "block_map_ok ?fs b" "bm_set b = used" using ok by (auto simp: block_state_ok_def)
  have bd: "bm_inv b" "EXT2FS_IS_64_BITMAP (bm_magic b)" "bm_cluster_bits b = ext2_filsys.fs_cluster_ratio_bits ?fs"
    "bm_start b = first_data ?fs div ratio ?fs" "bm_end b = (n_blocks ?fs - 1) div ratio ?fs" using b(2) by (simp_all add: block_map_ok_def)
  have cl: "cluster_of (view b) (unat blk) = c" by (simp add: cluster_of_def ratio_def bd(3) c_def)
  have acc: "accepts (view b) c" using blk by (simp add: accepts_def bd(4,5) c_def div_le_mono)
  obtain g where g: "ext2fs_group_of_blk2 ?fs blk = Some g" "unat g = (unat blk - first_data ?fs) div per_group ?fs" "unat g < n_groups ?fs"
    using group_of_blk2_spec [OF ad(1) blk] by blast
  obtain r b' where m: "(if inuse > 0 then ext2fs_mark_generic_bmap (bmap_ops env) (Some (B64 b)) (unat blk)
      else ext2fs_unmark_generic_bmap (bmap_ops env) (Some (B64 b)) (unat blk)) = Some (r, Some (B64 b'))" "bm_inv b'" "same_frame b b'" "bm_set b' = used'"
    using bm.gen_mark [OF bd(1,2), of env "unat blk"] bm.gen_unmark [OF bd(1,2), of env "unat blk"] iu acc b(3) unfolding cl by (elim exE conjE) auto
  let ?n = "\<lambda>u. card (group_clusters ?fs (unat g) - u)" and ?t = "\<lambda>u. ratio ?fs * card (all_clusters ?fs - u)"
  have cnt: "ext2fs_bg_free_blocks_count ?fs g = Some (of_nat (?n used))" "ext2fs_free_blocks_count (fs_super ?fs) = of_nat (?t used)"
    using ok g(3) by (simp_all add: block_state_ok_def counts_ok_def)
  have ing: "c \<in> group_clusters ?fs (unat g)" "c \<in> all_clusters ?fs" "g' \<noteq> g \<Longrightarrow> c \<notin> group_clusters ?fs (unat g')" for g'
    using cluster_in_group [OF a blk] g(2) unfolding c_def by (auto simp: word_unat_eq_iff)
  have card: "card (A - used') = (if c \<in> A then (if inuse = 1 then card (A - used) - 1 else card (A - used) + 1) else card (A - used))"
    "inuse = 1 \<Longrightarrow> c \<in> A \<Longrightarrow> 0 < card (A - used)" if "finite A" for A
    using iu card_take [OF that] card_release [OF that] card_take_pos [OF that] by auto
  have w: "of_nat (?n used) - word_of_int inuse = (of_nat (?n used') :: u32)"
    using card [OF clusters_finite(1), of ?fs "unat g"] ing(1) iu by (auto simp: of_nat_diff)
  have t: "of_nat (?t used) + word_of_int (- inuse) * of_nat (ratio ?fs) = (of_nat (?t used') :: w64)"
    using card [OF clusters_finite(2), of ?fs] ing(2) iu by (auto simp: of_nat_diff algebra_simps)
  have "?n used' < 2 ^ 16" using group_clusters_card [OF a, of "unat g"] card_mono [OF clusters_finite(1), of "group_clusters ?fs (unat g) - used'" ?fs "unat g"]
    by (simp add: le_less_trans)
  then have "unat (of_nat (?n used') :: u32) < 2 ^ 16" by (simp add: unat_of_nat)
  from stats_desc [OF ad(2) g(3) this, of 2]
  obtain fs1 fs2 fs3 where d: "ext2fs_bg_free_blocks_count_set ?fs g (of_nat (?n used')) = Some fs1" "ext2fs_bg_flags_clear fs1 g 2 = Some fs2"
      "ext2fs_group_desc_csum_set fs2 g = Some fs3" "ext2fs_bg_free_blocks_count fs3 g = Some (of_nat (?n used'))" "csum_valid fs3 g"
      "desc_change g {Free_Blocks, Flags, Checksum} ?fs fs3" by blast
  note dd = desc_changeD [OF d(6)]
  define sb where "sb = ext2fs_free_blocks_count_add (fs_super fs3) (word_of_int (- inuse) * of_nat (ratio ?fs))"
  obtain x where x: "ext2fs_mark_bb_dirty (ext2fs_mark_super_dirty (fs3\<lparr>fs_super := sb\<rparr>)) = fs3\<lparr>fs_super := sb, fs_flags := x\<rparr>"
    using dirty_flags by blast
  define fs' where "fs' = fs3\<lparr>fs_super := sb, fs_flags := x\<rparr>"
  have ch: "fs_change g {Free_Blocks, Flags, Checksum} ?fs fs'"
    using d(6) free_count_add_layout [of "fs_super fs3"] unfolding fs_change_def fs'_def sb_def by metis
  note cd = fs_changeD [OF ch] and lay = fs_change_layout [OF ch]
  have "EXT2FS_CLUSTER_RATIO fs3 = Some (ratio ?fs)" using ad(3) dd(7) by (simp add: EXT2FS_CLUSTER_RATIO_def ratio_def)
  moreover have "\<not> blk \<ge> ext2fs_blocks_count (fs_super ?fs)" using blk(2) by (simp add: n_blocks_def word_le_nat_alt)
  moreover have "h_block_alloc_stats h = None" using ok by (simp add: block_state_ok_def)
  ultimately have res: "ext2fs_block_alloc_stats2 (bmap_ops env) cb h blk inuse = Some (h\<lparr>h_block_map := Some (B64 b'), h_fs := fs'\<rparr>)"
    using g(1) m(1) cnt(1) d(1-3) w x unfolding ext2fs_block_alloc_stats2_def Let_def b(1) fs'_def sb_def by simp
  have base: "csum_base sb = csum_base (fs_super fs3)" using free_count_add_layout [of "fs_super fs3"] unfolding sb_def by (metis free_count_layout(3))
  note sc = super_change [where sb = sb and fs = fs3 and x = x, OF base, folded fs'_def]
  have valid: "csum_valid fs' g'" if "unat g' < n_groups ?fs" for g'
  proof (cases "g' = g")
    case True
    then show ?thesis using sc(5) d(5) dd(2,3) ad(2) g(3) by simp
  next
    case False
    then show ?thesis using cd(12) [OF ad(2) g(3) that] ok that by (simp add: block_state_ok_def)
  qed
  have "ext2fs_bg_free_blocks_count fs' g' = Some (of_nat (card (group_clusters ?fs (unat g') - used')))" if "unat g' < n_groups ?fs" for g'
  proof (cases "g' = g")
    case True
    then show ?thesis using bg_get_eqD(3) [OF sc(1)] d(4) by simp
  next
    case False
    have "ext2fs_bg_free_blocks_count fs' g' = ext2fs_bg_free_blocks_count ?fs g'" by (rule bg_get_eqD) (rule cd(11) [OF ad(2) g(3) that False])
    then show ?thesis
      using ok that card(1) [OF clusters_finite(1), of ?fs "unat g'"] ing(3) [OF False] by (simp add: block_state_ok_def counts_ok_def)
  qed
  moreover have "ext2fs_free_blocks_count (fs_super fs') = of_nat (?t used')"
    using t cnt(2) dd(1) stored_of_nat [OF all_clusters_card [OF a]]
    by (simp add: fs'_def sb_def ext2fs_free_blocks_count_add_def free_blocks_count_set_get)
  ultimately have "counts_ok fs' used'" using cd(1,5) by (simp add: counts_ok_def layout_clusters [OF lay])
  moreover have "block_map_ok fs' b'"
    by (rule block_map_ok_frame [OF b(2) m(3,2) _ lay fs_change_bits [OF ch]]) (use m(4) ne in simp)
  ultimately have "block_state_ok (h\<lparr>h_block_map := Some (B64 b'), h_fs := fs'\<rparr>) used'"
    using ok valid cd(1,6) m(4) by (simp add: block_state_ok_def)
  then show ?thesis using res lay by auto
qed

lemma clear_uninit_state:
  assumes ok: "block_state_ok h used" and g: "unat g < n_groups (h_fs h)"
  shows "\<exists>fs'. ext2fs_clear_block_uninit (h_fs h) g = Some fs' \<and> block_state_ok (h\<lparr>h_fs := fs'\<rparr>) used \<and> same_layout (h_fs h) fs'"
proof -
  let ?fs = "h_fs h"
  have a: "alloc_ok ?fs" using ok by (simp add: block_state_ok_def)
  note ad = alloc_okD [OF a]
  obtain b where b: "h_block_map h = Some (B64 b)" "block_map_ok ?fs b" "bm_set b = used" using ok by (auto simp: block_state_ok_def)
  obtain fs' where f: "ext2fs_clear_block_uninit ?fs g = Some fs'" "fs_change g {Flags, Checksum} ?fs fs'"
      "ext2fs_free_blocks_count (fs_super fs') = ext2fs_free_blocks_count (fs_super ?fs)" "csum_valid ?fs g \<longrightarrow> csum_valid fs' g"
    using clear_block_uninit_spec [OF ad(2) g] by (elim exE conjE) (rule that)
  note cd = fs_changeD [OF f(2)] and lay = fs_change_layout [OF f(2)]
  have "csum_valid fs' g'" if "unat g' < n_groups ?fs" for g'
    using cd(12) [OF ad(2) g that] f(4) ok that by (cases "g' = g") (auto simp: block_state_ok_def)
  moreover have fc: "ext2fs_bg_free_blocks_count fs' g' = ext2fs_bg_free_blocks_count ?fs g'" if "unat g' < n_groups ?fs" for g'
    by (rule bg_get_eqD) (use cd(10) [of Free_Blocks] cd(11) [OF ad(2) g that, of Free_Blocks] in \<open>cases "g' = g"; simp\<close>)
  then have "counts_ok fs' used" using ok f(3) cd(1,5) by (simp add: block_state_ok_def counts_ok_def layout_clusters [OF lay])
  moreover have "block_map_ok fs' b"
    by (rule block_map_ok_frame [OF b(2) _ _ _ lay fs_change_bits [OF f(2)]]) (use b(2) in \<open>simp_all add: block_map_ok_def\<close>)
  ultimately have "block_state_ok (h\<lparr>h_fs := fs'\<rparr>) used" using ok b cd(1,6) by (simp add: block_state_ok_def)
  then show ?thesis using f(1) lay by blast
qed

lemma new_block_step:
  assumes ok: "block_state_ok h used" and goal: "goal = 0 \<or> first_data (h_fs h) \<le> unat goal"
  shows "\<exists>h'. ext2fs_new_block3 (bmap_ops env) cb h goal None ctx =
      Some (case find (\<lambda>k. k div ratio (h_fs h) \<notin> used) (blocks_from (h_fs h) goal) of None \<Rightarrow> Inl EXT2_ET_BLOCK_ALLOC_FAIL | Some k \<Rightarrow> Inr (of_nat k), h') \<and>
    block_state_ok h' used \<and> same_layout (h_fs h) (h_fs h') \<and> (\<exists>fs'. h' = h\<lparr>h_fs := fs'\<rparr>)"
proof -
  let ?fs = "h_fs h" and ?find = "find (\<lambda>k. k div ratio (h_fs h) \<notin> used) (blocks_from (h_fs h) goal)"
  have a: "alloc_ok ?fs" using ok by (simp add: block_state_ok_def)
  note ad = alloc_okD [OF a]
  obtain b where b: "h_block_map h = Some (B64 b)" "block_map_ok ?fs b" "bm_set b = used" using ok by (auto simp: block_state_ok_def)
  have nb: "ext2fs_new_block3 (bmap_ops env) cb h goal None ctx =
      new_block_done h (case ?find of None \<Rightarrow> Inl ENOENT | Some k \<Rightarrow> Inr (of_nat k))"
    using ok b search_block_spec [OF a b(2) goal, of env] by (simp add: ext2fs_new_block3_def block_state_ok_def)
  show ?thesis
  proof (cases ?find)
    case None
    then show ?thesis using nb ok by (auto simp: new_block_done_def same_layout_def intro!: exI [of _ h] exI [of _ ?fs])
  next
    case (Some k)
    then have "k \<in> set (blocks_from ?fs goal)" by (auto simp: find_Some_iff in_set_conv_nth)
    then have k: "first_data ?fs \<le> k" "k < n_blocks ?fs" using aligned_goal_bounds [OF a goal] by (auto simp: blocks_from_def)
    have u: "unat (of_nat k :: w64) = k" using k(2) ad(6) by (simp add: unat_of_nat)
    obtain g where g: "ext2fs_group_of_blk2 ?fs (of_nat k) = Some g" "unat g < n_groups ?fs"
      using group_of_blk2_spec [OF ad(1), of "of_nat k", unfolded u, OF k] by blast
    obtain fs' where f: "ext2fs_clear_block_uninit ?fs g = Some fs'" "block_state_ok (h\<lparr>h_fs := fs'\<rparr>) used" "same_layout ?fs fs'"
      using clear_uninit_state [OF ok g(2)] by blast
    then show ?thesis using nb Some g by (auto simp: new_block_done_def)
  qed
qed

end
