(* ===== verification/Alloc_Session.thy ===== *)
theory Alloc_Session
  imports Alloc_Correct
begin

unbundle bit_operations_syntax

text \<open>
  Sequences of allocations and releases of blocks, \<^verbatim>\<open>ext2fs_alloc_block3\<close> and \<^verbatim>\<open>ext2fs_block_alloc_stats2\<close>, against an
  abstract allocator: a set of clusters in use, from which the first free block in the order of \<open>blocks_from\<close> is taken.
\<close>

section \<open>Calls and their specification\<close>

text \<open>An allocation writes zeros to its block; the device answers each write with 0 or any error code, which is part of the call.\<close>

datatype alloc_call = New w64 "w64 \<Rightarrow> errcode" | Release w64

definition exec_call ::
  "bm_env \<Rightarrow> priv callbacks \<Rightarrow> (priv handle \<Rightarrow> errcode \<times> priv handle) \<Rightarrow> alloc_call \<Rightarrow> priv handle \<Rightarrow>
   ((errcode + w64) \<times> priv handle) option" where
  "exec_call env cb rb call h =
     (case call of
        New goal device \<Rightarrow> ext2fs_alloc_block3 (bmap_ops env) cb rb (\<lambda>_. device) h goal None
      | Release blk \<Rightarrow> map_option (Pair (Inr blk)) (ext2fs_block_alloc_stats2 (bmap_ops env) cb h blk (- 1)))"

fun exec_calls ::
  "bm_env \<Rightarrow> priv callbacks \<Rightarrow> (priv handle \<Rightarrow> errcode \<times> priv handle) \<Rightarrow> alloc_call list \<Rightarrow> priv handle \<Rightarrow>
   ((errcode + w64) list \<times> priv handle) option" where
  "exec_calls env cb rb [] h = Some ([], h)"
| "exec_calls env cb rb (c # cs) h =
     do { (r, h1) \<leftarrow> exec_call env cb rb c h; (rs, h2) \<leftarrow> exec_calls env cb rb cs h1; Some (r # rs, h2) }"

fun spec_call :: "ext2_filsys \<Rightarrow> alloc_call \<Rightarrow> nat set \<Rightarrow> (errcode + w64) \<times> nat set" where
  "spec_call fs (New goal device) used =
     (case find (\<lambda>k. k div ratio fs \<notin> used) (blocks_from fs goal) of
        None \<Rightarrow> (Inl EXT2_ET_BLOCK_ALLOC_FAIL, used)
      | Some k \<Rightarrow>
          if device (of_nat k) \<noteq> 0 then (Inl (device (of_nat k)), used) else (Inr (of_nat k), insert (k div ratio fs) used))"
| "spec_call fs (Release blk) used = (Inr blk, used - {unat blk div ratio fs})"

fun spec_calls :: "ext2_filsys \<Rightarrow> alloc_call list \<Rightarrow> nat set \<Rightarrow> (errcode + w64) list \<times> nat set" where
  "spec_calls fs [] used = ([], used)"
| "spec_calls fs (c # cs) used =
     (let (r, used1) = spec_call fs c used; (rs, used2) = spec_calls fs cs used1 in (r # rs, used2))"

text \<open>A goal is 0 or not before the first data block; a released block is in use and not the last one in use.\<close>

fun call_ok :: "ext2_filsys \<Rightarrow> alloc_call \<Rightarrow> nat set \<Rightarrow> bool" where
  "call_ok fs (New goal device) used \<longleftrightarrow> goal = 0 \<or> first_data fs \<le> unat goal"
| "call_ok fs (Release blk) used \<longleftrightarrow>
     first_data fs \<le> unat blk \<and> unat blk < n_blocks fs \<and> unat blk div ratio fs \<in> used \<and> used - {unat blk div ratio fs} \<noteq> {}"

fun calls_ok :: "ext2_filsys \<Rightarrow> alloc_call list \<Rightarrow> nat set \<Rightarrow> bool" where
  "calls_ok fs [] used \<longleftrightarrow> True"
| "calls_ok fs (c # cs) used \<longleftrightarrow> call_ok fs c used \<and> calls_ok fs cs (snd (spec_call fs c used))"

lemma spec_layout:
  assumes "same_layout fs fs'"
  shows "spec_call fs' c used = spec_call fs c used" "call_ok fs' c used = call_ok fs c used"
    "spec_calls fs' cs used = spec_calls fs cs used" "calls_ok fs' cs used = calls_ok fs cs used"
proof -
  have r: "ratio fs' = ratio fs" "first_data fs' = first_data fs" "n_blocks fs' = n_blocks fs" using assms by (simp_all add: same_layout_def)
  note b = layout_clusters(3) [OF assms]
  have c1: "spec_call fs' c used = spec_call fs c used" for c used by (cases c) (simp_all only: spec_call.simps r b)
  have c2: "call_ok fs' c used = call_ok fs c used" for c used by (cases c) (simp_all only: call_ok.simps r)
  show "spec_call fs' c used = spec_call fs c used" "call_ok fs' c used = call_ok fs c used" by (rule c1, rule c2)
  show "spec_calls fs' cs used = spec_calls fs cs used" by (induction cs arbitrary: used) (simp_all add: c1)
  show "calls_ok fs' cs used = calls_ok fs cs used" by (induction cs arbitrary: used) (simp_all add: c1 c2)
qed

lemma exec_call_step:
  assumes ok: "block_state_ok h used" and c: "call_ok (h_fs h) c used"
  shows "\<exists>h'. exec_call env cb rb c h = Some (fst (spec_call (h_fs h) c used), h') \<and>
    block_state_ok h' (snd (spec_call (h_fs h) c used)) \<and> same_layout (h_fs h) (h_fs h')"
proof (cases c)
  case (Release blk)
  then show ?thesis
    using block_stats_step [OF ok, of blk "- 1" "used - {unat blk div ratio (h_fs h)}" env cb] c by (auto simp: exec_call_def)
next
  case (New goal device)
  then have goal: "goal = 0 \<or> first_data (h_fs h) \<le> unat goal" using c by simp
  let ?find = "find (\<lambda>k. k div ratio (h_fs h) \<notin> used) (blocks_from (h_fs h) goal)"
  obtain h1 where h1: "ext2fs_new_block3 (bmap_ops env) cb h goal None None =
      Some (case ?find of None \<Rightarrow> Inl EXT2_ET_BLOCK_ALLOC_FAIL | Some k \<Rightarrow> Inr (of_nat k), h1)" "block_state_ok h1 used" "same_layout (h_fs h) (h_fs h1)"
    using new_block_step [OF ok goal, of env cb None] by blast
  have "\<exists>b. h_block_map h = Some b" "h_get_alloc_block2 h = None" "h_get_alloc_block h = None" using ok by (auto simp: block_state_ok_def)
  then have x: "exec_call env cb rb c h = (case ?find of None \<Rightarrow> Some (Inl EXT2_ET_BLOCK_ALLOC_FAIL, h1)
      | Some k \<Rightarrow> if device (of_nat k) \<noteq> 0 then Some (Inl (device (of_nat k)), h1) else map_option (Pair (Inr (of_nat k))) (ext2fs_block_alloc_stats2 (bmap_ops env) cb h1 (of_nat k) 1))"
    using h1(1) New by (auto simp: exec_call_def ext2fs_alloc_block3_def map_conv_bind_option comp_def split: option.splits)
  show ?thesis
  proof (cases ?find)
    case None
    then show ?thesis using x New h1 by simp
  next
    case (Some k)
    have a: "alloc_ok (h_fs h)" using ok by (simp add: block_state_ok_def)
    have k: "k \<in> set (blocks_from (h_fs h) goal)" "k div ratio (h_fs h) \<notin> used"
      using Some by (auto simp: find_Some_iff in_set_conv_nth)
    then have b: "first_data (h_fs h) \<le> k" "k < n_blocks (h_fs h)" using aligned_goal_bounds [OF a goal] by (auto simp: blocks_from_def)
    have u: "unat (of_nat k :: w64) = k" using b(2) alloc_okD(6) [OF a] by (simp add: unat_of_nat)
    have l: "first_data (h_fs h1) = first_data (h_fs h)" "n_blocks (h_fs h1) = n_blocks (h_fs h)" "ratio (h_fs h1) = ratio (h_fs h)"
      using h1(3) by (simp_all add: same_layout_def)
    obtain h2 where "ext2fs_block_alloc_stats2 (bmap_ops env) cb h1 (of_nat k) 1 = Some h2"
        "block_state_ok h2 (insert (k div ratio (h_fs h)) used)" "same_layout (h_fs h1) (h_fs h2)"
      using block_stats_step [OF h1(2), of "of_nat k" 1 "insert (k div ratio (h_fs h)) used" env cb] b k(2) by (auto simp: u l)
    then show ?thesis using x New Some h1(2,3) by (simp add: same_layout_def)
  qed
qed

lemma exec_calls_refine:
  assumes "block_state_ok h used" "calls_ok (h_fs h) cs used"
  shows "\<exists>h'. exec_calls env cb rb cs h = Some (fst (spec_calls (h_fs h) cs used), h') \<and> block_state_ok h' (snd (spec_calls (h_fs h) cs used))"
  using assms
proof (induction cs arbitrary: h used)
  case (Cons c cs)
  let ?s = "spec_call (h_fs h) c used"
  obtain h1 where 1: "exec_call env cb rb c h = Some (fst ?s, h1)" "block_state_ok h1 (snd ?s)" "same_layout (h_fs h) (h_fs h1)"
    using exec_call_step [OF Cons.prems(1), of c env cb rb] Cons.prems(2) by auto
  have "calls_ok (h_fs h1) cs (snd ?s)" using Cons.prems(2) by (simp add: spec_layout [OF 1(3)])
  from Cons.IH [OF 1(2) this] show ?case using 1 by (auto simp: spec_layout [OF 1(3)] split: prod.splits)
qed simp

section \<open>Property\<close>

text \<open>C1. Allocation of blocks. On a well-formed file system with a block in use, with or without clusters, 64-bit fields and descriptor checksums, every
  sequence of allocations, with goals that are 0 or not before the first data block, and of releases, of blocks in use but not of the last
  cluster in use, runs without an access outside a buffer and answers as the abstract allocator: an allocation returns the
  first free block from its goal on, going round at the end of the file system, or the error that no block is free, or the error with which
  the device refused to write zeros to that block, which then stays free. At the end the bitmap
  holds the clusters in use, the free count of each group and that of the superblock are the numbers the bitmap gives, and the checksums of all
  descriptors are valid.\<close>

theorem block_alloc_session_refines:
  assumes "block_state_ok h used" "calls_ok (h_fs h) cs used"
  shows "\<exists>h'. exec_calls env cb read_bitmap cs h = Some (fst (spec_calls (h_fs h) cs used), h') \<and>
           block_state_ok h' (snd (spec_calls (h_fs h) cs used))"
  using assms by (rule exec_calls_refine)

definition alloc_descs :: "u8 list" where
  "alloc_descs = concat (map (\<lambda>n. replicate 12 0 @ [n, 0] @ replicate 50 0) [6, 7, 2])"

definition alloc_fs :: ext2_filsys where
  "alloc_fs = small_fs\<lparr>fs_group_desc := alloc_descs, fs_super := small_super\<lparr>s_free_blocks_count := 15\<rparr>\<rparr>"

definition alloc_map :: "u8 list \<Rightarrow> bmap64" where
  "alloc_map bs = from_ba \<lparr>bm_magic = EXT2_ET_MAGIC_BLOCK_BITMAP64, bm_start = 1, bm_end = 19, bm_real_end = 24, bm_cluster_bits = 0,
     bm_description = None, bm_base_error_code = EXT2_ET_BAD_BLOCK_MARK, bm_private = bs\<rparr>"

definition alloc_handle :: "priv handle" where
  "alloc_handle = \<lparr>h_magic = EXT2_ET_MAGIC_EXT2FS_FILSYS, h_fs = alloc_fs, h_inode_map = None, h_block_map = Some (B64 (alloc_map [3, 1, 1])),
     h_get_alloc_block = None, h_get_alloc_block2 = None, h_block_alloc_stats = None, h_new_range = None, h_block_alloc_stats_range = None\<rparr>"

definition no_callbacks :: "priv callbacks" where
  "no_callbacks = \<lparr>call_gab = \<lambda>_ _ _. None, call_gab2 = \<lambda>_ _ _ _. None, call_nrf = \<lambda>_ _ _ _ _. None, call_stats = \<lambda>_ _ _ _. None,
     call_stats_range = \<lambda>_ _ _ _ _. None\<rparr>"

lemma alloc_descs_explicit: "length alloc_descs = 192" "alloc_descs = replicate 12 0 @ [6, 0] @ replicate 62 0 @ [7, 0] @ replicate 62 0 @ [2, 0] @ replicate 50 0"
  by (simp_all add: alloc_descs_def numeral_nat replicate_append_same)

lemma alloc_fs_sel [simp]: "fs_group_desc alloc_fs = alloc_descs" "n_groups alloc_fs = 3" "n_blocks alloc_fs = 20" "first_data alloc_fs = 1"
  "per_group alloc_fs = 8" "ratio alloc_fs = 1" "ext2_filsys.fs_cluster_ratio_bits alloc_fs = 0" "ext2fs_has_feature_64bit (fs_super alloc_fs)"
  "EXT2_DESC_SIZE (fs_super alloc_fs) = 64"
  by (simp_all add: alloc_fs_def n_groups_def n_blocks_def first_data_def per_group_def ratio_def small_fs_def small_super_def ext2fs_blocks_count_def
      ext2fs_has_feature_64bit_def EXT2_DESC_SIZE_def)

lemma alloc_fs_ok: "alloc_ok alloc_fs"
  by (simp add: alloc_ok_def geometry_ok_def csum_ok_def descs_ok_def desc_stride_def alloc_descs_explicit(1))
    (simp add: alloc_fs_def small_super_def)

lemma alloc_map_set: "length bs = 3 \<Longrightarrow> bm_set (alloc_map bs) = set (filter (\<lambda>n. bit (bs ! ((n - 1) div 8)) ((n - 1) mod 8)) [1..<25])"
  by (auto simp: alloc_map_def ba_set_iff bits_iff)

lemma alloc_map_ok:
  assumes "length bs = 3" "bm_set (alloc_map bs) \<noteq> {}"
  shows "block_map_ok alloc_fs (alloc_map bs)"
proof -
  have "bm_inv (alloc_map bs)" using assms(1) by (simp add: alloc_map_def ba_inv_def)
  moreover have "bm_magic (alloc_map bs) = EXT2_ET_MAGIC_BLOCK_BITMAP64" "bm_cluster_bits (alloc_map bs) = 0"
    "bm_start (alloc_map bs) = 1" "bm_end (alloc_map bs) = 19" by (simp_all add: alloc_map_def from_ba_def)
  ultimately show ?thesis using assms(2) by (simp add: block_map_ok_def EXT2FS_IS_64_BITMAP_def)
qed

lemma alloc_map_example: "bm_set (alloc_map [3, 1, 1]) = {1, 2, 9, 17}"
proof -
  have "filter (\<lambda>n. bit ([3, 1, 1 :: u8] ! ((n - 1) div 8)) ((n - 1) mod 8)) [1..<25] = [1, 2, 9, 17]" by code_simp
  then show ?thesis by (simp only: alloc_map_set list.size) simp
qed

lemma alloc_group_clusters:
  "group_clusters alloc_fs 0 = {1..8}" "group_clusters alloc_fs 1 = {9..16}" "group_clusters alloc_fs 2 = {17..19}" "all_clusters alloc_fs = {1..19}"
  by (auto simp: group_clusters_def all_clusters_def)

lemma alloc_group_counts:
  "card ({1..8} - {1, 2, 9, 17 :: nat}) = 6" "card ({9..16} - {1, 2, 9, 17 :: nat}) = 7" "card ({17..19} - {1, 2, 9, 17 :: nat}) = 2"
  "card ({1..19} - {1, 2, 9, 17 :: nat}) = 15"
  by code_simp+

lemma alloc_fs_counts: "counts_ok alloc_fs {1, 2, 9, 17}"
proof -
  have o: "ext2fs_group_desc alloc_fs g = unat g * 64" if "unat g < 3" for g using that by (simp add: ext2fs_group_desc_def)
  have "ext2fs_bg_free_blocks_count alloc_fs g = Some (of_nat (card (group_clusters alloc_fs (unat g) - {1, 2, 9, 17})))" if "unat g < 3" for g
  proof -
    consider "unat g = 0" | "unat g = 1" | "unat g = 2" using \<open>unat g < 3\<close> by linarith
    then show ?thesis
      by cases (simp_all add: ext2fs_bg_free_blocks_count_def get_halves16_def o alloc_group_clusters [simplified] alloc_group_counts [simplified],
        simp_all add: rd16_def rd_def alloc_descs_explicit nth_append)
  qed
  moreover have "ext2fs_free_blocks_count (fs_super alloc_fs) = 15"
    by (simp add: ext2fs_free_blocks_count_def) (simp add: alloc_fs_def small_super_def)
  ultimately show ?thesis unfolding counts_ok_def alloc_group_clusters(4) alloc_group_counts(4) by simp
qed

lemma alloc_handle_ok: "block_state_ok alloc_handle {1, 2, 9, 17}"
proof -
  have "csum_valid alloc_fs g" for g
    by (simp add: csum_valid_def ext2fs_group_desc_csum_verify_def ext2fs_has_group_desc_csum_def ext2fs_has_feature_metadata_csum_def
        ext2fs_has_feature_gdt_csum_def) (simp add: alloc_fs_def small_super_def)
  then show ?thesis
    using alloc_fs_ok alloc_map_ok [of "[3, 1, 1]"] alloc_map_example alloc_fs_counts by (simp add: block_state_ok_def alloc_handle_def)
qed

definition alloc_calls :: "alloc_call list" where
  "alloc_calls = [New 9 (\<lambda>_. 0), New 0 (\<lambda>_. 0), Release 10, New 9 (\<lambda>_. 5), New 19 (\<lambda>_. 0), New 19 (\<lambda>_. 0)]"

lemma alloc_calls_ok: "calls_ok alloc_fs alloc_calls {1, 2, 9, 17}"
  "spec_calls alloc_fs alloc_calls {1, 2, 9, 17} = ([Inr 10, Inr 3, Inr 10, Inl 5, Inr 19, Inr 4], {1, 2, 3, 4, 9, 17, 19})"
proof -
  have f: "blocks_from alloc_fs 9 = [9..<20] @ [1..<9]" "blocks_from alloc_fs 0 = [1..<20]" "blocks_from alloc_fs 19 = [19..<20] @ [1..<19]"
    by (simp_all add: blocks_from_def aligned_goal_def)
  show "calls_ok alloc_fs alloc_calls {1, 2, 9, 17}" "spec_calls alloc_fs alloc_calls {1, 2, 9, 17} = ([Inr 10, Inr 3, Inr 10, Inl 5, Inr 19, Inr 4], {1, 2, 3, 4, 9, 17, 19})"
    by (auto simp: alloc_calls_def f upt_conv_Cons)
qed

theorem block_alloc_session_refines_witness:
  "\<forall>env. \<exists>h'. exec_calls env no_callbacks (Pair 0) alloc_calls alloc_handle = Some ([Inr 10, Inr 3, Inr 10, Inl 5, Inr 19, Inr 4], h') \<and>
     block_state_ok h' {1, 2, 3, 4, 9, 17, 19}"
proof -
  have "h_fs alloc_handle = alloc_fs" by (simp add: alloc_handle_def)
  then show ?thesis
    using block_alloc_session_refines [OF alloc_handle_ok, of alloc_calls _ no_callbacks "Pair 0"] alloc_calls_ok by simp
qed

end
