(* ===== verification/Alloc_Range.thy ===== *)
theory Alloc_Range
  imports Alloc_Session
begin

unbundle bit_operations_syntax

text \<open>
  Runs of blocks: what \<^verbatim>\<open>ext2fs_new_range\<close> and \<^verbatim>\<open>ext2fs_get_free_blocks2\<close> return, when they return, and when they do not.
\<close>

section \<open>Iteration of a step\<close>

lemma repeat_step_done: "step s = Some (Inl r) \<Longrightarrow> repeat_step step s = Some r"
  by (simp add: repeat_step.simps)

lemma repeat_step_more: "step s = Some (Inr s') \<Longrightarrow> repeat_step step s = repeat_step step s'"
  by (subst repeat_step.simps) simp

text \<open>A property of the states that each step keeps, and that gives a property of the result.\<close>

lemma repeat_step_result:
  fixes step :: "'a \<Rightarrow> ('b + 'a) option"
  assumes "repeat_step step s = Some r" "I s" "\<And>s o1. I s \<Longrightarrow> step s = Some o1 \<Longrightarrow> (case o1 of Inl r \<Rightarrow> Q r | Inr s' \<Rightarrow> I s')"
  shows "Q r"
proof -
  have "step = step \<longrightarrow> I s \<longrightarrow> Q r"
  proof (rule repeat_step.raw_induct [where P = "\<lambda>step' s r. step' = step \<longrightarrow> I s \<longrightarrow> Q r", OF _ assms(1)], intro impI)
    fix rep :: "('a \<Rightarrow> ('b + 'a) option) \<Rightarrow> 'a \<Rightarrow> 'b option" and step' s r
    assume IH: "\<And>step' s r. rep step' s = Some r \<Longrightarrow> step' = step \<longrightarrow> I s \<longrightarrow> Q r"
      and res: "(step' s \<bind> (\<lambda>o1. case o1 of Inl r \<Rightarrow> Some r | Inr s' \<Rightarrow> rep step' s')) = Some r" and "step' = step" "I s"
    then obtain o1 where o1: "step s = Some o1" "(case o1 of Inl r \<Rightarrow> Some r | Inr s' \<Rightarrow> rep step s') = Some r"
      by (auto simp: bind_eq_Some_conv)
    then show "Q r" using assms(3) [OF \<open>I s\<close> o1(1)] IH by (cases o1) auto
  qed
  then show ?thesis using assms(2) by simp
qed

text \<open>A set of states that no step leaves: the loop never ends.\<close>

lemma repeat_step_forever:
  assumes "s \<in> S" "\<And>s. s \<in> S \<Longrightarrow> \<exists>s' \<in> S. step s = Some (Inr s')"
  shows "repeat_step step s = None"
proof (rule ccontr)
  assume "repeat_step step s \<noteq> None"
  then obtain r where "repeat_step step s = Some r" by blast
  then have False by (rule repeat_step_result [where I = "\<lambda>s. s \<in> S"]) (use assms in \<open>fastforce+\<close>)
  then show False .
qed

section \<open>A step of the search for a run\<close>

text \<open>The end of the run that starts at a free block, no longer than asked for.\<close>

definition run_end :: "ext2_filsys \<Rightarrow> nat set \<Rightarrow> nat \<Rightarrow> nat \<Rightarrow> nat" where
  "run_end fs used z len =
     (let lim = min (z + len) (n_blocks fs) in case find (\<lambda>k. k div ratio fs \<in> used) [z..<lim] of None \<Rightarrow> lim | Some y \<Rightarrow> y)"

definition fixed :: "u32 \<Rightarrow> bool" where "fixed flags \<longleftrightarrow> flags AND 1 \<noteq> 0"
definition min_length :: "u32 \<Rightarrow> bool" where "min_length flags \<longleftrightarrow> flags AND 2 \<noteq> 0"

definition range_step_spec ::
  "ext2_filsys \<Rightarrow> nat set \<Rightarrow> u32 \<Rightarrow> nat \<Rightarrow> nat \<Rightarrow> nat \<Rightarrow> bool \<Rightarrow> (errcode + nat \<times> nat) + nat \<times> bool" where
  "range_step_spec fs used flags goal len start looped =
     (case find (\<lambda>k. k div ratio fs \<notin> used) [start..<n_blocks fs] of
        None \<Rightarrow> if fixed flags \<or> start = first_data fs then Inl (Inl EXT2_ET_BLOCK_ALLOC_FAIL) else Inr (first_data fs, looped)
      | Some z \<Rightarrow>
          if fixed flags \<and> z \<noteq> goal then Inl (Inl EXT2_ET_BLOCK_ALLOC_FAIL)
          else if \<not> min_length flags \<or> len \<le> run_end fs used z len - z then Inl (Inr (z, run_end fs used z len))
          else if fixed flags then Inl (Inl EXT2_ET_BLOCK_ALLOC_FAIL)
          else if n_blocks fs \<le> run_end fs used z len
          then if looped then Inl (Inl EXT2_ET_BLOCK_ALLOC_FAIL) else Inr (first_data fs, True)
          else Inr (run_end fs used z len, looped))"

definition to_words :: "(errcode + nat \<times> nat) + nat \<times> bool \<Rightarrow> (errcode + w64 \<times> w64) + w64 \<times> bool" where
  "to_words = map_sum (map_sum id (map_prod of_nat of_nat)) (map_prod of_nat id)"

lemma find_upt_bounds: "find P [a..<b] = Some z \<Longrightarrow> a \<le> z \<and> z < b \<and> P z \<and> (\<forall>k. a \<le> k \<and> k < z \<longrightarrow> \<not> P k)"
  by (auto simp: find_Some_iff) (metis add_diff_inverse_nat add_less_cancel_left nat_add_left_cancel_less not_less nth_upt order_less_trans)

lemma find_upt_None: "find P [a..<b] = None \<longleftrightarrow> (\<forall>k. a \<le> k \<and> k < b \<longrightarrow> \<not> P k)"
  by (auto simp: find_None_iff)

lemma run_end_bounds:
  assumes "find (\<lambda>k. k div ratio fs \<notin> used) [start..<n_blocks fs] = Some z" "0 < len"
  shows "z < run_end fs used z len" "run_end fs used z len \<le> n_blocks fs" "run_end fs used z len \<le> z + len"
    "\<forall>k. z \<le> k \<and> k < run_end fs used z len \<longrightarrow> k div ratio fs \<notin> used"
    "run_end fs used z len < min (z + len) (n_blocks fs) \<longrightarrow> run_end fs used z len div ratio fs \<in> used"
proof -
  note z = find_upt_bounds [OF assms(1)]
  let ?l = "min (z + len) (n_blocks fs)"
  have "z < run_end fs used z len \<and> run_end fs used z len \<le> ?l \<and> (\<forall>k. z \<le> k \<and> k < run_end fs used z len \<longrightarrow> k div ratio fs \<notin> used) \<and>
    (run_end fs used z len < ?l \<longrightarrow> run_end fs used z len div ratio fs \<in> used)"
  proof (cases "find (\<lambda>k. k div ratio fs \<in> used) [z..<?l]")
    case None
    then have e: "run_end fs used z len = ?l" by (simp add: run_end_def)
    show ?thesis unfolding e using z assms(2) None by (simp add: find_upt_None)
  next
    case (Some y)
    then have e: "run_end fs used z len = y" by (simp add: run_end_def)
    have "y \<noteq> z" using find_upt_bounds [OF Some] z by auto
    then show ?thesis unfolding e using find_upt_bounds [OF Some] by auto
  qed
  then show "z < run_end fs used z len" "run_end fs used z len \<le> n_blocks fs" "run_end fs used z len \<le> z + len"
    "\<forall>k. z \<le> k \<and> k < run_end fs used z len \<longrightarrow> k div ratio fs \<notin> used"
    "run_end fs used z len < min (z + len) (n_blocks fs) \<longrightarrow> run_end fs used z len div ratio fs \<in> used" by simp_all
qed

lemma new_range_step_spec:
  assumes ok: "alloc_ok fs" "block_map_ok fs b" and len: "0 < len" "unat len + n_blocks fs \<le> 2 ^ 64"
    and s: "first_data fs \<le> unat start" "unat start < n_blocks fs" and go: "looped \<longrightarrow> start \<le> goal"
  shows "new_range_step (bmap_ops env) fs (Some (B64 b)) flags goal len (start, looped) =
    Some (to_words (range_step_spec fs (bm_set b) flags (unat goal) (unat len) (unat start) looped))"
proof -
  let ?n = "n_blocks fs" and ?used = "bm_set b" and ?max = "ext2fs_blocks_count (fs_super fs)" and ?first = "ucast (s_first_data_block (fs_super fs)) :: w64"
  let ?free = "\<lambda>k. k div ratio fs \<notin> ?used"
  note ad = alloc_okD [OF ok(1)]
  have n: "unat ?max = ?n" by (simp add: n_blocks_def)
  have last: "unat (?max - 1) = ?n - 1" using ad(5) n by (simp add: unat_sub word_le_nat_alt)
  have fd: "unat ?first = first_data fs" "?first = of_nat (first_data fs)" by (simp_all add: first_data_def)
  have un: "unat (of_nat k :: w64) = k" if "k \<le> ?n" for k using that ad(6) by (simp add: unat_of_nat)
  have w: "of_nat k = x \<longleftrightarrow> k = unat x" if "k \<le> ?n" for k and x :: w64 using un [OF that] by (metis unat_eqD)
  obtain r where r: "ext2fs_find_first_zero_generic_bmap (bmap_ops env) (Some (B64 b)) (unat start) (?n - 1) = Some r" "first_in ?free (unat start) (?n - 1) r"
    using map_find(1) [OF ok s(1), of "?n - 1"] s(2) by fastforce
  have f: "find ?free [unat start..<?n] = (case r of Inl _ \<Rightarrow> None | Inr z \<Rightarrow> Some z)" using find_upt_first_in [OF r(2)] s(2) by simp
  have fl: "flags AND 1 \<noteq> 0 \<longleftrightarrow> fixed flags" "flags AND 2 = 0 \<longleftrightarrow> \<not> min_length flags" by (simp_all add: fixed_def min_length_def)
  show ?thesis
  proof (cases r)
    case (Inl e)
    then have "e = ENOENT" using r(2) by (simp add: first_in_Inl)
    moreover have "start = ?first \<longleftrightarrow> unat start = first_data fs" using fd(1) by (metis word_unat_eq_iff)
    ultimately show ?thesis
      using Inl go f r(1) unfolding new_range_step_def Let_def prod.case last fl fd(2)
      by (simp add: range_step_spec_def to_words_def del: One_nat_def)
  next
    case (Inr z)
    then have fz: "find ?free [unat start..<?n] = Some z" using f by simp
    note z = find_upt_bounds [OF fz]
    have l0: "0 < unat len" using len(1) by (simp add: word_less_nat_alt)
    note re = run_end_bounds [OF fz l0]
    define lim where "lim = min (z + unat len) ?n"
    have lim: "z < lim" "lim \<le> ?n" using z l0 by (auto simp: lim_def)
    have ul: "unat (of_nat lim - 1 :: w64) = lim - 1" using lim un [OF lim(2)] by (simp add: unat_sub word_le_nat_alt)
    have b: "min (of_nat z + len - 1) (?max - 1) = (of_nat lim - 1 :: w64)"
    proof -
      have "unat (of_nat z + len - 1 :: w64) = z + unat len - 1"
      proof -
        have "z + unat len < 2 ^ 64" using z len(2) by simp
        then have "unat (of_nat z + len :: w64) = z + unat len" using un [of z] z by (simp add: unat_word_ariths)
        then show ?thesis using l0 by (simp add: unat_sub word_le_nat_alt)
      qed
      then have "unat (min (of_nat z + len - 1) (?max - 1)) = lim - 1" using last by (simp add: min_def word_le_nat_alt lim_def)
      then show ?thesis using ul by (simp add: word_unat_eq_iff)
    qed
    obtain r2 where r2: "ext2fs_find_first_set_generic_bmap (bmap_ops env) (Some (B64 b)) z (lim - 1) = Some r2"
        "first_in (\<lambda>k. k div ratio fs \<in> ?used) z (lim - 1) r2"
      using map_find(2) [OF ok, of z "lim - 1" env] z s(1) lim by fastforce
    have f2: "find (\<lambda>k. k div ratio fs \<in> ?used) [z..<lim] = (case r2 of Inl _ \<Rightarrow> None | Inr y \<Rightarrow> Some y)"
      using find_upt_first_in [OF r2(2)] lim by simp
    have e: "(case r2 of Inl _ \<Rightarrow> min (of_nat z + len - 1) (?max - 1) + 1 | Inr y \<Rightarrow> of_nat y) = (of_nat (run_end fs ?used z (unat len)) :: w64)"
      using lim f2 by (cases r2) (simp_all add: run_end_def lim_def [symmetric] b)
    have no: "\<not> (case r2 of Inl e \<Rightarrow> e \<noteq> ENOENT | _ \<Rightarrow> False)" using r2(2) by (cases r2) (auto simp: first_in_Inl)
    have d: "len \<le> of_nat (run_end fs ?used z (unat len)) - of_nat z \<longleftrightarrow> unat len \<le> run_end fs ?used z (unat len) - z"
      using re(1,2) un [of "run_end fs ?used z (unat len)"] un [of z] z by (simp add: word_le_nat_alt unat_sub)
    have m: "?max \<le> of_nat (run_end fs ?used z (unat len)) \<longleftrightarrow> ?n \<le> run_end fs ?used z (unat len)" using re(2) un by (simp add: word_le_nat_alt n)
    have g: "of_nat z \<noteq> goal \<longleftrightarrow> z \<noteq> unat goal" using w z by simp
    have "new_range_step (bmap_ops env) fs (Some (B64 b)) flags goal len (start, looped) =
      (if fixed flags \<and> z \<noteq> unat goal then Some (Inl (Inl EXT2_ET_BLOCK_ALLOC_FAIL))
       else let end = of_nat (run_end fs ?used z (unat len)) in
         Some (if \<not> min_length flags \<or> unat len \<le> run_end fs ?used z (unat len) - z then Inl (Inr (of_nat z, end))
               else if fixed flags then Inl (Inl EXT2_ET_BLOCK_ALLOC_FAIL)
               else if ?n \<le> run_end fs ?used z (unat len) then (if looped then Inl (Inl EXT2_ET_BLOCK_ALLOC_FAIL) else Inr (?first, True))
               else Inr (end, looped)))"
      using Inr go r(1) r2(1) no lim z unfolding new_range_step_def Let_def prod.case last fl
      by (simp add: b un ul g e d m del: One_nat_def)
    then show ?thesis by (auto simp: range_step_spec_def fz to_words_def fd(2) Let_def)
  qed
qed

section \<open>Runs\<close>

text \<open>A state and the arguments of a search with no callback.\<close>

definition range_ok :: "priv handle \<Rightarrow> nat set \<Rightarrow> w64 \<Rightarrow> w64 \<Rightarrow> bool" where
  "range_ok h used goal len \<longleftrightarrow>
     block_state_ok h used \<and> h_new_range h = None \<and> (goal = 0 \<or> first_data (h_fs h) \<le> unat goal) \<and> 0 < len \<and>
     unat len + n_blocks (h_fs h) \<le> 2 ^ 64 \<and> per_group (h_fs h) + n_blocks (h_fs h) \<le> 2 ^ 64"

lemma range_okD:
  assumes "range_ok h used goal len"
  shows "alloc_ok (h_fs h)" "\<exists>b. h_block_map h = Some (B64 b) \<and> block_map_ok (h_fs h) b \<and> bm_set b = used"
    "h_magic h = EXT2_ET_MAGIC_EXT2FS_FILSYS" "0 < len" "unat len + n_blocks (h_fs h) \<le> 2 ^ 64"
  using assms by (auto simp: range_ok_def block_state_ok_def)

definition range_goal :: "ext2_filsys \<Rightarrow> w64 \<Rightarrow> nat" where
  "range_goal fs goal = (if goal = 0 \<or> n_blocks fs \<le> unat goal then first_data fs else unat goal)"

definition range_steps :: "bm_env \<Rightarrow> priv handle \<Rightarrow> u32 \<Rightarrow> w64 \<Rightarrow> w64 \<Rightarrow> w64 \<times> bool \<Rightarrow> ((errcode + w64 \<times> w64) + w64 \<times> bool) option" where
  "range_steps env h flags goal len =
     new_range_step (bmap_ops env) (h_fs h) (h_block_map h) flags (of_nat (range_goal (h_fs h) goal)) len"

lemma range_goal_bounds:
  assumes "range_ok h used goal len"
  shows "first_data (h_fs h) \<le> range_goal (h_fs h) goal" "range_goal (h_fs h) goal < n_blocks (h_fs h)"
    "unat (of_nat (range_goal (h_fs h) goal) :: w64) = range_goal (h_fs h) goal"
proof -
  note ad = alloc_okD [of "h_fs h"]
  show 1: "first_data (h_fs h) \<le> range_goal (h_fs h) goal" "range_goal (h_fs h) goal < n_blocks (h_fs h)"
    using assms ad [OF range_okD(1) [OF assms]] by (auto simp: range_ok_def range_goal_def)
  then show "unat (of_nat (range_goal (h_fs h) goal) :: w64) = range_goal (h_fs h) goal" using ad(6) [OF range_okD(1) [OF assms]] by (simp add: unat_of_nat)
qed

lemma range_steps_spec:
  assumes "range_ok h used goal len" "first_data (h_fs h) \<le> s" "s < n_blocks (h_fs h)" "looped \<longrightarrow> s \<le> range_goal (h_fs h) goal"
  shows "range_steps env h flags goal len (of_nat s, looped) =
    Some (to_words (range_step_spec (h_fs h) used flags (range_goal (h_fs h) goal) (unat len) s looped))"
proof -
  obtain b where b: "h_block_map h = Some (B64 b)" "block_map_ok (h_fs h) b" "bm_set b = used" using range_okD(2) [OF assms(1)] by blast
  note a = range_okD(1,4,5) [OF assms(1)]
  have u: "unat (of_nat s :: w64) = s" using assms(3) alloc_okD(6) [OF a(1)] by (simp add: unat_of_nat)
  have g: "looped \<longrightarrow> (of_nat s :: w64) \<le> of_nat (range_goal (h_fs h) goal)"
    using assms(4) range_goal_bounds(3) [OF assms(1)] by (simp add: word_le_nat_alt u)
  show ?thesis
    using new_range_step_spec [OF a(1) b(2) a(2,3), of "of_nat s" looped "of_nat (range_goal (h_fs h) goal)" env flags] g assms(2,3)
      range_goal_bounds(3) [OF assms(1)] by (simp add: range_steps_def b u)
qed

lemma new_range_unfold:
  assumes "range_ok h used goal len" "flags AND NOT 3 = 0"
  shows "ext2fs_new_range (bmap_ops env) cb h flags goal len None =
    do { r \<leftarrow> repeat_step (range_steps env h flags goal len) (of_nat (range_goal (h_fs h) goal), False); new_range_done h r }"
proof -
  have g: "(if goal = 0 \<or> ext2fs_blocks_count (fs_super (h_fs h)) \<le> goal then ucast (s_first_data_block (fs_super (h_fs h))) else goal) =
      (of_nat (range_goal (h_fs h) goal) :: w64)"
    by (simp add: range_goal_def n_blocks_def first_data_def word_le_nat_alt)
  obtain b where "h_block_map h = Some (B64 b)" using range_okD(2) [OF assms(1)] by blast
  moreover have "len \<noteq> 0" "h_new_range h = None" using assms(1) by (auto simp: range_ok_def)
  ultimately show ?thesis
    using assms(2) range_okD(3) [OF assms(1)] by (simp add: ext2fs_new_range_def g) (simp add: range_steps_def Let_def)
qed

text \<open>When a run is returned it is free and of the right length and place.\<close>

definition good_run :: "ext2_filsys \<Rightarrow> nat set \<Rightarrow> u32 \<Rightarrow> nat \<Rightarrow> nat \<Rightarrow> nat \<Rightarrow> nat \<Rightarrow> bool" where
  "good_run fs used flags goal len start end \<longleftrightarrow>
     first_data fs \<le> start \<and> start < end \<and> end \<le> n_blocks fs \<and> end \<le> start + len \<and> (\<forall>k \<in> {start..<end}. k div ratio fs \<notin> used) \<and>
     (fixed flags \<longrightarrow> start = goal) \<and> (min_length flags \<longrightarrow> end = start + len) \<and>
     (end < min (start + len) (n_blocks fs) \<longrightarrow> end div ratio fs \<in> used)"

lemma range_step_result:
  assumes "range_step_spec fs used flags goal len s looped = o1" "first_data fs \<le> s" "0 < len" "first_data fs < n_blocks fs"
  shows "case o1 of
      Inl (Inl e) \<Rightarrow> e = EXT2_ET_BLOCK_ALLOC_FAIL
    | Inl (Inr (a, z)) \<Rightarrow> good_run fs used flags goal len a z
    | Inr (s', looped') \<Rightarrow> first_data fs \<le> s' \<and> s' < n_blocks fs"
proof (cases "find (\<lambda>k. k div ratio fs \<notin> used) [s..<n_blocks fs]")
  case None
  then show ?thesis using assms by (auto simp: range_step_spec_def)
next
  case (Some z)
  note z = find_upt_bounds [OF Some] and re = run_end_bounds [OF Some assms(3)]
  have "first_data fs \<le> run_end fs used z len" using z re(1) assms(2) by linarith
  moreover have "good_run fs used flags goal len z (run_end fs used z len)"
    if "fixed flags \<longrightarrow> z = goal" "\<not> min_length flags \<or> len \<le> run_end fs used z len - z"
    using that re z assms(2) by (auto simp: good_run_def)
  ultimately show ?thesis using assms(1,4) Some by (auto simp: range_step_spec_def not_le)
qed

lemma repeat_range_result:
  assumes "range_ok h used goal len" "repeat_step (range_steps env h flags goal len) (of_nat (range_goal (h_fs h) goal), False) = Some r"
  shows "case r of Inl e \<Rightarrow> e = EXT2_ET_BLOCK_ALLOC_FAIL
    | Inr (a, z) \<Rightarrow> good_run (h_fs h) used flags (range_goal (h_fs h) goal) (unat len) (unat a) (unat z)"
  using assms(2)
proof (rule repeat_step_result [where I = "\<lambda>(s, looped). first_data (h_fs h) \<le> unat s \<and> unat s < n_blocks (h_fs h)"], goal_cases)
  case 1
  show ?case using range_goal_bounds [OF assms(1)] by simp
next
  case (2 sl o1)
  let ?fs = "h_fs h" and ?g = "range_goal (h_fs h) goal"
  obtain s looped where sl: "sl = (s, looped)" by (cases sl)
  then have s: "first_data ?fs \<le> unat s" "unat s < n_blocks ?fs" using 2(1) by simp_all
  have a: "alloc_ok ?fs" and l: "0 < unat len" using range_okD(1,4) [OF assms(1)] by (simp_all add: word_less_nat_alt)
  note ad = alloc_okD [OF a]
  have u: "unat (of_nat k :: w64) = k" if "k \<le> n_blocks ?fs" for k using that ad(6) by (simp add: unat_of_nat)
  show ?case
  proof (cases "looped \<longrightarrow> unat s \<le> ?g")
    case True
    let ?o = "range_step_spec ?fs used flags ?g (unat len) (unat s) looped"
    have "o1 = to_words ?o" using 2(2) range_steps_spec [OF assms(1) s True] sl by simp
    moreover note range_step_result [OF refl s(1) l ad(5), of used flags ?g looped]
    moreover have "unat (of_nat a :: w64) = a \<and> unat (of_nat z :: w64) = z" if "good_run ?fs used flags ?g (unat len) a z" for a z
      using that u by (simp add: good_run_def)
    ultimately show ?thesis
      using u by (cases ?o rule: sum.exhaust) (auto simp: to_words_def split: sum.splits)
  next
    case False
    then have "\<not> s \<le> of_nat ?g" "looped" using range_goal_bounds(3) [OF assms(1)] by (simp_all add: word_le_nat_alt)
    then have "o1 = Inl (Inl EXT2_ET_BLOCK_ALLOC_FAIL)" using 2(2) sl by (auto simp: range_steps_def new_range_step_def Let_def)
    then show ?thesis by simp
  qed
qed

text \<open>Without the demand for a minimal length, or with a fixed goal, one or two steps give a result.\<close>

lemma no_run_at_goal:
  assumes "range_step_spec fs used flags goal len goal False = Inl (Inl e)" "fixed flags" "first_data fs \<le> goal" "goal < n_blocks fs" "0 < len"
  shows "\<not> good_run fs used flags goal len goal z"
proof
  assume g: "good_run fs used flags goal len goal z"
  then have "goal div ratio fs \<notin> used" by (auto simp: good_run_def)
  then have f: "find (\<lambda>k. k div ratio fs \<notin> used) [goal..<n_blocks fs] = Some goal" using assms(4) by (simp add: upt_conv_Cons)
  note re = run_end_bounds [OF f assms(5)]
  have m: "min_length flags" "\<not> len \<le> run_end fs used goal len - goal" using assms(1) f by (auto simp: range_step_spec_def split: if_splits)
  then have "z = goal + len" "z \<le> n_blocks fs" using g by (auto simp: good_run_def)
  then have "run_end fs used goal len < min (goal + len) (n_blocks fs)" using m(2) by auto
  then show False using re(1,5) g m \<open>z = goal + len\<close> by (auto simp: good_run_def)
qed

lemma repeat_range_returns:
  assumes ok: "range_ok h used goal len" and "\<not> min_length flags \<or> fixed flags"
  defines "fs \<equiv> h_fs h" and "g \<equiv> range_goal (h_fs h) goal"
  shows "\<exists>r. repeat_step (range_steps env h flags goal len) (of_nat g, False) = Some r \<and>
    (r = Inl EXT2_ET_BLOCK_ALLOC_FAIL \<longrightarrow>
       (if fixed flags then \<forall>z. \<not> good_run fs used flags g (unat len) g z else \<forall>k \<in> {first_data fs..<n_blocks fs}. k div ratio fs \<in> used))"
proof -
  note gb = range_goal_bounds [OF ok, folded fs_def g_def]
  have a: "first_data fs < n_blocks fs" and l: "0 < unat len" using range_okD(1,4) [OF ok] alloc_okD(5) by (auto simp: word_less_nat_alt fs_def)
  note st = range_steps_spec [OF ok, folded fs_def g_def, where looped = False, simplified]
  show ?thesis
  proof (cases "fixed flags")
    case True
    have "\<exists>r. range_step_spec fs used flags g (unat len) g False = Inl r" using True by (auto simp: range_step_spec_def split: option.splits)
    then obtain r where r: "range_step_spec fs used flags g (unat len) g False = Inl r" by blast
    then have "repeat_step (range_steps env h flags goal len) (of_nat g, False) = Some (map_sum id (map_prod of_nat of_nat) r)"
      using st [OF gb(1,2), of env flags] by (intro repeat_step_done) (simp add: to_words_def)
    then show ?thesis using no_run_at_goal [OF _ True gb(1,2) l, of used] True r by (cases r) auto
  next
    case False
    then have m: "\<not> min_length flags" using assms(2) by simp
    let ?find = "\<lambda>s. find (\<lambda>k. k div ratio fs \<notin> used) [s..<n_blocks fs]"
    have sp: "range_step_spec fs used flags g (unat len) s False = (case ?find s of
        None \<Rightarrow> if s = first_data fs then Inl (Inl EXT2_ET_BLOCK_ALLOC_FAIL) else Inr (first_data fs, False)
      | Some z \<Rightarrow> Inl (Inr (z, run_end fs used z (unat len))))" for s
      using False m by (simp add: range_step_spec_def split: option.splits)
    have found: "repeat_step (range_steps env h flags goal len) (of_nat s, False) = Some (Inr (of_nat z, of_nat (run_end fs used z (unat len))))"
      if "?find s = Some z" "first_data fs \<le> s" "s < n_blocks fs" for s z
      using st [OF that(2,3), of env flags] that(1) by (intro repeat_step_done) (simp add: sp to_words_def)
    have none: "repeat_step (range_steps env h flags goal len) (of_nat (first_data fs), False) = Some (Inl EXT2_ET_BLOCK_ALLOC_FAIL)"
      if "?find (first_data fs) = None"
      using st [OF le_refl a, of env flags] that by (intro repeat_step_done) (simp add: sp to_words_def)
    show ?thesis
    proof (cases "?find (first_data fs)")
      case None
      then have all: "\<forall>k \<in> {first_data fs..<n_blocks fs}. k div ratio fs \<in> used" by (simp add: find_upt_None)
      then have ng: "?find g = None" using gb(1) by (simp add: find_upt_None)
      have "repeat_step (range_steps env h flags goal len) (of_nat g, False) = Some (Inl EXT2_ET_BLOCK_ALLOC_FAIL)"
      proof (cases "g = first_data fs")
        case True
        then show ?thesis using none [OF None] by simp
      next
        case ne: False
        have "range_steps env h flags goal len (of_nat g, False) = Some (Inr (of_nat (first_data fs), False))"
          using st [OF gb(1,2), of env flags] ng ne by (simp add: sp to_words_def)
        then show ?thesis using none [OF None] repeat_step_more by metis
      qed
      then show ?thesis using all False by simp
    next
      case (Some z1)
      show ?thesis
      proof (cases "?find g")
        case None
        then have "g \<noteq> first_data fs" using Some by auto
        then have "range_steps env h flags goal len (of_nat g, False) = Some (Inr (of_nat (first_data fs), False))"
          using st [OF gb(1,2), of env flags] None by (simp add: sp to_words_def)
        then show ?thesis using found [OF Some le_refl a] repeat_step_more by fastforce
      next
        case (Some z)
        then show ?thesis using found [OF Some gb(1,2)] by simp
      qed
    qed
  qed
qed

section \<open>A loop without end\<close>

lemma range_forever:
  assumes ok: "range_ok h used goal len" and fl: "min_length flags" "\<not> fixed flags"
  defines "fs \<equiv> h_fs h"
  assumes last: "(n_blocks fs - 1) div ratio fs \<in> used" and free: "\<exists>k \<in> {first_data fs..<n_blocks fs}. k div ratio fs \<notin> used"
    and short: "\<And>a. first_data fs \<le> a \<Longrightarrow> a + unat len \<le> n_blocks fs \<Longrightarrow> \<exists>k \<in> {a..<a + unat len}. k div ratio fs \<in> used"
  defines "S \<equiv> {(of_nat s, False) | s. first_data fs \<le> s \<and> s < n_blocks fs}"
  shows "(of_nat (range_goal fs goal), False) \<in> S" "x \<in> S \<Longrightarrow> \<exists>y \<in> S. range_steps env h flags goal len x = Some (Inr y)"
proof -
  let ?g = "range_goal fs goal"
  show "(of_nat ?g, False) \<in> S" using range_goal_bounds [OF ok] by (auto simp: S_def fs_def)
  assume "x \<in> S"
  then obtain s where s: "x = (of_nat s, False)" "first_data fs \<le> s" "s < n_blocks fs" by (auto simp: S_def)
  have l: "0 < unat len" using ok by (simp add: range_ok_def word_less_nat_alt)
  have st: "range_steps env h flags goal len x = Some (to_words (range_step_spec fs used flags ?g (unat len) s False))"
    using range_steps_spec [OF ok s(2,3) [unfolded fs_def], of False env flags] by (simp add: s(1) fs_def)
  have "\<exists>s'. range_step_spec fs used flags ?g (unat len) s False = Inr (s', False) \<and> first_data fs \<le> s' \<and> s' < n_blocks fs"
  proof (cases "find (\<lambda>k. k div ratio fs \<notin> used) [s..<n_blocks fs]")
    case None
    then have "s \<noteq> first_data fs" using free by (auto simp: find_upt_None)
    then show ?thesis using None fl s by (simp add: range_step_spec_def)
  next
    case (Some z)
    note z = find_upt_bounds [OF Some] and re = run_end_bounds [OF Some l]
    let ?e = "run_end fs used z (unat len)"
    have lt: "?e < n_blocks fs"
    proof (rule ccontr)
      assume "\<not> ?e < n_blocks fs"
      then have "z \<le> n_blocks fs - 1" "n_blocks fs - 1 < ?e" using z re by auto
      then show False using re(4) last by blast
    qed
    have "\<not> unat len \<le> ?e - z"
    proof
      assume "unat len \<le> ?e - z"
      then have "?e = z + unat len" using re(1,3) by simp
      then show False using short [of z] re(2,4) z s(2) by auto
    qed
    then show ?thesis using Some fl lt s(2) z re(1) by (simp add: range_step_spec_def)
  qed
  then obtain s' where s': "range_step_spec fs used flags ?g (unat len) s False = Inr (s', False)" "first_data fs \<le> s'" "s' < n_blocks fs" by blast
  then have "(of_nat s', False) \<in> S" "range_steps env h flags goal len x = Some (Inr (of_nat s', False))"
    using st by (auto simp: to_words_def S_def)
  then show "\<exists>y \<in> S. range_steps env h flags goal len x = Some (Inr y)" by blast
qed

section \<open>Clearing flags along a run\<close>

lemma clear_uninit_range_state:
  assumes "block_state_ok h used" "first_data (h_fs h) \<le> unat b" "unat z \<le> n_blocks (h_fs h)" "per_group (h_fs h) + n_blocks (h_fs h) \<le> 2 ^ 64"
  shows "\<exists>fs'. clear_uninit_range (h_fs h) b z = Some fs' \<and> block_state_ok (h\<lparr>h_fs := fs'\<rparr>) used \<and> same_layout (h_fs h) fs'"
  using assms
proof (induction "unat z - unat b" arbitrary: h b rule: less_induct)
  case less
  let ?fs = "h_fs h"
  have a: "alloc_ok ?fs" using less.prems(1) by (simp add: block_state_ok_def)
  note ad = alloc_okD [OF a]
  show ?case
  proof (cases "b < z")
    case False
    then have "clear_uninit_range ?fs b z = Some ?fs" by (simp add: clear_uninit_range.simps)
    then show ?thesis using less.prems(1) by (simp add: same_layout_def)
  next
    case True
    then have lt: "unat b < unat z" by (simp add: word_less_nat_alt)
    obtain g where g: "ext2fs_group_of_blk2 ?fs b = Some g" "unat g < n_groups ?fs"
      using group_of_blk2_spec [OF ad(1) less.prems(2) less_le_trans [OF lt less.prems(3)]] by blast
    obtain fs1 where f: "ext2fs_clear_block_uninit ?fs g = Some fs1" "block_state_ok (h\<lparr>h_fs := fs1\<rparr>) used" "same_layout ?fs fs1"
      using clear_uninit_state [OF less.prems(1) g(2)] by blast
    let ?b = "b + ucast (s_blocks_per_group (fs_super fs1)) :: w64"
    have pg: "unat (ucast (s_blocks_per_group (fs_super fs1)) :: w64) = per_group ?fs" using f(3) by (simp add: same_layout_def per_group_def)
    have "0 < per_group ?fs" using ad(1) by (simp add: geometry_ok_def)
    moreover have "unat b + per_group ?fs < 2 ^ 64" using lt less.prems(3,4) by linarith
    then have ub: "unat ?b = unat b + per_group ?fs" using pg by (simp add: unat_word_ariths)
    ultimately have "unat z - unat ?b < unat z - unat b" using lt by simp
    from less.hyps [OF this f(2)] obtain fs' where
      r: "clear_uninit_range fs1 ?b z = Some fs'" "block_state_ok (h\<lparr>h_fs := fs'\<rparr>) used" "same_layout fs1 fs'"
      using less.prems(2-4) ub f(3) by (auto simp: same_layout_def)
    have "clear_uninit_range ?fs b z = Some fs'" using True g(1) f(1) r(1) by (subst clear_uninit_range.simps) simp
    then show ?thesis using r f(3) by (simp add: same_layout_def)
  qed
qed

section \<open>Properties\<close>

lemma new_range_done_state:
  assumes st: "block_state_ok h used" "per_group (h_fs h) + n_blocks (h_fs h) \<le> 2 ^ 64"
    and run: "case r of Inl e \<Rightarrow> True | Inr (a, z) \<Rightarrow> good_run (h_fs h) used flags g len (unat a) (unat z)"
  shows "\<exists>h'. new_range_done h r = Some (map_sum id (\<lambda>(a, z). (a, z - a)) r, h') \<and> block_state_ok h' used"
proof (cases r)
  case (Inr p)
  obtain a z where p: "p = (a, z)" by (cases p)
  then show ?thesis using run Inr clear_uninit_range_state [OF st(1) _ _ st(2), of a z] by (auto simp: new_range_done_def good_run_def)
qed (use st in \<open>simp add: new_range_done_def\<close>)

lemma good_run_length:
  "good_run fs used flags g len (unat a) (unat z) \<Longrightarrow> unat z = unat a + unat (z - a :: w64)"
  by (simp add: good_run_def unat_sub word_le_nat_alt)

text \<open>C10. A run of free blocks. When \<^verbatim>\<open>ext2fs_new_range\<close> returns a run, it lies in the file system, every block of it is free, it starts
  at the goal if that is fixed, it has the length asked for if that is the minimum, and otherwise it is as long as the request and the next
  block in use allow; otherwise it returns the error that allocation failed. Bitmap, free counts and checksums stay consistent. With a fixed goal or
  without a minimum it always returns, and fails only when there is no such run.\<close>

theorem new_range_correct:
  assumes "range_ok h used goal len" "flags AND NOT 3 = 0"
  shows "(\<forall>r h'. ext2fs_new_range (bmap_ops env) cb h flags goal len None = Some (r, h') \<longrightarrow>
            block_state_ok h' used \<and>
            (case r of Inl e \<Rightarrow> e = EXT2_ET_BLOCK_ALLOC_FAIL
             | Inr (pblk, plen) \<Rightarrow> good_run (h_fs h) used flags (range_goal (h_fs h) goal) (unat len) (unat pblk) (unat pblk + unat plen))) \<and>
         (\<not> min_length flags \<or> fixed flags \<longrightarrow>
            (\<exists>r h'. ext2fs_new_range (bmap_ops env) cb h flags goal len None = Some (r, h') \<and>
               (r = Inl EXT2_ET_BLOCK_ALLOC_FAIL \<longrightarrow>
                  (if fixed flags then \<forall>z. \<not> good_run (h_fs h) used flags (range_goal (h_fs h) goal) (unat len) (range_goal (h_fs h) goal) z
                   else \<forall>k \<in> {first_data (h_fs h)..<n_blocks (h_fs h)}. k div ratio (h_fs h) \<in> used))))"
proof -
  let ?fs = "h_fs h" and ?g = "range_goal (h_fs h) goal"
  let ?rep = "repeat_step (range_steps env h flags goal len) (of_nat ?g, False)"
  have st: "block_state_ok h used" "per_group ?fs + n_blocks ?fs \<le> 2 ^ 64" using assms(1) by (simp_all add: range_ok_def)
  note rd = new_range_done_state [OF st, where flags = flags and g = ?g and len = "unat len"]
  note u = new_range_unfold [OF assms, of env cb] and res = repeat_range_result [OF assms(1), of env flags]
  show ?thesis
  proof (intro conjI allI impI, goal_cases)
    case (1 r h')
    then obtain r0 where r0: "?rep = Some r0" "new_range_done h r0 = Some (r, h')" using u by (auto simp: bind_eq_Some_conv)
    then show ?case using rd [of r0] res [OF r0(1)] by (auto split: sum.splits)
  next
    case (2 r h')
    then obtain r0 where r0: "?rep = Some r0" "new_range_done h r0 = Some (r, h')" using u by (auto simp: bind_eq_Some_conv)
    note g = res [OF r0(1)]
    show ?case
    proof (cases r0)
      case (Inr p)
      obtain a z where p: "p = (a, z)" by (cases p)
      have gr: "good_run ?fs used flags ?g (unat len) (unat a) (unat z)" using g Inr p by simp
      have "r = Inr (a, z - a)" using rd [of r0] r0(2) Inr p gr by auto
      then show ?thesis using gr good_run_length [OF gr] by simp
    qed (use g r0(2) in \<open>auto simp: new_range_done_def\<close>)
  next
    case 3
    obtain r0 where r0: "?rep = Some r0" "r0 = Inl EXT2_ET_BLOCK_ALLOC_FAIL \<longrightarrow>
        (if fixed flags then \<forall>z. \<not> good_run ?fs used flags ?g (unat len) ?g z else \<forall>k \<in> {first_data ?fs..<n_blocks ?fs}. k div ratio ?fs \<in> used)"
      using repeat_range_returns [OF assms(1) 3, of env] by blast
    obtain h' where h': "new_range_done h r0 = Some (map_sum id (\<lambda>(a, z). (a, z - a)) r0, h')" using rd [of r0] res [OF r0(1)] by (auto split: sum.splits)
    have "ext2fs_new_range (bmap_ops env) cb h flags goal len None = Some (map_sum id (\<lambda>(a, z). (a, z - a)) r0, h')" using u r0(1) h' by simp
    moreover have "map_sum id (\<lambda>(a, z). (a, z - a)) r0 = Inl EXT2_ET_BLOCK_ALLOC_FAIL \<Longrightarrow> r0 = Inl EXT2_ET_BLOCK_ALLOC_FAIL" by (cases r0) auto
    ultimately show ?case using r0(2) by blast
  qed
qed

lemma alloc_range_ok: "range_ok alloc_handle {1, 2, 9, 17} 5 3"
proof -
  have "h_fs alloc_handle = alloc_fs" "h_new_range alloc_handle = None" by (simp_all add: alloc_handle_def)
  then show ?thesis using alloc_handle_ok by (simp add: range_ok_def)
qed

theorem new_range_correct_witness:
  "\<forall>env. \<exists>r h'. ext2fs_new_range (bmap_ops env) no_callbacks alloc_handle 0 5 3 None = Some (r, h') \<and> block_state_ok h' {1, 2, 9, 17} \<and>
     (\<exists>a n. r = Inr (a, n) \<and> good_run alloc_fs {1, 2, 9, 17} 0 5 3 (unat a) (unat a + unat n))"
proof
  fix env
  have f: "h_fs alloc_handle = alloc_fs" by (simp add: alloc_handle_def)
  have g: "range_goal alloc_fs 5 = 5" "\<not> fixed 0" "\<not> min_length 0" by (simp_all add: range_goal_def fixed_def min_length_def)
  have z: "(0 :: u32) AND NOT 3 = 0" by simp
  note p = new_range_correct [OF alloc_range_ok z, of env no_callbacks, unfolded f g(1)]
  obtain r h' where r: "ext2fs_new_range (bmap_ops env) no_callbacks alloc_handle 0 5 3 None = Some (r, h')"
      "r \<noteq> Inl EXT2_ET_BLOCK_ALLOC_FAIL"
    using conjunct2 [OF p] g(2,3) by (auto dest: bspec [of _ _ 3])
  have "block_state_ok h' {1, 2, 9, 17} \<and> (case r of Inl e \<Rightarrow> e = EXT2_ET_BLOCK_ALLOC_FAIL
      | Inr (pblk, plen) \<Rightarrow> good_run alloc_fs {1, 2, 9, 17} 0 5 (unat (3 :: w64)) (unat pblk) (unat pblk + unat plen))"
    using conjunct1 [OF p] r(1) by blast
  then show "\<exists>r h'. ext2fs_new_range (bmap_ops env) no_callbacks alloc_handle 0 5 3 None = Some (r, h') \<and> block_state_ok h' {1, 2, 9, 17} \<and>
     (\<exists>a n. r = Inr (a, n) \<and> good_run alloc_fs {1, 2, 9, 17} 0 5 3 (unat a) (unat a + unat n))" using r by (cases r) auto
qed

text \<open>C12. A search without end. With a minimal length, no fixed goal, some block free, no run of the length free, and the last block in use,
  \<^verbatim>\<open>ext2fs_new_range\<close> never returns: no step of its loop touches memory it should not or ends the loop, since the scan that starts again
  after the last free block does not remember that it has been round.\<close>

theorem new_range_never_returns:
  assumes "range_ok h used goal len" "(n_blocks (h_fs h) - 1) div ratio (h_fs h) \<in> used"
    "\<exists>k \<in> {first_data (h_fs h)..<n_blocks (h_fs h)}. k div ratio (h_fs h) \<notin> used"
    "\<And>a. first_data (h_fs h) \<le> a \<Longrightarrow> a + unat len \<le> n_blocks (h_fs h) \<Longrightarrow> \<exists>k \<in> {a..<a + unat len}. k div ratio (h_fs h) \<in> used"
  shows "ext2fs_new_range (bmap_ops env) cb h 2 goal len None = None \<and>
    (\<exists>S. (of_nat (range_goal (h_fs h) goal), False) \<in> S \<and> (\<forall>x \<in> S. \<exists>y \<in> S. range_steps env h 2 goal len x = Some (Inr y)))"
proof -
  let ?S = "{(of_nat s, False) | s. first_data (h_fs h) \<le> s \<and> s < n_blocks (h_fs h)} :: (w64 \<times> bool) set"
  have fl: "min_length 2" "\<not> fixed 2" "(2 :: u32) AND NOT 3 = 0" by (simp_all add: min_length_def fixed_def)
  note S = range_forever [OF assms(1) fl(1,2) assms(2-4)]
  have "repeat_step (range_steps env h 2 goal len) (of_nat (range_goal (h_fs h) goal), False) = None"
    by (rule repeat_step_forever [where S = ?S]) (use S in blast)+
  then show ?thesis using new_range_unfold [OF assms(1) fl(3), of env cb] S by (intro conjI exI [of _ ?S]) auto
qed

definition tight_handle :: "priv handle" where
  "tight_handle = alloc_handle\<lparr>h_block_map := Some (B64 (alloc_map [3, 1, 4]))\<rparr>"

lemma tight_map_set: "bm_set (alloc_map [3, 1, 4]) = {1, 2, 9, 19}"
proof -
  have "filter (\<lambda>n. bit ([3, 1, 4 :: u8] ! ((n - 1) div 8)) ((n - 1) mod 8)) [1..<25] = [1, 2, 9, 19]" by code_simp
  then show ?thesis by (simp only: alloc_map_set list.size) simp
qed

lemma tight_counts: "counts_ok alloc_fs {1, 2, 9, 19}"
proof -
  have "card ({1..8} - {1, 2, 9, 19 :: nat}) = card ({1..8} - {1, 2, 9, 17 :: nat})" "card ({9..16} - {1, 2, 9, 19 :: nat}) = card ({9..16} - {1, 2, 9, 17 :: nat})"
    "card ({17..19} - {1, 2, 9, 19 :: nat}) = card ({17..19} - {1, 2, 9, 17 :: nat})" "card ({1..19} - {1, 2, 9, 19 :: nat}) = card ({1..19} - {1, 2, 9, 17 :: nat})"
    by code_simp+
  note c = this [folded alloc_group_clusters]
  have "card (group_clusters alloc_fs (unat g) - {1, 2, 9, 19}) = card (group_clusters alloc_fs (unat g) - {1, 2, 9, 17})" if "unat g < 3" for g :: u32
  proof -
    consider "unat g = 0" | "unat g = 1" | "unat g = 2" using \<open>unat g < 3\<close> by linarith
    then show ?thesis by cases (simp_all only: c)
  qed
  then show ?thesis using alloc_fs_counts unfolding counts_ok_def alloc_fs_sel c by auto
qed

lemma tight_range_ok: "range_ok tight_handle {1, 2, 9, 19} 5 10"
proof -
  have "h_fs tight_handle = alloc_fs" "h_new_range tight_handle = None" by (simp_all add: tight_handle_def alloc_handle_def)
  moreover have "block_state_ok tight_handle {1, 2, 9, 19}"
    using alloc_handle_ok alloc_map_ok [of "[3, 1, 4]"] tight_map_set tight_counts by (simp add: block_state_ok_def tight_handle_def alloc_handle_def)
  ultimately show ?thesis by (simp add: range_ok_def)
qed

theorem new_range_never_returns_witness:
  "\<forall>env. ext2fs_new_range (bmap_ops env) no_callbacks tight_handle 2 5 10 None = None"
proof -
  have f: "h_fs tight_handle = alloc_fs" by (simp add: tight_handle_def alloc_handle_def)
  have "\<exists>k \<in> {a..<a + 10}. k \<in> {1, 2, 9, 19}" if "1 \<le> a" "a + 10 \<le> 20" for a :: nat
    using that by (cases "a \<le> 9") (auto intro: bexI [of _ 9] bexI [of _ 19])
  then have s: "\<exists>k \<in> {a..<a + unat (10 :: w64)}. k div ratio alloc_fs \<in> {1, 2, 9, 19}"
    if "first_data alloc_fs \<le> a" "a + unat (10 :: w64) \<le> n_blocks alloc_fs" for a using that by simp
  have "\<exists>k \<in> {1..<20 :: nat}. k \<notin> {1, 2, 9, 19}" by (intro bexI [of _ 3]) auto
  then show ?thesis using new_range_never_returns [OF tight_range_ok, unfolded f, OF _ _ s, of _ no_callbacks] by simp
qed

end
