(* ===== verification/Alloc_Free_Run.thy ===== *)
theory Alloc_Free_Run
  imports Alloc_Range
begin

unbundle bit_operations_syntax

text \<open>
  The older search for a run, \<^verbatim>\<open>ext2fs_get_free_blocks2\<close>: it never looks at the length again after it has gone round, and a bitmap
  answers a range outside of it with an error code, which counts as true.
\<close>

lemma scast_pos: "unat num < 2 ^ 31 \<Longrightarrow> (scast num :: w64) = of_nat (unat num)" for num :: u32
proof -
  assume "unat num < 2 ^ 31"
  then have "int (unat num) < int (2 ^ 31)" by (simp only: of_nat_less_iff)
  then have u: "uint num < 2 ^ 31" by (simp only: of_nat_power of_nat_numeral uint_nat)
  have "sint num = uint num" unfolding sint_uint by (rule signed_take_bit_int_eq_self) (use u in \<open>simp_all add: order_trans [of _ 0]\<close>)
  then have "sint num = int (unat num)" by (simp only: uint_nat)
  then show ?thesis by (metis of_int_of_nat_eq of_int_sint)
qed

lemma aligned_start_bounds:
  assumes ok: "alloc_ok fs" and r: "2 ^ k = ratio fs" and start: "first_data fs \<le> unat start" "unat start < n_blocks fs"
    and a0: "a0 = (if start = 0 then ucast (s_first_data_block (fs_super fs)) else start :: w64) AND NOT (mask k)"
  shows "first_data fs \<le> unat a0" "unat a0 < n_blocks fs"
proof -
  note ad = alloc_okD [OF ok]
  let ?s = "if start = 0 then first_data fs else unat start"
  have u: "unat a0 = ?s div ratio fs * ratio fs" unfolding a0 unat_align r by (simp add: first_data_def)
  have "first_data fs div ratio fs * ratio fs \<le> ?s div ratio fs * ratio fs" using start(1) by (intro mult_le_mono1 div_le_mono) simp
  then show "first_data fs \<le> unat a0" using u ad(7) by simp
  have "unat a0 \<le> ?s" unfolding u by (rule div_times_less_eq_dividend)
  then show "unat a0 < n_blocks fs" using start(2) ad(5) by (simp split: if_splits)
qed

lemma unat_run_last:
  fixes a0 :: w64 and num :: u32
  assumes "unat a0 + 2 ^ 31 < 2 ^ 64" "1 \<le> unat num" "unat num < 2 ^ 31"
  shows "unat (a0 + scast num - 1) = unat a0 + unat num - 1"
proof -
  have n: "unat (of_nat (unat num) :: w64) = unat num" using assms(3) by (simp add: unat_of_nat)
  have "unat (a0 + scast num) = unat a0 + unat num" unfolding scast_pos [OF assms(3)] using assms n by (simp add: unat_word_ariths)
  then show ?thesis using assms(2) by (simp add: unat_sub word_le_nat_alt)
qed

lemma test_range_beyond_end:
  assumes ok: "alloc_ok fs" "block_map_ok fs b" and num: "unat num < 2 ^ 31" "n_blocks fs + ratio fs \<le> first_data fs + unat num" "n_blocks fs + 2 ^ 32 \<le> 2 ^ 64"
  shows "\<exists>r b'. ext2fs_test_block_bitmap_range2 (bmap_ops env) (Some (B64 b)) (first_data fs) (unat (num :: u32)) = Some (r, Some (B64 b')) \<and> r \<noteq> 0"
proof -
  let ?r = "ratio fs" and ?n = "first_data fs + unat num - 1"
  note ad = alloc_okD [OF ok(1)]
  have bd: "bm_inv b" "EXT2FS_IS_64_BITMAP (bm_magic b)" "bm_cluster_bits b = ext2_filsys.fs_cluster_ratio_bits fs"
    "bm_end b = (n_blocks fs - 1) div ?r" using ok(2) by (simp_all add: block_map_ok_def)
  have rr: "(2 :: nat) ^ bm_cluster_bits b = ?r" by (simp add: bd(3) ratio_def)
  have r31: "?r < 2 ^ 31" using power_strict_increasing [OF ad(3), of "2 :: nat"] by (simp add: ratio_def)
  have n: "unat num \<noteq> 0" using num(2) ad(5) by auto
  then have good: "good_range (view b) (first_data fs) (unat num)" using num(1,3) ad(3,5) r31 bd(3) unfolding good_range_def view_sel rr by simp
  have "n_blocks fs - 1 + ?r \<le> ?n" using num(2) ad(5) by simp
  then have "(n_blocks fs - 1) div ?r + 1 \<le> ?n div ?r" using div_le_mono [of _ _ ?r] ad(4) by (metis div_add_self2 not_less_zero)
  then have "\<not> accepts (view b) (cluster_of (view b) ?n)" by (simp add: accepts_def cluster_of_def rr bd(4))
  moreover have "?n \<in> {first_data fs..<first_data fs + unat num}" using n by auto
  then have "cluster_of (view b) ?n \<in> clusters_of (view b) (first_data fs) (unat num)" by (simp add: clusters_of_def)
  ultimately show ?thesis using bm.gen_test_range [OF bd(1,2) good, of env] by blast
qed

text \<open>C13. A run that does not fit. When more blocks are asked for than the file system has, and the search may go round,
  \<^verbatim>\<open>ext2fs_get_free_blocks2\<close> reports success with the first data block, whatever is in use.\<close>

theorem get_free_blocks2_too_long:
  assumes "block_state_ok h used" "first_data (h_fs h) \<le> unat start" "unat start < n_blocks (h_fs h)"
    "unat num < 2 ^ 31" "n_blocks (h_fs h) + ratio (h_fs h) \<le> first_data (h_fs h) + unat num" "n_blocks (h_fs h) + 2 ^ 32 \<le> 2 ^ 64"
  shows "\<exists>bm. ext2fs_get_free_blocks2 (bmap_ops env) h start 0 num None = Some (Inr (of_nat (first_data (h_fs h))), bm)"
proof -
  let ?fs = "h_fs h"
  have a: "alloc_ok ?fs" "h_magic h = EXT2_ET_MAGIC_EXT2FS_FILSYS" using assms(1) by (simp_all add: block_state_ok_def)
  note ad = alloc_okD [OF a(1)]
  obtain b where b: "h_block_map h = Some (B64 b)" "block_map_ok ?fs b" using assms(1) by (auto simp: block_state_ok_def)
  have bd: "EXT2FS_IS_64_BITMAP (bm_magic b)" "bm_cluster_bits b = ext2_filsys.fs_cluster_ratio_bits ?fs" using b(2) by (simp_all add: block_map_ok_def)
  define a0 where "a0 = (if start = 0 then ucast (s_first_data_block (fs_super ?fs)) else start) AND NOT (mask (bm_cluster_bits b))"
  define fin where "fin = start AND NOT (mask (bm_cluster_bits b))"
  have fin: "fin \<le> start" unfolding fin_def word_le_nat_alt unat_align by simp
  have at: "first_data ?fs \<le> unat a0" "unat a0 < n_blocks ?fs"
    using aligned_start_bounds [OF a(1) _ assms(2,3) a0_def] by (simp_all add: bd(2) ratio_def)
  have n: "1 \<le> unat num" "num \<noteq> 0" using assms(5) ad(5) by auto
  have "unat (a0 + scast num - 1) = unat a0 + unat num - 1" using at(2) assms(4,6) n(1) by (intro unat_run_last) simp_all
  then have beyond: "a0 + scast num - 1 \<ge> ext2fs_blocks_count (fs_super ?fs)"
    using assms(5) at(1) ad(4) by (simp add: word_le_nat_alt n_blocks_def [symmetric])
  obtain r b' where t: "ext2fs_test_block_bitmap_range2 (bmap_ops env) (Some (B64 b)) (first_data ?fs) (unat num) = Some (r, Some (B64 b'))" "r \<noteq> 0"
    using test_range_beyond_end [OF a(1) b(2) assms(4-6), of env] by blast
  have "free_blocks_step (bmap_ops env) ?fs start fin num (of_nat (2 ^ bm_cluster_bits b)) (a0, Some (B64 b)) =
      Some (Inl (Inr (of_nat (first_data ?fs)), Some (B64 b')))"
    using fin beyond t by (simp add: free_blocks_step_def Let_def first_data_def)
  then have "repeat_step (free_blocks_step (bmap_ops env) ?fs start fin num (of_nat (2 ^ bm_cluster_bits b))) (a0, Some (B64 b)) =
      Some (Inr (of_nat (first_data ?fs)), Some (B64 b'))" by (rule repeat_step_done)
  then show ?thesis
    using a(2) b(1) bd ad(3) n(2)
    by (simp add: ext2fs_get_free_blocks2_def Let_def ext2fs_get_bitmap_granularity_def align_down_def fin_def a0_def)
qed

theorem get_free_blocks2_too_long_witness:
  "\<forall>env. \<exists>bm. ext2fs_get_free_blocks2 (bmap_ops env) alloc_handle 5 0 40 None = Some (Inr 1, bm)"
proof -
  have f: "h_fs alloc_handle = alloc_fs" by (simp add: alloc_handle_def)
  show ?thesis using get_free_blocks2_too_long [OF alloc_handle_ok, of 5 40] by (simp add: f)
qed

end
