(* ===== verification/Alloc_Inode.thy ===== *)
theory Alloc_Inode
  imports Alloc_Session Inode_Bitmap
begin

unbundle bit_operations_syntax

text \<open>
  Correctness of the allocation of inodes: \<^verbatim>\<open>ext2fs_new_inode\<close> always ends and returns a free inode if there is one,
  and \<^verbatim>\<open>ext2fs_inode_alloc_stats2\<close> keeps the free counts, the high-water mark of the inode tables and the checksums.
\<close>

section \<open>Layout\<close>

definition per_ino :: "ext2_filsys \<Rightarrow> nat" where "per_ino fs = unat (s_inodes_per_group (fs_super fs))"
definition n_inodes :: "ext2_filsys \<Rightarrow> nat" where "n_inodes fs = unat (s_inodes_count (fs_super fs))"
definition first_ino :: "ext2_filsys \<Rightarrow> nat" where "first_ino fs = unat (EXT2_FIRST_INO (fs_super fs))"

definition group_inodes :: "ext2_filsys \<Rightarrow> nat \<Rightarrow> nat set" where
  "group_inodes fs g = {g * per_ino fs + 1..g * per_ino fs + per_ino fs}"

definition inode_ok :: "ext2_filsys \<Rightarrow> bool" where
  "inode_ok fs \<longleftrightarrow>
     csum_ok fs \<and> 0 < per_ino fs \<and> 1 \<le> first_ino fs \<and> first_ino fs \<le> n_inodes fs \<and> n_inodes fs = n_groups fs * per_ino fs \<and>
     n_inodes fs + per_ino fs + 1 < 2 ^ 32"

abbreviation inode_map_ok :: "ext2_filsys \<Rightarrow> bmap64 \<Rightarrow> bool" where
  "inode_map_ok fs b \<equiv> inode_bits_ok (n_inodes fs) b"

text \<open>The groups whose part of the bitmap was never written, and their inodes.\<close>

definition uninit_group :: "ext2_filsys \<Rightarrow> u32 \<Rightarrow> bool" where
  "uninit_group fs g \<longleftrightarrow> ext2fs_has_group_desc_csum fs \<and> ext2fs_bg_flags_test fs g 1 \<noteq> Some 0"

definition uninit_inodes :: "ext2_filsys \<Rightarrow> nat set" where
  "uninit_inodes fs = {k. \<exists>g. unat g < n_groups fs \<and> uninit_group fs g \<and> k \<in> group_inodes fs (unat g)}"

text \<open>Some inode of an initialised group is in use, as the reserved inodes of group 0 are, so the bitmap is never empty.\<close>

definition some_used :: "ext2_filsys \<Rightarrow> nat set \<Rightarrow> bool" where
  "some_used fs used \<longleftrightarrow> \<not> used \<subseteq> uninit_inodes fs"

lemmas inode_map_ops = inode_bits_ops [where n = "n_inodes fs" for fs]

section \<open>An uninitialised group\<close>

lemma unmark_inodes_spec:
  assumes "inode_map_ok fs b" "unat ino + n < 2 ^ 32"
  shows "\<exists>b'. unmark_inodes (bmap_ops env) n ino (Some (B64 b)) = Some (Some (B64 b')) \<and> inode_map_ok fs b' \<and>
    bm_set b' = bm_set b - ({unat ino..<unat ino + n} \<inter> {1..n_inodes fs})"
  using assms
proof (induction n arbitrary: ino b)
  case (Suc n)
  obtain r b1 where 1: "ext2fs_unmark_generic_bmap (bmap_ops env) (Some (B64 b)) (unat ino) = Some (r, Some (B64 b1))" "inode_map_ok fs b1"
      "bm_set b1 = (if 1 \<le> unat ino \<and> unat ino \<le> n_inodes fs then bm_set b - {unat ino} else bm_set b)"
    using inode_map_ops(1) [OF Suc.prems(1), of env "unat ino"] by blast
  have u: "unat (ino + 1) = unat ino + 1" using Suc.prems(2) by (simp add: unat_word_ariths)
  obtain b' where "unmark_inodes (bmap_ops env) n (ino + 1) (Some (B64 b1)) = Some (Some (B64 b'))" "inode_map_ok fs b'"
      "bm_set b' = bm_set b1 - ({unat ino + 1..<unat ino + 1 + n} \<inter> {1..n_inodes fs})"
    using Suc.IH [OF 1(2), of "ino + 1"] Suc.prems(2) by (auto simp: u)
  moreover have "{unat ino..<unat ino + Suc n} = insert (unat ino) {unat ino + 1..<unat ino + 1 + n}" by auto
  ultimately show ?case using 1 by auto
qed simp

lemma check_inode_uninit_spec:
  assumes ok: "inode_ok fs" "inode_map_ok fs b" "unat g < n_groups fs"
  shows "\<exists>fs1 b1. check_inode_uninit (bmap_ops env) fs (Some (B64 b)) g = Some (fs1, Some (B64 b1)) \<and> inode_map_ok fs1 b1 \<and>
    fs_change g {Flags, Checksum} fs fs1 \<and> fs_super fs1 = fs_super fs \<and> (csum_valid fs g \<longrightarrow> csum_valid fs1 g) \<and>
    bm_set b1 = (if uninit_group fs g then bm_set b - group_inodes fs (unat g) else bm_set b) \<and> (\<not> uninit_group fs g \<longrightarrow> fs1 = fs)"
proof -
  have lt: "\<not> g \<ge> ext2_filsys.fs_group_desc_count fs" using ok(3) by (simp add: n_groups_def word_less_nat_alt not_le)
  have cs: "csum_ok fs" using ok(1) by (simp add: inode_ok_def)
  obtain old fs1 where 1: "ext2fs_bg_flags_clear fs g 1 = Some fs1" "desc_change g {Flags} fs fs1" "ext2fs_bg_flags_test fs g 1 = Some (old AND 1)"
    using flags_update [OF cs ok(3), of 1] by blast
  show ?thesis
  proof (cases "ext2fs_has_group_desc_csum fs \<and> old AND 1 \<noteq> 0")
    case False
    then have "check_inode_uninit (bmap_ops env) fs (Some (B64 b)) g = Some (fs, Some (B64 b))" using lt 1(3) by (auto simp: check_inode_uninit_def)
    then show ?thesis using False 1(3) ok fs_change_refl by (auto simp: uninit_group_def)
  next
    case True
    have cs1: "csum_ok fs1" "unat g < n_groups fs1" using desc_changeD(2,3) [OF 1(2)] cs ok(3) by simp_all
    obtain fs2 fs3 where 2: "ext2fs_bg_flags_clear fs1 g 2 = Some fs2" "ext2fs_group_desc_csum_set fs2 g = Some fs3" "csum_valid fs3 g"
        "desc_change g {Flags, Checksum} fs1 fs3"
      using clear_flag_csum [OF cs1] by blast
    have d: "desc_change g {Flags, Checksum} fs fs3" by (rule desc_change_mono [OF desc_change_trans [OF 1(2) 2(4)]]) auto
    have cs3: "csum_ok fs3" "unat g < n_groups fs3" using desc_changeD(2,3) [OF d] cs ok(3) by simp_all
    let ?ino = "g * s_inodes_per_group (fs_super fs) + 1"
    have gp: "Suc (unat g) * per_ino fs \<le> n_inodes fs" using ok(1,3) by (simp add: inode_ok_def) (metis Suc_leI mult_Suc mult_le_mono1)
    have ui: "unat ?ino = unat g * per_ino fs + 1"
      using gp ok(1) by (simp add: unat_word_ariths per_ino_def [symmetric] inode_ok_def)
    obtain b1 where b1: "unmark_inodes (bmap_ops env) (per_ino fs) ?ino (Some (B64 b)) = Some (Some (B64 b1))" "inode_map_ok fs b1"
        "bm_set b1 = bm_set b - ({unat ?ino..<unat ?ino + per_ino fs} \<inter> {1..n_inodes fs})"
      using unmark_inodes_spec [OF ok(2), of ?ino "per_ino fs" env] ui gp ok(1) by (auto simp: inode_ok_def)
    have "{unat ?ino..<unat ?ino + per_ino fs} \<inter> {1..n_inodes fs} = group_inodes fs (unat g)"
      using gp by (auto simp: ui group_inodes_def)
    moreover obtain x where x: "ext2fs_mark_super_dirty (ext2fs_mark_ib_dirty fs3) = fs3\<lparr>fs_flags := x\<rparr>"
      by (simp add: ext2fs_mark_super_dirty_def ext2fs_mark_ib_dirty_def)
    moreover have "inode_map_ok (fs3\<lparr>fs_flags := x\<rparr>) b1" using b1(2) desc_changeD(1) [OF d] by (simp add: n_inodes_def)
    ultimately show ?thesis
      using True lt 1 2 b1 fs_change_desc [OF d, of x] desc_changeD(1) [OF d] flags_only(1) [OF cs3, of x]
      by (auto simp: check_inode_uninit_def uninit_group_def per_ino_def [symmetric])
  qed
qed

section \<open>The search\<close>

text \<open>A state that the search reaches from a file system and the inodes in use there.\<close>

definition inode_search :: "ext2_filsys \<Rightarrow> nat set \<Rightarrow> ext2_filsys \<Rightarrow> bmap64 \<Rightarrow> bool" where
  "inode_search fs used fs' b \<longleftrightarrow>
     csum_ok fs' \<and> inode_map_ok fs' b \<and> fs_super fs' = fs_super fs \<and> n_groups fs' = n_groups fs \<and>
     (\<forall>g. unat g < n_groups fs \<longrightarrow>
        (csum_valid fs g \<longrightarrow> csum_valid fs' g) \<and> (uninit_group fs' g \<longrightarrow> uninit_group fs g) \<and>
        (\<forall>f. f \<noteq> Flags \<and> f \<noteq> Checksum \<longrightarrow> bg_get f fs' g = bg_get f fs g)) \<and>
     bm_set b \<subseteq> used \<and> used - bm_set b \<subseteq> uninit_inodes fs"

lemma inode_search_layout:
  assumes "inode_search fs used fs' b"
  shows "per_ino fs' = per_ino fs" "n_inodes fs' = n_inodes fs" "first_ino fs' = first_ino fs" "inode_ok fs \<Longrightarrow> inode_ok fs'"
    "group_inodes fs' g = group_inodes fs g"
proof -
  have e: "fs_super fs' = fs_super fs" "n_groups fs' = n_groups fs" using assms by (simp_all add: inode_search_def)
  then show 1: "per_ino fs' = per_ino fs" "n_inodes fs' = n_inodes fs" "first_ino fs' = first_ino fs"
    by (simp_all add: per_ino_def n_inodes_def first_ino_def)
  show "group_inodes fs' g = group_inodes fs g" by (simp add: group_inodes_def 1)
  show "inode_ok fs \<Longrightarrow> inode_ok fs'" using 1 e assms by (auto simp: inode_ok_def inode_search_def)
qed

lemma group_inodes_disjoint: "k \<in> group_inodes fs g \<Longrightarrow> k \<in> group_inodes fs g' \<Longrightarrow> g = g'"
proof -
  have "g = (k - 1) div per_ino fs" if "k \<in> group_inodes fs g" for g
    using that by (auto simp: group_inodes_def mult.commute intro!: div_nat_eqI [symmetric])
  then show "k \<in> group_inodes fs g \<Longrightarrow> k \<in> group_inodes fs g' \<Longrightarrow> g = g'" by metis
qed

lemma inode_search_refl: "inode_ok fs \<Longrightarrow> inode_map_ok fs b \<Longrightarrow> inode_search fs (bm_set b) fs b"
  by (simp add: inode_search_def inode_ok_def)

lemma inode_search_nonempty: "inode_search fs used fs' b \<Longrightarrow> some_used fs used \<Longrightarrow> bm_set b \<noteq> {}"
  by (auto simp: inode_search_def some_used_def)

lemma inode_search_step:
  assumes ok: "inode_ok fs" and s: "inode_search fs used fs' b" and g: "unat g < n_groups fs"
  shows "\<exists>fs1 b1. check_inode_uninit (bmap_ops env) fs' (Some (B64 b)) g = Some (fs1, Some (B64 b1)) \<and> inode_search fs used fs1 b1"
proof -
  have gn: "unat g < n_groups fs'" using s g by (simp add: inode_search_def)
  obtain fs1 b1 where 1: "check_inode_uninit (bmap_ops env) fs' (Some (B64 b)) g = Some (fs1, Some (B64 b1))" "inode_map_ok fs1 b1"
      "fs_change g {Flags, Checksum} fs' fs1" "fs_super fs1 = fs_super fs'" "csum_valid fs' g \<longrightarrow> csum_valid fs1 g"
      "bm_set b1 = (if uninit_group fs' g then bm_set b - group_inodes fs (unat g) else bm_set b)" "\<not> uninit_group fs' g \<longrightarrow> fs1 = fs'"
    using check_inode_uninit_spec [OF inode_search_layout(4) [OF s ok] _ gn, of b env] s inode_search_layout(5) [OF s] by (auto simp: inode_search_def)
  note cd = fs_changeD [OF 1(3)] and cs = s [unfolded inode_search_def]
  have other: "bg_get f fs1 h = bg_get f fs' h" "csum_valid fs1 h = csum_valid fs' h" if "unat h < n_groups fs" "h \<noteq> g" for f h
    using cd(11,12) that gn cs by auto
  have "uninit_group fs h" if h: "unat h < n_groups fs" "uninit_group fs1 h" for h
  proof (cases "h = g")
    case True
    then show ?thesis using 1(7) h cs by blast
  next
    case False
    have "ext2fs_bg_flags fs1 h = ext2fs_bg_flags fs' h" by (rule bg_get_eqD(1) [OF other(1) [OF h(1) False]])
    then have "uninit_group fs' h" using h(2) cd(8) by (simp add: uninit_group_def ext2fs_bg_flags_test_def ext2fs_bg_flags_def)
    then show ?thesis using cs h(1) by blast
  qed
  moreover have "bg_get f fs1 h = bg_get f fs h" if "unat h < n_groups fs" "f \<noteq> Flags" "f \<noteq> Checksum" for f h
    using other(1) [OF that(1), of f] cd(10) [of f] cs that by (cases "h = g") auto
  moreover have "csum_valid fs1 h" if "unat h < n_groups fs" "csum_valid fs h" for h
    using other(2) [OF that(1)] 1(5) cs that by (cases "h = g") auto
  moreover have "used - bm_set b1 \<subseteq> uninit_inodes fs" using 1(6) cs g by (auto simp: uninit_inodes_def split: if_splits)
  ultimately have "inode_search fs used fs1 b1" using 1 cd(1,7) cs by (simp add: inode_search_def) (metis Diff_subset subset_trans)
  then show ?thesis using 1(1) by blast
qed

lemma inode_upto_bounds:
  assumes ok: "inode_ok fs" and i: "1 \<le> unat i" "unat i \<le> n_inodes fs" and s: "unat start \<le> n_inodes fs"
  shows "unat i \<le> unat (inode_upto (fs_super fs) start i)" "unat (inode_upto (fs_super fs) start i) \<le> n_inodes fs"
    "unat i < unat start \<Longrightarrow> unat (inode_upto (fs_super fs) start i) < unat start"
proof -
  let ?ipg = "s_inodes_per_group (fs_super fs)"
  define u where "u = unat i + (per_ino fs - (unat i - 1) mod per_ino fs)"
  have i1: "unat (i - 1) = unat i - 1" using i(1) by (simp add: unat_sub word_le_nat_alt)
  have "unat (?ipg - (i - 1) mod ?ipg) = per_ino fs - (unat i - 1) mod per_ino fs"
    using ok by (simp add: unat_sub word_le_nat_alt unat_mod i1 per_ino_def inode_ok_def)
  moreover have "u < 2 ^ 32"
  proof (rule le_less_trans)
    show "u \<le> n_inodes fs + per_ino fs" unfolding u_def by (rule add_mono [OF i(2) diff_le_self])
    show "n_inodes fs + per_ino fs < 2 ^ 32" using ok by (simp add: inode_ok_def)
  qed
  ultimately have u: "unat (i + (?ipg - (i - 1) mod ?ipg)) = u" unfolding u_def by (simp add: unat_word_ariths)
  have "(unat i - 1) mod per_ino fs < per_ino fs" using ok by (simp add: inode_ok_def)
  then have ui: "unat i < u" unfolding u_def by linarith
  have s1: "unat (start - 1) = unat start - 1" if "unat i < unat start" using that by (simp add: unat_sub word_le_nat_alt)
  have r: "unat (inode_upto (fs_super fs) start i) = min (n_inodes fs) (if unat i < unat start \<and> unat start \<le> u then unat start - 1 else u)"
    using u s1 by (auto simp: inode_upto_def Let_def word_less_nat_alt word_le_nat_alt n_inodes_def)
  show "unat i \<le> unat (inode_upto (fs_super fs) start i)" "unat (inode_upto (fs_super fs) start i) \<le> n_inodes fs"
    "unat i < unat start \<Longrightarrow> unat (inode_upto (fs_super fs) start i) < unat start"
    using r ui i s by (auto simp: min_def)
qed

text \<open>The inodes that were searched before a round, and the number of those that were not.\<close>

definition seen :: "ext2_filsys \<Rightarrow> nat \<Rightarrow> nat \<Rightarrow> nat set" where
  "seen fs start i = (if start \<le> i then {start..<i} else {start..n_inodes fs} \<union> {first_ino fs..<i})"

definition unseen :: "ext2_filsys \<Rightarrow> nat \<Rightarrow> nat \<Rightarrow> nat" where
  "unseen fs start i = (if start \<le> i then n_inodes fs + 1 - i + (start - first_ino fs) else start - i)"

definition next_inode :: "ext2_filsys \<Rightarrow> nat \<Rightarrow> nat" where
  "next_inode fs u = (if u = n_inodes fs then first_ino fs else u + 1)"

lemma seen_next:
  assumes "first_ino fs \<le> start" "start \<le> n_inodes fs" "first_ino fs \<le> i" "i \<le> u" "u \<le> n_inodes fs" "i < start \<longrightarrow> u < start"
    and seen: "seen fs start i \<union> {i..u} \<subseteq> used"
  defines "j \<equiv> next_inode fs u"
  shows "first_ino fs \<le> j" "j \<le> n_inodes fs" "j = start \<Longrightarrow> {first_ino fs..n_inodes fs} \<subseteq> used"
    "j \<noteq> start \<Longrightarrow> seen fs start j \<subseteq> used" "j \<noteq> start \<Longrightarrow> unseen fs start j < unseen fs start i"
proof -
  show "first_ino fs \<le> j" "j \<le> n_inodes fs" "j \<noteq> start \<Longrightarrow> unseen fs start j < unseen fs start i"
    using assms(1-6) unfolding j_def next_inode_def unseen_def by (auto split: if_splits)
  have seen': "k \<in> used" if "k \<in> seen fs start i \<or> (i \<le> k \<and> k \<le> u)" for k using seen that by auto
  show "{first_ino fs..n_inodes fs} \<subseteq> used" if "j = start"
    by (rule subsetI, rule seen') (use that assms(1-6) in \<open>auto simp: j_def next_inode_def seen_def split: if_splits\<close>)
  show "seen fs start j \<subseteq> used" if "j \<noteq> start"
    by (rule subsetI, rule seen') (use that assms(1-6) in \<open>auto simp: j_def next_inode_def seen_def split: if_splits\<close>)
qed

lemma new_inode_loop_spec:
  assumes ok: "inode_ok fs" "some_used fs used" and st: "first_ino fs \<le> unat start" "unat start \<le> n_inodes fs"
    and i: "first_ino fs \<le> unat i" "unat i \<le> n_inodes fs" and s: "inode_search fs used fs' b" "seen fs (unat start) (unat i) \<subseteq> used"
  shows "\<exists>j fs1 b1. new_inode_loop (bmap_ops env) start fs' (Some (B64 b)) i = Some (Inr j, fs1, Some (B64 b1)) \<and> inode_search fs used fs1 b1 \<and>
    first_ino fs \<le> unat j \<and> unat j \<le> n_inodes fs \<and> (unat j \<in> bm_set b1 \<longrightarrow> {first_ino fs..n_inodes fs} \<subseteq> used) \<and>
    seen fs (unat start) (unat j) \<subseteq> used"
  using i s
proof (induction "unseen fs (unat start) (unat i)" arbitrary: i fs' b rule: less_induct)
  case less
  note i = less.prems(1,2)
  have o: "0 < per_ino fs" "1 \<le> first_ino fs" "n_inodes fs = n_groups fs * per_ino fs" "n_inodes fs + 1 < 2 ^ 32" using ok(1) by (simp_all add: inode_ok_def)
  have i1: "1 \<le> unat i" using i o by simp
  define g where "g = (i - 1) div s_inodes_per_group (fs_super fs)"
  have "unat g = (unat i - 1) div per_ino fs" using i1 by (simp add: g_def unat_div per_ino_def unat_sub word_le_nat_alt)
  then have g: "unat g < n_groups fs" using o i i1 by (simp add: div_less_iff_less_mult)
  obtain fs1 b1 where 1: "check_inode_uninit (bmap_ops env) fs' (Some (B64 b)) g = Some (fs1, Some (B64 b1))" "inode_search fs used fs1 b1"
    using inode_search_step [OF ok(1) less.prems(3) g] by blast
  have sup: "fs_super fs' = fs_super fs" "fs_super fs1 = fs_super fs" using less.prems(3) 1(2) by (simp_all add: inode_search_def)
  have gi: "ext2fs_group_of_ino fs' i = Some g" using o(1) by (auto simp: ext2fs_group_of_ino_def sup g_def per_ino_def)
  let ?u = "inode_upto (fs_super fs) start i"
  note u = inode_upto_bounds [OF ok(1) i1 i(2) st(2)]
  have m: "inode_map_ok fs1 b1" "n_inodes fs1 = n_inodes fs" using 1(2) by (simp_all add: inode_search_def inode_search_layout [OF 1(2)])
  obtain r where r: "ext2fs_find_first_zero_generic_bmap (bmap_ops env) (Some (B64 b1)) (unat i) (unat ?u) = Some r"
      "first_in (\<lambda>k. k \<notin> bm_set b1) (unat i) (unat ?u) r"
    using inode_map_ops(4) [OF m(1), of "unat i" "unat ?u" env] i1 u inode_search_nonempty [OF 1(2) ok(2)] m(2) by auto
  show ?case
  proof (cases r)
    case (Inr z)
    then have z: "unat i \<le> z" "z \<le> unat ?u" "z \<notin> bm_set b1" using r(2) by (simp_all add: first_in_Inr)
    have "{unat i..<z} \<subseteq> used" using r(2) Inr 1(2) by (auto simp: first_in_Inr inode_search_def)
    moreover have "seen fs (unat start) z \<subseteq> seen fs (unat start) (unat i) \<union> {unat i..<z}" using z u(3) by (auto simp: seen_def split: if_splits)
    ultimately have "seen fs (unat start) z \<subseteq> used" using less.prems(4) by blast
    moreover have "unat (of_nat z :: u32) = z" using z u(2) o(4) by (simp add: unat_of_nat)
    moreover have "new_inode_loop (bmap_ops env) start fs' (Some (B64 b)) i = Some (Inr (of_nat z), fs1, Some (B64 b1))"
      using gi 1(1) r(1) Inr by (subst new_inode_loop.simps) (simp add: sup)
    ultimately show ?thesis using z i u 1(2) by auto
  next
    case (Inl e)
    then have e: "e = ENOENT" "{unat i..unat ?u} \<subseteq> bm_set b1" using r(2) by (auto simp: first_in_Inl)
    have su: "bm_set b1 \<subseteq> used" using 1(2) by (simp add: inode_search_def)
    define j where "j = (if ?u + 1 > s_inodes_count (fs_super fs) then EXT2_FIRST_INO (fs_super fs) else ?u + 1)"
    have "unat (?u + 1) = unat ?u + 1" using u(2) o(4) by (simp add: unat_word_ariths)
    then have j: "unat j = next_inode fs (unat ?u)" using u(2) by (auto simp: j_def next_inode_def word_less_nat_alt n_inodes_def first_ino_def)
    have sn: "seen fs (unat start) (unat i) \<union> {unat i..unat ?u} \<subseteq> used" using less.prems(4) e(2) su by blast
    have lt: "unat i < unat start \<longrightarrow> unat ?u < unat start" using u(3) by simp
    note n = seen_next [OF st i(1) u(1,2) lt sn, folded j]
    have loop: "new_inode_loop (bmap_ops env) start fs' (Some (B64 b)) i =
        (if j \<noteq> start then new_inode_loop (bmap_ops env) start fs1 (Some (B64 b1)) j else Some (Inr j, fs1, Some (B64 b1)))"
      using gi 1(1) r(1) Inl e(1) by (subst new_inode_loop.simps) (auto simp: sup Let_def j_def)
    show ?thesis
    proof (cases "j = start")
      case True
      then show ?thesis using loop n(1-3) 1(2) by (simp add: seen_def)
    next
      case False
      then have "unat j \<noteq> unat start" by (simp add: word_unat_eq_iff)
      from less.hyps [OF n(5) [OF this] n(1,2) 1(2) n(4) [OF this]] show ?thesis using loop False by simp
    qed
  qed
qed

lemma first_inode_bounds:
  assumes "inode_ok fs" "unat dir \<le> n_inodes fs"
  shows "\<exists>start. first_inode_to_try (fs_super fs) dir = Some start \<and> first_ino fs \<le> unat start \<and> unat start \<le> n_inodes fs \<and>
    unat start = max (first_ino fs) (if dir = 0 then 0 else (unat dir - 1) div per_ino fs * per_ino fs + 1)"
proof -
  let ?ipg = "s_inodes_per_group (fs_super fs)"
  let ?s = "(dir - 1) div ?ipg * ?ipg + 1"
  have ipg: "?ipg \<noteq> 0" and f: "first_ino fs \<le> n_inodes fs" using assms(1) by (auto simp: inode_ok_def per_ino_def)
  have "unat ?s = (unat dir - 1) div per_ino fs * per_ino fs + 1 \<and> unat ?s \<le> n_inodes fs" if "dir \<noteq> 0"
  proof -
    have d2: "0 < unat dir" using that by (simp add: unat_gt_0)
    then have d: "unat (dir - 1) = unat dir - 1" "0 < unat dir" by (simp_all add: unat_sub word_le_nat_alt)
    have le: "(unat dir - 1) div per_ino fs * per_ino fs \<le> unat dir - 1" by (rule div_times_less_eq_dividend)
    have lt: "unat dir - 1 + 1 < 2 ^ 32" using unat_lt_32 [of dir] d(2) by simp
    have "unat ((dir - 1) div ?ipg) = (unat dir - 1) div per_ino fs" by (simp only: unat_div per_ino_def d(1))
    then have "unat ((dir - 1) div ?ipg * ?ipg) = (unat dir - 1) div per_ino fs * per_ino fs"
      using le_less_trans [OF le, of "2 ^ 32"] lt by (simp add: unat_word_ariths(2) flip: per_ino_def)
    then have "unat ?s = (unat dir - 1) div per_ino fs * per_ino fs + 1"
      using le_less_trans [OF add_right_mono [OF le, of 1], of "2 ^ 32"] lt by (simp add: unat_word_ariths(1))
    moreover have "(unat dir - 1) div per_ino fs * per_ino fs + 1 \<le> n_inodes fs" using le d(2) assms(2) by linarith
    ultimately show ?thesis by (simp only: simp_thms)
  qed
  then show ?thesis using ipg f by (cases "dir = 0") (auto simp: first_inode_to_try_def Let_def first_ino_def word_less_nat_alt not_less max_def word_gt_0 unat_gt_0)
qed

text \<open>The call: the inode where the search starts, and the outcome.\<close>

lemma new_inode_run:
  assumes "h_magic h = EXT2_ET_MAGIC_EXT2FS_FILSYS" "h_inode_map h = Some (B64 b)" "inode_ok (h_fs h)" "inode_map_ok (h_fs h) b"
    "some_used (h_fs h) (bm_set b)" "unat dir \<le> n_inodes (h_fs h)"
  obtains start r fs' b' where "first_inode_to_try (fs_super (h_fs h)) dir = Some start"
    "first_ino (h_fs h) \<le> unat start" "unat start \<le> n_inodes (h_fs h)"
    "ext2fs_new_inode (bmap_ops env) h dir None = Some (r, h\<lparr>h_fs := fs', h_inode_map := Some (B64 b')\<rparr>, None)"
    "inode_search (h_fs h) (bm_set b) fs' b'"
    "case r of
       Inr i \<Rightarrow> first_ino (h_fs h) \<le> unat i \<and> unat i \<le> n_inodes (h_fs h) \<and> unat i \<notin> bm_set b' \<and> seen (h_fs h) (unat start) (unat i) \<subseteq> bm_set b
     | Inl e \<Rightarrow> e = EXT2_ET_INODE_ALLOC_FAIL \<and> {first_ino (h_fs h)..n_inodes (h_fs h)} \<subseteq> bm_set b"
proof -
  let ?fs = "h_fs h"
  obtain start where s: "first_inode_to_try (fs_super ?fs) dir = Some start" "first_ino ?fs \<le> unat start" "unat start \<le> n_inodes ?fs"
    using first_inode_bounds [OF assms(3,6)] by auto
  have le: "\<not> start > s_inodes_count (fs_super ?fs)" using s(3) by (simp add: n_inodes_def word_less_nat_alt)
  have seen0: "seen ?fs (unat start) (unat start) \<subseteq> bm_set b" by (simp add: seen_def)
  obtain j fs1 b1 where 1: "new_inode_loop (bmap_ops env) start ?fs (Some (B64 b)) start = Some (Inr j, fs1, Some (B64 b1))"
      "inode_search ?fs (bm_set b) fs1 b1" "first_ino ?fs \<le> unat j" "unat j \<le> n_inodes ?fs"
      "unat j \<in> bm_set b1 \<longrightarrow> {first_ino ?fs..n_inodes ?fs} \<subseteq> bm_set b" "seen ?fs (unat start) (unat j) \<subseteq> bm_set b"
    using new_inode_loop_spec [OF assms(3,5) s(2,3) s(2,3) inode_search_refl [OF assms(3,4)] seen0, of env] by blast
  have m: "inode_map_ok fs1 b1" "n_inodes fs1 = n_inodes ?fs" using 1(2) by (simp_all add: inode_search_def inode_search_layout [OF 1(2)])
  obtain t b2 where 2: "ext2fs_test_generic_bmap (bmap_ops env) (Some (B64 b1)) (unat j) = Some (t, Some (B64 b2))" "inode_map_ok fs1 b2"
      "bm_set b2 = bm_set b1" "t \<noteq> 0 \<longleftrightarrow> 1 \<le> unat j \<and> unat j \<le> n_inodes fs1 \<and> unat j \<in> bm_set b1"
    using inode_map_ops(3) [OF m(1), of env "unat j"] by blast
  have s2: "inode_search ?fs (bm_set b) fs1 b2" using 1(2) 2(2,3) by (simp add: inode_search_def)
  have j1: "1 \<le> unat j" using 1(3) assms(3) by (simp add: inode_ok_def)
  let ?r = "if t \<noteq> 0 then Inl EXT2_ET_INODE_ALLOC_FAIL else Inr j"
  have "ext2fs_new_inode (bmap_ops env) h dir None = Some (?r, h\<lparr>h_fs := fs1, h_inode_map := Some (B64 b2)\<rparr>, None)"
    using assms(1,2) s(1) le 1(1) 2(1) by (simp add: ext2fs_new_inode_def put_inode_map_def)
  then show thesis using s s2 1(3-6) 2(3,4) j1 m(2) by (intro that [where start = start and r = ?r and fs' = fs1 and b' = b2]) auto
qed

section \<open>Property\<close>

text \<open>C11. Allocation of an inode. On a well-formed file system the search for an inode from the group of a directory always ends. It returns an
  inode that may be allocated and is free in the bitmap it leaves, or the error that there is none, and then every inode from the first
  unreserved one on was in use when it began. Only bits of groups that are flagged as uninitialised were cleared, the fields of the descriptors
  other than flags and checksum are those of before, and valid checksums stay valid.\<close>

theorem new_inode_correct:
  assumes "h_magic h = EXT2_ET_MAGIC_EXT2FS_FILSYS" "h_inode_map h = Some (B64 b)" "inode_ok (h_fs h)" "inode_map_ok (h_fs h) b"
    "some_used (h_fs h) (bm_set b)" "unat dir \<le> n_inodes (h_fs h)"
  shows "\<exists>r fs' b'. ext2fs_new_inode (bmap_ops env) h dir None = Some (r, h\<lparr>h_fs := fs', h_inode_map := Some (B64 b')\<rparr>, None) \<and>
    inode_search (h_fs h) (bm_set b) fs' b' \<and>
    (case r of
       Inr i \<Rightarrow> first_ino (h_fs h) \<le> unat i \<and> unat i \<le> n_inodes (h_fs h) \<and> unat i \<notin> bm_set b'
     | Inl e \<Rightarrow> e = EXT2_ET_INODE_ALLOC_FAIL \<and> {first_ino (h_fs h)..n_inodes (h_fs h)} \<subseteq> bm_set b)"
  using assms by (rule new_inode_run [where env = env]) (auto split: sum.splits)

definition inode_fs :: ext2_filsys where
  "inode_fs = alloc_fs\<lparr>fs_super := small_super\<lparr>s_rev_level := 1, s_first_ino := 3, s_inodes_per_group := 8, s_inodes_count := 24\<rparr>\<rparr>"

definition inode_bm :: "u8 list \<Rightarrow> bmap64" where
  "inode_bm bs = from_ba \<lparr>bm_magic = EXT2_ET_MAGIC_INODE_BITMAP64, bm_start = 1, bm_end = 24, bm_real_end = 24, bm_cluster_bits = 0,
     bm_description = None, bm_base_error_code = EXT2_ET_BAD_INODE_MARK, bm_private = bs\<rparr>"

lemma inode_fs_ok: "inode_ok inode_fs" "n_inodes inode_fs = 24" "first_ino inode_fs = 3" "per_ino inode_fs = 8" "uninit_inodes inode_fs = {}" "n_groups inode_fs = 3"
proof -
  show e: "n_inodes inode_fs = 24" "first_ino inode_fs = 3" "per_ino inode_fs = 8" "uninit_inodes inode_fs = {}" "n_groups inode_fs = 3"
    by (simp_all add: n_inodes_def first_ino_def per_ino_def uninit_inodes_def uninit_group_def inode_fs_def EXT2_FIRST_INO_def n_groups_def alloc_fs_def
        Blknum_Geometry.small_fs_def ext2fs_has_group_desc_csum_def ext2fs_has_feature_metadata_csum_def ext2fs_has_feature_gdt_csum_def small_super_def)
  have "csum_ok inode_fs" using alloc_fs_ok by (simp add: alloc_ok_def csum_ok_def descs_ok_def desc_stride_def inode_fs_def alloc_fs_def EXT2_DESC_SIZE_def
        n_groups_def Blknum_Geometry.small_fs_def small_super_def ext2fs_has_feature_64bit_def alloc_descs_explicit(1))
  then show "inode_ok inode_fs" by (simp add: inode_ok_def e)
qed

lemma inode_bm_ok:
  assumes "length bs = 3"
  shows "inode_map_ok inode_fs (inode_bm bs)" "bm_set (inode_bm bs) = set (filter (\<lambda>n. bit (bs ! ((n - 1) div 8)) ((n - 1) mod 8)) [1..<25])"
proof -
  have "bm_inv (inode_bm bs)" using assms by (simp add: inode_bm_def ba_inv_def)
  moreover have "bm_magic (inode_bm bs) = EXT2_ET_MAGIC_INODE_BITMAP64" "bm_cluster_bits (inode_bm bs) = 0"
    "bm_start (inode_bm bs) = 1" "bm_end (inode_bm bs) = 24" by (simp_all add: inode_bm_def from_ba_def)
  ultimately show "inode_map_ok inode_fs (inode_bm bs)" by (simp add: inode_bits_ok_def EXT2FS_IS_64_BITMAP_def inode_fs_ok(2))
  show "bm_set (inode_bm bs) = set (filter (\<lambda>n. bit (bs ! ((n - 1) div 8)) ((n - 1) mod 8)) [1..<25])"
    using assms by (auto simp: inode_bm_def ba_set_iff bits_iff)
qed

definition inode_handle :: "priv handle" where
  "inode_handle = alloc_handle\<lparr>h_fs := inode_fs, h_inode_map := Some (B64 (inode_bm [3, 255, 1]))\<rparr>"

lemma inode_bm_example: "bm_set (inode_bm [3, 255, 1]) = {1, 2, 9, 10, 11, 12, 13, 14, 15, 16, 17}"
proof -
  have "filter (\<lambda>n. bit ([3, 255, 1 :: u8] ! ((n - 1) div 8)) ((n - 1) mod 8)) [1..<25] = [1, 2, 9, 10, 11, 12, 13, 14, 15, 16, 17]" by code_simp
  then show ?thesis by (simp only: inode_bm_ok list.size) simp
qed

theorem new_inode_correct_witness:
  "\<forall>env. \<exists>i fs' b'. ext2fs_new_inode (bmap_ops env) inode_handle 9 None = Some (Inr i, inode_handle\<lparr>h_fs := fs', h_inode_map := Some (B64 b')\<rparr>, None) \<and>
    inode_search inode_fs {1, 2, 9, 10, 11, 12, 13, 14, 15, 16, 17} fs' b' \<and> 3 \<le> unat i \<and> unat i \<le> 24 \<and> unat i \<notin> bm_set b'"
proof
  fix env
  have h: "h_magic inode_handle = EXT2_ET_MAGIC_EXT2FS_FILSYS" "h_inode_map inode_handle = Some (B64 (inode_bm [3, 255, 1]))" "h_fs inode_handle = inode_fs"
    by (simp_all add: inode_handle_def alloc_handle_def)
  have s: "some_used inode_fs (bm_set (inode_bm [3, 255, 1]))" by (simp add: some_used_def inode_fs_ok inode_bm_example)
  have n: "\<not> {3..24} \<subseteq> {1, 2, 9, 10, 11, 12, 13, 14, 15, 16, 17 :: nat}" by (auto simp: subset_iff intro!: exI [of _ 3])
  have "\<exists>r fs' b'. ext2fs_new_inode (bmap_ops env) inode_handle 9 None = Some (r, inode_handle\<lparr>h_fs := fs', h_inode_map := Some (B64 b')\<rparr>, None) \<and>
      inode_search (h_fs inode_handle) (bm_set (inode_bm [3, 255, 1])) fs' b' \<and>
      (case r of
         Inr i \<Rightarrow> first_ino (h_fs inode_handle) \<le> unat i \<and> unat i \<le> n_inodes (h_fs inode_handle) \<and> unat i \<notin> bm_set b'
       | Inl e \<Rightarrow> e = EXT2_ET_INODE_ALLOC_FAIL \<and> {first_ino (h_fs inode_handle)..n_inodes (h_fs inode_handle)} \<subseteq> bm_set (inode_bm [3, 255, 1]))"
    by (rule new_inode_correct) (use h s inode_fs_ok inode_bm_ok(1) in simp_all)
  then show "\<exists>i fs' b'. ext2fs_new_inode (bmap_ops env) inode_handle 9 None = Some (Inr i, inode_handle\<lparr>h_fs := fs', h_inode_map := Some (B64 b')\<rparr>, None) \<and>
    inode_search inode_fs {1, 2, 9, 10, 11, 12, 13, 14, 15, 16, 17} fs' b' \<and> 3 \<le> unat i \<and> unat i \<le> 24 \<and> unat i \<notin> bm_set b'"
    unfolding h(3) inode_fs_ok(2,3) inode_bm_example using n by (elim exE conjE) (auto split: sum.splits)
qed

end
