(* ===== verification/Alloc_Inode_Session.thy ===== *)
theory Alloc_Inode_Session
  imports Alloc_Inode Alloc_Range
begin

unbundle bit_operations_syntax

text \<open>
  Sequences of allocations and releases of inodes, \<^verbatim>\<open>ext2fs_new_inode\<close> followed by \<^verbatim>\<open>ext2fs_inode_alloc_stats2\<close>, against an abstract
  allocator: the set of inodes in use and, in it, the set of directories. The counts of the groups and of the superblock follow the sets, no
  inode in use lies in the part of an inode table that counts as unused, and the checksums of the descriptors are valid.
\<close>

section \<open>The new descriptor of a group\<close>

lemma count_get_iff:
  "ext2fs_bg_free_inodes_count fs g = Some w \<longleftrightarrow> bg_get Free_Inodes fs g = Some (ucast w)"
  "ext2fs_bg_used_dirs_count fs g = Some w \<longleftrightarrow> bg_get Used_Dirs fs g = Some (ucast w)"
  "ext2fs_bg_itable_unused fs g = Some w \<longleftrightarrow> bg_get Itable_Unused fs g = Some (ucast w)"
  using map_ucast_eq(2) [of _ "Some w"] by simp_all

lemma count_set_u32:
  "bg_set Free_Inodes fs g (ucast w) = ext2fs_bg_free_inodes_count_set fs g w"
  "bg_set Used_Dirs fs g (ucast w) = ext2fs_bg_used_dirs_count_set fs g w"
  "bg_set Itable_Unused fs g (ucast w) = ext2fs_bg_itable_unused_set fs g w"
  by simp_all

text \<open>One count, or none, is set.\<close>

lemma count_set_if:
  fixes w :: u32
  assumes "csum_ok fs" "unat g < n_groups fs" "f \<in> {Free_Inodes, Used_Dirs, Itable_Unused}" "unat w < 2 ^ 16"
  shows "\<exists>fs'. (if set_it then bg_set f fs g (ucast w) else Some fs) = Some fs' \<and> bg_get f fs' g = (if set_it then Some (ucast w) else bg_get f fs g) \<and>
    csum_ok fs' \<and> n_groups fs' = n_groups fs \<and> ext2fs_has_group_desc_csum fs' = ext2fs_has_group_desc_csum fs \<and> desc_change g {f} fs fs'"
proof (cases set_it)
  case True
  obtain fs' where "bg_set f fs g (ucast w) = Some fs'" "bg_get f fs' g = Some (ucast w)" "desc_change g {f} fs fs'"
    using count_set_change [OF assms(1,2) _ assms(4), of f] assms(3) by auto
  then show ?thesis using True desc_changeD(2,3,5) [of g "{f}" fs fs'] assms(1) by auto
next
  case False
  then show ?thesis using assms(1) desc_change_refl by auto
qed

lemma inode_desc:
  assumes ok: "csum_ok fs" "unat g < n_groups fs" and w: "unat w < 2 ^ 16" "unat d < 2 ^ 16" "unat u < 2 ^ 16" and hw: "hw \<longrightarrow> ext2fs_has_group_desc_csum fs"
  shows "\<exists>fs1 fs2 fs3 fs4 fs5. ext2fs_bg_free_inodes_count_set fs g w = Some fs1 \<and> bg_get Used_Dirs fs1 g = bg_get Used_Dirs fs g \<and>
    (if isdir then ext2fs_bg_used_dirs_count_set fs1 g d else Some fs1) = Some fs2 \<and> ext2fs_bg_flags_clear fs2 g 1 = Some fs3 \<and>
    ext2fs_has_group_desc_csum fs3 = ext2fs_has_group_desc_csum fs \<and> bg_get Itable_Unused fs3 g = bg_get Itable_Unused fs g \<and>
    (if hw then ext2fs_bg_itable_unused_set fs3 g u else Some fs3) = Some fs4 \<and> ext2fs_group_desc_csum_set fs4 g = Some fs5 \<and>
    (\<not> ext2fs_has_group_desc_csum fs \<longrightarrow> fs5 = fs3) \<and>
    desc_change g {Free_Inodes, Used_Dirs, Itable_Unused, Flags, Checksum} fs fs5 \<and> csum_valid fs5 g \<and> (\<exists>x. ext2fs_bg_flags fs5 g = Some (x AND NOT 1)) \<and>
    bg_get Free_Inodes fs5 g = Some (ucast w) \<and> bg_get Used_Dirs fs5 g = (if isdir then Some (ucast d) else bg_get Used_Dirs fs g) \<and>
    bg_get Itable_Unused fs5 g = (if hw then Some (ucast u) else bg_get Itable_Unused fs g)"
proof -
  obtain fs1 where 1: "ext2fs_bg_free_inodes_count_set fs g w = Some fs1" "bg_get Free_Inodes fs1 g = Some (ucast w)" "csum_ok fs1"
      "n_groups fs1 = n_groups fs" "ext2fs_has_group_desc_csum fs1 = ext2fs_has_group_desc_csum fs" "desc_change g {Free_Inodes} fs fs1"
    using count_set_if [OF ok _ w(1), of Free_Inodes True, unfolded count_set_u32] by (auto simp del: bg_get.simps)
  have g1: "unat g < n_groups fs1" using ok(2) 1(4) by simp
  obtain fs2 where 2: "(if isdir then ext2fs_bg_used_dirs_count_set fs1 g d else Some fs1) = Some fs2"
      "bg_get Used_Dirs fs2 g = (if isdir then Some (ucast d) else bg_get Used_Dirs fs1 g)" "csum_ok fs2"
      "n_groups fs2 = n_groups fs1" "ext2fs_has_group_desc_csum fs2 = ext2fs_has_group_desc_csum fs1" "desc_change g {Used_Dirs} fs1 fs2"
    using count_set_if [OF 1(3) g1 _ w(2), of Used_Dirs isdir, unfolded count_set_u32] by (auto simp del: bg_get.simps)
  have g2: "unat g < n_groups fs2" using g1 2(4) by simp
  obtain x fs3 where 3: "ext2fs_bg_flags_clear fs2 g 1 = Some fs3" "ext2fs_bg_flags fs3 g = Some (x AND NOT 1)" "desc_change g {Flags} fs2 fs3"
    using flags_update [OF 2(3) g2, of 1] by blast
  note d3 = desc_changeD [OF 3(3)]
  have g3: "csum_ok fs3" "unat g < n_groups fs3" using d3(2,3) 2(3) g2 by simp_all
  obtain fs4 where 4: "(if hw then ext2fs_bg_itable_unused_set fs3 g u else Some fs3) = Some fs4"
      "bg_get Itable_Unused fs4 g = (if hw then Some (ucast u) else bg_get Itable_Unused fs3 g)" "csum_ok fs4"
      "n_groups fs4 = n_groups fs3" "ext2fs_has_group_desc_csum fs4 = ext2fs_has_group_desc_csum fs3" "desc_change g {Itable_Unused} fs3 fs4"
    using count_set_if [OF g3 _ w(3), of Itable_Unused hw, unfolded count_set_u32] by (auto simp del: bg_get.simps)
  have g4: "unat g < n_groups fs4" using g3(2) 4(4) by simp
  obtain fs5 where 5: "ext2fs_group_desc_csum_set fs4 g = Some fs5" "csum_valid fs5 g" "desc_change g {Checksum} fs4 fs5"
    using csum_set_change [OF 4(3) g4] by blast
  have none: "fs5 = fs3" if "\<not> ext2fs_has_group_desc_csum fs"
    using that 4(1,5) 5(1) d3(5) 2(5) 1(5) hw by (simp add: ext2fs_group_desc_csum_set_def)
  have ch: "desc_change g {Free_Inodes, Used_Dirs, Itable_Unused, Flags, Checksum} fs fs5"
    by (rule desc_change_mono [OF desc_change_trans [OF desc_change_trans [OF desc_change_trans [OF desc_change_trans [OF 1(6) 2(6)] 3(3)] 4(6)] 5(3)]]) auto
  have "bg_get Used_Dirs fs1 g = bg_get Used_Dirs fs g" "bg_get Itable_Unused fs3 g = bg_get Itable_Unused fs g"
    "bg_get Free_Inodes fs5 g = Some (ucast w)" "bg_get Used_Dirs fs5 g = (if isdir then Some (ucast d) else bg_get Used_Dirs fs g)"
    "bg_get Itable_Unused fs5 g = (if hw then Some (ucast u) else bg_get Itable_Unused fs g)" "bg_get Flags fs5 g = bg_get Flags fs3 g"
    using 1(2) 2(2) 4(2) desc_changeD(10) [OF 1(6)] desc_changeD(10) [OF 2(6)] d3(10) desc_changeD(10) [OF 4(6)] desc_changeD(10) [OF 5(3)]
    by (simp_all del: bg_get.simps)
  moreover from this(6) have "ext2fs_bg_flags fs5 g = Some (x AND NOT 1)" using 3(2) bg_get_eqD(1) [of fs5 g fs3 g] by simp
  ultimately show ?thesis using 1 2 3 4 5 d3(5) none ch by (simp del: bg_get.simps) blast
qed

section \<open>States\<close>

definition inode_group_ok :: "ext2_filsys \<Rightarrow> nat set \<Rightarrow> nat set \<Rightarrow> u32 \<Rightarrow> bool" where
  "inode_group_ok fs used dirs g \<longleftrightarrow>
     ext2fs_bg_free_inodes_count fs g = Some (of_nat (card (group_inodes fs (unat g) - used))) \<and>
     ext2fs_bg_used_dirs_count fs g = Some (of_nat (card (group_inodes fs (unat g) \<inter> dirs))) \<and>
     (ext2fs_has_group_desc_csum fs \<longrightarrow>
        (\<exists>u. ext2fs_bg_itable_unused fs g = Some u \<and> unat u \<le> per_ino fs \<and>
           (\<forall>k \<in> group_inodes fs (unat g) \<inter> used. k + unat u \<le> unat g * per_ino fs + per_ino fs))) \<and>
     (uninit_group fs g \<longrightarrow> group_inodes fs (unat g) \<inter> used = {}) \<and> csum_valid fs g"

definition inode_state_ok :: "priv handle \<Rightarrow> nat set \<Rightarrow> nat set \<Rightarrow> bool" where
  "inode_state_ok h used dirs \<longleftrightarrow>
     h_magic h = EXT2_ET_MAGIC_EXT2FS_FILSYS \<and> inode_ok (h_fs h) \<and> per_ino (h_fs h) < 2 ^ 16 \<and>
     (\<exists>b. h_inode_map h = Some (B64 b) \<and> inode_map_ok (h_fs h) b \<and> bm_set b = used) \<and> used \<noteq> {} \<and> dirs \<subseteq> used \<and>
     (\<forall>g. unat g < n_groups (h_fs h) \<longrightarrow> inode_group_ok (h_fs h) used dirs g) \<and>
     s_free_inodes_count (fs_super (h_fs h)) = of_nat (card ({1..n_inodes (h_fs h)} - used))"

text \<open>What no step changes.\<close>

definition same_inodes :: "ext2_filsys \<Rightarrow> ext2_filsys \<Rightarrow> bool" where
  "same_inodes fs fs' \<longleftrightarrow>
     s_inodes_per_group (fs_super fs') = s_inodes_per_group (fs_super fs) \<and> s_inodes_count (fs_super fs') = s_inodes_count (fs_super fs) \<and>
     EXT2_FIRST_INO (fs_super fs') = EXT2_FIRST_INO (fs_super fs) \<and> n_groups fs' = n_groups fs \<and>
     ext2fs_has_group_desc_csum fs' = ext2fs_has_group_desc_csum fs \<and> csum_ok fs' = csum_ok fs"

lemma same_inodesD:
  assumes "same_inodes fs fs'"
  shows "per_ino fs' = per_ino fs" "n_inodes fs' = n_inodes fs" "first_ino fs' = first_ino fs" "n_groups fs' = n_groups fs"
    "group_inodes fs' k = group_inodes fs k" "inode_ok fs' = inode_ok fs" "inode_map_ok fs' b = inode_map_ok fs b"
    "ext2fs_has_group_desc_csum fs' = ext2fs_has_group_desc_csum fs"
proof -
  show e: "per_ino fs' = per_ino fs" "n_inodes fs' = n_inodes fs" "first_ino fs' = first_ino fs" "n_groups fs' = n_groups fs"
    "ext2fs_has_group_desc_csum fs' = ext2fs_has_group_desc_csum fs"
    using assms by (simp_all add: same_inodes_def per_ino_def n_inodes_def first_ino_def)
  have "csum_ok fs' = csum_ok fs" using assms by (simp add: same_inodes_def)
  then show "group_inodes fs' k = group_inodes fs k" "inode_ok fs' = inode_ok fs" "inode_map_ok fs' b = inode_map_ok fs b"
    by (simp_all add: group_inodes_def inode_ok_def e)
qed

lemma fs_change_inodes: "fs_change g F fs fs' \<Longrightarrow> same_inodes fs fs'"
  using fs_changeD(1,7,8) [of g F fs fs'] desc_changeD(1) [of g F fs] by (auto simp: same_inodes_def fs_change_def EXT2_FIRST_INO_def)

lemma inode_search_same: "inode_search fs used fs' b \<Longrightarrow> csum_ok fs \<Longrightarrow> same_inodes fs fs'"
  by (simp add: inode_search_def same_inodes_def ext2fs_has_group_desc_csum_def)

lemma uninit_group_frame:
  "bg_get Flags fs' g = bg_get Flags fs g \<Longrightarrow> ext2fs_has_group_desc_csum fs' = ext2fs_has_group_desc_csum fs \<Longrightarrow> uninit_group fs' g = uninit_group fs g"
  by (drule bg_get_eqD) (simp add: uninit_group_def ext2fs_bg_flags_test_def ext2fs_bg_flags_def)

text \<open>A group of which no count and no inode changed.\<close>

lemma inode_group_frame:
  assumes "inode_group_ok fs used dirs g" "same_inodes fs fs'"
    and "\<And>f. f \<in> {Free_Inodes, Used_Dirs, Itable_Unused} \<Longrightarrow> bg_get f fs' g = bg_get f fs g"
    and "csum_valid fs' g" "uninit_group fs' g \<longrightarrow> uninit_group fs g"
    and "\<And>k. k \<in> group_inodes fs (unat g) \<Longrightarrow> (k \<in> used' \<longleftrightarrow> k \<in> used) \<and> (k \<in> dirs' \<longleftrightarrow> k \<in> dirs)"
  shows "inode_group_ok fs' used' dirs' g"
proof -
  note s = same_inodesD [OF assms(2)]
  have "group_inodes fs (unat g) - used' = group_inodes fs (unat g) - used" "group_inodes fs (unat g) \<inter> dirs' = group_inodes fs (unat g) \<inter> dirs"
    "group_inodes fs (unat g) \<inter> used' = group_inodes fs (unat g) \<inter> used" using assms(6) by auto
  moreover have "ext2fs_bg_free_inodes_count fs' g = ext2fs_bg_free_inodes_count fs g" "ext2fs_bg_used_dirs_count fs' g = ext2fs_bg_used_dirs_count fs g"
    "ext2fs_bg_itable_unused fs' g = ext2fs_bg_itable_unused fs g" by (rule bg_get_eqD, rule assms(3), simp)+
  ultimately show ?thesis using assms(1,4,5) unfolding inode_group_ok_def s by simp
qed

section \<open>The statistics of an inode\<close>

text \<open>An inode is taken or given back, as a directory or not.\<close>

definition inode_moves :: "int \<Rightarrow> bool \<Rightarrow> nat \<Rightarrow> nat set \<Rightarrow> nat set \<Rightarrow> nat set \<Rightarrow> nat set \<Rightarrow> bool" where
  "inode_moves inuse isdir k used dirs used' dirs' \<longleftrightarrow>
     (inuse = 1 \<and> k \<notin> used \<and> used' = insert k used \<and> dirs' = (if isdir then insert k dirs else dirs) \<and> k \<notin> dirs \<or>
      inuse = - 1 \<and> k \<in> used \<and> used' = used - {k} \<and> dirs' = (if isdir then dirs - {k} else dirs) \<and> (isdir \<longleftrightarrow> k \<in> dirs))"

lemma moves_counts:
  assumes "inode_moves inuse isdir k used dirs used' dirs'" "finite A" "k \<in> A"
  shows "of_nat (card (A - used)) - word_of_int inuse = (of_nat (card (A - used')) :: u32)"
    "isdir \<Longrightarrow> of_nat (card (A \<inter> dirs)) + word_of_int inuse = (of_nat (card (A \<inter> dirs')) :: u32)"
    "\<not> isdir \<Longrightarrow> dirs' = dirs"
proof -
  consider (take) "inuse = 1" "k \<notin> used" "used' = insert k used" "dirs' = (if isdir then insert k dirs else dirs)" "isdir \<longrightarrow> k \<notin> dirs"
    | (release) "inuse = - 1" "k \<in> used" "used' = used - {k}" "dirs' = (if isdir then dirs - {k} else dirs)" "isdir \<longrightarrow> k \<in> dirs"
    using assms(1) unfolding inode_moves_def by (elim disjE conjE) auto
  then have "of_nat (card (A - used)) - word_of_int inuse = (of_nat (card (A - used')) :: u32) \<and>
    (isdir \<longrightarrow> of_nat (card (A \<inter> dirs)) + word_of_int inuse = (of_nat (card (A \<inter> dirs')) :: u32)) \<and> (\<not> isdir \<longrightarrow> dirs' = dirs)"
  proof cases
    case take
    have "A \<inter> insert k dirs = insert k (A \<inter> dirs)" using assms(3) by auto
    then show ?thesis using take card_take [OF assms(2), of k used] card_take_pos [OF assms(2), of k used] assms(2,3) by (auto simp: of_nat_diff)
  next
    case release
    have "A \<inter> dirs = insert k (A \<inter> (dirs - {k}))" if isdir using assms(3) release that by auto
    then have "isdir \<Longrightarrow> card (A \<inter> dirs) = card (A \<inter> (dirs - {k})) + 1" using assms(2) by simp
    then show ?thesis using release card_release [OF assms(2), of k used] assms(3) by auto
  qed
  then show "of_nat (card (A - used)) - word_of_int inuse = (of_nat (card (A - used')) :: u32)"
    "isdir \<Longrightarrow> of_nat (card (A \<inter> dirs)) + word_of_int inuse = (of_nat (card (A \<inter> dirs')) :: u32)" "\<not> isdir \<Longrightarrow> dirs' = dirs" by blast+
qed

text \<open>The numbers in the update of the high-water mark of an inode table do not wrap round.\<close>

lemma itable_numbers:
  assumes ok: "inode_ok fs" "unat g < n_groups fs" "unat ino \<in> group_inodes fs (unat g)" "unat u \<le> per_ino fs"
  defines "ipg \<equiv> s_inodes_per_group (fs_super fs)" and "top_ino \<equiv> unat g * per_ino fs + per_ino fs"
  shows "unat (g * ipg + ipg - ino) = top_ino - unat ino" "ino \<ge> ipg - u + g * ipg + 1 \<longleftrightarrow> top_ino < unat ino + unat u"
    "top_ino - unat ino < per_ino fs" "unat ino \<le> top_ino"
proof -
  have ip: "unat ipg = per_ino fs" by (simp add: ipg_def per_ino_def)
  have "Suc (unat g) * per_ino fs \<le> n_inodes fs" using ok(1,2) by (simp add: inode_ok_def) (metis Suc_leI mult_Suc mult_le_mono1)
  then have t: "top_ino + 1 < 2 ^ 32" using ok(1) by (simp add: inode_ok_def top_ino_def)
  have i: "unat ino \<le> top_ino" "unat g * per_ino fs + 1 \<le> unat ino" using ok(3) by (simp_all add: group_inodes_def top_ino_def)
  then show "top_ino - unat ino < per_ino fs" "unat ino \<le> top_ino" by (simp_all add: top_ino_def)
  have gi: "unat (g * ipg) = unat g * per_ino fs" using t ip by (simp add: unat_word_ariths top_ino_def)
  then have "unat (g * ipg + ipg) = top_ino" using t ip by (simp add: unat_word_ariths top_ino_def)
  then show "unat (g * ipg + ipg - ino) = top_ino - unat ino" using i(1) by (simp add: unat_sub word_le_nat_alt)
  have pu: "unat (ipg - u) = per_ino fs - unat u" using ok(4) ip by (simp add: unat_sub word_le_nat_alt)
  have "per_ino fs - unat u + unat g * per_ino fs + 1 < 2 ^ 32" using t unfolding top_ino_def by linarith
  then have "unat (ipg - u + g * ipg + 1) = per_ino fs - unat u + unat g * per_ino fs + 1" using gi pu by (simp add: unat_word_ariths)
  then show "ino \<ge> ipg - u + g * ipg + 1 \<longleftrightarrow> top_ino < unat ino + unat u" using ok(4) by (auto simp: word_le_nat_alt top_ino_def)
qed

lemma inode_group_step:
  assumes ok: "inode_ok fs" "per_ino fs < 2 ^ 16" "unat g < n_groups fs" "inode_group_ok fs used dirs g" and ino: "unat ino \<in> group_inodes fs (unat g)"
    and mv: "inode_moves inuse isdir (unat ino) used dirs used' dirs'"
  defines "ipg \<equiv> s_inodes_per_group (fs_super fs)"
  shows "\<exists>fc fs1 fs2 fs3 fs5. ext2fs_bg_free_inodes_count fs g = Some fc \<and> ext2fs_bg_free_inodes_count_set fs g (fc - word_of_int inuse) = Some fs1 \<and>
    (if isdir then do { dc \<leftarrow> ext2fs_bg_used_dirs_count fs1 g; ext2fs_bg_used_dirs_count_set fs1 g (dc + word_of_int inuse) } else Some fs1) = Some fs2 \<and>
    ext2fs_bg_flags_clear fs2 g 1 = Some fs3 \<and>
    (if ext2fs_has_group_desc_csum fs3
     then do { unused \<leftarrow> ext2fs_bg_itable_unused fs3 g;
               fs4 \<leftarrow> (if ino \<ge> ipg - unused + g * ipg + 1 then ext2fs_bg_itable_unused_set fs3 g (g * ipg + ipg - ino) else Some fs3);
               ext2fs_group_desc_csum_set fs4 g }
     else Some fs3) = Some fs5 \<and>
    desc_change g {Free_Inodes, Used_Dirs, Itable_Unused, Flags, Checksum} fs fs5 \<and> inode_group_ok fs5 used' dirs' g"
proof -
  let ?G = "group_inodes fs (unat g)" and ?top = "unat g * per_ino fs + per_ino fs" and ?c = "ext2fs_has_group_desc_csum fs"
  have cs: "csum_ok fs" using ok(1) by (simp add: inode_ok_def)
  have G: "finite ?G" "card ?G = per_ino fs" by (simp_all add: group_inodes_def)
  have small: "card (?G - X) < 2 ^ 16" "card (?G \<inter> X) < 2 ^ 16" for X
    using card_mono [OF G(1), of "?G - X"] card_mono [OF G(1), of "?G \<inter> X"] G(2) ok(2) by auto
  have un: "unat (of_nat k :: u32) = k" if "k < 2 ^ 16" for k using that by (simp add: unat_of_nat)
  note mc = moves_counts [OF mv G(1) ino] and gk = ok(4) [unfolded inode_group_ok_def]
  obtain u where u: "?c \<longrightarrow> ext2fs_bg_itable_unused fs g = Some u" "unat u \<le> per_ino fs" "?c \<longrightarrow> (\<forall>k \<in> ?G \<inter> used. k + unat u \<le> ?top)"
    using gk by (cases ?c) (auto intro: that [of 0])
  note num = itable_numbers [OF ok(1,3) ino u(2), folded ipg_def]
  define hw where "hw \<longleftrightarrow> ?c \<and> ?top < unat ino + unat u"
  define d' where "d' = (of_nat (card (?G \<inter> dirs')) :: u32)"
  let ?u = "g * ipg + ipg - ino"
  have w: "unat (of_nat (card (?G - used')) :: u32) < 2 ^ 16" "unat d' < 2 ^ 16" "unat ?u < 2 ^ 16"
    using un [OF small(1)] un [OF small(2)] small num(1,3) ok(2) by (simp_all add: d'_def)
  have "hw \<longrightarrow> ?c" by (simp add: hw_def)
  from inode_desc [OF cs ok(3) w this, of isdir]
  obtain fs1 fs2 fs3 fs4 fs5 x where d: "ext2fs_bg_free_inodes_count_set fs g (of_nat (card (?G - used'))) = Some fs1"
      "bg_get Used_Dirs fs1 g = bg_get Used_Dirs fs g" "(if isdir then ext2fs_bg_used_dirs_count_set fs1 g d' else Some fs1) = Some fs2"
      "ext2fs_bg_flags_clear fs2 g 1 = Some fs3" "ext2fs_has_group_desc_csum fs3 = ?c" "bg_get Itable_Unused fs3 g = bg_get Itable_Unused fs g"
      "(if hw then ext2fs_bg_itable_unused_set fs3 g ?u else Some fs3) = Some fs4" "ext2fs_group_desc_csum_set fs4 g = Some fs5"
      "\<not> ?c \<longrightarrow> fs5 = fs3" "desc_change g {Free_Inodes, Used_Dirs, Itable_Unused, Flags, Checksum} fs fs5" "csum_valid fs5 g"
      "ext2fs_bg_flags fs5 g = Some (x AND NOT 1)" "bg_get Free_Inodes fs5 g = Some (ucast (of_nat (card (?G - used')) :: u32))"
      "bg_get Used_Dirs fs5 g = (if isdir then Some (ucast d') else bg_get Used_Dirs fs g)"
      "bg_get Itable_Unused fs5 g = (if hw then Some (ucast ?u) else bg_get Itable_Unused fs g)"
    by (elim exE conjE) (rule that)
  have s: "same_inodes fs fs5" using fs_change_inodes [OF fs_change_desc [OF d(10), of "fs_flags fs5"]] by simp
  have dirs: "ext2fs_bg_used_dirs_count fs5 g = Some d'"
  proof (cases isdir)
    case True
    then show ?thesis using d(14) by (simp add: count_get_iff del: bg_get.simps)
  next
    case False
    then have "ext2fs_bg_used_dirs_count fs5 g = ext2fs_bg_used_dirs_count fs g" by (intro bg_get_eqD) (simp add: d(14) del: bg_get.simps)
    then show ?thesis using gk mc(3) [OF False] by (simp add: d'_def)
  qed
  have "\<exists>v. ext2fs_bg_itable_unused fs5 g = Some v \<and> unat v \<le> per_ino fs \<and> (\<forall>k \<in> ?G \<inter> used'. k + unat v \<le> ?top)" if ?c
  proof (intro exI conjI ballI)
    let ?v = "if hw then ?u else u"
    show "ext2fs_bg_itable_unused fs5 g = Some ?v" using u(1) that d(15) by (auto simp: count_get_iff simp del: bg_get.simps)
    show "unat ?v \<le> per_ino fs" using u(2) num(1,3) by simp
    fix k assume "k \<in> ?G \<inter> used'"
    then have "k = unat ino \<or> k \<in> ?G \<inter> used" using mv by (auto simp: inode_moves_def)
    then have "k = unat ino \<or> k + unat u \<le> ?top" using u(3) that by auto
    then show "k + unat ?v \<le> ?top" using num(1,4) that by (cases hw) (auto simp: hw_def)
  qed
  moreover have "\<not> uninit_group fs5 g"
    using d(12) by (auto simp: uninit_group_def ext2fs_bg_flags_test_def ext2fs_bg_flags_def bit_eq_iff bit_simps)
  ultimately have "inode_group_ok fs5 used' dirs' g"
    using d(11,13) dirs unfolding inode_group_ok_def same_inodesD [OF s] by (simp add: count_get_iff d'_def del: bg_get.simps)
  moreover have "ext2fs_bg_used_dirs_count fs1 g = Some (of_nat (card (?G \<inter> dirs)))"
    using bg_get_eqD(5) [OF d(2)] gk by simp
  then have "(if isdir then do { dc \<leftarrow> ext2fs_bg_used_dirs_count fs1 g; ext2fs_bg_used_dirs_count_set fs1 g (dc + word_of_int inuse) } else Some fs1) = Some fs2"
    using d(3) mc(2) by (auto simp: d'_def)
  moreover have "?c \<longrightarrow> ext2fs_bg_itable_unused fs3 g = Some u" using bg_get_eqD(6) [OF d(6)] u(1) by simp
  then have "(if ext2fs_has_group_desc_csum fs3
     then do { unused \<leftarrow> ext2fs_bg_itable_unused fs3 g;
               fs4 \<leftarrow> (if ino \<ge> ipg - unused + g * ipg + 1 then ext2fs_bg_itable_unused_set fs3 g (g * ipg + ipg - ino) else Some fs3);
               ext2fs_group_desc_csum_set fs4 g }
     else Some fs3) = Some fs5"
    using d(5,7-9) num(2) by (cases ?c) (auto simp: hw_def)
  ultimately show ?thesis using gk d(1,4,10) mc(1) by auto
qed

lemma group_of_ino_spec:
  assumes "inode_ok fs" "1 \<le> unat ino" "unat ino \<le> n_inodes fs"
  shows "\<exists>g. ext2fs_group_of_ino fs ino = Some g \<and> unat g < n_groups fs \<and> unat ino \<in> group_inodes fs (unat g)"
proof -
  let ?ipg = "s_inodes_per_group (fs_super fs)"
  have p: "0 < per_ino fs" "?ipg \<noteq> 0" "n_inodes fs = n_groups fs * per_ino fs" using assms(1) by (auto simp: inode_ok_def per_ino_def)
  have g: "unat ((ino - 1) div ?ipg) = (unat ino - 1) div per_ino fs" using assms(2) by (simp add: unat_div per_ino_def unat_sub word_le_nat_alt)
  have "(unat ino - 1) div per_ino fs * per_ino fs + (unat ino - 1) mod per_ino fs = unat ino - 1" "(unat ino - 1) mod per_ino fs < per_ino fs"
    using p(1) by simp_all
  then have "unat ino \<in> group_inodes fs ((unat ino - 1) div per_ino fs)" using assms(2) unfolding group_inodes_def atLeastAtMost_iff by linarith
  moreover have "(unat ino - 1) div per_ino fs < n_groups fs" using p assms(2,3) by (simp add: div_less_iff_less_mult)
  ultimately show ?thesis using g p(2) by (simp add: ext2fs_group_of_ino_def)
qed

lemma inode_stats_step:
  assumes ok: "inode_state_ok h used dirs" and ino: "1 \<le> unat ino" "unat ino \<le> n_inodes (h_fs h)"
    and mv: "inode_moves inuse isdir (unat ino) used dirs used' dirs'" and ne: "used' \<noteq> {}"
  shows "\<exists>h'. ext2fs_inode_alloc_stats2 (bmap_ops env) h ino inuse isdir = Some h' \<and> inode_state_ok h' used' dirs' \<and> same_inodes (h_fs h) (h_fs h')"
proof -
  let ?fs = "h_fs h"
  have io: "inode_ok ?fs" "per_ino ?fs < 2 ^ 16" using ok by (simp_all add: inode_state_ok_def)
  have cs: "csum_ok ?fs" using io(1) by (simp add: inode_ok_def)
  obtain b where b: "h_inode_map h = Some (B64 b)" "inode_map_ok ?fs b" "bm_set b = used" using ok by (auto simp: inode_state_ok_def)
  obtain g where g: "ext2fs_group_of_ino ?fs ino = Some g" "unat g < n_groups ?fs" "unat ino \<in> group_inodes ?fs (unat g)"
    using group_of_ino_spec [OF io(1) ino] by blast
  have gk: "inode_group_ok ?fs used dirs g'" if "unat g' < n_groups ?fs" for g' using ok that by (simp add: inode_state_ok_def)
  obtain r b' where m: "(if inuse > 0 then ext2fs_mark_generic_bmap (bmap_ops env) (Some (B64 b)) (unat ino)
      else ext2fs_unmark_generic_bmap (bmap_ops env) (Some (B64 b)) (unat ino)) = Some (r, Some (B64 b'))" "inode_map_ok ?fs b'" "bm_set b' = used'"
    using inode_map_ops(1,2) [OF b(2), of env "unat ino"] mv ino b(3) by (auto simp: inode_moves_def)
  obtain fc fs1 fs2 fs3 fs5 where d: "ext2fs_bg_free_inodes_count ?fs g = Some fc" "ext2fs_bg_free_inodes_count_set ?fs g (fc - word_of_int inuse) = Some fs1"
    "(if isdir then do { dc \<leftarrow> ext2fs_bg_used_dirs_count fs1 g; ext2fs_bg_used_dirs_count_set fs1 g (dc + word_of_int inuse) } else Some fs1) = Some fs2"
    "ext2fs_bg_flags_clear fs2 g 1 = Some fs3"
    "(if ext2fs_has_group_desc_csum fs3
     then do { unused \<leftarrow> ext2fs_bg_itable_unused fs3 g;
               fs4 \<leftarrow> (if ino \<ge> s_inodes_per_group (fs_super ?fs) - unused + g * s_inodes_per_group (fs_super ?fs) + 1
                       then ext2fs_bg_itable_unused_set fs3 g (g * s_inodes_per_group (fs_super ?fs) + s_inodes_per_group (fs_super ?fs) - ino) else Some fs3);
               ext2fs_group_desc_csum_set fs4 g }
     else Some fs3) = Some fs5"
    "desc_change g {Free_Inodes, Used_Dirs, Itable_Unused, Flags, Checksum} ?fs fs5" "inode_group_ok fs5 used' dirs' g"
    using inode_group_step [OF io g(2) gk [OF g(2)] g(3) mv] by (elim exE conjE) (rule that)
  define sb where "sb = (fs_super fs5)\<lparr>s_free_inodes_count := s_free_inodes_count (fs_super fs5) - word_of_int inuse\<rparr>"
  obtain x where x: "ext2fs_mark_ib_dirty (ext2fs_mark_super_dirty (fs5\<lparr>fs_super := sb\<rparr>)) = fs5\<lparr>fs_super := sb, fs_flags := x\<rparr>"
    by (simp add: ext2fs_mark_super_dirty_def ext2fs_mark_ib_dirty_def)
  define fs' where "fs' = fs5\<lparr>fs_super := sb, fs_flags := x\<rparr>"
  have res: "ext2fs_inode_alloc_stats2 (bmap_ops env) h ino inuse isdir = Some (h\<lparr>h_inode_map := Some (B64 b'), h_fs := fs'\<rparr>)"
    using g(1) ino(2) m(1) d(1-5) x unfolding ext2fs_inode_alloc_stats2_def Let_def b(1) fs'_def sb_def
    by (simp add: word_less_nat_alt n_inodes_def)
  have ch: "fs_change g {Free_Inodes, Used_Dirs, Itable_Unused, Flags, Checksum} ?fs fs'"
    using d(6) unfolding fs_change_def fs'_def sb_def
    by (intro exI [of _ fs5] exI [of _ "s_free_blocks_count (fs_super fs5)"] exI [of _ "s_free_blocks_hi (fs_super fs5)"] exI conjI) auto
  note cd = fs_changeD [OF ch] and s = fs_change_inodes [OF ch]
  have base: "csum_base sb = csum_base (fs_super fs5)" by (simp add: sb_def csum_base_def)
  note sc = super_change [where sb = sb and fs = fs5 and x = x, OF base, folded fs'_def]
  have "inode_group_ok fs' used' dirs' g'" if g': "unat g' < n_groups ?fs" for g'
  proof (cases "g' = g")
    case True
    have "same_inodes fs5 fs'" using fs_change_inodes [OF fs_change_desc [OF d(6), of "fs_flags fs5"]] s by (simp add: same_inodes_def)
    then show ?thesis unfolding True
      by (rule inode_group_frame [OF d(7)])
        (use sc d(7) desc_changeD(2,3) [OF d(6)] cs g(2) uninit_group_frame [OF sc(1) sc(4)] in \<open>simp_all add: inode_group_ok_def\<close>)
  next
    case False
    have "k \<noteq> unat ino" if "k \<in> group_inodes ?fs (unat g')" for k
      using group_inodes_disjoint [OF that, of "unat g"] g(3) False by (auto simp: word_unat_eq_iff)
    moreover have "csum_valid fs' g'" using cd(12) [OF cs g(2) g' False] gk [OF g'] by (simp add: inode_group_ok_def)
    ultimately show ?thesis
      by (intro inode_group_frame [OF gk [OF g'] s cd(11) [OF cs g(2) g' False]])
        (use mv uninit_group_frame [OF cd(11) [OF cs g(2) g' False] cd(8)] in \<open>auto simp: inode_moves_def split: if_splits\<close>)
  qed
  moreover have "s_free_inodes_count (fs_super fs') = of_nat (card ({1..n_inodes ?fs} - used'))"
    using moves_counts(1) [OF mv, of "{1..n_inodes ?fs}"] ino ok desc_changeD(1) [OF d(6)] by (simp add: fs'_def sb_def inode_state_ok_def)
  moreover have "dirs' \<subseteq> used'" using mv ok by (auto simp: inode_moves_def inode_state_ok_def split: if_splits)
  ultimately have "inode_state_ok (h\<lparr>h_inode_map := Some (B64 b'), h_fs := fs'\<rparr>) used' dirs'"
    using ok ne m(2,3) same_inodesD [OF s] by (simp add: inode_state_ok_def)
  then show ?thesis using res s by auto
qed

section \<open>Calls and their specification\<close>

datatype inode_call = New_Inode u32 bool | Release_Inode u32 bool

definition exec_inode :: "bm_env \<Rightarrow> inode_call \<Rightarrow> priv handle \<Rightarrow> ((errcode + u32) \<times> priv handle) option" where
  "exec_inode env call h =
     (case call of
        New_Inode dir isdir \<Rightarrow>
          do { (r, h1, _) \<leftarrow> ext2fs_new_inode (bmap_ops env) h dir None;
               (case r of
                  Inl e \<Rightarrow> Some (Inl e, h1)
                | Inr ino \<Rightarrow> map_option (Pair (Inr ino)) (ext2fs_inode_alloc_stats2 (bmap_ops env) h1 ino 1 isdir)) }
      | Release_Inode ino isdir \<Rightarrow> map_option (Pair (Inr ino)) (ext2fs_inode_alloc_stats2 (bmap_ops env) h ino (- 1) isdir))"

fun exec_inodes :: "bm_env \<Rightarrow> inode_call list \<Rightarrow> priv handle \<Rightarrow> ((errcode + u32) list \<times> priv handle) option" where
  "exec_inodes env [] h = Some ([], h)"
| "exec_inodes env (c # cs) h = do { (r, h1) \<leftarrow> exec_inode env c h; (rs, h2) \<leftarrow> exec_inodes env cs h1; Some (r # rs, h2) }"

text \<open>The inodes in the order of a search that starts in the group of a directory.\<close>

definition inodes_from :: "ext2_filsys \<Rightarrow> u32 \<Rightarrow> nat list" where
  "inodes_from fs dir =
     (let start = max (first_ino fs) (if dir = 0 then 0 else (unat dir - 1) div per_ino fs * per_ino fs + 1)
      in [start..<n_inodes fs + 1] @ [first_ino fs..<start])"

fun spec_inode :: "ext2_filsys \<Rightarrow> inode_call \<Rightarrow> nat set \<times> nat set \<Rightarrow> (errcode + u32) \<times> nat set \<times> nat set" where
  "spec_inode fs (New_Inode dir isdir) (used, dirs) =
     (case find (\<lambda>k. k \<notin> used) (inodes_from fs dir) of
        None \<Rightarrow> (Inl EXT2_ET_INODE_ALLOC_FAIL, used, dirs)
      | Some k \<Rightarrow> (Inr (of_nat k), insert k used, if isdir then insert k dirs else dirs))"
| "spec_inode fs (Release_Inode ino isdir) (used, dirs) =
     (Inr ino, used - {unat ino}, if isdir then dirs - {unat ino} else dirs)"

fun spec_inodes :: "ext2_filsys \<Rightarrow> inode_call list \<Rightarrow> nat set \<times> nat set \<Rightarrow> (errcode + u32) list \<times> nat set \<times> nat set" where
  "spec_inodes fs [] st = ([], st)"
| "spec_inodes fs (c # cs) st = (let (r, st1) = spec_inode fs c st; (rs, st2) = spec_inodes fs cs st1 in (r # rs, st2))"

text \<open>A released inode is in use, is a directory if the caller says so, and is not the last one in use.\<close>

fun inode_call_ok :: "ext2_filsys \<Rightarrow> inode_call \<Rightarrow> nat set \<times> nat set \<Rightarrow> bool" where
  "inode_call_ok fs (New_Inode dir isdir) (used, dirs) \<longleftrightarrow> unat dir \<le> n_inodes fs"
| "inode_call_ok fs (Release_Inode ino isdir) (used, dirs) \<longleftrightarrow>
     1 \<le> unat ino \<and> unat ino \<le> n_inodes fs \<and> unat ino \<in> used \<and> used - {unat ino} \<noteq> {} \<and> isdir = (unat ino \<in> dirs)"

fun inode_calls_ok :: "ext2_filsys \<Rightarrow> inode_call list \<Rightarrow> nat set \<times> nat set \<Rightarrow> bool" where
  "inode_calls_ok fs [] st \<longleftrightarrow> True"
| "inode_calls_ok fs (c # cs) st \<longleftrightarrow> inode_call_ok fs c st \<and> inode_calls_ok fs cs (snd (spec_inode fs c st))"

lemma spec_inode_same:
  assumes "same_inodes fs fs'"
  shows "spec_inode fs' c st = spec_inode fs c st" "inode_call_ok fs' c st = inode_call_ok fs c st"
    "spec_inodes fs' cs st = spec_inodes fs cs st" "inode_calls_ok fs' cs st = inode_calls_ok fs cs st"
proof -
  note s = same_inodesD [OF assms]
  have f: "inodes_from fs' dir = inodes_from fs dir" for dir by (simp add: inodes_from_def s)
  have c1: "spec_inode fs' c st = spec_inode fs c st" for c st by (cases st, cases c) (simp_all only: spec_inode.simps f)
  have c2: "inode_call_ok fs' c st = inode_call_ok fs c st" for c st by (cases st, cases c) (simp_all only: inode_call_ok.simps s)
  show "spec_inode fs' c st = spec_inode fs c st" "inode_call_ok fs' c st = inode_call_ok fs c st" by (rule c1, rule c2)
  show "spec_inodes fs' cs st = spec_inodes fs cs st" by (induction cs arbitrary: st) (simp_all add: c1)
  show "inode_calls_ok fs' cs st = inode_calls_ok fs cs st" by (induction cs arbitrary: st) (simp_all add: c1 c2)
qed

section \<open>Steps of the allocator\<close>

lemma find_upt_Some: "a \<le> z \<Longrightarrow> z < b \<Longrightarrow> P z \<Longrightarrow> (\<And>k. a \<le> k \<Longrightarrow> k < z \<Longrightarrow> \<not> P k) \<Longrightarrow> find P [a..<b] = Some z"
  by (cases "find P [a..<b]") (auto simp: find_upt_None dest!: find_upt_bounds, metis linorder_neqE_nat)

lemma find_inode:
  assumes "seen fs start j \<subseteq> used" "j \<notin> used" "first_ino fs \<le> j" "j \<le> n_inodes fs"
  shows "find (\<lambda>k. k \<notin> used) ([start..<n_inodes fs + 1] @ [first_ino fs..<start]) = Some j"
proof (cases "start \<le> j")
  case True
  then have "find (\<lambda>k. k \<notin> used) [start..<n_inodes fs + 1] = Some j"
    by (rule find_upt_Some) (use assms True in \<open>auto simp: seen_def\<close>)
  then show ?thesis by (simp add: find_append del: upt_Suc)
next
  case False
  have "find (\<lambda>k. k \<notin> used) [start..<n_inodes fs + 1] = None" using assms False by (auto simp: find_upt_None seen_def simp del: upt_Suc)
  moreover have "find (\<lambda>k. k \<notin> used) [first_ino fs..<start] = Some j"
    by (rule find_upt_Some [OF assms(3)]) (use assms False in \<open>auto simp: seen_def\<close>)
  ultimately show ?thesis by (simp add: find_append del: upt_Suc)
qed

lemma new_inode_step:
  assumes ok: "inode_state_ok h used dirs" and dir: "unat dir \<le> n_inodes (h_fs h)"
  shows "\<exists>h1. ext2fs_new_inode (bmap_ops env) h dir None =
      Some (case find (\<lambda>k. k \<notin> used) (inodes_from (h_fs h) dir) of None \<Rightarrow> Inl EXT2_ET_INODE_ALLOC_FAIL | Some k \<Rightarrow> Inr (of_nat k), h1, None) \<and>
    inode_state_ok h1 used dirs \<and> same_inodes (h_fs h) (h_fs h1)"
proof -
  let ?fs = "h_fs h" and ?find = "find (\<lambda>k. k \<notin> used) (inodes_from (h_fs h) dir)"
  have io: "inode_ok ?fs" "h_magic h = EXT2_ET_MAGIC_EXT2FS_FILSYS" using ok by (simp_all add: inode_state_ok_def)
  obtain b where b: "h_inode_map h = Some (B64 b)" "inode_map_ok ?fs b" "bm_set b = used" using ok by (auto simp: inode_state_ok_def)
  have gk: "inode_group_ok ?fs used dirs g" if "unat g < n_groups ?fs" for g using ok that by (simp add: inode_state_ok_def)
  have disj: "used \<inter> uninit_inodes ?fs = {}" using gk by (auto simp: uninit_inodes_def inode_group_ok_def)
  then have su: "some_used ?fs (bm_set b)" using ok b(3) by (auto simp: some_used_def inode_state_ok_def)
  obtain start r fs' b' where n: "first_inode_to_try (fs_super ?fs) dir = Some start" "first_ino ?fs \<le> unat start" "unat start \<le> n_inodes ?fs"
      "ext2fs_new_inode (bmap_ops env) h dir None = Some (r, h\<lparr>h_fs := fs', h_inode_map := Some (B64 b')\<rparr>, None)" "inode_search ?fs (bm_set b) fs' b'"
      "case r of
         Inr i \<Rightarrow> first_ino ?fs \<le> unat i \<and> unat i \<le> n_inodes ?fs \<and> unat i \<notin> bm_set b' \<and> seen ?fs (unat start) (unat i) \<subseteq> bm_set b
       | Inl e \<Rightarrow> e = EXT2_ET_INODE_ALLOC_FAIL \<and> {first_ino ?fs..n_inodes ?fs} \<subseteq> bm_set b"
    by (rule new_inode_run [OF io(2) b(1) io(1) b(2) su dir, where env = env]) (rule that)
  have s: "same_inodes ?fs fs'" by (rule inode_search_same [OF n(5)]) (use io in \<open>simp add: inode_ok_def\<close>)
  note ns = n(5) [unfolded inode_search_def b(3)]
  have b': "bm_set b' = used" "inode_map_ok fs' b'" using ns disj by auto
  have "inode_group_ok fs' used dirs g" if "unat g < n_groups ?fs" for g
    by (rule inode_group_frame [OF gk [OF that] s]) (use ns that gk [OF that] in \<open>auto simp: inode_group_ok_def\<close>)
  then have st: "inode_state_ok (h\<lparr>h_fs := fs', h_inode_map := Some (B64 b')\<rparr>) used dirs"
    using ok b' ns same_inodesD [OF s] by (simp add: inode_state_ok_def)
  have from': "inodes_from ?fs dir = [unat start..<n_inodes ?fs + 1] @ [first_ino ?fs..<unat start]"
    using first_inode_bounds [OF io(1) dir] n(1) by (simp add: inodes_from_def Let_def del: upt_Suc)
  have "r = (case ?find of None \<Rightarrow> Inl EXT2_ET_INODE_ALLOC_FAIL | Some k \<Rightarrow> Inr (of_nat k))"
  proof (cases r)
    case (Inl e)
    then have "k \<in> used" if "first_ino ?fs \<le> k" "k \<le> n_inodes ?fs" for k using n(6) b(3) that by auto
    then have "?find = None" using n(2,3) unfolding from' by (auto simp: find_None_iff simp del: upt_Suc)
    then show ?thesis using Inl n(6) by simp
  next
    case (Inr i)
    then have "?find = Some (unat i)" unfolding from' by (intro find_inode) (use n(6) b(3) b'(1) in auto)
    then show ?thesis using Inr by simp
  qed
  then show ?thesis using n(4) st s by auto
qed

lemma exec_inode_step:
  assumes ok: "inode_state_ok h used dirs" and c: "inode_call_ok (h_fs h) c (used, dirs)"
  defines "st \<equiv> snd (spec_inode (h_fs h) c (used, dirs))"
  shows "\<exists>h'. exec_inode env c h = Some (fst (spec_inode (h_fs h) c (used, dirs)), h') \<and> inode_state_ok h' (fst st) (snd st) \<and> same_inodes (h_fs h) (h_fs h')"
proof (cases c)
  case (Release_Inode ino isdir)
  then have "inode_moves (- 1) isdir (unat ino) used dirs (fst st) (snd st)" "fst st \<noteq> {}" using c by (auto simp: inode_moves_def st_def)
  from inode_stats_step [OF ok _ _ this, of env] show ?thesis using c Release_Inode by (auto simp: exec_inode_def)
next
  case (New_Inode dir isdir)
  let ?find = "find (\<lambda>k. k \<notin> used) (inodes_from (h_fs h) dir)"
  obtain h1 where h1: "ext2fs_new_inode (bmap_ops env) h dir None =
      Some (case ?find of None \<Rightarrow> Inl EXT2_ET_INODE_ALLOC_FAIL | Some k \<Rightarrow> Inr (of_nat k), h1, None)" "inode_state_ok h1 used dirs" "same_inodes (h_fs h) (h_fs h1)"
    using new_inode_step [OF ok, of dir env] c New_Inode by auto
  show ?thesis
  proof (cases ?find)
    case None
    then show ?thesis using New_Inode h1 by (simp add: exec_inode_def st_def)
  next
    case (Some k)
    have io: "inode_ok (h_fs h)" using ok by (simp add: inode_state_ok_def)
    have k: "k \<in> set (inodes_from (h_fs h) dir)" "k \<notin> used" using Some by (auto simp: find_Some_iff in_set_conv_nth)
    have kb: "1 \<le> k" "k \<le> n_inodes (h_fs h)"
      using k(1) first_inode_bounds [OF io, of dir] c New_Inode io by (auto simp: inodes_from_def Let_def inode_ok_def simp del: upt_Suc)
    have u: "unat (of_nat k :: u32) = k" using kb(2) io by (simp add: unat_of_nat inode_ok_def)
    have "k \<notin> dirs" using k(2) ok by (auto simp: inode_state_ok_def)
    then have "inode_moves 1 isdir (unat (of_nat k :: u32)) used dirs (fst st) (snd st)" "fst st \<noteq> {}"
      using New_Inode Some k(2) u by (auto simp: inode_moves_def st_def)
    from inode_stats_step [OF h1(2) _ _ this, of env] kb show ?thesis
      using New_Inode Some h1 same_inodesD(2) [OF h1(3)] u by (auto simp: exec_inode_def same_inodes_def)
  qed
qed

lemma exec_inodes_refine:
  assumes "inode_state_ok h used dirs" "inode_calls_ok (h_fs h) cs (used, dirs)"
  shows "\<exists>h' used' dirs'. exec_inodes env cs h = Some (fst (spec_inodes (h_fs h) cs (used, dirs)), h') \<and>
    snd (spec_inodes (h_fs h) cs (used, dirs)) = (used', dirs') \<and> inode_state_ok h' used' dirs'"
  using assms
proof (induction cs arbitrary: h used dirs)
  case (Cons c cs)
  let ?s = "spec_inode (h_fs h) c (used, dirs)"
  obtain u1 d1 where st: "snd ?s = (u1, d1)" by (cases "snd ?s")
  obtain h1 where 1: "exec_inode env c h = Some (fst ?s, h1)" "inode_state_ok h1 u1 d1" "same_inodes (h_fs h) (h_fs h1)"
    using exec_inode_step [OF Cons.prems(1), of c env] Cons.prems(2) st by auto
  have "inode_calls_ok (h_fs h1) cs (u1, d1)" using Cons.prems(2) st by (simp add: spec_inode_same [OF 1(3)])
  from Cons.IH [OF 1(2) this] show ?case using 1(1) st by (auto simp: spec_inode_same [OF 1(3)] split: prod.splits)
qed simp

section \<open>Property\<close>

text \<open>C2. Allocation of inodes. On a well-formed file system, with or without descriptor checksums, every sequence of allocations and
  releases of inodes runs without an access outside a buffer and answers as the abstract allocator: an allocation returns the first free inode
  from the group of the given directory on, going round at the end, or the error that none is free. At the end the bitmap holds the inodes in
  use; the free inodes and the directories of each group and the free inodes of the superblock are the numbers the sets give; no inode in use
  is in the part of an inode table counted as unused; no group in use is flagged as uninitialised; and the checksums of all descriptors are
  valid.\<close>

theorem inode_alloc_session_refines:
  assumes "inode_state_ok h used dirs" "inode_calls_ok (h_fs h) cs (used, dirs)"
  shows "\<exists>h' used' dirs'. exec_inodes env cs h = Some (fst (spec_inodes (h_fs h) cs (used, dirs)), h') \<and>
    snd (spec_inodes (h_fs h) cs (used, dirs)) = (used', dirs') \<and> inode_state_ok h' used' dirs'"
  using assms by (rule exec_inodes_refine)

definition inode_descs :: "u8 list" where
  "inode_descs = concat (map (\<lambda>n. replicate 14 0 @ [n, 0] @ [1, 0] @ replicate 46 0) [6, 0, 7])"

definition counted_handle :: "priv handle" where
  "counted_handle = inode_handle\<lparr>h_fs := inode_fs\<lparr>fs_group_desc := inode_descs,
     fs_super := (fs_super inode_fs)\<lparr>s_free_inodes_count := 13\<rparr>\<rparr>\<rparr>"

definition inode_calls :: "inode_call list" where
  "inode_calls = [New_Inode 9 False, New_Inode 2 True, Release_Inode 9 True, New_Inode 9 False]"

lemma inode_descs_explicit: "length inode_descs = 192"
  "inode_descs = replicate 14 0 @ [6, 0, 1, 0] @ replicate 60 0 @ [0, 0, 1, 0] @ replicate 60 0 @ [7, 0, 1, 0] @ replicate 46 0"
  by (simp_all add: inode_descs_def numeral_nat replicate_append_same)

lemma counted_same: "same_inodes inode_fs (h_fs counted_handle)" "ext2fs_has_group_desc_csum (h_fs counted_handle) = False"
  "fs_group_desc (h_fs counted_handle) = inode_descs" "s_free_inodes_count (fs_super (h_fs counted_handle)) = 13"
  "ext2fs_has_feature_64bit (fs_super (h_fs counted_handle))" "EXT2_DESC_SIZE (fs_super (h_fs counted_handle)) = 64"
proof -
  have d: "EXT2_DESC_SIZE (fs_super inode_fs) = 64" "ext2fs_has_feature_64bit (fs_super inode_fs)" "length (fs_group_desc inode_fs) = 192"
    by (simp_all add: inode_fs_def alloc_fs_def alloc_descs_explicit(1) EXT2_DESC_SIZE_def ext2fs_has_feature_64bit_def) (simp_all add: small_super_def)
  show e: "ext2fs_has_feature_64bit (fs_super (h_fs counted_handle))" "EXT2_DESC_SIZE (fs_super (h_fs counted_handle)) = 64"
    "fs_group_desc (h_fs counted_handle) = inode_descs" "s_free_inodes_count (fs_super (h_fs counted_handle)) = 13"
    using d by (simp_all add: counted_handle_def EXT2_DESC_SIZE_def ext2fs_has_feature_64bit_def)
  show "ext2fs_has_group_desc_csum (h_fs counted_handle) = False"
    by (simp add: counted_handle_def inode_fs_def small_super_def ext2fs_has_group_desc_csum_def ext2fs_has_feature_metadata_csum_def ext2fs_has_feature_gdt_csum_def)
  then show "same_inodes inode_fs (h_fs counted_handle)"
    using d e inode_fs_ok(6)
    by (simp add: same_inodes_def csum_ok_def descs_ok_def desc_stride_def n_groups_def inode_descs_explicit(1) ext2fs_has_group_desc_csum_def
        ext2fs_has_feature_metadata_csum_def ext2fs_has_feature_gdt_csum_def EXT2_FIRST_INO_def) (simp add: counted_handle_def)
qed

lemma inode_group_counts:
  "card ({1..8} - {1, 2, 9, 10, 11, 12, 13, 14, 15, 16, 17 :: nat}) = 6" "card ({1..8} \<inter> {2, 9, 17 :: nat}) = 1"
  "card ({9..16} - {1, 2, 9, 10, 11, 12, 13, 14, 15, 16, 17 :: nat}) = 0" "card ({9..16} \<inter> {2, 9, 17 :: nat}) = 1"
  "card ({17..24} - {1, 2, 9, 10, 11, 12, 13, 14, 15, 16, 17 :: nat}) = 7" "card ({17..24} \<inter> {2, 9, 17 :: nat}) = 1"
  "card ({1..24} - {1, 2, 9, 10, 11, 12, 13, 14, 15, 16, 17 :: nat}) = 13"
  by code_simp+

lemma counted_handle_ok: "inode_state_ok counted_handle {1, 2, 9, 10, 11, 12, 13, 14, 15, 16, 17} {2, 9, 17}"
proof -
  let ?fs = "h_fs counted_handle" and ?used = "{1, 2, 9, 10, 11, 12, 13, 14, 15, 16, 17 :: nat}"
  note s = same_inodesD [OF counted_same(1), unfolded inode_fs_ok]
  have "inode_group_ok ?fs ?used {2, 9, 17} g" if "unat g < 3" for g
  proof -
    have o: "ext2fs_group_desc ?fs g = unat g * 64" using that s(4) by (simp add: ext2fs_group_desc_def counted_same)
    have "ext2fs_bg_free_inodes_count ?fs g = Some (of_nat (card (group_inodes ?fs (unat g) - ?used))) \<and>
        ext2fs_bg_used_dirs_count ?fs g = Some (of_nat (card (group_inodes ?fs (unat g) \<inter> {2, 9, 17})))"
    proof -
      consider "unat g = 0" | "unat g = 1" | "unat g = 2" using \<open>unat g < 3\<close> by linarith
      then show ?thesis
        by cases (simp_all add: group_inodes_def s(1) inode_group_counts [simplified] ext2fs_bg_free_inodes_count_def ext2fs_bg_used_dirs_count_def
            get_halves16_def o counted_same, simp_all add: rd16_def rd_def inode_descs_explicit nth_append)
    qed
    moreover have "csum_valid ?fs g" using counted_same(2) by (simp add: csum_valid_def ext2fs_group_desc_csum_verify_def)
    ultimately show ?thesis using counted_same(2) by (simp add: inode_group_ok_def uninit_group_def)
  qed
  moreover have "h_inode_map counted_handle = Some (B64 (inode_bm [3, 255, 1]))" "h_magic counted_handle = EXT2_ET_MAGIC_EXT2FS_FILSYS"
    by (simp_all add: counted_handle_def inode_handle_def alloc_handle_def)
  ultimately show ?thesis
    using s inode_fs_ok(1) inode_bm_ok(1) [of "[3, 255, 1]"] inode_bm_example inode_group_counts(7) counted_same(4) by (simp add: inode_state_ok_def inode_fs_ok(2))
qed

lemma inode_calls_example:
  "inode_calls_ok (h_fs counted_handle) inode_calls ({1, 2, 9, 10, 11, 12, 13, 14, 15, 16, 17}, {2, 9, 17})"
  "spec_inodes (h_fs counted_handle) inode_calls ({1, 2, 9, 10, 11, 12, 13, 14, 15, 16, 17}, {2, 9, 17}) =
     ([Inr 18, Inr 3, Inr 9, Inr 9], {1, 2, 3, 9, 10, 11, 12, 13, 14, 15, 16, 17, 18}, {2, 3, 17})"
proof -
  note s = same_inodesD [OF counted_same(1), unfolded inode_fs_ok]
  have f: "inodes_from (h_fs counted_handle) 9 = [9..<25] @ [3..<9]" "inodes_from (h_fs counted_handle) 2 = [3..<25]"
    by (simp_all add: inodes_from_def s)
  show "inode_calls_ok (h_fs counted_handle) inode_calls ({1, 2, 9, 10, 11, 12, 13, 14, 15, 16, 17}, {2, 9, 17})"
    "spec_inodes (h_fs counted_handle) inode_calls ({1, 2, 9, 10, 11, 12, 13, 14, 15, 16, 17}, {2, 9, 17}) =
     ([Inr 18, Inr 3, Inr 9, Inr 9], {1, 2, 3, 9, 10, 11, 12, 13, 14, 15, 16, 17, 18}, {2, 3, 17})"
    by (auto simp: inode_calls_def f upt_conv_Cons s)
qed

theorem inode_alloc_session_refines_witness:
  "\<forall>env. \<exists>h'. exec_inodes env inode_calls counted_handle = Some ([Inr 18, Inr 3, Inr 9, Inr 9], h') \<and>
     inode_state_ok h' {1, 2, 3, 9, 10, 11, 12, 13, 14, 15, 16, 17, 18} {2, 3, 17}"
  using inode_alloc_session_refines [OF counted_handle_ok inode_calls_example(1)] unfolding inode_calls_example(2) by auto

end
