(* ===== verification/Num_Dirs.thy ===== *)
theory Num_Dirs
  imports Alloc_Inode_Session
begin

text \<open>
  The number of directories, \<^verbatim>\<open>lib/ext2fs/get_num_dirs.c\<close>, which sizes bitmaps and arrays: the sum over the group descriptors, where a group
  that claims more directories than it has inodes counts for an eighth of its inodes, cut at the number of inodes.
\<close>

fun num_dirs_from :: "ext2_filsys \<Rightarrow> u32 \<Rightarrow> u32 \<Rightarrow> nat \<Rightarrow> u32 option" where
  "num_dirs_from fs i num_dirs 0 = Some num_dirs"
| "num_dirs_from fs i num_dirs (Suc n) =
     do { c \<leftarrow> ext2fs_bg_used_dirs_count fs i;
          let max_dirs = s_inodes_per_group (fs_super fs);
          num_dirs_from fs (i + 1) (num_dirs + (if c > max_dirs then max_dirs div 8 else c)) n }"

definition ext2fs_get_num_dirs :: "'p handle \<Rightarrow> (errcode + u32) option" where
  "ext2fs_get_num_dirs h =
     (if h_magic h \<noteq> EXT2_ET_MAGIC_EXT2FS_FILSYS then Some (Inl EXT2_ET_MAGIC_EXT2FS_FILSYS)
      else do { num_dirs \<leftarrow> num_dirs_from (h_fs h) 0 0 (unat (fs_group_desc_count (h_fs h)));
                Some (Inr (min num_dirs (s_inodes_count (fs_super (h_fs h))))) })"

text \<open>The directories of the groups before a group.\<close>

definition dirs_before :: "ext2_filsys \<Rightarrow> nat set \<Rightarrow> nat \<Rightarrow> nat set" where
  "dirs_before fs dirs g = dirs \<inter> {1..g * per_ino fs}"

lemma dirs_before_Suc:
  "card (dirs_before fs dirs (Suc g)) = card (dirs_before fs dirs g) + card (group_inodes fs g \<inter> dirs)"
proof -
  have "dirs_before fs dirs (Suc g) = dirs_before fs dirs g \<union> (group_inodes fs g \<inter> dirs)" by (auto simp: dirs_before_def group_inodes_def)
  moreover have "dirs_before fs dirs g \<inter> (group_inodes fs g \<inter> dirs) = {}" by (auto simp: dirs_before_def group_inodes_def)
  ultimately show ?thesis by (simp add: card_Un_disjoint dirs_before_def group_inodes_def)
qed

lemma num_dirs_from_exact:
  assumes counts: "\<And>g. unat g < n_groups fs \<Longrightarrow> ext2fs_bg_used_dirs_count fs g = Some (of_nat (card (group_inodes fs (unat g) \<inter> dirs)))"
    and "i + n = n_groups fs"
  shows "num_dirs_from fs (of_nat i) (of_nat (card (dirs_before fs dirs i))) n = Some (of_nat (card (dirs_before fs dirs (i + n))))"
  using assms(2)
proof (induction n arbitrary: i)
  case (Suc n)
  have "n_groups fs < 2 ^ 32" using unsigned_less [of "fs_group_desc_count fs", where 'a = nat] by (simp add: n_groups_def)
  then have i: "unat (of_nat i :: u32) = i" using Suc.prems by (simp add: unat_of_nat)
  let ?c = "card (group_inodes fs i \<inter> dirs)"
  have "?c \<le> card (group_inodes fs i)" by (rule card_mono) (simp_all add: group_inodes_def)
  then have c: "?c \<le> unat (s_inodes_per_group (fs_super fs))" by (simp add: group_inodes_def per_ino_def)
  then have "unat (of_nat ?c :: u32) = ?c" using unsigned_less [of "s_inodes_per_group (fs_super fs)", where 'a = nat] by (simp add: unat_of_nat)
  then have "\<not> (of_nat ?c :: u32) > s_inodes_per_group (fs_super fs)" using c by (simp add: word_less_nat_alt)
  then have "num_dirs_from fs (of_nat i) (of_nat (card (dirs_before fs dirs i))) (Suc n) =
      num_dirs_from fs (of_nat (Suc i)) (of_nat (card (dirs_before fs dirs (Suc i)))) n"
    using Suc.prems counts [of "of_nat i"] i by (simp add: dirs_before_Suc add.commute)
  then show ?case using Suc.IH [of "Suc i"] Suc.prems by (simp only: add_Suc_shift)
qed simp

text \<open>C14. On a file system whose descriptors count the directories, as the allocation of inodes keeps them, \<^verbatim>\<open>ext2fs_get_num_dirs\<close> returns the
  number of the directories among the inodes.\<close>

theorem get_num_dirs_exact:
  assumes "inode_state_ok h used dirs"
  shows "ext2fs_get_num_dirs h = Some (Inr (of_nat (card (dirs \<inter> {1..n_inodes (h_fs h)}))))"
proof -
  let ?fs = "h_fs h"
  have ok: "inode_ok ?fs" "h_magic h = EXT2_ET_MAGIC_EXT2FS_FILSYS" using assms by (simp_all add: inode_state_ok_def)
  have counts: "ext2fs_bg_used_dirs_count ?fs g = Some (of_nat (card (group_inodes ?fs (unat g) \<inter> dirs)))" if "unat g < n_groups ?fs" for g
    using assms that by (simp_all add: inode_state_ok_def inode_group_ok_def)
  have all: "dirs_before ?fs dirs (n_groups ?fs) = dirs \<inter> {1..n_inodes ?fs}" using ok(1) by (simp add: dirs_before_def inode_ok_def)
  have "card (dirs \<inter> {1..n_inodes ?fs}) \<le> n_inodes ?fs" using card_mono [of "{1..n_inodes ?fs}" "dirs \<inter> {1..n_inodes ?fs}"] by simp
  then have "(of_nat (card (dirs \<inter> {1..n_inodes ?fs})) :: u32) \<le> s_inodes_count (fs_super ?fs)"
    using unsigned_less [of "s_inodes_count (fs_super ?fs)", where 'a = nat] by (simp add: n_inodes_def word_le_nat_alt unat_of_nat)
  moreover have "num_dirs_from ?fs 0 0 (unat (fs_group_desc_count ?fs)) = Some (of_nat (card (dirs \<inter> {1..n_inodes ?fs})))"
    using num_dirs_from_exact [OF counts, of 0 "n_groups ?fs"] all by (simp add: n_groups_def dirs_before_def)
  ultimately show ?thesis using ok(2) by (simp add: ext2fs_get_num_dirs_def min_def)
qed

theorem get_num_dirs_exact_witness: "ext2fs_get_num_dirs counted_handle = Some (Inr 3)"
proof -
  have "n_inodes (h_fs counted_handle) = 24" using same_inodesD(2) [OF counted_same(1)] by (simp add: inode_fs_ok)
  then show ?thesis using get_num_dirs_exact [OF counted_handle_ok] by (simp add: Int_insert_left)
qed

end
