(* ===== verification/Icount.thy ===== *)
theory Icount
  imports Inode_Bitmap Badblocks Refcount Single
begin

unbundle bit_operations_syntax

text \<open>
  Counts of links per inode, \<^verbatim>\<open>lib/ext2fs/icount.c\<close>: a bitmap of the inodes with a count of one, a sorted array with a cursor for the
  larger counts, an optional bitmap of the inodes that are in the array, and instead of all of them an optional array with one cell per
  inode or a tdb file. A pointer to an element is its index; \<open>None\<close> for the whole result is an access outside an array or a conversion
  of a \<^verbatim>\<open>float\<close> that does not fit. The \<^verbatim>\<open>int\<close> indices of the code are unbounded here, which is exact for arrays of fewer than
  \<open>2\<^sup>3\<^sup>1\<close> entries. The tdb library is a parameter: a state and the operations the code calls, which return 0 or the error code
  the code makes of \<^verbatim>\<open>tdb_error\<close>.
\<close>

section \<open>Data\<close>

abbreviation EXT2_ET_MAGIC_ICOUNT :: errcode where "EXT2_ET_MAGIC_ICOUNT \<equiv> 2133571341"

record ext2_icount_el =
  ic_ino :: u32
  ic_cnt :: u32

record ('p, 'd) ext2_icount =
  ic_magic :: errcode
  ic_single :: "'p any_bmap option"
  ic_multiple :: "'p any_bmap option"
  ic_count :: nat
  ic_size :: nat
  ic_num_inodes :: u32
  ic_cursor :: nat
  ic_list :: "ext2_icount_el list option"
  ic_last_lookup :: "nat option"
  ic_tdb :: "'d option"
  ic_fullmap :: "16 word list option"

record 'd tdb_ops =
  tdb_store :: "'d \<Rightarrow> u32 \<Rightarrow> u32 \<Rightarrow> errcode \<times> 'd"
  tdb_delete :: "'d \<Rightarrow> u32 \<Rightarrow> errcode \<times> 'd"
  tdb_fetch :: "'d \<Rightarrow> u32 \<Rightarrow> errcode + u32"

definition icount_16_xlate :: "u32 \<Rightarrow> 16 word" where
  "icount_16_xlate x = (if x > 65500 then 65500 else ucast x)"

section \<open>The sorted array\<close>

text \<open>The size to grow to: as many entries as the part of the inodes that was passed suggests, and at least 100 more.\<close>

definition icount_new_size :: "('p, 'd) ext2_icount \<Rightarrow> ext2_icount_el list \<Rightarrow> nat option" where
  "icount_new_size ic l =
     do { new_size \<leftarrow>
            (if ic_count ic \<noteq> 0
             then do { e \<leftarrow> rd l (ic_count ic - 1);
                       let q = f32 (f32 (of_nat (ic_count ic)) * f32 (f32 (of_nat (unat (ic_num_inodes ic))) / f32 (of_nat (unat (ic_ino e)))));
                       if ic_ino e = 0 \<or> q \<ge> 2 ^ 32 then None else Some (nat \<lfloor>q\<rfloor>) }
             else Some 0);
          Some (max new_size ((ic_size ic + 100) mod W32)) }"

definition insert_icount_el ::
  "allocator \<Rightarrow> (nat \<Rightarrow> ext2_icount_el) \<Rightarrow> ('p, 'd) ext2_icount \<Rightarrow> u32 \<Rightarrow> nat \<Rightarrow> (nat option \<times> ('p, 'd) ext2_icount) option" where
  "insert_icount_el mem fresh ic ino pos =
     do { l \<leftarrow> ic_list ic;
          hit \<leftarrow> (case ic_last_lookup ic of None \<Rightarrow> Some False | Some i \<Rightarrow> do { e \<leftarrow> rd l i; Some (ic_ino e = ino) });
          if hit then Some (ic_last_lookup ic, ic)
          else do {
            new_size \<leftarrow> (if ic_count ic \<ge> ic_size ic then icount_new_size ic l else Some (ic_size ic));
            if ic_count ic \<ge> ic_size ic \<and> \<not> mem (new_size * 8) then Some (None, ic)
            else
              let l1 = (if ic_count ic \<ge> ic_size ic then resize_array fresh new_size l else l);
                  ic1 = ic\<lparr>ic_size := new_size, ic_list := Some l1\<rparr>
              in if ic_count ic < pos then Some (None, ic1)
                 else do {
                   l2 \<leftarrow> (if ic_count ic \<noteq> pos then memmove_up l1 pos (ic_count ic - pos) else Some l1);
                   l3 \<leftarrow> wr l2 pos \<lparr>ic_ino = ino, ic_cnt = 0\<rparr>;
                   Some (Some pos, ic1\<lparr>ic_count := ic_count ic + 1, ic_list := Some l3, ic_last_lookup := Some pos\<rparr>) } } }"

text \<open>The bisection: the index of the inode, or the place where it belongs.\<close>

function icount_bisect :: "ext2_icount_el list \<Rightarrow> u32 \<Rightarrow> int \<Rightarrow> int \<Rightarrow> (nat + int) option" where
  "icount_bisect l ino low high =
     (if low \<le> high then
        let mid = (low + high) div 2 in
        if mid < 0 then None
        else do { e \<leftarrow> rd l (nat mid);
                  if ino = ic_ino e then Some (Inl (nat mid))
                  else if ino < ic_ino e then icount_bisect l ino low (mid - 1)
                  else icount_bisect l ino (mid + 1) high }
      else Some (Inr low))"
  by pat_completeness auto
termination by (relation "measure (\<lambda>(l, ino, low, high). nat (high + 1 - low))") auto

declare icount_bisect.simps [simp del]

definition get_icount_el ::
  "allocator \<Rightarrow> (nat \<Rightarrow> ext2_icount_el) \<Rightarrow> ('p, 'd) ext2_icount \<Rightarrow> u32 \<Rightarrow> bool \<Rightarrow> (nat option \<times> ('p, 'd) ext2_icount) option" where
  "get_icount_el mem fresh ic ino create =
     (case ic_list ic of
        None \<Rightarrow> Some (None, ic)
      | Some l \<Rightarrow>
          do { append \<leftarrow> (if create
                           then if ic_count ic = 0 then Some True
                                else do { e \<leftarrow> rd l (ic_count ic - 1); Some (ino > ic_ino e) }
                           else Some False);
               if append then insert_icount_el mem fresh ic ino (ic_count ic)
               else if ic_count ic = 0 then Some (None, ic)
               else
                 let ic1 = (if ic_cursor ic \<ge> ic_count ic then ic\<lparr>ic_cursor := 0\<rparr> else ic) in
                 do { e \<leftarrow> rd l (ic_cursor ic1);
                      if ino = ic_ino e then Some (Some (ic_cursor ic1), ic1\<lparr>ic_cursor := ic_cursor ic1 + 1\<rparr>)
                      else do {
                        s \<leftarrow> icount_bisect l ino 0 (int (ic_count ic1) - 1);
                        (case s of
                           Inl mid \<Rightarrow> Some (Some mid, ic1\<lparr>ic_cursor := mid + 1\<rparr>)
                         | Inr low \<Rightarrow> if create then insert_icount_el mem fresh ic1 ino (nat low) else Some (None, ic1)) } } })"

section \<open>Counts\<close>

definition set_inode_count ::
  "'d tdb_ops \<Rightarrow> allocator \<Rightarrow> (nat \<Rightarrow> ext2_icount_el) \<Rightarrow> ('p, 'd) ext2_icount \<Rightarrow> u32 \<Rightarrow> u32 \<Rightarrow> (errcode \<times> ('p, 'd) ext2_icount) option" where
  "set_inode_count tdb mem fresh ic ino count =
     (case ic_tdb ic of
        Some d \<Rightarrow> let (e, d') = (if count \<noteq> 0 then tdb_store tdb d ino count else tdb_delete tdb d ino) in Some (e, ic\<lparr>ic_tdb := Some d'\<rparr>)
      | None \<Rightarrow>
          (case ic_fullmap ic of
             Some m \<Rightarrow> do { m' \<leftarrow> wr m (unat ino) (icount_16_xlate count); Some (0, ic\<lparr>ic_fullmap := Some m'\<rparr>) }
           | None \<Rightarrow>
               do { (el, ic1) \<leftarrow> get_icount_el mem fresh ic ino True;
                    (case el of
                       None \<Rightarrow> Some (EXT2_ET_NO_MEMORY, ic1)
                     | Some i \<Rightarrow> do { l \<leftarrow> ic_list ic1; e \<leftarrow> rd l i; l' \<leftarrow> wr l i (e\<lparr>ic_cnt := count\<rparr>); Some (0, ic1\<lparr>ic_list := Some l'\<rparr>) }) }))"

definition get_inode_count ::
  "'d tdb_ops \<Rightarrow> allocator \<Rightarrow> (nat \<Rightarrow> ext2_icount_el) \<Rightarrow> ('p, 'd) ext2_icount \<Rightarrow> u32 \<Rightarrow> (errcode \<times> u32 \<times> ('p, 'd) ext2_icount) option" where
  "get_inode_count tdb mem fresh ic ino =
     (case ic_tdb ic of
        Some d \<Rightarrow> Some (case tdb_fetch tdb d ino of Inl e \<Rightarrow> (e, 0, ic) | Inr v \<Rightarrow> (0, v, ic))
      | None \<Rightarrow>
          (case ic_fullmap ic of
             Some m \<Rightarrow> do { v \<leftarrow> rd m (unat ino); Some (0, ucast v, ic) }
           | None \<Rightarrow>
               do { (el, ic1) \<leftarrow> get_icount_el mem fresh ic ino False;
                    (case el of
                       None \<Rightarrow> Some (ENOENT, 0, ic1)
                     | Some i \<Rightarrow> do { l \<leftarrow> ic_list ic1; e \<leftarrow> rd l i; Some (0, ic_cnt e, ic1) }) }))"

text \<open>The loop over neighbours that are out of order; the messages are left out.\<close>

fun icount_unsorted :: "ext2_icount_el list \<Rightarrow> nat \<Rightarrow> nat \<Rightarrow> bool option" where
  "icount_unsorted l i 0 = Some False"
| "icount_unsorted l i (Suc n) =
     do { a \<leftarrow> rd l (i - 1); b \<leftarrow> rd l i; r \<leftarrow> icount_unsorted l (Suc i) n; Some (ic_ino a \<ge> ic_ino b \<or> r) }"

definition ext2fs_icount_validate :: "('p, 'd) ext2_icount \<Rightarrow> errcode option" where
  "ext2fs_icount_validate ic =
     (if ic_magic ic \<noteq> EXT2_ET_MAGIC_ICOUNT then Some EXT2_ET_MAGIC_ICOUNT
      else if ic_count ic > ic_size ic then Some EXT2_ET_INVALID_ARGUMENT
      else if ic_count ic \<le> 1 then Some 0
      else do { l \<leftarrow> ic_list ic; bad \<leftarrow> icount_unsorted l 1 (ic_count ic - 1); Some (if bad then EXT2_ET_INVALID_ARGUMENT else 0) })"

text \<open>A bitmap of the object, tested, marked or unmarked; the object keeps the bitmap that results.\<close>

definition test_single :: "'p bitmap_ops \<Rightarrow> ('p, 'd) ext2_icount \<Rightarrow> u32 \<Rightarrow> (bool \<times> ('p, 'd) ext2_icount) option" where
  "test_single ops ic ino = do { (r, bm) \<leftarrow> ext2fs_test_generic_bmap ops (ic_single ic) (unat ino); Some (r \<noteq> 0, ic\<lparr>ic_single := bm\<rparr>) }"

definition test_multiple :: "'p bitmap_ops \<Rightarrow> ('p, 'd) ext2_icount \<Rightarrow> u32 \<Rightarrow> (bool \<times> ('p, 'd) ext2_icount) option" where
  "test_multiple ops ic ino = do { (r, bm) \<leftarrow> ext2fs_test_generic_bmap ops (ic_multiple ic) (unat ino); Some (r \<noteq> 0, ic\<lparr>ic_multiple := bm\<rparr>) }"

definition mark_single :: "'p bitmap_ops \<Rightarrow> ('p, 'd) ext2_icount \<Rightarrow> u32 \<Rightarrow> ('p, 'd) ext2_icount option" where
  "mark_single ops ic ino = do { (_, bm) \<leftarrow> ext2fs_mark_generic_bmap ops (ic_single ic) (unat ino); Some (ic\<lparr>ic_single := bm\<rparr>) }"

definition unmark_single :: "'p bitmap_ops \<Rightarrow> ('p, 'd) ext2_icount \<Rightarrow> u32 \<Rightarrow> ('p, 'd) ext2_icount option" where
  "unmark_single ops ic ino = do { (_, bm) \<leftarrow> ext2fs_unmark_generic_bmap ops (ic_single ic) (unat ino); Some (ic\<lparr>ic_single := bm\<rparr>) }"

definition mark_multiple :: "'p bitmap_ops \<Rightarrow> ('p, 'd) ext2_icount \<Rightarrow> u32 \<Rightarrow> ('p, 'd) ext2_icount option" where
  "mark_multiple ops ic ino =
     (if ic_multiple ic = None then Some ic
      else do { (_, bm) \<leftarrow> ext2fs_mark_generic_bmap ops (ic_multiple ic) (unat ino); Some (ic\<lparr>ic_multiple := bm\<rparr>) })"

definition unmark_multiple :: "'p bitmap_ops \<Rightarrow> ('p, 'd) ext2_icount \<Rightarrow> u32 \<Rightarrow> ('p, 'd) ext2_icount option" where
  "unmark_multiple ops ic ino = do { (_, bm) \<leftarrow> ext2fs_unmark_generic_bmap ops (ic_multiple ic) (unat ino); Some (ic\<lparr>ic_multiple := bm\<rparr>) }"

section \<open>Operations\<close>

text \<open>An answer is the error code, the count that is stored through the pointer, if any, and the object.\<close>

definition ext2fs_icount_fetch ::
  "'p bitmap_ops \<Rightarrow> 'd tdb_ops \<Rightarrow> allocator \<Rightarrow> (nat \<Rightarrow> ext2_icount_el) \<Rightarrow> ('p, 'd) ext2_icount \<Rightarrow> u32 \<Rightarrow>
   (errcode \<times> 16 word option \<times> ('p, 'd) ext2_icount) option" where
  "ext2fs_icount_fetch ops tdb mem fresh ic ino =
     (if ic_magic ic \<noteq> EXT2_ET_MAGIC_ICOUNT then Some (EXT2_ET_MAGIC_ICOUNT, None, ic)
      else if ino = 0 \<or> ino > ic_num_inodes ic then Some (EXT2_ET_INVALID_ARGUMENT, None, ic)
      else do {
        (one, ic1) \<leftarrow> (if ic_fullmap ic = None then test_single ops ic ino else Some (False, ic));
        if one then Some (0, Some 1, ic1)
        else do {
          (zero, ic2) \<leftarrow> (if ic_fullmap ic = None \<and> ic_multiple ic1 \<noteq> None
                            then map_option (\<lambda>(r, ic2). (\<not> r, ic2)) (test_multiple ops ic1 ino) else Some (False, ic1));
          if zero then Some (0, Some 0, ic2)
          else do { (_, val, ic3) \<leftarrow> get_inode_count tdb mem fresh ic2 ino; Some (0, Some (icount_16_xlate val), ic3) } } })"

text \<open>The end of an increment: the inode is in the array, and the new count is returned.\<close>

definition increment_done :: "'p bitmap_ops \<Rightarrow> ('p, 'd) ext2_icount \<Rightarrow> u32 \<Rightarrow> u32 \<Rightarrow> (errcode \<times> 16 word option \<times> ('p, 'd) ext2_icount) option" where
  "increment_done ops ic ino curr_value =
     do { ic1 \<leftarrow> mark_multiple ops ic ino; Some (0, Some (icount_16_xlate curr_value), ic1) }"

definition increment_listed ::
  "'p bitmap_ops \<Rightarrow> 'd tdb_ops \<Rightarrow> allocator \<Rightarrow> (nat \<Rightarrow> ext2_icount_el) \<Rightarrow> ('p, 'd) ext2_icount \<Rightarrow> u32 \<Rightarrow>
   (errcode \<times> 16 word option \<times> ('p, 'd) ext2_icount) option" where
  "increment_listed ops tdb mem fresh ic ino =
     do { (_, v, ic1) \<leftarrow> get_inode_count tdb mem fresh ic ino;
          (e, ic2) \<leftarrow> set_inode_count tdb mem fresh ic1 ino (v + 1);
          if e \<noteq> 0 then Some (EXT2_ET_NO_MEMORY, None, ic2) else increment_done ops ic2 ino (v + 1) }"

definition ext2fs_icount_increment ::
  "'p bitmap_ops \<Rightarrow> 'd tdb_ops \<Rightarrow> allocator \<Rightarrow> (nat \<Rightarrow> ext2_icount_el) \<Rightarrow> ('p, 'd) ext2_icount \<Rightarrow> u32 \<Rightarrow>
   (errcode \<times> 16 word option \<times> ('p, 'd) ext2_icount) option" where
  "ext2fs_icount_increment ops tdb mem fresh ic ino =
     (if ic_magic ic \<noteq> EXT2_ET_MAGIC_ICOUNT then Some (EXT2_ET_MAGIC_ICOUNT, None, ic)
      else if ino = 0 \<or> ino > ic_num_inodes ic then Some (EXT2_ET_INVALID_ARGUMENT, None, ic)
      else
        (case ic_fullmap ic of
           Some m \<Rightarrow>
             do { v \<leftarrow> rd m (unat ino);
                  let curr_value = icount_16_xlate (ucast v + 1);
                  m' \<leftarrow> wr m (unat ino) curr_value;
                  increment_done ops (ic\<lparr>ic_fullmap := Some m'\<rparr>) ino (ucast curr_value) }
         | None \<Rightarrow>
             do { (one, ic1) \<leftarrow> test_single ops ic ino;
                  if one
                  then do { (e, ic2) \<leftarrow> set_inode_count tdb mem fresh ic1 ino 2;
                            if e \<noteq> 0 then Some (EXT2_ET_NO_MEMORY, None, ic2)
                            else do { ic3 \<leftarrow> unmark_single ops ic2 ino; increment_done ops ic3 ino 2 } }
                  else if ic_multiple ic1 \<noteq> None
                  then do { (listed, ic2) \<leftarrow> test_multiple ops ic1 ino;
                            if listed then increment_listed ops tdb mem fresh ic2 ino
                            else do { ic3 \<leftarrow> mark_single ops ic2 ino; Some (0, Some 1, ic3) } }
                  else increment_listed ops tdb mem fresh ic1 ino }))"

definition ext2fs_icount_decrement ::
  "'p bitmap_ops \<Rightarrow> 'd tdb_ops \<Rightarrow> allocator \<Rightarrow> (nat \<Rightarrow> ext2_icount_el) \<Rightarrow> ('p, 'd) ext2_icount \<Rightarrow> u32 \<Rightarrow>
   (errcode \<times> 16 word option \<times> ('p, 'd) ext2_icount) option" where
  "ext2fs_icount_decrement ops tdb mem fresh ic ino =
     (if ino = 0 \<or> ino > ic_num_inodes ic then Some (EXT2_ET_INVALID_ARGUMENT, None, ic)
      else if ic_magic ic \<noteq> EXT2_ET_MAGIC_ICOUNT then Some (EXT2_ET_MAGIC_ICOUNT, None, ic)
      else
        (case ic_fullmap ic of
           Some m \<Rightarrow>
             do { v \<leftarrow> rd m (unat ino);
                  if v = 0 then Some (EXT2_ET_INVALID_ARGUMENT, None, ic)
                  else do { m' \<leftarrow> wr m (unat ino) (v - 1); Some (0, Some (icount_16_xlate (ucast (v - 1))), ic\<lparr>ic_fullmap := Some m'\<rparr>) } }
         | None \<Rightarrow>
             do { (one, ic1) \<leftarrow> test_single ops ic ino;
                  if one
                  then do { ic2 \<leftarrow> unmark_single ops ic1 ino;
                            ic3 \<leftarrow> (if ic_multiple ic2 \<noteq> None then unmark_multiple ops ic2 ino
                                    else map_option snd (set_inode_count tdb mem fresh ic2 ino 0));
                            Some (0, Some 0, ic3) }
                  else do {
                    (listed, ic2) \<leftarrow> (if ic_multiple ic1 \<noteq> None then test_multiple ops ic1 ino else Some (True, ic1));
                    if \<not> listed then Some (EXT2_ET_INVALID_ARGUMENT, None, ic2)
                    else do {
                      (_, v, ic3) \<leftarrow> get_inode_count tdb mem fresh ic2 ino;
                      if v = 0 then Some (EXT2_ET_INVALID_ARGUMENT, None, ic3)
                      else do {
                        (e, ic4) \<leftarrow> set_inode_count tdb mem fresh ic3 ino (v - 1);
                        if e \<noteq> 0 then Some (EXT2_ET_NO_MEMORY, None, ic4)
                        else do {
                          ic5 \<leftarrow> (if v - 1 = 1 then mark_single ops ic4 ino else Some ic4);
                          ic6 \<leftarrow> (if v - 1 = 0 \<and> ic_multiple ic5 \<noteq> None then unmark_multiple ops ic5 ino else Some ic5);
                          Some (0, Some (icount_16_xlate (v - 1)), ic6) } } } } }))"

definition ext2fs_icount_store ::
  "'p bitmap_ops \<Rightarrow> 'd tdb_ops \<Rightarrow> allocator \<Rightarrow> (nat \<Rightarrow> ext2_icount_el) \<Rightarrow> ('p, 'd) ext2_icount \<Rightarrow> u32 \<Rightarrow> 16 word \<Rightarrow>
   (errcode \<times> ('p, 'd) ext2_icount) option" where
  "ext2fs_icount_store ops tdb mem fresh ic ino count =
     (if ino = 0 \<or> ino > ic_num_inodes ic then Some (EXT2_ET_INVALID_ARGUMENT, ic)
      else if ic_magic ic \<noteq> EXT2_ET_MAGIC_ICOUNT then Some (EXT2_ET_MAGIC_ICOUNT, ic)
      else if ic_fullmap ic \<noteq> None then set_inode_count tdb mem fresh ic ino (ucast count)
      else if count = 1
      then do { ic1 \<leftarrow> mark_single ops ic ino;
                ic2 \<leftarrow> (if ic_multiple ic1 \<noteq> None then unmark_multiple ops ic1 ino else Some ic1);
                Some (0, ic2) }
      else if count = 0
      then do { ic1 \<leftarrow> unmark_single ops ic ino;
                ic2 \<leftarrow> (if ic_multiple ic1 \<noteq> None then unmark_multiple ops ic1 ino
                        else map_option snd (set_inode_count tdb mem fresh ic1 ino 0));
                Some (0, ic2) }
      else do { (e, ic1) \<leftarrow> set_inode_count tdb mem fresh ic ino (ucast count);
                if e \<noteq> 0 then Some (EXT2_ET_NO_MEMORY, ic1)
                else do { ic2 \<leftarrow> unmark_single ops ic1 ino; ic3 \<leftarrow> mark_multiple ops ic2 ino; Some (0, ic3) } })"

definition ext2fs_get_icount_size :: "('p, 'd) ext2_icount option \<Rightarrow> nat" where
  "ext2fs_get_icount_size ic = (case ic of None \<Rightarrow> 0 | Some c \<Rightarrow> if ic_magic c \<noteq> EXT2_ET_MAGIC_ICOUNT then 0 else ic_size c)"

section \<open>Creation\<close>

text \<open>The size of the array of cells is an \<^verbatim>\<open>unsigned\<close>. Without memory for it the bitmaps are used. The number of directories is that of
  \<^verbatim>\<open>ext2fs_get_num_dirs\<close>. The variant with a tdb file only differs by opening the file.\<close>

definition alloc_icount ::
  "bm_env \<Rightarrow> allocator \<Rightarrow> fs_view \<Rightarrow> errcode + nat \<Rightarrow> u32 \<Rightarrow> (errcode + (priv, 'd) ext2_icount) option" where
  "alloc_icount env mem fs num_dirs flags =
     (if \<not> mem 80 then Some (Inl EXT2_ET_NO_MEMORY)
      else
        let ic = \<lparr>ic_magic = EXT2_ET_MAGIC_ICOUNT, ic_single = None, ic_multiple = None, ic_count = 0, ic_size = 0,
                  ic_num_inodes = of_nat (fs_inodes_count fs), ic_cursor = 0, ic_list = None, ic_last_lookup = None, ic_tdb = None,
                  ic_fullmap = None\<rparr>;
            sz = (2 * fs_inodes_count fs) mod W32
        in if flags AND 2 \<noteq> 0 \<and> flags AND 1 \<noteq> 0 \<and> mem sz then Some (Inr (ic\<lparr>ic_fullmap := Some (replicate (sz div 2) 0)\<rparr>))
           else do {
             r \<leftarrow> ext2fs_allocate_inode_bitmap env mem fs num_dirs (Some ''icount'');
             (case r of
                Inl e \<Rightarrow> Some (Inl e)
              | Inr single \<Rightarrow>
                  if flags AND 1 \<noteq> 0
                  then do { r2 \<leftarrow> ext2fs_allocate_inode_bitmap env mem fs num_dirs (Some ''icount_inc'');
                            (case r2 of
                               Inl e \<Rightarrow> Some (Inl e)
                             | Inr multiple \<Rightarrow> Some (Inr (ic\<lparr>ic_single := Some single, ic_multiple := Some multiple\<rparr>))) }
                  else Some (Inr (ic\<lparr>ic_single := Some single\<rparr>))) })"

text \<open>The inodes of a former object.\<close>

fun copy_inos :: "ext2_icount_el list \<Rightarrow> ext2_icount_el list \<Rightarrow> nat \<Rightarrow> nat \<Rightarrow> ext2_icount_el list option" where
  "copy_inos src l i 0 = Some l"
| "copy_inos src l i (Suc n) =
     do { e \<leftarrow> rd src i; old \<leftarrow> rd l i; l' \<leftarrow> wr l i (old\<lparr>ic_ino := ic_ino e\<rparr>); copy_inos src l' (Suc i) n }"

definition ext2fs_create_icount2 ::
  "bm_env \<Rightarrow> allocator \<Rightarrow> fs_view \<Rightarrow> errcode + nat \<Rightarrow> u32 \<Rightarrow> nat \<Rightarrow> (priv, 'd) ext2_icount option \<Rightarrow>
   (errcode + (priv, 'd) ext2_icount) option" where
  "ext2fs_create_icount2 env mem fs num_dirs flags sz hint =
     (if (case hint of Some h \<Rightarrow> ic_magic h \<noteq> EXT2_ET_MAGIC_ICOUNT | None \<Rightarrow> False) then Some (Inl EXT2_ET_MAGIC_ICOUNT)
      else
        let sz1 = (case hint of Some h \<Rightarrow> max (ic_size h) sz | None \<Rightarrow> sz) in
        do { r \<leftarrow> alloc_icount env mem fs num_dirs flags;
             (case r of
                Inl e \<Rightarrow> Some (Inl e)
              | Inr ic \<Rightarrow>
                  if ic_fullmap ic \<noteq> None then Some (Inr ic)
                  else
                    (case (if sz1 \<noteq> 0 then Inr sz1 else map_sum id (\<lambda>n. (n + fs_inodes_count fs div 50) mod W32) num_dirs) of
                       Inl e \<Rightarrow> Some (Inl e)
                     | Inr n \<Rightarrow>
                         if \<not> ext2fs_get_array mem (int n) 8 then Some (Inl EXT2_ET_NO_MEMORY)
                         else
                           let l = replicate n \<lparr>ic_ino = 0, ic_cnt = 0\<rparr>; ic1 = ic\<lparr>ic_size := n, ic_count := 0, ic_cursor := 0, ic_list := Some l\<rparr> in
                           (case hint of
                              None \<Rightarrow> Some (Inr ic1)
                            | Some h \<Rightarrow>
                                do { l' \<leftarrow> (if ic_count h = 0 then Some l else do { src \<leftarrow> ic_list h; copy_inos src l 0 (ic_count h) });
                                     Some (Inr (ic1\<lparr>ic_list := Some l', ic_count := ic_count h\<rparr>)) }))) })"

definition ext2fs_create_icount ::
  "bm_env \<Rightarrow> allocator \<Rightarrow> fs_view \<Rightarrow> errcode + nat \<Rightarrow> u32 \<Rightarrow> nat \<Rightarrow> (errcode + (priv, 'd) ext2_icount) option" where
  "ext2fs_create_icount env mem fs num_dirs flags sz = ext2fs_create_icount2 env mem fs num_dirs flags sz None"

end
