(* ===== verification/Icount_Correct.thy ===== *)
theory Icount_Correct
  imports Icount
begin

unbundle bit_operations_syntax

text \<open>
  The link counts are an abstract map of counts: what the sorted array does, the invariant that ties array and bitmaps to the counts, and
  sequences of operations.
\<close>

section \<open>The entries of the array\<close>

text \<open>The entries as those of the reference counts, so that the lemmas on sorted keys apply.\<close>

definition el_of :: "ext2_icount_el \<Rightarrow> ea_refcount_el" where
  "el_of e = \<lparr>ea_key = unat (ic_ino e), ea_value = unat (ic_cnt e)\<rparr>"

lemma el_of_sel [simp]: "ea_key (el_of e) = unat (ic_ino e)" "ea_value (el_of e) = unat (ic_cnt e)"
  by (simp_all add: el_of_def)

definition entries :: "('p, 'd) ext2_icount \<Rightarrow> ext2_icount_el list" where
  "entries ic = take (ic_count ic) (the (ic_list ic))"

definition counts :: "ext2_icount_el list \<Rightarrow> u32 \<Rightarrow> u32" where
  "counts es ino = of_nat (cnt (map el_of es) (unat ino))"

definition inos_ok :: "nat \<Rightarrow> ext2_icount_el list \<Rightarrow> bool" where
  "inos_ok n es \<longleftrightarrow> keys_sorted (map el_of es) \<and> (\<forall>e \<in> set es. 1 \<le> unat (ic_ino e) \<and> unat (ic_ino e) \<le> n)"

definition list_ok :: "nat \<Rightarrow> ('p, 'd) ext2_icount \<Rightarrow> bool" where
  "list_ok n ic \<longleftrightarrow>
     ic_magic ic = EXT2_ET_MAGIC_ICOUNT \<and> ic_num_inodes ic = of_nat n \<and> n < 2 ^ 31 \<and> ic_tdb ic = None \<and> ic_fullmap ic = None \<and>
     (\<exists>l. ic_list ic = Some l \<and> length l = ic_size ic) \<and> ic_count ic \<le> ic_size ic \<and> inos_ok n (entries ic) \<and>
     (\<forall>i. ic_last_lookup ic = Some i \<longrightarrow> i < ic_count ic)"

lemma list_okD:
  assumes "list_ok n ic"
  obtains l where "ic_list ic = Some l" "length l = ic_size ic" "ic_count ic \<le> length l" "entries ic = take (ic_count ic) l" "length (entries ic) = ic_count ic"
    "unat (ic_num_inodes ic) = n" "n < 2 ^ 31"
proof -
  have n: "unat (ic_num_inodes ic) = n" "n < 2 ^ 31" using assms by (simp_all add: list_ok_def unat_of_nat)
  obtain l where l: "ic_list ic = Some l" "length l = ic_size ic" "ic_count ic \<le> ic_size ic" using assms by (auto simp: list_ok_def)
  then show thesis using n by (intro that [of l]) (simp_all add: entries_def)
qed

lemma inos_ok_distinct: "inos_ok n es \<Longrightarrow> distinct (map ic_ino es)"
proof -
  assume "inos_ok n es"
  then have "sorted_wrt (<) (map (\<lambda>e. unat (ic_ino e)) es)" by (simp add: inos_ok_def keys_sorted_def sorted_wrt_map)
  then have "distinct (map unat (map ic_ino es))" by (simp add: strict_sorted_iff comp_def)
  then show "distinct (map ic_ino es)" by (simp only: distinct_map)
qed

lemma inos_ok_length: "inos_ok n es \<Longrightarrow> length es \<le> n"
proof -
  assume ok: "inos_ok n es"
  have "unat ` set (map ic_ino es) \<subseteq> {1..n}" using ok by (auto simp: inos_ok_def)
  then have "card (unat ` set (map ic_ino es)) \<le> n" using card_mono [of "{1..n}"] by simp
  moreover have "card (unat ` set (map ic_ino es)) = card (set (map ic_ino es))" by (rule card_image) (simp add: inj_on_def word_unat_eq_iff)
  moreover have "card (set (map ic_ino es)) = length es" using distinct_card [OF inos_ok_distinct [OF ok]] by simp
  ultimately show ?thesis by simp
qed

lemma inos_ok_last: "inos_ok n es \<Longrightarrow> es \<noteq> [] \<Longrightarrow> inos_ok (unat (ic_ino (last es))) es"
  by (cases es rule: rev_exhaust) (auto simp: inos_ok_def intro: less_imp_le)

lemma counts_nth: "inos_ok n es \<Longrightarrow> i < length es \<Longrightarrow> counts es (ic_ino (es ! i)) = ic_cnt (es ! i)"
  using cnt_nth [of "map el_of es" i] by (simp add: counts_def inos_ok_def)

lemma counts_absent: "ino \<notin> ic_ino ` set es \<Longrightarrow> counts es ino = 0"
  using cnt_absent [of "unat ino" "map el_of es"] by (force simp: counts_def word_unat_eq_iff [of ino])

lemma counts_insert: "counts (take k es @ \<lparr>ic_ino = ino, ic_cnt = 0\<rparr> # drop k es) = counts es"
proof
  fix x :: u32
  have "map el_of es = map el_of (take k es) @ map el_of (drop k es)" by (simp flip: map_append)
  then have "cnt (map el_of es) (unat x) = cnt (map el_of (take k es)) (unat x) + cnt (map el_of (drop k es)) (unat x)" by (simp only: cnt_simps)
  then show "counts (take k es @ \<lparr>ic_ino = ino, ic_cnt = 0\<rparr> # drop k es) x = counts es x" by (simp add: counts_def)
qed

lemma counts_update:
  assumes "inos_ok n es" "i < length es"
  shows "counts (es[i := (es ! i)\<lparr>ic_cnt := v\<rparr>]) = (counts es)(ic_ino (es ! i) := v)" "inos_ok n (es[i := (es ! i)\<lparr>ic_cnt := v\<rparr>])"
proof -
  let ?ks = "map el_of es"
  have m: "map el_of (es[i := (es ! i)\<lparr>ic_cnt := v\<rparr>]) = ?ks[i := (?ks ! i)\<lparr>ea_value := unat v\<rparr>]"
    using assms(2) by (simp add: map_update el_of_def)
  have ks: "keys_sorted ?ks" "i < length ?ks" using assms by (simp_all add: inos_ok_def)
  show "counts (es[i := (es ! i)\<lparr>ic_cnt := v\<rparr>]) = (counts es)(ic_ino (es ! i) := v)"
    unfolding counts_def m cnt_update [OF ks] using assms(2) by (auto simp: fun_eq_iff word_unat_eq_iff)
  have "1 \<le> unat (ic_ino e) \<and> unat (ic_ino e) \<le> n" if "e \<in> set (es[i := (es ! i)\<lparr>ic_cnt := v\<rparr>])" for e
    using set_update_subset_insert [of es i] that assms nth_mem [OF assms(2)] by (fastforce simp: inos_ok_def)
  then show "inos_ok n (es[i := (es ! i)\<lparr>ic_cnt := v\<rparr>])" unfolding inos_ok_def m using keys_sorted_update [OF ks] by blast
qed

lemma icount_bisect_eq: "icount_bisect l ino low high = rc_bisect (map el_of l) (unat ino) low high"
proof (induction l ino low high rule: icount_bisect.induct)
  case (1 l ino low high)
  let ?m = "(low + high) div 2"
  have r: "rd (map el_of l) (nat ?m) = map_option el_of (rd l (nat ?m))" by (simp add: rd_def)
  show ?case
    using 1 by (subst icount_bisect.simps, subst rc_bisect.simps)
      (auto simp: Let_def r word_unat_eq_iff word_less_nat_alt split: option.splits bind_splits)
qed

section \<open>Growing and inserting\<close>

text \<open>The estimate of the size to grow to does not leave the range of 32 bits.\<close>

lemma growth_bound:
  fixes c l n :: nat
  assumes "1 \<le> c" "c \<le> l" "l \<le> n" "n < 2 ^ 31"
  shows "f32 (f32 (of_nat c) * f32 (f32 (of_nat n) / f32 (of_nat l))) < 2 ^ 32"
proof -
  let ?c = "of_nat c :: rat" and ?l = "of_nat l :: rat" and ?n = "of_nat n :: rat"
  have pos: "0 < ?c" "0 < ?l" "0 < ?n" using assms by simp_all
  have cl: "?c \<le> ?l" using assms by simp
  have fp: "0 < f32 q" if "0 < q" for q using f32_error(2) [OF that] that by simp
  have q: "f32 ?n / f32 ?l \<le> (9 / 8 * ?n) / (7 / 8 * ?l)" using f32_error [OF pos(3)] f32_error [OF pos(2)] pos fp by (intro frac_le) auto
  have "f32 (f32 ?n / f32 ?l) \<le> 9 / 8 * (f32 ?n / f32 ?l)" by (intro f32_error divide_pos_pos fp pos)
  also have "\<dots> \<le> 9 / 8 * ((9 / 8 * ?n) / (7 / 8 * ?l))" using q by simp
  finally have 1: "f32 (f32 ?n / f32 ?l) \<le> 81 / 56 * (?n / ?l)" by simp
  have "f32 ?c * f32 (f32 ?n / f32 ?l) \<le> (9 / 8 * ?c) * (81 / 56 * (?n / ?l))"
    using f32_error(1) [OF pos(1)] 1 pos by (intro mult_mono less_imp_le [OF fp] divide_pos_pos fp) simp_all
  also have "\<dots> = 729 / 448 * ?n * (?c / ?l)" by simp
  also have "\<dots> \<le> 729 / 448 * ?n * 1" using pos cl by (intro mult_left_mono) simp_all
  finally have "f32 ?c * f32 (f32 ?n / f32 ?l) \<le> 729 / 448 * ?n" by simp
  moreover have "f32 (f32 ?c * f32 (f32 ?n / f32 ?l)) \<le> 9 / 8 * (f32 ?c * f32 (f32 ?n / f32 ?l))"
    by (intro f32_error mult_pos_pos divide_pos_pos fp pos)
  moreover have "?n < 2 ^ 31" using assms(4) by (metis of_nat_less_iff of_nat_numeral of_nat_power)
  ultimately show ?thesis by simp
qed

lemma icount_new_size_spec:
  assumes ok: "list_ok n ic" and full: "ic_count ic \<ge> ic_size ic" and l: "ic_list ic = Some l"
  shows "\<exists>m. icount_new_size ic l = Some m \<and> ic_count ic < m"
proof -
  have l': "length l = ic_size ic" "ic_count ic = ic_size ic" "entries ic = take (ic_count ic) l" "length (entries ic) = ic_count ic"
      "unat (ic_num_inodes ic) = n" "n < 2 ^ 31"
    using list_okD [OF ok] l full by (metis le_antisym option.inject)+
  have io: "inos_ok n (entries ic)" using ok by (simp add: list_ok_def)
  have cn: "ic_count ic \<le> n" using inos_ok_length [OF io] l'(4) by simp
  then have sz: "(ic_size ic + 100) mod W32 = ic_size ic + 100" using l'(2,6) by simp
  show ?thesis
  proof (cases "ic_count ic = 0")
    case True
    then show ?thesis using l'(2) by (auto simp: icount_new_size_def)
  next
    case False
    let ?e = "entries ic ! (ic_count ic - 1)"
    have e: "rd l (ic_count ic - 1) = Some ?e" using False l' by (simp add: rd_def)
    have em: "?e \<in> set (entries ic)" using False l'(4) by (simp add: nth_mem)
    then have b: "1 \<le> unat (ic_ino ?e)" "unat (ic_ino ?e) \<le> n" using io by (auto simp: inos_ok_def)
    have "ic_count ic \<le> unat (ic_ino ?e)"
    proof -
      have ne: "entries ic \<noteq> []" using False l'(4) by auto
      from inos_ok_length [OF inos_ok_last [OF io ne]] show ?thesis using ne l'(4) by (simp add: last_conv_nth)
    qed
    then have "f32 (f32 (of_nat (ic_count ic)) * f32 (f32 (of_nat n) / f32 (of_nat (unat (ic_ino ?e))))) < 2 ^ 32"
      using False b l'(6) by (intro growth_bound) simp_all
    moreover have "ic_ino ?e \<noteq> 0" using b(1) by auto
    ultimately show ?thesis using False e sz l'(2,5) by (auto simp: icount_new_size_def Let_def not_le)
  qed
qed

text \<open>Making room and writing an element.\<close>

text \<open>What an operation on the array keeps of the object.\<close>

definition same_rest :: "('p, 'd) ext2_icount \<Rightarrow> ('p, 'd) ext2_icount \<Rightarrow> bool" where
  "same_rest ic ic' \<longleftrightarrow> ic_single ic' = ic_single ic \<and> ic_multiple ic' = ic_multiple ic"

lemma between_absent:
  fixes ino :: u32
  assumes "\<forall>e \<in> set (take k es). ic_ino e < ino" "\<forall>e \<in> set (drop k es). ino < ic_ino e"
  shows "ino \<notin> ic_ino ` set es"
proof -
  have "set es = set (take k es) \<union> set (drop k es)" by (metis append_take_drop_id set_append)
  then show ?thesis using assms by auto
qed

lemma insert_icount_el_spec:
  assumes ok: "list_ok n ic" and pos: "pos \<le> ic_count ic" and ino: "1 \<le> unat ino" "unat ino \<le> n"
    and lo: "\<forall>e \<in> set (take pos (entries ic)). ic_ino e < ino" and hi: "\<forall>e \<in> set (drop pos (entries ic)). ino < ic_ino e"
  shows "\<exists>r ic'. insert_icount_el mem fresh ic ino pos = Some (r, ic') \<and> list_ok n ic' \<and> same_rest ic ic' \<and>
    (case r of
       None \<Rightarrow> ic' = ic \<and> (\<exists>m. \<not> mem m)
     | Some i \<Rightarrow> i = pos \<and> entries ic' = take pos (entries ic) @ \<lparr>ic_ino = ino, ic_cnt = 0\<rparr> # drop pos (entries ic) \<and> ic_count ic' = ic_count ic + 1)"
proof -
  let ?el = "\<lparr>ic_ino = ino, ic_cnt = 0\<rparr>" and ?c = "ic_count ic"
  from ok obtain l where l: "ic_list ic = Some l" "length l = ic_size ic" "?c \<le> length l" "entries ic = take ?c l" "length (entries ic) = ?c"
    by (rule list_okD) (rule that)
  have io: "inos_ok n (entries ic)" using ok by (simp add: list_ok_def)
  have absent: "ic_ino e \<noteq> ino" if "e \<in> set (entries ic)" for e using that between_absent [OF lo hi] by auto
  have "(case ic_last_lookup ic of None \<Rightarrow> Some False | Some i \<Rightarrow> do { e \<leftarrow> rd l i; Some (ic_ino e = ino) }) = Some False"
  proof (cases "ic_last_lookup ic")
    case (Some i)
    then have i: "i < ?c" using ok by (simp add: list_ok_def)
    then have "rd l i = Some (entries ic ! i)" using l by (simp add: rd_def)
    then show ?thesis using Some absent [of "entries ic ! i"] i l(5) by simp
  qed simp
  moreover obtain m where m: "(if ?c \<ge> ic_size ic then icount_new_size ic l else Some (ic_size ic)) = Some m" "?c < m" "\<not> ?c \<ge> ic_size ic \<longrightarrow> m = ic_size ic"
    using icount_new_size_spec [OF ok _ l(1)] by (cases "?c \<ge> ic_size ic") auto
  ultimately have run: "insert_icount_el mem fresh ic ino pos =
      (if ?c \<ge> ic_size ic \<and> \<not> mem (m * 8) then Some (None, ic)
       else let l1 = (if ?c \<ge> ic_size ic then resize_array fresh m l else l); ic1 = ic\<lparr>ic_size := m, ic_list := Some l1\<rparr> in
         do { l2 \<leftarrow> (if ?c \<noteq> pos then memmove_up l1 pos (?c - pos) else Some l1); l3 \<leftarrow> wr l2 pos ?el;
              Some (Some pos, ic1\<lparr>ic_count := ?c + 1, ic_list := Some l3, ic_last_lookup := Some pos\<rparr>) })"
    using l(1) pos by (simp add: insert_icount_el_def)
  show ?thesis
  proof (cases "?c \<ge> ic_size ic \<and> \<not> mem (m * 8)")
    case True
    then show ?thesis using run ok by (auto simp: same_rest_def)
  next
    case False
    define l1 where "l1 = (if ?c \<ge> ic_size ic then resize_array fresh m l else l)"
    have l1: "length l1 = m" "take ?c l1 = entries ic" using l m(2,3) by (auto simp: l1_def)
    obtain l3 where l3: "do { l2 \<leftarrow> (if ?c \<noteq> pos then memmove_up l1 pos (?c - pos) else Some l1); wr l2 pos ?el } = Some l3"
        "length l3 = m" "take (?c + 1) l3 = take pos (entries ic) @ ?el # drop pos (entries ic)"
      using memmove_insert [of pos ?c l1 ?el] pos l1 m(2) by auto
    let ?ic = "ic\<lparr>ic_size := m, ic_count := ?c + 1, ic_list := Some l3, ic_last_lookup := Some pos\<rparr>"
    have e: "entries ?ic = take pos (entries ic) @ ?el # drop pos (entries ic)" using l3(3) by (simp add: entries_def)
    have "inos_ok n (entries ?ic)"
      unfolding e using io lo hi ino keys_sorted_take_drop [of "map el_of (entries ic)" pos]
      by (auto simp: inos_ok_def take_map drop_map word_less_nat_alt intro: less_trans dest: in_set_takeD in_set_dropD)
    then have "list_ok n ?ic" using ok l3(2) m(2) pos by (simp add: list_ok_def)
    moreover have "insert_icount_el mem fresh ic ino pos = Some (Some pos, ?ic)"
      using run False l3(1) unfolding l1_def [symmetric] by (auto simp: Let_def bind_eq_Some_conv)
    ultimately show ?thesis using e by (auto simp: same_rest_def)
  qed
qed

section \<open>Looking up\<close>

text \<open>The answer of a lookup: every count is kept; the entry has the inode, or there is none and no memory for one.\<close>

definition found :: "allocator \<Rightarrow> nat \<Rightarrow> ('p, 'd) ext2_icount \<Rightarrow> u32 \<Rightarrow> bool \<Rightarrow> nat option \<Rightarrow> ('p, 'd) ext2_icount \<Rightarrow> bool" where
  "found mem n ic ino create r ic' \<longleftrightarrow>
     list_ok n ic' \<and> same_rest ic ic' \<and> counts (entries ic') = counts (entries ic) \<and>
     (case r of
        Some i \<Rightarrow> i < ic_count ic' \<and> ic_ino (entries ic' ! i) = ino
      | None \<Rightarrow> ino \<notin> ic_ino ` set (entries ic) \<and> (create \<longrightarrow> (\<exists>m. \<not> mem m)))"

lemma list_ok_cursor [simp]: "list_ok n (ic\<lparr>ic_cursor := c\<rparr>) = list_ok n ic" "entries (ic\<lparr>ic_cursor := c\<rparr>) = entries ic"
  "same_rest (ic\<lparr>ic_cursor := c\<rparr>) ic' = same_rest ic ic'" "same_rest ic (ic'\<lparr>ic_cursor := c\<rparr>) = same_rest ic ic'"
  by (simp_all add: list_ok_def entries_def same_rest_def)

lemma found_cursor: "found mem n (ic\<lparr>ic_cursor := c\<rparr>) = found mem n ic"
  by (intro ext) (simp add: found_def split: option.splits)

lemma found_inserted:
  assumes "list_ok n ic" "pos \<le> ic_count ic" "1 \<le> unat ino" "unat ino \<le> n"
    "\<forall>e \<in> set (take pos (entries ic)). ic_ino e < ino" "\<forall>e \<in> set (drop pos (entries ic)). ino < ic_ino e"
  shows "\<exists>r ic'. insert_icount_el mem fresh ic ino pos = Some (r, ic') \<and> found mem n ic ino True r ic'"
proof -
  obtain r ic' where r: "insert_icount_el mem fresh ic ino pos = Some (r, ic')" "list_ok n ic'" "same_rest ic ic'"
      "case r of
         None \<Rightarrow> ic' = ic \<and> (\<exists>m. \<not> mem m)
       | Some i \<Rightarrow> i = pos \<and> entries ic' = take pos (entries ic) @ \<lparr>ic_ino = ino, ic_cnt = 0\<rparr> # drop pos (entries ic) \<and> ic_count ic' = ic_count ic + 1"
    using insert_icount_el_spec [OF assms, of mem fresh] by blast
  have "ino \<notin> ic_ino ` set (entries ic)" by (rule between_absent [OF assms(5,6)])
  moreover have "length (take pos (entries ic)) = pos" using assms(1,2) by (auto elim!: list_okD)
  ultimately have "found mem n ic ino True r ic'"
    using r(2-4) assms(2) by (cases r) (auto simp: found_def counts_insert nth_append)
  then show ?thesis using r(1) by blast
qed

text \<open>The bisection finds the inode or the place where it belongs.\<close>

lemma bisect_place:
  assumes "list_ok n ic" "ic_list ic = Some l"
  shows "\<exists>r. icount_bisect l ino 0 (int (ic_count ic) - 1) = Some r \<and>
    (case r of
       Inl m \<Rightarrow> m < ic_count ic \<and> ic_ino (entries ic ! m) = ino
     | Inr p \<Rightarrow> nat p \<le> ic_count ic \<and> (\<forall>e \<in> set (take (nat p) (entries ic)). ic_ino e < ino) \<and> (\<forall>e \<in> set (drop (nat p) (entries ic)). ino < ic_ino e) \<and>
         ino \<notin> ic_ino ` set (entries ic))"
proof -
  let ?c = "ic_count ic"
  have l: "?c \<le> length l" "entries ic = take ?c l" "length (entries ic) = ?c" using list_okD [OF assms(1)] assms(2) by (metis option.inject)+
  have ks: "keys_sorted (take ?c (map el_of l))" using assms(1) l(2) by (simp add: list_ok_def inos_ok_def take_map)
  obtain r where r: "rc_bisect (map el_of l) (unat ino) 0 (int ?c - 1) = Some r" "placed (map el_of (entries ic)) (unat ino) r"
    using rc_bisect_spec [OF ks, of 0 "int ?c - 1" "unat ino"] l by (auto simp: take_map)
  show ?thesis
  proof (cases r)
    case (Inl m)
    then show ?thesis using r l(3) by (auto simp: icount_bisect_eq placed_def word_unat_eq_iff)
  next
    case (Inr p)
    note pi = placed_insert [OF r(2) [unfolded Inr]]
    have "\<forall>e \<in> set (take (nat p) (entries ic)). ic_ino e < ino" "\<forall>e \<in> set (drop (nat p) (entries ic)). ino < ic_ino e"
      using pi(2,3) by (simp_all add: take_map drop_map word_less_nat_alt)
    moreover have "ino \<notin> ic_ino ` set (entries ic)" using pi(4) by (auto simp: image_iff)
    ultimately show ?thesis using r(1) Inr pi(1) l(3) by (auto simp: icount_bisect_eq)
  qed
qed

text \<open>The search from the cursor and by bisection.\<close>

lemma search_spec:
  assumes ok: "list_ok n ic" "ic_list ic = Some l" and ino: "1 \<le> unat ino" "unat ino \<le> n" and cur: "cur < ic_count ic"
  shows "\<exists>r ic'. (if ino = ic_ino (entries ic ! cur) then Some (Some cur, ic\<lparr>ic_cursor := cur + 1\<rparr>)
      else do {
        s \<leftarrow> icount_bisect l ino 0 (int (ic_count ic) - 1);
        (case s of
           Inl mid \<Rightarrow> Some (Some mid, ic\<lparr>ic_cursor := Suc mid\<rparr>)
         | Inr low \<Rightarrow> if create then insert_icount_el mem fresh (ic\<lparr>ic_cursor := cur\<rparr>) ino (nat low) else Some (None, ic\<lparr>ic_cursor := cur\<rparr>)) }) = Some (r, ic') \<and>
    found mem n ic ino create r ic'"
proof (cases "ino = ic_ino (entries ic ! cur)")
  case True
  then have "found mem n ic ino create (Some cur) (ic\<lparr>ic_cursor := cur + 1\<rparr>)" using cur ok by (simp add: found_def same_rest_def)
  then show ?thesis using True by auto
next
  case miss: False
  obtain r where r: "icount_bisect l ino 0 (int (ic_count ic) - 1) = Some r"
      "case r of
         Inl m \<Rightarrow> m < ic_count ic \<and> ic_ino (entries ic ! m) = ino
       | Inr p \<Rightarrow> nat p \<le> ic_count ic \<and> (\<forall>e \<in> set (take (nat p) (entries ic)). ic_ino e < ino) \<and> (\<forall>e \<in> set (drop (nat p) (entries ic)). ino < ic_ino e) \<and>
           ino \<notin> ic_ino ` set (entries ic)"
    using bisect_place [OF ok] by blast
  show ?thesis
  proof (cases r)
    case (Inl m)
    then have "found mem n ic ino create (Some m) (ic\<lparr>ic_cursor := Suc m\<rparr>)" using r(2) ok by (simp add: found_def same_rest_def)
    then show ?thesis using miss r(1) Inl by auto
  next
    case (Inr p)
    show ?thesis
    proof (cases create)
      case True
      have "\<exists>r ic'. insert_icount_el mem fresh (ic\<lparr>ic_cursor := cur\<rparr>) ino (nat p) = Some (r, ic') \<and> found mem n (ic\<lparr>ic_cursor := cur\<rparr>) ino True r ic'"
        by (rule found_inserted) (use ok ino r(2) Inr in simp_all)
      then show ?thesis using miss r(1) Inr True by (auto simp: found_cursor)
    next
      case False
      then have "found mem n ic ino create None (ic\<lparr>ic_cursor := cur\<rparr>)" using r(2) Inr ok by (simp add: found_def same_rest_def)
      then show ?thesis using miss r(1) Inr False by auto
    qed
  qed
qed

lemma get_icount_el_spec:
  assumes ok: "list_ok n ic" and ino: "1 \<le> unat ino" "unat ino \<le> n"
  shows "\<exists>r ic'. get_icount_el mem fresh ic ino create = Some (r, ic') \<and> found mem n ic ino create r ic'"
proof -
  let ?c = "ic_count ic"
  from ok obtain l where l: "ic_list ic = Some l" "?c \<le> length l" "entries ic = take ?c l" "length (entries ic) = ?c" by (rule list_okD) (rule that)
  have rdl: "rd l i = Some (entries ic ! i)" if "i < ?c" for i using that l by (simp add: rd_def)
  have io: "inos_ok n (entries ic)" using ok by (simp add: list_ok_def)
  define app where "app \<longleftrightarrow> create \<and> (?c = 0 \<or> ino > ic_ino (entries ic ! (?c - 1)))"
  have a: "(if create then if ?c = 0 then Some True else do { e \<leftarrow> rd l (?c - 1); Some (ino > ic_ino e) } else Some False) = Some app"
    using rdl [of "?c - 1"] by (auto simp: app_def)
  show ?thesis
  proof (cases app)
    case True
    have "\<forall>e \<in> set (take ?c (entries ic)). ic_ino e < ino"
    proof (cases "?c = 0")
      case False
      then have ne: "entries ic \<noteq> []" using l(4) by auto
      then have "ic_ino (last (entries ic)) < ino" using True False l(4) by (simp add: app_def last_conv_nth)
      then have "\<forall>e \<in> set (entries ic). unat (ic_ino e) < unat ino"
        using inos_ok_last [OF io ne] by (auto simp: inos_ok_def word_less_nat_alt intro: le_less_trans)
      then show ?thesis by (auto simp: word_less_nat_alt dest: in_set_takeD)
    qed (simp add: l(3))
    moreover have "drop ?c (entries ic) = []" using l(4) by simp
    ultimately show ?thesis using found_inserted [OF ok order_refl ino, of mem fresh] True a l(1) by (simp add: get_icount_el_def app_def)
  next
    case False
    show ?thesis
    proof (cases "?c = 0")
      case True
      then have "entries ic = []" using l(3) by simp
      then have "found mem n ic ino create None ic" using True False ok by (simp add: found_def app_def same_rest_def)
      then show ?thesis using True False a l(1) by (simp add: get_icount_el_def)
    next
      case c: False
      define cur where "cur = (if ic_cursor ic \<ge> ?c then 0 else ic_cursor ic)"
      let ?ic = "ic\<lparr>ic_cursor := cur\<rparr>"
      have i1: "(if ic_cursor ic \<ge> ?c then ic\<lparr>ic_cursor := 0\<rparr> else ic) = ?ic" by (simp add: cur_def)
      have cur: "cur < ?c" using c by (simp add: cur_def)
      have run: "get_icount_el mem fresh ic ino create =
          (if ino = ic_ino (entries ic ! cur) then Some (Some cur, ic\<lparr>ic_cursor := cur + 1\<rparr>)
           else do {
             s \<leftarrow> icount_bisect l ino 0 (int ?c - 1);
             (case s of
                Inl mid \<Rightarrow> Some (Some mid, ic\<lparr>ic_cursor := Suc mid\<rparr>)
              | Inr low \<Rightarrow> if create then insert_icount_el mem fresh ?ic ino (nat low) else Some (None, ?ic)) })"
        using False c l(1) a rdl [OF cur] unfolding get_icount_el_def by (simp add: i1 [unfolded Let_def] Let_def)
      show ?thesis unfolding run by (rule search_spec [OF ok l(1) ino cur])
    qed
  qed
qed

section \<open>Bitmaps and array together\<close>

text \<open>The object stands for the set of inodes with a count of one, the set of those in the array, if that is recorded, and the counts of the
  array.\<close>

definition represents :: "nat \<Rightarrow> (priv, 'd) ext2_icount \<Rightarrow> nat set \<Rightarrow> nat set option \<Rightarrow> (u32 \<Rightarrow> u32) \<Rightarrow> bool" where
  "represents n ic S M L \<longleftrightarrow>
     list_ok n ic \<and> L = counts (entries ic) \<and> (\<exists>b. ic_single ic = Some (B64 b) \<and> inode_bits_ok n b \<and> bm_set b = S) \<and>
     (case M of
        None \<Rightarrow> ic_multiple ic = None
      | Some X \<Rightarrow> \<exists>b. ic_multiple ic = Some (B64 b) \<and> inode_bits_ok n b \<and> bm_set b = X)"

lemma represents_multiple: "represents n ic S M L \<Longrightarrow> ic_multiple ic = None \<longleftrightarrow> M = None"
  by (auto simp: represents_def split: option.splits)

lemma bitmaps_update [simp]:
  "list_ok n (ic\<lparr>ic_single := x\<rparr>) = list_ok n ic" "entries (ic\<lparr>ic_single := x\<rparr>) = entries ic"
  "list_ok n (ic\<lparr>ic_multiple := x\<rparr>) = list_ok n ic" "entries (ic\<lparr>ic_multiple := x\<rparr>) = entries ic"
  by (simp_all add: list_ok_def entries_def)

lemma single_ops:
  assumes rep: "represents n ic S M L" and ino: "1 \<le> unat ino" "unat ino \<le> n"
  shows "\<exists>ic'. test_single (bmap_ops env) ic ino = Some (unat ino \<in> S, ic') \<and> represents n ic' S M L"
    "\<exists>ic'. mark_single (bmap_ops env) ic ino = Some ic' \<and> represents n ic' (insert (unat ino) S) M L"
    "\<exists>ic'. unmark_single (bmap_ops env) ic ino = Some ic' \<and> represents n ic' (S - {unat ino}) M L"
proof -
  obtain b where b: "ic_single ic = Some (B64 b)" "inode_bits_ok n b" "bm_set b = S" using rep by (auto simp: represents_def)
  have set: "represents n (ic\<lparr>ic_single := Some (B64 b')\<rparr>) T M L" if "inode_bits_ok n b'" "bm_set b' = T" for b' T
    using rep that by (cases M) (simp_all add: represents_def)
  note op = inode_bits_ops(1-3) [OF b(2), of env "unat ino"]
  show "\<exists>ic'. test_single (bmap_ops env) ic ino = Some (unat ino \<in> S, ic') \<and> represents n ic' S M L"
    using op(3) set ino b(1,3) by (auto simp: test_single_def)
  show "\<exists>ic'. mark_single (bmap_ops env) ic ino = Some ic' \<and> represents n ic' (insert (unat ino) S) M L"
    using op(2) set ino b(1,3) by (auto simp: mark_single_def)
  show "\<exists>ic'. unmark_single (bmap_ops env) ic ino = Some ic' \<and> represents n ic' (S - {unat ino}) M L"
    using op(1) set ino b(1,3) by (auto simp: unmark_single_def)
qed

lemma multiple_ops:
  assumes rep: "represents n ic S (Some X) L" and ino: "1 \<le> unat ino" "unat ino \<le> n"
  shows "\<exists>ic'. test_multiple (bmap_ops env) ic ino = Some (unat ino \<in> X, ic') \<and> represents n ic' S (Some X) L"
    "\<exists>ic'. mark_multiple (bmap_ops env) ic ino = Some ic' \<and> represents n ic' S (Some (insert (unat ino) X)) L"
    "\<exists>ic'. unmark_multiple (bmap_ops env) ic ino = Some ic' \<and> represents n ic' S (Some (X - {unat ino})) L"
proof -
  obtain b where b: "ic_multiple ic = Some (B64 b)" "inode_bits_ok n b" "bm_set b = X" using rep by (auto simp: represents_def)
  have set: "represents n (ic\<lparr>ic_multiple := Some (B64 b')\<rparr>) S (Some T) L" if "inode_bits_ok n b'" "bm_set b' = T" for b' T
    using rep that by (simp add: represents_def)
  note op = inode_bits_ops(1-3) [OF b(2), of env "unat ino"]
  show "\<exists>ic'. test_multiple (bmap_ops env) ic ino = Some (unat ino \<in> X, ic') \<and> represents n ic' S (Some X) L"
    using op(3) set ino b(1,3) by (auto simp: test_multiple_def)
  show "\<exists>ic'. mark_multiple (bmap_ops env) ic ino = Some ic' \<and> represents n ic' S (Some (insert (unat ino) X)) L"
    using op(2) set ino b(1,3) by (auto simp: mark_multiple_def)
  show "\<exists>ic'. unmark_multiple (bmap_ops env) ic ino = Some ic' \<and> represents n ic' S (Some (X - {unat ino})) L"
    using op(1) set ino b(1,3) by (auto simp: unmark_multiple_def)
qed

lemma mark_multiple_ops:
  assumes "represents n ic S M L" "1 \<le> unat ino" "unat ino \<le> n"
  shows "\<exists>ic'. mark_multiple (bmap_ops env) ic ino = Some ic' \<and> represents n ic' S (map_option (insert (unat ino)) M) L"
  using assms multiple_ops(2) [of n ic S _ L ino env] by (cases M) (auto simp: mark_multiple_def represents_multiple)

lemma unmark_multiple_ops:
  assumes "represents n ic S M L" "1 \<le> unat ino" "unat ino \<le> n"
  shows "\<exists>ic'. (if ic_multiple ic \<noteq> None then unmark_multiple (bmap_ops env) ic ino else Some ic) = Some ic' \<and>
    represents n ic' S (map_option (\<lambda>X. X - {unat ino}) M) L"
  using assms multiple_ops(3) [of n ic S _ L ino env] by (cases M) (auto simp: represents_multiple)

lemma represents_found:
  assumes "represents n ic S M L" "found mem n ic ino create r ic'"
  shows "represents n ic' S M L"
  using assms by (cases M) (simp_all add: represents_def found_def same_rest_def)

lemma count_ops:
  assumes rep: "represents n ic S M L" and ino: "1 \<le> unat ino" "unat ino \<le> n"
  shows "\<exists>e ic'. get_inode_count tdb mem fresh ic ino = Some (e, L ino, ic') \<and> represents n ic' S M L"
    "\<exists>e ic'. set_inode_count tdb mem fresh ic ino v = Some (e, ic') \<and>
      (e = 0 \<and> represents n ic' S M (L(ino := v)) \<or> e = EXT2_ET_NO_MEMORY \<and> represents n ic' S M L \<and> L ino = 0 \<and> (\<exists>m. \<not> mem m))"
proof -
  have ok: "list_ok n ic" "L = counts (entries ic)" using rep by (simp_all add: represents_def)
  have none: "ic_tdb ic = None" "ic_fullmap ic = None" using ok by (simp_all add: list_ok_def)
  have at: "L ino = ic_cnt (entries ic' ! i)" "rd (the (ic_list ic')) i = Some (entries ic' ! i)" "ic_list ic' = Some (the (ic_list ic'))"
    if "found mem n ic ino create (Some i) ic'" for create i ic'
  proof -
    have f: "list_ok n ic'" "counts (entries ic') = L" "i < ic_count ic'" "ic_ino (entries ic' ! i) = ino" using that ok(2) by (simp_all add: found_def)
    from f(1) obtain l where l: "ic_list ic' = Some l" "ic_count ic' \<le> length l" "entries ic' = take (ic_count ic') l" "length (entries ic') = ic_count ic'"
      by (rule list_okD) (rule that)
    have "inos_ok n (entries ic')" using f(1) by (simp add: list_ok_def)
    from counts_nth [OF this, of i] show "L ino = ic_cnt (entries ic' ! i)" using f l(4) by simp
    show "rd (the (ic_list ic')) i = Some (entries ic' ! i)" "ic_list ic' = Some (the (ic_list ic'))" using l f(3) by (simp_all add: rd_def)
  qed
  obtain r1 ic1 where g: "get_icount_el mem fresh ic ino False = Some (r1, ic1)" "found mem n ic ino False r1 ic1"
    using get_icount_el_spec [OF ok(1) ino] by blast
  show "\<exists>e ic'. get_inode_count tdb mem fresh ic ino = Some (e, L ino, ic') \<and> represents n ic' S M L"
  proof (cases r1)
    case None
    then have "L ino = 0" using g(2) ok(2) counts_absent by (auto simp: found_def)
    then show ?thesis using None g represents_found [OF rep g(2)] none by (simp add: get_inode_count_def)
  next
    case (Some i)
    then show ?thesis using at [of False i ic1] g represents_found [OF rep g(2)] none by (auto simp: get_inode_count_def bind_eq_Some_conv)
  qed
  obtain r2 ic2 where s: "get_icount_el mem fresh ic ino True = Some (r2, ic2)" "found mem n ic ino True r2 ic2"
    using get_icount_el_spec [OF ok(1) ino] by blast
  show "\<exists>e ic'. set_inode_count tdb mem fresh ic ino v = Some (e, ic') \<and>
      (e = 0 \<and> represents n ic' S M (L(ino := v)) \<or> e = EXT2_ET_NO_MEMORY \<and> represents n ic' S M L \<and> L ino = 0 \<and> (\<exists>m. \<not> mem m))"
  proof (cases r2)
    case None
    then have "L ino = 0" "\<exists>m. \<not> mem m" using s(2) ok(2) counts_absent by (auto simp: found_def)
    then show ?thesis using None s represents_found [OF rep s(2)] none by (simp add: set_inode_count_def)
  next
    case (Some i)
    let ?e = "entries ic2 ! i" and ?l = "the (ic_list ic2)"
    let ?ic = "ic2\<lparr>ic_list := Some (?l[i := ?e\<lparr>ic_cnt := v\<rparr>])\<rparr>"
    have f: "list_ok n ic2" "i < ic_count ic2" "ic_ino ?e = ino" "counts (entries ic2) = L" using s(2) Some ok(2) by (simp_all add: found_def)
    from f(1) obtain l where l: "ic_list ic2 = Some l" "length l = ic_size ic2" "ic_count ic2 \<le> length l" "entries ic2 = take (ic_count ic2) l"
        "length (entries ic2) = ic_count ic2"
      by (rule list_okD) (rule that)
    have io: "inos_ok n (entries ic2)" using f(1) by (simp add: list_ok_def)
    have e: "entries ?ic = (entries ic2)[i := ?e\<lparr>ic_cnt := v\<rparr>]" using l f(2) by (simp add: entries_def take_update_swap)
    have "list_ok n ?ic" using f(1) l counts_update(2) [OF io, of i v] e f(2) by (simp add: list_ok_def)
    moreover have "counts (entries ?ic) = L(ino := v)" unfolding e using counts_update(1) [OF io, of i v] f l(5) by simp
    ultimately have "represents n ?ic S M (L(ino := v))"
      using represents_found [OF rep s(2)] by (cases M) (simp_all add: represents_def)
    moreover have "set_inode_count tdb mem fresh ic ino v = Some (0, ?ic)"
      using Some s none at(2,3) [of True i ic2] l f(2) by (simp add: set_inode_count_def wr_def)
    ultimately show ?thesis by blast
  qed
qed

lemma set_count_cases:
  assumes "represents n ic S M L" "1 \<le> unat ino" "unat ino \<le> n"
  obtains (stored) ic' where "set_inode_count tdb mem fresh ic ino v = Some (0, ic')" "represents n ic' S M (L(ino := v))"
  | (memory) k ic' where "set_inode_count tdb mem fresh ic ino v = Some (EXT2_ET_NO_MEMORY, ic')" "represents n ic' S M L" "L ino = 0" "\<not> mem k"
proof -
  obtain e ic' where s: "set_inode_count tdb mem fresh ic ino v = Some (e, ic')"
      "e = 0 \<and> represents n ic' S M (L(ino := v)) \<or> e = EXT2_ET_NO_MEMORY \<and> represents n ic' S M L \<and> L ino = 0 \<and> (\<exists>m. \<not> mem m)"
    using count_ops(2) [OF assms, where v = v and tdb = tdb and mem = mem and fresh = fresh] by (elim exE conjE) (rule that)
  from s(2) show thesis
  proof (elim disjE exE conjE)
    assume "e = 0" "represents n ic' S M (L(ino := v))"
    then show thesis using stored [of ic'] s(1) by simp
  next
    fix k assume "e = EXT2_ET_NO_MEMORY" "represents n ic' S M L" "L ino = 0" "\<not> mem k"
    then show thesis using memory [of ic' k] s(1) by simp
  qed
qed

section \<open>The operations refine a map of counts\<close>

text \<open>The count of an inode.\<close>

definition links :: "nat set \<Rightarrow> nat set option \<Rightarrow> (u32 \<Rightarrow> u32) \<Rightarrow> u32 \<Rightarrow> u32" where
  "links S M L ino = (if unat ino \<in> S then 1 else if M \<noteq> None \<and> unat ino \<notin> the M then 0 else L ino)"

datatype icount_cmd = Fetch_Links u32 | Increment_Links u32 | Decrement_Links u32 | Store_Links u32 "16 word"

fun cmd_ino :: "icount_cmd \<Rightarrow> u32" where
  "cmd_ino (Fetch_Links ino) = ino"
| "cmd_ino (Increment_Links ino) = ino"
| "cmd_ino (Decrement_Links ino) = ino"
| "cmd_ino (Store_Links ino c) = ino"

type_synonym icount_answer = "errcode \<times> 16 word option"

definition icount_exec ::
  "bm_env \<Rightarrow> 'd tdb_ops \<Rightarrow> (nat \<Rightarrow> ext2_icount_el) \<Rightarrow> allocator \<Rightarrow> icount_cmd \<Rightarrow> (priv, 'd) ext2_icount \<Rightarrow> (icount_answer \<times> (priv, 'd) ext2_icount) option" where
  "icount_exec env tdb fresh mem c ic =
     (case c of
        Fetch_Links ino \<Rightarrow> map_option (\<lambda>(e, v, ic'). ((e, v), ic')) (ext2fs_icount_fetch (bmap_ops env) tdb mem fresh ic ino)
      | Increment_Links ino \<Rightarrow> map_option (\<lambda>(e, v, ic'). ((e, v), ic')) (ext2fs_icount_increment (bmap_ops env) tdb mem fresh ic ino)
      | Decrement_Links ino \<Rightarrow> map_option (\<lambda>(e, v, ic'). ((e, v), ic')) (ext2fs_icount_decrement (bmap_ops env) tdb mem fresh ic ino)
      | Store_Links ino count \<Rightarrow> map_option (\<lambda>(e, ic'). ((e, None), ic')) (ext2fs_icount_store (bmap_ops env) tdb mem fresh ic ino count))"

text \<open>An abstract store of counts of 32 bits, shown cut at 65500. Only an operation that may need a new entry can run out of memory, and then
  nothing changes.\<close>

inductive links_step :: "nat \<Rightarrow> allocator \<Rightarrow> icount_cmd \<Rightarrow> (u32 \<Rightarrow> u32) \<Rightarrow> icount_answer \<Rightarrow> (u32 \<Rightarrow> u32) \<Rightarrow> bool" for n mem where
  bad: "unat (cmd_ino c) \<notin> {1..n} \<Longrightarrow> links_step n mem c m (EXT2_ET_INVALID_ARGUMENT, None) m"
| fetch: "unat ino \<in> {1..n} \<Longrightarrow> links_step n mem (Fetch_Links ino) m (0, Some (icount_16_xlate (m ino))) m"
| increment: "unat ino \<in> {1..n} \<Longrightarrow> v = m ino + 1 \<Longrightarrow> links_step n mem (Increment_Links ino) m (0, Some (icount_16_xlate v)) (m(ino := v))"
| decrement: "unat ino \<in> {1..n} \<Longrightarrow> m ino \<noteq> 0 \<Longrightarrow> v = m ino - 1 \<Longrightarrow>
    links_step n mem (Decrement_Links ino) m (0, Some (icount_16_xlate v)) (m(ino := v))"
| decrement_none: "unat ino \<in> {1..n} \<Longrightarrow> m ino = 0 \<Longrightarrow> links_step n mem (Decrement_Links ino) m (EXT2_ET_INVALID_ARGUMENT, None) m"
| store: "unat ino \<in> {1..n} \<Longrightarrow> links_step n mem (Store_Links ino count) m (0, None) (m(ino := ucast count))"
| increment_memory: "unat ino \<in> {1..n} \<Longrightarrow> \<not> mem k \<Longrightarrow> links_step n mem (Increment_Links ino) m (EXT2_ET_NO_MEMORY, None) m"
| store_memory: "unat ino \<in> {1..n} \<Longrightarrow> \<not> mem k \<Longrightarrow> count > 1 \<Longrightarrow> links_step n mem (Store_Links ino count) m (EXT2_ET_NO_MEMORY, None) m"

text \<open>A run of an operation that ends in an object for the counts of a step.\<close>

definition links_done ::
  "nat \<Rightarrow> allocator \<Rightarrow> icount_cmd \<Rightarrow> (u32 \<Rightarrow> u32) \<Rightarrow> (icount_answer \<times> (priv, 'd) ext2_icount) option \<Rightarrow> bool" where
  "links_done n mem c m res \<longleftrightarrow>
     (\<exists>a ic' S M L. res = Some (a, ic') \<and> represents n ic' S M L \<and> links_step n mem c m a (links S M L))"

lemma links_doneI: "represents n ic' S M L \<Longrightarrow> links S M L = m' \<Longrightarrow> links_step n mem c m a m' \<Longrightarrow> links_done n mem c m (Some (a, ic'))"
  by (auto simp: links_done_def)

lemma ino_range:
  assumes "represents n ic S M L"
  shows "ino = 0 \<or> ino > ic_num_inodes ic \<longleftrightarrow> unat ino \<notin> {1..n}" "ic_magic ic = EXT2_ET_MAGIC_ICOUNT" "ic_fullmap ic = None"
proof -
  have "ic_num_inodes ic = of_nat n" "n < 2 ^ 31" using assms by (simp_all add: represents_def list_ok_def)
  then have "unat (ic_num_inodes ic) = n" by (simp add: unat_of_nat)
  then show "ino = 0 \<or> ino > ic_num_inodes ic \<longleftrightarrow> unat ino \<notin> {1..n}" by (auto simp: word_less_nat_alt unat_eq_0 Suc_le_eq unat_gt_0)
  show "ic_magic ic = EXT2_ET_MAGIC_ICOUNT" "ic_fullmap ic = None" using assms by (simp_all add: represents_def list_ok_def)
qed

lemma fetch_refines:
  assumes rep: "represents n ic S M L" and r: "unat ino \<in> {1..n}"
  shows "links_done n mem (Fetch_Links ino) (links S M L) (icount_exec env tdb fresh mem (Fetch_Links ino) ic)"
proof -
  have ino: "1 \<le> unat ino" "unat ino \<le> n" using r by simp_all
  note ir = ino_range [OF rep]
  obtain ic1 where 1: "test_single (bmap_ops env) ic ino = Some (unat ino \<in> S, ic1)" "represents n ic1 S M L" using single_ops(1) [OF rep ino] by blast
  show ?thesis
  proof (cases "unat ino \<in> S")
    case True
    then have "icount_exec env tdb fresh mem (Fetch_Links ino) ic = Some ((0, Some (icount_16_xlate (links S M L ino))), ic1)"
      using 1 ir r by (simp add: icount_exec_def ext2fs_icount_fetch_def links_def icount_16_xlate_def)
    then show ?thesis using links_doneI [OF 1(2) refl links_step.fetch [OF r]] by simp
  next
    case False
    obtain ic2 where 2: "(if ic_multiple ic1 \<noteq> None then map_option (\<lambda>(r, ic2). (\<not> r, ic2)) (test_multiple (bmap_ops env) ic1 ino) else Some (False, ic1)) =
        Some (M \<noteq> None \<and> unat ino \<notin> the M, ic2)" "represents n ic2 S M L"
      using multiple_ops(1) [OF _ ino, of ic1 S _ L env] 1(2) represents_multiple [OF 1(2)] by (cases M) auto
    obtain e ic3 where 3: "get_inode_count tdb mem fresh ic2 ino = Some (e, L ino, ic3)" "represents n ic3 S M L"
      using count_ops(1) [OF 2(2) ino] by blast
    let ?z = "M \<noteq> None \<and> unat ino \<notin> the M"
    have "icount_exec env tdb fresh mem (Fetch_Links ino) ic = Some ((0, Some (icount_16_xlate (links S M L ino))), if ?z then ic2 else ic3)"
      using 1(1) 2(1) 3(1) ir r False by (simp add: icount_exec_def ext2fs_icount_fetch_def links_def icount_16_xlate_def)
    then show ?thesis using links_doneI [OF _ refl links_step.fetch [OF r], of "if ?z then ic2 else ic3"] 2(2) 3(2) by simp
  qed
qed

lemma links_update:
  assumes "S' - {unat ino} = S - {unat ino}" "map_option (\<lambda>X. X - {unat ino}) M' = map_option (\<lambda>X. X - {unat ino}) M" "L'(ino := 0) = L(ino := 0)"
    "links S' M' L' ino = v"
  shows "links S' M' L' = (links S M L)(ino := v)"
proof
  fix x
  have "L' x = L x" if "x \<noteq> ino" using fun_cong [OF assms(3), of x] that by simp
  moreover have "unat x \<in> S' \<longleftrightarrow> unat x \<in> S" if "x \<noteq> ino" using assms(1) that by (auto simp: word_unat_eq_iff)
  moreover have "M' = None \<longleftrightarrow> M = None" using assms(2) by (cases M; cases M') auto
  moreover have "unat x \<in> the M' \<longleftrightarrow> unat x \<in> the M" if "x \<noteq> ino" "M \<noteq> None" using assms(2) that by (cases M; cases M') (auto simp: word_unat_eq_iff)
  ultimately have "links S' M' L' x = links S M L x" if "x \<noteq> ino" using that by (cases "M = None") (simp_all add: links_def)
  then show "links S' M' L' x = ((links S M L)(ino := v)) x" using assms(4) by (cases "x = ino") simp_all
qed

text \<open>The updates that occur: the inode enters or leaves a bitmap, or its entry changes.\<close>

lemma links_listed:
  "links (S - {unat ino}) (map_option (insert (unat ino)) M) (L(ino := v)) = (links S M L)(ino := v)"
  by (rule links_update) (cases M; simp add: links_def)+

lemma links_single: "links (insert (unat ino) S) M L = (links S M L)(ino := 1)"
  by (rule links_update) (simp_all add: links_def)

lemma links_unlisted:
  "links (insert (unat ino) S) (map_option (\<lambda>X. X - {unat ino}) M) L = (links S M L)(ino := 1)"
  "M \<noteq> None \<Longrightarrow> links (S - {unat ino}) (map_option (\<lambda>X. X - {unat ino}) M) L' = (links S M L')(ino := 0)"
  by (rule links_update; cases M; simp add: links_def)+

lemma clear_ops:
  assumes rep: "represents n ic (S - {unat ino}) M L" and ino: "1 \<le> unat ino" "unat ino \<le> n"
  shows "\<exists>ic' M' L'. (if ic_multiple ic \<noteq> None then unmark_multiple (bmap_ops env) ic ino else map_option snd (set_inode_count tdb mem fresh ic ino 0)) =
      Some ic' \<and> represents n ic' (S - {unat ino}) M' L' \<and> links (S - {unat ino}) M' L' = (links S M L)(ino := 0)"
proof (cases M)
  case None
  then have none: "ic_multiple ic = None" using represents_multiple [OF rep] by simp
  have upd: "links (S - {unat ino}) None (L(ino := 0)) = (links S None L)(ino := 0)" using links_listed [of S ino None L 0] by simp
  show ?thesis
  proof (rule set_count_cases [OF rep ino, where v = 0 and tdb = tdb and mem = mem and fresh = fresh])
    fix ic' assume "set_inode_count tdb mem fresh ic ino 0 = Some (0, ic')" "represents n ic' (S - {unat ino}) M (L(ino := 0))"
    then show ?thesis using none None upd by auto
  next
    fix k ic' assume "set_inode_count tdb mem fresh ic ino 0 = Some (EXT2_ET_NO_MEMORY, ic')" "represents n ic' (S - {unat ino}) M L" "L ino = 0"
    moreover from this(3) have "L(ino := 0) = L" by auto
    ultimately show ?thesis using none None upd by auto
  qed
next
  case (Some X)
  then have "ic_multiple ic \<noteq> None" using represents_multiple [OF rep] by simp
  then show ?thesis using unmark_multiple_ops [OF rep ino, of env] links_unlisted(2) [of M S ino L] Some by auto
qed

lemma increment_listed_refines:
  assumes rep: "represents n ic S M L" and r: "unat ino \<in> {1..n}" and v: "unat ino \<notin> S" "M = None \<or> unat ino \<in> the M"
  shows "links_done n mem (Increment_Links ino) (links S M L)
    (map_option (\<lambda>(e, v, ic'). ((e, v), ic')) (increment_listed (bmap_ops env) tdb mem fresh ic ino))"
proof -
  have ino: "1 \<le> unat ino" "unat ino \<le> n" using r by simp_all
  have l: "links S M L ino = L ino" using v by (auto simp: links_def)
  obtain e1 ic1 where 1: "get_inode_count tdb mem fresh ic ino = Some (e1, L ino, ic1)" "represents n ic1 S M L" using count_ops(1) [OF rep ino] by blast
  show ?thesis
  proof (rule set_count_cases [OF 1(2) ino, where v = "L ino + 1" and tdb = tdb and mem = mem and fresh = fresh])
    fix ic2 assume 2: "set_inode_count tdb mem fresh ic1 ino (L ino + 1) = Some (0, ic2)" "represents n ic2 S M (L(ino := L ino + 1))"
    from mark_multiple_ops [OF 2(2) ino] obtain ic3 where 3: "mark_multiple (bmap_ops env) ic2 ino = Some ic3"
        "represents n ic3 S (map_option (insert (unat ino)) M) (L(ino := L ino + 1))" by blast
    have "links S (map_option (insert (unat ino)) M) (L(ino := L ino + 1)) = (links S M L)(ino := L ino + 1)"
      using links_listed [of S ino M L] v(1) by simp
    from links_doneI [OF 3(2) this links_step.increment [OF r]] show ?thesis
      using 1(1) 2(1) 3(1) l by (simp add: increment_listed_def increment_done_def)
  next
    fix k ic2 assume "set_inode_count tdb mem fresh ic1 ino (L ino + 1) = Some (EXT2_ET_NO_MEMORY, ic2)" "represents n ic2 S M L" "\<not> mem k"
    from links_doneI [OF this(2) refl links_step.increment_memory [where mem = mem, OF r this(3)]] this(1) show ?thesis
      using 1(1) by (simp add: increment_listed_def)
  qed
qed

lemma increment_refines:
  assumes rep: "represents n ic S M L" and r: "unat ino \<in> {1..n}"
  shows "links_done n mem (Increment_Links ino) (links S M L) (icount_exec env tdb fresh mem (Increment_Links ino) ic)"
proof -
  have ino: "1 \<le> unat ino" "unat ino \<le> n" using r by simp_all
  note ir = ino_range [OF rep]
  obtain ic1 where 1: "test_single (bmap_ops env) ic ino = Some (unat ino \<in> S, ic1)" "represents n ic1 S M L" using single_ops(1) [OF rep ino] by blast
  have start: "icount_exec env tdb fresh mem (Increment_Links ino) ic = map_option (\<lambda>(e, v, ic'). ((e, v), ic'))
      (if unat ino \<in> S
       then do { (e, ic2) \<leftarrow> set_inode_count tdb mem fresh ic1 ino 2;
                 if e \<noteq> 0 then Some (EXT2_ET_NO_MEMORY, None, ic2)
                 else do { ic3 \<leftarrow> unmark_single (bmap_ops env) ic2 ino; increment_done (bmap_ops env) ic3 ino 2 } }
       else if M \<noteq> None
       then do { (listed, ic2) \<leftarrow> test_multiple (bmap_ops env) ic1 ino;
                 if listed then increment_listed (bmap_ops env) tdb mem fresh ic2 ino
                 else do { ic3 \<leftarrow> mark_single (bmap_ops env) ic2 ino; Some (0, Some 1, ic3) } }
       else increment_listed (bmap_ops env) tdb mem fresh ic1 ino)"
    using 1(1) ir r represents_multiple [OF 1(2)] by (simp add: icount_exec_def ext2fs_icount_increment_def)
  show ?thesis
  proof (cases "unat ino \<in> S")
    case True
    show ?thesis
    proof (rule set_count_cases [OF 1(2) ino, where v = 2 and tdb = tdb and mem = mem and fresh = fresh])
      fix ic2 assume 2: "set_inode_count tdb mem fresh ic1 ino 2 = Some (0, ic2)" "represents n ic2 S M (L(ino := 2))"
      from single_ops(3) [OF 2(2) ino] obtain ic3 where 3: "unmark_single (bmap_ops env) ic2 ino = Some ic3"
          "represents n ic3 (S - {unat ino}) M (L(ino := 2))" by blast
      from mark_multiple_ops [OF 3(2) ino] obtain ic4 where 4: "mark_multiple (bmap_ops env) ic3 ino = Some ic4"
          "represents n ic4 (S - {unat ino}) (map_option (insert (unat ino)) M) (L(ino := 2))" by blast
      from links_doneI [OF 4(2) links_listed links_step.increment [OF r]] show ?thesis
        unfolding start using True 2(1) 3(1) 4(1) by (simp add: increment_done_def links_def)
    next
      fix k ic2 assume "set_inode_count tdb mem fresh ic1 ino 2 = Some (EXT2_ET_NO_MEMORY, ic2)" "represents n ic2 S M L" "\<not> mem k"
      from links_doneI [OF this(2) refl links_step.increment_memory [where mem = mem, OF r this(3)]] this(1) show ?thesis unfolding start using True by simp
    qed
  next
    case out: False
    show ?thesis
    proof (cases M)
      case None
      then show ?thesis unfolding start using increment_listed_refines [OF 1(2) r out] out by simp
    next
      case (Some X)
      obtain ic2 where 2: "test_multiple (bmap_ops env) ic1 ino = Some (unat ino \<in> X, ic2)" "represents n ic2 S M L"
        using multiple_ops(1) [OF 1(2) [unfolded Some] ino] Some by blast
      show ?thesis
      proof (cases "unat ino \<in> X")
        case True
        then show ?thesis unfolding start using increment_listed_refines [OF 2(2) r out] out Some 2(1) by simp
      next
        case False
        obtain ic3 where 3: "mark_single (bmap_ops env) ic2 ino = Some ic3" "represents n ic3 (insert (unat ino) S) M L"
          using single_ops(2) [OF 2(2) ino] by blast
        from links_doneI [OF 3(2) links_single links_step.increment [OF r]] show ?thesis
          unfolding start using out Some False 2(1) 3(1) by (simp add: links_def icount_16_xlate_def)
      qed
    qed
  qed
qed

lemma decrement_listed_refines:
  assumes rep: "represents n ic S M L" and r: "unat ino \<in> {1..n}" and v: "unat ino \<notin> S" "M = None \<or> unat ino \<in> the M"
  shows "links_done n mem (Decrement_Links ino) (links S M L)
    (map_option (\<lambda>(e, v, ic'). ((e, v), ic'))
      (do { (_, v, ic3) \<leftarrow> get_inode_count tdb mem fresh ic ino;
            if v = 0 then Some (EXT2_ET_INVALID_ARGUMENT, None, ic3)
            else do {
              (e, ic4) \<leftarrow> set_inode_count tdb mem fresh ic3 ino (v - 1);
              if e \<noteq> 0 then Some (EXT2_ET_NO_MEMORY, None, ic4)
              else do {
                ic5 \<leftarrow> (if v - 1 = 1 then mark_single (bmap_ops env) ic4 ino else Some ic4);
                ic6 \<leftarrow> (if v - 1 = 0 \<and> ic_multiple ic5 \<noteq> None then unmark_multiple (bmap_ops env) ic5 ino else Some ic5);
                Some (0, Some (icount_16_xlate (v - 1)), ic6) } } }))" (is "links_done n mem _ _ (map_option _ ?run)")
proof -
  have ino: "1 \<le> unat ino" "unat ino \<le> n" using r by simp_all
  have l: "links S M L ino = L ino" using v by (auto simp: links_def)
  obtain e1 ic1 where 1: "get_inode_count tdb mem fresh ic ino = Some (e1, L ino, ic1)" "represents n ic1 S M L" using count_ops(1) [OF rep ino] by blast
  show ?thesis
  proof (cases "L ino = 0")
    case True
    from links_doneI [OF 1(2) refl links_step.decrement_none [OF r]] show ?thesis using True l 1(1) by simp
  next
    case False
    let ?v = "L ino - 1"
    obtain ic2 where 2: "set_inode_count tdb mem fresh ic1 ino ?v = Some (0, ic2)" "represents n ic2 S M (L(ino := ?v))"
      by (rule set_count_cases [OF 1(2) ino, where v = ?v and tdb = tdb and mem = mem and fresh = fresh]) (use False in \<open>simp_all\<close>)
    let ?S = "if ?v = 1 then insert (unat ino) S else S" and ?M = "if ?v = 0 then map_option (\<lambda>X. X - {unat ino}) M else M"
    obtain ic3 where 3: "(if ?v = 1 then mark_single (bmap_ops env) ic2 ino else Some ic2) = Some ic3" "represents n ic3 ?S M (L(ino := ?v))"
      using single_ops(2) [OF 2(2) ino, of env] 2(2) by (cases "?v = 1") auto
    obtain ic4 where 4: "(if ?v = 0 \<and> ic_multiple ic3 \<noteq> None then unmark_multiple (bmap_ops env) ic3 ino else Some ic3) = Some ic4"
        "represents n ic4 ?S ?M (L(ino := ?v))"
      using unmark_multiple_ops [OF 3(2) ino, of env] 3(2) by (cases "?v = 0") auto
    have "links ?S ?M (L(ino := ?v)) = (links S M L)(ino := ?v)"
      by (rule links_update) (cases "?v = 0"; cases "?v = 1"; cases M; use v in \<open>simp add: links_def\<close>)+
    from links_doneI [OF 4(2) this links_step.decrement [OF r]] have "links_done n mem (Decrement_Links ino) (links S M L) (Some ((0, Some (icount_16_xlate ?v)), ic4))"
      using l False by simp
    moreover have "?run = Some (0, Some (icount_16_xlate ?v), ic4)" using 1(1) 2(1) 3(1) 4(1) False by simp
    ultimately show ?thesis by simp
  qed
qed

lemma decrement_refines:
  assumes rep: "represents n ic S M L" and r: "unat ino \<in> {1..n}"
  shows "links_done n mem (Decrement_Links ino) (links S M L) (icount_exec env tdb fresh mem (Decrement_Links ino) ic)"
proof -
  have ino: "1 \<le> unat ino" "unat ino \<le> n" using r by simp_all
  note ir = ino_range [OF rep]
  obtain ic1 where 1: "test_single (bmap_ops env) ic ino = Some (unat ino \<in> S, ic1)" "represents n ic1 S M L" using single_ops(1) [OF rep ino] by blast
  show ?thesis
  proof (cases "unat ino \<in> S")
    case True
    obtain ic2 where 2: "unmark_single (bmap_ops env) ic1 ino = Some ic2" "represents n ic2 (S - {unat ino}) M L"
      using single_ops(3) [OF 1(2) ino] by blast
    obtain ic3 M' L' where 3: "(if ic_multiple ic2 \<noteq> None then unmark_multiple (bmap_ops env) ic2 ino
          else map_option snd (set_inode_count tdb mem fresh ic2 ino 0)) = Some ic3"
        "represents n ic3 (S - {unat ino}) M' L'" "links (S - {unat ino}) M' L' = (links S M L)(ino := 0)"
      using clear_ops [OF 2(2) ino] by blast
    have "icount_exec env tdb fresh mem (Decrement_Links ino) ic = Some ((0, Some 0), ic3)"
      using 1(1) 2(1) 3(1) ir r True by (simp add: icount_exec_def ext2fs_icount_decrement_def)
    then show ?thesis using links_doneI [OF 3(2,3) links_step.decrement [OF r]] True by (simp add: links_def icount_16_xlate_def)
  next
    case out: False
    obtain ic2 where 2: "(if ic_multiple ic1 \<noteq> None then test_multiple (bmap_ops env) ic1 ino else Some (True, ic1)) =
        Some (M = None \<or> unat ino \<in> the M, ic2)" "represents n ic2 S M L"
      using multiple_ops(1) [OF _ ino, of ic1 S _ L env] 1(2) represents_multiple [OF 1(2)] by (cases M) auto
    show ?thesis
    proof (cases "M = None \<or> unat ino \<in> the M")
      case True
      from decrement_listed_refines [OF 2(2) r out True, of mem tdb fresh env] show ?thesis
        using 1(1) 2(1) ir r out True by (simp add: icount_exec_def ext2fs_icount_decrement_def)
    next
      case False
      then have "icount_exec env tdb fresh mem (Decrement_Links ino) ic = Some ((EXT2_ET_INVALID_ARGUMENT, None), ic2)"
        using 1(1) 2(1) ir r out by (simp add: icount_exec_def ext2fs_icount_decrement_def)
      then show ?thesis using links_doneI [OF 2(2) refl links_step.decrement_none [OF r]] False out by (simp add: links_def)
    qed
  qed
qed

lemma store_refines:
  assumes rep: "represents n ic S M L" and r: "unat ino \<in> {1..n}"
  shows "links_done n mem (Store_Links ino count) (links S M L) (icount_exec env tdb fresh mem (Store_Links ino count) ic)"
proof -
  have ino: "1 \<le> unat ino" "unat ino \<le> n" using r by simp_all
  note ir = ino_range [OF rep]
  consider "count = 1" | "count = 0" | "count > 1" by (metis not_less_iff_gr_or_eq word_gt_0 word_less_1)
  then show ?thesis
  proof cases
    case 1
    obtain ic1 where a: "mark_single (bmap_ops env) ic ino = Some ic1" "represents n ic1 (insert (unat ino) S) M L" using single_ops(2) [OF rep ino] by blast
    obtain ic2 where b: "(if ic_multiple ic1 \<noteq> None then unmark_multiple (bmap_ops env) ic1 ino else Some ic1) = Some ic2"
        "represents n ic2 (insert (unat ino) S) (map_option (\<lambda>X. X - {unat ino}) M) L"
      using unmark_multiple_ops [OF a(2) ino] by blast
    have "icount_exec env tdb fresh mem (Store_Links ino count) ic = Some ((0, None), ic2)"
      using a(1) b(1) ir r 1 by (simp add: icount_exec_def ext2fs_icount_store_def)
    then show ?thesis using links_doneI [OF b(2) links_unlisted(1), where c = "Store_Links ino count" and mem = mem] links_step.store [OF r, of mem count] 1 by simp
  next
    case 2
    obtain ic1 where a: "unmark_single (bmap_ops env) ic ino = Some ic1" "represents n ic1 (S - {unat ino}) M L" using single_ops(3) [OF rep ino] by blast
    obtain ic2 M' L' where b: "(if ic_multiple ic1 \<noteq> None then unmark_multiple (bmap_ops env) ic1 ino
          else map_option snd (set_inode_count tdb mem fresh ic1 ino 0)) = Some ic2"
        "represents n ic2 (S - {unat ino}) M' L'" "links (S - {unat ino}) M' L' = (links S M L)(ino := 0)"
      using clear_ops [OF a(2) ino] by blast
    have "icount_exec env tdb fresh mem (Store_Links ino count) ic = Some ((0, None), ic2)"
      using a(1) b(1) ir r 2 by (simp add: icount_exec_def ext2fs_icount_store_def)
    then show ?thesis using links_doneI [OF b(2,3), where c = "Store_Links ino count" and mem = mem] links_step.store [OF r, of mem count] 2 by simp
  next
    case 3
    then have c: "count \<noteq> 0" "count \<noteq> 1" by auto
    show ?thesis
    proof (rule set_count_cases [OF rep ino, where v = "ucast count" and tdb = tdb and mem = mem and fresh = fresh])
      fix ic1 assume a: "set_inode_count tdb mem fresh ic ino (ucast count) = Some (0, ic1)" "represents n ic1 S M (L(ino := ucast count))"
      obtain ic2 where b: "unmark_single (bmap_ops env) ic1 ino = Some ic2" "represents n ic2 (S - {unat ino}) M (L(ino := ucast count))"
        using single_ops(3) [OF a(2) ino] by blast
      obtain ic3 where d: "mark_multiple (bmap_ops env) ic2 ino = Some ic3"
          "represents n ic3 (S - {unat ino}) (map_option (insert (unat ino)) M) (L(ino := ucast count))" using mark_multiple_ops [OF b(2) ino] by blast
      have "icount_exec env tdb fresh mem (Store_Links ino count) ic = Some ((0, None), ic3)"
        using a(1) b(1) d(1) ir r c by (simp add: icount_exec_def ext2fs_icount_store_def)
      then show ?thesis using links_doneI [OF d(2) links_listed links_step.store [OF r]] by simp
    next
      fix k ic1 assume a: "set_inode_count tdb mem fresh ic ino (ucast count) = Some (EXT2_ET_NO_MEMORY, ic1)" "represents n ic1 S M L" "\<not> mem k"
      have "icount_exec env tdb fresh mem (Store_Links ino count) ic = Some ((EXT2_ET_NO_MEMORY, None), ic1)"
        using a(1) ir r c by (simp add: icount_exec_def ext2fs_icount_store_def)
      then show ?thesis using links_doneI [OF a(2) refl links_step.store_memory [where mem = mem, OF r a(3) 3]] by simp
    qed
  qed
qed

lemma icount_exec_refines:
  assumes rep: "represents n ic S M L"
  shows "links_done n mem c (links S M L) (icount_exec env tdb fresh mem c ic)"
proof (cases "unat (cmd_ino c) \<in> {1..n}")
  case True
  then show ?thesis using fetch_refines [OF rep] increment_refines [OF rep] decrement_refines [OF rep] store_refines [OF rep] by (cases c) simp_all
next
  case False
  then have "icount_exec env tdb fresh mem c ic = Some ((EXT2_ET_INVALID_ARGUMENT, None), ic)"
    using ino_range(1) [OF rep, of "cmd_ino c"] ino_range(2) [OF rep]
    by (cases c) (simp_all add: icount_exec_def ext2fs_icount_fetch_def ext2fs_icount_increment_def ext2fs_icount_decrement_def ext2fs_icount_store_def)
  then show ?thesis using links_doneI [OF rep refl links_step.bad [OF False]] by simp
qed

section \<open>Sessions\<close>

fun icount_run ::
  "bm_env \<Rightarrow> 'd tdb_ops \<Rightarrow> (nat \<Rightarrow> ext2_icount_el) \<Rightarrow> (allocator \<times> icount_cmd) list \<Rightarrow> (priv, 'd) ext2_icount \<Rightarrow>
   (icount_answer list \<times> (priv, 'd) ext2_icount) option" where
  "icount_run env tdb fresh [] ic = Some ([], ic)"
| "icount_run env tdb fresh ((mem, c) # cs) ic =
     do { (a, ic1) \<leftarrow> icount_exec env tdb fresh mem c ic; (as, ic2) \<leftarrow> icount_run env tdb fresh cs ic1; Some (a # as, ic2) }"

inductive links_run :: "nat \<Rightarrow> (allocator \<times> icount_cmd) list \<Rightarrow> (u32 \<Rightarrow> u32) \<Rightarrow> icount_answer list \<Rightarrow> (u32 \<Rightarrow> u32) \<Rightarrow> bool" for n where
  nil: "links_run n [] m [] m"
| cons: "links_step n mem c m a m1 \<Longrightarrow> links_run n cs m1 as m2 \<Longrightarrow> links_run n ((mem, c) # cs) m (a # as) m2"

lemma icount_run_refines:
  "represents n ic S M L \<Longrightarrow>
   \<exists>as ic' S' M' L'. icount_run env tdb fresh cs ic = Some (as, ic') \<and> represents n ic' S' M' L' \<and> links_run n cs (links S M L) as (links S' M' L')"
proof (induction cs arbitrary: ic S M L)
  case Nil
  then show ?case using links_run.nil by fastforce
next
  case (Cons mc cs)
  obtain mem c where mc: "mc = (mem, c)" by force
  from icount_exec_refines [OF Cons.prems, of mem c env tdb fresh]
  obtain a ic1 S1 M1 L1 where s: "icount_exec env tdb fresh mem c ic = Some (a, ic1)" "represents n ic1 S1 M1 L1"
      "links_step n mem c (links S M L) a (links S1 M1 L1)"
    unfolding links_done_def by blast
  from Cons.IH [OF s(2)] obtain as ic' S' M' L' where "icount_run env tdb fresh cs ic1 = Some (as, ic')" "represents n ic' S' M' L'"
      "links_run n cs (links S1 M1 L1) as (links S' M' L')" by blast
  then show ?case using s(1) links_run.cons [OF s(3)] mc by fastforce
qed

end
