(* ===== verification/Icount_Session.thy ===== *)
theory Icount_Session
  imports Icount_Correct
begin

unbundle bit_operations_syntax

text \<open>
  Link counts from creation on: a new object holds no links, with or without a former object as a hint, and every session on it refines the
  abstract store of counts. An object with one cell per inode has no cell for the last inode.
\<close>

section \<open>New objects\<close>

lemma copy_inos_spec:
  "i + k \<le> length src \<Longrightarrow> i + k \<le> length l \<Longrightarrow>
   \<exists>l'. copy_inos src l i k = Some l' \<and> length l' = length l \<and>
     (\<forall>j < length l. l' ! j = (if i \<le> j \<and> j < i + k then (l ! j)\<lparr>ic_ino := ic_ino (src ! j)\<rparr> else l ! j))"
proof (induction k arbitrary: i l)
  case (Suc k)
  let ?l = "l[i := (l ! i)\<lparr>ic_ino := ic_ino (src ! i)\<rparr>]"
  obtain l' where l': "copy_inos src ?l (Suc i) k = Some l'" "length l' = length l"
      "\<forall>j < length l. l' ! j = (if Suc i \<le> j \<and> j < Suc i + k then (?l ! j)\<lparr>ic_ino := ic_ino (src ! j)\<rparr> else ?l ! j)"
    using Suc.IH [of "Suc i" ?l] Suc.prems by auto
  have "copy_inos src l i (Suc k) = Some l'" using l'(1) Suc.prems by (simp add: rd_def wr_def)
  moreover have "l' ! j = (if i \<le> j \<and> j < i + Suc k then (l ! j)\<lparr>ic_ino := ic_ino (src ! j)\<rparr> else l ! j)" if "j < length l" for j
    using l'(3) that by (cases "j = i") (auto simp: nth_list_update)
  ultimately show ?case using l'(2) by blast
qed auto

text \<open>The entries of a hint, with counts of zero.\<close>

lemma zero_entries:
  assumes "inos_ok n es"
  shows "inos_ok n (map (ic_cnt_update (\<lambda>_. 0)) es)" "counts (map (ic_cnt_update (\<lambda>_. 0)) es) = (\<lambda>_. 0)"
proof -
  show "inos_ok n (map (ic_cnt_update (\<lambda>_. 0)) es)" using assms by (simp add: inos_ok_def keys_sorted_def sorted_wrt_map)
  have "cnt (map el_of (map (ic_cnt_update (\<lambda>_. 0)) es)) k = 0" for k by (induction es) simp_all
  then show "counts (map (ic_cnt_update (\<lambda>_. 0)) es) = (\<lambda>_. 0)" by (simp add: counts_def fun_eq_iff)
qed

definition hint_ok :: "nat \<Rightarrow> (priv, 'd) ext2_icount option \<Rightarrow> bool" where
  "hint_ok n hint \<longleftrightarrow> (case hint of None \<Rightarrow> True | Some h \<Rightarrow> list_ok n h \<and> ic_size h < 2 ^ 32)"

lemma alloc_icount_new:
  assumes "\<forall>n. mem n" "fs_default_bitmap_type fs \<le> 3" "fs_flag_64bits fs" "1 \<le> fs_inodes_count fs" "fs_inodes_count fs < 2 ^ 31"
    "fs_inodes_count fs \<le> fs_inodes_per_group fs * fs_group_desc_count fs" "fs_inodes_per_group fs * fs_group_desc_count fs < 2 ^ 32"
    and flags: "\<not> (flags AND 2 \<noteq> 0 \<and> flags AND 1 \<noteq> 0)"
  shows "\<exists>(ic :: (priv, 'd) ext2_icount) M. alloc_icount env mem fs num_dirs flags = Some (Inr ic) \<and> ic_magic ic = EXT2_ET_MAGIC_ICOUNT \<and>
    ic_num_inodes ic = of_nat (fs_inodes_count fs) \<and> ic_tdb ic = None \<and> ic_fullmap ic = None \<and> ic_last_lookup ic = None \<and>
    (\<exists>b. ic_single ic = Some (B64 b) \<and> inode_bits_ok (fs_inodes_count fs) b \<and> bm_set b = {}) \<and>
    (case M of None \<Rightarrow> ic_multiple ic = None
     | Some X \<Rightarrow> \<exists>b. ic_multiple ic = Some (B64 b) \<and> inode_bits_ok (fs_inodes_count fs) b \<and> bm_set b = X) \<and> (M = None \<or> M = Some {})"
proof -
  have "fs_inodes_count fs < 2 ^ 32" using assms(5) by simp
  note new = allocate_inode_bits [OF assms(1-4) this assms(6,7), of env num_dirs]
  obtain b where b: "ext2fs_allocate_inode_bitmap env mem fs num_dirs (Some ''icount'') = Some (Inr (B64 b))"
      "inode_bits_ok (fs_inodes_count fs) b" "bm_set b = {}"
    using new [of "Some ''icount''"] by blast
  obtain c where c: "ext2fs_allocate_inode_bitmap env mem fs num_dirs (Some ''icount_inc'') = Some (Inr (B64 c))"
      "inode_bits_ok (fs_inodes_count fs) c" "bm_set c = {}"
    using new [of "Some ''icount_inc''"] by blast
  let ?ic = "\<lparr>ic_magic = EXT2_ET_MAGIC_ICOUNT, ic_single = Some (B64 b), ic_multiple = (if flags AND 1 = 0 then None else Some (B64 c)),
    ic_count = 0, ic_size = 0, ic_num_inodes = of_nat (fs_inodes_count fs), ic_cursor = 0, ic_list = None, ic_last_lookup = None,
    ic_tdb = (None :: 'd option), ic_fullmap = None\<rparr>"
  have "alloc_icount env mem fs num_dirs flags = Some (Inr ?ic)"
    using flags assms(1) b(1) c(1) by (cases "flags AND 1 = 0") (simp_all add: alloc_icount_def Let_def)
  then show ?thesis
    using b(2,3) c(2,3) by (intro exI [of _ ?ic] exI [of _ "if flags AND 1 = 0 then None else Some {}"]) simp
qed

lemma create_icount_new:
  assumes "\<forall>n. mem n" "fs_default_bitmap_type fs \<le> 3" "fs_flag_64bits fs" "1 \<le> fs_inodes_count fs" "fs_inodes_count fs < 2 ^ 31"
    "fs_inodes_count fs \<le> fs_inodes_per_group fs * fs_group_desc_count fs" "fs_inodes_per_group fs * fs_group_desc_count fs < 2 ^ 32"
    "\<not> (flags AND 2 \<noteq> 0 \<and> flags AND 1 \<noteq> 0)" and sz: "sz < 2 ^ 32" and hint: "hint_ok (fs_inodes_count fs) (hint :: (priv, 'd) ext2_icount option)" and dirs: "num_dirs = Inr d"
  shows "\<exists>ic M. ext2fs_create_icount2 env mem fs num_dirs flags sz hint = Some (Inr ic) \<and> represents (fs_inodes_count fs) ic {} M (\<lambda>_. 0) \<and>
    links {} M (\<lambda>_. 0) = (\<lambda>_. 0)"
proof -
  let ?n = "fs_inodes_count fs"
  obtain ic :: "(priv, 'd) ext2_icount" and M where a: "alloc_icount env mem fs num_dirs flags = Some (Inr ic)" "ic_magic ic = EXT2_ET_MAGIC_ICOUNT"
      "ic_num_inodes ic = of_nat ?n" "ic_tdb ic = None" "ic_fullmap ic = None" "ic_last_lookup ic = None"
      "\<exists>b. ic_single ic = Some (B64 b) \<and> inode_bits_ok ?n b \<and> bm_set b = {}"
      "case M of None \<Rightarrow> ic_multiple ic = None | Some X \<Rightarrow> \<exists>b. ic_multiple ic = Some (B64 b) \<and> inode_bits_ok ?n b \<and> bm_set b = X"
      "M = None \<or> M = Some {}"
    using alloc_icount_new [OF assms(1-8), of env num_dirs] by blast
  define sz1 where "sz1 = (case hint of Some h \<Rightarrow> max (ic_size h) sz | None \<Rightarrow> sz)"
  define k where "k = (if sz1 \<noteq> 0 then sz1 else (d + ?n div 50) mod W32)"
  have pick: "(if sz1 \<noteq> 0 then Inr sz1 else map_sum id (\<lambda>n. (n + ?n div 50) mod W32) num_dirs) = Inr k" by (simp add: k_def dirs)
  let ?l = "replicate k \<lparr>ic_ino = 0, ic_cnt = 0\<rparr>"
  have "sz1 < 2 ^ 32" using sz hint by (cases hint) (simp_all add: sz1_def hint_ok_def)
  then have k: "k < 2 ^ 32" by (simp add: k_def)
  then have arr: "ext2fs_get_array mem (int k) 8"
    using assms(1) by (cases "k = 0") (simp_all add: ext2fs_get_array_def not_less less_eq_div_iff_mult_less_eq)
  have rep: "represents ?n (ic\<lparr>ic_size := k, ic_count := length es, ic_cursor := 0, ic_list := Some l\<rparr>) {} M (\<lambda>_. 0)"
    if "length l = k" "length es \<le> k" "take (length es) l = map (ic_cnt_update (\<lambda>_. 0)) es" "inos_ok ?n es" for l es
    using a(2-8) that zero_entries [OF that(4)] assms(5) by (cases M) (simp_all add: represents_def list_ok_def entries_def)
  have none: "links {} M (\<lambda>_. 0) = (\<lambda>_. 0)" using a(9) by (auto simp: links_def fun_eq_iff)
  show ?thesis
  proof (cases hint)
    case None
    have "ext2fs_create_icount2 env mem fs num_dirs flags sz hint = Some (Inr (ic\<lparr>ic_size := k, ic_count := 0, ic_cursor := 0, ic_list := Some ?l\<rparr>))"
      unfolding ext2fs_create_icount2_def sz1_def [symmetric] Let_def pick using a(1,5) arr None by simp
    then show ?thesis using rep [of ?l "[]"] none by (auto simp: inos_ok_def)
  next
    case (Some h)
    then have h: "list_ok ?n h" "ic_size h \<le> k" "ic_magic h = EXT2_ET_MAGIC_ICOUNT"
      using hint by (auto simp: hint_ok_def sz1_def k_def list_ok_def)
    obtain src where src: "ic_list h = Some src" "length src = ic_size h" "ic_count h \<le> length src" "entries h = take (ic_count h) src"
        "length (entries h) = ic_count h"
      using h(1) by (rule list_okD) (rule that)
    obtain l where l: "copy_inos src ?l 0 (ic_count h) = Some l" "length l = k"
        "\<forall>j < k. l ! j = (if j < ic_count h then \<lparr>ic_ino = ic_ino (src ! j), ic_cnt = 0\<rparr> else \<lparr>ic_ino = 0, ic_cnt = 0\<rparr>)"
      using copy_inos_spec [of 0 "ic_count h" src ?l] src(2,3) h(2) by auto
    have "take (ic_count h) l = map (ic_cnt_update (\<lambda>_. 0)) (entries h)"
      using src l(2,3) h(2) by (intro nth_equalityI) auto
    then have "represents ?n (ic\<lparr>ic_size := k, ic_count := ic_count h, ic_cursor := 0, ic_list := Some l\<rparr>) {} M (\<lambda>_. 0)"
      using rep [OF l(2), of "entries h"] src h(1,2) by (simp add: list_ok_def)
    moreover have "ext2fs_create_icount2 env mem fs num_dirs flags sz hint =
        Some (Inr (ic\<lparr>ic_size := k, ic_count := ic_count h, ic_cursor := 0, ic_list := Some l\<rparr>))"
      unfolding ext2fs_create_icount2_def sz1_def [symmetric] Let_def pick using a(1,5) arr Some h(3) src(1) l(1) by auto
    ultimately show ?thesis using none by blast
  qed
qed

text \<open>What a failing allocation does to the creation: it ends with the error, or only takes the array of cells away.\<close>

lemma flags_low_bit: "(flags AND 1) AND 1 = flags AND (1 :: u32)" "(flags AND 1) AND 2 = (0 :: u32)"
  by (simp_all add: and.assoc)

lemma alloc_icount_memory:
  assumes "fs_flag_64bits fs"
  shows "(\<exists>n. \<not> mem n) \<and> alloc_icount env mem fs num_dirs flags = Some (Inl EXT2_ET_NO_MEMORY :: errcode + (priv, 'd) ext2_icount) \<or>
    flags AND 2 \<noteq> 0 \<and> flags AND 1 \<noteq> 0 \<and> (\<exists>ic :: (priv, 'd) ext2_icount. alloc_icount env mem fs num_dirs flags = Some (Inr ic) \<and> ic_fullmap ic \<noteq> None) \<or>
    alloc_icount env mem fs num_dirs flags = (alloc_icount env (\<lambda>_. True) fs num_dirs (flags AND 1) :: (errcode + (priv, 'd) ext2_icount) option)"
proof (cases "\<not> mem 80 \<or> flags AND 2 \<noteq> 0 \<and> flags AND 1 \<noteq> 0 \<and> mem ((2 * fs_inodes_count fs) mod W32)")
  case False
  define F where "F a b =
      (let ic = \<lparr>ic_magic = EXT2_ET_MAGIC_ICOUNT, ic_single = None, ic_multiple = None, ic_count = 0, ic_size = 0,
                  ic_num_inodes = of_nat (fs_inodes_count fs), ic_cursor = 0, ic_list = None, ic_last_lookup = None, ic_tdb = None :: 'd option,
                  ic_fullmap = None\<rparr> in
       do { r \<leftarrow> a :: (errcode + priv any_bmap) option;
             (case r of
                Inl e \<Rightarrow> Some (Inl e)
              | Inr single \<Rightarrow>
                  if flags AND 1 \<noteq> 0
                  then do { r2 \<leftarrow> b;
                            (case r2 of
                               Inl e \<Rightarrow> Some (Inl e)
                             | Inr multiple \<Rightarrow> Some (Inr (ic\<lparr>ic_single := Some single, ic_multiple := Some multiple\<rparr>))) }
                  else Some (Inr (ic\<lparr>ic_single := Some single\<rparr>))) })" for a b
  let ?bits = "\<lambda>mem descr. ext2fs_allocate_inode_bitmap env mem fs num_dirs (Some descr)"
  have t: "alloc_icount env (\<lambda>_. True) fs num_dirs (flags AND 1) = F (?bits (\<lambda>_. True) ''icount'') (?bits (\<lambda>_. True) ''icount_inc'')"
    unfolding alloc_icount_def flags_low_bit Let_def F_def by simp
  have m: "alloc_icount env mem fs num_dirs flags = F (?bits mem ''icount'') (?bits mem ''icount_inc'')"
    using False unfolding alloc_icount_def Let_def F_def by auto
  have first: "F (Some (Inl EXT2_ET_NO_MEMORY)) b = Some (Inl EXT2_ET_NO_MEMORY)" for b by (simp add: F_def)
  have second: "F a (Some (Inl EXT2_ET_NO_MEMORY)) = Some (Inl EXT2_ET_NO_MEMORY) \<or> F a (Some (Inl EXT2_ET_NO_MEMORY)) = F a b" for a b
  proof (cases a)
    case (Some r)
    then show ?thesis by (cases r) (auto simp: F_def Let_def)
  qed (simp add: F_def)
  note i = allocate_inode_memory [OF assms, where env = env and mem = mem and num_dirs = num_dirs]
  show ?thesis
    unfolding t m using i [of "Some ''icount''"] i [of "Some ''icount_inc''"] first second by metis
qed (auto simp: alloc_icount_def Let_def)

lemma create_icount_memory:
  assumes "fs_flag_64bits fs" "num_dirs = Inr d"
    "case hint :: (priv, 'd) ext2_icount option of None \<Rightarrow> sz < 2 ^ 32 | Some h \<Rightarrow> ic_magic h = EXT2_ET_MAGIC_ICOUNT \<and> max (ic_size h) sz < 2 ^ 32"
  shows "(\<exists>n. \<not> mem n) \<and> ext2fs_create_icount2 env mem fs num_dirs flags sz hint = Some (Inl EXT2_ET_NO_MEMORY) \<or>
    flags AND 2 \<noteq> 0 \<and> flags AND 1 \<noteq> 0 \<and> (\<exists>ic. ext2fs_create_icount2 env mem fs num_dirs flags sz hint = Some (Inr ic) \<and> ic_fullmap ic \<noteq> None) \<or>
    ext2fs_create_icount2 env mem fs num_dirs flags sz hint = ext2fs_create_icount2 env (\<lambda>_. True) fs num_dirs (flags AND 1) sz hint"
proof -
  have magic: "\<not> (case hint of Some h \<Rightarrow> ic_magic h \<noteq> EXT2_ET_MAGIC_ICOUNT | None \<Rightarrow> False)" using assms(3) by (cases hint) auto
  define sz1 where "sz1 = (case hint of Some h \<Rightarrow> max (ic_size h) sz | None \<Rightarrow> sz)"
  define k where "k = (if sz1 \<noteq> 0 then sz1 else (d + fs_inodes_count fs div 50) mod W32)"
  have pick: "(if sz1 \<noteq> 0 then Inr sz1 else map_sum id (\<lambda>n. (n + fs_inodes_count fs div 50) mod W32) num_dirs) = Inr k"
    by (simp add: k_def assms(2))
  have "k < 2 ^ 32" using assms(3) by (cases hint) (auto simp: k_def sz1_def)
  then have "\<not> (W64 - 1) div k < 8" if "0 < k" using that by (simp add: not_less less_eq_div_iff_mult_less_eq)
  then have arr: "ext2fs_get_array m (int k) 8 \<longleftrightarrow> m (k * 8)" for m
    using \<open>k < 2 ^ 32\<close> by (cases "k = 0") (simp_all add: ext2fs_get_array_def)
  note create = ext2fs_create_icount2_def [of env _ fs num_dirs _ sz hint, unfolded if_not_P [OF magic] sz1_def [symmetric] Let_def pick sum.case arr]
  show ?thesis
    using alloc_icount_memory [OF assms(1), where mem = mem and env = env and num_dirs = num_dirs and flags = flags]
  proof (elim disjE)
    assume eq: "alloc_icount env mem fs num_dirs flags = (alloc_icount env (\<lambda>_. True) fs num_dirs (flags AND 1) :: (errcode + (priv, 'd) ext2_icount) option)"
    define a where "a = (alloc_icount env (\<lambda>_. True) fs num_dirs (flags AND 1) :: (errcode + (priv, 'd) ext2_icount) option)"
    show ?thesis
    proof (cases "mem (k * 8)")
      case True
      then have m: "mem (k * 8) = True" by simp
      show ?thesis unfolding create eq m by (intro disjI2 refl)
    next
      case False
      consider "a = None" | e where "a = Some (Inl e)" | ic where "a = Some (Inr ic)" by (metis option.exhaust sum.exhaust)
      then show ?thesis unfolding create eq a_def [symmetric] using False by cases auto
    qed
  qed (auto simp: create)
qed

section \<open>Validation\<close>

lemma icount_unsorted_spec:
  "0 < i \<Longrightarrow> i + k \<le> length l \<Longrightarrow> icount_unsorted l i k = Some (\<exists>j \<in> {i..<i + k}. ic_ino (l ! (j - 1)) \<ge> ic_ino (l ! j))"
proof (induction k arbitrary: i)
  case (Suc k)
  have "{i..<i + Suc k} = insert i {Suc i..<Suc i + k}" by auto
  then show ?case using Suc.IH [of "Suc i"] Suc.prems by (simp add: rd_def del: add_Suc add_Suc_right)
qed simp

lemma validate_ok:
  assumes ok: "list_ok n ic"
  shows "ext2fs_icount_validate ic = Some 0"
proof -
  obtain l where l: "ic_list ic = Some l" "length l = ic_size ic" "ic_count ic \<le> length l" "entries ic = take (ic_count ic) l"
    using ok by (rule list_okD) (rule that)
  have "sorted_wrt (\<lambda>a b. ic_ino a < ic_ino b) (take (ic_count ic) l)"
    using ok l(4) by (simp add: list_ok_def inos_ok_def keys_sorted_def sorted_wrt_map word_less_nat_alt)
  then have "ic_ino (l ! (j - 1)) < ic_ino (l ! j)" if "1 \<le> j" "j < ic_count ic" for j
    using that l(3) sorted_wrt_nth_less [of "\<lambda>a b. ic_ino a < ic_ino b" "take (ic_count ic) l" "j - 1" j] by simp
  then have "\<not> (\<exists>j \<in> {1..<1 + (ic_count ic - 1)}. ic_ino (l ! (j - 1)) \<ge> ic_ino (l ! j))" by (force simp: not_le)
  then have "ic_count ic > 1 \<Longrightarrow> icount_unsorted l 1 (ic_count ic - 1) = Some False"
    using icount_unsorted_spec [of 1 "ic_count ic - 1" l] l(3) by simp
  then show ?thesis using ok l by (simp add: ext2fs_icount_validate_def list_ok_def)
qed

section \<open>Properties\<close>

text \<open>C4. Link counts on a file system with 64-bit bitmaps and between one and \<open>2 ^ 31 - 1\<close> inodes, which the groups have room for. Creating
  an object of link counts, with or without the second bitmap and with or without a well-formed former object as a hint, whichever
  allocations fail, ends with an object or reports lack of memory. Unless the object is the array of one cell per inode, which is made only
  when both options ask for it, every session of fetch, increment, decrement and store on it ends without an access
  outside the array, leaves an object that \<^verbatim>\<open>ext2fs_icount_validate\<close> accepts and
  answers as an abstract map from inodes to 32-bit counts that starts at zero does, whichever allocations fail on the way: counts are
  shown cut at 65500, an inode that does not exist and the decrement of a count of zero are refused, and only an increment or the store
  of a count above one can run out of memory, without any effect on the counts. An inode that moves between the bitmaps and the array is counted once.\<close>

theorem icount_session_refines:
  assumes "fs_default_bitmap_type fs \<le> 3" "fs_flag_64bits fs" "1 \<le> fs_inodes_count fs" "fs_inodes_count fs < 2 ^ 31"
    "fs_inodes_count fs \<le> fs_inodes_per_group fs * fs_group_desc_count fs" "fs_inodes_per_group fs * fs_group_desc_count fs < 2 ^ 32"
    "sz < 2 ^ 32" "hint_ok (fs_inodes_count fs) hint"
  shows "\<exists>r. ext2fs_create_icount2 env mem fs (Inr dirs) flags sz hint = Some r \<and>
    (case r of
       Inl e \<Rightarrow> e = EXT2_ET_NO_MEMORY \<and> (\<exists>n. \<not> mem n)
     | Inr ic \<Rightarrow>
         (ic_fullmap ic \<noteq> None \<longrightarrow> flags AND 2 \<noteq> 0 \<and> flags AND 1 \<noteq> 0) \<and>
         (ic_fullmap ic = None \<longrightarrow>
            (\<exists>as ic' S M L. icount_run env tdb fresh cs ic = Some (as, ic') \<and> ext2fs_icount_validate ic' = Some 0 \<and>
               represents (fs_inodes_count fs) ic' S M L \<and> links_run (fs_inodes_count fs) cs (\<lambda>_. 0) as (links S M L))))"
proof -
  have h: "case hint of None \<Rightarrow> sz < 2 ^ 32 | Some h \<Rightarrow> ic_magic h = EXT2_ET_MAGIC_ICOUNT \<and> max (ic_size h) sz < 2 ^ 32"
    using assms(7,8) by (cases hint) (auto simp: hint_ok_def list_ok_def)
  have "\<forall>n. (\<lambda>_. True) n" "\<not> ((flags AND 1) AND 2 \<noteq> 0 \<and> (flags AND 1) AND 1 \<noteq> 0)" by (simp_all add: flags_low_bit)
  from create_icount_new [OF this(1) assms(1-6) this(2) assms(7,8) refl] obtain ic M where
    new: "ext2fs_create_icount2 env (\<lambda>_. True) fs (Inr dirs) (flags AND 1) sz hint = Some (Inr ic)"
      "represents (fs_inodes_count fs) ic {} M (\<lambda>_. 0)" "links {} M (\<lambda>_. 0) = (\<lambda>_. 0)"
    by blast
  from icount_run_refines [OF new(2), of env tdb fresh cs] obtain as ic' S' M' L' where
    run: "icount_run env tdb fresh cs ic = Some (as, ic')"
      "represents (fs_inodes_count fs) ic' S' M' L'" "links_run (fs_inodes_count fs) cs (\<lambda>_. 0) as (links S' M' L')"
    unfolding new(3) by blast
  have "ext2fs_icount_validate ic' = Some 0" using run(2) by (intro validate_ok [of "fs_inodes_count fs"]) (simp add: represents_def)
  then have session: "\<exists>as ic' S M L. icount_run env tdb fresh cs ic = Some (as, ic') \<and> ext2fs_icount_validate ic' = Some 0 \<and>
      represents (fs_inodes_count fs) ic' S M L \<and> links_run (fs_inodes_count fs) cs (\<lambda>_. 0) as (links S M L)"
    using run by blast
  have "ic_fullmap ic = None" using new(2) by (simp add: represents_def list_ok_def)
  then show ?thesis
    using create_icount_memory [where num_dirs = "Inr dirs" and mem = mem and env = env and flags = flags, OF assms(2) refl h]
  proof (elim disjE)
    assume "ext2fs_create_icount2 env mem fs (Inr dirs) flags sz hint = ext2fs_create_icount2 env (\<lambda>_. True) fs (Inr dirs) (flags AND 1) sz hint"
    then show ?thesis using new(1) \<open>ic_fullmap ic = None\<close> session by simp
  qed auto
qed

definition link_fs :: fs_view where
  "link_fs = \<lparr>fs_cluster_ratio_bits = 0, fs_inodes_count = 64, fs_first_data_block = 1, fs_blocks_count = 1024, fs_clusters_per_group = 8192,
     fs_blocks_per_group = 8192, fs_inodes_per_group = 64, fs_group_desc_count = 1, fs_flag_64bits = True, fs_default_bitmap_type = 3\<rparr>"

definition link_calls :: "(allocator \<times> icount_cmd) list" where
  "link_calls = map (Pair (\<lambda>_. True)) [Store_Links 42 42, Increment_Links 5, Increment_Links 5, Decrement_Links 5, Fetch_Links 42, Store_Links 42 0] @
     [(\<lambda>_. False, Increment_Links 5), (\<lambda>_. False, Decrement_Links 65)]"

theorem icount_session_refines_witness:
  "\<forall>env (tdb :: unit tdb_ops) fresh.
   \<exists>ic as ic' S M L. ext2fs_create_icount2 env (\<lambda>_. True) link_fs (Inr 2) 1 0 None = Some (Inr ic) \<and>
    icount_run env tdb fresh link_calls ic = Some (as, ic') \<and> ext2fs_icount_validate ic' = Some 0 \<and>
    represents (fs_inodes_count link_fs) ic' S M L \<and> links_run (fs_inodes_count link_fs) link_calls (\<lambda>_. 0) as (links S M L)"
proof (intro allI)
  fix env and tdb :: "unit tdb_ops" and fresh
  let ?hint = "None :: (priv, unit) ext2_icount option"
  have h: "fs_default_bitmap_type link_fs \<le> 3" "fs_flag_64bits link_fs" "1 \<le> fs_inodes_count link_fs" "fs_inodes_count link_fs < 2 ^ 31"
    "fs_inodes_count link_fs \<le> fs_inodes_per_group link_fs * fs_group_desc_count link_fs"
    "fs_inodes_per_group link_fs * fs_group_desc_count link_fs < 2 ^ 32" "(0 :: nat) < 2 ^ 32" "hint_ok (fs_inodes_count link_fs) ?hint"
    by (simp_all add: link_fs_def hint_ok_def)
  obtain r where r: "ext2fs_create_icount2 env (\<lambda>_. True) link_fs (Inr 2) 1 0 ?hint = Some r" and
    c: "case r of Inl e \<Rightarrow> e = EXT2_ET_NO_MEMORY \<and> (\<exists>n :: nat. \<not> True)
      | Inr ic \<Rightarrow> (ic_fullmap ic \<noteq> None \<longrightarrow> (1 :: u32) AND 2 \<noteq> 0 \<and> (1 :: u32) AND 1 \<noteq> 0) \<and>
         (ic_fullmap ic = None \<longrightarrow>
            (\<exists>as ic' S M L. icount_run env tdb fresh link_calls ic = Some (as, ic') \<and> ext2fs_icount_validate ic' = Some 0 \<and>
               represents (fs_inodes_count link_fs) ic' S M L \<and> links_run (fs_inodes_count link_fs) link_calls (\<lambda>_. 0) as (links S M L)))"
    using icount_session_refines [OF h, of env "\<lambda>_. True" 2 1 tdb fresh link_calls] by blast
  show "\<exists>ic as ic' S M L. ext2fs_create_icount2 env (\<lambda>_. True) link_fs (Inr 2) 1 0 ?hint = Some (Inr ic) \<and>
    icount_run env tdb fresh link_calls ic = Some (as, ic') \<and> ext2fs_icount_validate ic' = Some 0 \<and>
    represents (fs_inodes_count link_fs) ic' S M L \<and> links_run (fs_inodes_count link_fs) link_calls (\<lambda>_. 0) as (links S M L)"
    using r c by (cases r) simp_all
qed

text \<open>C15. With one cell per inode (both options set and memory for the cells) the array of cells has as many cells as there are inodes but is
  indexed by the inode number, which counts from one: every inode but the last can be incremented, and the increment of the last one, a
  valid inode, reads and writes behind the array.\<close>

theorem icount_fullmap_overflows:
  assumes "\<forall>n. mem n" "1 \<le> fs_inodes_count fs" "fs_inodes_count fs < 2 ^ 31"
  shows "\<exists>ic. ext2fs_create_icount env mem fs num_dirs 3 sz = Some (Inr ic) \<and> ext2fs_icount_increment ops tdb mem fresh ic (of_nat (fs_inodes_count fs)) = None \<and>
    (\<forall>ino. 1 \<le> unat ino \<and> unat ino < fs_inodes_count fs \<longrightarrow>
       (\<exists>ic'. ext2fs_icount_increment ops tdb mem fresh ic ino = Some (0, Some 1, ic')))"
proof -
  let ?n = "fs_inodes_count fs"
  let ?ic = "\<lparr>ic_magic = EXT2_ET_MAGIC_ICOUNT, ic_single = None, ic_multiple = None, ic_count = 0, ic_size = 0, ic_num_inodes = of_nat ?n, ic_cursor = 0,
     ic_list = None, ic_last_lookup = None, ic_tdb = None, ic_fullmap = Some (replicate ?n 0)\<rparr>"
  have "ext2fs_create_icount env mem fs num_dirs 3 sz = Some (Inr ?ic)"
    using assms by (simp add: ext2fs_create_icount_def ext2fs_create_icount2_def alloc_icount_def)
  moreover have n: "unat (of_nat ?n :: u32) = ?n" using assms(3) by (simp add: unat_of_nat)
  moreover have "ext2fs_icount_increment ops tdb mem fresh ?ic (of_nat ?n) = None"
    using assms(2) n by (auto simp: ext2fs_icount_increment_def rd_def)
  moreover have "\<exists>ic'. ext2fs_icount_increment ops tdb mem fresh ?ic ino = Some (0, Some 1, ic')" if "1 \<le> unat ino" "unat ino < ?n" for ino
    using that n
    by (auto simp: ext2fs_icount_increment_def rd_def wr_def increment_done_def mark_multiple_def icount_16_xlate_def word_less_nat_alt)
  ultimately show ?thesis by blast
qed

theorem icount_fullmap_overflows_witness:
  "\<forall>env ops tdb fresh. \<exists>ic :: (priv, unit) ext2_icount. ext2fs_create_icount env (\<lambda>_. True) link_fs (Inr 2) 3 0 = Some (Inr ic) \<and>
    ext2fs_icount_increment ops tdb (\<lambda>_. True) fresh ic (of_nat (fs_inodes_count link_fs)) = None \<and>
    (\<forall>ino. 1 \<le> unat ino \<and> unat ino < fs_inodes_count link_fs \<longrightarrow>
       (\<exists>ic'. ext2fs_icount_increment ops tdb (\<lambda>_. True) fresh ic ino = Some (0, Some 1, ic')))"
  by (intro allI, rule icount_fullmap_overflows) (simp_all add: link_fs_def)

end
