(* ===== verification/Spec2Isabelle.thy ===== *)
theory Spec2Isabelle
  imports Badblocks Bitmap_Properties Arg_Fuzz_Properties Region Refcount Blknum_Fields I_Block Closefs Crc16 Uuid Resize_Extent Alloc_Free_Run Num_Dirs Icount_Session
begin

text \<open>
  A verification library for ConFuzz, a fuzzer for the configuration of file-system tools, and for the file-system library and tools
  it carries under \<^verbatim>\<open>src/src/e2fsprogs\<close>. ConFuzz itself is \<^verbatim>\<open>src/src/arg_fuzz.c\<close>: it reads a description of the
  arguments of a tool, switches a random consistent choice of them on and prints a command line. The tools work on a file system through
  libext2fs: bitmaps record the blocks and inodes in use, allocation takes from them and keeps the counts and checksums of the group
  descriptors, and small containers (lists of blocks, reference counts, regions, translation tables) serve the checker and the resizer.

  \<^bold>\<open>Shared.\<close> Prelude: error codes, memory access that fails out of bounds (\<open>rd\<close>, \<open>wr\<close>), machine integers as naturals with
  the wrap-around written out (\<open>add64\<close>, \<open>sub64\<close>, \<open>add32\<close>, \<open>sub32\<close>) or as words, an allocator as a predicate on request
  sizes. A result \<open>None\<close> is an access outside a buffer, a division by zero, an undefined shift or a loop that does not end; error codes are
  values.

  \<^bold>\<open>Fuzzer.\<close>
  \<^item> Arg_Fuzz (\<^verbatim>\<open>arg_fuzz.c\<close>): the nodes of a description as records, reading a description from an abstract JSON tree, random
    numbers, enabling of dependencies and children, mutual exclusion, printing and a whole round. Arg_Fuzz_Correct and Arg_Fuzz_Properties:
    termination of the recursions, bounds of every access, the range of random values, what mutual exclusion leaves on and where its scratch
    array overflows. The random numbers are any stream; the draws that round up to the excluded bound are a case of the statements. The recursion of \<open>branch_generate\<close> has fuel, the number of nodes plus one, and the theorem shows that it is enough.

  \<^bold>\<open>Bitmaps.\<close>
  \<^item> Bitops (\<^verbatim>\<open>lib/ext2fs/bitops.c\<close>, \<^verbatim>\<open>bitops.h\<close>): bits of a byte array.
  \<^item> Bmap64 (\<^verbatim>\<open>lib/ext2fs/bmap64.h\<close>): the 64-bit bitmap object, the table of operations, and the contract of a back
    end as the locale \<open>bitmap_backend\<close>.
  \<^item> Bitmap_Ba (\<^verbatim>\<open>lib/ext2fs/blkmap64_ba.c\<close>), Bitmap_Rb, Bitmap_Rb_Correct and Bitmap_Rb_Range
    (\<^verbatim>\<open>lib/ext2fs/blkmap64_rb.c\<close>): the two back ends, each with an interpretation of the contract. Bmap_Ops: the call
    through the table of an object, a third interpretation.
  \<^item> Gen_Bitmap32 (\<^verbatim>\<open>lib/ext2fs/gen_bitmap.c\<close>): the legacy bitmaps.
  \<^item> Gen_Bitmap64 (\<^verbatim>\<open>lib/ext2fs/gen_bitmap64.c\<close>, \<^verbatim>\<open>bitmaps.c\<close>) and Gen_Bitmap64_Correct: the generic layer,
    its guarantees proved once from the contract. Inode_Bitmap: the bitmaps of inodes that allocation and link counts use. Bmap_Session: sequences of calls refine an abstract set, and the back ends give the same results but
    for two, which the statements name: unmarking a clear number, and searching an empty bitmap for a clear number. Bitmap_Properties: the properties of single functions.

  \<^bold>\<open>Superblock, descriptors and inodes.\<close>
  \<^item> Fs_Struct (\<^verbatim>\<open>lib/ext2fs/ext2_fs.h\<close>, \<^verbatim>\<open>ext2fs.h\<close>): superblock, inode and handle. Group descriptors are the byte array
    they are in memory, so that descriptors of 32 and 64 bytes share one model.
  \<^item> Blknum, Blknum_Geometry and Blknum_Fields (\<^verbatim>\<open>lib/ext2fs/blknum.c\<close>): counts, group geometry and descriptor fields; fields are
    independent of each other. I_Block (\<^verbatim>\<open>i_block.c\<close>, \<^verbatim>\<open>valid_blk.c\<close>): block counts of an inode. Closefs
    (\<^verbatim>\<open>closefs.c\<close>): which groups hold a backup of the superblock.
  \<^item> Crc16 (\<^verbatim>\<open>crc16.c\<close>) and Crc32c (\<^verbatim>\<open>crc32c.c\<close>, \<^verbatim>\<open>gen_crc32ctable.c\<close>): the table-driven checksums equal the bit-by-bit
    ones. Csum and Csum_Correct (\<^verbatim>\<open>csum.c\<close>): a checksum that was set is verified, and nothing but the field changes; the layouts of leaf and index blocks
    of a directory are stated apart from the code that recognises them.

  \<^bold>\<open>Allocation.\<close>
  \<^item> Alloc (\<^verbatim>\<open>lib/ext2fs/alloc.c\<close>, \<^verbatim>\<open>alloc_stats.c\<close>): searches for blocks, runs and inodes, statistics and callbacks.
  \<^item> Desc_Change: changes of some fields of one group descriptor, and that they compose. Alloc_Correct and Alloc_Session: sequences of
    allocations and releases of blocks refine an abstract allocator on a set of clusters. Alloc_Inode and Alloc_Inode_Session: the same for
    inodes and directories, with the high-water marks of the inode tables. Num_Dirs (\<^verbatim>\<open>get_num_dirs.c\<close>): the number of
    directories that those descriptors give. Alloc_Range and Alloc_Free_Run: runs of blocks, what the searches return and when they
    do not return.

  \<^bold>\<open>Containers.\<close>
  \<^item> Badblocks (\<^verbatim>\<open>lib/ext2fs/badblocks.c\<close>): sorted lists of block numbers. Region and Refcount (\<^verbatim>\<open>e2fsck/region.c\<close>,
    \<^verbatim>\<open>ea_refcount.c\<close>): claimed intervals and reference counts. Icount, Icount_Correct and Icount_Session
    (\<^verbatim>\<open>lib/ext2fs/icount.c\<close>): link counts of inodes, kept in two bitmaps and a sorted array that grows; the lemmas on sorted keys are those
    of Refcount, and sessions refine a map of counts. Single: rounding of \<^verbatim>\<open>float\<close>, for the growth of that array and for the search of
    Resize_Extent. Resize_Extent (\<^verbatim>\<open>resize/extent.c\<close>): the translation table with its
    interpolation search in single precision. Uuid (\<^verbatim>\<open>lib/uuid\<close>): packing and text form of identifiers.

  Loops that can wrap and run forever in C are partial functions whose value is \<open>None\<close> then; the theorems that mention them prove that
  they return, or that they do not. Sessions of the reference counts iterate with fuel, one more than the number of entries, which is enough
  because every step passes an entry.

  \<^bold>\<open>Bounds.\<close> The allocation theorems take file systems whose counts fit their fields: fewer than \<open>2 ^ 16\<close> clusters or inodes per group, whole
  clusters per group, and sizes whose sums stay below the width of their type (\<open>alloc_ok\<close>, \<open>inode_ok\<close>). Block bitmaps are never empty there, because
  the tree back end finds no clear number in an empty tree. Link counts take file systems of fewer than \<open>2 ^ 31\<close> inodes, for which the
  \<^verbatim>\<open>int\<close> indices of the code are exact and the product in single precision fits 32 bits. Cluster shifts are below 31, the largest for which
  the code's shift of an \<^verbatim>\<open>int\<close> is defined; lists of blocks have sizes that fit an \<^verbatim>\<open>int\<close>, and reference counts at most \<open>2 ^ 30\<close> entries, so
  that the sum of two indices fits one. The translation table takes at most \<open>2 ^ 24\<close> pairs that span less than \<open>2 ^ 31\<close>.

  \<^bold>\<open>Not modelled.\<close> Functions that read or write the device (opening and creating a file system, inode scans, extent trees, block iteration,
  directories, the I/O managers), the passes of the checker, the resizer and the tools, which are interactive programs over those; libblkid,
  the generation of identifiers from clock and network, messages and translations; vendored code (tdb, SHA-2). Rotation and colouring of
  \<^verbatim>\<open>rbtree.c\<close> are not modelled because the tree back end is the in-order sequence of its extents. Reading a bitmap, reading an inode
  and writing zeros to the device, which may fail, are parameters of the definitions that use them, as are the callbacks of the handle, the tdb database and
  json-c.
\<close>

end
